(* ===== verification/Prelude.thy ===== *)
theory Prelude
  imports Main "HOL-Library.Word"
begin

text \<open>
  Shared material of the development: the names of the model's basic types, the machine
  arithmetic of the source (Rust's \<open>saturating_\<close> and \<open>checked_\<close> operations and the plain
  operators, which trap on overflow because the crate is built with \<open>overflow-checks = true\<close>),
  sequencing of fallible computations, and the generic lemmas on maps and lists that several
  components use.
\<close>

section \<open>Basic types\<close>

text \<open>
  Machine integers keep their width.  A Soroban \<open>Bytes\<close>, \<open>BytesN\<close>, \<open>String\<close> or \<open>Symbol\<close>
  is a list of bytes; HOL's \<open>char\<close> is exactly a byte, so all of them are \<open>string\<close>.  An
  \<open>Address\<close> is represented by its textual (strkey) form, which is what \<open>Address::to_string\<close>
  returns; it identifies the address.
\<close>

type_synonym u8 = "8 word"
type_synonym u32 = "32 word"
type_synonym u64 = "64 word"
type_synonym bytes = string
type_synonym address = string

section \<open>Collections of proof rules\<close>

named_theorems ok_simps \<open>when a fallible step succeeds\<close>
named_theorems unat_simps \<open>values of saturating and checked arithmetic as natural numbers\<close>

section \<open>Machine arithmetic\<close>

definition word_top :: "'a::len word" where
  "word_top = - 1"

definition sat_add :: "'a::len word \<Rightarrow> 'a word \<Rightarrow> 'a word" where
  "sat_add a b = (if unat a + unat b < 2 ^ LENGTH('a) then a + b else word_top)"

definition sat_sub :: "'a::len word \<Rightarrow> 'a word \<Rightarrow> 'a word" where
  "sat_sub a b = (if b \<le> a then a - b else 0)"

definition sat_mul :: "'a::len word \<Rightarrow> 'a word \<Rightarrow> 'a word" where
  "sat_mul a b = (if unat a * unat b < 2 ^ LENGTH('a) then a * b else word_top)"

definition checked_add :: "'a::len word \<Rightarrow> 'a word \<Rightarrow> 'a word option" where
  "checked_add a b = (if unat a + unat b < 2 ^ LENGTH('a) then Some (a + b) else None)"

definition checked_mul :: "'a::len word \<Rightarrow> 'a word \<Rightarrow> 'a word option" where
  "checked_mul a b = (if unat a * unat b < 2 ^ LENGTH('a) then Some (a * b) else None)"

definition checked_sub :: "'a::len word \<Rightarrow> 'a word \<Rightarrow> 'a word option" where
  "checked_sub a b = (if b \<le> a then Some (a - b) else None)"

lemma unat_word_top [unat_simps]: "unat (word_top :: 'a::len word) = 2 ^ LENGTH('a) - 1"
  by (simp add: word_top_def unsigned_minus_1_eq_mask mask_eq_exp_minus_1)

lemma word_le_top [simp]: "a \<le> (word_top :: 'a::len word)"
  by (simp add: word_top_def)

lemma unat_lt_pow [simp]: "unat (a :: 'a::len word) < 2 ^ LENGTH('a)"
  by (rule unsigned_less)

lemma unat_sat_add [unat_simps]:
  "unat (sat_add a b) = min (unat a + unat b) (2 ^ LENGTH('a) - 1)" for a b :: "'a::len word"
  by (auto simp: sat_add_def unat_word_top unat_word_ariths min_def)

lemma unat_sat_sub [unat_simps]: "unat (sat_sub a b) = unat a - unat b" for a b :: "'a::len word"
  by (auto simp: sat_sub_def unat_sub word_le_nat_alt)

lemma unat_sat_mul [unat_simps]:
  "unat (sat_mul a b) = min (unat a * unat b) (2 ^ LENGTH('a) - 1)" for a b :: "'a::len word"
proof (cases "unat a * unat b < 2 ^ LENGTH('a)")
  case True
  then have "min (unat a * unat b) (2 ^ LENGTH('a) - 1) = unat a * unat b"
    by (intro min_absorb1) linarith
  with True show ?thesis by (simp add: sat_mul_def unat_word_ariths)
next
  case False
  then have "min (unat a * unat b) (2 ^ LENGTH('a) - 1) = 2 ^ LENGTH('a) - 1"
    by (intro min_absorb2) linarith
  with False show ?thesis by (simp add: sat_mul_def unat_word_top)
qed

lemma checked_add_Some [unat_simps]:
  "checked_add a b = Some c \<longleftrightarrow> unat a + unat b < 2 ^ LENGTH('a) \<and> unat c = unat a + unat b"
  for a b c :: "'a::len word"
  by (auto simp: checked_add_def unat_word_ariths word_unat_eq_iff)

lemma checked_add_None [unat_simps]:
  "checked_add a b = None \<longleftrightarrow> 2 ^ LENGTH('a) \<le> unat a + unat b" for a b :: "'a::len word"
  by (auto simp: checked_add_def)

lemma le_sat_add [simp]: "a \<le> sat_add a b" for a b :: "'a::len word"
proof -
  have "unat a \<le> 2 ^ LENGTH('a) - 1"
    using unat_lt_pow [of a] by linarith
  then show ?thesis
    by (simp add: word_le_nat_alt unat_simps)
qed

lemma sat_sub_le [simp]: "sat_sub a b \<le> a" for a b :: "'a::len word"
  by (simp add: word_le_nat_alt unat_simps)

lemma sat_add_0 [simp]: "sat_add a 0 = a" for a :: "'a::len word"
  by (simp add: sat_add_def)

lemma sat_sub_0 [simp]: "sat_sub a 0 = a" for a :: "'a::len word"
  by (simp add: sat_sub_def)

lemma sat_sub_self [simp]: "sat_sub a a = 0" for a :: "'a::len word"
  by (simp add: sat_sub_def)

section \<open>Fallible steps\<close>

text \<open>
  A step that may fail returns \<open>'e + 'a\<close>: \<open>Inl\<close> carries the failure and \<open>Inr\<close> the result.
  \<open>bind_ok\<close> is Rust's \<open>?\<close> operator; \<open>of_option\<close> is \<open>ok_or\<close>.  The rules of \<open>ok_simps\<close>
  turn the success of a sequence into the success of its parts, so that a proof about a
  successful call starts from all its guards.
\<close>

fun bind_ok :: "'e + 'a \<Rightarrow> ('a \<Rightarrow> 'e + 'b) \<Rightarrow> 'e + 'b" where
  "bind_ok (Inl e) f = Inl e"
| "bind_ok (Inr x) f = f x"

definition of_option :: "'e \<Rightarrow> 'a option \<Rightarrow> 'e + 'a" where
  "of_option e x = (case x of None \<Rightarrow> Inl e | Some v \<Rightarrow> Inr v)"

definition require :: "bool \<Rightarrow> 'e \<Rightarrow> 'e + unit" where
  "require b e = (if b then Inr () else Inl e)"

lemma bind_ok_Inr [ok_simps]: "bind_ok m f = Inr y \<longleftrightarrow> (\<exists>x. m = Inr x \<and> f x = Inr y)"
  by (cases m) auto

lemma bind_ok_Inl: "bind_ok m f = Inl e \<longleftrightarrow> m = Inl e \<or> (\<exists>x. m = Inr x \<and> f x = Inl e)"
  by (cases m) auto

lemma bind_ok_cong [fundef_cong]:
  "\<lbrakk>m = m'; \<And>x. m' = Inr x \<Longrightarrow> f x = f' x\<rbrakk> \<Longrightarrow> bind_ok m f = bind_ok m' f'"
  by (cases m') auto

lemma of_option_Inr [ok_simps]: "of_option e x = Inr v \<longleftrightarrow> x = Some v"
  by (auto simp: of_option_def split: option.splits)

lemma of_option_simps [simp]: "of_option e None = Inl e" "of_option e (Some v) = Inr v"
  by (simp_all add: of_option_def)

lemma require_Inr [ok_simps]: "require b e = Inr u \<longleftrightarrow> b"
  by (simp add: require_def)

lemma require_simps [simp]: "require True e = Inr ()" "require False e = Inl e"
  by (simp_all add: require_def)

lemma if_Inl_Inr [ok_simps]: "(if b then Inl e else m) = Inr y \<longleftrightarrow> \<not> b \<and> m = Inr y"
  by auto

text \<open>\<open>list_bind\<close> is a \<open>for\<close> loop whose body may fail: it threads the state and stops at the
  first failure.\<close>

fun list_bind :: "('s \<Rightarrow> 'x \<Rightarrow> 'e + 's) \<Rightarrow> 's \<Rightarrow> 'x list \<Rightarrow> 'e + 's" where
  "list_bind f s [] = Inr s"
| "list_bind f s (x # xs) = bind_ok (f s x) (\<lambda>s'. list_bind f s' xs)"

lemma list_bind_append:
  "list_bind f s (xs @ ys) = bind_ok (list_bind f s xs) (\<lambda>s'. list_bind f s' ys)"
proof (induction xs arbitrary: s)
  case (Cons x xs)
  then show ?case by (cases "f s x") simp_all
qed simp

lemma list_bind_invariant:
  assumes "list_bind f s xs = Inr s'" and "I s"
    and "\<And>s x s'. \<lbrakk>x \<in> set xs; I s; f s x = Inr s'\<rbrakk> \<Longrightarrow> I s'"
  shows "I s'"
  using assms
proof (induction xs arbitrary: s)
  case (Cons x xs)
  from Cons.prems(1) obtain t where t: "f s x = Inr t" "list_bind f t xs = Inr s'"
    by (auto simp: ok_simps)
  with Cons.prems have "I t" by auto
  with t(2) Cons.IH Cons.prems(3) show ?case by (metis list.set_intros(2))
qed simp

section \<open>Maps with a default\<close>

text \<open>\<open>storage().get(k).unwrap_or(d)\<close>.\<close>

definition get_or :: "'v \<Rightarrow> 'v option \<Rightarrow> 'v" where
  "get_or d x = (case x of None \<Rightarrow> d | Some v \<Rightarrow> v)"

lemma get_or_simps [simp]: "get_or d None = d" "get_or d (Some v) = v"
  by (simp_all add: get_or_def)

section \<open>Lists\<close>

text \<open>\<open>Vec::contains\<close> guarding \<open>push_back\<close>, and removal of the first occurrence.\<close>

definition push_new :: "'a \<Rightarrow> 'a list \<Rightarrow> 'a list" where
  "push_new x xs = (if x \<in> set xs then xs else xs @ [x])"

lemma set_push_new [simp]: "set (push_new x xs) = insert x (set xs)"
  by (auto simp: push_new_def)

lemma distinct_push_new [simp]: "distinct (push_new x xs) \<longleftrightarrow> distinct xs"
  by (auto simp: push_new_def)

lemma length_push_new:
  "length (push_new x xs) = (if x \<in> set xs then length xs else Suc (length xs))"
  by (simp add: push_new_def)

text \<open>The identifiers \<open>from..to\<close> of a counted loop.\<close>

definition id_range :: "u64 \<Rightarrow> u64 \<Rightarrow> u64 list" where
  "id_range from_id to_id = map of_nat [unat from_id..<unat to_id]"

lemma length_id_range [simp]: "length (id_range m n) = unat n - unat m"
  by (simp add: id_range_def)

lemma id_range_empty [simp]: "n \<le> m \<Longrightarrow> id_range m n = []"
  by (simp add: id_range_def word_le_nat_alt)

lemma set_id_range: "set (id_range 0 n) = {l. l < n}"
proof -
  have "l \<in> set (id_range 0 n)" if "l < n" for l
    using that unfolding id_range_def
    by (auto simp: word_less_nat_alt intro!: image_eqI [of _ _ "unat l"])
  moreover have "l < n" if "l \<in> set (id_range 0 n)" for l
  proof -
    from that obtain m where "l = of_nat m" "m < unat n" by (auto simp: id_range_def)
    then show ?thesis using unat_lt_pow [of n]
      by (simp add: word_less_nat_alt unsigned_of_nat take_bit_nat_eq_self)
  qed
  ultimately show ?thesis by blast
qed

lemma distinct_id_range: "distinct (id_range 0 n)"
proof -
  have "inj_on (of_nat :: nat \<Rightarrow> u64) {0..<unat n}"
  proof (rule inj_onI)
    fix x y assume "x \<in> {0..<unat n}" "y \<in> {0..<unat n}" "of_nat x = (of_nat y :: u64)"
    then have "unat (of_nat x :: u64) = unat (of_nat y :: u64)" "x < 2 ^ 64" "y < 2 ^ 64"
      using unat_lt_pow [of n] by auto
    then show "x = y" by (simp add: unsigned_of_nat take_bit_nat_eq_self)
  qed
  then show ?thesis by (simp add: id_range_def distinct_map)
qed

text \<open>Big-endian encoding of a number in a fixed count of bytes (\<open>to_be_bytes\<close>).\<close>

fun be_bytes :: "nat \<Rightarrow> nat \<Rightarrow> bytes" where
  "be_bytes 0 n = []"
| "be_bytes (Suc k) n = be_bytes k (n div 256) @ [char_of (n mod 256)]"

lemma length_be_bytes [simp]: "length (be_bytes k n) = k"
  by (induction k arbitrary: n) auto

lemma be_bytes_inject:
  "be_bytes k m = be_bytes k n \<Longrightarrow> m < 256 ^ k \<Longrightarrow> n < 256 ^ k \<Longrightarrow> m = n"
proof (induction k arbitrary: m n)
  case (Suc k)
  from Suc.prems(1) have eq: "be_bytes k (m div 256) = be_bytes k (n div 256)"
    and lo: "char_of (m mod 256) = (char_of (n mod 256) :: char)" by simp_all
  from lo have "m mod 256 = n mod 256"
    using arg_cong [OF lo, of "of_char :: char \<Rightarrow> nat"] by simp
  moreover have "m div 256 = n div 256"
    using Suc.IH [OF eq] Suc.prems(2,3) by (simp add: less_mult_imp_div_less mult.commute)
  ultimately show ?case
    by (metis div_mult_mod_eq)
qed simp

definition u32_be :: "u32 \<Rightarrow> bytes" where
  "u32_be w = be_bytes 4 (unat w)"

definition u64_be :: "u64 \<Rightarrow> bytes" where
  "u64_be w = be_bytes 8 (unat w)"

lemma length_u32_be [simp]: "length (u32_be w) = 4"
  by (simp add: u32_be_def)

lemma length_u64_be [simp]: "length (u64_be w) = 8"
  by (simp add: u64_be_def)

lemma u32_be_inject [simp]: "u32_be v = u32_be w \<longleftrightarrow> v = w"
  using be_bytes_inject [of 4 "unat v" "unat w"] unat_lt_pow [of v] unat_lt_pow [of w]
  by (auto simp: u32_be_def word_unat_eq_iff)

lemma u64_be_inject [simp]: "u64_be v = u64_be w \<longleftrightarrow> v = w"
  using be_bytes_inject [of 8 "unat v" "unat w"] unat_lt_pow [of v] unat_lt_pow [of w]
  by (auto simp: u64_be_def word_unat_eq_iff)

text \<open>\<open>to_string\<close> of an unsigned number.\<close>

fun decimal :: "nat \<Rightarrow> string" where
  "decimal n = (if n < 10 then [char_of (48 + n)] else decimal (n div 10) @ [char_of (48 + n mod 10)])"

declare decimal.simps [simp del]

section \<open>Searching lists\<close>

text \<open>The first element that satisfies a test is replaced (\<open>for r in xs.iter_mut()\<close> with a return).\<close>

fun update_first :: "('a \<Rightarrow> bool) \<Rightarrow> 'a \<Rightarrow> 'a list \<Rightarrow> 'a list" where
  "update_first P y [] = []"
| "update_first P y (x # xs) = (if P x then y # xs else x # update_first P y xs)"

lemma length_update_first [simp]: "length (update_first P y xs) = length xs"
  by (induction xs) auto

lemma set_update_first: "set (update_first P y xs) \<subseteq> insert y (set xs)"
  by (induction xs) auto

lemma find_update_first:
  assumes "find (\<lambda>x. key x = k) xs \<noteq> None" and "key y = k"
  shows "find (\<lambda>x. key x = j) (update_first (\<lambda>x. key x = k) y xs) =
    (if j = k then Some y else find (\<lambda>x. key x = j) xs)"
  using assms by (induction xs) auto

lemma find_filter_key:
  "find (\<lambda>x. key x = j) (filter (\<lambda>x. key x \<notin> ks) xs) =
    (if j \<in> ks then None else find (\<lambda>x. key x = j) xs)"
  by (induction xs) auto

text \<open>Removing keys one by one.\<close>

lemma drop_records: "fold (\<lambda>i m. m(i := None)) xs m = (\<lambda>i. if i \<in> set xs then None else m i)"
  by (induction xs arbitrary: m) auto

section \<open>Queries over a range of identifiers\<close>

text \<open>
  \<open>while id <= to && len < limit { ...; id += 1 }\<close>: the loop collects the records found, and the
  final increment traps at the largest identifier.
\<close>

function range_loop :: "'e \<Rightarrow> (u64 \<Rightarrow> 'r option) \<Rightarrow> u64 \<Rightarrow> nat \<Rightarrow> u64 \<Rightarrow> 'r list \<Rightarrow> 'e + 'r list" where
  "range_loop err get to_id limit i acc =
     (if i \<le> to_id \<and> length acc < limit
      then bind_ok (of_option err (checked_add i 1)) (\<lambda>j.
             range_loop err get to_id limit j (case get i of None \<Rightarrow> acc | Some r \<Rightarrow> acc @ [r]))
      else Inr acc)"
  by pat_completeness auto

termination
  by (relation "measure (\<lambda>(err, get, to_id, limit, i, acc). 2 ^ 64 - unat i)")
    (auto simp: of_option_Inr checked_add_Some)

declare range_loop.simps [simp del]

text \<open>The identifiers of a closed range, and what the loop finds.\<close>

definition ids_between :: "u64 \<Rightarrow> u64 \<Rightarrow> u64 list" where
  "ids_between i to_id = map of_nat [unat i..<Suc (unat to_id)]"

lemma ids_between_empty: "\<not> i \<le> to_id \<Longrightarrow> ids_between i to_id = []"
  by (simp add: ids_between_def word_le_nat_alt)

lemma ids_between_step:
  assumes "i \<le> to_id" and "unat j = unat i + 1"
  shows "ids_between i to_id = i # ids_between j to_id"
  using assms by (simp add: ids_between_def word_le_nat_alt upt_conv_Cons del: upt_Suc)

lemma set_ids_between: "set (ids_between i to_id) = {k. i \<le> k \<and> k \<le> to_id}"
proof -
  have "k \<in> set (ids_between i to_id)" if "i \<le> k" "k \<le> to_id" for k
    using that unfolding ids_between_def
    by (auto simp: word_le_nat_alt simp del: upt_Suc intro!: image_eqI [of _ _ "unat k"])
  moreover have "i \<le> k \<and> k \<le> to_id" if "k \<in> set (ids_between i to_id)" for k
  proof -
    from that obtain m where m: "k = of_nat m" "unat i \<le> m" "m \<le> unat to_id"
      by (auto simp: ids_between_def less_Suc_eq_le simp del: upt_Suc)
    with unat_lt_pow [of to_id] have "unat k = m"
      by (simp add: unsigned_of_nat take_bit_nat_eq_self)
    with m show ?thesis by (simp add: word_le_nat_alt)
  qed
  ultimately show ?thesis by blast
qed

lemma ids_between_sorted:
  "sorted_wrt (<) (ids_between i j)" "sorted (ids_between i j)" "distinct (ids_between i j)"
proof -
  show "sorted_wrt (<) (ids_between i j)"
    unfolding ids_between_def sorted_wrt_map
  proof (rule sorted_wrt_mono_rel [OF _ sorted_wrt_upt])
    fix x y assume "x \<in> set [unat i..<Suc (unat j)]" "y \<in> set [unat i..<Suc (unat j)]" and lt: "x < y"
    with unat_lt_pow [of j] have "x < 2 ^ 64" "y < 2 ^ 64" by auto
    with lt show "(of_nat x :: u64) < of_nat y"
      by (simp add: word_less_nat_alt unsigned_of_nat take_bit_nat_eq_self)
  qed
  then show "sorted (ids_between i j)" "distinct (ids_between i j)"
    by (simp_all add: strict_sorted_iff)
qed

text \<open>
  The loop returns the first \<open>limit\<close> records of the range, unless the range ends at the largest
  identifier and the identifiers before it do not fill the answer.
\<close>

definition range_overflows :: "(u64 \<Rightarrow> 'r option) \<Rightarrow> u64 \<Rightarrow> nat \<Rightarrow> u64 \<Rightarrow> 'r list \<Rightarrow> bool" where
  "range_overflows get to_id limit i acc \<longleftrightarrow>
     to_id = word_top \<and> i \<le> to_id \<and>
     length acc + length (List.map_filter get (map of_nat [unat i..<unat to_id])) < limit"

lemma range_loop_result:
  assumes "length acc \<le> limit"
  shows "range_loop err get to_id limit i acc =
    (if range_overflows get to_id limit i acc then Inl err
     else Inr (acc @ take (limit - length acc) (List.map_filter get (ids_between i to_id))))"
  using assms
proof (induction err get to_id limit i acc rule: range_loop.induct)
  case (1 err get to_id limit i acc)
  let ?acc = "case get i of None \<Rightarrow> acc | Some r \<Rightarrow> acc @ [r]"
  show ?case
  proof (cases "i \<le> to_id \<and> length acc < limit")
    case False
    with 1(2) show ?thesis
      by (subst range_loop.simps)
        (auto simp: range_overflows_def ids_between_empty List.map_filter_simps)
  next
    case True
    show ?thesis
    proof (cases "checked_add i 1")
      case None
      with True have "to_id = i" "i = word_top"
        using unat_lt_pow [of i] unat_lt_pow [of to_id]
        by (auto simp: checked_add_None word_unat_eq_iff unat_word_top word_le_nat_alt)
      with True None show ?thesis
        by (subst range_loop.simps)
          (simp add: range_overflows_def of_option_def List.map_filter_simps)
    next
      case (Some j)
      then have j: "unat j = unat i + 1" by (simp add: checked_add_Some)
      have "i \<noteq> word_top" using Some by (auto simp: checked_add_Some unat_word_top)
      then have "range_overflows get to_id limit j ?acc = range_overflows get to_id limit i acc"
        using True j by (cases "i = to_id")
          (auto simp: range_overflows_def List.map_filter_simps upt_conv_Cons word_le_nat_alt
            word_unat_eq_iff split: option.split)
      moreover have "range_loop err get to_id limit j ?acc =
          (if range_overflows get to_id limit j ?acc then Inl err
           else Inr (?acc @ take (limit - length ?acc) (List.map_filter get (ids_between j to_id))))"
        by (rule 1(1) [OF True]) (use Some True in \<open>auto simp: of_option_def split: option.split\<close>)
      ultimately show ?thesis
        using True Some j by (subst range_loop.simps)
          (auto simp: of_option_def ids_between_step List.map_filter_simps take_Cons' Suc_diff_Suc
            split: option.split)
    qed
  qed
qed

end
