(* ===== verification/Errors.thy ===== *)
theory Errors
  imports Prelude
begin

text \<open>
  \<^verbatim>\<open>src/errors.rs\<close>: the error codes of the crate with their stable numbers and default messages,
  the error value \<open>AnchorKitError\<close> with its constructors, and the ways a contract call can
  trap.  A trap (an explicit \<open>panic_with_error!\<close>, a missing authorisation, an arithmetic
  overflow or a failing host function) aborts the invocation.
\<close>

section \<open>Error codes\<close>

datatype (plugins only: size) error_code =
    AlreadyInitialized
  | AttestorAlreadyRegistered
  | AttestorNotRegistered
  | UnauthorizedAttestor
  | InvalidTimestamp
  | ReplayAttack
  | InvalidQuote
  | InvalidServiceType
  | InvalidTransactionIntent
  | StaleQuote
  | ComplianceNotMet
  | InvalidEndpointFormat
  | NoQuotesAvailable
  | ServicesNotConfigured
  | ValidationError
  | RateLimitExceeded
  | AttestationNotFound
  | InvalidSep10Token
  | KycNotFound
  | SessionNotFound
  | QuoteNotFound
  | AuditLogNotFound
  | TransactionNotFound
  | KycPending
  | KycRejected
  | WebhookDeliveryFailed
  | NotInitialized
  | IllegalTransition
  | SessionExpired
  | SessionClosed
  | UnsupportedCapabilityVersion
  | Unauthorized
  | SessionOperationLimitExceeded
  | InvalidWeights
  | CacheExpired
  | CacheNotFound
  | AttestorCapacityExceeded
  | CacheCapacityExceeded
  | AttestorProfileNotFound
  | InvalidRequestContext
  | InvalidSessionMetadata
  | InvalidAssetCode
  | EndpointNotSet
  | WebhookUrlNotSet
  | KycExpired
  | AttestorRevoked
  | QuoteExpired
  | SignatureVerificationFailed
  | BatchSizeExceeded
  | InvalidAssetPair
  | InvalidAmount
  | InvalidRetirementTransition
  | FingerprintCollectionFailed
  | MaintenanceWindowNotFound
  | MaintenanceWindowConflict
  | ServiceInMaintenance
  | DependencyNotMet
  | DependencyCycleDetected
  | DependencyNotFound
  | TemplateNotFound
  | InvalidTemplate
  | TemplateAlreadyApplied
  | SloViolation
  | InvalidSloConfig
  | SloNotConfigured
  | AuditLogCapacityExceeded
  | InvalidRegistration
  | ArchiveCapacityExceeded

primrec error_number :: "error_code \<Rightarrow> u32" where
    "error_number AlreadyInitialized = 1"
  | "error_number AttestorAlreadyRegistered = 2"
  | "error_number AttestorNotRegistered = 3"
  | "error_number UnauthorizedAttestor = 4"
  | "error_number InvalidTimestamp = 5"
  | "error_number ReplayAttack = 6"
  | "error_number InvalidQuote = 7"
  | "error_number InvalidServiceType = 8"
  | "error_number InvalidTransactionIntent = 9"
  | "error_number StaleQuote = 10"
  | "error_number ComplianceNotMet = 11"
  | "error_number InvalidEndpointFormat = 12"
  | "error_number NoQuotesAvailable = 13"
  | "error_number ServicesNotConfigured = 14"
  | "error_number ValidationError = 15"
  | "error_number RateLimitExceeded = 16"
  | "error_number AttestationNotFound = 17"
  | "error_number InvalidSep10Token = 18"
  | "error_number KycNotFound = 19"
  | "error_number SessionNotFound = 32"
  | "error_number QuoteNotFound = 33"
  | "error_number AuditLogNotFound = 34"
  | "error_number TransactionNotFound = 35"
  | "error_number KycPending = 20"
  | "error_number KycRejected = 21"
  | "error_number WebhookDeliveryFailed = 22"
  | "error_number NotInitialized = 23"
  | "error_number IllegalTransition = 24"
  | "error_number SessionExpired = 25"
  | "error_number SessionClosed = 26"
  | "error_number UnsupportedCapabilityVersion = 27"
  | "error_number Unauthorized = 28"
  | "error_number SessionOperationLimitExceeded = 30"
  | "error_number InvalidWeights = 31"
  | "error_number CacheExpired = 48"
  | "error_number CacheNotFound = 49"
  | "error_number AttestorCapacityExceeded = 54"
  | "error_number CacheCapacityExceeded = 55"
  | "error_number AttestorProfileNotFound = 50"
  | "error_number InvalidRequestContext = 51"
  | "error_number InvalidSessionMetadata = 52"
  | "error_number InvalidAssetCode = 53"
  | "error_number EndpointNotSet = 56"
  | "error_number WebhookUrlNotSet = 57"
  | "error_number KycExpired = 58"
  | "error_number AttestorRevoked = 59"
  | "error_number QuoteExpired = 60"
  | "error_number SignatureVerificationFailed = 61"
  | "error_number BatchSizeExceeded = 62"
  | "error_number InvalidAssetPair = 63"
  | "error_number InvalidAmount = 64"
  | "error_number InvalidRetirementTransition = 65"
  | "error_number FingerprintCollectionFailed = 66"
  | "error_number MaintenanceWindowNotFound = 77"
  | "error_number MaintenanceWindowConflict = 78"
  | "error_number ServiceInMaintenance = 79"
  | "error_number DependencyNotMet = 68"
  | "error_number DependencyCycleDetected = 69"
  | "error_number DependencyNotFound = 70"
  | "error_number TemplateNotFound = 71"
  | "error_number InvalidTemplate = 72"
  | "error_number TemplateAlreadyApplied = 73"
  | "error_number SloViolation = 74"
  | "error_number InvalidSloConfig = 75"
  | "error_number SloNotConfigured = 76"
  | "error_number AuditLogCapacityExceeded = 80"
  | "error_number InvalidRegistration = 81"
  | "error_number ArchiveCapacityExceeded = 82"

definition error_of_number :: "u32 \<Rightarrow> error_code option" where
  "error_of_number n =
     (if n = 1 then Some AlreadyInitialized
      else if n = 2 then Some AttestorAlreadyRegistered
      else if n = 3 then Some AttestorNotRegistered
      else if n = 4 then Some UnauthorizedAttestor
      else if n = 5 then Some InvalidTimestamp
      else if n = 6 then Some ReplayAttack
      else if n = 7 then Some InvalidQuote
      else if n = 8 then Some InvalidServiceType
      else if n = 9 then Some InvalidTransactionIntent
      else if n = 10 then Some StaleQuote
      else if n = 11 then Some ComplianceNotMet
      else if n = 12 then Some InvalidEndpointFormat
      else if n = 13 then Some NoQuotesAvailable
      else if n = 14 then Some ServicesNotConfigured
      else if n = 15 then Some ValidationError
      else if n = 16 then Some RateLimitExceeded
      else if n = 17 then Some AttestationNotFound
      else if n = 18 then Some InvalidSep10Token
      else if n = 19 then Some KycNotFound
      else if n = 32 then Some SessionNotFound
      else if n = 33 then Some QuoteNotFound
      else if n = 34 then Some AuditLogNotFound
      else if n = 35 then Some TransactionNotFound
      else if n = 20 then Some KycPending
      else if n = 21 then Some KycRejected
      else if n = 22 then Some WebhookDeliveryFailed
      else if n = 23 then Some NotInitialized
      else if n = 24 then Some IllegalTransition
      else if n = 25 then Some SessionExpired
      else if n = 26 then Some SessionClosed
      else if n = 27 then Some UnsupportedCapabilityVersion
      else if n = 28 then Some Unauthorized
      else if n = 30 then Some SessionOperationLimitExceeded
      else if n = 31 then Some InvalidWeights
      else if n = 48 then Some CacheExpired
      else if n = 49 then Some CacheNotFound
      else if n = 54 then Some AttestorCapacityExceeded
      else if n = 55 then Some CacheCapacityExceeded
      else if n = 50 then Some AttestorProfileNotFound
      else if n = 51 then Some InvalidRequestContext
      else if n = 52 then Some InvalidSessionMetadata
      else if n = 53 then Some InvalidAssetCode
      else if n = 56 then Some EndpointNotSet
      else if n = 57 then Some WebhookUrlNotSet
      else if n = 58 then Some KycExpired
      else if n = 59 then Some AttestorRevoked
      else if n = 60 then Some QuoteExpired
      else if n = 61 then Some SignatureVerificationFailed
      else if n = 62 then Some BatchSizeExceeded
      else if n = 63 then Some InvalidAssetPair
      else if n = 64 then Some InvalidAmount
      else if n = 65 then Some InvalidRetirementTransition
      else if n = 66 then Some FingerprintCollectionFailed
      else if n = 77 then Some MaintenanceWindowNotFound
      else if n = 78 then Some MaintenanceWindowConflict
      else if n = 79 then Some ServiceInMaintenance
      else if n = 68 then Some DependencyNotMet
      else if n = 69 then Some DependencyCycleDetected
      else if n = 70 then Some DependencyNotFound
      else if n = 71 then Some TemplateNotFound
      else if n = 72 then Some InvalidTemplate
      else if n = 73 then Some TemplateAlreadyApplied
      else if n = 74 then Some SloViolation
      else if n = 75 then Some InvalidSloConfig
      else if n = 76 then Some SloNotConfigured
      else if n = 80 then Some AuditLogCapacityExceeded
      else if n = 81 then Some InvalidRegistration
      else if n = 82 then Some ArchiveCapacityExceeded
      else None)"

text \<open>The numbers are stable identifiers: reading a number back yields the code it came from.\<close>

lemma error_of_number_of: "error_of_number (error_number e) = Some e"
  by (cases e) (simp_all add: error_of_number_def)

lemma error_number_inject [simp]: "error_number a = error_number b \<longleftrightarrow> a = b"
  by (metis error_of_number_of option.inject)

instantiation error_code :: equal
begin

definition equal_error_code :: "error_code \<Rightarrow> error_code \<Rightarrow> bool" where
  "equal_error_code a b \<longleftrightarrow> error_number a = error_number b"

instance
  by standard (simp add: equal_error_code_def)

end

text \<open>The derived \<open>Ord\<close> of the enum orders the codes by their numbers.\<close>

instantiation error_code :: linorder
begin

definition less_eq_error_code :: "error_code \<Rightarrow> error_code \<Rightarrow> bool" where
  "less_eq_error_code a b \<longleftrightarrow> error_number a \<le> error_number b"

definition less_error_code :: "error_code \<Rightarrow> error_code \<Rightarrow> bool" where
  "less_error_code a b \<longleftrightarrow> error_number a < error_number b"

instance
  by standard (auto simp: less_eq_error_code_def less_error_code_def order_less_le)

end

primrec default_message :: "error_code \<Rightarrow> string" where
    "default_message AlreadyInitialized = ''Contract is already initialized''"
  | "default_message AttestorAlreadyRegistered = ''Attestor is already registered''"
  | "default_message AttestorNotRegistered = ''Attestor is not registered''"
  | "default_message UnauthorizedAttestor = ''Attestor is not authorized''"
  | "default_message InvalidTimestamp = ''Timestamp is invalid''"
  | "default_message ReplayAttack = ''Replay attack detected''"
  | "default_message InvalidQuote = ''Quote is invalid''"
  | "default_message InvalidServiceType = ''Service type is invalid''"
  | "default_message InvalidTransactionIntent = ''Transaction intent is invalid''"
  | "default_message StaleQuote = ''Quote has expired''"
  | "default_message ComplianceNotMet = ''Compliance requirements not met''"
  | "default_message InvalidEndpointFormat = ''Endpoint format is invalid''"
  | "default_message NoQuotesAvailable = ''No quotes are available''"
  | "default_message ServicesNotConfigured = ''Services are not configured''"
  | "default_message ValidationError = ''Response schema validation failed''"
  | "default_message RateLimitExceeded = ''Rate limit exceeded''"
  | "default_message AttestationNotFound = ''Attestation not found''"
  | "default_message InvalidSep10Token = ''SEP-10 JWT is missing, expired, or invalid''"
  | "default_message KycNotFound = ''KYC record not found''"
  | "default_message SessionNotFound = ''Session not found''"
  | "default_message QuoteNotFound = ''Quote not found''"
  | "default_message AuditLogNotFound = ''Audit log not found''"
  | "default_message TransactionNotFound = ''Transaction record not found''"
  | "default_message KycPending = ''KYC verification is pending''"
  | "default_message KycRejected = ''KYC verification was rejected''"
  | "default_message WebhookDeliveryFailed = ''Webhook delivery failed validation''"
  | "default_message NotInitialized = ''Contract is not initialized''"
  | "default_message IllegalTransition = ''Illegal transaction state transition''"
  | "default_message SessionExpired = ''Session has expired''"
  | "default_message SessionClosed = ''Session is closed''"
  | "default_message UnsupportedCapabilityVersion = ''Service capability version is unsupported''"
  | "default_message Unauthorized = ''Caller is not authorized for this operation''"
  | "default_message SessionOperationLimitExceeded = ''Session operation limit exceeded''"
  | "default_message InvalidWeights = ''Routing weights must sum to 1.0''"
  | "default_message CacheExpired = ''Cache entry has expired''"
  | "default_message CacheNotFound = ''Cache entry not found''"
  | "default_message AttestorCapacityExceeded = ''Maximum number of registered attestors exceeded''"
  | "default_message CacheCapacityExceeded = ''Maximum number of cache entries exceeded''"
  | "default_message AttestorProfileNotFound = ''Attestor profile not found''"
  | "default_message InvalidRequestContext = ''Request context is invalid''"
  | "default_message InvalidSessionMetadata = ''Session metadata is invalid''"
  | "default_message InvalidAssetCode = ''Asset code is invalid''"
  | "default_message EndpointNotSet = ''Attestor endpoint URL is not set''"
  | "default_message WebhookUrlNotSet = ''Attestor webhook URL is not set''"
  | "default_message KycExpired = ''KYC approval has expired''"
  | "default_message AttestorRevoked = ''Attestor is revoked; reactivation required''"
  | "default_message QuoteExpired = ''Quote has passed its validity deadline''"
  | "default_message SignatureVerificationFailed = ''Attestation signature verification failed''"
  | "default_message BatchSizeExceeded = ''Batch size exceeds the per-call maximum''"
  | "default_message InvalidAssetPair = ''Base and quote asset must differ''"
  | "default_message InvalidAmount = ''Amount is zero or otherwise invalid''"
  | "default_message InvalidRetirementTransition = ''Invalid retirement transition for current state''"
  | "default_message FingerprintCollectionFailed = ''Environment fingerprint collection failed''"
  | "default_message MaintenanceWindowNotFound = ''Maintenance window not found''"
  | "default_message MaintenanceWindowConflict = ''Maintenance window conflicts with an existing window''"
  | "default_message ServiceInMaintenance = ''Service is currently in a maintenance window''"
  | "default_message DependencyNotMet = ''A required service dependency is not enabled''"
  | "default_message DependencyCycleDetected = ''Circular dependency detected in service graph''"
  | "default_message DependencyNotFound = ''Referenced dependency service does not exist''"
  | "default_message TemplateNotFound = ''Service template not found''"
  | "default_message InvalidTemplate = ''Service template configuration is invalid''"
  | "default_message TemplateAlreadyApplied = ''Template has already been applied to this anchor''"
  | "default_message SloViolation = ''Service level objective was violated''"
  | "default_message InvalidSloConfig = ''SLO configuration is invalid''"
  | "default_message SloNotConfigured = ''No SLO has been configured for this anchor''"
  | "default_message AuditLogCapacityExceeded = ''Audit log record ID space exhausted; cannot allocate another unique record ID''"
  | "default_message InvalidRegistration = ''Registration rejected: a required field is blank''"
  | "default_message ArchiveCapacityExceeded = ''Archive ID space exhausted; cannot allocate another unique archive identifier''"

section \<open>Error values\<close>

record anchor_kit_error =
  aerr_code :: error_code
  aerr_message :: string
  aerr_context :: "string option"

definition error_new :: "error_code \<Rightarrow> string \<Rightarrow> anchor_kit_error" where
  "error_new c msg = \<lparr>aerr_code = c, aerr_message = msg, aerr_context = None\<rparr>"

definition with_context :: "error_code \<Rightarrow> string \<Rightarrow> string \<Rightarrow> anchor_kit_error" where
  "with_context c msg ctx = \<lparr>aerr_code = c, aerr_message = msg, aerr_context = Some ctx\<rparr>"

definition from_code :: "error_code \<Rightarrow> anchor_kit_error" where
  "from_code c = error_new c (default_message c)"

definition validation_error :: "string \<Rightarrow> anchor_kit_error" where
  "validation_error ctx = with_context ValidationError (default_message ValidationError) ctx"

lemma aerr_code_simps [simp]:
  "aerr_code (error_new c m) = c"
  "aerr_code (with_context c m x) = c"
  "aerr_code (from_code c) = c"
  "aerr_code (validation_error x) = ValidationError"
  by (simp_all add: error_new_def with_context_def from_code_def validation_error_def)

section \<open>Traps\<close>

datatype trap =
    Panic error_code        \<comment> \<open>\<open>panic_with_error!\<close>\<close>
  | AuthTrap                \<comment> \<open>\<open>require_auth\<close> without an authorisation\<close>
  | ArithTrap               \<comment> \<open>arithmetic overflow (\<open>overflow-checks = true\<close>)\<close>
  | HostTrap                \<comment> \<open>a host function refused its arguments\<close>

text \<open>The plain \<open>+\<close>, \<open>-\<close> and \<open>*\<close> of the source.\<close>

definition plus_trap :: "'a::len word \<Rightarrow> 'a word \<Rightarrow> trap + 'a word" where
  "plus_trap a b = of_option ArithTrap (checked_add a b)"

definition times_trap :: "'a::len word \<Rightarrow> 'a word \<Rightarrow> trap + 'a word" where
  "times_trap a b = of_option ArithTrap (checked_mul a b)"

lemma plus_trap_Inr [ok_simps]:
  "plus_trap a b = Inr c \<longleftrightarrow> unat a + unat b < 2 ^ LENGTH('a) \<and> c = a + b"
  for a b c :: "'a::len word"
  by (auto simp: plus_trap_def ok_simps checked_add_def)

section \<open>The ledger environment of one invocation\<close>

text \<open>
  What an invocation reads from its \<open>Env\<close>: the ledger's timestamp and sequence number, the
  addresses whose authorisation the transaction carries, and the host's cryptographic
  functions, which are not code of the repository and stay uninterpreted parameters.
\<close>

record env =
  timestamp :: u64
  ledger_seq :: u32
  auths :: "address set"
  sha256 :: "bytes \<Rightarrow> bytes"
  ed25519_verify :: "bytes \<Rightarrow> bytes \<Rightarrow> bytes \<Rightarrow> bool"

definition require_auth :: "env \<Rightarrow> address \<Rightarrow> trap + unit" where
  "require_auth e a = require (a \<in> auths e) AuthTrap"

lemma require_auth_Inr [ok_simps]: "require_auth e a = Inr u \<longleftrightarrow> a \<in> auths e"
  by (simp add: require_auth_def ok_simps)

text \<open>An environment in which the given addresses have authorised and signatures verify, for
  concrete runs.\<close>

definition accepting_env :: "u64 \<Rightarrow> u32 \<Rightarrow> address set \<Rightarrow> env" where
  "accepting_env now seq who =
     \<lparr>timestamp = now, ledger_seq = seq, auths = who, sha256 = (\<lambda>b. b),
      ed25519_verify = (\<lambda>_ _ _. True)\<rparr>"

end
