(* ===== verification/Interfaces.thy ===== *)
theory Interfaces
  imports Errors
begin

text \<open>
  The contracts between components, as locales.  Each is interpreted on the model's own
  definitions in the theory of the component that provides it.

  \<^item> \<open>lifecycle\<close>: a state machine given by a transition check; the law is a rank that every
    accepted transition raises.  Clients get: no state is entered twice, terminal
    states are final, a history is bounded.
  \<^item> \<open>transactional\<close>: an entry point run by the Soroban host, which commits the new storage on
    success and discards every change when the call traps.  The law is that a successful call
    keeps an invariant; clients get it for every reachable storage.
  \<^item> \<open>temp_storage\<close>: Soroban's temporary storage with its expiry.
  \<^item> \<open>quota\<close>: an admission check that spends from a budget; the law bounds what one accepted
    request costs, and clients get a bound on the accepted requests of any sequence.
  \<^item> \<open>dedup_window\<close>: a guard that remembers what it let pass for a span of time and refuses it
    meanwhile; clients get that equal keys pass only further apart than the span.
\<close>

section \<open>Lifecycles\<close>

inductive path :: "('s \<Rightarrow> 's \<Rightarrow> bool) \<Rightarrow> nat \<Rightarrow> 's \<Rightarrow> 's \<Rightarrow> bool" for step where
  path_refl: "path step 0 s s"
| path_step: "step s t \<Longrightarrow> path step n t u \<Longrightarrow> path step (Suc n) s u"

inductive_cases path_0E: "path step 0 s t"
inductive_cases path_SucE: "path step (Suc n) s u"

locale lifecycle =
  fixes step :: "'s \<Rightarrow> 's \<Rightarrow> bool"
    and rank :: "'s \<Rightarrow> nat"
    and top_rank :: nat
  assumes step_rank: "step s t \<Longrightarrow> rank s < rank t"
    and rank_le: "rank s \<le> top_rank"
begin

lemma path_rank: "path step n s t \<Longrightarrow> rank s + n \<le> rank t"
proof (induction rule: path.induct)
  case (path_step s t n u)
  from step_rank [OF path_step.hyps(1)] path_step.IH show ?case by simp
qed simp

lemma no_return: "path step n s s \<Longrightarrow> n = 0"
  using path_rank by fastforce

lemma path_bounded: "path step n s t \<Longrightarrow> n \<le> top_rank - rank s"
  using path_rank [of n s t] rank_le [of t] by simp

lemma top_is_final: "rank s = top_rank \<Longrightarrow> \<not> step s t"
  using step_rank [of s t] rank_le [of t] by auto

end

section \<open>Transactional entry points\<close>

text \<open>
  The host's rollback: a call that traps leaves the storage as it was.  \<open>run\<close> is a history of
  invocations, each with its own ledger environment.
\<close>

definition invoke :: "('e \<Rightarrow> 'c \<Rightarrow> 's \<Rightarrow> 'err + 's) \<Rightarrow> 'e \<Rightarrow> 'c \<Rightarrow> 's \<Rightarrow> 's" where
  "invoke exec e c s = (case exec e c s of Inl _ \<Rightarrow> s | Inr s' \<Rightarrow> s')"

fun run :: "('e \<Rightarrow> 'c \<Rightarrow> 's \<Rightarrow> 'err + 's) \<Rightarrow> ('e \<times> 'c) list \<Rightarrow> 's \<Rightarrow> 's" where
  "run exec [] s = s"
| "run exec ((e, c) # cs) s = run exec cs (invoke exec e c s)"

lemma run_append: "run exec (xs @ ys) s = run exec ys (run exec xs s)"
  by (induction exec xs s rule: run.induct) auto

lemma invoke_trap [simp]: "exec e c s = Inl x \<Longrightarrow> invoke exec e c s = s"
  by (simp add: invoke_def)

lemma invoke_ok [simp]: "exec e c s = Inr s' \<Longrightarrow> invoke exec e c s = s'"
  by (simp add: invoke_def)

locale transactional =
  fixes exec :: "'e \<Rightarrow> 'c \<Rightarrow> 's \<Rightarrow> 'err + 's"
    and inv :: "'s \<Rightarrow> bool"
  assumes exec_inv: "\<lbrakk>inv s; exec e c s = Inr s'\<rbrakk> \<Longrightarrow> inv s'"
begin

lemma invoke_inv: "inv s \<Longrightarrow> inv (invoke exec e c s)"
  by (cases "exec e c s") (auto intro: exec_inv)

lemma run_inv: "inv s \<Longrightarrow> inv (run exec cs s)"
proof (induction cs arbitrary: s)
  case (Cons ec cs)
  then show ?case by (cases ec) (auto intro: invoke_inv)
qed simp

end

text \<open>Once a fact is true it stays true: a stable property of the storage, also relative to an
  invariant.\<close>

locale stable_under = transactional exec inv
  for exec :: "'e \<Rightarrow> 'c \<Rightarrow> 's \<Rightarrow> 'err + 's" and inv :: "'s \<Rightarrow> bool" +
  fixes fact :: "'s \<Rightarrow> bool"
  assumes exec_fact: "\<lbrakk>inv s; fact s; exec e c s = Inr s'\<rbrakk> \<Longrightarrow> fact s'"
begin

lemma run_fact: "inv s \<Longrightarrow> fact s \<Longrightarrow> fact (run exec cs s)"
proof (induction cs arbitrary: s)
  case (Cons ec cs)
  obtain e c where ec: "ec = (e, c)" by (cases ec)
  have "fact (invoke exec e c s)"
    using Cons.prems by (cases "exec e c s") (auto intro: exec_fact)
  then show ?case using Cons.IH [OF invoke_inv [OF Cons.prems(1)]] ec by simp
qed simp

end

section \<open>Temporary storage\<close>

text \<open>
  \<open>get now m k\<close> reads an entry at ledger \<open>now\<close>; \<open>put now ttl m k v\<close> is a \<open>set\<close> followed by
  \<open>extend_ttl(k, ttl, ttl)\<close>: the entry lives at least through ledger \<open>now + ttl\<close>, and a new
  entry no longer than that.
\<close>

locale temp_storage =
  fixes get :: "nat \<Rightarrow> 'm \<Rightarrow> 'k \<Rightarrow> 'v option"
    and put :: "nat \<Rightarrow> nat \<Rightarrow> 'm \<Rightarrow> 'k \<Rightarrow> 'v \<Rightarrow> 'm"
  assumes get_put_same: "\<lbrakk>t \<le> now; now \<le> t + ttl\<rbrakk> \<Longrightarrow> get now (put t ttl m k v) k = Some v"
    and get_put_expired:
      "\<lbrakk>get t m k = None; t + ttl < now\<rbrakk> \<Longrightarrow> get now (put t ttl m k v) k = None"
    and get_put_other: "j \<noteq> k \<Longrightarrow> get now (put t ttl m k v) j = get now m j"
begin

lemma get_put_now: "get t (put t ttl m k v) k = Some v"
  by (rule get_put_same) simp_all

lemma get_put_now_iff: "get t (put t ttl m k v) j = (if j = k then Some v else get t m j)"
  by (simp add: get_put_now get_put_other)

end

section \<open>Quotas\<close>

text \<open>
  \<open>admit r s\<close> handles the request \<open>r\<close>, made at \<open>time r\<close>: whether it counts as accepted, and the
  new state.  \<open>budget t s\<close> bounds what can still be accepted from time \<open>t\<close> on; time refills it at
  most at \<open>rate\<close>.  \<open>legit\<close> restricts the requests considered.
\<close>

fun admitted :: "('r \<Rightarrow> 's \<Rightarrow> bool \<times> 's) \<Rightarrow> 's \<Rightarrow> 'r list \<Rightarrow> nat" where
  "admitted admit s [] = 0"
| "admitted admit s (r # rs) =
     (if fst (admit r s) then 1 else 0) + admitted admit (snd (admit r s)) rs"

locale quota =
  fixes admit :: "'r \<Rightarrow> 's \<Rightarrow> bool \<times> 's"
    and time :: "'r \<Rightarrow> nat"
    and legit :: "'r \<Rightarrow> bool"
    and inv :: "nat \<Rightarrow> 's \<Rightarrow> bool"
    and budget :: "nat \<Rightarrow> 's \<Rightarrow> nat"
    and rate :: nat
  assumes admit_inv: "\<lbrakk>inv t s; t \<le> time r; legit r\<rbrakk> \<Longrightarrow> inv (time r) (snd (admit r s))"
    and admit_cost: "\<lbrakk>inv t s; t \<le> time r; legit r\<rbrakk> \<Longrightarrow>
      (if fst (admit r s) then 1 else 0) + budget (time r) (snd (admit r s))
        \<le> budget t s + rate * (time r - t)"
begin

lemma admitted_bound:
  assumes "inv t s" and "sorted (t # map time rs)" and "list_all legit rs"
  shows "admitted admit s rs \<le> budget t s + rate * (last (t # map time rs) - t)"
  using assms
proof (induction rs arbitrary: t s)
  case (Cons r rs)
  have le: "t \<le> time r" and sorted: "sorted (time r # map time rs)"
    and ok: "legit r" and oks: "list_all legit rs" using Cons.prems by auto
  let ?s = "snd (admit r s)"
  let ?last = "last (time r # map time rs)"
  have IH: "admitted admit ?s rs \<le> budget (time r) ?s + rate * (?last - time r)"
    using admit_inv [OF Cons.prems(1) le ok] sorted oks by (rule Cons.IH)
  have "time r \<le> ?last"
    using sorted by (metis last_in_set list.distinct(1) order_refl set_ConsD sorted_simps(2))
  then have "rate * (time r - t) + rate * (?last - time r) = rate * (?last - t)"
    using le by (simp flip: add_mult_distrib2)
  with admit_cost [OF Cons.prems(1) le ok] IH show ?case by simp
qed simp

end

section \<open>Windows of deduplication\<close>

text \<open>
  \<open>check r s\<close> handles the request \<open>r\<close> with key \<open>key r\<close> at \<open>time r\<close>: whether it passes, and the new
  state.  \<open>seen s k t\<close>: the guard remembers that \<open>k\<close> passed at time \<open>t\<close>.
\<close>

fun let_through :: "('r \<Rightarrow> 's \<Rightarrow> bool \<times> 's) \<Rightarrow> 's \<Rightarrow> 'r list \<Rightarrow> 'r list" where
  "let_through check s [] = []"
| "let_through check s (r # rs) =
     (if fst (check r s) then r # let_through check (snd (check r s)) rs else let_through check (snd (check r s)) rs)"

lemma set_let_through: "set (let_through check s rs) \<subseteq> set rs"
  by (induction check s rs rule: let_through.induct) auto

locale dedup_window =
  fixes check :: "'r \<Rightarrow> 's \<Rightarrow> bool \<times> 's"
    and key :: "'r \<Rightarrow> 'k"
    and time :: "'r \<Rightarrow> nat"
    and legit :: "'r \<Rightarrow> bool"
    and inv :: "'s \<Rightarrow> bool"
    and seen :: "'s \<Rightarrow> 'k \<Rightarrow> nat \<Rightarrow> bool"
    and span :: nat
  assumes check_inv: "\<lbrakk>inv s; legit r\<rbrakk> \<Longrightarrow> inv (snd (check r s))"
    and remembers: "\<lbrakk>inv s; legit r; fst (check r s)\<rbrakk> \<Longrightarrow> seen (snd (check r s)) (key r) (time r)"
    and keeps: "\<lbrakk>inv s; legit r; seen s k t; t \<le> time r; time r \<le> t + span\<rbrakk> \<Longrightarrow> seen (snd (check r s)) k t"
    and refuses: "\<lbrakk>inv s; legit r; seen s (key r) t; t \<le> time r; time r \<le> t + span\<rbrakk> \<Longrightarrow> \<not> fst (check r s)"
begin

lemma passes_later:
  assumes "inv s" and "seen s k t" and "sorted (t # map time rs)" and "list_all legit rs"
  shows "list_all (\<lambda>r. key r = k \<longrightarrow> t + span < time r) (let_through check s rs)"
  using assms
proof (induction rs arbitrary: s)
  case (Cons r rs)
  show ?case
  proof (cases "time r \<le> t + span")
    case True
    have r: "legit r" "t \<le> time r" using Cons.prems by auto
    have "seen (snd (check r s)) k t" using keeps [OF Cons.prems(1) r(1) Cons.prems(2) r(2) True] .
    moreover have "\<not> fst (check r s)" if "key r = k"
      using refuses [OF Cons.prems(1) r(1) _ r(2) True] Cons.prems(2) that by simp
    ultimately show ?thesis using Cons check_inv [OF Cons.prems(1) r(1)] by auto
  next
    case False
    then have "\<forall>r' \<in> set (r # rs). t + span < time r'" using Cons.prems(3) by fastforce
    moreover have "set (let_through check s (r # rs)) \<subseteq> set (r # rs)" by (rule set_let_through)
    ultimately show ?thesis unfolding list_all_iff by (metis subsetD)
  qed
qed simp

lemma passes_spaced:
  assumes "inv s" and "sorted (map time rs)" and "list_all legit rs"
  shows "sorted_wrt (\<lambda>r r'. key r = key r' \<longrightarrow> time r + span < time r') (let_through check s rs)"
  using assms
proof (induction rs arbitrary: s)
  case (Cons r rs)
  have inv: "inv (snd (check r s))" and rest: "sorted (map time rs)" "list_all legit rs"
    using Cons.prems check_inv by auto
  have "list_all (\<lambda>r'. key r' = key r \<longrightarrow> time r + span < time r') (let_through check (snd (check r s)) rs)"
    if "fst (check r s)"
    using that Cons.prems by (intro passes_later [OF inv]) (auto intro: remembers)
  with Cons.IH [OF inv rest] show ?case by (auto simp: list_all_iff)
qed simp

end

end
