(* ===== verification/Migration.thy ===== *)
theory Migration
  imports Interfaces
begin

text \<open>
  The schema versions of \<^verbatim>\<open>src/migration.rs\<close> (the second half of the file): the steps, the check
  of a requested migration and the commit that advances the version and appends to the history.
\<close>

definition SCHEMA_V1 :: u32 where "SCHEMA_V1 = 1"
definition SCHEMA_V2 :: u32 where "SCHEMA_V2 = 2"
definition LATEST_SCHEMA_VERSION :: u32 where "LATEST_SCHEMA_VERSION = SCHEMA_V2"

datatype migration_step = ToV2

definition ALL_STEPS :: "migration_step list" where
  "ALL_STEPS = [ToV2]"

fun required_from :: "migration_step \<Rightarrow> u32" where
  "required_from ToV2 = SCHEMA_V1"

fun produces :: "migration_step \<Rightarrow> u32" where
  "produces ToV2 = SCHEMA_V2"

fun step_label :: "migration_step \<Rightarrow> string" where
  "step_label ToV2 = ''quotes_v1_to_v2''"

text \<open>\<open>IllegalVersionTransition\<close> is returned by \<open>set_version\<close>; the source's enum does not list
  it.\<close>

datatype migration_error =
    InvalidTargetVersion
  | VersionTooNew
  | VersionNotAdvancing
  | NoStepFound
  | HistoryCounterExhausted
  | IllegalVersionTransition

record migration_record =
  mr_from_version :: u32
  mr_to_version :: u32
  mr_applied_at :: u64
  mr_applied_at_ledger :: u32
  mr_label :: string

text \<open>The entries \<open>SCHEMAVER\<close>, \<open>MIG_CNT\<close> and \<open>MIG_REC\<close>.\<close>

record schema_store =
  sc_version :: "u32 option"
  sc_count :: "u32 option"
  sc_records :: "u32 \<Rightarrow> migration_record option"

definition empty_schema_store :: schema_store where
  "empty_schema_store = \<lparr>sc_version = None, sc_count = None, sc_records = Map.empty\<rparr>"

definition current_version :: "schema_store \<Rightarrow> u32" where
  "current_version s = get_or 0 (sc_version s)"

definition set_version :: "u32 \<Rightarrow> schema_store \<Rightarrow> migration_error + schema_store" where
  "set_version version s =
     (if current_version s \<noteq> 0 \<or> version \<noteq> SCHEMA_V1 then Inl IllegalVersionTransition
      else Inr (s\<lparr>sc_version := Some version\<rparr>))"

definition migration_count :: "schema_store \<Rightarrow> u32" where
  "migration_count s = get_or 0 (sc_count s)"

definition get_migration_record :: "schema_store \<Rightarrow> u32 \<Rightarrow> migration_record option" where
  "get_migration_record s idx = sc_records s idx"

definition commit_version ::
    "env \<Rightarrow> u32 \<Rightarrow> u32 \<Rightarrow> string \<Rightarrow> schema_store \<Rightarrow> migration_error + schema_store" where
  "commit_version e from_v to_v label s =
     (let idx = migration_count s in
      bind_ok (of_option HistoryCounterExhausted (checked_add idx 1)) (\<lambda>next_idx.
        Inr (s\<lparr>sc_version := Some to_v,
               sc_records := (sc_records s)(idx \<mapsto>
                 \<lparr>mr_from_version = from_v, mr_to_version = to_v, mr_applied_at = timestamp e,
                  mr_applied_at_ledger = ledger_seq e, mr_label = label\<rparr>),
               sc_count := Some next_idx\<rparr>)))"

definition validate_migration :: "u32 \<Rightarrow> schema_store \<Rightarrow> migration_error + migration_step" where
  "validate_migration target s =
     (if target = 0 then Inl InvalidTargetVersion
      else if LATEST_SCHEMA_VERSION < target then Inl VersionTooNew
      else
        let current = current_version s in
        if target \<le> current then Inl VersionNotAdvancing
        else of_option NoStepFound
          (find (\<lambda>st. required_from st = current \<and> produces st = target) ALL_STEPS))"

lemma validate_migration_iff:
  "validate_migration target s = Inr st \<longleftrightarrow>
     target = 2 \<and> current_version s = 1 \<and> st = ToV2"
proof (cases "target = 2 \<and> current_version s = 1")
  case True
  then show ?thesis
    by (auto simp: validate_migration_def Let_def ALL_STEPS_def LATEST_SCHEMA_VERSION_def
        SCHEMA_V1_def SCHEMA_V2_def word_le_nat_alt word_less_nat_alt)
next
  case False
  then show ?thesis
    by (auto simp: validate_migration_def Let_def ALL_STEPS_def SCHEMA_V1_def SCHEMA_V2_def ok_simps
        split: if_splits)
qed

text \<open>The version goes from none to 1 to 2, and the history holds exactly the one step taken.\<close>

definition schema_inv :: "schema_store \<Rightarrow> bool" where
  "schema_inv s \<longleftrightarrow>
     (sc_version s = None \<or> sc_version s = Some 1) \<and> migration_count s = 0 \<and> sc_records s = Map.empty \<or>
     sc_version s = Some 2 \<and> migration_count s = 1 \<and>
     (\<exists>r. sc_records s = [0 \<mapsto> r] \<and> mr_from_version r = 1 \<and> mr_to_version r = 2 \<and>
        mr_label r = ''quotes_v1_to_v2'')"

lemma schema_inv_empty: "schema_inv empty_schema_store"
  by (simp add: schema_inv_def empty_schema_store_def migration_count_def)

lemma set_version_inv:
  assumes "set_version v s = Inr s'" and "schema_inv s"
  shows "schema_inv s'"
  using assms
  by (auto simp: set_version_def schema_inv_def migration_count_def current_version_def SCHEMA_V1_def
      split: if_splits)

lemma commit_version_inv:
  assumes "validate_migration target s = Inr st"
    and "commit_version e (current_version s) target (step_label st) s = Inr s'"
    and "schema_inv s"
  shows "schema_inv s'"
proof -
  from assms(1) have v: "target = 2" "current_version s = 1" "st = ToV2"
    by (simp_all add: validate_migration_iff)
  then have "sc_version s = Some 1 \<and> migration_count s = 0 \<and> sc_records s = Map.empty"
    using assms(3) by (auto simp: schema_inv_def current_version_def)
  with assms(2) v show ?thesis
    by (auto simp: commit_version_def schema_inv_def migration_count_def checked_add_def ok_simps)
qed

end
