(* ===== verification/Base64url.thy ===== *)
theory Base64url
  imports Interfaces
begin

unbundle bit_operations_syntax

text \<open>
  The base64url decoder of \<^verbatim>\<open>src/sep10_jwt.rs\<close>, at its machine widths, and the unpadded
  encoding of RFC 4648 as its specification: decoding inverts encoding on every byte string.
\<close>

section \<open>The decoder\<close>

definition byte_val :: "char \<Rightarrow> nat" where
  "byte_val c = of_char c"

definition decode_base64url_char :: "char \<Rightarrow> u8 option" where
  "decode_base64url_char c =
     (let n = byte_val c in
      if 65 \<le> n \<and> n \<le> 90 then Some (of_nat (n - 65))
      else if 97 \<le> n \<and> n \<le> 122 then Some (of_nat (n - 97 + 26))
      else if 48 \<le> n \<and> n \<le> 57 then Some (of_nat (n - 48 + 52))
      else if c = CHR ''-'' then Some 62
      else if c = CHR ''_'' then Some 63
      else None)"

text \<open>The loop of \<open>base64url_decode\<close> over the rest of the input, with \<open>buffer\<close>, \<open>bits\<close> and the
  output so far; the shift drops the high bits of \<open>buffer\<close>.\<close>

fun base64url_loop :: "bytes \<Rightarrow> u32 \<Rightarrow> nat \<Rightarrow> bytes \<Rightarrow> bytes option" where
  "base64url_loop [] buffer bits out = Some out"
| "base64url_loop (ch # rest) buffer bits out =
     (if ch = CHR ''='' then Some out
      else case decode_base64url_char ch of
        None \<Rightarrow> None
      | Some v \<Rightarrow>
          let buffer' = push_bit 6 buffer OR ucast v;
              bits' = bits + 6
          in if 8 \<le> bits'
             then base64url_loop rest buffer' (bits' - 8)
                    (out @ [char_of (unat (drop_bit (bits' - 8) buffer' AND 255))])
             else base64url_loop rest buffer' bits' out)"

definition base64url_decode :: "bytes \<Rightarrow> bytes option" where
  "base64url_decode input = base64url_loop input 0 0 []"

section \<open>One step of the loop, over the naturals\<close>

lemma push_or_nat: "v < 64 \<Longrightarrow> push_bit 6 x OR v = x * 64 + (v::nat)"
proof -
  assume "v < 64"
  then have v: "v = take_bit 6 v" by (simp add: take_bit_nat_eq_self)
  have "push_bit 6 x + v = push_bit 6 x OR v"
    by (rule disjunctive_add) (subst v, auto simp: bit_push_bit_iff bit_take_bit_iff)
  then show ?thesis by (simp add: push_bit_eq_mult)
qed

lemma unat_push_or:
  fixes b :: u32
  assumes "v < 64" and "k \<le> 32"
  shows "unat (push_bit 6 b OR ucast (of_nat v :: u8) :: u32) mod 2 ^ k = (unat b * 64 + v) mod 2 ^ k"
proof -
  have v: "unat (ucast (of_nat v :: u8) :: u32) = v"
    using assms(1) by (simp add: unsigned_ucast_eq unsigned_of_nat take_bit_nat_eq_self)
  have "unat (push_bit 6 b OR ucast (of_nat v :: u8) :: u32) = take_bit 32 (unat b * 64) OR v"
    by (simp add: unsigned_or_eq v push_bit_eq_mult mult.commute unat_word_ariths take_bit_eq_mod)
  then have "take_bit k (unat (push_bit 6 b OR ucast (of_nat v :: u8) :: u32)) = take_bit k (unat b * 64 OR v)"
    using assms(2) by (simp add: take_bit_or min_def)
  also have "unat b * 64 OR v = unat b * 64 + v"
    using push_or_nat [OF assms(1), of "unat b"] by (simp add: push_bit_eq_mult)
  finally show ?thesis by (simp add: take_bit_eq_mod)
qed

lemma unat_low_byte: "unat (drop_bit k w AND 255 :: u32) = unat w div 2 ^ k mod 256"
proof -
  have "n AND 255 = n mod 256" for n :: nat
    using take_bit_eq_mask [of 8 n] by (simp add: mask_eq_exp_minus_1 take_bit_eq_mod)
  then show ?thesis
    using unat_lt_pow [of w] unfolding unsigned_and_eq unsigned_drop_bit_eq
    by (simp add: drop_bit_eq_div take_bit_nat_eq_self)
qed

lemma low_byte_of_pending:
  fixes b :: u32
  assumes "v < 64" and "bits < 8" and "8 \<le> bits + 6"
  shows "unat (drop_bit (bits + 6 - 8) (push_bit 6 b OR ucast (of_nat v :: u8)) AND 255 :: u32)
    = ((unat b mod 2 ^ bits) * 64 + v) div 2 ^ (bits + 6 - 8)"
proof -
  let ?n = "unat (push_bit 6 b OR ucast (of_nat v :: u8) :: u32)"
  have e: "2 ^ (bits + 6) = 2 ^ (bits + 6 - 8) * (256 :: nat)"
  proof -
    have "bits + 6 = (bits + 6 - 8) + 8" using assms(3) by simp
    then have "2 ^ (bits + 6) = (2 :: nat) ^ ((bits + 6 - 8) + 8)" by (rule arg_cong)
    then show ?thesis by (simp only: power_add) simp
  qed
  have "?n div 2 ^ (bits + 6 - 8) mod 256 = ?n mod 2 ^ (bits + 6) div 2 ^ (bits + 6 - 8)"
    unfolding e by (simp add: mod_mult2_eq)
  also have "?n mod 2 ^ (bits + 6) = (unat b * 64 + v) mod 2 ^ (bits + 6)"
    using assms by (intro unat_push_or) simp_all
  also have "\<dots> = (unat b mod 2 ^ bits) * 64 + v"
  proof -
    have "(unat b * 64 + v) mod (64 * 2 ^ bits) = 64 * (((unat b * 64 + v) div 64) mod 2 ^ bits) + (unat b * 64 + v) mod 64"
      by (rule mod_mult2_eq)
    then show ?thesis using assms(1) by (simp add: power_add mult.commute)
  qed
  finally show ?thesis unfolding unat_low_byte .
qed

section \<open>The encoding\<close>

definition b64url_char :: "nat \<Rightarrow> char" where
  "b64url_char v =
     (if v < 26 then char_of (65 + v)
      else if v < 52 then char_of (97 + (v - 26))
      else if v < 62 then char_of (48 + (v - 52))
      else if v = 62 then CHR ''-'' else CHR ''_'')"

fun b64url_encode :: "bytes \<Rightarrow> bytes" where
  "b64url_encode (a # b # c # rest) =
     b64url_char (byte_val a div 4) #
     b64url_char (byte_val a mod 4 * 16 + byte_val b div 16) #
     b64url_char (byte_val b mod 16 * 4 + byte_val c div 64) #
     b64url_char (byte_val c mod 64) # b64url_encode rest"
| "b64url_encode [a, b] =
     [b64url_char (byte_val a div 4), b64url_char (byte_val a mod 4 * 16 + byte_val b div 16),
      b64url_char (byte_val b mod 16 * 4)]"
| "b64url_encode [a] =
     [b64url_char (byte_val a div 4), b64url_char (byte_val a mod 4 * 16)]"
| "b64url_encode [] = []"

lemma decode_b64url_char:
  assumes "v < 64"
  shows "decode_base64url_char (b64url_char v) = Some (of_nat v)" and "b64url_char v \<noteq> CHR ''=''"
proof -
  have val: "byte_val (char_of n) = n" if "n < 256" for n
    using that by (simp add: byte_val_def)
  consider "v < 26" | "26 \<le> v" "v < 52" | "52 \<le> v" "v < 62" | "v = 62" | "v = 63"
    using assms by linarith
  then show "decode_base64url_char (b64url_char v) = Some (of_nat v)"
  proof cases
    case 3
    then obtain n where "v = n + 52" "n < 10" using that [of "v - 52"] by auto
    then show ?thesis by (simp add: decode_base64url_char_def b64url_char_def val Let_def)
  qed (simp_all add: decode_base64url_char_def b64url_char_def val Let_def, simp_all add: byte_val_def)
  have "byte_val (b64url_char v) \<noteq> byte_val (CHR ''='')"
  proof -
    have "byte_val (CHR ''='') = 61" "byte_val (CHR ''-'') = 45" "byte_val (CHR ''_'') = 95"
      by (simp_all add: byte_val_def)
    with assms show ?thesis by (simp add: b64url_char_def val) linarith
  qed
  then show "b64url_char v \<noteq> CHR ''=''" by metis
qed

text \<open>One character: \<open>p\<close> is the value of the pending bits.\<close>

lemma loop_step:
  assumes "v < 64" and "bits < 8" and "unat b mod 2 ^ bits = p"
  obtains b' where
    "2 \<le> bits \<Longrightarrow> base64url_loop (b64url_char v # rest) b bits out =
       base64url_loop rest b' (bits - 2) (out @ [char_of ((p * 64 + v) div 2 ^ (bits - 2))])"
    "bits < 2 \<Longrightarrow> base64url_loop (b64url_char v # rest) b bits out =
       base64url_loop rest b' (bits + 6) out"
    "\<And>k. k \<le> bits + 6 \<Longrightarrow> unat b' mod 2 ^ k = (p * 64 + v) mod 2 ^ k"
proof -
  let ?b = "push_bit 6 b OR ucast (of_nat v :: u8) :: u32"
  have mods: "unat ?b mod 2 ^ k = (p * 64 + v) mod 2 ^ k" if "k \<le> bits + 6" for k
  proof -
    have "unat ?b mod 2 ^ k = (unat b * 64 + v) mod 2 ^ k"
      using that assms by (intro unat_push_or) simp_all
    also have "\<dots> = ((unat b * 64 + v) mod (64 * 2 ^ bits)) mod 2 ^ k"
    proof -
      have "(2::nat) ^ k dvd 2 ^ (bits + 6)" using that by (rule le_imp_power_dvd)
      then show ?thesis by (simp add: mod_mod_cancel power_add mult.commute)
    qed
    also have "(unat b * 64 + v) mod (64 * 2 ^ bits) = p * 64 + v"
      using assms(1,3) unfolding mod_mult2_eq [of _ 64] by simp
    finally show ?thesis .
  qed
  show thesis
    by (rule that [of ?b])
      (use assms mods low_byte_of_pending [OF assms(1,2)] in
        \<open>simp_all add: decode_b64url_char Let_def\<close>)
qed

lemma byte_val_less: "byte_val c < 256"
  by (simp add: byte_val_def)

lemma char_of_byte_val [simp]: "char_of (byte_val c) = c"
  by (simp add: byte_val_def)

declare base64url_loop.simps(2) [simp del]

lemma loop_first:
  assumes "v < 64"
  obtains b' where "base64url_loop (b64url_char v # r) b 0 out = base64url_loop r b' 6 out"
    and "unat b' mod 64 = v"
proof (rule loop_step [OF assms, of 0 b 0 r out])
  fix b' assume run: "0 < (2::nat) \<Longrightarrow>
      base64url_loop (b64url_char v # r) b 0 out = base64url_loop r b' (0 + 6) out"
    and mods: "\<And>k. k \<le> 0 + 6 \<Longrightarrow> unat b' mod 2 ^ k = (0 * 64 + v) mod 2 ^ k"
  from mods [of 6] assms have "unat b' mod 64 = v" by simp
  with run show thesis by (intro that [of b']) simp_all
qed simp_all

lemma loop_next:
  assumes "v < 64" and "bits = k + 2" and "bits < 8" and "unat b mod 2 ^ bits = p"
  obtains b' where "base64url_loop (b64url_char v # r) b bits out =
      base64url_loop r b' k (out @ [char_of ((p * 64 + v) div 2 ^ k)])"
    and "unat b' mod 2 ^ k = (p * 64 + v) mod 2 ^ k"
proof (rule loop_step [OF assms(1,3,4), of r out])
  fix b' assume run: "2 \<le> bits \<Longrightarrow> base64url_loop (b64url_char v # r) b bits out =
      base64url_loop r b' (bits - 2) (out @ [char_of ((p * 64 + v) div 2 ^ (bits - 2))])"
    and mods: "\<And>k. k \<le> bits + 6 \<Longrightarrow> unat b' mod 2 ^ k = (p * 64 + v) mod 2 ^ k"
  from mods [of k] assms(2) have "unat b' mod 2 ^ k = (p * 64 + v) mod 2 ^ k" by simp
  with run assms(2) show thesis by (intro that [of b']) simp_all
qed

lemma loop_steps:
  assumes "v < 64"
  shows "\<exists>b'. base64url_loop (b64url_char v # r) b 0 out = base64url_loop r b' 6 out \<and> unat b' mod 64 = v"
    and "unat b mod 64 = p \<Longrightarrow> \<exists>b'. base64url_loop (b64url_char v # r) b 6 out =
      base64url_loop r b' 4 (out @ [char_of (p * 4 + v div 16)]) \<and> unat b' mod 16 = v mod 16"
    and "unat b mod 16 = p \<Longrightarrow> \<exists>b'. base64url_loop (b64url_char v # r) b 4 out =
      base64url_loop r b' 2 (out @ [char_of (p * 16 + v div 4)]) \<and> unat b' mod 4 = v mod 4"
    and "unat b mod 4 = p \<Longrightarrow> \<exists>b'. base64url_loop (b64url_char v # r) b 2 out =
      base64url_loop r b' 0 (out @ [char_of (p * 64 + v)])"
proof -
  show "\<exists>b'. base64url_loop (b64url_char v # r) b 0 out = base64url_loop r b' 6 out \<and> unat b' mod 64 = v"
    by (rule loop_first [OF assms, of r b out]) blast
next
  assume p: "unat b mod 64 = p"
  have eqs: "(p * 64 + v) div 2 ^ 4 = p * 4 + v div 16" "(p * 64 + v) mod 2 ^ 4 = v mod 16"
    using div_mult_self2 [of 16 v "p * 4"] mod_mult_self2 [of v 16 "p * 4"]
    by (simp_all add: algebra_simps)
  show "\<exists>b'. base64url_loop (b64url_char v # r) b 6 out =
      base64url_loop r b' 4 (out @ [char_of (p * 4 + v div 16)]) \<and> unat b' mod 16 = v mod 16"
    by (rule loop_next [OF assms, of 6 4 b p r out, unfolded eqs]) (use p in auto)
next
  assume p: "unat b mod 16 = p"
  have eqs: "(p * 64 + v) div 2 ^ 2 = p * 16 + v div 4" "(p * 64 + v) mod 2 ^ 2 = v mod 4"
    using div_mult_self2 [of 4 v "p * 16"] mod_mult_self2 [of v 4 "p * 16"]
    by (simp_all add: algebra_simps)
  show "\<exists>b'. base64url_loop (b64url_char v # r) b 4 out =
      base64url_loop r b' 2 (out @ [char_of (p * 16 + v div 4)]) \<and> unat b' mod 4 = v mod 4"
    by (rule loop_next [OF assms, of 4 2 b p r out, unfolded eqs]) (use p in auto)
next
  assume p: "unat b mod 4 = p"
  show "\<exists>b'. base64url_loop (b64url_char v # r) b 2 out =
      base64url_loop r b' 0 (out @ [char_of (p * 64 + v)])"
    by (rule loop_next [OF assms, of 2 0 b p r out]) (use p in auto)
qed

text \<open>The four characters of a group give back its three bytes, and so on for the two shorter
  groups at the end.\<close>

lemma two_digits: "b < m \<Longrightarrow> (a * m + b) div m = a" "b < m \<Longrightarrow> (a * m + b) mod m = b"
  for a b m :: nat
  by (simp_all add: div_add1_eq [of "a * m"])

lemma b64url_loop_encode:
  "base64url_loop (b64url_encode xs) b 0 out = Some (out @ xs)"
proof (induction xs arbitrary: b out rule: b64url_encode.induct)
  case (1 x y z rest)
  let ?x = "byte_val x" and ?y = "byte_val y" and ?z = "byte_val z"
  note lt = byte_val_less [of x] byte_val_less [of y] byte_val_less [of z]
  have v: "?x div 4 < 64" "?x mod 4 * 16 + ?y div 16 < 64" "?y mod 16 * 4 + ?z div 64 < 64" "?z mod 64 < 64"
    using lt by linarith+
  have small: "?y div 16 < 16" "?z div 64 < 4" using lt by linarith+
  have bytes: "?x div 4 * 4 + (?x mod 4 * 16 + ?y div 16) div 16 = ?x"
    "(?x mod 4 * 16 + ?y div 16) mod 16 * 16 + (?y mod 16 * 4 + ?z div 64) div 4 = ?y"
    "(?y mod 16 * 4 + ?z div 64) mod 4 * 64 + ?z mod 64 = ?z"
    by (simp_all only: two_digits [OF small(1)] two_digits [OF small(2)] div_mult_mod_eq)
  obtain b1 where 1: "base64url_loop (b64url_encode (x # y # z # rest)) b 0 out =
      base64url_loop (tl (b64url_encode (x # y # z # rest))) b1 6 out" "unat b1 mod 64 = ?x div 4"
    using loop_steps(1) [OF v(1)] by fastforce
  obtain b2 where 2: "base64url_loop (tl (b64url_encode (x # y # z # rest))) b1 6 out =
      base64url_loop (tl (tl (b64url_encode (x # y # z # rest)))) b2 4 (out @ [x])"
      "unat b2 mod 16 = (?x mod 4 * 16 + ?y div 16) mod 16"
    using loop_steps(2) [OF v(2) 1(2)] unfolding bytes(1) by fastforce
  obtain b3 where 3: "base64url_loop (tl (tl (b64url_encode (x # y # z # rest)))) b2 4 (out @ [x]) =
      base64url_loop (tl (tl (tl (b64url_encode (x # y # z # rest))))) b3 2 (out @ [x, y])"
      "unat b3 mod 4 = (?y mod 16 * 4 + ?z div 64) mod 4"
    using loop_steps(3) [OF v(3) 2(2), where out = "out @ [x]"] unfolding bytes(2) by fastforce
  obtain b4 where 4: "base64url_loop (tl (tl (tl (b64url_encode (x # y # z # rest))))) b3 2 (out @ [x, y]) =
      base64url_loop (b64url_encode rest) b4 0 (out @ [x, y, z])"
    using loop_steps(4) [OF v(4) 3(2), where out = "out @ [x, y]"] unfolding bytes(3) by fastforce
  show ?case
    unfolding 1(1) 2(1) 3(1) 4 "1.IH" by simp
next
  case (2 x y)
  let ?x = "byte_val x" and ?y = "byte_val y"
  note lt = byte_val_less [of x] byte_val_less [of y]
  have v: "?x div 4 < 64" "?x mod 4 * 16 + ?y div 16 < 64" "?y mod 16 * 4 < 64"
    using lt by linarith+
  have small: "?y div 16 < 16" using lt by linarith
  have bytes: "?x div 4 * 4 + (?x mod 4 * 16 + ?y div 16) div 16 = ?x"
    "(?x mod 4 * 16 + ?y div 16) mod 16 * 16 + (?y mod 16 * 4) div 4 = ?y"
    by (simp_all only: two_digits [OF small] div_mult_mod_eq) simp
  obtain b1 where 1: "base64url_loop (b64url_encode [x, y]) b 0 out =
      base64url_loop (tl (b64url_encode [x, y])) b1 6 out" "unat b1 mod 64 = ?x div 4"
    using loop_steps(1) [OF v(1)] by fastforce
  obtain b2 where 2: "base64url_loop (tl (b64url_encode [x, y])) b1 6 out =
      base64url_loop (tl (tl (b64url_encode [x, y]))) b2 4 (out @ [x])"
      "unat b2 mod 16 = (?x mod 4 * 16 + ?y div 16) mod 16"
    using loop_steps(2) [OF v(2) 1(2)] unfolding bytes(1) by fastforce
  obtain b3 where 3: "base64url_loop (tl (tl (b64url_encode [x, y]))) b2 4 (out @ [x]) = Some (out @ [x, y])"
    using loop_steps(3) [OF v(3) 2(2), where r = "[]" and out = "out @ [x]"] unfolding bytes(2) by fastforce
  show ?case unfolding 1(1) 2(1) 3 ..
next
  case (3 x)
  let ?x = "byte_val x"
  have v: "?x div 4 < 64" "?x mod 4 * 16 < 64" and bytes: "?x div 4 * 4 + (?x mod 4 * 16) div 16 = ?x"
    using byte_val_less [of x] by (linarith, linarith, simp)
  obtain b1 where 1: "base64url_loop (b64url_encode [x]) b 0 out =
      base64url_loop (tl (b64url_encode [x])) b1 6 out" "unat b1 mod 64 = ?x div 4"
    using loop_steps(1) [OF v(1)] by fastforce
  have "base64url_loop (tl (b64url_encode [x])) b1 6 out = Some (out @ [x])"
    using loop_steps(2) [OF v(2) 1(2), where r = "[]" and out = out] unfolding bytes by fastforce
  then show ?case unfolding 1(1) .
qed simp

lemma decode_encode: "base64url_decode (b64url_encode xs) = Some xs"
  by (simp add: base64url_decode_def b64url_loop_encode)

lemma b64url_char_no_dot:
  assumes "v < 64"
  shows "CHR ''.'' \<noteq> b64url_char v"
proof
  assume "CHR ''.'' = b64url_char v"
  then have "decode_base64url_char (CHR ''.'') = Some (of_nat v)"
    using decode_b64url_char(1) [OF assms] by metis
  then show False by (simp add: decode_base64url_char_def byte_val_def)
qed

lemma encode_no_dot: "CHR ''.'' \<notin> set (b64url_encode xs)"
proof (induction xs rule: b64url_encode.induct)
  case (1 a b c rest)
  have "byte_val a div 4 < 64" "byte_val a mod 4 * 16 + byte_val b div 16 < 64"
    "byte_val b mod 16 * 4 + byte_val c div 64 < 64" "byte_val c mod 64 < 64"
    using byte_val_less [of a] byte_val_less [of b] byte_val_less [of c] by linarith+
  with 1 show ?case by (simp add: b64url_char_no_dot)
next
  case (2 a b)
  have "byte_val a div 4 < 64" "byte_val a mod 4 * 16 + byte_val b div 16 < 64"
    "byte_val b mod 16 * 4 < 64"
    using byte_val_less [of a] byte_val_less [of b] by linarith+
  then show ?case by (simp add: b64url_char_no_dot)
next
  case (3 a)
  have "byte_val a div 4 < 64" "byte_val a mod 4 * 16 < 64"
    using byte_val_less [of a] by linarith+
  then show ?case by (simp add: b64url_char_no_dot)
qed simp

lemma length_encode: "length (b64url_encode xs) = (4 * length xs + 2) div 3"
  by (induction xs rule: b64url_encode.induct) simp_all

lemma encode_Nil_iff [simp]: "b64url_encode xs = [] \<longleftrightarrow> xs = []"
  by (cases xs rule: b64url_encode.cases) simp_all

text \<open>
  C29. The decoder inverts the encoding of RFC 4648 on every byte string, of any length, although
  its 32-bit buffer keeps shifting out old bits.
\<close>

theorem base64url_roundtrip: "base64url_decode (b64url_encode xs) = Some xs"
  by (rule decode_encode)

end
