(* ===== verification/Sep10_Jwt.thy ===== *)
theory Sep10_Jwt
  imports Base64url
begin

text \<open>
  \<^verbatim>\<open>src/sep10_jwt.rs\<close>: verification of SEP-10 JSON web tokens on chain: extraction of the claims, the Ed25519 signature (a host function), the time window, and the
  protection against replays of a token identifier.
\<close>

section \<open>Claims\<close>

fun find_bytes_from :: "nat \<Rightarrow> bytes \<Rightarrow> bytes \<Rightarrow> nat option" where
  "find_bytes_from i [] needle = None"
| "find_bytes_from i (c # cs) needle =
     (if length needle \<le> length (c # cs) \<and> take (length needle) (c # cs) = needle then Some i
      else find_bytes_from (Suc i) cs needle)"

definition find_bytes :: "bytes \<Rightarrow> bytes \<Rightarrow> nat option" where
  "find_bytes haystack needle = (if needle = [] then Some 0 else find_bytes_from 0 haystack needle)"

definition is_ascii_whitespace :: "char \<Rightarrow> bool" where
  "is_ascii_whitespace c \<longleftrightarrow> byte_val c \<in> {9, 10, 12, 13, 32}"

definition is_ascii_digit :: "char \<Rightarrow> bool" where
  "is_ascii_digit c \<longleftrightarrow> 48 \<le> byte_val c \<and> byte_val c \<le> 57"

text \<open>The text after a quoted key and its colon, leading blanks skipped.\<close>

definition quoted_key :: "string \<Rightarrow> bytes" where
  "quoted_key name = CHR 0x22 # name @ [CHR 0x22, CHR '':'']"

definition after_key :: "bytes \<Rightarrow> string \<Rightarrow> bytes option" where
  "after_key payload name =
     (case find_bytes payload (quoted_key name) of
        None \<Rightarrow> None
      | Some pos \<Rightarrow> Some (dropWhile is_ascii_whitespace (drop (pos + length (quoted_key name)) payload)))"

text \<open>\<open>checked_mul(10)\<close> and \<open>checked_add(d)\<close> over the leading digits.\<close>

fun parse_digits :: "bytes \<Rightarrow> u64 \<Rightarrow> u64 option" where
  "parse_digits [] n = Some n"
| "parse_digits (c # cs) n =
     (if is_ascii_digit c
      then case checked_mul n 10 of
             None \<Rightarrow> None
           | Some x \<Rightarrow>
               (case checked_add x (of_nat (byte_val c - 48)) of
                  None \<Rightarrow> None
                | Some y \<Rightarrow> parse_digits cs y)
      else Some n)"

definition parse_json_number :: "string \<Rightarrow> bytes \<Rightarrow> u64 option" where
  "parse_json_number name payload =
     (case after_key payload name of
        None \<Rightarrow> None
      | Some rest \<Rightarrow>
          (case rest of
             [] \<Rightarrow> None
           | c # _ \<Rightarrow> if is_ascii_digit c then parse_digits rest 0 else None))"

definition parse_json_exp :: "bytes \<Rightarrow> u64 option" where
  "parse_json_exp payload = parse_json_number ''exp'' payload"

definition parse_json_nbf :: "bytes \<Rightarrow> u64 option" where
  "parse_json_nbf payload = parse_json_number ''nbf'' payload"

definition parse_json_iat :: "bytes \<Rightarrow> u64 option" where
  "parse_json_iat payload = parse_json_number ''iat'' payload"

text \<open>The characters between the opening quote and the next quote; there are no escapes.\<close>

definition parse_json_string :: "string \<Rightarrow> bytes \<Rightarrow> bytes option" where
  "parse_json_string name payload =
     (case after_key payload name of
        None \<Rightarrow> None
      | Some [] \<Rightarrow> None
      | Some (c # rest) \<Rightarrow>
          if c = CHR 0x22 \<and> CHR 0x22 \<in> set rest
          then Some (takeWhile (\<lambda>x. x \<noteq> CHR 0x22) rest) else None)"

definition parse_json_jti :: "bytes \<Rightarrow> bytes option" where
  "parse_json_jti payload = parse_json_string ''jti'' payload"

definition parse_json_iss :: "bytes \<Rightarrow> bytes option" where
  "parse_json_iss payload = parse_json_string ''iss'' payload"

definition parse_json_alg :: "bytes \<Rightarrow> bytes option" where
  "parse_json_alg header = parse_json_string ''alg'' header"

definition parse_json_sub :: "bytes \<Rightarrow> string option" where
  "parse_json_sub payload = parse_json_string ''sub'' payload"

section \<open>Verification\<close>

text \<open>The instance entries \<open>JWTMAXLEN\<close> and \<open>JWTSKEW\<close>, the persistent marks of used token
  identifiers, under the hash of the identifier, and the index \<open>JTIIDX\<close> that the contract's
  \<open>purge_expired_jtis\<close> prunes.\<close>

record jwt_store =
  jw_max_len :: "u32 option"
  jw_skew :: "u64 option"
  jw_used :: "bytes \<Rightarrow> bool"
  jw_index :: "bytes list option"

definition empty_jwt_store :: jwt_store where
  "empty_jwt_store = \<lparr>jw_max_len = None, jw_skew = None, jw_used = (\<lambda>_. False), jw_index = None\<rparr>"

definition MAX_JWT_LEN :: u32 where "MAX_JWT_LEN = 2048"
definition MAX_JWT_LIFETIME :: u64 where "MAX_JWT_LIFETIME = 86400"
definition DEFAULT_CLOCK_SKEW :: u64 where "DEFAULT_CLOCK_SKEW = 60"
definition JTI_MAX_BYTES :: nat where "JTI_MAX_BYTES = 256"

definition jti_key :: "env \<Rightarrow> bytes \<Rightarrow> bytes" where
  "jti_key e jti = sha256 e (''jti:'' @ jti)"

text \<open>The three parts of a token with exactly two dots, all non-empty.\<close>

fun dots_from :: "nat \<Rightarrow> bytes \<Rightarrow> nat list" where
  "dots_from i [] = []"
| "dots_from i (c # cs) = (if c = CHR ''.'' then i # dots_from (Suc i) cs else dots_from (Suc i) cs)"

definition split_token :: "bytes \<Rightarrow> (bytes \<times> bytes \<times> bytes \<times> bytes) option" where
  "split_token buf =
     (case dots_from 0 buf of
        [d0, d1] \<Rightarrow>
          if d0 = 0 \<or> d1 \<le> d0 + 1 \<or> length buf \<le> d1 + 1 then None
          else Some (take d0 buf, take (d1 - (d0 + 1)) (drop (d0 + 1) buf), drop (d1 + 1) buf, take d1 buf)
      | _ \<Rightarrow> None)"

text \<open>Lifetime, issue time and start of validity (lines 389 to 427).\<close>

definition time_claims_ok :: "u64 \<Rightarrow> u64 \<Rightarrow> bytes \<Rightarrow> bool" where
  "time_claims_ok now skew payload =
     (case parse_json_exp payload of
        None \<Rightarrow> False
      | Some exp \<Rightarrow>
          if sat_add exp skew \<le> now then False
          else case parse_json_iat payload of
            None \<Rightarrow> False
          | Some iat \<Rightarrow>
              if iat = 0 then False
              else if sat_add now skew < iat then False
              else if (case checked_sub exp iat of None \<Rightarrow> True | Some life \<Rightarrow> MAX_JWT_LIFETIME < life)
              then False
              else (case parse_json_nbf payload of None \<Rightarrow> True | Some nbf \<Rightarrow> nbf \<le> sat_add now skew))"

text \<open>The issuer is present, not blank, and free of control characters (lines 468 to 485).\<close>

definition issuer_ok :: "bytes \<Rightarrow> bool" where
  "issuer_ok payload =
     (case parse_json_iss payload of
        None \<Rightarrow> False
      | Some iss \<Rightarrow>
          iss \<noteq> [] \<and>
          length (dropWhile is_ascii_whitespace (rev iss)) \<noteq> 0 \<and>
          length (takeWhile is_ascii_whitespace iss) < length iss \<and>
          \<not> list_ex (\<lambda>b. byte_val b < 32 \<or> byte_val b = 127) iss)"

text \<open>The replay check: \<open>None\<close> refuses, \<open>Some None\<close> has nothing to record.\<close>

definition jti_check :: "env \<Rightarrow> jwt_store \<Rightarrow> bytes \<Rightarrow> bytes option option" where
  "jti_check e s payload =
     (case parse_json_jti payload of
        None \<Rightarrow> Some None
      | Some jti \<Rightarrow>
          if JTI_MAX_BYTES < length jti then None
          else if jw_used s (jti_key e jti) then None
          else Some (Some (jti_key e jti)))"

text \<open>The result is the trap of the signature check, or \<open>Ok\<close> with the new store, or \<open>Err\<close>.\<close>

definition verify_sep10_jwt ::
    "env \<Rightarrow> jwt_store \<Rightarrow> string \<Rightarrow> bytes \<Rightarrow> string option \<Rightarrow> trap + jwt_store option" where
  "verify_sep10_jwt e s token public_key expected_sub =
     (if length public_key \<noteq> 32 then Inr None
      else if token = [] \<or> unat (get_or MAX_JWT_LEN (jw_max_len s)) < length token then Inr None
      else case split_token token of
        None \<Rightarrow> Inr None
      | Some (header_b64, payload_b64, sig_b64, signing_input) \<Rightarrow>
          (case base64url_decode header_b64 of
             None \<Rightarrow> Inr None
           | Some header \<Rightarrow>
          if parse_json_alg header \<noteq> Some ''EdDSA'' then Inr None
          else case base64url_decode sig_b64 of
             None \<Rightarrow> Inr None
           | Some sig \<Rightarrow>
          if length sig \<noteq> 64 then Inr None
          else if \<not> ed25519_verify e public_key signing_input sig then Inl HostTrap
          else case base64url_decode payload_b64 of
             None \<Rightarrow> Inr None
           | Some payload \<Rightarrow>
          if payload = [] then Inr None
          else if \<not> time_claims_ok (timestamp e) (get_or DEFAULT_CLOCK_SKEW (jw_skew s)) payload
          then Inr None
          else case jti_check e s payload of
             None \<Rightarrow> Inr None
           | Some mark \<Rightarrow>
          if \<not> issuer_ok payload then Inr None
          else case parse_json_sub payload of
             None \<Rightarrow> Inr None
           | Some sub \<Rightarrow>
          if sub = [] then Inr None
          else if expected_sub \<noteq> None \<and> expected_sub \<noteq> Some sub then Inr None
          else Inr (Some (case mark of
             None \<Rightarrow> s
           | Some k \<Rightarrow> s\<lparr>jw_used := (jw_used s)(k := True)\<rparr>))))"

section \<open>What an accepted token satisfies\<close>

text \<open>The decoded payload of a token.\<close>

definition token_payload :: "string \<Rightarrow> bytes option" where
  "token_payload token =
     (case split_token token of
        None \<Rightarrow> None
      | Some (h, p, sg, m) \<Rightarrow> base64url_decode p)"

lemma dots_from_append: "dots_from i (xs @ ys) = dots_from i xs @ dots_from (i + length xs) ys"
  by (induction xs arbitrary: i) auto

lemma dots_from_none: "CHR ''.'' \<notin> set xs \<Longrightarrow> dots_from i xs = []"
  by (induction xs arbitrary: i) auto

lemma dots_from_nth: "d \<in> set (dots_from i xs) \<Longrightarrow> i \<le> d \<and> d < i + length xs \<and> xs ! (d - i) = CHR ''.''"
  by (induction xs arbitrary: i) (fastforce simp: nth_Cons' split: if_splits)+

lemma split_token_join:
  assumes "split_token token = Some (h, p, sg, msg)"
  shows "msg @ CHR ''.'' # sg = token"
proof -
  obtain d0 d1 where d: "dots_from 0 token = [d0, d1]" and eq: "msg = take d1 token" "sg = drop (d1 + 1) token"
    using assms by (auto simp: split_token_def split: list.splits if_splits)
  then have "d1 < length token" "token ! d1 = CHR ''.''" using dots_from_nth [of d1 0 token] by auto
  then show ?thesis using id_take_nth_drop [of d1 token] by (simp add: eq)
qed

text \<open>Joining three non-empty parts without dots and splitting again.\<close>

lemma split_token_make:
  assumes "CHR ''.'' \<notin> set h" "CHR ''.'' \<notin> set p" "CHR ''.'' \<notin> set sg"
    and "h \<noteq> []" "p \<noteq> []" "sg \<noteq> []"
  shows "split_token (h @ ''.'' @ p @ ''.'' @ sg) = Some (h, p, sg, h @ ''.'' @ p)"
proof -
  have "dots_from 0 (h @ ''.'' @ p @ ''.'' @ sg) = [length h, length h + 1 + length p]"
    by (simp add: dots_from_append dots_from_none [OF assms(1)] dots_from_none [OF assms(2)]
        dots_from_none [OF assms(3)])
  then show ?thesis using assms(4-6) by (simp add: split_token_def Let_def)
qed

lemma verify_accepts:
  assumes "verify_sep10_jwt e s token pk expected = Inr (Some s')"
  obtains h p sg msg header sig payload sub mark where
    "length pk = 32" "split_token token = Some (h, p, sg, msg)"
    "base64url_decode h = Some header" "parse_json_alg header = Some ''EdDSA''"
    "base64url_decode sg = Some sig" "length sig = 64" "ed25519_verify e pk msg sig"
    "base64url_decode p = Some payload"
    "time_claims_ok (timestamp e) (get_or DEFAULT_CLOCK_SKEW (jw_skew s)) payload"
    "jti_check e s payload = Some mark" "issuer_ok payload"
    "parse_json_sub payload = Some sub" "sub \<noteq> []" "expected = None \<or> expected = Some sub"
    "s' = (case mark of None \<Rightarrow> s | Some k \<Rightarrow> s\<lparr>jw_used := (jw_used s)(k := True)\<rparr>)"
proof (cases "split_token token")
  case None
  with assms show thesis by (simp add: verify_sep10_jwt_def split: if_splits)
next
  case (Some t)
  obtain h p sg msg where t: "t = (h, p, sg, msg)" by (cases t)
  from assms Some t show thesis
    by (simp add: verify_sep10_jwt_def split: if_splits option.split_asm) (rule that, (simp; fail)+)+
qed

lemma time_claims_iff:
  "time_claims_ok now skew payload \<longleftrightarrow>
     (\<exists>exp iat. parse_json_exp payload = Some exp \<and> parse_json_iat payload = Some iat \<and>
        unat now < min (unat exp + unat skew) (2 ^ 64 - 1) \<and>
        0 < unat iat \<and> unat iat \<le> min (unat now + unat skew) (2 ^ 64 - 1) \<and>
        unat iat \<le> unat exp \<and> unat exp \<le> unat iat + unat MAX_JWT_LIFETIME \<and>
        (\<forall>nbf. parse_json_nbf payload = Some nbf \<longrightarrow>
           unat nbf \<le> min (unat now + unat skew) (2 ^ 64 - 1)))"
proof (cases "parse_json_exp payload")
  case None
  then show ?thesis by (simp add: time_claims_ok_def)
next
  case exp: (Some exp)
  show ?thesis
  proof (cases "parse_json_iat payload")
    case None
    with exp show ?thesis by (simp add: time_claims_ok_def)
  next
    case iat: (Some iat)
    have life: "(case checked_sub exp iat of None \<Rightarrow> True | Some life \<Rightarrow> MAX_JWT_LIFETIME < life) \<longleftrightarrow>
        \<not> (unat iat \<le> unat exp \<and> unat exp \<le> unat iat + unat MAX_JWT_LIFETIME)"
      by (simp add: checked_sub_def word_le_nat_alt word_less_nat_alt unat_sub_if_size not_less)
        linarith
    have nbf: "(case parse_json_nbf payload of None \<Rightarrow> True | Some nbf \<Rightarrow> nbf \<le> sat_add now skew) \<longleftrightarrow>
        (\<forall>nbf. parse_json_nbf payload = Some nbf \<longrightarrow>
           unat nbf \<le> min (unat now + unat skew) (2 ^ 64 - 1))"
      by (simp add: word_le_nat_alt unat_simps split: option.splits)
    have "time_claims_ok now skew payload \<longleftrightarrow>
        \<not> sat_add exp skew \<le> now \<and> iat \<noteq> 0 \<and> \<not> sat_add now skew < iat \<and>
        (unat iat \<le> unat exp \<and> unat exp \<le> unat iat + unat MAX_JWT_LIFETIME) \<and>
        (\<forall>nbf. parse_json_nbf payload = Some nbf \<longrightarrow>
           unat nbf \<le> min (unat now + unat skew) (2 ^ 64 - 1))"
      unfolding time_claims_ok_def exp iat option.case life nbf by auto
    then show ?thesis
      by (simp add: exp iat word_le_nat_alt word_less_nat_alt unat_simps unat_gt_0 not_le not_less)
  qed
qed

section \<open>Token identifiers are used once\<close>

text \<open>The store under any history of verifications and configuration changes.\<close>

datatype jwt_call =
    VerifyToken string bytes "string option"
  | SetMaxLen u32
  | SetSkew u64

fun jwt_exec :: "env \<Rightarrow> jwt_call \<Rightarrow> jwt_store \<Rightarrow> trap + jwt_store" where
  "jwt_exec e (VerifyToken token pk expected) s =
     bind_ok (verify_sep10_jwt e s token pk expected)
       (\<lambda>r. case r of None \<Rightarrow> Inl (Panic InvalidSep10Token) | Some s' \<Rightarrow> Inr s')"
| "jwt_exec e (SetMaxLen n) s = Inr (s\<lparr>jw_max_len := Some n\<rparr>)"
| "jwt_exec e (SetSkew n) s = Inr (s\<lparr>jw_skew := Some n\<rparr>)"

lemma verify_keeps_marks:
  assumes "verify_sep10_jwt e s token pk expected = Inr (Some s')" and "jw_used s k"
  shows "jw_used s' k"
  using assms(1) by (rule verify_accepts) (auto simp: assms(2) split: option.splits)

interpretation jwt_mark: stable_under jwt_exec "\<lambda>_. True" "\<lambda>s. jw_used s k" for k
proof (unfold_locales, rule TrueI)
  fix s e c s'
  assume "jw_used s k" and "jwt_exec e c s = Inr s'"
  then show "jw_used s' k"
    by (cases c) (auto simp: ok_simps split: option.splits intro: verify_keeps_marks)
qed

lemma verify_marks:
  assumes "verify_sep10_jwt e s token pk expected = Inr (Some s')"
    and "token_payload token = Some payload" and "parse_json_jti payload = Some jti"
  shows "\<not> jw_used s (jti_key e jti)" and "jw_used s' (jti_key e jti)"
  using assms(1)
  by (rule verify_accepts; use assms(2,3) in \<open>auto simp: token_payload_def jti_check_def split: if_splits\<close>)+

section \<open>A sample token\<close>

text \<open>A token with an identifier, for concrete runs, in an environment whose hash is the identity
  and whose signature check accepts.\<close>

definition json_pair :: "string \<Rightarrow> bytes \<Rightarrow> bytes" where
  "json_pair name value = quoted_key name @ value"

definition json_text :: "string \<Rightarrow> bytes" where
  "json_text s = CHR 0x22 # s @ [CHR 0x22]"

definition sample_header :: bytes where
  "sample_header = ''{'' @ json_pair ''alg'' (json_text ''EdDSA'') @ ''}''"

definition sample_payload :: bytes where
  "sample_payload = ''{'' @ json_pair ''exp'' ''1000,'' @ json_pair ''iat'' ''900,'' @
     json_pair ''iss'' (json_text ''a'') @ '','' @ json_pair ''sub'' (json_text ''S'') @ '','' @
     json_pair ''jti'' (json_text ''x'') @ ''}''"

definition sample_token :: string where
  "sample_token = b64url_encode sample_header @ ''.'' @ b64url_encode sample_payload @ ''.'' @
     b64url_encode (replicate 64 CHR ''s'')"

definition sample_env :: env where
  "sample_env = \<lparr>timestamp = 950, ledger_seq = 1, auths = {}, sha256 = (\<lambda>b. b),
     ed25519_verify = (\<lambda>_ _ _. True)\<rparr>"

lemma sample_split:
  "split_token sample_token = Some (b64url_encode sample_header, b64url_encode sample_payload,
     b64url_encode (replicate 64 CHR ''s''), b64url_encode sample_header @ ''.'' @ b64url_encode sample_payload)"
  unfolding sample_token_def
  by (rule split_token_make) (simp_all add: encode_no_dot sample_header_def sample_payload_def)

lemmas sample_defs = sample_header_def sample_payload_def json_pair_def json_text_def quoted_key_def

lemmas parse_defs = parse_json_string_def parse_json_number_def after_key_def find_bytes_def quoted_key_def
  is_ascii_whitespace_def is_ascii_digit_def byte_val_def

lemma sample_alg:
  "parse_json_alg sample_header = Some ''EdDSA''"
  by (simp add: parse_json_alg_def parse_defs sample_defs)

lemma sample_jti: "parse_json_jti sample_payload = Some ''x''"
  by (simp add: parse_json_jti_def parse_defs sample_defs)

lemma sample_sub: "parse_json_sub sample_payload = Some ''S''"
  by (simp add: parse_json_sub_def parse_defs sample_defs)

lemma sample_iss: "issuer_ok sample_payload"
  by (simp add: issuer_ok_def parse_json_iss_def parse_defs sample_defs)

lemma sample_exp:
  "parse_json_exp sample_payload = Some 1000"
  by (simp add: parse_json_exp_def parse_defs sample_defs checked_mul_def checked_add_def)

lemma sample_iat:
  "parse_json_iat sample_payload = Some 900"
  by (simp add: parse_json_iat_def parse_defs sample_defs checked_mul_def checked_add_def)

lemma sample_nbf:
  "parse_json_nbf sample_payload = None"
  by (simp add: parse_json_nbf_def parse_defs sample_defs checked_mul_def checked_add_def)

lemma sample_time: "time_claims_ok 950 60 sample_payload"
  by (simp add: time_claims_iff sample_exp sample_iat sample_nbf MAX_JWT_LIFETIME_def)

lemma sample_nonempty: "sample_payload \<noteq> []"
  by (simp add: sample_payload_def)

lemmas sample_claims = sample_alg sample_jti sample_sub sample_iss sample_time sample_nonempty

lemma sample_payload_of_token: "token_payload sample_token = Some sample_payload"
  by (simp add: token_payload_def sample_split decode_encode)

lemma sample_length: "sample_token \<noteq> []" "length sample_token \<le> 2048"
  by (simp_all add: sample_token_def length_encode sample_header_def sample_payload_def json_pair_def json_text_def
      quoted_key_def)

lemma sample_verify:
  "verify_sep10_jwt sample_env empty_jwt_store sample_token (replicate 32 CHR ''k'') (Some ''S'') =
     Inr (Some (empty_jwt_store\<lparr>jw_used := (\<lambda>_. False)(''jti:x'' := True)\<rparr>))"
  using sample_length
  by (simp add: verify_sep10_jwt_def sample_split decode_encode sample_claims sample_env_def
      empty_jwt_store_def MAX_JWT_LEN_def DEFAULT_CLOCK_SKEW_def jti_check_def jti_key_def JTI_MAX_BYTES_def)

section \<open>Properties\<close>

lemma issuer_okD:
  assumes "issuer_ok payload"
  shows "\<exists>iss. parse_json_iss payload = Some iss \<and> list_ex (\<lambda>b. \<not> is_ascii_whitespace b) iss \<and>
    list_all (\<lambda>b. 32 \<le> byte_val b \<and> byte_val b \<noteq> 127) iss"
proof -
  from assms obtain iss where iss: "parse_json_iss payload = Some iss"
    and short: "length (takeWhile is_ascii_whitespace iss) < length iss"
    and printable: "\<not> list_ex (\<lambda>b. byte_val b < 32 \<or> byte_val b = 127) iss"
    by (auto simp: issuer_ok_def split: option.split_asm)
  have "\<not> list_all is_ascii_whitespace iss"
  proof
    assume "list_all is_ascii_whitespace iss"
    then have "takeWhile is_ascii_whitespace iss = iss" by (simp add: takeWhile_eq_all_conv list_all_iff)
    with short show False by simp
  qed
  with iss printable show ?thesis
    by (intro exI [of _ iss]) (simp add: list_all_iff list_ex_iff not_less)
qed

text \<open>
  C18. What an accepted token guarantees: the host verified its Ed25519 signature by the given key
  over exactly the text before the second dot, the header says EdDSA, the token is inside its time
  window with the configured skew (also the start of validity, where it has one) and lives at most a
  day, the issuer is named by a text that is not blank and has no control character, the subject is
  the expected one, and a token identifier is at most 256 bytes, was unused, and is marked used now.
\<close>

theorem jwt_accept_sound:
  assumes "verify_sep10_jwt e s token pk expected = Inr (Some s')"
  shows "\<exists>h p sg msg header sig payload exp iat iss sub.
    split_token token = Some (h, p, sg, msg) \<and> msg @ CHR ''.'' # sg = token \<and>
    base64url_decode h = Some header \<and> parse_json_alg header = Some ''EdDSA'' \<and>
    base64url_decode sg = Some sig \<and> length sig = 64 \<and> length pk = 32 \<and>
    ed25519_verify e pk msg sig \<and>
    base64url_decode p = Some payload \<and>
    parse_json_exp payload = Some exp \<and> parse_json_iat payload = Some iat \<and>
    unat (timestamp e) < unat exp + unat (get_or DEFAULT_CLOCK_SKEW (jw_skew s)) \<and>
    unat iat \<le> unat (timestamp e) + unat (get_or DEFAULT_CLOCK_SKEW (jw_skew s)) \<and>
    unat exp \<le> unat iat + 86400 \<and> iat \<noteq> 0 \<and>
    (case parse_json_nbf payload of None \<Rightarrow> True
     | Some nbf \<Rightarrow> unat nbf \<le> unat (timestamp e) + unat (get_or DEFAULT_CLOCK_SKEW (jw_skew s))) \<and>
    parse_json_iss payload = Some iss \<and> list_ex (\<lambda>b. \<not> is_ascii_whitespace b) iss \<and>
    list_all (\<lambda>b. 32 \<le> byte_val b \<and> byte_val b \<noteq> 127) iss \<and>
    parse_json_sub payload = Some sub \<and> sub \<noteq> [] \<and> (expected = None \<or> expected = Some sub) \<and>
    (case parse_json_jti payload of
       None \<Rightarrow> s' = s
     | Some jti \<Rightarrow> length jti \<le> 256 \<and> \<not> jw_used s (jti_key e jti) \<and>
         s' = s\<lparr>jw_used := (jw_used s)(jti_key e jti := True)\<rparr>)"
  using assms
proof (rule verify_accepts)
  fix h p sg msg header sig payload sub mark
  assume a: "length pk = 32" "split_token token = Some (h, p, sg, msg)"
    "base64url_decode h = Some header" "parse_json_alg header = Some ''EdDSA''"
    "base64url_decode sg = Some sig" "length sig = 64" "ed25519_verify e pk msg sig"
    "base64url_decode p = Some payload"
    and time: "time_claims_ok (timestamp e) (get_or DEFAULT_CLOCK_SKEW (jw_skew s)) payload"
    and mark: "jti_check e s payload = Some mark" and issuer: "issuer_ok payload"
    and sub: "parse_json_sub payload = Some sub" "sub \<noteq> []" "expected = None \<or> expected = Some sub"
    and s': "s' = (case mark of None \<Rightarrow> s | Some k \<Rightarrow> s\<lparr>jw_used := (jw_used s)(k := True)\<rparr>)"
  from time obtain exp iat where t: "parse_json_exp payload = Some exp" "parse_json_iat payload = Some iat"
      "unat (timestamp e) < unat exp + unat (get_or DEFAULT_CLOCK_SKEW (jw_skew s))"
      "unat iat \<le> unat (timestamp e) + unat (get_or DEFAULT_CLOCK_SKEW (jw_skew s))"
      "unat exp \<le> unat iat + 86400" "iat \<noteq> 0"
      "case parse_json_nbf payload of None \<Rightarrow> True
       | Some nbf \<Rightarrow> unat nbf \<le> unat (timestamp e) + unat (get_or DEFAULT_CLOCK_SKEW (jw_skew s))"
    unfolding time_claims_iff
    by - (elim exE conjE, rule that, auto simp: MAX_JWT_LIFETIME_def unat_gt_0 split: option.split)
  from issuer_okD [OF issuer] obtain iss where i: "parse_json_iss payload = Some iss"
    "list_ex (\<lambda>b. \<not> is_ascii_whitespace b) iss" "list_all (\<lambda>b. 32 \<le> byte_val b \<and> byte_val b \<noteq> 127) iss"
    by blast
  have "msg @ CHR ''.'' # sg = token"
    using a(2) by (rule split_token_join)
  moreover have "case parse_json_jti payload of None \<Rightarrow> s' = s
    | Some jti \<Rightarrow> length jti \<le> 256 \<and> \<not> jw_used s (jti_key e jti) \<and>
         s' = s\<lparr>jw_used := (jw_used s)(jti_key e jti := True)\<rparr>"
    using mark s' by (auto simp: jti_check_def JTI_MAX_BYTES_def split: option.splits if_splits)
  ultimately show ?thesis using a sub t i by blast
qed

text \<open>
  C16. A token identifier is accepted at most once, whatever happens in between: after an accepted
  token, and any history of further verifications and configuration changes, every token
  with the same identifier is refused, with whatever key, subject, or other claims.
\<close>

theorem jwt_no_replay:
  assumes "verify_sep10_jwt e s token pk expected = Inr (Some s')"
    and "token_payload token = Some payload" and "parse_json_jti payload = Some jti"
    and "token_payload token2 = Some payload2" and "parse_json_jti payload2 = Some jti"
    and "sha256 e2 = sha256 e"
  shows "\<not> (\<exists>s''. verify_sep10_jwt e2 (run jwt_exec cs s') token2 pk2 expected2 = Inr (Some s''))"
proof
  assume "\<exists>s''. verify_sep10_jwt e2 (run jwt_exec cs s') token2 pk2 expected2 = Inr (Some s'')"
  then have "\<not> jw_used (run jwt_exec cs s') (jti_key e2 jti)"
    using verify_marks(1) assms(4,5) by blast
  moreover have "jw_used s' (jti_key e2 jti)"
    using verify_marks(2) [OF assms(1-3)] assms(6) by (simp add: jti_key_def)
  then have "jw_used (run jwt_exec cs s') (jti_key e2 jti)"
    using jwt_mark.run_fact by blast
  ultimately show False ..
qed

theorem jwt_accept_sound_witness:
  "\<exists>h p sg msg. split_token sample_token = Some (h, p, sg, msg) \<and>
     ed25519_verify sample_env (replicate 32 CHR ''k'') msg (replicate 64 CHR ''s'')"
proof -
  from jwt_accept_sound [OF sample_verify] obtain h p sg msg sig where
    "split_token sample_token = Some (h, p, sg, msg)" "base64url_decode sg = Some sig"
    "ed25519_verify sample_env (replicate 32 CHR ''k'') msg sig"
    by blast
  then show ?thesis by (auto simp: sample_split decode_encode)
qed

theorem jwt_no_replay_witness:
  "\<not> (\<exists>s''. verify_sep10_jwt (sample_env\<lparr>timestamp := 960\<rparr>)
        (run jwt_exec [(sample_env, SetSkew 300)] (empty_jwt_store\<lparr>jw_used := (\<lambda>_. False)(''jti:x'' := True)\<rparr>))
        sample_token (replicate 32 CHR ''k'') None = Inr (Some s''))"
  by (rule jwt_no_replay [OF sample_verify sample_payload_of_token sample_jti
        sample_payload_of_token sample_jti]) simp

end
