(* ===== verification/Soroban_Storage.thy ===== *)
theory Soroban_Storage
  imports Interfaces
begin

text \<open>
  Soroban's temporary storage as the repository uses it: a map whose entries carry the last
  ledger at which they can be read.  Instance and persistent entries do not disappear while the
  contract runs (an archived persistent entry makes the transaction fail until it is restored),
  so they are plain maps and their \<open>extend_ttl\<close> calls have no counterpart in the model.
\<close>

type_synonym ('k, 'v) temp_map = "'k \<Rightarrow> ('v \<times> nat) option"

definition temp_get :: "nat \<Rightarrow> ('k, 'v) temp_map \<Rightarrow> 'k \<Rightarrow> 'v option" where
  "temp_get now m k =
     (case m k of
        None \<Rightarrow> None
      | Some (v, live_until) \<Rightarrow> if now \<le> live_until then Some v else None)"

definition temp_put :: "nat \<Rightarrow> nat \<Rightarrow> ('k, 'v) temp_map \<Rightarrow> 'k \<Rightarrow> 'v \<Rightarrow> ('k, 'v) temp_map" where
  "temp_put now ttl m k v =
     m(k \<mapsto> (v, case m k of
                   None \<Rightarrow> now + ttl
                 | Some (_, live_until) \<Rightarrow>
                     if now \<le> live_until then max live_until (now + ttl) else now + ttl))"

interpretation temp: temp_storage temp_get temp_put
  by unfold_locales (auto simp: temp_get_def temp_put_def split: option.splits if_splits)

end
