(* ===== verification/Replay_Detection.thy ===== *)
theory Replay_Detection
  imports Soroban_Storage
begin

text \<open>
  \<^verbatim>\<open>src/replay_detection.rs\<close>: metrics and per-identifier counters of rejected replays, kept in
  instance and temporary storage, and the validity window of timestamps.
\<close>

section \<open>State\<close>

record replay_metrics =
  total_replay_attempts :: u64
  unique_replayed_ids :: u64
  last_replay_at :: u64
  last_updated_ledger :: u32
  accepted_events :: u64
  skipped_events :: u64

definition default_metrics :: replay_metrics where
  "default_metrics =
     \<lparr>total_replay_attempts = 0, unique_replayed_ids = 0, last_replay_at = 0,
      last_updated_ledger = 0, accepted_events = 0, skipped_events = 0\<rparr>"

record replay_attempt =
  ra_request_id :: bytes
  ra_actor :: address
  ra_attempt_number :: u32
  ra_timestamp :: u64
  ra_ledger_sequence :: u32

record replay_event =
  re_request_id :: bytes
  re_actor :: address
  re_detected_at :: u64
  re_attempt_count :: u32
  re_ledger_sequence :: u32

text \<open>The entries \<open>REPLAYM\<close> and \<open>RPLYID\<close> (instance), \<open>RPLYAT\<close> and \<open>RPLYEV\<close> (temporary).\<close>

record replay_store =
  rp_metrics :: "replay_metrics option"
  rp_next_id :: "u64 option"
  rp_attempts :: "(bytes, u32) temp_map"
  rp_events :: "(u64, replay_attempt) temp_map"

definition empty_replay_store :: replay_store where
  "empty_replay_store =
     \<lparr>rp_metrics = None, rp_next_id = None, rp_attempts = Map.empty, rp_events = Map.empty\<rparr>"

definition REPLAY_ATTEMPT_TTL :: nat where
  "REPLAY_ATTEMPT_TTL = 120960"

abbreviation seq_nat :: "env \<Rightarrow> nat" where
  "seq_nat e \<equiv> unat (ledger_seq e)"

section \<open>Operations\<close>

definition get_replay_metrics :: "replay_store \<Rightarrow> replay_metrics" where
  "get_replay_metrics r = get_or default_metrics (rp_metrics r)"

definition get_replay_count_for_id :: "env \<Rightarrow> replay_store \<Rightarrow> bytes \<Rightarrow> u64" where
  "get_replay_count_for_id e r request_id =
     ucast (get_or 0 (temp_get (seq_nat e) (rp_attempts r) request_id))"

definition get_replay_event :: "env \<Rightarrow> replay_store \<Rightarrow> u64 \<Rightarrow> replay_attempt option" where
  "get_replay_event e r event_id = temp_get (seq_nat e) (rp_events r) event_id"

text \<open>\<open>current + 1\<close> is a plain addition.\<close>

definition next_replay_event_id :: "replay_store \<Rightarrow> trap + (u64 \<times> replay_store)" where
  "next_replay_event_id r =
     (let current = get_or 0 (rp_next_id r)
      in bind_ok (plus_trap current 1) (\<lambda>next. Inr (current, r\<lparr>rp_next_id := Some next\<rparr>)))"

definition count_replay :: "env \<Rightarrow> u32 \<Rightarrow> replay_metrics \<Rightarrow> replay_metrics" where
  "count_replay e attempt_count m =
     m\<lparr>total_replay_attempts := sat_add (total_replay_attempts m) 1,
       unique_replayed_ids :=
         (if attempt_count = 1 then sat_add (unique_replayed_ids m) 1 else unique_replayed_ids m),
       last_replay_at := timestamp e,
       last_updated_ledger := ledger_seq e\<rparr>"

definition record_replay_detection ::
    "env \<Rightarrow> bytes \<Rightarrow> address \<Rightarrow> replay_store \<Rightarrow> trap + (replay_event \<times> replay_store)" where
  "record_replay_detection e request_id actor r =
     (let attempt_count = sat_add (get_or 0 (temp_get (seq_nat e) (rp_attempts r) request_id)) 1;
          r1 = r\<lparr>rp_metrics := Some (count_replay e attempt_count (get_replay_metrics r)),
                 rp_attempts :=
                   temp_put (seq_nat e) REPLAY_ATTEMPT_TTL (rp_attempts r) request_id attempt_count\<rparr>
      in bind_ok (next_replay_event_id r1) (\<lambda>(event_id, r2).
           let event = \<lparr>ra_request_id = request_id, ra_actor = actor,
                        ra_attempt_number = attempt_count, ra_timestamp = timestamp e,
                        ra_ledger_sequence = ledger_seq e\<rparr>
           in Inr (\<lparr>re_request_id = request_id, re_actor = actor, re_detected_at = timestamp e,
                    re_attempt_count = attempt_count, re_ledger_sequence = ledger_seq e\<rparr>,
                   r2\<lparr>rp_events :=
                     temp_put (seq_nat e) REPLAY_ATTEMPT_TTL (rp_events r2) event_id event\<rparr>)))"

definition record_accepted_event :: "env \<Rightarrow> replay_store \<Rightarrow> replay_store" where
  "record_accepted_event e r =
     (let m = get_replay_metrics r
      in r\<lparr>rp_metrics := Some (m\<lparr>accepted_events := sat_add (accepted_events m) 1,
                                 last_updated_ledger := ledger_seq e\<rparr>)\<rparr>)"

definition record_skipped_event :: "env \<Rightarrow> replay_store \<Rightarrow> replay_store" where
  "record_skipped_event e r =
     (let m = get_replay_metrics r
      in r\<lparr>rp_metrics := Some (m\<lparr>skipped_events := sat_add (skipped_events m) 1,
                                 last_updated_ledger := ledger_seq e\<rparr>)\<rparr>)"

text \<open>\<open>emit_replay_detection_log\<close> publishes only the opaque part of an event.\<close>

definition replay_log_payload :: "replay_event \<Rightarrow> u64 \<times> u32 \<times> u32" where
  "replay_log_payload ev = (re_detected_at ev, re_attempt_count ev, re_ledger_sequence ev)"

section \<open>Timestamps\<close>

definition DEFAULT_MAX_AGE_SECS :: u64 where
  "DEFAULT_MAX_AGE_SECS = 300"

definition DEFAULT_CLOCK_SKEW_SECS :: u64 where
  "DEFAULT_CLOCK_SKEW_SECS = 60"

definition is_timestamp_valid :: "u64 \<Rightarrow> u64 \<Rightarrow> u64 \<Rightarrow> u64 \<Rightarrow> bool" where
  "is_timestamp_valid ts now max_age max_skew =
     (if ts = 0 then False
      else if ts \<le> now then sat_sub now ts \<le> max_age
      else sat_sub ts now \<le> max_skew)"

definition is_default_timestamp_valid :: "u64 \<Rightarrow> u64 \<Rightarrow> bool" where
  "is_default_timestamp_valid ts now =
     is_timestamp_valid ts now DEFAULT_MAX_AGE_SECS DEFAULT_CLOCK_SKEW_SECS"

text \<open>\<open>Some (Ok age)\<close> is \<open>Some (Inr age)\<close>, \<open>Some (Err drift)\<close> is \<open>Some (Inl drift)\<close>.\<close>

definition calculate_timestamp_age :: "u64 \<Rightarrow> u64 \<Rightarrow> u64 \<Rightarrow> u64 \<Rightarrow> (u64 + u64) option" where
  "calculate_timestamp_age ts now max_age max_skew =
     (if ts = 0 then None
      else if ts \<le> now then
        (let age = sat_sub now ts in if age \<le> max_age then Some (Inr age) else None)
      else
        (let drift = sat_sub ts now in if drift \<le> max_skew then Some (Inl drift) else None))"

section \<open>Properties\<close>

lemma is_timestamp_valid_iff:
  "is_timestamp_valid ts now max_age max_skew \<longleftrightarrow>
     0 < unat ts \<and> unat now \<le> unat ts + unat max_age \<and> unat ts \<le> unat now + unat max_skew"
  by (auto simp: is_timestamp_valid_def word_le_nat_alt unat_simps word_unat_eq_iff)

text \<open>
  The validity window of a timestamp, over the integers: non-zero, at most \<open>max_age\<close> old and
  at most \<open>max_skew\<close> ahead, both bounds included, with no wrap-around at any values; and
  \<open>calculate_timestamp_age\<close> answers exactly for the valid timestamps, with the right distance.
\<close>

theorem timestamp_window:
  "(is_timestamp_valid ts now max_age max_skew \<longleftrightarrow>
      0 < unat ts \<and> unat now \<le> unat ts + unat max_age \<and> unat ts \<le> unat now + unat max_skew) \<and>
   (calculate_timestamp_age ts now max_age max_skew =
      (if \<not> is_timestamp_valid ts now max_age max_skew then None
       else if ts \<le> now then Some (Inr (now - ts)) else Some (Inl (ts - now))))"
proof (rule conjI [OF is_timestamp_valid_iff])
  show "calculate_timestamp_age ts now max_age max_skew =
      (if \<not> is_timestamp_valid ts now max_age max_skew then None
       else if ts \<le> now then Some (Inr (now - ts)) else Some (Inl (ts - now)))"
    by (auto simp: calculate_timestamp_age_def is_timestamp_valid_def sat_sub_def Let_def)
qed

text \<open>What a recorded replay changes.\<close>

lemma record_replay_ok:
  assumes "record_replay_detection e h a r = Inr (ev, r')"
  shows "total_replay_attempts (get_replay_metrics r') =
           sat_add (total_replay_attempts (get_replay_metrics r)) 1"
    and "accepted_events (get_replay_metrics r') = accepted_events (get_replay_metrics r)"
    and "temp_get (seq_nat e) (rp_attempts r') h = Some (re_attempt_count ev)"
    and "j \<noteq> h \<Longrightarrow> temp_get now (rp_attempts r') j = temp_get now (rp_attempts r) j"
    and "re_attempt_count ev = sat_add (get_or 0 (temp_get (seq_nat e) (rp_attempts r) h)) 1"
  using assms
  by (auto simp: record_replay_detection_def next_replay_event_id_def get_replay_metrics_def
      count_replay_def Let_def ok_simps temp.get_put_now temp.get_put_other)

text \<open>
  The per-identifier counter counts the attempts of one identifier only, and the count of
  distinct identifiers grows exactly when the identifier has no live counter.
\<close>

lemma replay_counters:
  assumes "record_replay_detection e h a r = Inr (ev, r')"
  shows "get_replay_count_for_id e r' h = ucast (re_attempt_count ev) \<and>
         (\<forall>j. j \<noteq> h \<longrightarrow> get_replay_count_for_id e r' j = get_replay_count_for_id e r j) \<and>
         unique_replayed_ids (get_replay_metrics r') =
           (if re_attempt_count ev = 1 then sat_add (unique_replayed_ids (get_replay_metrics r)) 1
            else unique_replayed_ids (get_replay_metrics r)) \<and>
         get_replay_event e r' (get_or 0 (rp_next_id r)) =
           Some \<lparr>ra_request_id = h, ra_actor = a, ra_attempt_number = re_attempt_count ev,
                 ra_timestamp = timestamp e, ra_ledger_sequence = ledger_seq e\<rparr>"
  using assms
  by (auto simp: record_replay_detection_def next_replay_event_id_def get_replay_metrics_def
      get_replay_count_for_id_def get_replay_event_def count_replay_def Let_def ok_simps
      temp.get_put_now temp.get_put_other)

end
