(* ===== verification/Admin_Audit_Log.thy ===== *)
theory Admin_Audit_Log
  imports Interfaces
begin

text \<open>
  \<^verbatim>\<open>src/admin_audit_log.rs\<close>: the log of administrative changes, a ring buffer over entry
  identifiers that are never reused.
\<close>

section \<open>State\<close>

record admin_event =
  ae_entry_id :: u64
  ae_admin :: address
  ae_change_type :: string
  ae_target :: string
  ae_old_value :: string
  ae_new_value :: string
  ae_timestamp :: u64
  ae_status :: string
  ae_error_message :: string

record audit_config =
  ac_enabled :: bool
  ac_max_entries :: u32
  ac_ttl_seconds :: u64

definition default_audit_config :: audit_config where
  "default_audit_config = \<lparr>ac_enabled = True, ac_max_entries = 10000, ac_ttl_seconds = 31536000\<rparr>"

text \<open>The instance entries \<open>ADMIN_AUDIT_CFG\<close>, \<open>ADMIN_AUDIT_CNT\<close> and \<open>ADMIN_AUDIT\<close>, and the
  events published so far.\<close>

record audit_store =
  au_config :: "audit_config option"
  au_count :: "u64 option"
  au_entries :: "u64 \<Rightarrow> admin_event option"
  au_published :: "admin_event list"

definition empty_audit_store :: audit_store where
  "empty_audit_store = \<lparr>au_config = None, au_count = None, au_entries = Map.empty, au_published = []\<rparr>"

section \<open>Operations\<close>

definition get_audit_config :: "audit_store \<Rightarrow> audit_config" where
  "get_audit_config s = get_or default_audit_config (au_config s)"

definition get_entry :: "audit_store \<Rightarrow> u64 \<Rightarrow> admin_event option" where
  "get_entry s entry_id = au_entries s entry_id"

definition get_entry_count :: "audit_store \<Rightarrow> u64" where
  "get_entry_count s = get_or 0 (au_count s)"

definition evict_oldest :: "u32 \<Rightarrow> u64 \<Rightarrow> (u64 \<Rightarrow> admin_event option) \<Rightarrow> u64 \<Rightarrow> admin_event option" where
  "evict_oldest max_entries entry_id entries =
     (if 0 < max_entries \<and> ucast max_entries \<le> entry_id
      then entries(entry_id - ucast max_entries := None) else entries)"

definition ttl_fits :: "u64 \<Rightarrow> bool" where
  "ttl_fits ttl \<longleftrightarrow> unat ttl < 2 ^ 32"

definition write_event ::
    "env \<Rightarrow> address \<Rightarrow> string \<Rightarrow> string \<Rightarrow> string \<Rightarrow> string \<Rightarrow> string \<Rightarrow> string \<Rightarrow> audit_store \<Rightarrow> trap + audit_store" where
  "write_event e admin change_type target old_value new_value status error_message s =
     (let config = get_audit_config s in
      if \<not> ac_enabled config then Inr s
      else
        let entry_id = get_entry_count s;
            entries = evict_oldest (ac_max_entries config) entry_id (au_entries s);
            event = \<lparr>ae_entry_id = entry_id, ae_admin = admin, ae_change_type = change_type,
                     ae_target = target, ae_old_value = old_value, ae_new_value = new_value,
                     ae_timestamp = timestamp e, ae_status = status,
                     ae_error_message = error_message\<rparr>
        in if \<not> ttl_fits (ac_ttl_seconds config) then Inl (Panic ValidationError)
           else bind_ok (of_option (Panic AuditLogCapacityExceeded) (checked_add entry_id 1)) (\<lambda>next_id.
             Inr (s\<lparr>au_entries := entries(entry_id \<mapsto> event),
                    au_count := Some next_id,
                    au_published := au_published s @ [event]\<rparr>)))"

definition log_change_with_status ::
    "env \<Rightarrow> address \<Rightarrow> string \<Rightarrow> string \<Rightarrow> string \<Rightarrow> string \<Rightarrow> string \<Rightarrow> string \<Rightarrow> audit_store \<Rightarrow> trap + audit_store" where
  "log_change_with_status e admin change_type target old_value new_value status error_message =
     write_event e admin change_type target old_value new_value status error_message"

definition log_change ::
    "env \<Rightarrow> address \<Rightarrow> string \<Rightarrow> string \<Rightarrow> string \<Rightarrow> string \<Rightarrow> audit_store \<Rightarrow> trap + audit_store" where
  "log_change e admin change_type target old_value new_value =
     log_change_with_status e admin change_type target old_value new_value ''success'' ''''"

definition log_action ::
    "env \<Rightarrow> address \<Rightarrow> string \<Rightarrow> string \<Rightarrow> string \<Rightarrow> string \<Rightarrow> audit_store \<Rightarrow> trap + audit_store" where
  "log_action e admin change_type target old_value new_value =
     write_event e admin change_type target old_value new_value ''success'' ''''"

definition set_audit_config :: "audit_config \<Rightarrow> audit_store \<Rightarrow> trap + audit_store" where
  "set_audit_config config s =
     (if \<not> ttl_fits (ac_ttl_seconds config) then Inl (Panic ValidationError)
      else Inr (s\<lparr>au_config := Some config\<rparr>))"

text \<open>\<open>clear_entries\<close>; \<open>admin\<close> is the entry \<open>ADMIN\<close> of the contract's instance storage.  The loop
  \<open>for id in 0..count\<close> removes every identifier below the counter.\<close>

definition clear_entries :: "env \<Rightarrow> address option \<Rightarrow> address \<Rightarrow> audit_store \<Rightarrow> trap + audit_store" where
  "clear_entries e admin caller s =
     bind_ok (of_option (Panic Unauthorized) admin) (\<lambda>a.
       if caller \<noteq> a then Inl (Panic Unauthorized)
       else bind_ok (require_auth e caller) (\<lambda>_.
         Inr (s\<lparr>au_entries := (\<lambda>i. if i < get_entry_count s then None else au_entries s i),
                au_count := Some 0\<rparr>)))"

section \<open>Ring buffer\<close>

text \<open>
  With a fixed capacity the log holds exactly the newest entries: the identifiers
  from \<open>count - max\<close> up to \<open>count\<close>, each under its own identifier.
\<close>

definition retained :: "audit_store \<Rightarrow> u64 \<Rightarrow> bool" where
  "retained s i \<longleftrightarrow>
     i < get_entry_count s \<and>
     (let m = ac_max_entries (get_audit_config s)
      in m = 0 \<or> unat (get_entry_count s) \<le> unat i + unat m)"

definition audit_inv :: "audit_store \<Rightarrow> bool" where
  "audit_inv s \<longleftrightarrow>
     (\<forall>i. case au_entries s i of
            None \<Rightarrow> \<not> retained s i
          | Some ev \<Rightarrow> retained s i \<and> ae_entry_id ev = i)"

lemma audit_invD:
  assumes "audit_inv s"
  shows "au_entries s i = None \<longleftrightarrow> \<not> retained s i"
    and "au_entries s i = Some ev \<Longrightarrow> ae_entry_id ev = i"
    and "au_entries s i = Some ev \<Longrightarrow> retained s i"
  using assms by (auto simp: audit_inv_def split: option.splits dest: spec [of _ i])

lemma audit_inv_empty: "audit_inv empty_audit_store"
  by (simp add: audit_inv_def empty_audit_store_def retained_def get_entry_count_def)

lemma write_event_ok:
  assumes "write_event e a ct t ov nv st em s = Inr s'" and "ac_enabled (get_audit_config s)"
  shows "unat (get_entry_count s') = Suc (unat (get_entry_count s))"
    and "get_audit_config s' = get_audit_config s"
    and "au_entries s' = (evict_oldest (ac_max_entries (get_audit_config s)) (get_entry_count s) (au_entries s))
           (get_entry_count s \<mapsto>
             \<lparr>ae_entry_id = get_entry_count s, ae_admin = a, ae_change_type = ct, ae_target = t,
              ae_old_value = ov, ae_new_value = nv, ae_timestamp = timestamp e, ae_status = st,
              ae_error_message = em\<rparr>)"
  using assms
  by (auto simp: write_event_def Let_def ok_simps get_entry_count_def get_audit_config_def checked_add_Some)

lemma write_event_disabled:
  "\<not> ac_enabled (get_audit_config s) \<Longrightarrow> write_event e a ct t ov nv st em s = Inr s"
  by (simp add: write_event_def Let_def)

lemma unat_ucast_u32 [simp]: "unat (ucast (m :: u32) :: u64) = unat m"
proof -
  have "unat m < 2 ^ 64" using unat_lt_pow [of m] by simp
  then show ?thesis by (simp add: unsigned_ucast_eq take_bit_nat_eq_self)
qed

lemma retained_alt:
  "retained s i \<longleftrightarrow>
     unat i < unat (get_entry_count s) \<and>
     (unat (ac_max_entries (get_audit_config s)) = 0 \<or>
      unat (get_entry_count s) \<le> unat i + unat (ac_max_entries (get_audit_config s)))"
  by (auto simp: retained_def Let_def word_less_nat_alt unat_eq_0)

lemma retained_step:
  assumes count: "unat (get_entry_count s') = Suc (unat (get_entry_count s))"
    and config: "get_audit_config s' = get_audit_config s"
  shows "retained s' i \<longleftrightarrow>
    i = get_entry_count s \<or>
    (retained s i \<and>
     \<not> (0 < ac_max_entries (get_audit_config s) \<and>
        ucast (ac_max_entries (get_audit_config s)) \<le> get_entry_count s \<and>
        i = get_entry_count s - ucast (ac_max_entries (get_audit_config s))))"
proof -
  have sub: "unat (n - k) = unat n - unat k" if "k \<le> n" for n k :: u64
    using that by (simp add: unat_sub)
  show ?thesis
    unfolding retained_alt count config word_unat_eq_iff word_less_nat_alt word_le_nat_alt
    using sub [of "ucast (ac_max_entries (get_audit_config s))" "get_entry_count s"]
    by (auto simp: word_le_nat_alt)
qed

lemma write_event_inv:
  assumes "audit_inv s" and "write_event e a ct t ov nv st em s = Inr s'"
  shows "audit_inv s'"
proof (cases "ac_enabled (get_audit_config s)")
  case False
  with assms show ?thesis by (simp add: write_event_disabled)
next
  case True
  note w = write_event_ok [OF assms(2) True]
  show ?thesis
    unfolding audit_inv_def w(3)
    using audit_invD [OF assms(1)] retained_step [OF w(1,2)]
    by (auto simp: evict_oldest_def split: option.splits)
qed

lemma clear_entries_inv: "clear_entries e adm c s = Inr s' \<Longrightarrow> audit_inv s \<Longrightarrow> audit_inv s'"
  using audit_invD(3) [of s]
  by (auto simp: clear_entries_def ok_simps audit_inv_def [of s'] retained_alt
      get_entry_count_def word_less_nat_alt split: option.splits if_splits)

text \<open>The log as a transactional component: writes by any caller with any texts.\<close>

datatype audit_call =
    WriteEvent address string string string string string string
  | ClearEntries "address option" address

fun audit_exec :: "env \<Rightarrow> audit_call \<Rightarrow> audit_store \<Rightarrow> trap + audit_store" where
  "audit_exec e (WriteEvent a ct t ov nv st em) s = write_event e a ct t ov nv st em s"
| "audit_exec e (ClearEntries adm c) s = clear_entries e adm c s"

interpretation audit_log: transactional audit_exec audit_inv
proof
  fix s e c s'
  assume "audit_inv s" and "audit_exec e c s = Inr s'"
  then show "audit_inv s'"
    by (cases c) (auto intro: write_event_inv clear_entries_inv)
qed

text \<open>
  Whatever is logged or cleared, and whichever calls trap, the log is a ring buffer: entry
  \<open>i\<close> is present exactly if it is one of the newest \<open>max_entries\<close> identifiers handed out since
  the last clear, and it is stored under its own identifier.
\<close>

theorem audit_ring_buffer:
  "(case get_entry (run audit_exec calls empty_audit_store) i of
      None \<Rightarrow> \<not> retained (run audit_exec calls empty_audit_store) i
    | Some ev \<Rightarrow> retained (run audit_exec calls empty_audit_store) i \<and> ae_entry_id ev = i)"
  using audit_log.run_inv [OF audit_inv_empty, of calls]
  by (simp add: audit_inv_def get_entry_def)

text \<open>
  Between two clears an identifier is never handed out twice: writing fails closed when the counter is exhausted,
  otherwise the new entry takes the next identifier and only the oldest one may give way.
\<close>

theorem audit_write_outcome:
  assumes "ac_enabled (get_audit_config s)" and "ttl_fits (ac_ttl_seconds (get_audit_config s))"
  shows "(write_event e a ct t ov nv st em s = Inl (Panic AuditLogCapacityExceeded) \<longleftrightarrow>
            get_entry_count s = word_top) \<and>
         (\<forall>s'. write_event e a ct t ov nv st em s = Inr s' \<longrightarrow>
            unat (get_entry_count s') = Suc (unat (get_entry_count s)) \<and>
            (\<forall>i. i \<noteq> get_entry_count s \<longrightarrow>
               get_entry s' i = get_entry s i \<or>
               unat i + unat (ac_max_entries (get_audit_config s)) = unat (get_entry_count s)))"
proof (intro conjI allI impI)
  show "write_event e a ct t ov nv st em s = Inl (Panic AuditLogCapacityExceeded) \<longleftrightarrow>
      get_entry_count s = word_top"
    using assms unat_lt_pow [of "get_entry_count s"]
    by (auto simp: write_event_def Let_def bind_ok_Inl of_option_def checked_add_None checked_add_Some
        word_unat_eq_iff unat_word_top split: option.splits)
next
  fix s' assume w: "write_event e a ct t ov nv st em s = Inr s'"
  note w' = write_event_ok [OF w assms(1)]
  show "unat (get_entry_count s') = Suc (unat (get_entry_count s))" by (rule w'(1))
  fix i assume "i \<noteq> get_entry_count s"
  then show "get_entry s' i = get_entry s i \<or>
      unat i + unat (ac_max_entries (get_audit_config s)) = unat (get_entry_count s)"
    unfolding get_entry_def w'(3)
    by (auto simp: evict_oldest_def unat_sub word_le_nat_alt)
qed

theorem audit_write_outcome_witness:
  "\<exists>s'. write_event (\<lparr>timestamp = 5, ledger_seq = 1, auths = {}, sha256 = id, ed25519_verify = \<lambda>_ _ _. True\<rparr>)
     ''ADMIN'' ''grant'' ''A'' '''' '''' ''success'' '''' empty_audit_store = Inr s' \<and>
   unat (get_entry_count s') = 1"
proof -
  let ?e = "\<lparr>timestamp = 5, ledger_seq = 1, auths = {}, sha256 = id, ed25519_verify = \<lambda>_ _ _. True\<rparr> :: env"
  have on: "ac_enabled (get_audit_config empty_audit_store)" "ttl_fits (ac_ttl_seconds (get_audit_config empty_audit_store))"
    by (simp_all add: get_audit_config_def empty_audit_store_def default_audit_config_def ttl_fits_def)
  obtain s' where w: "write_event ?e ''ADMIN'' ''grant'' ''A'' '''' '''' ''success'' '''' empty_audit_store = Inr s'"
    by (simp add: write_event_def on Let_def) (simp add: get_entry_count_def empty_audit_store_def checked_add_def)
  with audit_write_outcome [OF on, of ?e "''ADMIN''" "''grant''" "''A''" "''''" "''''" "''success''" "''''"]
  have "unat (get_entry_count s') = Suc (unat (get_entry_count empty_audit_store))" by blast
  with w show ?thesis by (simp add: get_entry_count_def empty_audit_store_def)
qed

end
