(* ===== verification/Rate_Limiter.thy ===== *)
theory Rate_Limiter
  imports Admin_Audit_Log
begin

text \<open>
  \<^verbatim>\<open>src/rate_limiter.rs\<close>: the per-attestor window, the token bucket and the fairness cap in front
  of attestation submissions, their configuration, and the overrides per role and per address.
\<close>

section \<open>State\<close>

record rate_limit_config =
  max_submissions :: u32
  window_length :: u32

record rate_limit_state =
  submission_count :: u32
  window_start_ledger :: u32

record burst_control_config =
  burst_capacity :: u32
  refill_per_ledger :: u32

record burst_state =
  tokens :: u32
  last_refill_ledger :: u32

record fairness_config =
  max_share_percent :: u32
  min_total_for_enforcement :: u32

record global_rate_window_state =
  total_count :: u32
  global_window_start :: u32

text \<open>The persistent entries \<open>RL_CONFIG\<close>, \<open>RL_ROLE\<close>, \<open>RL_ADDR\<close>, \<open>RL_STATE\<close>, \<open>RL_BST_CFG\<close>,
  \<open>RL_BST_ST\<close>, \<open>RL_FAIR_CFG\<close> and \<open>RL_GLOBAL\<close>.\<close>

record rl_store =
  rl_config :: "rate_limit_config option"
  rl_role :: "string \<Rightarrow> rate_limit_config option"
  rl_addr :: "address \<Rightarrow> rate_limit_config option"
  rl_state :: "address \<Rightarrow> rate_limit_state option"
  rl_burst_config :: "burst_control_config option"
  rl_burst_state :: "address \<Rightarrow> burst_state option"
  rl_fairness :: "fairness_config option"
  rl_global :: "global_rate_window_state option"

definition empty_rl_store :: rl_store where
  "empty_rl_store =
     \<lparr>rl_config = None, rl_role = Map.empty, rl_addr = Map.empty, rl_state = Map.empty,
      rl_burst_config = None, rl_burst_state = Map.empty, rl_fairness = None, rl_global = None\<rparr>"

section \<open>Configuration\<close>

definition set_role_override :: "string \<Rightarrow> rate_limit_config \<Rightarrow> rl_store \<Rightarrow> rl_store" where
  "set_role_override role config s = s\<lparr>rl_role := (rl_role s)(role \<mapsto> config)\<rparr>"

definition set_address_override :: "address \<Rightarrow> rate_limit_config \<Rightarrow> rl_store \<Rightarrow> rl_store" where
  "set_address_override address config s = s\<lparr>rl_addr := (rl_addr s)(address \<mapsto> config)\<rparr>"

definition get_rl_config :: "rl_store \<Rightarrow> rate_limit_config" where
  "get_rl_config s = get_or \<lparr>max_submissions = 10, window_length = 100\<rparr> (rl_config s)"

definition resolve_config :: "rl_store \<Rightarrow> address \<Rightarrow> string option \<Rightarrow> rate_limit_config" where
  "resolve_config s attestor role =
     (case rl_addr s attestor of
        Some cfg \<Rightarrow> cfg
      | None \<Rightarrow>
          (case role of
             None \<Rightarrow> get_rl_config s
           | Some r \<Rightarrow> (case rl_role s r of Some cfg \<Rightarrow> cfg | None \<Rightarrow> get_rl_config s)))"

definition validate_config :: "rate_limit_config \<Rightarrow> anchor_kit_error + unit" where
  "validate_config config =
     (if max_submissions config = 0 then Inl (validation_error ''max_submissions must be > 0'')
      else if window_length config = 0 then Inl (validation_error ''window_length must be > 0'')
      else Inr ())"

definition validate_burst_config :: "burst_control_config \<Rightarrow> anchor_kit_error + unit" where
  "validate_burst_config config =
     (if burst_capacity config = 0 then Inl (validation_error ''burst_capacity must be > 0'')
      else if refill_per_ledger config = 0 then Inl (validation_error ''refill_per_ledger must be > 0'')
      else Inr ())"

definition validate_fairness_config :: "fairness_config \<Rightarrow> anchor_kit_error + unit" where
  "validate_fairness_config config =
     (if max_share_percent config = 0 \<or> 100 < max_share_percent config
      then Inl (validation_error ''max_share_percent must be in 1..=100'')
      else Inr ())"

text \<open>The three \<open>update_*\<close> operations; \<open>stored_admin\<close> is the entry \<open>ADMIN\<close> of the contract.\<close>

definition only_admin :: "address option \<Rightarrow> address \<Rightarrow> anchor_kit_error + unit" where
  "only_admin stored_admin admin =
     bind_ok (of_option (from_code NotInitialized) stored_admin) (\<lambda>a.
       if admin \<noteq> a then Inl (from_code UnauthorizedAttestor) else Inr ())"

definition update_config ::
    "address option \<Rightarrow> address \<Rightarrow> rate_limit_config \<Rightarrow> rl_store \<Rightarrow> anchor_kit_error + rl_store" where
  "update_config stored_admin admin config s =
     bind_ok (only_admin stored_admin admin) (\<lambda>_.
     bind_ok (validate_config config) (\<lambda>_.
       Inr (s\<lparr>rl_config := Some config\<rparr>)))"

definition update_burst_config ::
    "address option \<Rightarrow> address \<Rightarrow> burst_control_config \<Rightarrow> rl_store \<Rightarrow> anchor_kit_error + rl_store" where
  "update_burst_config stored_admin admin config s =
     bind_ok (only_admin stored_admin admin) (\<lambda>_.
     bind_ok (validate_burst_config config) (\<lambda>_.
       Inr (s\<lparr>rl_burst_config := Some config\<rparr>)))"

definition update_fairness_config ::
    "address option \<Rightarrow> address \<Rightarrow> fairness_config \<Rightarrow> rl_store \<Rightarrow> anchor_kit_error + rl_store" where
  "update_fairness_config stored_admin admin config s =
     bind_ok (only_admin stored_admin admin) (\<lambda>_.
     bind_ok (validate_fairness_config config) (\<lambda>_.
       Inr (s\<lparr>rl_fairness := Some config\<rparr>)))"

section \<open>Admission\<close>

definition is_window_expired :: "u32 \<Rightarrow> u32 \<Rightarrow> u32 \<Rightarrow> bool" where
  "is_window_expired current_ledger start len \<longleftrightarrow> len \<le> sat_sub current_ledger start"

lemma is_window_expired_iff [simp]:
  "is_window_expired c start len \<longleftrightarrow> unat len \<le> unat c - unat start"
  by (simp add: is_window_expired_def word_le_nat_alt unat_simps)

definition get_rl_state :: "env \<Rightarrow> rl_store \<Rightarrow> address \<Rightarrow> rate_limit_state" where
  "get_rl_state e s attestor =
     get_or \<lparr>submission_count = 0, window_start_ledger = ledger_seq e\<rparr> (rl_state s attestor)"

definition get_burst_state :: "env \<Rightarrow> rl_store \<Rightarrow> address \<Rightarrow> burst_control_config \<Rightarrow> burst_state" where
  "get_burst_state e s attestor config =
     get_or \<lparr>tokens = burst_capacity config, last_refill_ledger = ledger_seq e\<rparr>
       (rl_burst_state s attestor)"

text \<open>The refill is \<open>elapsed * rate\<close>, saturating; the state is stored on refusal as well.\<close>

definition refilled :: "burst_control_config \<Rightarrow> u32 \<Rightarrow> burst_state \<Rightarrow> burst_state" where
  "refilled config current_ledger st =
     (let elapsed = sat_sub current_ledger (last_refill_ledger st) in
      if 0 < elapsed
      then \<lparr>tokens = min (sat_add (tokens st) (sat_mul elapsed (refill_per_ledger config)))
                       (burst_capacity config),
            last_refill_ledger = current_ledger\<rparr>
      else st)"

definition check_and_consume_burst ::
    "env \<Rightarrow> address \<Rightarrow> burst_control_config \<Rightarrow> u32 \<Rightarrow> rl_store \<Rightarrow> (anchor_kit_error + unit) \<times> rl_store" where
  "check_and_consume_burst e attestor config current_ledger s =
     (let st = refilled config current_ledger (get_burst_state e s attestor config) in
      if tokens st = 0
      then (Inl (from_code RateLimitExceeded),
            s\<lparr>rl_burst_state := (rl_burst_state s)(attestor \<mapsto> st)\<rparr>)
      else (Inr (),
            s\<lparr>rl_burst_state := (rl_burst_state s)(attestor \<mapsto> st\<lparr>tokens := tokens st - 1\<rparr>)\<rparr>))"

definition get_global_window_state :: "rl_store \<Rightarrow> u32 \<Rightarrow> u32 \<Rightarrow> global_rate_window_state" where
  "get_global_window_state s len current_ledger =
     (let state = get_or \<lparr>total_count = 0, global_window_start = current_ledger\<rparr> (rl_global s) in
      if is_window_expired current_ledger (global_window_start state) len
      then \<lparr>total_count = 0, global_window_start = current_ledger\<rparr> else state)"

definition exceeds_share :: "u32 \<Rightarrow> u32 \<Rightarrow> fairness_config \<Rightarrow> trap + bool" where
  "exceeds_share prospective_count prospective_total fc =
     (if min_total_for_enforcement fc \<le> prospective_total
      then bind_ok (times_trap (ucast prospective_count) (100 :: u64)) (\<lambda>attestor_share_scaled.
           bind_ok (times_trap (ucast (max_share_percent fc)) (ucast prospective_total :: u64))
             (\<lambda>allowed_share_scaled. Inr (allowed_share_scaled < attestor_share_scaled)))
      else Inr False)"

definition check_fairness ::
    "rate_limit_config \<Rightarrow> rate_limit_state \<Rightarrow> fairness_config \<Rightarrow> u32 \<Rightarrow> rl_store \<Rightarrow>
     trap + ((anchor_kit_error + unit) \<times> rl_store)" where
  "check_fairness config attestor_state fc current_ledger s =
     (let g = get_global_window_state s (window_length config) current_ledger in
      bind_ok (plus_trap (total_count g) 1) (\<lambda>prospective_total.
      bind_ok (plus_trap (submission_count attestor_state) 1) (\<lambda>prospective_count.
      bind_ok (exceeds_share prospective_count prospective_total fc) (\<lambda>exceeds.
        if exceeds then Inr (Inl (from_code RateLimitExceeded), s)
        else Inr (Inr (), s\<lparr>rl_global := Some (g\<lparr>total_count := prospective_total\<rparr>)\<rparr>)))))"

definition throttled_error :: anchor_kit_error where
  "throttled_error = error_new RateLimitExceeded
     ''Request throttled: rate-limit window capacity exhausted; retry after the window expires''"

text \<open>The attestor's window at the current ledger: reset when it has expired.\<close>

definition current_window :: "env \<Rightarrow> rl_store \<Rightarrow> address \<Rightarrow> rate_limit_config \<Rightarrow> rate_limit_state" where
  "current_window e s attestor config =
     (let state = get_rl_state e s attestor in
      if is_window_expired (ledger_seq e) (window_start_ledger state) (window_length config)
      then \<lparr>submission_count = 0, window_start_ledger = ledger_seq e\<rparr> else state)"

text \<open>\<open>check_and_increment\<close>: the outer sum is the trap of a plain addition or of the audit log,
  the inner one the \<open>Result\<close> the code returns.\<close>

definition check_and_increment ::
    "env \<Rightarrow> address option \<Rightarrow> address \<Rightarrow> rate_limit_config \<Rightarrow> rl_store \<Rightarrow> audit_store \<Rightarrow>
     trap + ((anchor_kit_error + unit) \<times> rl_store \<times> audit_store)" where
  "check_and_increment e admin attestor config s au =
     (if admin = Some attestor
      then bind_ok (log_change e attestor ''rate_limit_bypass'' ''bypassed'' '''' ''bypassed'' au)
             (\<lambda>au'. Inr (Inr (), s, au'))
      else
        let state = current_window e s attestor config in
        if max_submissions config \<le> submission_count state
        then Inr (Inl throttled_error, s, au)
        else
          case (case rl_burst_config s of
                  None \<Rightarrow> (Inr (), s)
                | Some bc \<Rightarrow> check_and_consume_burst e attestor bc (ledger_seq e) s) of
            (Inl err, s1) \<Rightarrow> Inr (Inl err, s1, au)
          | (Inr _, s1) \<Rightarrow>
              bind_ok
                (case rl_fairness s1 of
                   None \<Rightarrow> Inr (Inr (), s1)
                 | Some fc \<Rightarrow> check_fairness config state fc (ledger_seq e) s1)
                (\<lambda>(r, s2).
                   case r of
                     Inl err \<Rightarrow> Inr (Inl err, s2, au)
                   | Inr _ \<Rightarrow>
                       Inr (Inr (),
                            s2\<lparr>rl_state := (rl_state s2)(attestor \<mapsto>
                                 state\<lparr>submission_count := sat_add (submission_count state) 1\<rparr>)\<rparr>,
                            au)))"

section \<open>What one request does\<close>

lemma unat_refilled:
  "last_refill_ledger (refilled bc now st) =
     (if unat (last_refill_ledger st) < unat now then now else last_refill_ledger st)"
  "unat (tokens (refilled bc now st)) \<le>
     unat (tokens st) + unat (refill_per_ledger bc) * (unat now - unat (last_refill_ledger st))"
proof -
  have sub: "0 < sat_sub now (last_refill_ledger st) \<longleftrightarrow>
      unat (last_refill_ledger st) < unat now"
    by (simp add: word_less_nat_alt unat_simps)
  then show "last_refill_ledger (refilled bc now st) =
     (if unat (last_refill_ledger st) < unat now then now else last_refill_ledger st)"
    by (simp add: refilled_def Let_def)
  have "unat (min a b) \<le> unat a" for a b :: u32
    by (simp add: min_def word_le_nat_alt)
  then have "unat (tokens (refilled bc now st)) \<le>
      (if unat (last_refill_ledger st) < unat now
       then unat (sat_add (tokens st)
              (sat_mul (sat_sub now (last_refill_ledger st)) (refill_per_ledger bc)))
       else unat (tokens st))"
    using sub by (simp add: refilled_def Let_def)
  then show "unat (tokens (refilled bc now st)) \<le>
     unat (tokens st) + unat (refill_per_ledger bc) * (unat now - unat (last_refill_ledger st))"
    by (simp add: unat_simps mult.commute split: if_splits) linarith
qed

lemma check_fairness_cases:
  assumes "check_fairness config st fc now s = Inr (r, s')"
  shows "s' = s \<and> r = Inl (from_code RateLimitExceeded) \<or>
         (\<exists>g. s' = s\<lparr>rl_global := Some g\<rparr>) \<and> r = Inr ()"
  using assms by (auto simp: check_fairness_def Let_def ok_simps split: if_splits)

text \<open>The store after the token bucket let a request pass.\<close>

definition took_token :: "env \<Rightarrow> address \<Rightarrow> rl_store \<Rightarrow> rl_store \<Rightarrow> bool" where
  "took_token e b s s1 \<longleftrightarrow>
     (case rl_burst_config s of
        None \<Rightarrow> s1 = s
      | Some bc \<Rightarrow>
          let st = refilled bc (ledger_seq e) (get_burst_state e s b bc) in
          tokens st \<noteq> 0 \<and>
          s1 = s\<lparr>rl_burst_state := (rl_burst_state s)(b \<mapsto> st\<lparr>tokens := tokens st - 1\<rparr>)\<rparr>)"

lemma check_and_increment_cases:
  assumes "check_and_increment e admin b cfg s au = Inr (r, s', au')"
  obtains (bypass) "admin = Some b" "r = Inr ()" "s' = s"
    | (full) "admin \<noteq> Some b" "r = Inl throttled_error" "s' = s"
        "max_submissions cfg \<le> submission_count (current_window e s b cfg)"
    | (drained) bc where "admin \<noteq> Some b" "rl_burst_config s = Some bc"
        "r = Inl (from_code RateLimitExceeded)"
        "tokens (refilled bc (ledger_seq e) (get_burst_state e s b bc)) = 0"
        "s' = s\<lparr>rl_burst_state := (rl_burst_state s)
               (b \<mapsto> refilled bc (ledger_seq e) (get_burst_state e s b bc))\<rparr>"
    | (unfair) s1 fc where "admin \<noteq> Some b" "took_token e b s s1" "rl_fairness s = Some fc"
        "check_fairness cfg (current_window e s b cfg) fc (ledger_seq e) s1 = Inr (r, s1)"
        "r = Inl (from_code RateLimitExceeded)" "s' = s1"
    | (accept) s1 s2 where "admin \<noteq> Some b" "r = Inr ()" "took_token e b s s1"
        "submission_count (current_window e s b cfg) < max_submissions cfg"
        "case rl_fairness s of None \<Rightarrow> s2 = s1
         | Some fc \<Rightarrow> check_fairness cfg (current_window e s b cfg) fc (ledger_seq e) s1 = Inr (Inr (), s2)"
        "s' = s2\<lparr>rl_state := (rl_state s2)(b \<mapsto> (current_window e s b cfg)
               \<lparr>submission_count := sat_add (submission_count (current_window e s b cfg)) 1\<rparr>)\<rparr>"
proof (cases "admin = Some b")
  case True
  then have "r = Inr ()" "s' = s"
    using assms by (auto simp: check_and_increment_def ok_simps)
  with True show thesis by (rule bypass)
next
  case admin: False
  let ?w = "current_window e s b cfg"
  show thesis
  proof (cases "max_submissions cfg \<le> submission_count ?w")
    case True
    then have "r = Inl throttled_error" "s' = s"
      using assms admin by (simp_all add: check_and_increment_def)
    with admin show thesis using True by (rule full)
  next
    case room: False
    define burst where
      "burst = (case rl_burst_config s of None \<Rightarrow> (Inr (), s)
                | Some bc \<Rightarrow> check_and_consume_burst e b bc (ledger_seq e) s)"
    obtain rb s1 where burst_eq: "burst = (rb, s1)" by (cases burst)
    note run = assms [unfolded check_and_increment_def Let_def if_not_P [OF admin] if_not_P [OF room],
        folded burst_def, unfolded burst_eq]
    show thesis
    proof (cases rb)
      case (Inl err)
      then obtain bc where bc: "rl_burst_config s = Some bc"
        and zero: "tokens (refilled bc (ledger_seq e) (get_burst_state e s b bc)) = 0"
        and s1: "s1 = s\<lparr>rl_burst_state := (rl_burst_state s)
               (b \<mapsto> refilled bc (ledger_seq e) (get_burst_state e s b bc))\<rparr>"
        and err: "err = from_code RateLimitExceeded"
        using burst_eq
        by (auto simp: burst_def check_and_consume_burst_def Let_def split: option.splits if_splits)
      from run Inl err have "r = Inl (from_code RateLimitExceeded)" "s' = s1" by simp_all
      with admin bc zero s1 show thesis by (intro drained) simp_all
    next
      case (Inr u)
      have token: "took_token e b s s1" and same: "rl_fairness s1 = rl_fairness s"
        using burst_eq Inr
        by (auto simp: burst_def took_token_def check_and_consume_burst_def Let_def
            split: option.splits if_splits)
      have room': "submission_count ?w < max_submissions cfg" using room by simp
      show thesis
      proof (cases "rl_fairness s")
        case None
        with run Inr same have "r = Inr ()" and "s' = s1\<lparr>rl_state := (rl_state s1)(b \<mapsto>
                  ?w\<lparr>submission_count := sat_add (submission_count ?w) 1\<rparr>)\<rparr>"
          by simp_all
        with None show thesis by (intro accept [OF admin _ token room', of s1]) simp_all
      next
        case (Some fc)
        with run Inr same obtain rf s2 where
          f: "check_fairness cfg ?w fc (ledger_seq e) s1 = Inr (rf, s2)"
            and rest: "(case rf of Inl err \<Rightarrow> Inr (Inl err, s2, au)
              | Inr _ \<Rightarrow> Inr (Inr (), s2\<lparr>rl_state := (rl_state s2)(b \<mapsto>
                  ?w\<lparr>submission_count := sat_add (submission_count ?w) 1\<rparr>)\<rparr>, au))
              = (Inr (r, s', au') :: trap + _)"
          by (auto simp: ok_simps)
        show thesis
        proof (cases rf)
          case (Inl err)
          with check_fairness_cases [OF f] have "s2 = s1" "err = from_code RateLimitExceeded"
            by auto
          with rest f Inl show thesis by (intro unfair [OF admin token Some]) simp_all
        next
          case (Inr v)
          with rest f Some show thesis by (intro accept [OF admin _ token room', of s2]) simp_all
        qed
      qed
    qed
  qed
qed

end
