(* ===== verification/Session_State_Machine.thy ===== *)
theory Session_State_Machine
  imports Interfaces
begin

text \<open>
  \<^verbatim>\<open>src/session_state_machine.rs\<close>: the lifecycle states of an on-chain session, the table of
  legal transitions, the check \<open>validate_transition\<close> that enforces it and the expiry time.
\<close>

section \<open>States\<close>

datatype session_state = Created | Active | Exhausted | Closed | Expired

fun state_u32 :: "session_state \<Rightarrow> u32" where
  "state_u32 Created = 0"
| "state_u32 Active = 1"
| "state_u32 Exhausted = 2"
| "state_u32 Closed = 3"
| "state_u32 Expired = 4"

definition from_u32 :: "u32 \<Rightarrow> session_state" where
  "from_u32 v =
     (if v = 0 then Created
      else if v = 1 then Active
      else if v = 2 then Exhausted
      else if v = 3 then Closed
      else Expired)"

lemma from_u32_state_u32 [simp]: "from_u32 (state_u32 s) = s"
  by (cases s) (simp_all add: from_u32_def)

lemma state_u32_inject [simp]: "state_u32 a = state_u32 b \<longleftrightarrow> a = b"
  by (metis from_u32_state_u32)

fun is_terminal :: "session_state \<Rightarrow> bool" where
  "is_terminal Closed = True"
| "is_terminal Expired = True"
| "is_terminal Exhausted = True"
| "is_terminal _ = False"

fun accepts_operations :: "session_state \<Rightarrow> bool" where
  "accepts_operations Created = True"
| "accepts_operations Active = True"
| "accepts_operations _ = False"

lemma accepts_iff_not_terminal: "accepts_operations s \<longleftrightarrow> \<not> is_terminal s"
  by (cases s) simp_all

section \<open>Expiry\<close>

definition session_expiry :: "u64 \<Rightarrow> u64 \<Rightarrow> u64" where
  "session_expiry created_at ttl_secs = sat_add created_at ttl_secs"

section \<open>The transition table\<close>

definition LEGAL_TRANSITIONS :: "(session_state \<times> session_state) list" where
  "LEGAL_TRANSITIONS =
    [(Created, Active),
     (Created, Exhausted),
     (Created, Closed),
     (Active, Closed),
     (Exhausted, Closed),
     (Active, Exhausted),
     (Created, Expired),
     (Active, Expired),
     (Exhausted, Expired)]"

definition is_legal_transition :: "session_state \<Rightarrow> session_state \<Rightarrow> bool" where
  "is_legal_transition from_s to_s \<longleftrightarrow>
     list_ex (\<lambda>(f, t). f = from_s \<and> t = to_s) LEGAL_TRANSITIONS"

datatype transition_error = SameState | FromTerminal | TransitionNotLegal

definition validate_transition ::
    "session_state \<Rightarrow> session_state \<Rightarrow> transition_error + unit" where
  "validate_transition from_s to_s =
     (if from_s = to_s then Inl SameState
      else if is_terminal from_s then Inl FromTerminal
      else if \<not> is_legal_transition from_s to_s then Inl TransitionNotLegal
      else Inr ())"

lemma is_legal_transition_iff:
  "is_legal_transition f t \<longleftrightarrow>
     (case f of
        Created \<Rightarrow> t \<noteq> Created
      | Active \<Rightarrow> t = Exhausted \<or> t = Closed \<or> t = Expired
      | Exhausted \<Rightarrow> t = Closed \<or> t = Expired
      | _ \<Rightarrow> False)"
  by (cases f; cases t) (simp_all add: is_legal_transition_def LEGAL_TRANSITIONS_def)

section \<open>Accepted transitions form a lifecycle\<close>

definition accepted :: "session_state \<Rightarrow> session_state \<Rightarrow> bool" where
  "accepted f t \<longleftrightarrow> validate_transition f t = Inr ()"

fun stage :: "session_state \<Rightarrow> nat" where
  "stage Created = 0"
| "stage Active = 1"
| "stage _ = 2"

lemma accepted_iff:
  "accepted f t \<longleftrightarrow> stage f < stage t"
  by (cases f; cases t)
    (simp_all add: accepted_def validate_transition_def is_legal_transition_iff)

lemma stage_le_2 [simp]: "stage s \<le> 2" "\<not> 2 < stage s"
  by (cases s; simp)+

interpretation session: lifecycle accepted stage 2
  by unfold_locales (simp_all add: accepted_iff)

text \<open>
  What the check accepts, on every pair of states: exactly the transitions out of the two
  states that accept operations, forward to \<open>Active\<close> or to one of the final states; every other
  pair is refused with the error of the first failing test.
\<close>

theorem validate_transition_outcome:
  "validate_transition f t =
     (if f = t then Inl SameState
      else if \<not> accepts_operations f then Inl FromTerminal
      else if t = Created then Inl TransitionNotLegal
      else Inr ())"
  by (cases f; cases t) (simp_all add: validate_transition_def is_legal_transition_iff)

text \<open>
  A session's history is short and never goes back: any sequence of accepted transitions has
  at most two steps, never revisits a state, and stops in a final state for good.
\<close>

theorem session_lifecycle_bounded:
  assumes "path accepted n s t"
  shows "n \<le> 2 - stage s \<and> (s = t \<longleftrightarrow> n = 0) \<and> (is_terminal s \<longleftrightarrow> (\<forall>u. \<not> accepted s u))"
proof (intro conjI)
  show "n \<le> 2 - stage s" using assms by (rule session.path_bounded)
  show "s = t \<longleftrightarrow> n = 0" using assms session.no_return by (auto elim: path_0E)
  show "is_terminal s \<longleftrightarrow> (\<forall>u. \<not> accepted s u)"
    by (cases s) (auto simp: accepted_iff intro: exI [of _ Closed])
qed

theorem session_lifecycle_bounded_witness:
  "path accepted 2 Created Closed \<and> (2::nat) \<le> 2 - stage Created"
proof -
  have "path accepted (Suc (Suc 0)) Created Closed"
    by (rule path.intros(2) [of _ _ Active], simp add: accepted_iff,
        rule path.intros(2) [of _ _ Closed], simp add: accepted_iff, rule path.intros(1))
  then have p: "path accepted 2 Created Closed" by (simp add: numeral_2_eq_2)
  with session_lifecycle_bounded [OF p] show ?thesis by simp
qed

text \<open>
  The table lists a transition from \<open>Exhausted\<close> to \<open>Closed\<close>, and one to \<open>Expired\<close>, that the
  check never lets through: \<open>Exhausted\<close> is also terminal, and that test comes first.
\<close>

theorem exhausted_table_entries_unreachable:
  "is_legal_transition Exhausted Closed \<and> validate_transition Exhausted Closed = Inl FromTerminal \<and>
   is_legal_transition Exhausted Expired \<and> validate_transition Exhausted Expired = Inl FromTerminal"
  by (simp add: is_legal_transition_iff validate_transition_def)

text \<open>
  The expiry time is exact whenever it is representable and saturates otherwise: it never lies
  before the creation time, and grows with the time to live.
\<close>

theorem session_expiry_saturates:
  "unat (session_expiry c ttl) = min (unat c + unat ttl) (2 ^ 64 - 1) \<and>
   c \<le> session_expiry c ttl \<and>
   session_expiry c ttl \<le> session_expiry c (max ttl ttl')"
proof -
  have "session_expiry c ttl \<le> session_expiry c (max ttl ttl')"
    unfolding word_le_nat_alt session_expiry_def unat_simps
    by (intro min.mono add_left_mono) (simp_all add: word_le_nat_alt max_def)
  then show ?thesis by (simp add: session_expiry_def unat_sat_add)
qed

end
