(* ===== verification/Transaction_State.thy ===== *)
theory Transaction_State
  imports Interfaces
begin

text \<open>
  The data of \<^verbatim>\<open>src/transaction_state_tracker.rs\<close>: transaction states and their transitions,
  transaction records with their history and recovery metadata, the retention policy and the
  storage budget monitor; and the changes of one record that the tracker (in both of its modes)
  and the contract make.
\<close>

section \<open>States\<close>

datatype tx_state = TxPending | TxInProgress | TxCompleted | TxFailed

primrec tx_u32 :: "tx_state \<Rightarrow> u32" where
  "tx_u32 TxPending = 1"
| "tx_u32 TxInProgress = 2"
| "tx_u32 TxCompleted = 3"
| "tx_u32 TxFailed = 4"

primrec tx_as_str :: "tx_state \<Rightarrow> string" where
  "tx_as_str TxPending = ''pending''"
| "tx_as_str TxInProgress = ''in_progress''"
| "tx_as_str TxCompleted = ''completed''"
| "tx_as_str TxFailed = ''failed''"

definition tx_from_str :: "string \<Rightarrow> tx_state option" where
  "tx_from_str s =
     (if s = ''pending'' then Some TxPending
      else if s = ''in_progress'' then Some TxInProgress
      else if s = ''completed'' then Some TxCompleted
      else if s = ''failed'' then Some TxFailed
      else None)"

definition is_valid_transition :: "tx_state \<Rightarrow> tx_state \<Rightarrow> bool" where
  "is_valid_transition from_s to_s =
     (case (from_s, to_s) of
        (TxPending, TxInProgress) \<Rightarrow> True
      | (TxPending, TxFailed) \<Rightarrow> True
      | (TxInProgress, TxCompleted) \<Rightarrow> True
      | (TxInProgress, TxFailed) \<Rightarrow> True
      | _ \<Rightarrow> False)"

definition tx_is_terminal :: "tx_state \<Rightarrow> bool" where
  "tx_is_terminal s = (case s of TxCompleted \<Rightarrow> True | TxFailed \<Rightarrow> True | _ \<Rightarrow> False)"

definition illegal_transition_message :: "tx_state \<Rightarrow> tx_state \<Rightarrow> string" where
  "illegal_transition_message from_s to_s =
     ''[E24] Illegal transaction state transition: '' @ tx_as_str from_s @ '' -> '' @ tx_as_str to_s"

primrec tx_rank :: "tx_state \<Rightarrow> nat" where
  "tx_rank TxPending = 0"
| "tx_rank TxInProgress = 1"
| "tx_rank TxCompleted = 2"
| "tx_rank TxFailed = 2"

lemma is_valid_transition_iff:
  "is_valid_transition a b \<longleftrightarrow> tx_rank a < tx_rank b \<and> \<not> (a = TxPending \<and> b = TxCompleted)"
  by (cases a; cases b) (simp_all add: is_valid_transition_def)

lemma tx_is_terminal_iff: "tx_is_terminal s \<longleftrightarrow> s = TxCompleted \<or> s = TxFailed"
  by (cases s) (simp_all add: tx_is_terminal_def)

lemma terminal_no_transition: "tx_is_terminal a \<Longrightarrow> \<not> is_valid_transition a b"
  by (cases a; cases b) (simp_all add: tx_is_terminal_iff is_valid_transition_def)

interpretation tx: lifecycle is_valid_transition tx_rank 2
proof
  show "tx_rank s \<le> 2" for s by (cases s) simp_all
qed (simp add: is_valid_transition_iff)

lemma tx_from_str_as_str [simp]: "tx_from_str (tx_as_str s) = Some s"
  by (cases s) (simp_all add: tx_from_str_def)

section \<open>Records\<close>

text \<open>\<open>OptRecovery\<close> is the option type of the source's ABI.\<close>

record recovery_metadata =
  rm_failure_reason :: string
  rm_last_updated_ledger :: u32
  rm_failed_from_state :: tx_state
  rm_retry_count :: u32

record recovery_retention_policy =
  rp_max_age_seconds :: u64
  rp_max_retry_count :: u32

record archived_recovery_metadata =
  ar_transaction_id :: u64
  ar_failure_reason :: string
  ar_failed_from_state :: tx_state
  ar_retry_count :: u32
  ar_archived_at_ledger :: u32

record transaction_state_record =
  tx_id :: u64
  tx_state_of :: tx_state
  tx_initiator :: address
  tx_timestamp :: u64
  tx_last_updated :: u64
  tx_last_updated_ledger :: u32
  tx_error_message :: "string option"
  tx_history :: "(tx_state \<times> u64) list"
  tx_recovery :: "recovery_metadata option"
  tx_routing_reason :: "string option"

definition default_policy :: recovery_retention_policy where
  "default_policy = \<lparr>rp_max_age_seconds = 30 * 24 * 3600, rp_max_retry_count = 5\<rparr>"

definition validate_policy :: "recovery_retention_policy \<Rightarrow> string + unit" where
  "validate_policy p =
     (if rp_max_age_seconds p = 0 then Inl ''max_age_seconds must be > 0''
      else if rp_max_retry_count p = 0 then Inl ''max_retry_count must be > 0''
      else Inr ())"

definition is_eligible :: "recovery_retention_policy \<Rightarrow> recovery_metadata \<Rightarrow> u64 \<Rightarrow> u64 \<Rightarrow> bool" where
  "is_eligible p meta record_last_updated now \<longleftrightarrow>
     rp_max_age_seconds p \<le> sat_sub now record_last_updated \<or>
     rp_max_retry_count p \<le> rm_retry_count meta"

section \<open>Changes of one record\<close>

definition new_tx_record :: "env \<Rightarrow> u64 \<Rightarrow> address \<Rightarrow> string option \<Rightarrow> transaction_state_record" where
  "new_tx_record e i initiator routing_reason =
     \<lparr>tx_id = i, tx_state_of = TxPending, tx_initiator = initiator, tx_timestamp = timestamp e,
      tx_last_updated = timestamp e, tx_last_updated_ledger = ledger_seq e,
      tx_error_message = None, tx_history = [(TxPending, timestamp e)], tx_recovery = None,
      tx_routing_reason = routing_reason\<rparr>"

text \<open>The body of \<open>update_state\<close> (in the contract, \<open>advance_transaction_state_internal\<close>) after the check.\<close>

definition advance_record ::
    "env \<Rightarrow> tx_state \<Rightarrow> string option \<Rightarrow> transaction_state_record \<Rightarrow> transaction_state_record" where
  "advance_record e new_state error_message r =
     (let r1 = r\<lparr>tx_state_of := new_state, tx_last_updated := timestamp e,
                 tx_last_updated_ledger := ledger_seq e, tx_error_message := error_message,
                 tx_history := tx_history r @ [(new_state, timestamp e)]\<rparr>
      in if new_state = TxFailed
         then r1\<lparr>tx_recovery := Some \<lparr>rm_failure_reason = get_or ''unspecified failure'' error_message,
                   rm_last_updated_ledger = ledger_seq e, rm_failed_from_state = tx_state_of r,
                   rm_retry_count = 0\<rparr>\<rparr>
         else r1)"

lemma advance_record_id [simp]: "tx_id (advance_record e st msg r) = tx_id r"
  by (simp add: advance_record_def Let_def)

text \<open>\<open>record_recovery_attempt\<close> and \<open>resume_partial_recovery\<close> on one record: the inner sum is the
  \<open>Result\<close>, the outer one the overflow of \<open>retry_count\<close>.\<close>

definition attempt_record :: "transaction_state_record \<Rightarrow> trap + (string + transaction_state_record)" where
  "attempt_record r =
     (if tx_state_of r \<noteq> TxFailed
      then Inr (Inl ''record_recovery_attempt requires a Failed transaction'')
      else case tx_recovery r of
        None \<Rightarrow> Inr (Inl ''Transaction has no recovery metadata'')
      | Some meta \<Rightarrow>
          bind_ok (plus_trap (rm_retry_count meta) 1) (\<lambda>n.
            Inr (Inr (r\<lparr>tx_recovery := Some (meta\<lparr>rm_retry_count := n\<rparr>)\<rparr>))))"

definition resume_record :: "env \<Rightarrow> transaction_state_record \<Rightarrow> trap + (string + transaction_state_record)" where
  "resume_record e r =
     (if tx_state_of r \<noteq> TxFailed
      then Inr (Inl ''resume_partial_recovery requires a Failed transaction'')
      else case tx_recovery r of
        None \<Rightarrow> Inr (Inl ''Transaction has no recovery metadata; cannot resume'')
      | Some meta \<Rightarrow>
          let resume_state = rm_failed_from_state meta in
          if tx_is_terminal resume_state then Inr (Inl ''failed_from_state is terminal; cannot resume'')
          else bind_ok (plus_trap (rm_retry_count meta) 1) (\<lambda>new_retry_count.
            Inr (Inr (r\<lparr>tx_state_of := resume_state, tx_last_updated := timestamp e,
                        tx_last_updated_ledger := ledger_seq e, tx_error_message := None,
                        tx_history := tx_history r @ [(resume_state, timestamp e)],
                        tx_recovery := Some (meta\<lparr>rm_retry_count := new_retry_count\<rparr>)\<rparr>))))"

text \<open>The recovery metadata of a record if the policy lets it go.\<close>

definition eligible_meta ::
    "env \<Rightarrow> recovery_retention_policy \<Rightarrow> transaction_state_record \<Rightarrow> recovery_metadata option" where
  "eligible_meta e p r =
     (case tx_recovery r of
        None \<Rightarrow> None
      | Some meta \<Rightarrow> if is_eligible p meta (tx_last_updated r) (timestamp e) then Some meta else None)"

definition archived_entry :: "env \<Rightarrow> u64 \<Rightarrow> recovery_metadata \<Rightarrow> archived_recovery_metadata" where
  "archived_entry e i meta =
     \<lparr>ar_transaction_id = i, ar_failure_reason = rm_failure_reason meta,
      ar_failed_from_state = rm_failed_from_state meta, ar_retry_count = rm_retry_count meta,
      ar_archived_at_ledger = ledger_seq e\<rparr>"

section \<open>Storage budget\<close>

record storage_budget_monitor =
  bm_entry_count :: u64
  bm_approx_bytes :: u64

datatype budget_status = BudgetOk | BudgetWarning | BudgetCritical

record budget_alert =
  ba_status :: budget_status
  ba_entry_count :: u64
  ba_approx_bytes :: u64
  ba_threshold_bytes :: u64

definition record_entry :: "u64 \<Rightarrow> storage_budget_monitor \<Rightarrow> storage_budget_monitor" where
  "record_entry size_bytes m =
     \<lparr>bm_entry_count = sat_add (bm_entry_count m) 1, bm_approx_bytes = sat_add (bm_approx_bytes m) size_bytes\<rparr>"

definition remove_entry :: "u64 \<Rightarrow> storage_budget_monitor \<Rightarrow> storage_budget_monitor" where
  "remove_entry size_bytes m =
     \<lparr>bm_entry_count = sat_sub (bm_entry_count m) 1, bm_approx_bytes = sat_sub (bm_approx_bytes m) size_bytes\<rparr>"

definition usage_percent :: "u64 \<Rightarrow> storage_budget_monitor \<Rightarrow> u64" where
  "usage_percent max_bytes m =
     (if max_bytes = 0 then 100
      else min (of_nat (unat (sat_mul (bm_approx_bytes m) 100) div unat max_bytes)) 100)"

definition get_status :: "u64 \<Rightarrow> u64 \<Rightarrow> storage_budget_monitor \<Rightarrow> budget_status" where
  "get_status warning_bytes critical_bytes m =
     (if critical_bytes \<le> bm_approx_bytes m then BudgetCritical
      else if warning_bytes \<le> bm_approx_bytes m then BudgetWarning
      else BudgetOk)"

definition check_alert :: "u64 \<Rightarrow> u64 \<Rightarrow> storage_budget_monitor \<Rightarrow> budget_alert option" where
  "check_alert threshold_entries threshold_bytes m =
     (if threshold_entries = 0 \<or> threshold_bytes = 0 then None
      else if threshold_entries \<le> bm_entry_count m \<or> threshold_bytes \<le> bm_approx_bytes m
      then Some \<lparr>ba_status = (if sat_mul threshold_bytes 2 \<le> bm_approx_bytes m
                             then BudgetCritical else BudgetWarning),
                 ba_entry_count = bm_entry_count m, ba_approx_bytes = bm_approx_bytes m,
                 ba_threshold_bytes = threshold_bytes\<rparr>
      else None)"

definition is_near_limit :: "u64 \<Rightarrow> u64 \<Rightarrow> storage_budget_monitor \<Rightarrow> bool" where
  "is_near_limit threshold_pct max_bytes m \<longleftrightarrow> threshold_pct \<le> usage_percent max_bytes m"

section \<open>Eviction of old terminal records\<close>

text \<open>
  \<open>sort_unstable_by_key\<close> leaves the order of equal timestamps open, so the sort is a parameter;
  \<open>unstable_sort\<close> is what its documentation promises.
\<close>

type_synonym stamp_sort = "(u64 \<times> u64) list \<Rightarrow> (u64 \<times> u64) list"

definition unstable_sort :: "stamp_sort \<Rightarrow> bool" where
  "unstable_sort srt \<longleftrightarrow> (\<forall>xs. (\<forall>x. count_list (srt xs) x = count_list xs x) \<and> sorted (map fst (srt xs)))"

text \<open>The terminal records among some identifiers, with their creation times.\<close>

definition terminal_stamps :: "(u64 \<Rightarrow> transaction_state_record option) \<Rightarrow> u64 list \<Rightarrow> (u64 \<times> u64) list" where
  "terminal_stamps recs ids =
     List.map_filter (\<lambda>i. case recs i of
         None \<Rightarrow> None
       | Some r \<Rightarrow> if tx_is_terminal (tx_state_of r) then Some (tx_timestamp r, i) else None) ids"

definition evicted_ids :: "stamp_sort \<Rightarrow> u32 \<Rightarrow> (u64 \<times> u64) list \<Rightarrow> u64 list" where
  "evicted_ids srt limit stamps = map snd (take (unat limit) (srt stamps))"

lemma set_terminal_stamps:
  "set (terminal_stamps recs ids) =
     {(tx_timestamp r, i) | i r. i \<in> set ids \<and> recs i = Some r \<and> tx_is_terminal (tx_state_of r)}"
  by (induction ids) (auto simp: terminal_stamps_def List.map_filter_simps split: option.splits)

lemma unstable_sort_set:
  assumes "unstable_sort srt"
  shows "set (srt xs) = set xs"
proof -
  have "count_list (srt xs) x = count_list xs x" for x
    using assms unfolding unstable_sort_def by blast
  then show ?thesis by (metis count_list_0_iff set_eqI)
qed

text \<open>The stable sort is one of them.\<close>

lemma stable_is_unstable: "unstable_sort (sort_key fst)"
proof -
  have "count_list (insort_key fst x ys) z = count_list (x # ys) z" for x z :: "u64 \<times> u64" and ys
    by (induction ys) auto
  then have "count_list (sort_key fst xs) z = count_list xs z" for xs and z :: "u64 \<times> u64"
    by (induction xs) simp_all
  then show ?thesis by (simp add: unstable_sort_def)
qed

lemma evicted_from_stamps:
  assumes "unstable_sort srt"
  shows "set (evicted_ids srt k stamps) \<subseteq> snd ` set stamps"
proof -
  have "set (srt stamps) = set stamps" by (rule unstable_sort_set [OF assms])
  then show ?thesis
    unfolding evicted_ids_def using set_take_subset [of "unat k" "srt stamps"] by fastforce
qed

text \<open>The oldest records go: none that stays is older than one that goes.\<close>

lemma evicted_are_oldest:
  assumes "unstable_sort srt" and "i \<in> set (evicted_ids srt k stamps)" and "(t, j) \<in> set stamps"
    and "j \<notin> set (evicted_ids srt k stamps)"
  shows "\<exists>u. (u, i) \<in> set stamps \<and> u \<le> t"
proof -
  let ?xs = "srt stamps"
  have set: "set ?xs = set stamps" by (rule unstable_sort_set [OF assms(1)])
  have srtd: "sorted (map fst ?xs)" using assms(1) by (simp add: unstable_sort_def)
  obtain u where u: "(u, i) \<in> set (take (unat k) ?xs)" using assms(2) by (auto simp: evicted_ids_def)
  have "(t, j) \<in> set (drop (unat k) ?xs)"
  proof -
    have "(t, j) \<in> set (take (unat k) ?xs @ drop (unat k) ?xs)" using assms(3) set by simp
    moreover have "(t, j) \<notin> set (take (unat k) ?xs)" using assms(4) by (force simp: evicted_ids_def)
    ultimately show ?thesis by (simp only: set_append Un_iff) blast
  qed
  moreover have "sorted (map fst (take (unat k) ?xs) @ map fst (drop (unat k) ?xs))"
    using srtd by (metis append_take_drop_id map_append)
  ultimately have "u \<le> t" using u by (fastforce simp: sorted_append)
  moreover have "(u, i) \<in> set stamps" using u set in_set_takeD by fastforce
  ultimately show ?thesis by blast
qed

section \<open>Summaries\<close>

text \<open>\<open>TransactionStatusSummary\<close> in the contract, \<open>TransactionSummary\<close> in the tracker.\<close>

record transaction_status_summary =
  sm_pending_count :: u64
  sm_in_progress_count :: u64
  sm_completed_count :: u64
  sm_failed_count :: u64
  sm_total_count :: u64

definition count_state :: "tx_state \<Rightarrow> transaction_status_summary \<Rightarrow> trap + transaction_status_summary" where
  "count_state st m =
     bind_ok
       (case st of
          TxPending \<Rightarrow> bind_ok (plus_trap (sm_pending_count m) 1) (\<lambda>n. Inr (m\<lparr>sm_pending_count := n\<rparr>))
        | TxInProgress \<Rightarrow> bind_ok (plus_trap (sm_in_progress_count m) 1) (\<lambda>n. Inr (m\<lparr>sm_in_progress_count := n\<rparr>))
        | TxCompleted \<Rightarrow> bind_ok (plus_trap (sm_completed_count m) 1) (\<lambda>n. Inr (m\<lparr>sm_completed_count := n\<rparr>))
        | TxFailed \<Rightarrow> bind_ok (plus_trap (sm_failed_count m) 1) (\<lambda>n. Inr (m\<lparr>sm_failed_count := n\<rparr>)))
       (\<lambda>m1. bind_ok (plus_trap (sm_total_count m1) 1) (\<lambda>n. Inr (m1\<lparr>sm_total_count := n\<rparr>)))"

definition empty_summary :: transaction_status_summary where
  "empty_summary = \<lparr>sm_pending_count = 0, sm_in_progress_count = 0, sm_completed_count = 0,
     sm_failed_count = 0, sm_total_count = 0\<rparr>"

definition summary_of :: "tx_state list \<Rightarrow> transaction_status_summary" where
  "summary_of ss = \<lparr>sm_pending_count = of_nat (count_list ss TxPending),
     sm_in_progress_count = of_nat (count_list ss TxInProgress),
     sm_completed_count = of_nat (count_list ss TxCompleted),
     sm_failed_count = of_nat (count_list ss TxFailed), sm_total_count = of_nat (length ss)\<rparr>"

lemma count_list_snoc: "count_list (xs @ [x]) y = count_list xs y + (if x = y then 1 else 0)"
  by (induction xs) auto

lemma unat_of_count: "n < 2 ^ 64 \<Longrightarrow> unat (of_nat n :: u64) = n"
  by (simp add: unsigned_of_nat take_bit_nat_eq_self)

lemma count_state_summary:
  assumes "length ss + 1 < 2 ^ 64"
  shows "count_state st (summary_of ss) = Inr (summary_of (ss @ [st]))"
proof -
  have "count_list ss x \<le> length ss" for x by (rule count_le_length)
  then have c: "count_list ss x + 1 < 2 ^ 64" for x using assms by (meson add_le_mono1 le_less_trans)
  then have "plus_trap (of_nat (count_list ss x) :: u64) 1 = Inr (of_nat (count_list ss x) + 1)" for x
    by (simp add: plus_trap_Inr unat_of_count Suc_lessD)
  moreover have "plus_trap (of_nat (length ss) :: u64) 1 = Inr (of_nat (length ss) + 1)"
    using assms by (simp add: plus_trap_Inr unat_of_count)
  ultimately show ?thesis
    by (cases st) (simp_all add: count_state_def summary_of_def count_list_snoc add.commute)
qed

section \<open>Well-formed histories\<close>

text \<open>
  The edges a history may take: a valid transition, or the resumption of a failed transaction.
\<close>

definition history_edge :: "tx_state \<Rightarrow> tx_state \<Rightarrow> bool" where
  "history_edge a b \<longleftrightarrow> is_valid_transition a b \<or> a = TxFailed \<and> \<not> tx_is_terminal b"

fun is_trail :: "(tx_state \<Rightarrow> tx_state \<Rightarrow> bool) \<Rightarrow> tx_state list \<Rightarrow> bool" where
  "is_trail edge [] = False"
| "is_trail edge [a] = True"
| "is_trail edge (a # b # ss) = (edge a b \<and> is_trail edge (b # ss))"

lemma is_trail_append: "is_trail edge (ss @ [a, b]) \<longleftrightarrow> is_trail edge (ss @ [a]) \<and> edge a b"
proof (induction ss)
  case (Cons x ss)
  then show ?case by (cases ss) auto
qed simp

lemma is_trail_snoc: "is_trail edge ss \<Longrightarrow> edge (last ss) b \<Longrightarrow> is_trail edge (ss @ [b])"
  by (cases ss rule: rev_cases) (simp_all add: is_trail_append)

text \<open>
  A well-formed record, relative to the edges its history may take (an import adds one, below).
\<close>

lemma trail_path: "is_trail edge (a # ss) \<Longrightarrow> path edge (length ss) a (last (a # ss))"
proof (induction ss arbitrary: a)
  case (Cons b ss)
  then show ?case by (auto intro: path_step)
qed (simp add: path_refl)

text \<open>Along valid transitions a history has at most three entries.\<close>

lemma valid_trail_bounded: "is_trail is_valid_transition ss \<Longrightarrow> length ss \<le> 3"
proof (cases ss)
  case (Cons a as)
  assume "is_trail is_valid_transition ss"
  then have "path is_valid_transition (length as) a (last (a # as))"
    using trail_path unfolding Cons by blast
  from tx.path_bounded [OF this] show ?thesis by (simp add: Cons)
qed simp

lemma valid_le_history: "is_valid_transition \<le> history_edge"
  by (auto simp: history_edge_def)

definition record_wf :: "(tx_state \<Rightarrow> tx_state \<Rightarrow> bool) \<Rightarrow> transaction_state_record \<Rightarrow> bool" where
  "record_wf edge r \<longleftrightarrow>
     is_trail edge (map fst (tx_history r)) \<and>
     hd (map fst (tx_history r)) = TxPending \<and> last (map fst (tx_history r)) = tx_state_of r \<and>
     (case tx_recovery r of None \<Rightarrow> True | Some m \<Rightarrow> \<not> tx_is_terminal (rm_failed_from_state m))"

lemma record_wfD: "record_wf edge r \<Longrightarrow> tx_history r \<noteq> []"
  by (auto simp: record_wf_def)

lemma new_tx_record_wf: "record_wf edge (new_tx_record e i a rr)"
  by (simp add: record_wf_def new_tx_record_def)

lemma record_wf_extend:
  assumes "record_wf edge r" and "edge (tx_state_of r) s"
    and "tx_history r' = tx_history r @ [(s, t)]" and "tx_state_of r' = s"
    and "\<And>m. tx_recovery r' = Some m \<Longrightarrow> \<not> tx_is_terminal (rm_failed_from_state m)"
  shows "record_wf edge r'"
proof -
  have ne: "tx_history r \<noteq> []" by (rule record_wfD [OF assms(1)])
  then have "hd (map fst (tx_history r) @ [s]) = hd (map fst (tx_history r))" by (cases "tx_history r") auto
  moreover have "is_trail edge (map fst (tx_history r) @ [s])"
    using assms(1,2) by (intro is_trail_snoc) (auto simp: record_wf_def)
  ultimately show ?thesis
    using assms by (auto simp: record_wf_def split: option.split)
qed

lemma advance_record_wf:
  assumes "record_wf edge r" and "is_valid_transition (tx_state_of r) s"
    and "is_valid_transition \<le> edge"
  shows "record_wf edge (advance_record e s msg r)"
proof (rule record_wf_extend [OF assms(1), where s = s and t = "timestamp e"])
  show "edge (tx_state_of r) s" using assms(2,3) by auto
  fix m assume "tx_recovery (advance_record e s msg r) = Some m"
  with assms terminal_no_transition show "\<not> tx_is_terminal (rm_failed_from_state m)"
    by (auto simp: advance_record_def Let_def record_wf_def split: if_splits option.splits)
qed (simp_all add: advance_record_def Let_def)

lemma attempt_record_wf: "attempt_record r = Inr (Inr r') \<Longrightarrow> record_wf edge r \<Longrightarrow> record_wf edge r'"
  by (auto simp: attempt_record_def ok_simps record_wf_def split: if_splits option.splits)

lemma resume_record_wf:
  assumes "resume_record e r = Inr (Inr r')" and "record_wf edge r" and "history_edge \<le> edge"
  shows "record_wf edge r'"
proof -
  from assms(1) obtain meta n where failed: "tx_state_of r = TxFailed"
    and nt: "\<not> tx_is_terminal (rm_failed_from_state meta)"
    and r': "r' = r\<lparr>tx_state_of := rm_failed_from_state meta, tx_last_updated := timestamp e,
        tx_last_updated_ledger := ledger_seq e, tx_error_message := None,
        tx_history := tx_history r @ [(rm_failed_from_state meta, timestamp e)],
        tx_recovery := Some (meta\<lparr>rm_retry_count := n\<rparr>)\<rparr>"
    by (auto simp: resume_record_def Let_def ok_simps split: if_splits option.splits)
  have "history_edge (tx_state_of r) (rm_failed_from_state meta)" using failed nt by (simp add: history_edge_def)
  then have edge: "edge (tx_state_of r) (rm_failed_from_state meta)" using assms(3) by auto
  show ?thesis
    by (rule record_wf_extend [OF assms(2) edge, where t = "timestamp e"]) (use nt in \<open>auto simp: r'\<close>)
qed

lemma no_recovery_wf: "record_wf edge r \<Longrightarrow> record_wf edge (r\<lparr>tx_recovery := None\<rparr>)"
  by (simp add: record_wf_def)

end
