(* ===== verification/Cache_Governance.thy ===== *)
theory Cache_Governance
  imports Errors
begin

text \<open>
  \<^verbatim>\<open>src/cache_governance.rs\<close>: the TTL policies of the caches, and the proposals by which attestors
  invalidate the cache of an anchor once a quorum endorsed it.  The lifetime extensions of the
  persistent entries have no counterpart, and neither have the logging wrappers.
\<close>

section \<open>Policies\<close>

datatype cache_entry_type = CacheMetadata | CacheCapabilities | CacheOther

record cache_policy =
  cp_min_ttl :: u64
  cp_max_ttl :: u64
  cp_refresh_pct :: u32
  cp_allow_forced :: bool

definition default_metadata :: cache_policy where
  "default_metadata = \<lparr>cp_min_ttl = 60, cp_max_ttl = 86400, cp_refresh_pct = 80, cp_allow_forced = True\<rparr>"

definition default_capabilities :: cache_policy where
  "default_capabilities = \<lparr>cp_min_ttl = 300, cp_max_ttl = 604800, cp_refresh_pct = 75, cp_allow_forced = True\<rparr>"

definition default_other :: cache_policy where
  "default_other = \<lparr>cp_min_ttl = 30, cp_max_ttl = 43200, cp_refresh_pct = 70, cp_allow_forced = False\<rparr>"

definition validate_cache_policy :: "cache_policy \<Rightarrow> anchor_kit_error + unit" where
  "validate_cache_policy p =
     (if cp_min_ttl p = 0 then Inl (validation_error ''min_ttl_seconds must be greater than zero'')
      else if cp_max_ttl p \<le> cp_min_ttl p
      then Inl (validation_error ''min_ttl_seconds must be less than max_ttl_seconds'')
      else if cp_refresh_pct p = 0 \<or> 100 \<le> cp_refresh_pct p
      then Inl (validation_error ''refresh_threshold_pct must be in range [1, 99]'')
      else Inr ())"

definition clamp_ttl :: "cache_policy \<Rightarrow> u64 \<Rightarrow> u64" where
  "clamp_ttl p requested =
     (if requested = 0
      then sat_add (cp_min_ttl p) (sat_sub (cp_max_ttl p) (cp_min_ttl p) div 2)
      else min (max requested (cp_min_ttl p)) (cp_max_ttl p))"

definition policy_needs_refresh :: "cache_policy \<Rightarrow> u64 \<Rightarrow> u64 \<Rightarrow> bool" where
  "policy_needs_refresh p age ttl \<longleftrightarrow> sat_mul ttl (ucast (cp_refresh_pct p)) div 100 \<le> age"

definition policy_is_expired :: "cache_policy \<Rightarrow> u64 \<Rightarrow> u64 \<Rightarrow> bool" where
  "policy_is_expired p age ttl \<longleftrightarrow> ttl \<le> age"

record cache_policy_set =
  ps_metadata :: cache_policy
  ps_capabilities :: cache_policy
  ps_other :: cache_policy

definition default_set :: cache_policy_set where
  "default_set = \<lparr>ps_metadata = default_metadata, ps_capabilities = default_capabilities, ps_other = default_other\<rparr>"

primrec for_type :: "cache_policy_set \<Rightarrow> cache_entry_type \<Rightarrow> cache_policy" where
  "for_type ps CacheMetadata = ps_metadata ps"
| "for_type ps CacheCapabilities = ps_capabilities ps"
| "for_type ps CacheOther = ps_other ps"

definition validate_policy_set :: "cache_policy_set \<Rightarrow> anchor_kit_error + unit" where
  "validate_policy_set ps =
     bind_ok (validate_cache_policy (ps_metadata ps)) (\<lambda>_.
     bind_ok (validate_cache_policy (ps_capabilities ps)) (\<lambda>_.
       validate_cache_policy (ps_other ps)))"

section \<open>Proposals\<close>

record cache_invalidation_proposal =
  ip_proposal_id :: u64
  ip_anchor :: address
  ip_proposer :: address
  ip_endorsements :: "address list"
  ip_created_at_ledger :: u32
  ip_expiry_ledgers :: u32
  ip_executed :: bool

record cache_governance_config =
  gc_quorum :: u32
  gc_expiry :: u32

definition default_governance :: cache_governance_config where
  "default_governance = \<lparr>gc_quorum = 3, gc_expiry = 17280\<rparr>"

text \<open>The entries \<open>CGOV_CFG\<close>, \<open>CGOV_POL\<close>, \<open>CGOV_CNT\<close> and \<open>CGOV_PROP\<close>.\<close>

record governance_store =
  gov_config :: "cache_governance_config option"
  gov_policies :: "cache_policy_set option"
  gov_count :: "u64 option"
  gov_proposals :: "u64 \<Rightarrow> cache_invalidation_proposal option"

definition empty_governance :: governance_store where
  "empty_governance = \<lparr>gov_config = None, gov_policies = None, gov_count = None, gov_proposals = Map.empty\<rparr>"

definition get_governance :: "governance_store \<Rightarrow> cache_governance_config" where
  "get_governance g = get_or default_governance (gov_config g)"

definition set_governance :: "cache_governance_config \<Rightarrow> governance_store \<Rightarrow> anchor_kit_error + governance_store" where
  "set_governance cfg g =
     (if gc_quorum cfg = 0 then Inl (validation_error ''quorum_threshold must be greater than zero'')
      else if gc_expiry cfg = 0 then Inl (validation_error ''proposal_expiry_ledgers must be greater than zero'')
      else Inr (g\<lparr>gov_config := Some cfg\<rparr>))"

definition get_policy_set :: "governance_store \<Rightarrow> cache_policy_set" where
  "get_policy_set g = get_or default_set (gov_policies g)"

definition set_policy_set :: "cache_policy_set \<Rightarrow> governance_store \<Rightarrow> anchor_kit_error + governance_store" where
  "set_policy_set ps g = bind_ok (validate_policy_set ps) (\<lambda>_. Inr (g\<lparr>gov_policies := Some ps\<rparr>))"

definition get_policy :: "governance_store \<Rightarrow> cache_entry_type \<Rightarrow> cache_policy" where
  "get_policy g ty = for_type (get_policy_set g) ty"

definition enforce_write_policy :: "governance_store \<Rightarrow> cache_entry_type \<Rightarrow> u64 \<Rightarrow> u64 \<Rightarrow> u64 \<times> bool" where
  "enforce_write_policy g ty requested_ttl current_age =
     (let policy = get_policy g ty; effective_ttl = clamp_ttl policy requested_ttl
      in (effective_ttl, policy_needs_refresh policy current_age effective_ttl))"

definition enforce_read_policy :: "governance_store \<Rightarrow> cache_entry_type \<Rightarrow> u64 \<Rightarrow> u64 \<Rightarrow> trap + (bool \<times> bool)" where
  "enforce_read_policy g ty age ttl =
     (if ttl = 0 then Inl (Panic ValidationError)
      else let policy = get_policy g ty
           in Inr (policy_needs_refresh policy age ttl, policy_is_expired policy age ttl))"

definition enforce_invalidation_policy :: "governance_store \<Rightarrow> cache_entry_type \<Rightarrow> anchor_kit_error + unit" where
  "enforce_invalidation_policy g ty =
     (if \<not> cp_allow_forced (get_policy g ty)
      then Inl (validation_error ''forced invalidation not permitted by policy'') else Inr ())"

definition proposal_expired :: "env \<Rightarrow> cache_invalidation_proposal \<Rightarrow> bool" where
  "proposal_expired e p \<longleftrightarrow> sat_add (ip_created_at_ledger p) (ip_expiry_ledgers p) \<le> ledger_seq e"

definition propose :: "env \<Rightarrow> address \<Rightarrow> address \<Rightarrow> governance_store \<Rightarrow> anchor_kit_error + (u64 \<times> governance_store)" where
  "propose e proposer anchor g =
     (let proposal_id = get_or 0 (gov_count g) in
      bind_ok (of_option (from_code CacheCapacityExceeded) (checked_add proposal_id 1)) (\<lambda>next_id.
        Inr (proposal_id,
          g\<lparr>gov_proposals := (gov_proposals g)(proposal_id \<mapsto>
               \<lparr>ip_proposal_id = proposal_id, ip_anchor = anchor, ip_proposer = proposer,
                ip_endorsements = [proposer], ip_created_at_ledger = ledger_seq e,
                ip_expiry_ledgers = gc_expiry (get_governance g), ip_executed = False\<rparr>),
            gov_count := Some next_id\<rparr>)))"

definition open_proposal :: "env \<Rightarrow> u64 \<Rightarrow> governance_store \<Rightarrow> anchor_kit_error + cache_invalidation_proposal" where
  "open_proposal e proposal_id g =
     bind_ok (of_option (from_code CacheNotFound) (gov_proposals g proposal_id)) (\<lambda>p.
       if proposal_expired e p then Inl (error_new StaleQuote ''proposal expired'')
       else if ip_executed p then Inl (validation_error ''proposal already executed'')
       else Inr p)"

definition endorse :: "env \<Rightarrow> address \<Rightarrow> u64 \<Rightarrow> governance_store \<Rightarrow> anchor_kit_error + governance_store" where
  "endorse e endorser proposal_id g =
     bind_ok (open_proposal e proposal_id g) (\<lambda>p.
       if endorser \<in> set (ip_endorsements p) then Inr g
       else if unat (gc_quorum (get_governance g)) \<le> length (ip_endorsements p)
       then Inl (validation_error ''maximum endorsement count reached'')
       else Inr (g\<lparr>gov_proposals := (gov_proposals g)(proposal_id \<mapsto>
              p\<lparr>ip_endorsements := ip_endorsements p @ [endorser]\<rparr>)\<rparr>))"

definition execute_proposal :: "env \<Rightarrow> u64 \<Rightarrow> governance_store \<Rightarrow> anchor_kit_error + (address \<times> governance_store)" where
  "execute_proposal e proposal_id g =
     bind_ok (open_proposal e proposal_id g) (\<lambda>p.
       if length (ip_endorsements p) < unat (gc_quorum (get_governance g))
       then Inl (validation_error ''quorum not reached'')
       else Inr (ip_anchor p,
              g\<lparr>gov_proposals := (gov_proposals g)(proposal_id \<mapsto> p\<lparr>ip_executed := True\<rparr>)\<rparr>))"

definition get_proposal :: "governance_store \<Rightarrow> u64 \<Rightarrow> cache_invalidation_proposal option" where
  "get_proposal g i = gov_proposals g i"

definition proposal_count :: "governance_store \<Rightarrow> u64" where
  "proposal_count g = get_or 0 (gov_count g)"

section \<open>Invariant\<close>

text \<open>
  Stored policies and configurations are valid; proposals are numbered below the counter, list
  their proposer first, and no endorser twice.
\<close>

definition policies_ok :: "governance_store \<Rightarrow> bool" where
  "policies_ok g \<longleftrightarrow> validate_policy_set (get_policy_set g) = Inr ()"

definition governance_inv :: "governance_store \<Rightarrow> bool" where
  "governance_inv g \<longleftrightarrow> policies_ok g \<and>
     gc_quorum (get_governance g) \<noteq> 0 \<and> gc_expiry (get_governance g) \<noteq> 0 \<and>
     (\<forall>i p. gov_proposals g i = Some p \<longrightarrow> ip_proposal_id p = i \<and> i < proposal_count g \<and>
        distinct (ip_endorsements p) \<and> ip_endorsements p \<noteq> [] \<and> hd (ip_endorsements p) = ip_proposer p)"

lemma governance_inv_empty: "governance_inv empty_governance"
  by (simp add: governance_inv_def policies_ok_def empty_governance_def get_policy_set_def default_set_def
      validate_policy_set_def validate_cache_policy_def default_metadata_def default_capabilities_def
      default_other_def get_governance_def default_governance_def)

lemma set_governance_inv: "set_governance cfg g = Inr g' \<Longrightarrow> governance_inv g \<Longrightarrow> governance_inv g'"
  by (auto simp: set_governance_def governance_inv_def policies_ok_def get_policy_set_def
      get_governance_def proposal_count_def split: if_split_asm)

lemma set_policy_set_inv: "set_policy_set ps g = Inr g' \<Longrightarrow> governance_inv g \<Longrightarrow> governance_inv g'"
  by (auto simp: set_policy_set_def governance_inv_def policies_ok_def get_policy_set_def
      get_governance_def proposal_count_def bind_ok_Inr)

lemma propose_ok:
  assumes "propose e a anchor g = Inr (i, g')"
  shows "i = proposal_count g \<and> unat (proposal_count g') = unat i + 1 \<and>
    gov_config g' = gov_config g \<and> gov_policies g' = gov_policies g \<and>
    gov_proposals g' = (gov_proposals g)(i \<mapsto>
       \<lparr>ip_proposal_id = i, ip_anchor = anchor, ip_proposer = a, ip_endorsements = [a],
        ip_created_at_ledger = ledger_seq e, ip_expiry_ledgers = gc_expiry (get_governance g),
        ip_executed = False\<rparr>)"
  using assms
  by (auto simp: propose_def proposal_count_def Let_def bind_ok_Inr of_option_Inr checked_add_Some)

lemma propose_inv:
  assumes "propose e a anchor g = Inr (i, g')" and "governance_inv g"
  shows "governance_inv g'"
proof -
  note ok = propose_ok [OF assms(1)]
  have lt: "j < proposal_count g'" if "j < proposal_count g \<or> j = i" for j
    using ok that by (auto simp: word_less_nat_alt)
  have pol: "policies_ok g' = policies_ok g" and gov: "get_governance g' = get_governance g"
    using ok by (simp_all add: policies_ok_def get_policy_set_def get_governance_def)
  show ?thesis
    using assms(2) lt unfolding governance_inv_def pol gov
    by (auto simp: ok split: if_split_asm)
qed

lemma open_proposal_Inr:
  "open_proposal e i g = Inr p \<longleftrightarrow> gov_proposals g i = Some p \<and> \<not> proposal_expired e p \<and> \<not> ip_executed p"
  by (auto simp: open_proposal_def bind_ok_Inr of_option_Inr)

lemma endorse_ok:
  assumes "endorse e a i g = Inr g'"
  shows "\<exists>p. gov_proposals g i = Some p \<and> \<not> proposal_expired e p \<and> \<not> ip_executed p \<and>
    g' = g\<lparr>gov_proposals := (gov_proposals g)(i \<mapsto> p\<lparr>ip_endorsements := push_new a (ip_endorsements p)\<rparr>)\<rparr>"
proof -
  from assms obtain p where p: "gov_proposals g i = Some p" "\<not> proposal_expired e p" "\<not> ip_executed p"
    and g': "(if a \<in> set (ip_endorsements p) then Inr g
       else if unat (gc_quorum (get_governance g)) \<le> length (ip_endorsements p)
       then Inl (validation_error ''maximum endorsement count reached'')
       else Inr (g\<lparr>gov_proposals := (gov_proposals g)(i \<mapsto>
              p\<lparr>ip_endorsements := ip_endorsements p @ [a]\<rparr>)\<rparr>)) = Inr g'"
    by (auto simp: endorse_def bind_ok_Inr open_proposal_Inr)
  have same: "(gov_proposals g)(i \<mapsto> p) = gov_proposals g" using p(1) by auto
  show ?thesis
    using p g' same by (intro exI [of _ p]) (auto simp: push_new_def split: if_split_asm)
qed

lemma endorse_inv: "endorse e a i g = Inr g' \<Longrightarrow> governance_inv g \<Longrightarrow> governance_inv g'"
  by (drule endorse_ok) (auto simp: governance_inv_def policies_ok_def get_policy_set_def
      get_governance_def proposal_count_def push_new_def split: if_split_asm)

lemma execute_proposal_ok:
  assumes "execute_proposal e i g = Inr (anchor, g')"
  shows "\<exists>p. gov_proposals g i = Some p \<and> \<not> proposal_expired e p \<and> \<not> ip_executed p \<and> ip_anchor p = anchor \<and>
    unat (gc_quorum (get_governance g)) \<le> length (ip_endorsements p) \<and>
    g' = g\<lparr>gov_proposals := (gov_proposals g)(i \<mapsto> p\<lparr>ip_executed := True\<rparr>)\<rparr>"
  using assms by (auto simp: execute_proposal_def bind_ok_Inr open_proposal_Inr split: if_split_asm)

lemma execute_proposal_inv: "execute_proposal e i g = Inr (a, g') \<Longrightarrow> governance_inv g \<Longrightarrow> governance_inv g'"
  by (drule execute_proposal_ok) (auto simp: governance_inv_def policies_ok_def get_policy_set_def
      get_governance_def proposal_count_def split: if_split_asm)

text \<open>A TTL written under a valid policy lies within its bounds.\<close>

lemma clamp_ttl_bounds:
  assumes "validate_cache_policy p = Inr ()"
  shows "cp_min_ttl p \<le> clamp_ttl p r \<and> clamp_ttl p r \<le> cp_max_ttl p"
proof (cases "r = 0")
  case True
  from assms have lt: "cp_min_ttl p < cp_max_ttl p"
    by (auto simp: validate_cache_policy_def not_le split: if_split_asm)
  have "unat (clamp_ttl p r) = unat (cp_min_ttl p) + (unat (cp_max_ttl p) - unat (cp_min_ttl p)) div 2"
  proof -
    have "unat (cp_min_ttl p) + (unat (cp_max_ttl p) - unat (cp_min_ttl p)) div 2 \<le> unat (cp_max_ttl p)"
      using lt by (simp add: word_less_nat_alt)
    moreover have "unat (cp_max_ttl p) \<le> 2 ^ 64 - 1" using unat_lt_pow [of "cp_max_ttl p"] by simp
    ultimately show ?thesis
      using True by (simp add: clamp_ttl_def unat_simps unat_div)
  qed
  with lt show ?thesis by (simp add: word_le_nat_alt word_less_nat_alt)
next
  case False
  with assms show ?thesis
    by (auto simp: clamp_ttl_def validate_cache_policy_def not_le min_def max_def split: if_split_asm)
qed

end
