(* ===== verification/Ascii_Text.thy ===== *)
theory Ascii_Text
  imports Prelude
begin

text \<open>
  Text as the crate's pure modules handle it: a Rust \<open>str\<close> is its UTF-8 bytes.  Character classes
  of \<open>char::is_ascii_\<close>, trimming with the Unicode white space of \<open>str::trim\<close>, splitting at a
  character, and decimal numbers.
\<close>

section \<open>Character classes\<close>

abbreviation code_of :: "char \<Rightarrow> nat" where "code_of \<equiv> of_char"

definition ascii_char :: "char \<Rightarrow> bool" where
  "ascii_char c \<longleftrightarrow> code_of c < 128"

definition ascii_digit :: "char \<Rightarrow> bool" where
  "ascii_digit c \<longleftrightarrow> 48 \<le> code_of c \<and> code_of c \<le> 57"

definition ascii_upper :: "char \<Rightarrow> bool" where
  "ascii_upper c \<longleftrightarrow> 65 \<le> code_of c \<and> code_of c \<le> 90"

definition ascii_lower :: "char \<Rightarrow> bool" where
  "ascii_lower c \<longleftrightarrow> 97 \<le> code_of c \<and> code_of c \<le> 122"

definition ascii_alnum :: "char \<Rightarrow> bool" where
  "ascii_alnum c \<longleftrightarrow> ascii_digit c \<or> ascii_upper c \<or> ascii_lower c"

definition ascii_control :: "char \<Rightarrow> bool" where
  "ascii_control c \<longleftrightarrow> code_of c < 32 \<or> code_of c = 127"

definition lower_char :: "char \<Rightarrow> char" where
  "lower_char c = (if ascii_upper c then char_of (code_of c + 32) else c)"

definition to_ascii_lowercase :: "string \<Rightarrow> string" where
  "to_ascii_lowercase s = map lower_char s"

definition upper_char :: "char \<Rightarrow> char" where
  "upper_char c = (if ascii_lower c then char_of (code_of c - 32) else c)"

definition to_ascii_uppercase :: "string \<Rightarrow> string" where
  "to_ascii_uppercase s = map upper_char s"

lemmas ascii_defs = ascii_char_def ascii_digit_def ascii_upper_def ascii_lower_def ascii_alnum_def
  ascii_control_def

section \<open>Trimming\<close>

text \<open>The characters with the Unicode property \<open>White_Space\<close>, in UTF-8.\<close>

definition white_space :: "string list" where
  "white_space =
     [[CHR 0x09], [CHR 0x0A], [CHR 0x0B], [CHR 0x0C], [CHR 0x0D], [CHR 0x20],
      [CHR 0xC2, CHR 0x85], [CHR 0xC2, CHR 0xA0], [CHR 0xE1, CHR 0x9A, CHR 0x80],
      [CHR 0xE2, CHR 0x80, CHR 0x80], [CHR 0xE2, CHR 0x80, CHR 0x81], [CHR 0xE2, CHR 0x80, CHR 0x82],
      [CHR 0xE2, CHR 0x80, CHR 0x83], [CHR 0xE2, CHR 0x80, CHR 0x84], [CHR 0xE2, CHR 0x80, CHR 0x85],
      [CHR 0xE2, CHR 0x80, CHR 0x86], [CHR 0xE2, CHR 0x80, CHR 0x87], [CHR 0xE2, CHR 0x80, CHR 0x88],
      [CHR 0xE2, CHR 0x80, CHR 0x89], [CHR 0xE2, CHR 0x80, CHR 0x8A], [CHR 0xE2, CHR 0x80, CHR 0xA8],
      [CHR 0xE2, CHR 0x80, CHR 0xA9], [CHR 0xE2, CHR 0x80, CHR 0xAF], [CHR 0xE2, CHR 0x81, CHR 0x9F],
      [CHR 0xE3, CHR 0x80, CHR 0x80]]"

definition starts_with :: "string \<Rightarrow> string \<Rightarrow> bool" where
  "starts_with p s \<longleftrightarrow> take (length p) s = p"

definition ends_with :: "string \<Rightarrow> string \<Rightarrow> bool" where
  "ends_with p s \<longleftrightarrow> starts_with (rev p) (rev s)"

lemma find_leading_shrinks:
  assumes "find (\<lambda>w. w \<noteq> [] \<and> starts_with w s) ws = Some w"
  shows "length (drop (length w) s) < length s"
proof -
  have "w \<noteq> []" "starts_with w s" using assms by (auto simp: find_Some_iff)
  then show ?thesis by (cases s) (auto simp: starts_with_def)
qed

function strip_leading :: "string list \<Rightarrow> string \<Rightarrow> string" where
  "strip_leading ws s =
     (case find (\<lambda>w. w \<noteq> [] \<and> starts_with w s) ws of
        None \<Rightarrow> s
      | Some w \<Rightarrow> strip_leading ws (drop (length w) s))"
  by pat_completeness auto

termination
  by (relation "measure (\<lambda>(ws, s). length s)") (simp, simp only: in_measure case_prod_conv find_leading_shrinks)

declare strip_leading.simps [simp del]

definition trim_start :: "string \<Rightarrow> string" where
  "trim_start s = strip_leading white_space s"

definition trim_end :: "string \<Rightarrow> string" where
  "trim_end s = rev (strip_leading (map rev white_space) (rev s))"

definition trim_text :: "string \<Rightarrow> string" where
  "trim_text s = trim_end (trim_start s)"

lemma starts_with_append: "starts_with p s \<longleftrightarrow> (\<exists>t. s = p @ t)"
  by (auto simp: starts_with_def) (metis append_take_drop_id)

lemma ends_with_append: "ends_with p s \<longleftrightarrow> (\<exists>t. s = t @ p)"
  unfolding ends_with_def starts_with_append
  by (metis rev_append rev_rev_ident)

text \<open>A text of visible ASCII characters is its own trimmed form.\<close>

definition visible :: "char \<Rightarrow> bool" where
  "visible c \<longleftrightarrow> 32 < code_of c \<and> code_of c < 127"

lemma strip_leading_id:
  assumes "\<forall>w \<in> set ws. w = [] \<or> \<not> visible (hd w)" and "s = [] \<or> visible (hd s)"
  shows "strip_leading ws s = s"
proof -
  have "find (\<lambda>w. w \<noteq> [] \<and> starts_with w s) ws = None"
    using assms by (auto simp: find_None_iff starts_with_append)
  then show ?thesis by (subst strip_leading.simps) simp
qed

lemma white_space_ends:
  "\<forall>w \<in> set white_space. \<not> visible (hd w)"
  "\<forall>w \<in> set (map rev white_space). \<not> visible (hd w)"
  by (simp_all add: white_space_def visible_def)

lemma trim_visible:
  assumes "\<forall>c \<in> set s. visible c"
  shows "trim_text s = s"
proof -
  have "strip_leading white_space s = s"
    by (rule strip_leading_id) (use assms white_space_ends(1) in \<open>auto intro: hd_in_set\<close>)
  moreover have "strip_leading (map rev white_space) (rev s) = rev s"
  proof (rule strip_leading_id)
    have "rev s = [] \<or> hd (rev s) \<in> set s" using hd_in_set [of "rev s"] by auto
    with assms show "rev s = [] \<or> visible (hd (rev s))" by blast
  qed (use white_space_ends(2) in blast)
  ultimately show ?thesis by (simp add: trim_text_def trim_start_def trim_end_def)
qed

section \<open>Splitting\<close>

fun split_on :: "char \<Rightarrow> string \<Rightarrow> string list" where
  "split_on c [] = [[]]"
| "split_on c (x # xs) =
     (if x = c then [] # split_on c xs
      else case split_on c xs of [] \<Rightarrow> [[x]] | y # ys \<Rightarrow> (x # y) # ys)"

fun join_on :: "char \<Rightarrow> string list \<Rightarrow> string" where
  "join_on c [] = []"
| "join_on c [x] = x"
| "join_on c (x # y # ys) = x @ c # join_on c (y # ys)"

lemma split_on_nonempty [simp]: "split_on c s \<noteq> []"
  by (cases s) (auto split: list.split)

lemma join_on_Cons: "ls \<noteq> [] \<Longrightarrow> join_on c (l # ls) = l @ c # join_on c ls"
  by (cases ls) auto

lemma join_split [simp]: "join_on c (split_on c s) = s"
proof (induction s)
  case (Cons x xs)
  show ?case
  proof (cases "x = c")
    case True with Cons show ?thesis by (simp add: join_on_Cons)
  next
    case False
    obtain y ys where "split_on c xs = y # ys" by (cases "split_on c xs") auto
    with False Cons show ?thesis by (cases ys) auto
  qed
qed simp

lemma split_on_append:
  "c \<notin> set l \<Longrightarrow> split_on c (l @ s) = (case split_on c s of [] \<Rightarrow> [l] | y # ys \<Rightarrow> (l @ y) # ys)"
  by (induction l) (auto split: list.split)

lemma split_join:
  "ls \<noteq> [] \<Longrightarrow> \<forall>l \<in> set ls. c \<notin> set l \<Longrightarrow> split_on c (join_on c ls) = ls"
proof (induction c ls rule: join_on.induct)
  case (3 c x y ys) then show ?case by (simp add: split_on_append)
next
  case (2 c x)
  then show ?case using split_on_append [of c x "[]"] by simp
qed simp

lemma split_on_no_sep: "l \<in> set (split_on c s) \<Longrightarrow> c \<notin> set l"
proof (induction s arbitrary: l)
  case (Cons x xs)
  show ?case
  proof (cases "x = c")
    case False
    obtain y ys where eq: "split_on c xs = y # ys" by (cases "split_on c xs") auto
    with Cons False show ?thesis by auto
  qed (use Cons in auto)
qed simp

lemma split_on_set: "l \<in> set (split_on c s) \<Longrightarrow> set l \<subseteq> set s"
proof (induction s arbitrary: l)
  case (Cons x xs)
  show ?case
  proof (cases "x = c")
    case False
    obtain y ys where eq: "split_on c xs = y # ys" by (cases "split_on c xs") auto
    with Cons.IH have "set y \<subseteq> set xs" "\<forall>l \<in> set ys. set l \<subseteq> set xs" by auto
    with Cons.prems False eq show ?thesis by auto
  qed (use Cons in auto)
qed simp

lemma split_on_length: "length (split_on c s) = Suc (count_list s c)"
  by (induction s) (auto split: list.split)

section \<open>Numbers\<close>

definition digits_value :: "string \<Rightarrow> nat" where
  "digits_value ds = foldl (\<lambda>n c. 10 * n + (code_of c - 48)) 0 ds"

lemma of_char_digit: "n < 10 \<Longrightarrow> code_of (char_of (48 + n)) = 48 + n"
  by simp

lemma decimal_rec:
  "decimal n = (if n < 10 then [char_of (48 + n)] else decimal (n div 10) @ [char_of (48 + n mod 10)])"
  by (rule decimal.simps)

lemma decimal_digits: "list_all ascii_digit (decimal n)"
proof (induction n rule: decimal.induct)
  case (1 n)
  have "ascii_digit (char_of (48 + m))" if "m < 10" for m :: nat
    using that by (simp add: ascii_digit_def)
  with 1 show ?case by (subst decimal_rec) simp
qed

lemma decimal_nonempty [simp]: "decimal n \<noteq> []"
  by (subst decimal_rec) simp

lemma digits_value_snoc: "digits_value (ds @ [c]) = 10 * digits_value ds + (code_of c - 48)"
  by (simp add: digits_value_def)

lemma digits_value_decimal [simp]: "digits_value (decimal n) = n"
proof (induction n rule: decimal.induct)
  case (1 n)
  show ?case
  proof (cases "n < 10")
    case True
    then show ?thesis by (subst decimal_rec) (simp add: digits_value_def)
  next
    case False
    then show ?thesis using 1
      by (subst decimal_rec) (simp only: if_False digits_value_snoc, simp)
  qed
qed

lemma decimal_inject [simp]: "decimal m = decimal n \<longleftrightarrow> m = n"
  by (metis digits_value_decimal)

text \<open>What follows a number does not begin with a digit: the number can be read off.\<close>

lemma takeWhile_decimal:
  assumes "s = [] \<or> \<not> ascii_digit (hd s)"
  shows "takeWhile ascii_digit (decimal n @ s) = decimal n" "dropWhile ascii_digit (decimal n @ s) = s"
  using assms decimal_digits [of n] by (cases s; simp add: list_all_iff)+

section \<open>Finding a text\<close>

text \<open>\<open>str::find\<close> of a pattern: the text before and after its first occurrence.\<close>

fun split_once :: "string \<Rightarrow> string \<Rightarrow> (string \<times> string) option" where
  "split_once p [] = (if p = [] then Some ([], []) else None)"
| "split_once p (c # s) =
     (if starts_with p (c # s) then Some ([], drop (length p) (c # s))
      else map_option (\<lambda>(a, b). (c # a, b)) (split_once p s))"

lemma split_once_Some: "split_once p s = Some (a, b) \<Longrightarrow> s = a @ p @ b"
proof (induction p s arbitrary: a rule: split_once.induct)
  case (2 p c s)
  then show ?case
  proof (cases "starts_with p (c # s)")
    case True
    with 2 show ?thesis by (auto simp: starts_with_append)
  qed (auto split: option.splits)
qed (simp split: if_splits)

lemma split_once_None: "split_once p s = None \<Longrightarrow> \<not> (\<exists>a b. s = a @ p @ b)"
proof (induction p s rule: split_once.induct)
  case (2 p c s)
  then have "\<not> starts_with p (c # s)" "\<not> (\<exists>a b. s = a @ p @ b)" by (auto split: if_splits)
  then show ?case by (metis append_eq_Cons_conv starts_with_append)
qed (simp split: if_splits)

lemma split_once_first:
  assumes "split_once p s = Some (a, b)" and "p \<noteq> []"
  shows "a \<noteq> x @ p @ y"
  using assms
proof (induction p s arbitrary: a x rule: split_once.induct)
  case (2 p c s)
  show ?case
  proof (cases "starts_with p (c # s)")
    case True
    with 2(2,3) show ?thesis by auto
  next
    case False
    with 2(2) obtain a' where a': "a = c # a'" "split_once p s = Some (a', b)" by (auto split: option.splits)
    have "c # s = a @ p @ b" using split_once_Some [OF 2(2)] .
    with False have "\<not> (\<exists>y. a = p @ y)" by (auto simp: starts_with_append)
    with 2(1) [OF False a'(2) 2(3)] a'(1) show ?thesis by (cases x) auto
  qed
qed (simp split: if_splits)

lemma lower_char_special: "lower_char c = CHR '':'' \<longleftrightarrow> c = CHR '':''" "lower_char c = CHR ''/'' \<longleftrightarrow> c = CHR ''/''"
proof -
  have "code_of (lower_char c) = (if ascii_upper c then code_of c + 32 else code_of c)"
    by (simp add: lower_char_def ascii_upper_def)
  then have "code_of (lower_char c) = 58 \<longleftrightarrow> code_of c = 58" "code_of (lower_char c) = 47 \<longleftrightarrow> code_of c = 47"
    by (auto simp: ascii_upper_def)
  then show "lower_char c = CHR '':'' \<longleftrightarrow> c = CHR '':''" "lower_char c = CHR ''/'' \<longleftrightarrow> c = CHR ''/''"
    using of_char_eq_iff [of "lower_char c" "CHR '':''", where 'a = nat] of_char_eq_iff [of c "CHR '':''", where 'a = nat]
      of_char_eq_iff [of "lower_char c" "CHR ''/''", where 'a = nat] of_char_eq_iff [of c "CHR ''/''", where 'a = nat]
    by simp_all
qed

lemma lower_char_idem [simp]: "lower_char (lower_char c) = lower_char c"
proof (cases "ascii_upper c")
  case True
  then have "\<not> ascii_upper (lower_char c)" by (simp add: lower_char_def ascii_upper_def)
  then show ?thesis by (simp add: lower_char_def)
qed (simp add: lower_char_def)

lemma to_ascii_lowercase_idem [simp]: "to_ascii_lowercase (to_ascii_lowercase s) = to_ascii_lowercase s"
  by (simp add: to_ascii_lowercase_def)

end
