(* ===== verification/Service_Management.thy ===== *)
theory Service_Management
  imports Ascii_Text Errors
begin

text \<open>
  \<^verbatim>\<open>src/service_management.rs\<close>: the switches of an anchor's services with their snapshots, the
  maintenance windows, and the dependency graph between services with its cycle check.
\<close>

section \<open>Data and storage\<close>

record service_config_snapshot =
  sc_snapshot_id :: u64
  sc_anchor :: address
  sc_services :: "u32 list"
  sc_created_at :: u64
  sc_description :: string

record service_toggle_state =
  st_anchor :: address
  st_enabled :: "u32 list"
  st_disabled :: "u32 list"
  st_updated_at :: u64

record maintenance_window =
  mw_window_id :: u64
  mw_anchor :: address
  mw_start_time :: u64
  mw_end_time :: u64
  mw_description :: string
  mw_affected :: "u32 list"

record service_dependency =
  dep_service :: u32
  dep_dependency :: u32

text \<open>The entries \<open>SVC_STATE\<close>, \<open>SVC_SNAP\<close>, \<open>SVC_SNAP_CNT\<close>, \<open>MW\<close>, \<open>MW_CNT\<close> and \<open>DEP_GRAPH\<close>.\<close>

record service_store =
  svc_state :: "address \<Rightarrow> service_toggle_state option"
  svc_snaps :: "u64 \<Rightarrow> service_config_snapshot option"
  svc_snap_count :: "u64 option"
  svc_windows :: "u64 \<Rightarrow> maintenance_window option"
  svc_window_count :: "u64 option"
  svc_graphs :: "address \<Rightarrow> service_dependency list option"

definition empty_service_store :: service_store where
  "empty_service_store =
     \<lparr>svc_state = Map.empty, svc_snaps = Map.empty, svc_snap_count = None,
      svc_windows = Map.empty, svc_window_count = None, svc_graphs = Map.empty\<rparr>"

text \<open>Every operation returns a value and the new storage, a refusal, or traps.\<close>

type_synonym 'a svc_result = "trap + ((anchor_kit_error + 'a) \<times> service_store)"

section \<open>Maintenance windows\<close>

definition window_active :: "env \<Rightarrow> maintenance_window \<Rightarrow> bool" where
  "window_active e w \<longleftrightarrow> mw_start_time w \<le> timestamp e \<and> timestamp e \<le> mw_end_time w"

definition affects_service :: "maintenance_window \<Rightarrow> u32 \<Rightarrow> bool" where
  "affects_service w code \<longleftrightarrow> mw_affected w = [] \<or> code \<in> set (mw_affected w)"

definition window_count :: "service_store \<Rightarrow> u64" where
  "window_count s = get_or 0 (svc_window_count s)"

definition get_window :: "service_store \<Rightarrow> u64 \<Rightarrow> maintenance_window option" where
  "get_window s i = svc_windows s i"

definition windows_overlap :: "address \<Rightarrow> u64 \<Rightarrow> u64 \<Rightarrow> maintenance_window \<Rightarrow> bool" where
  "windows_overlap anchor start_time end_time w \<longleftrightarrow>
     mw_anchor w = anchor \<and> start_time \<le> mw_end_time w \<and> mw_start_time w \<le> end_time"

definition stored_windows :: "service_store \<Rightarrow> maintenance_window list" where
  "stored_windows s = List.map_filter (get_window s) (id_range 0 (window_count s))"

definition schedule_window ::
    "env \<Rightarrow> address \<Rightarrow> u64 \<Rightarrow> u64 \<Rightarrow> string \<Rightarrow> u32 list \<Rightarrow> service_store \<Rightarrow> u64 svc_result" where
  "schedule_window e anchor start_time end_time description affected s =
     (let window_id = window_count s in
      if list_ex (windows_overlap anchor start_time end_time) (stored_windows s)
      then Inr (Inl (from_code MaintenanceWindowConflict), s)
      else
        bind_ok (plus_trap window_id 1) (\<lambda>next_id.
          Inr (Inr window_id,
            s\<lparr>svc_windows := (svc_windows s)(window_id \<mapsto>
                 \<lparr>mw_window_id = window_id, mw_anchor = anchor, mw_start_time = start_time,
                  mw_end_time = end_time, mw_description = description, mw_affected = affected\<rparr>),
              svc_window_count := Some next_id\<rparr>)))"

definition cancel_window :: "u64 \<Rightarrow> service_store \<Rightarrow> bool \<times> service_store" where
  "cancel_window window_id s =
     (if svc_windows s window_id = None then (False, s)
      else (True, s\<lparr>svc_windows := (svc_windows s)(window_id := None)\<rparr>))"

definition is_in_maintenance :: "env \<Rightarrow> service_store \<Rightarrow> address \<Rightarrow> u32 \<Rightarrow> bool" where
  "is_in_maintenance e s anchor code =
     list_ex (\<lambda>w. mw_anchor w = anchor \<and> window_active e w \<and> affects_service w code) (stored_windows s)"

section \<open>Switches and snapshots\<close>

definition service_in_maintenance :: "u32 \<Rightarrow> anchor_kit_error" where
  "service_in_maintenance code =
     with_context ServiceInMaintenance (default_message ServiceInMaintenance)
       (''service_code='' @ decimal (unat code))"

definition get_service_state :: "service_store \<Rightarrow> address \<Rightarrow> service_toggle_state" where
  "get_service_state s anchor =
     get_or \<lparr>st_anchor = anchor, st_enabled = [], st_disabled = [], st_updated_at = 0\<rparr> (svc_state s anchor)"

definition is_service_enabled :: "service_store \<Rightarrow> address \<Rightarrow> u32 \<Rightarrow> bool" where
  "is_service_enabled s anchor code \<longleftrightarrow> code \<in> set (st_enabled (get_service_state s anchor))"

definition put_service_state :: "address \<Rightarrow> service_toggle_state \<Rightarrow> service_store \<Rightarrow> service_store" where
  "put_service_state anchor st s = s\<lparr>svc_state := (svc_state s)(anchor \<mapsto> st)\<rparr>"

definition enable_toggle :: "env \<Rightarrow> address \<Rightarrow> u32 \<Rightarrow> service_store \<Rightarrow> (anchor_kit_error + bool) \<times> service_store" where
  "enable_toggle e anchor code s =
     (if is_in_maintenance e s anchor code then (Inl (service_in_maintenance code), s)
      else
        let state = get_service_state s anchor in
        if code \<in> set (st_enabled state) then (Inr False, s)
        else (Inr True, put_service_state anchor
               (state\<lparr>st_disabled := filter (\<lambda>c. c \<noteq> code) (st_disabled state),
                      st_enabled := st_enabled state @ [code], st_updated_at := timestamp e\<rparr>) s))"

definition disable_toggle :: "env \<Rightarrow> address \<Rightarrow> u32 \<Rightarrow> service_store \<Rightarrow> (anchor_kit_error + bool) \<times> service_store" where
  "disable_toggle e anchor code s =
     (if is_in_maintenance e s anchor code then (Inl (service_in_maintenance code), s)
      else
        let state = get_service_state s anchor in
        if code \<in> set (st_disabled state) then (Inr False, s)
        else (Inr True, put_service_state anchor
               (state\<lparr>st_enabled := filter (\<lambda>c. c \<noteq> code) (st_enabled state),
                      st_disabled := st_disabled state @ [code], st_updated_at := timestamp e\<rparr>) s))"

definition snapshot_count :: "service_store \<Rightarrow> u64" where
  "snapshot_count s = get_or 0 (svc_snap_count s)"

definition get_snapshot :: "service_store \<Rightarrow> u64 \<Rightarrow> service_config_snapshot option" where
  "get_snapshot s i = svc_snaps s i"

definition create_snapshot :: "env \<Rightarrow> address \<Rightarrow> u32 list \<Rightarrow> string \<Rightarrow> service_store \<Rightarrow> u64 svc_result" where
  "create_snapshot e anchor services description s =
     (if trim_text description = []
      then Inr (Inl (with_context InvalidTemplate (default_message InvalidTemplate)
                       ''snapshot name must not be empty''), s)
      else
        let snapshot_id = snapshot_count s in
        bind_ok (plus_trap snapshot_id 1) (\<lambda>next_id.
          Inr (Inr snapshot_id,
            s\<lparr>svc_snaps := (svc_snaps s)(snapshot_id \<mapsto>
                 \<lparr>sc_snapshot_id = snapshot_id, sc_anchor = anchor, sc_services = services,
                  sc_created_at = timestamp e, sc_description = description\<rparr>),
              svc_snap_count := Some next_id\<rparr>)))"

definition rollback_to_snapshot :: "env \<Rightarrow> u64 \<Rightarrow> service_store \<Rightarrow> bool \<times> service_store" where
  "rollback_to_snapshot e snapshot_id s =
     (if snapshot_count s \<le> snapshot_id then (False, s)
      else case get_snapshot s snapshot_id of
        None \<Rightarrow> (False, s)
      | Some snap \<Rightarrow> (True, put_service_state (sc_anchor snap)
          \<lparr>st_anchor = sc_anchor snap, st_enabled = sc_services snap, st_disabled = [],
           st_updated_at = timestamp e\<rparr> s))"

definition enable_all_services :: "env \<Rightarrow> address \<Rightarrow> u32 list \<Rightarrow> service_store \<Rightarrow> service_store" where
  "enable_all_services e anchor all_services s =
     put_service_state anchor \<lparr>st_anchor = anchor, st_enabled = all_services, st_disabled = [],
       st_updated_at = timestamp e\<rparr> s"

definition disable_all_services :: "env \<Rightarrow> address \<Rightarrow> u32 list \<Rightarrow> service_store \<Rightarrow> service_store" where
  "disable_all_services e anchor all_services s =
     put_service_state anchor \<lparr>st_anchor = anchor, st_enabled = [], st_disabled = all_services,
       st_updated_at = timestamp e\<rparr> s"

section \<open>Dependencies\<close>

definition get_graph :: "service_store \<Rightarrow> address \<Rightarrow> service_dependency list" where
  "get_graph s anchor = get_or [] (svc_graphs s anchor)"

definition MAX_NODES :: nat where "MAX_NODES = 256"

text \<open>
  \<open>is_reachable\<close> keeps the nodes found so far in the array \<open>frontier\<close> and the expanded ones in
  \<open>visited\<close>; the first \<open>frontier_len\<close>, \<open>visited_len\<close> entries are the lists here.  One edge, the edges
  at one node, and one round over the frontier; \<open>None\<close> is the early \<open>return true\<close>.
\<close>

definition follow_edge ::
    "u32 \<Rightarrow> u32 list \<Rightarrow> u32 \<Rightarrow> u32 list \<times> bool \<Rightarrow> service_dependency \<Rightarrow> (u32 list \<times> bool) option" where
  "follow_edge target visited node st e =
     (case st of (frontier, changed) \<Rightarrow>
        if dep_service e = node
        then let succ = dep_dependency e in
             if succ = target then None
             else if succ \<in> set visited \<or> succ \<in> set frontier \<or> MAX_NODES \<le> length frontier
             then Some st
             else Some (frontier @ [succ], True)
        else Some st)"

fun follow_edges ::
    "u32 \<Rightarrow> u32 list \<Rightarrow> u32 \<Rightarrow> service_dependency list \<Rightarrow> u32 list \<times> bool \<Rightarrow> (u32 list \<times> bool) option" where
  "follow_edges target visited node [] st = Some st"
| "follow_edges target visited node (e # es) st =
     (case follow_edge target visited node st e of
        None \<Rightarrow> None
      | Some st' \<Rightarrow> follow_edges target visited node es st')"

fun expand_nodes ::
    "u32 \<Rightarrow> service_dependency list \<Rightarrow> u32 list \<Rightarrow> u32 list \<times> u32 list \<times> bool \<Rightarrow> (u32 list \<times> u32 list \<times> bool) option" where
  "expand_nodes target edges [] st = Some st"
| "expand_nodes target edges (node # nodes) (visited, frontier, changed) =
     (case follow_edges target visited node edges (frontier, changed) of
        None \<Rightarrow> None
      | Some (frontier', changed') \<Rightarrow>
          expand_nodes target edges nodes
            (if node \<in> set visited \<or> MAX_NODES \<le> length visited then visited else visited @ [node],
             frontier', changed'))"

text \<open>The frontier grows in every round but the last; its length is bounded.\<close>

lemma follow_edges_grow:
  "follow_edges target visited node es (f, c) = Some (f', c') \<Longrightarrow>
     length f' = length f \<or> length f < length f' \<and> length f' \<le> MAX_NODES"
proof (induction es arbitrary: f c)
  case (Cons e es)
  then show ?case
    by (force simp: follow_edge_def Let_def split: option.splits prod.splits if_split_asm)
qed simp

lemma expand_nodes_grow:
  "expand_nodes target edges nodes (v, f, c) = Some (v', f', c') \<Longrightarrow>
     length f' = length f \<or> length f < length f' \<and> length f' \<le> MAX_NODES"
proof (induction nodes arbitrary: v f c)
  case (Cons node nodes)
  then obtain f1 c1 where f1: "follow_edges target v node edges (f, c) = Some (f1, c1)"
    by (auto split: option.splits)
  with Cons.prems follow_edges_grow [OF f1] show ?case
    by (auto dest!: Cons.IH)
qed simp

function search_rounds :: "u32 \<Rightarrow> service_dependency list \<Rightarrow> u32 list \<Rightarrow> u32 list \<Rightarrow> bool" where
  "search_rounds target edges visited frontier =
     (case expand_nodes target edges frontier (visited, frontier, False) of
        None \<Rightarrow> True
      | Some (visited', frontier', changed) \<Rightarrow>
          if \<not> changed \<or> length frontier' = length frontier then False
          else search_rounds target edges visited' frontier')"
  by pat_completeness auto

termination
proof (relation "measure (\<lambda>(target, edges, visited, frontier). MAX_NODES - length frontier)", goal_cases)
  case (2 target edges visited frontier a v r f c)
  then have eq: "expand_nodes target edges frontier (visited, frontier, False) = Some (v, f, c)" by simp
  from 2 have "length f \<noteq> length frontier" by simp
  with expand_nodes_grow [OF eq] show ?case by auto
qed simp

declare search_rounds.simps [simp del]

definition is_reachable :: "service_dependency list \<Rightarrow> u32 \<Rightarrow> u32 \<Rightarrow> bool" where
  "is_reachable edges start target = (start = target \<or> search_rounds target edges [] [start])"

definition add_dependency :: "address \<Rightarrow> u32 \<Rightarrow> u32 \<Rightarrow> service_store \<Rightarrow> (anchor_kit_error + unit) \<times> service_store" where
  "add_dependency anchor service_code dependency_code s =
     (let edges = get_graph s anchor; e = \<lparr>dep_service = service_code, dep_dependency = dependency_code\<rparr> in
      if is_reachable edges dependency_code service_code then (Inl (from_code DependencyCycleDetected), s)
      else if e \<in> set edges then (Inr (), s)
      else (Inr (), s\<lparr>svc_graphs := (svc_graphs s)(anchor \<mapsto> edges @ [e])\<rparr>))"

definition remove_dependency :: "address \<Rightarrow> u32 \<Rightarrow> u32 \<Rightarrow> service_store \<Rightarrow> (anchor_kit_error + unit) \<times> service_store" where
  "remove_dependency anchor service_code dependency_code s =
     (Inr (), s\<lparr>svc_graphs := (svc_graphs s)(anchor \<mapsto>
        filter (\<lambda>e. \<not> (dep_service e = service_code \<and> dep_dependency e = dependency_code)) (get_graph s anchor))\<rparr>)"

definition dependency_not_met :: "u32 \<Rightarrow> u32 \<Rightarrow> anchor_kit_error" where
  "dependency_not_met service_code dependency_code =
     with_context DependencyNotMet (default_message DependencyNotMet)
       (''service='' @ decimal (unat service_code) @ '' requires='' @ decimal (unat dependency_code))"

definition assert_dependencies_met :: "service_store \<Rightarrow> address \<Rightarrow> u32 \<Rightarrow> anchor_kit_error + unit" where
  "assert_dependencies_met s anchor code =
     (case find (\<lambda>e. dep_service e = code \<and> \<not> is_service_enabled s anchor (dep_dependency e)) (get_graph s anchor) of
        Some e \<Rightarrow> Inl (dependency_not_met code (dep_dependency e))
      | None \<Rightarrow> Inr ())"

definition assert_no_active_dependents :: "service_store \<Rightarrow> address \<Rightarrow> u32 \<Rightarrow> anchor_kit_error + unit" where
  "assert_no_active_dependents s anchor code =
     (case find (\<lambda>e. dep_dependency e = code \<and> is_service_enabled s anchor (dep_service e)) (get_graph s anchor) of
        Some e \<Rightarrow> Inl (dependency_not_met (dep_service e) code)
      | None \<Rightarrow> Inr ())"

section \<open>The search is reachability\<close>

definition dep_rel :: "service_dependency list \<Rightarrow> (u32 \<times> u32) set" where
  "dep_rel edges = (\<lambda>e. (dep_service e, dep_dependency e)) ` set edges"

lemma dep_relI: "e \<in> set edges \<Longrightarrow> (dep_service e, dep_dependency e) \<in> dep_rel edges"
  by (auto simp: dep_rel_def)

text \<open>An early return has found an edge from the node to the target; otherwise the frontier keeps
  its nodes and gains successors of the node only.\<close>

lemma follow_edges_None:
  "follow_edges target v node es st = None \<Longrightarrow> (node, target) \<in> dep_rel es"
proof (induction es arbitrary: st)
  case (Cons e es)
  then show ?case
    by (auto simp: follow_edge_def dep_rel_def Let_def split: option.splits prod.splits if_split_asm)
qed simp

lemma follow_edges_Some:
  assumes "follow_edges target v node es (f, c) = Some (f', c')"
  shows "\<exists>new. f' = f @ new \<and> (distinct f \<longrightarrow> distinct f') \<and> set new \<subseteq> {m. (node, m) \<in> dep_rel es} \<and>
    (new = [] \<longrightarrow> c' = c) \<and> (new \<noteq> [] \<longrightarrow> c') \<and> (node, target) \<notin> dep_rel es \<and>
    (new = [] \<longrightarrow> {m. (node, m) \<in> dep_rel es} \<subseteq> set v \<union> set f \<or> MAX_NODES \<le> length f)"
  using assms
proof (induction es arbitrary: f c)
  case (Cons e es)
  from Cons.prems obtain f1 c1 where step: "follow_edge target v node (f, c) e = Some (f1, c1)"
    and rest: "follow_edges target v node es (f1, c1) = Some (f', c')"
    by (auto split: option.splits)
  from Cons.IH [OF rest] obtain new where IH: "f' = f1 @ new" "distinct f1 \<longrightarrow> distinct f'"
    "set new \<subseteq> {m. (node, m) \<in> dep_rel es}" "new = [] \<longrightarrow> c' = c1" "new \<noteq> [] \<longrightarrow> c'"
    "(node, target) \<notin> dep_rel es"
    "new = [] \<longrightarrow> {m. (node, m) \<in> dep_rel es} \<subseteq> set v \<union> set f1 \<or> MAX_NODES \<le> length f1" by blast
  have rel: "(node, m) \<in> dep_rel (e # es) \<longleftrightarrow> (node = dep_service e \<and> m = dep_dependency e) \<or> (node, m) \<in> dep_rel es" for m
    by (auto simp: dep_rel_def)
  consider (skip) "dep_service e \<noteq> node" "f1 = f" "c1 = c"
    | (known) "dep_service e = node" "dep_dependency e \<noteq> target" "f1 = f" "c1 = c"
        "dep_dependency e \<in> set v \<union> set f \<or> MAX_NODES \<le> length f"
    | (add) "dep_service e = node" "dep_dependency e \<noteq> target" "f1 = f @ [dep_dependency e]" "c1"
        "dep_dependency e \<notin> set f"
    using step by (auto simp: follow_edge_def Let_def split: if_split_asm)
  then show ?case
  proof cases
    case skip with IH rel show ?thesis by (intro exI [of _ new]) auto
  next
    case known with IH rel show ?thesis by (intro exI [of _ new]) auto
  next
    case add
    with IH rel show ?thesis by (intro exI [of _ "dep_dependency e # new"]) auto
  qed
qed (auto simp: dep_rel_def)

lemma expand_nodes_None:
  "expand_nodes target edges nodes st = None \<Longrightarrow> \<exists>node \<in> set nodes. (node, target) \<in> dep_rel edges"
proof (induction nodes arbitrary: st)
  case (Cons node nodes)
  then show ?case
    by (cases st) (auto split: option.splits dest: follow_edges_None)
qed simp

lemma expand_nodes_Some:
  assumes "expand_nodes target edges nodes (v, f, c) = Some (v', f', c')"
    and "set nodes \<subseteq> set f" and "set v \<subseteq> set f"
  shows "\<exists>new. f' = f @ new \<and> (distinct f \<longrightarrow> distinct f') \<and> set v' \<subseteq> set f' \<and>
    set new \<subseteq> {m. \<exists>n \<in> set nodes. (n, m) \<in> dep_rel edges} \<and>
    (new = [] \<longrightarrow> c' = c) \<and> (new \<noteq> [] \<longrightarrow> c') \<and> (\<forall>n \<in> set nodes. (n, target) \<notin> dep_rel edges) \<and>
    (new = [] \<longrightarrow> {m. \<exists>n \<in> set nodes. (n, m) \<in> dep_rel edges} \<subseteq> set f \<or> MAX_NODES \<le> length f)"
  using assms
proof (induction nodes arbitrary: v f c)
  case (Cons node nodes)
  define v1 where "v1 = (if node \<in> set v \<or> MAX_NODES \<le> length v then v else v @ [node])"
  have v1: "set v1 \<subseteq> insert node (set v)" by (auto simp: v1_def)
  obtain f1 c1 where step: "follow_edges target v node edges (f, c) = Some (f1, c1)"
    using Cons.prems(1) by (cases "follow_edges target v node edges (f, c)") auto
  with Cons.prems(1) have rest: "expand_nodes target edges nodes (v1, f1, c1) = Some (v', f', c')"
    by (simp add: v1_def)
  from follow_edges_Some [OF step] obtain n1 where n1: "f1 = f @ n1" "distinct f \<longrightarrow> distinct f1"
    "set n1 \<subseteq> {m. (node, m) \<in> dep_rel edges}" "n1 = [] \<longrightarrow> c1 = c" "n1 \<noteq> [] \<longrightarrow> c1"
    "(node, target) \<notin> dep_rel edges"
    "n1 = [] \<longrightarrow> {m. (node, m) \<in> dep_rel edges} \<subseteq> set v \<union> set f \<or> MAX_NODES \<le> length f" by blast
  have "set nodes \<subseteq> set f1" "set v1 \<subseteq> set f1" using Cons.prems(2,3) n1(1) v1 by auto
  from Cons.IH [OF rest this] obtain n2 where n2: "f' = f1 @ n2" "distinct f1 \<longrightarrow> distinct f'"
    "set v' \<subseteq> set f'" "set n2 \<subseteq> {m. \<exists>n \<in> set nodes. (n, m) \<in> dep_rel edges}"
    "n2 = [] \<longrightarrow> c' = c1" "n2 \<noteq> [] \<longrightarrow> c'" "\<forall>n \<in> set nodes. (n, target) \<notin> dep_rel edges"
    "n2 = [] \<longrightarrow> {m. \<exists>n \<in> set nodes. (n, m) \<in> dep_rel edges} \<subseteq> set f1 \<or> MAX_NODES \<le> length f1" by blast
  show ?case
  proof (intro exI [of _ "n1 @ n2"] conjI)
    show "n1 @ n2 = [] \<longrightarrow> {m. \<exists>n \<in> set (node # nodes). (n, m) \<in> dep_rel edges} \<subseteq> set f \<or> MAX_NODES \<le> length f"
    proof
      assume "n1 @ n2 = []"
      then have none: "n1 = []" "n2 = []" by simp_all
      with n1(1) have "f1 = f" by simp
      with none n1(7) n2(8) Cons.prems(3)
      show "{m. \<exists>n \<in> set (node # nodes). (n, m) \<in> dep_rel edges} \<subseteq> set f \<or> MAX_NODES \<le> length f"
        by (cases "MAX_NODES \<le> length f") (simp, fastforce)
    qed
    show "n1 @ n2 \<noteq> [] \<longrightarrow> c'" using n1(5) n2(5,6) by (cases "n2 = []") auto
    show "n1 @ n2 = [] \<longrightarrow> c' = c" using n1(4) n2(5) by simp
    show "f' = f @ n1 @ n2" using n1(1) n2(1) by simp
    show "distinct f \<longrightarrow> distinct f'" using n1(2) n2(2) by blast
    show "set v' \<subseteq> set f'" by (rule n2(3))
    show "set (n1 @ n2) \<subseteq> {m. \<exists>n \<in> set (node # nodes). (n, m) \<in> dep_rel edges}"
      using n1(3) n2(4) by fastforce
    show "\<forall>n \<in> set (node # nodes). (n, target) \<notin> dep_rel edges" using n1(6) n2(7) by simp
  qed
qed (auto intro: exI [of _ "[]"])

lemma search_rounds_sound:
  assumes "search_rounds target edges v f"
    and "set v \<subseteq> set f" and "\<forall>n \<in> set f. (start, n) \<in> (dep_rel edges)\<^sup>*"
  shows "(start, target) \<in> (dep_rel edges)\<^sup>*"
  using assms
proof (induction target edges v f rule: search_rounds.induct)
  case (1 target edges v f)
  show ?case
  proof (cases "expand_nodes target edges f (v, f, False)")
    case None
    then obtain n where "n \<in> set f" "(n, target) \<in> dep_rel edges" by (blast dest: expand_nodes_None)
    with 1(4) show ?thesis by (blast intro: rtrancl_into_rtrancl)
  next
    case (Some st)
    obtain v' f' c where st: "st = (v', f', c)" by (cases st)
    with expand_nodes_Some [of target edges f v f False v' f' c] Some 1(3)
    obtain new where new: "f' = f @ new" "set v' \<subseteq> set f'"
      "set new \<subseteq> {m. \<exists>n \<in> set f. (n, m) \<in> dep_rel edges}" by auto
    from 1(2) Some st have again: "\<not> (\<not> c \<or> length f' = length f)" "search_rounds target edges v' f'"
      by (subst (asm) search_rounds.simps, simp split: if_split_asm)+
    have "\<forall>n \<in> set f'. (start, n) \<in> (dep_rel edges)\<^sup>*"
      using 1(4) new(1,3) by (fastforce intro: rtrancl_into_rtrancl)
    with 1(1) [OF Some [unfolded st] refl refl again(1) again(2) new(2)] show ?thesis by blast
  qed
qed

lemma search_rounds_complete:
  assumes "\<not> search_rounds target edges v f" and "set v \<subseteq> set f" and "distinct f"
    and "set f \<subseteq> insert start (dep_dependency ` set edges)" and "length edges < MAX_NODES"
    and "start \<in> set f" and "target \<notin> set f"
  shows "(start, target) \<notin> (dep_rel edges)\<^sup>*"
  using assms
proof (induction target edges v f rule: search_rounds.induct)
  case (1 target edges v f)
  obtain v' f' c where st: "expand_nodes target edges f (v, f, False) = Some (v', f', c)"
    using 1(2) by (subst (asm) search_rounds.simps) (auto split: option.splits)
  with expand_nodes_Some [OF st] 1(3) obtain new where new: "f' = f @ new" "distinct f \<longrightarrow> distinct f'"
    "set v' \<subseteq> set f'" "set new \<subseteq> {m. \<exists>n \<in> set f. (n, m) \<in> dep_rel edges}"
    "new = [] \<longrightarrow> c = False" "new \<noteq> [] \<longrightarrow> c" "\<forall>n \<in> set f. (n, target) \<notin> dep_rel edges"
    "new = [] \<longrightarrow> {m. \<exists>n \<in> set f. (n, m) \<in> dep_rel edges} \<subseteq> set f \<or> MAX_NODES \<le> length f"
    by blast
  have bound: "set f' \<subseteq> insert start (dep_dependency ` set edges)"
    using 1(5) new(1,4) by (auto simp: dep_rel_def)
  have target: "target \<notin> set f'" using 1(8) new(1,4,7) by auto
  show ?case
  proof (cases "new = []")
    case True
    have card: "card (insert start (dep_dependency ` set edges)) \<le> Suc (length edges)"
      using card_insert_if [of "dep_dependency ` set edges" start] card_image_le [of "set edges" dep_dependency]
        card_length [of edges] by (simp split: if_splits)
    have "{m. \<exists>n \<in> set f. (n, m) \<in> dep_rel edges} \<subseteq> set f"
    proof (rule ccontr)
      assume not: "\<not> ?thesis"
      with new(8) True have "MAX_NODES \<le> length f" by blast
      with card 1(6) distinct_card [OF 1(4)]
      have "card (insert start (dep_dependency ` set edges)) \<le> card (set f)" by simp
      then have "set f = insert start (dep_dependency ` set edges)"
        by (intro card_seteq [OF _ 1(5)]) simp_all
      then have "{m. \<exists>n \<in> set f. (n, m) \<in> dep_rel edges} \<subseteq> set f" by (auto simp: dep_rel_def)
      with not show False by blast
    qed
    then have closed: "m \<in> set f" if "(n, m) \<in> dep_rel edges" "n \<in> set f" for n m
      using that by blast
    have "m \<in> set f" if "(start, m) \<in> (dep_rel edges)\<^sup>*" for m
      using that by (induction rule: rtrancl_induct) (use 1(7) closed in auto)
    with 1(8) show ?thesis by blast
  next
    case False
    with new st have again: "\<not> (\<not> c \<or> length f' = length f)" by auto
    with 1(2) st have "\<not> search_rounds target edges v' f'"
      by (subst (asm) search_rounds.simps) auto
    from 1(1) [OF st refl refl again this new(3) _ bound 1(6)] new(1,2) 1(4,7) target
    show ?thesis by auto
  qed
qed

lemma is_reachable_iff:
  assumes "length edges < MAX_NODES"
  shows "is_reachable edges start target \<longleftrightarrow> (start, target) \<in> (dep_rel edges)\<^sup>*"
proof
  assume "is_reachable edges start target"
  then show "(start, target) \<in> (dep_rel edges)\<^sup>*"
    using search_rounds_sound [of target edges "[]" "[start]" start] by (auto simp: is_reachable_def)
next
  assume reach: "(start, target) \<in> (dep_rel edges)\<^sup>*"
  show "is_reachable edges start target"
  proof (rule ccontr)
    assume "\<not> is_reachable edges start target"
    then have "start \<noteq> target" "\<not> search_rounds target edges [] [start]" by (simp_all add: is_reachable_def)
    with search_rounds_complete [of target edges "[]" "[start]" start] assms reach show False by auto
  qed
qed

section \<open>Invariant\<close>

definition graphs_acyclic :: "service_store \<Rightarrow> bool" where
  "graphs_acyclic s \<longleftrightarrow> (\<forall>anchor. acyclic (dep_rel (get_graph s anchor)))"

text \<open>Windows are stored under their numbers, below the counter, and those of one anchor do not overlap.\<close>

definition windows_inv :: "service_store \<Rightarrow> bool" where
  "windows_inv s \<longleftrightarrow>
     (\<forall>i w. svc_windows s i = Some w \<longrightarrow> mw_window_id w = i \<and> i < window_count s) \<and>
     (\<forall>i j v w. svc_windows s i = Some v \<longrightarrow> svc_windows s j = Some w \<longrightarrow> mw_anchor v = mw_anchor w \<longrightarrow>
        i \<noteq> j \<longrightarrow> mw_end_time v < mw_start_time w \<or> mw_end_time w < mw_start_time v)"

text \<open>Switches: nothing is enabled and disabled at once, and no service is listed twice.\<close>

definition toggles_inv :: "service_store \<Rightarrow> bool" where
  "toggles_inv s \<longleftrightarrow>
     (\<forall>a st. svc_state s a = Some st \<longrightarrow> set (st_enabled st) \<inter> set (st_disabled st) = {})"

lemma set_stored_windows:
  assumes "\<forall>i w. svc_windows s i = Some w \<longrightarrow> i < window_count s"
  shows "set (stored_windows s) = ran (svc_windows s)"
proof -
  have "set (List.map_filter f xs) = {y. \<exists>x \<in> set xs. f x = Some y}" for f :: "u64 \<Rightarrow> maintenance_window option" and xs
    by (induction xs) (auto simp: List.map_filter_simps split: option.split)
  with assms show ?thesis by (auto simp: stored_windows_def get_window_def set_id_range ran_def)
qed

lemma schedule_window_ok:
  assumes "schedule_window e anchor t1 t2 d aff s = Inr (Inr i, s')" and "windows_inv s"
  shows "windows_inv s'" "window_count s' = window_count s + 1" "i = window_count s"
    "svc_windows s' = (svc_windows s)(i \<mapsto> \<lparr>mw_window_id = i, mw_anchor = anchor, mw_start_time = t1,
       mw_end_time = t2, mw_description = d, mw_affected = aff\<rparr>)"
    "s' = s\<lparr>svc_windows := svc_windows s', svc_window_count := svc_window_count s'\<rparr>"
proof -
  from assms(1) obtain n where n: "checked_add (window_count s) 1 = Some n" "i = window_count s"
    and free: "\<not> list_ex (windows_overlap anchor t1 t2) (stored_windows s)"
    and s': "s' = s\<lparr>svc_windows := (svc_windows s)(i \<mapsto> \<lparr>mw_window_id = i, mw_anchor = anchor,
        mw_start_time = t1, mw_end_time = t2, mw_description = d, mw_affected = aff\<rparr>),
        svc_window_count := Some n\<rparr>"
    by (auto simp: schedule_window_def Let_def bind_ok_Inr plus_trap_def of_option_Inr split: if_split_asm)
  have un: "unat n = unat (window_count s) + 1" using n(1) by (simp add: checked_add_Some)
  then have "n = window_count s + 1"
    using n(1) by (simp add: checked_add_def split: if_splits)
  then show "window_count s' = window_count s + 1" by (simp add: s' window_count_def)
  show "i = window_count s" by (rule n(2))
  show "svc_windows s' = (svc_windows s)(i \<mapsto> \<lparr>mw_window_id = i, mw_anchor = anchor, mw_start_time = t1,
       mw_end_time = t2, mw_description = d, mw_affected = aff\<rparr>)"
    "s' = s\<lparr>svc_windows := svc_windows s', svc_window_count := svc_window_count s'\<rparr>" by (simp_all add: s')
  have below: "\<forall>i w. svc_windows s i = Some w \<longrightarrow> i < window_count s"
    using assms(2) by (auto simp: windows_inv_def)
  have apart: "mw_end_time w < t1 \<or> t2 < mw_start_time w" if "svc_windows s j = Some w" "mw_anchor w = anchor" for j w
  proof -
    have "w \<in> set (stored_windows s)" using set_stored_windows [OF below] that(1) by (auto intro: ranI)
    with free that(2) show ?thesis by (auto simp: list_ex_iff windows_overlap_def not_le)
  qed
  have lt: "j < n" if "j < window_count s" for j
    using that un by (simp add: word_less_nat_alt)
  show "windows_inv s'"
    unfolding windows_inv_def
  proof (rule conjI; intro allI impI)
    fix j w assume "svc_windows s' j = Some w"
    moreover have "window_count s' = n" "i < n"
      using un n(2) by (simp_all add: s' window_count_def word_less_nat_alt)
    ultimately show "mw_window_id w = j \<and> j < window_count s'"
      using assms(2) lt unfolding windows_inv_def by (auto simp: s' split: if_split_asm)
  next
    fix j k v w assume "svc_windows s' j = Some v" "svc_windows s' k = Some w" "mw_anchor v = mw_anchor w" "j \<noteq> k"
    then show "mw_end_time v < mw_start_time w \<or> mw_end_time w < mw_start_time v"
      using assms(2) by (auto simp: s' windows_inv_def split: if_split_asm dest: apart)
  qed
qed

lemma cancel_window_inv: "windows_inv s \<Longrightarrow> windows_inv (snd (cancel_window i s))"
  by (auto simp: cancel_window_def windows_inv_def window_count_def)

lemma toggle_inv:
  assumes "toggles_inv s"
  shows "toggles_inv (snd (enable_toggle e a c s))" "toggles_inv (snd (disable_toggle e a c s))"
    "toggles_inv (snd (rollback_to_snapshot e i s))"
  using assms
  by (auto simp: toggles_inv_def enable_toggle_def disable_toggle_def rollback_to_snapshot_def
      put_service_state_def get_service_state_def get_or_def Let_def split: option.splits)

section \<open>Properties\<close>

text \<open>
  C14. As long as an anchor has fewer than 256 dependencies and they are acyclic, a new dependency is
  refused with \<open>DependencyCycleDetected\<close> exactly if it would close a cycle (a service that needs
  itself included); otherwise it is in the graph afterwards, once, nothing else changes, and all
  graphs stay acyclic.  The bounded breadth-first search with its two arrays decides reachability.
\<close>

theorem dependency_insertion:
  assumes "graphs_acyclic s" and "length (get_graph s a) < 256"
  shows "if acyclic (insert (x, y) (dep_rel (get_graph s a)))
    then \<exists>s'. add_dependency a x y s = (Inr (), s') \<and> graphs_acyclic s' \<and>
      dep_rel (get_graph s' a) = insert (x, y) (dep_rel (get_graph s a)) \<and>
      (\<forall>b. b \<noteq> a \<longrightarrow> get_graph s' b = get_graph s b) \<and> s' = s\<lparr>svc_graphs := svc_graphs s'\<rparr>
    else add_dependency a x y s = (Inl (from_code DependencyCycleDetected), s)"
proof -
  let ?g = "get_graph s a"
  have acyclic: "acyclic (dep_rel ?g)" using assms(1) by (simp add: graphs_acyclic_def)
  have reach: "is_reachable ?g y x \<longleftrightarrow> (y, x) \<in> (dep_rel ?g)\<^sup>*"
    using assms(2) by (simp add: is_reachable_iff MAX_NODES_def)
  have cycle: "acyclic (insert (x, y) (dep_rel ?g)) \<longleftrightarrow> \<not> is_reachable ?g y x"
    by (simp add: acyclic_insert acyclic reach)
  show ?thesis
  proof (cases "is_reachable ?g y x")
    case True
    then show ?thesis by (simp add: cycle add_dependency_def del: acyclic_insert)
  next
    case False
    show ?thesis
    proof (cases "\<lparr>dep_service = x, dep_dependency = y\<rparr> \<in> set ?g")
      case True
      then have "(x, y) \<in> dep_rel ?g" using dep_relI by fastforce
      with True False assms(1) show ?thesis
        by (simp add: cycle add_dependency_def insert_absorb acyclic del: acyclic_insert)
    next
      case new: False
      define s' where "s' = s\<lparr>svc_graphs := (svc_graphs s)(a \<mapsto> ?g @ [\<lparr>dep_service = x, dep_dependency = y\<rparr>])\<rparr>"
      have "add_dependency a x y s = (Inr (), s')" using new False by (simp add: add_dependency_def s'_def)
      moreover have rel: "dep_rel (get_graph s' a) = insert (x, y) (dep_rel ?g)"
        by (simp add: s'_def get_graph_def dep_rel_def)
      moreover have other: "get_graph s' b = get_graph s b" if "b \<noteq> a" for b
        using that by (simp add: s'_def get_graph_def)
      moreover have "graphs_acyclic s'"
        unfolding graphs_acyclic_def
      proof
        fix b show "acyclic (dep_rel (get_graph s' b))"
          using assms(1) False rel other [of b] cycle by (cases "b = a") (auto simp: graphs_acyclic_def)
      qed
      ultimately show ?thesis using False by (simp add: cycle s'_def del: acyclic_insert)
    qed
  qed
qed

theorem dependency_insertion_witness:
  "fst (add_dependency ''A'' 2 1 (snd (add_dependency ''A'' 1 2 empty_service_store))) =
     Inl (from_code DependencyCycleDetected)"
proof -
  have empty: "graphs_acyclic empty_service_store" "get_graph empty_service_store a = []" for a
    by (simp_all add: graphs_acyclic_def empty_service_store_def get_graph_def dep_rel_def acyclic_def)
  have acyc: "acyclic (insert (1, 2) (dep_rel [] :: (u32 \<times> u32) set))"
  proof -
    have "(2, 1) \<notin> ({} :: (u32 \<times> u32) set)\<^sup>*" by simp
    then show ?thesis unfolding acyclic_insert dep_rel_def by (simp add: acyclic_def)
  qed
  from dependency_insertion [OF empty(1), of "''A''" 1 2] obtain s1
    where s1: "add_dependency ''A'' 1 2 empty_service_store = (Inr (), s1)" "graphs_acyclic s1"
      "dep_rel (get_graph s1 ''A'') = {(1, 2)}"
    using acyc by (auto simp: empty dep_rel_def)
  have "get_graph s1 ''A'' = [\<lparr>dep_service = 1, dep_dependency = 2\<rparr>]"
    using s1(1) by (auto simp: add_dependency_def empty Let_def get_graph_def empty_service_store_def split: if_splits)
  moreover have "\<not> acyclic (insert (2, 1) {(1 :: u32, 2)})"
    by (auto simp: acyclic_insert)
  ultimately show ?thesis
    using dependency_insertion [OF s1(2), of "''A''" 2 1] s1 by simp
qed

text \<open>
  In every storage reached by scheduling and cancelling windows, at most one maintenance window
  of an anchor is active at a time; while one that affects a service is active, the service can
  be neither enabled nor disabled: the call is refused and nothing changes.
\<close>

theorem maintenance_blocks_switching:
  assumes "windows_inv s"
    and "svc_windows s i = Some w" and "mw_anchor w = a" and "window_active e w"
  shows "(svc_windows s j = Some v \<longrightarrow> mw_anchor v = a \<longrightarrow> window_active e v \<longrightarrow> j = i) \<and>
    (affects_service w c \<longrightarrow>
       enable_toggle e a c s = (Inl (service_in_maintenance c), s) \<and>
       disable_toggle e a c s = (Inl (service_in_maintenance c), s))"
proof (intro conjI impI)
  show "j = i" if "svc_windows s j = Some v" "mw_anchor v = a" "window_active e v"
  proof (rule ccontr)
    assume "j \<noteq> i"
    with that assms have "mw_end_time v < mw_start_time w \<or> mw_end_time w < mw_start_time v"
      unfolding windows_inv_def by metis
    with \<open>window_active e v\<close> assms(4) show False unfolding window_active_def by auto
  qed
next
  assume "affects_service w c"
  moreover have "w \<in> set (stored_windows s)"
    using set_stored_windows [of s] assms(1,2) by (auto simp: windows_inv_def intro: ranI)
  ultimately have "is_in_maintenance e s a c" using assms(3,4) by (auto simp: is_in_maintenance_def list_ex_iff)
  then show "enable_toggle e a c s = (Inl (service_in_maintenance c), s)"
    "disable_toggle e a c s = (Inl (service_in_maintenance c), s)"
    by (simp_all add: enable_toggle_def disable_toggle_def)
qed

lemma windows_inv_empty: "windows_inv empty_service_store"
  by (simp add: windows_inv_def empty_service_store_def)

theorem maintenance_blocks_switching_witness:
  "\<exists>s. schedule_window (accepting_env 9 1 {}) ''A'' 5 20 ''upgrade'' [] empty_service_store = Inr (Inr 0, s) \<and>
     fst (enable_toggle (accepting_env 9 1 {}) ''A'' 3 s) = Inl (service_in_maintenance 3)"
proof -
  obtain s where s: "schedule_window (accepting_env 9 1 {}) ''A'' 5 20 ''upgrade'' [] empty_service_store = Inr (Inr 0, s)"
    by (simp add: schedule_window_def empty_service_store_def window_count_def stored_windows_def
        List.map_filter_simps plus_trap_def checked_add_def of_option_def Let_def)
  note ok = schedule_window_ok [OF s windows_inv_empty]
  have "svc_windows s 0 = Some \<lparr>mw_window_id = 0, mw_anchor = ''A'', mw_start_time = 5, mw_end_time = 20,
      mw_description = ''upgrade'', mw_affected = []\<rparr>" using ok(4) by simp
  from maintenance_blocks_switching [OF ok(1) this, of "''A''" "accepting_env 9 1 {}" 0 _ 3] s show ?thesis
    by (simp add: window_active_def accepting_env_def affects_service_def)
qed

end
