(* ===== verification/Anchor_State.thy ===== *)
theory Anchor_State
  imports Soroban_Storage Cache_Governance Service_Management
begin

text \<open>
  The data the contract keeps about anchors (struct declarations of \<^verbatim>\<open>src/contract.rs\<close>): profiles
  and services, the caches, the routing directory, routing policies and reputation, health and
  endpoint proofs.  One record per group of storage keys; \<open>anchor_store\<close> collects them.
\<close>

section \<open>Profiles and services\<close>

record attestor_profile =
  pf_attestor :: address
  pf_endpoint :: string
  pf_webhook_url :: string
  pf_services :: "u32 list"
  pf_enabled :: bool
  pf_updated_at :: u64

record service_retirement_info =
  ri_service_code :: u32
  ri_retired :: bool
  ri_timestamp :: "u64 option"
  ri_notice :: "string option"

record anchor_services =
  as_anchor :: address
  as_services :: "u32 list"
  as_version :: u32
  as_retirements :: "service_retirement_info list"

definition SERVICE_DEPOSITS :: u32 where "SERVICE_DEPOSITS = 1"
definition SERVICE_WITHDRAWALS :: u32 where "SERVICE_WITHDRAWALS = 2"
definition SERVICE_QUOTES :: u32 where "SERVICE_QUOTES = 3"
definition SERVICE_KYC :: u32 where "SERVICE_KYC = 4"
definition SERVICE_SEP31 :: u32 where "SERVICE_SEP31 = 5"
definition SERVICE_CAPABILITY_VERSION :: u32 where "SERVICE_CAPABILITY_VERSION = 1"
definition MAX_KNOWN_SERVICE_CODE :: u32 where "MAX_KNOWN_SERVICE_CODE = SERVICE_SEP31"

record profile_store =
  pr_profiles :: "address \<Rightarrow> attestor_profile option"
  pr_services :: "address \<Rightarrow> anchor_services option"

section \<open>Caches\<close>

record anchor_metadata =
  am_anchor :: address
  am_reputation :: u32
  am_liquidity :: u32
  am_uptime :: u32
  am_volume :: u64
  am_settlement :: u64
  am_active :: bool

record metadata_cache =
  mc_metadata :: anchor_metadata
  mc_cached_at :: u64
  mc_ttl :: u64
  mc_stale_ttl :: u64
  mc_needs_refresh :: bool

datatype metadata_cache_state = CacheMissing | CacheFresh | CacheStale | CacheExpiredState

record capabilities_cache =
  kc_toml_url :: string
  kc_capabilities :: string
  kc_cached_at :: u64
  kc_ttl :: u64

datatype refresh_status = RefreshSuccess | RefreshFailed

record refresh_diagnostic =
  rd_operation :: string
  rd_status :: refresh_status
  rd_attempted_at :: u64
  rd_had_cached_entry :: bool
  rd_detail :: string

record asset_info =
  ai_code :: string
  ai_issuer :: string
  ai_deposit_enabled :: bool
  ai_withdrawal_enabled :: bool
  ai_deposit_fee_fixed :: u64
  ai_deposit_fee_percent :: u32
  ai_withdrawal_fee_fixed :: u64
  ai_withdrawal_fee_percent :: u32
  ai_deposit_min :: u64
  ai_deposit_max :: u64
  ai_withdrawal_min :: u64
  ai_withdrawal_max :: u64

record stellar_toml =
  to_version :: string
  to_network_passphrase :: string
  to_accounts :: "string list"
  to_signing_key :: string
  to_currencies :: "asset_info list"
  to_transfer_server :: string
  to_transfer_server_sep24 :: string
  to_kyc_server :: string
  to_web_auth_endpoint :: string
  to_direct_payment_server :: string

record cached_toml =
  ct_toml :: stellar_toml
  ct_cached_at :: u64
  ct_ttl :: u64
  ct_source_uri :: string
  ct_last_refreshed_at :: u64

record anchor_toml_provenance =
  ap_anchor :: address
  ap_source_uri :: string
  ap_cached_at :: u64
  ap_last_refreshed_at :: u64
  ap_ttl :: u64
  ap_age :: u64

definition MIN_TEMP_TTL :: u32 where "MIN_TEMP_TTL = 15"

record cache_config =
  cf_metadata_ttl :: u64
  cf_capabilities_ttl :: u64
  cf_swr_ttl :: u64

definition default_cache_config :: cache_config where
  "default_cache_config = \<lparr>cf_metadata_ttl = 3600, cf_capabilities_ttl = 21600, cf_swr_ttl = 300\<rparr>"

text \<open>The entries \<open>METACACHE\<close>, \<open>CAPCACHE\<close>, \<open>TOMLCACHE\<close>, \<open>REFDIAG\<close>, \<open>CACNT\<close> and \<open>CACHECFG\<close>.\<close>

record cache_store =
  ca_metadata :: "(address, metadata_cache) temp_map"
  ca_capabilities :: "(address, capabilities_cache) temp_map"
  ca_toml :: "(address, cached_toml) temp_map"
  ca_diagnostics :: "(address \<times> string, refresh_diagnostic) temp_map"
  ca_count :: "u64 option"
  ca_config :: "cache_config option"

section \<open>Directory\<close>

record routing_anchor_meta =
  rm_anchor :: address
  rm_reputation :: u32
  rm_settlement :: u64
  rm_liquidity :: u32
  rm_uptime :: u32
  rm_volume :: u64
  rm_active :: bool

record anchor_metadata_version =
  mv_version :: u32
  mv_updated_at :: u64
  mv_reputation :: u32
  mv_settlement :: u64
  mv_liquidity :: u32
  mv_uptime :: u32
  mv_volume :: u64
  mv_active :: bool

record anchor_blacklist_entry =
  bl_anchor :: address
  bl_reason :: string
  bl_at :: u64

record anchor_cluster =
  cl_id :: string
  cl_name :: string
  cl_anchors :: "address list"
  cl_created_at :: u64

record directory_store =
  di_meta :: "address \<Rightarrow> routing_anchor_meta option"
  di_version_count :: "address \<Rightarrow> u32 option"
  di_history :: "address \<times> u32 \<Rightarrow> anchor_metadata_version option"
  di_list :: "address list option"
  di_blacklist :: "address \<Rightarrow> anchor_blacklist_entry option"
  di_blacklist_index :: "address list option"
  di_clusters :: "string \<Rightarrow> anchor_cluster option"
  di_cluster_list :: "string list option"

section \<open>Reputation and routing policies\<close>

record anchor_reputation_record =
  rr_anchor :: address
  rr_total_routed :: u64
  rr_successful_routed :: u64
  rr_quality_score :: u32
  rr_uptime_ticks :: u64
  rr_total_ticks :: u64
  rr_updated_at :: u64

record reputation_weights =
  rw_success :: u32
  rw_uptime :: u32
  rw_quality :: u32

record routing_time_window =
  tw_start :: u32
  tw_end :: u32

record timed_routing_policy =
  tp_id :: u64
  tp_name :: string
  tp_strategy :: string
  tp_window :: routing_time_window
  tp_priority :: u32
  tp_enabled :: bool

record network_routing_profile =
  np_network :: string
  np_strategy :: string
  np_fee_weight :: u32
  np_speed_weight :: u32
  np_reputation_weight :: u32
  np_min_reputation :: u32
  np_is_default :: bool

text \<open>The entries \<open>REPREC\<close>, \<open>REPWTS\<close>, \<open>TPOLCNT\<close>, \<open>TPOL\<close>, \<open>NETPROF\<close>, \<open>DEFNET\<close>, \<open>ACTNET\<close> and
  \<open>COMPPOL\<close>; the last is the minimum score of the compliance policy.\<close>

record routing_store =
  ro_records :: "address \<Rightarrow> anchor_reputation_record option"
  ro_weights :: "reputation_weights option"
  ro_policy_count :: "u64 option"
  ro_policies :: "u64 \<Rightarrow> timed_routing_policy option"
  ro_profiles :: "string \<Rightarrow> network_routing_profile option"
  ro_default :: "string option"
  ro_active :: "string option"
  ro_compliance :: "u32 option option"

section \<open>Health and endpoint proofs\<close>

record anchor_health_metrics =
  hm_anchor :: address
  hm_success :: u64
  hm_failure :: u64
  hm_total :: u64
  hm_uptime_bps :: u32
  hm_last_event_at :: u64

record anchor_health_window =
  hw_started_at :: u64
  hw_ended_at :: u64
  hw_success :: u64
  hw_failure :: u64
  hw_latency :: u64
  hw_attempts :: u64
  hw_routing_failures :: u64
  hw_recovery :: u64

datatype health_trend = Improving | Steady | Degrading

record anchor_health_score =
  hs_anchor :: address
  hs_composite :: u32
  hs_success_rate :: u32
  hs_latency :: u32
  hs_routing :: u32
  hs_recovery :: u32
  hs_trend :: health_trend
  hs_previous :: u32
  hs_scored_at :: u64
  hs_window_count :: nat

record anchor_proof_record =
  po_anchor :: address
  po_endpoint :: string
  po_hash :: bytes
  po_registered_at :: u64
  po_verified :: bool

definition MAX_HEALTH_WINDOWS :: nat where "MAX_HEALTH_WINDOWS = 24"

record health_store =
  he_metrics :: "address \<Rightarrow> anchor_health_metrics option"
  he_windows :: "address \<Rightarrow> anchor_health_window list option"
  he_proofs :: "address \<Rightarrow> anchor_proof_record option"

section \<open>The whole\<close>

record anchor_store =
  an_profiles :: profile_store
  an_switches :: service_store
  an_caches :: cache_store
  an_governance :: governance_store
  an_directory :: directory_store
  an_routing :: routing_store
  an_health :: health_store

definition empty_anchor_store :: anchor_store where
  "empty_anchor_store =
     \<lparr>an_profiles = \<lparr>pr_profiles = Map.empty, pr_services = Map.empty\<rparr>,
      an_switches = empty_service_store,
      an_caches = \<lparr>ca_metadata = Map.empty, ca_capabilities = Map.empty, ca_toml = Map.empty,
        ca_diagnostics = Map.empty, ca_count = None, ca_config = None\<rparr>,
      an_governance = empty_governance,
      an_directory = \<lparr>di_meta = Map.empty, di_version_count = Map.empty, di_history = Map.empty,
        di_list = None, di_blacklist = Map.empty, di_blacklist_index = None,
        di_clusters = Map.empty, di_cluster_list = None\<rparr>,
      an_routing = \<lparr>ro_records = Map.empty, ro_weights = None, ro_policy_count = None,
        ro_policies = Map.empty, ro_profiles = Map.empty, ro_default = None, ro_active = None,
        ro_compliance = None\<rparr>,
      an_health = \<lparr>he_metrics = Map.empty, he_windows = Map.empty, he_proofs = Map.empty\<rparr>\<rparr>"

end
