(* ===== verification/Contract_State.thy ===== *)
theory Contract_State
  imports Migration Sep10_Jwt Replay_Detection Rate_Limiter Session_State_Machine Transaction_State
    Anchor_State
begin

text \<open>
  The data of \<^verbatim>\<open>src/contract.rs\<close> (its struct and enum declarations) and the storage of the
  contract: one record per component, each field one storage key or family of keys, and the list
  of published events.
\<close>

section \<open>Constants\<close>

definition DEFAULT_SESSION_TTL :: u64 where "DEFAULT_SESSION_TTL = 3600"
definition MAX_BATCH_SIZE :: nat where "MAX_BATCH_SIZE = 25"
definition BATCH_ATTESTATION_RATE_MULTIPLIER :: u32 where "BATCH_ATTESTATION_RATE_MULTIPLIER = 5"
definition MAX_OPS_PER_SESSION :: u64 where "MAX_OPS_PER_SESSION = 100"
definition MAX_PAYLOAD_HASH_BYTES :: nat where "MAX_PAYLOAD_HASH_BYTES = 32"
definition MIN_JWT_MAX_LEN :: u32 where "MIN_JWT_MAX_LEN = 2048"
definition MAX_JWT_MAX_LEN :: u32 where "MAX_JWT_MAX_LEN = 16384"
definition KYC_EXPIRY_SECONDS :: u64 where "KYC_EXPIRY_SECONDS = 2592000"
definition MAX_QUOTE_VALIDITY_SECONDS :: u64 where "MAX_QUOTE_VALIDITY_SECONDS = 2592000"
definition MAX_AUDIT_LOG_RETENTION_DAYS :: u64 where "MAX_AUDIT_LOG_RETENTION_DAYS = 3650"
definition SPAN_TTL :: nat where "SPAN_TTL = 1555200"
definition DEFAULT_TXBUDGET_WARNING_BYTES :: u64 where "DEFAULT_TXBUDGET_WARNING_BYTES = 500000"
definition DEFAULT_TXBUDGET_CRITICAL_BYTES :: u64 where "DEFAULT_TXBUDGET_CRITICAL_BYTES = 1000000"
definition APPROX_TXSTATE_RECORD_BYTES :: u64 where "APPROX_TXSTATE_RECORD_BYTES = 256"

section \<open>Administration\<close>

datatype admin_role = KycAdmin | AttestorAdmin | CacheAdmin

datatype (plugins only: size) admin_capability =
    UpgradeContract | MigrateSchema | SetCacheConfig | ManageAttestors | ManageKyc
  | ManageCacheEntries | ToggleServices | SetRateLimits | SetJwtConfig | ManageAnchorMetadata

primrec role_u32 :: "admin_role \<Rightarrow> u32" where
  "role_u32 KycAdmin = 0"
| "role_u32 AttestorAdmin = 1"
| "role_u32 CacheAdmin = 2"

primrec capability_u32 :: "admin_capability \<Rightarrow> u32" where
  "capability_u32 UpgradeContract = 0"
| "capability_u32 MigrateSchema = 1"
| "capability_u32 SetCacheConfig = 2"
| "capability_u32 ManageAttestors = 3"
| "capability_u32 ManageKyc = 4"
| "capability_u32 ManageCacheEntries = 5"
| "capability_u32 ToggleServices = 6"
| "capability_u32 SetRateLimits = 7"
| "capability_u32 SetJwtConfig = 8"
| "capability_u32 ManageAnchorMetadata = 9"

record contract_version =
  cv_major :: u32
  cv_minor :: u32
  cv_patch :: u32
  cv_upgraded_at :: u64

text \<open>\<open>acc_wasm\<close> is the code the deployer installed last; it is the host's, not the contract's.\<close>

record access_store =
  acc_initialized :: bool
  acc_admin :: "address option"
  acc_pending :: "address option"
  acc_roles :: "admin_role \<times> address \<Rightarrow> bool option"
  acc_caps :: "admin_capability \<times> address \<Rightarrow> bool option"
  acc_version :: "contract_version option"
  acc_old_hash :: "bytes option"
  acc_wasm :: "bytes option"

section \<open>Attestors\<close>

record attestor_revocation_record =
  rv_attestor :: address
  rv_revoked_at :: u64
  rv_revoked_by :: address
  rv_reason :: string
  rv_public_key :: bytes
  rv_reactivated :: bool
  rv_reactivated_at :: u64

record capacity_config =
  max_attestors :: u64
  max_cache_entries :: u64

record attestor_store =
  ats_registered :: "address \<Rightarrow> bool option"
  ats_public_key :: "address \<Rightarrow> bytes option"
  ats_revocation :: "address \<Rightarrow> attestor_revocation_record option"
  ats_count :: "u64 option"
  ats_list :: "address list option"
  ats_capacity :: "capacity_config option"
  ats_sep10_key :: "address \<Rightarrow> bytes option"
  ats_sep10_old :: "address \<Rightarrow> bytes option"

section \<open>Attestations and request tracing\<close>

record attestation =
  at_id :: u64
  at_issuer :: address
  at_subject :: address
  at_timestamp :: u64
  at_payload_hash :: bytes
  at_signature :: bytes
  at_schema_version :: u32

record attestation_input =
  in_issuer :: address
  in_subject :: address
  in_timestamp :: u64
  in_payload_hash :: bytes
  in_signature :: bytes

record attestation_store =
  att_counter :: "u64 option"
  att_records :: "u64 \<Rightarrow> attestation option"
  att_index :: "u64 list option"
  att_used :: "address \<times> bytes \<Rightarrow> u64 option"
  att_session_used :: "u64 \<times> bytes \<Rightarrow> bool option"

record request_id =
  rid_id :: bytes
  rid_created_at :: u64

record request_context =
  rc_root_request_id :: request_id
  rc_operation_chain :: "string list"
  rc_created_at :: u64

record tracing_span =
  sp_request_id :: request_id
  sp_operation :: string
  sp_actor :: address
  sp_started_at :: u64
  sp_completed_at :: u64
  sp_status :: string
  sp_parent :: bytes
  sp_span_index :: u32

record tracing_context =
  tc_root_request_id_bytes :: bytes
  tc_next_span_index :: u32

text \<open>\<open>tr_trace_ctx\<close> and \<open>tr_trace_ids\<close> are the entries \<open>TRACECTX\<close> and \<open>TRACEIDS\<close>;
  \<open>tr_id_counter\<close> is \<open>REQIDCNT\<close>.\<close>

record tracing_store =
  tr_spans :: "(bytes, tracing_span) temp_map"
  tr_contexts :: "(bytes, request_context) temp_map"
  tr_trace_ctx :: "(bytes, tracing_context) temp_map"
  tr_trace_ids :: "(bytes \<times> u32, bytes) temp_map"
  tr_id_counter :: "u64 option"

section \<open>Sessions\<close>

record session =
  se_session_id :: u64
  se_initiator :: address
  se_created_at :: u64
  se_nonce :: u64
  se_operation_count :: u64
  se_session_ttl_seconds :: u64
  se_closed :: bool
  se_state :: u32

record operation_context =
  oc_session_id :: u64
  oc_operation_index :: u64
  oc_operation_type :: string
  oc_timestamp :: u64
  oc_status :: string
  oc_result_data :: u64

record audit_log =
  al_log_id :: u64
  al_session_id :: u64
  al_actor :: address
  al_operation :: operation_context

record session_store =
  ses_count :: "u64 option"
  ses_sessions :: "u64 \<Rightarrow> session option"
  ses_op_count :: "u64 \<Rightarrow> u64 option"
  ses_log_count :: "u64 option"
  ses_logs :: "u64 \<Rightarrow> audit_log option"
  ses_log_ids :: "u64 \<times> u64 \<Rightarrow> u64 option"
  ses_retention :: "u64 option"
  ses_auto_prune :: "u32 option"

section \<open>KYC and compliance\<close>

datatype kyc_status = NotSubmitted | Pending | Approved | Rejected | KycExpiredStatus | Reopened

primrec kyc_u32 :: "kyc_status \<Rightarrow> u32" where
  "kyc_u32 NotSubmitted = 0"
| "kyc_u32 Pending = 1"
| "kyc_u32 Approved = 2"
| "kyc_u32 Rejected = 3"
| "kyc_u32 KycExpiredStatus = 4"
| "kyc_u32 Reopened = 5"

record kyc_record =
  ky_subject :: address
  ky_status :: u32
  ky_submitted_at :: u64
  ky_reviewed_at :: "u64 option"
  ky_expiry :: "u64 option"
  ky_rejection_reason_hash :: "bytes option"
  ky_schema_version :: u32

record compliance_check =
  cc_subject :: address
  cc_check_type :: string
  cc_result :: u32
  cc_score :: "u32 option"
  cc_timestamp :: u64

record kyc_store =
  kyc_records :: "address \<Rightarrow> kyc_record option"
  kyc_data :: "address \<Rightarrow> bytes option"
  comp_latest :: "address \<times> string \<Rightarrow> compliance_check option"
  comp_count :: "address \<times> string \<Rightarrow> u64 option"
  comp_history :: "address \<times> string \<times> u64 \<Rightarrow> compliance_check option"
  comp_index :: "address \<Rightarrow> string list option"

section \<open>Quotes\<close>

record quote =
  qu_quote_id :: u64
  qu_anchor :: address
  qu_base_asset :: string
  qu_quote_asset :: string
  qu_rate :: u64
  qu_fee_percentage :: u32
  qu_minimum_amount :: u64
  qu_maximum_amount :: u64
  qu_valid_until :: u64
  qu_schema_version :: u32
  qu_routing_reason :: "string option"

datatype quote_lifecycle_state = QuoteActive | QuoteInvalidated

primrec lifecycle_u32 :: "quote_lifecycle_state \<Rightarrow> u32" where
  "lifecycle_u32 QuoteActive = 0"
| "lifecycle_u32 QuoteInvalidated = 1"

text \<open>\<open>quo_index\<close> is the entry \<open>QUOTE_INDEX\<close>; \<open>quo_qidx\<close> is the entry under the hashed key
  \<open>QIDX\<close>.\<close>

record quote_store =
  quo_count :: "u64 option"
  quo_quotes :: "address \<times> u64 \<Rightarrow> quote option"
  quo_lifecycle :: "address \<times> u64 \<Rightarrow> u32 option"
  quo_index :: "u64 list option"
  quo_anchor_ref :: "u64 \<Rightarrow> address option"
  quo_latest :: "address \<Rightarrow> u64 option"
  quo_qidx :: "u64 list option"
  quo_cursor :: "u64 option"

section \<open>Transaction records\<close>

text \<open>The entries \<open>TXSTATE\<close>, \<open>TXIDS\<close>, \<open>EVICTEN\<close>, \<open>EVICTMAX\<close>, \<open>TXBUDWRN\<close> and \<open>TXBUDCRT\<close>.\<close>

record tx_store =
  txs_records :: "u64 \<Rightarrow> transaction_state_record option"
  txs_ids :: "u64 list option"
  txs_evict_enabled :: "bool option"
  txs_evict_max :: "u32 option"
  txs_budget_warning :: "u64 option"
  txs_budget_critical :: "u64 option"

definition empty_tx_store :: tx_store where
  "empty_tx_store =
     \<lparr>txs_records = Map.empty, txs_ids = None, txs_evict_enabled = None, txs_evict_max = None,
      txs_budget_warning = None, txs_budget_critical = None\<rparr>"

section \<open>Events and the whole storage\<close>

datatype (plugins only: size) event =
    EvContractInit address u64
  | EvAdminProposed address
  | EvAdminAccepted address
  | EvRoleGranted address u32
  | EvRoleRevoked address u32
  | EvCapGranted address u32
  | EvCapRevoked address u32
  | EvUpgraded bytes bytes u32 u32 u32 u64
  | EvKeyRotated address
  | EvAttestorAdded address u64
  | EvAttestorRemoved address address u64
  | EvAttestorRestored address address u64
  | EvAttestRecorded u64 address bytes u64
  | EvWebhook string u64 u64 bytes
  | EvRateLimitHit address u64 u32
  | EvReplay replay_event
  | EvSessionCreated u64 address u64
  | EvSessionClosed u64 address u64
  | EvSessionExpired u64 address u64
  | EvAuditLogged u64 u64 u64 string string u64
  | EvAuditPruned u64
  | EvKycSubmitted address u64 bytes
  | EvKycApproved address u64
  | EvKycRejected address u64
  | EvKycReopened address u64
  | EvCompChecked address compliance_check
  | EvQuoteSubmit u64 address string string u64 u64 "string option"
  | EvQuoteReceived u64 address u64
  | EvQuoteInvalid u64
  | EvQuoteAccepted u64 address u64
  | EvQuoteExpired u64 address u64 u64
  | EvTxBudget bool u64 u64
  | EvEvictBudget u32
  | EvEndpointUpdated address string
  | EvWebhookReg address u64
  | EvServicesConfigured address nat u32 u64
  | EvServiceRetired address u32
  | EvServiceUnretired address u32
  | EvCacheCompacted u64
  | EvCacheInvalid address u64
  | EvBlacklisted address
  | EvUnblacklisted address
  | EvClusterCreated
  | EvClusterDeleted string
  | EvClusterUpdated string
  | EvRouteSelected u64 u64
  | EvQuoteRouted u64
  | EvQuoteFallback
  | EvRepUpdated address
  | EvPolicyAdded u64
  | EvNetworkProfile string
  | EvHealthEvent address bool u32
  | EvHealthWindow address u64 u64
  | EvPopRegister address u64
  | EvPopFailed address u64
  | EvPopVerified address u64

record contract =
  c_access :: access_store
  c_schema :: schema_store
  c_audit :: audit_store
  c_rl :: rl_store
  c_replay :: replay_store
  c_jwt :: jwt_store
  c_attestors :: attestor_store
  c_attest :: attestation_store
  c_tracing :: tracing_store
  c_sessions :: session_store
  c_kyc :: kyc_store
  c_quotes :: quote_store
  c_txs :: tx_store
  c_anchors :: anchor_store
  c_events :: "event list"

text \<open>The storage of a freshly deployed contract.\<close>

definition fresh_contract :: contract where
  "fresh_contract =
     \<lparr>c_access = \<lparr>acc_initialized = False, acc_admin = None, acc_pending = None,
        acc_roles = Map.empty, acc_caps = Map.empty, acc_version = None, acc_old_hash = None,
        acc_wasm = None\<rparr>,
      c_schema = empty_schema_store, c_audit = empty_audit_store, c_rl = empty_rl_store,
      c_replay = empty_replay_store, c_jwt = empty_jwt_store,
      c_attestors = \<lparr>ats_registered = Map.empty, ats_public_key = Map.empty,
        ats_revocation = Map.empty, ats_count = None, ats_list = None, ats_capacity = None,
        ats_sep10_key = Map.empty, ats_sep10_old = Map.empty\<rparr>,
      c_attest = \<lparr>att_counter = None, att_records = Map.empty, att_index = None,
        att_used = Map.empty, att_session_used = Map.empty\<rparr>,
      c_tracing = \<lparr>tr_spans = Map.empty, tr_contexts = Map.empty,
        tr_trace_ctx = Map.empty, tr_trace_ids = Map.empty, tr_id_counter = None\<rparr>,
      c_sessions = \<lparr>ses_count = None, ses_sessions = Map.empty, ses_op_count = Map.empty,
        ses_log_count = None, ses_logs = Map.empty, ses_log_ids = Map.empty,
        ses_retention = None, ses_auto_prune = None\<rparr>,
      c_kyc = \<lparr>kyc_records = Map.empty, kyc_data = Map.empty, comp_latest = Map.empty,
        comp_count = Map.empty, comp_history = Map.empty, comp_index = Map.empty\<rparr>,
      c_quotes = \<lparr>quo_count = None, quo_quotes = Map.empty, quo_lifecycle = Map.empty,
        quo_index = None, quo_anchor_ref = Map.empty, quo_latest = Map.empty,
        quo_qidx = None, quo_cursor = None\<rparr>,
      c_txs = empty_tx_store, c_anchors = empty_anchor_store,
      c_events = []\<rparr>"

definition emit :: "event \<Rightarrow> contract \<Rightarrow> contract" where
  "emit ev s = s\<lparr>c_events := c_events s @ [ev]\<rparr>"

lemma emit_frame [simp]:
  "c_access (emit ev s) = c_access s" "c_schema (emit ev s) = c_schema s"
  "c_audit (emit ev s) = c_audit s" "c_rl (emit ev s) = c_rl s"
  "c_replay (emit ev s) = c_replay s" "c_jwt (emit ev s) = c_jwt s"
  "c_attestors (emit ev s) = c_attestors s" "c_attest (emit ev s) = c_attest s"
  "c_tracing (emit ev s) = c_tracing s" "c_sessions (emit ev s) = c_sessions s"
  "c_kyc (emit ev s) = c_kyc s" "c_quotes (emit ev s) = c_quotes s"
  "c_txs (emit ev s) = c_txs s" "c_anchors (emit ev s) = c_anchors s"
  "c_events (emit ev s) = c_events s @ [ev]"
  by (simp_all add: emit_def)

text \<open>\<open>AdminAuditLog::log_action\<close> on the contract's storage.\<close>

definition audit_action ::
    "env \<Rightarrow> address \<Rightarrow> string \<Rightarrow> string \<Rightarrow> string \<Rightarrow> string \<Rightarrow> contract \<Rightarrow> trap + contract" where
  "audit_action e admin change_type target old_value new_value s =
     bind_ok (log_action e admin change_type target old_value new_value (c_audit s))
       (\<lambda>au. Inr (s\<lparr>c_audit := au\<rparr>))"

lemma audit_action_Inr [ok_simps]:
  "audit_action e a ct t ov nv s = Inr s' \<longleftrightarrow>
     (\<exists>au. log_action e a ct t ov nv (c_audit s) = Inr au \<and> s' = s\<lparr>c_audit := au\<rparr>)"
  by (auto simp: audit_action_def bind_ok_Inr)

end
