(* ===== verification/Contract_Access.thy ===== *)
theory Contract_Access
  imports Contract_State
begin

text \<open>
  Administration of the contract (\<^verbatim>\<open>src/contract.rs\<close>): initialisation, the two-step transfer of
  the administrator, roles and capabilities and the checks that use them, contract versions,
  the rate limit configuration, and the SEP-10 keys and settings.
\<close>

section \<open>Checks\<close>

definition get_admin :: "contract \<Rightarrow> trap + address" where
  "get_admin s = of_option (Panic NotInitialized) (acc_admin (c_access s))"

definition require_admin :: "env \<Rightarrow> contract \<Rightarrow> trap + unit" where
  "require_admin e s = bind_ok (get_admin s) (require_auth e)"

primrec role_name :: "admin_role \<Rightarrow> string" where
  "role_name KycAdmin = ''KycAdmin''"
| "role_name AttestorAdmin = ''AttestorAdmin''"
| "role_name CacheAdmin = ''CacheAdmin''"

primrec capability_name :: "admin_capability \<Rightarrow> string" where
  "capability_name UpgradeContract = ''UpgradeContract''"
| "capability_name MigrateSchema = ''MigrateSchema''"
| "capability_name SetCacheConfig = ''SetCacheConfig''"
| "capability_name ManageAttestors = ''ManageAttestors''"
| "capability_name ManageKyc = ''ManageKyc''"
| "capability_name ManageCacheEntries = ''ManageCacheEntries''"
| "capability_name ToggleServices = ''ToggleServices''"
| "capability_name SetRateLimits = ''SetRateLimits''"
| "capability_name SetJwtConfig = ''SetJwtConfig''"
| "capability_name ManageAnchorMetadata = ''ManageAnchorMetadata''"

definition has_role :: "contract \<Rightarrow> address \<Rightarrow> admin_role \<Rightarrow> bool" where
  "has_role s a role \<longleftrightarrow>
     (if acc_admin (c_access s) = Some a then True
      else get_or False (acc_roles (c_access s) (role, a)))"

definition has_capability :: "contract \<Rightarrow> address \<Rightarrow> admin_capability \<Rightarrow> bool" where
  "has_capability s a cap \<longleftrightarrow>
     (if acc_admin (c_access s) = Some a then True
      else get_or False (acc_caps (c_access s) (cap, a)))"

definition require_admin_or_role :: "env \<Rightarrow> address \<Rightarrow> admin_role \<Rightarrow> contract \<Rightarrow> trap + unit" where
  "require_admin_or_role e caller role s =
     (if \<not> has_role s caller role then Inl (Panic Unauthorized) else require_auth e caller)"

definition require_admin_or_capability ::
    "env \<Rightarrow> address \<Rightarrow> admin_capability \<Rightarrow> contract \<Rightarrow> trap + unit" where
  "require_admin_or_capability e caller cap s =
     (if \<not> has_capability s caller cap then Inl (Panic Unauthorized) else require_auth e caller)"

lemma require_admin_Inr [ok_simps]:
  "require_admin e s = Inr u \<longleftrightarrow> (\<exists>a. acc_admin (c_access s) = Some a \<and> a \<in> auths e)"
  by (simp add: require_admin_def get_admin_def ok_simps)

lemma get_admin_Inr [ok_simps]: "get_admin s = Inr a \<longleftrightarrow> acc_admin (c_access s) = Some a"
  by (simp add: get_admin_def ok_simps)

lemma require_admin_or_role_Inr [ok_simps]:
  "require_admin_or_role e c r s = Inr u \<longleftrightarrow> has_role s c r \<and> c \<in> auths e"
  by (simp add: require_admin_or_role_def ok_simps)

lemma require_admin_or_capability_Inr [ok_simps]:
  "require_admin_or_capability e c r s = Inr u \<longleftrightarrow> has_capability s c r \<and> c \<in> auths e"
  by (simp add: require_admin_or_capability_def ok_simps)

abbreviation with_access :: "(access_store \<Rightarrow> access_store) \<Rightarrow> contract \<Rightarrow> contract" where
  "with_access f s \<equiv> s\<lparr>c_access := f (c_access s)\<rparr>"

section \<open>Initialisation and transfer of the administrator\<close>

definition initialize :: "env \<Rightarrow> address \<Rightarrow> contract \<Rightarrow> trap + contract" where
  "initialize e admin s =
     bind_ok (require_auth e admin) (\<lambda>_.
       if acc_initialized (c_access s) then Inl (Panic AlreadyInitialized)
       else
         let s1 = with_access (\<lambda>a. a\<lparr>acc_initialized := True, acc_admin := Some admin\<rparr>) s in
         case set_version SCHEMA_V1 (c_schema s1) of
           Inl _ \<Rightarrow> Inl (Panic IllegalTransition)
         | Inr sch \<Rightarrow> Inr (emit (EvContractInit admin (timestamp e)) (s1\<lparr>c_schema := sch\<rparr>)))"

definition propose_admin_transfer :: "env \<Rightarrow> address \<Rightarrow> contract \<Rightarrow> trap + contract" where
  "propose_admin_transfer e new_admin s =
     bind_ok (require_admin e s) (\<lambda>_.
       Inr (emit (EvAdminProposed new_admin)
              (with_access (\<lambda>a. a\<lparr>acc_pending := Some new_admin\<rparr>) s)))"

definition accept_admin_transfer :: "env \<Rightarrow> contract \<Rightarrow> trap + contract" where
  "accept_admin_transfer e s =
     bind_ok (of_option (Panic NotInitialized) (acc_pending (c_access s))) (\<lambda>new_admin.
     bind_ok (require_auth e new_admin) (\<lambda>_.
       Inr (emit (EvAdminAccepted new_admin)
              (with_access (\<lambda>a. a\<lparr>acc_admin := Some new_admin, acc_pending := None\<rparr>) s))))"

section \<open>Roles and capabilities\<close>

definition grant_role :: "env \<Rightarrow> address \<Rightarrow> admin_role \<Rightarrow> contract \<Rightarrow> trap + contract" where
  "grant_role e grantee role s =
     bind_ok (require_admin e s) (\<lambda>_.
       let s1 = with_access (\<lambda>a. a\<lparr>acc_roles := (acc_roles a)((role, grantee) \<mapsto> True)\<rparr>) s in
     bind_ok (get_admin s1) (\<lambda>admin.
     bind_ok (audit_action e admin ''grant_role'' grantee '''' (role_name role) s1) (\<lambda>s2.
       Inr (emit (EvRoleGranted grantee (role_u32 role)) s2))))"

definition revoke_role :: "env \<Rightarrow> address \<Rightarrow> admin_role \<Rightarrow> contract \<Rightarrow> trap + contract" where
  "revoke_role e grantee role s =
     bind_ok (require_admin e s) (\<lambda>_.
       let s1 = with_access (\<lambda>a. a\<lparr>acc_roles := (acc_roles a)((role, grantee) := None)\<rparr>) s in
     bind_ok (get_admin s1) (\<lambda>admin.
     bind_ok (audit_action e admin ''revoke_role'' grantee (role_name role) '''' s1) (\<lambda>s2.
       Inr (emit (EvRoleRevoked grantee (role_u32 role)) s2))))"

definition grant_capability :: "env \<Rightarrow> address \<Rightarrow> admin_capability \<Rightarrow> contract \<Rightarrow> trap + contract" where
  "grant_capability e grantee cap s =
     bind_ok (require_admin e s) (\<lambda>_.
       let s1 = with_access (\<lambda>a. a\<lparr>acc_caps := (acc_caps a)((cap, grantee) \<mapsto> True)\<rparr>) s in
     bind_ok (get_admin s1) (\<lambda>admin.
     bind_ok (audit_action e admin ''grant_capability'' grantee '''' (capability_name cap) s1) (\<lambda>s2.
       Inr (emit (EvCapGranted grantee (capability_u32 cap)) s2))))"

definition revoke_capability :: "env \<Rightarrow> address \<Rightarrow> admin_capability \<Rightarrow> contract \<Rightarrow> trap + contract" where
  "revoke_capability e grantee cap s =
     bind_ok (require_admin e s) (\<lambda>_.
       let s1 = with_access (\<lambda>a. a\<lparr>acc_caps := (acc_caps a)((cap, grantee) := None)\<rparr>) s in
     bind_ok (get_admin s1) (\<lambda>admin.
     bind_ok (audit_action e admin ''revoke_capability'' grantee (capability_name cap) '''' s1) (\<lambda>s2.
       Inr (emit (EvCapRevoked grantee (capability_u32 cap)) s2))))"

section \<open>Versions and upgrades\<close>

definition get_version :: "contract \<Rightarrow> contract_version" where
  "get_version s = get_or \<lparr>cv_major = 0, cv_minor = 1, cv_patch = 0, cv_upgraded_at = 0\<rparr>
     (acc_version (c_access s))"

definition bump_patch :: "contract_version \<Rightarrow> u64 \<Rightarrow> trap + contract_version" where
  "bump_patch v upgraded_at =
     bind_ok (plus_trap (cv_patch v) 1) (\<lambda>patch.
       Inr (v\<lparr>cv_patch := patch, cv_upgraded_at := upgraded_at\<rparr>))"

definition zero_hash :: bytes where
  "zero_hash = replicate 32 (CHR 0x00)"

definition upgrade :: "env \<Rightarrow> bytes \<Rightarrow> contract \<Rightarrow> trap + contract" where
  "upgrade e new_wasm_hash s =
     (if \<not> acc_initialized (c_access s) then Inl (Panic NotInitialized)
      else bind_ok (require_admin e s) (\<lambda>_.
        if new_wasm_hash = zero_hash then Inl (Panic ValidationError)
        else
          let old_hash = get_or zero_hash (acc_old_hash (c_access s));
              s1 = with_access (\<lambda>a. a\<lparr>acc_wasm := Some new_wasm_hash\<rparr>) s in
          bind_ok (bump_patch (get_version s) (timestamp e)) (\<lambda>v.
            let s2 = with_access (\<lambda>a. a\<lparr>acc_version := Some v, acc_old_hash := Some new_wasm_hash\<rparr>) s1 in
          bind_ok (get_admin s2) (\<lambda>admin.
          bind_ok (audit_action e admin ''upgrade'' ''contract'' '''' ''wasm_updated'' s2) (\<lambda>s3.
            Inr (emit (EvUpgraded old_hash new_wasm_hash (cv_major v) (cv_minor v) (cv_patch v)
                   (timestamp e)) s3))))))"

section \<open>Rate limit configuration\<close>

definition set_rate_limit_config :: "env \<Rightarrow> address \<Rightarrow> u32 \<Rightarrow> u32 \<Rightarrow> contract \<Rightarrow> trap + contract" where
  "set_rate_limit_config e caller max_sub len s =
     bind_ok (require_admin_or_capability e caller SetRateLimits s) (\<lambda>_.
       case update_config (acc_admin (c_access s)) caller
              \<lparr>max_submissions = max_sub, window_length = len\<rparr> (c_rl s) of
         Inl _ \<Rightarrow> Inl (Panic ValidationError)
       | Inr rl \<Rightarrow>
           audit_action e caller ''set_rate_limit_config'' ''rate_limiter'' '''' ''updated''
             (s\<lparr>c_rl := rl\<rparr>))"

definition set_role_rate_limit ::
    "env \<Rightarrow> address \<Rightarrow> string \<Rightarrow> rate_limit_config \<Rightarrow> contract \<Rightarrow> trap + contract" where
  "set_role_rate_limit e caller role config s =
     bind_ok (require_admin_or_capability e caller SetRateLimits s) (\<lambda>_.
       case validate_config config of
         Inl _ \<Rightarrow> Inl (Panic ValidationError)
       | Inr _ \<Rightarrow>
           audit_action e caller ''set_role_rate_limit'' ''role'' '''' ''updated''
             (s\<lparr>c_rl := set_role_override role config (c_rl s)\<rparr>))"

definition set_address_rate_limit ::
    "env \<Rightarrow> address \<Rightarrow> address \<Rightarrow> rate_limit_config \<Rightarrow> contract \<Rightarrow> trap + contract" where
  "set_address_rate_limit e caller addr config s =
     bind_ok (require_admin_or_capability e caller SetRateLimits s) (\<lambda>_.
       case validate_config config of
         Inl _ \<Rightarrow> Inl (Panic ValidationError)
       | Inr _ \<Rightarrow>
           audit_action e caller ''set_address_rate_limit'' ''address'' '''' ''updated''
             (s\<lparr>c_rl := set_address_override addr config (c_rl s)\<rparr>))"

section \<open>SEP-10 keys and settings\<close>

abbreviation with_attestors :: "(attestor_store \<Rightarrow> attestor_store) \<Rightarrow> contract \<Rightarrow> contract" where
  "with_attestors f s \<equiv> s\<lparr>c_attestors := f (c_attestors s)\<rparr>"

definition set_sep10_jwt_verifying_key :: "env \<Rightarrow> address \<Rightarrow> bytes \<Rightarrow> contract \<Rightarrow> trap + contract" where
  "set_sep10_jwt_verifying_key e issuer public_key s =
     bind_ok (require_admin e s) (\<lambda>_.
       if length public_key \<noteq> 32 then Inl (Panic ValidationError)
       else Inr (with_attestors
              (\<lambda>a. a\<lparr>ats_sep10_key := (ats_sep10_key a)(issuer \<mapsto> public_key)\<rparr>) s))"

definition rotate_sep10_key :: "env \<Rightarrow> address \<Rightarrow> bytes \<Rightarrow> contract \<Rightarrow> trap + contract" where
  "rotate_sep10_key e issuer new_public_key s =
     bind_ok (require_admin e s) (\<lambda>_.
       if length new_public_key \<noteq> 32 then Inl (Panic ValidationError)
       else
         let s1 = (case ats_sep10_key (c_attestors s) issuer of
                     None \<Rightarrow> s
                   | Some old_key \<Rightarrow>
                       with_attestors
                         (\<lambda>a. a\<lparr>ats_sep10_old := (ats_sep10_old a)(issuer \<mapsto> old_key)\<rparr>) s)
         in Inr (emit (EvKeyRotated issuer)
              (with_attestors
                (\<lambda>a. a\<lparr>ats_sep10_key := (ats_sep10_key a)(issuer \<mapsto> new_public_key)\<rparr>) s1)))"

definition set_jwt_max_len :: "env \<Rightarrow> u32 \<Rightarrow> contract \<Rightarrow> trap + contract" where
  "set_jwt_max_len e max_len s =
     bind_ok (require_admin e s) (\<lambda>_.
       if max_len < MIN_JWT_MAX_LEN \<or> MAX_JWT_MAX_LEN < max_len then Inl (Panic ValidationError)
       else Inr (s\<lparr>c_jwt := (c_jwt s)\<lparr>jw_max_len := Some max_len\<rparr>\<rparr>))"

definition set_jwt_skew :: "env \<Rightarrow> u64 \<Rightarrow> contract \<Rightarrow> trap + contract" where
  "set_jwt_skew e skew s =
     bind_ok (require_admin e s) (\<lambda>_.
       if 300 < skew then Inl (Panic ValidationError)
       else Inr (s\<lparr>c_jwt := (c_jwt s)\<lparr>jw_skew := Some skew\<rparr>\<rparr>))"

text \<open>\<open>verify_sep10_token\<close>, with the subject to expect for the two variants that check one.\<close>

definition verify_sep10_token ::
    "env \<Rightarrow> string \<Rightarrow> address \<Rightarrow> string option \<Rightarrow> contract \<Rightarrow> trap + contract" where
  "verify_sep10_token e token issuer expected s =
     bind_ok (of_option (Panic InvalidSep10Token) (ats_sep10_key (c_attestors s) issuer)) (\<lambda>pk.
     bind_ok (verify_sep10_jwt e (c_jwt s) token pk expected) (\<lambda>r.
       case r of
         None \<Rightarrow> Inl (Panic InvalidSep10Token)
       | Some jwt \<Rightarrow> Inr (s\<lparr>c_jwt := jwt\<rparr>)))"

text \<open>\<open>purge_expired_jtis\<close> keeps the indexed keys that are still stored.  No operation appends to the
  index.\<close>

definition purge_expired_jtis :: "env \<Rightarrow> contract \<Rightarrow> trap + contract" where
  "purge_expired_jtis e s =
     bind_ok (require_admin e s) (\<lambda>_.
       let keys = get_or [] (jw_index (c_jwt s));
           live = filter (jw_used (c_jwt s)) keys
       in if length live < length keys
          then Inr (s\<lparr>c_jwt := (c_jwt s)\<lparr>jw_index := Some live\<rparr>\<rparr>)
          else Inr s)"

section \<open>Properties\<close>

lemma write_event_audit_inv:
  "log_action e a ct t ov nv au = Inr au' \<Longrightarrow> audit_inv au \<Longrightarrow> audit_inv au'"
  by (auto simp: log_action_def intro: write_event_inv)

text \<open>
  A delegated rate limit capability does not work for the global configuration: the entry
  point admits its holder, but \<open>update_config\<close> then insists on the administrator, so the call
  never succeeds for anyone else.
\<close>

theorem delegated_rate_limit_config_fails:
  assumes "acc_admin (c_access s) \<noteq> Some caller"
  shows "\<exists>t. set_rate_limit_config e caller max_sub len s = Inl t"
  using assms
  by (cases "acc_admin (c_access s)")
    (auto simp: set_rate_limit_config_def update_config_def only_admin_def
      require_admin_or_capability_def require_auth_def require_def)

theorem delegated_rate_limit_config_fails_witness:
  "has_capability (with_access (\<lambda>a. a\<lparr>acc_admin := Some ''ADMIN'',
       acc_caps := [(SetRateLimits, ''OPS'') \<mapsto> True]\<rparr>) fresh_contract) ''OPS'' SetRateLimits \<and>
   (\<exists>t. set_rate_limit_config (accepting_env 9 1 {''OPS''}) ''OPS'' 5 5
      (with_access (\<lambda>a. a\<lparr>acc_admin := Some ''ADMIN'', acc_caps := [(SetRateLimits, ''OPS'') \<mapsto> True]\<rparr>)
        fresh_contract) = Inl t)"
  using delegated_rate_limit_config_fails [of "with_access (\<lambda>a. a\<lparr>acc_admin := Some ''ADMIN'',
       acc_caps := [(SetRateLimits, ''OPS'') \<mapsto> True]\<rparr>) fresh_contract" "''OPS''" "accepting_env 9 1 {''OPS''}" 5 5]
  by (simp add: has_capability_def)

end
