(* ===== verification/Contract_Attestors.thy ===== *)
theory Contract_Attestors
  imports Contract_Access
begin

text \<open>
  Attestor registration of \<^verbatim>\<open>src/contract.rs\<close>: the capacity configuration, registration with a
  SEP-10 token, revocation and reactivation.
\<close>

section \<open>Queries\<close>

definition default_capacity :: capacity_config where
  "default_capacity = \<lparr>max_attestors = 1000, max_cache_entries = 10000\<rparr>"

definition set_capacity_config :: "env \<Rightarrow> capacity_config \<Rightarrow> contract \<Rightarrow> trap + contract" where
  "set_capacity_config e config s =
     bind_ok (require_admin e s) (\<lambda>_.
       Inr (with_attestors (\<lambda>a. a\<lparr>ats_capacity := Some config\<rparr>) s))"

definition get_capacity_config :: "contract \<Rightarrow> capacity_config" where
  "get_capacity_config s = get_or default_capacity (ats_capacity (c_attestors s))"

definition get_attestor_count :: "contract \<Rightarrow> u64" where
  "get_attestor_count s = get_or 0 (ats_count (c_attestors s))"

definition list_registered_attestors :: "contract \<Rightarrow> address list" where
  "list_registered_attestors s = get_or [] (ats_list (c_attestors s))"

definition get_attestor_revocation_info :: "contract \<Rightarrow> address \<Rightarrow> attestor_revocation_record option" where
  "get_attestor_revocation_info s a = ats_revocation (c_attestors s) a"

definition is_attestor :: "contract \<Rightarrow> address \<Rightarrow> bool" where
  "is_attestor s a = get_or False (ats_registered (c_attestors s) a)"

definition check_attestor :: "address \<Rightarrow> contract \<Rightarrow> trap + unit" where
  "check_attestor a s =
     (if ats_registered (c_attestors s) a = None
      then if ats_revocation (c_attestors s) a \<noteq> None then Inl (Panic AttestorRevoked)
           else Inl (Panic AttestorNotRegistered)
      else Inr ())"

lemma check_attestor_Inr [ok_simps]:
  "check_attestor a s = Inr u \<longleftrightarrow> ats_registered (c_attestors s) a \<noteq> None"
  by (simp add: check_attestor_def)

section \<open>Registration\<close>

text \<open>The list is appended to unless it contains the attestor; \<open>remove1\<close> is \<open>first_index_of\<close>
  followed by \<open>remove\<close>.\<close>

definition list_add :: "address \<Rightarrow> attestor_store \<Rightarrow> attestor_store" where
  "list_add a st =
     (let xs = get_or [] (ats_list st) in
      if a \<in> set xs then st else st\<lparr>ats_list := Some (xs @ [a])\<rparr>)"

definition list_remove :: "address \<Rightarrow> attestor_store \<Rightarrow> attestor_store" where
  "list_remove a st =
     (let xs = get_or [] (ats_list st) in
      if a \<in> set xs then st\<lparr>ats_list := Some (remove1 a xs)\<rparr> else st)"

definition add_attestor :: "address \<Rightarrow> bytes \<Rightarrow> u64 \<Rightarrow> attestor_store \<Rightarrow> attestor_store" where
  "add_attestor attestor public_key count st =
     list_add attestor
       (st\<lparr>ats_registered := (ats_registered st)(attestor \<mapsto> True),
           ats_public_key := (ats_public_key st)(attestor \<mapsto> public_key),
           ats_count := Some count\<rparr>)"

definition register_attestor ::
    "env \<Rightarrow> address \<Rightarrow> string \<Rightarrow> address \<Rightarrow> bytes \<Rightarrow> contract \<Rightarrow> trap + contract" where
  "register_attestor e attestor sep10_token sep10_issuer public_key s =
     (if sep10_token = [] then Inl (Panic ValidationError)
      else bind_ok
        (if \<not> has_role s attestor AttestorAdmin \<and> \<not> has_capability s attestor ManageAttestors
         then require_admin e s else require_auth e attestor) (\<lambda>_.
      bind_ok (verify_sep10_token e sep10_token sep10_issuer (Some attestor) s) (\<lambda>s1.
        let current_count = get_attestor_count s1 in
        if max_attestors (get_capacity_config s1) \<le> current_count
        then Inl (Panic AttestorCapacityExceeded)
        else if ats_registered (c_attestors s1) attestor \<noteq> None
        then Inl (Panic AttestorAlreadyRegistered)
        else bind_ok (plus_trap current_count 1) (\<lambda>count.
          let s2 = with_attestors (add_attestor attestor public_key count) s1 in
          bind_ok (get_admin s2) (\<lambda>admin.
          bind_ok (audit_action e admin ''register_attestor'' attestor '''' ''registered'' s2) (\<lambda>s3.
            Inr (emit (EvAttestorAdded attestor (timestamp e)) s3)))))))"

section \<open>Revocation and reactivation\<close>

text \<open>The storage part of a revocation: the attestor's entries go, the revocation record comes, and
  the counter and the list are touched only while the counter is positive.\<close>

definition drop_attestor ::
    "env \<Rightarrow> address \<Rightarrow> address \<Rightarrow> bytes \<Rightarrow> attestor_store \<Rightarrow> attestor_store" where
  "drop_attestor e attestor admin public_key st =
     (let record = \<lparr>rv_attestor = attestor, rv_revoked_at = timestamp e, rv_revoked_by = admin,
                    rv_reason = [], rv_public_key = public_key, rv_reactivated = False,
                    rv_reactivated_at = 0\<rparr>;
          st' = st\<lparr>ats_registered := (ats_registered st)(attestor := None),
                   ats_public_key := (ats_public_key st)(attestor := None),
                   ats_revocation := (ats_revocation st)(attestor \<mapsto> record)\<rparr>;
          current_count = get_or 0 (ats_count st')
      in if 0 < current_count
         then list_remove attestor (st'\<lparr>ats_count := Some (current_count - 1)\<rparr>)
         else st')"

definition restore_attestor ::
    "env \<Rightarrow> address \<Rightarrow> attestor_revocation_record \<Rightarrow> u64 \<Rightarrow> attestor_store \<Rightarrow> attestor_store" where
  "restore_attestor e attestor record count st =
     list_add attestor
       (st\<lparr>ats_registered := (ats_registered st)(attestor \<mapsto> True),
           ats_public_key := (ats_public_key st)(attestor \<mapsto> rv_public_key record),
           ats_revocation := (ats_revocation st)(attestor \<mapsto>
             record\<lparr>rv_reactivated := True, rv_reactivated_at := timestamp e\<rparr>),
           ats_count := Some count\<rparr>)"

text \<open>The first audit entry is written before the attestor is looked up.\<close>

definition revoke_attestor :: "env \<Rightarrow> address \<Rightarrow> contract \<Rightarrow> trap + contract" where
  "revoke_attestor e attestor s =
     bind_ok (require_admin e s) (\<lambda>_.
     bind_ok (get_admin s) (\<lambda>admin0.
     bind_ok (audit_action e admin0 ''revoke_attestor'' attestor ''registered'' ''revoked'' s) (\<lambda>s1.
       if ats_registered (c_attestors s1) attestor = None then Inl (Panic AttestorNotRegistered)
       else bind_ok (of_option (Panic AttestorNotRegistered) (ats_public_key (c_attestors s1) attestor))
         (\<lambda>public_key.
         let already_revoked =
               (case ats_revocation (c_attestors s1) attestor of
                  None \<Rightarrow> False | Some r \<Rightarrow> \<not> rv_reactivated r) in
         bind_ok (get_admin s1) (\<lambda>admin.
           let s3 = with_attestors (drop_attestor e attestor admin public_key) s1 in
           bind_ok (audit_action e admin ''revoke_attestor'' attestor ''registered'' ''revoked'' s3) (\<lambda>s4.
             Inr (if already_revoked then s4
                  else emit (EvAttestorRemoved attestor admin (timestamp e)) s4)))))))"

definition reactivate_attestor :: "env \<Rightarrow> address \<Rightarrow> contract \<Rightarrow> trap + contract" where
  "reactivate_attestor e attestor s =
     bind_ok (require_admin e s) (\<lambda>_.
       if ats_registered (c_attestors s) attestor \<noteq> None then Inl (Panic AttestorAlreadyRegistered)
       else bind_ok (of_option (Panic AttestorNotRegistered) (ats_revocation (c_attestors s) attestor))
         (\<lambda>record.
         bind_ok (plus_trap (get_attestor_count s) 1) (\<lambda>count.
           let s2 = with_attestors (restore_attestor e attestor record count) s in
         bind_ok (get_admin s2) (\<lambda>admin.
         bind_ok (audit_action e admin ''reactivate_attestor'' attestor ''revoked'' ''registered'' s2) (\<lambda>s3.
           Inr (emit (EvAttestorRestored attestor admin (timestamp e)) s3))))))"

section \<open>Invariant\<close>

text \<open>
  An attestor is registered exactly if it has a public key, the list holds no duplicates, and
  every registered attestor is listed.  (Listed attestors need not be registered, and the counter
  need not be the length of the list: see \<open>revoked_attestor_stays_listed\<close> in
  \<open>Contract_Sessions\<close>.)
\<close>

definition attestor_inv :: "attestor_store \<Rightarrow> bool" where
  "attestor_inv st \<longleftrightarrow>
     (\<forall>a. ats_registered st a = None \<longleftrightarrow> ats_public_key st a = None) \<and>
     (\<forall>a. ats_registered st a \<noteq> Some False) \<and>
     distinct (get_or [] (ats_list st)) \<and>
     (\<forall>a. ats_registered st a \<noteq> None \<longrightarrow> a \<in> set (get_or [] (ats_list st)))"

lemma list_add_simps [simp]:
  "ats_registered (list_add a st) = ats_registered st"
  "ats_public_key (list_add a st) = ats_public_key st"
  "ats_revocation (list_add a st) = ats_revocation st"
  "ats_count (list_add a st) = ats_count st"
  "get_or [] (ats_list (list_add a st)) = push_new a (get_or [] (ats_list st))"
  by (simp_all add: list_add_def Let_def push_new_def)

lemma list_remove_simps [simp]:
  "ats_registered (list_remove a st) = ats_registered st"
  "ats_public_key (list_remove a st) = ats_public_key st"
  "ats_revocation (list_remove a st) = ats_revocation st"
  "ats_count (list_remove a st) = ats_count st"
  "get_or [] (ats_list (list_remove a st)) = remove1 a (get_or [] (ats_list st))"
  by (simp_all add: list_remove_def Let_def remove1_idem)

lemma drop_attestor_simps [simp]:
  "ats_registered (drop_attestor e a admin pk st) = (ats_registered st)(a := None)"
  "ats_public_key (drop_attestor e a admin pk st) = (ats_public_key st)(a := None)"
  "ats_revocation (drop_attestor e a admin pk st) = (ats_revocation st)(a \<mapsto>
     \<lparr>rv_attestor = a, rv_revoked_at = timestamp e, rv_revoked_by = admin, rv_reason = [],
      rv_public_key = pk, rv_reactivated = False, rv_reactivated_at = 0\<rparr>)"
  "get_or 0 (ats_count (drop_attestor e a admin pk st)) =
     (if 0 < get_or 0 (ats_count st) then get_or 0 (ats_count st) - 1 else 0)"
  "get_or [] (ats_list (drop_attestor e a admin pk st)) =
     (if 0 < get_or 0 (ats_count st) then remove1 a (get_or [] (ats_list st)) else get_or [] (ats_list st))"
  by (simp_all add: drop_attestor_def Let_def word_gt_0)

lemma restore_attestor_simps [simp]:
  "ats_registered (restore_attestor e a r n st) = (ats_registered st)(a \<mapsto> True)"
  "ats_public_key (restore_attestor e a r n st) = (ats_public_key st)(a \<mapsto> rv_public_key r)"
  "ats_count (restore_attestor e a r n st) = Some n"
  "get_or [] (ats_list (restore_attestor e a r n st)) = push_new a (get_or [] (ats_list st))"
  by (simp_all add: restore_attestor_def)

lemma verify_sep10_token_frame:
  assumes "verify_sep10_token e token issuer expected s = Inr s'"
  shows "\<exists>jwt. s' = s\<lparr>c_jwt := jwt\<rparr>"
  using assms by (auto simp: verify_sep10_token_def ok_simps split: option.splits)

lemma add_attestor_inv: "attestor_inv st \<Longrightarrow> attestor_inv (add_attestor a pk n st)"
  by (auto simp: add_attestor_def attestor_inv_def)

lemma drop_attestor_inv: "attestor_inv st \<Longrightarrow> attestor_inv (drop_attestor e a admin pk st)"
  by (auto simp: drop_attestor_def attestor_inv_def Let_def)

lemma restore_attestor_inv: "attestor_inv st \<Longrightarrow> attestor_inv (restore_attestor e a r n st)"
  by (auto simp: restore_attestor_def attestor_inv_def)

lemma register_attestor_ok:
  assumes "register_attestor e a tok iss pk s = Inr s'"
  shows "\<exists>s1 admin au. verify_sep10_token e tok iss (Some a) s = Inr s1 \<and>
    acc_admin (c_access s) = Some admin \<and> (a \<in> auths e \<or> admin \<in> auths e) \<and>
    unat (get_attestor_count s) < unat (max_attestors (get_capacity_config s)) \<and>
    ats_registered (c_attestors s) a = None \<and>
    log_action e admin ''register_attestor'' a '''' ''registered'' (c_audit s) = Inr au \<and>
    s' = emit (EvAttestorAdded a (timestamp e))
      ((with_attestors (add_attestor a pk (get_attestor_count s + 1)) s1)\<lparr>c_audit := au\<rparr>)"
proof -
  from assms obtain s1 where s1: "verify_sep10_token e tok iss (Some a) s = Inr s1"
    and auth: "(if \<not> has_role s a AttestorAdmin \<and> \<not> has_capability s a ManageAttestors
         then require_admin e s else require_auth e a) = Inr ()"
    unfolding register_attestor_def by (auto simp: bind_ok_Inr split: if_splits)
  then obtain jwt where jwt: "s1 = s\<lparr>c_jwt := jwt\<rparr>" using verify_sep10_token_frame by blast
  then have same: "get_attestor_count s1 = get_attestor_count s" "get_capacity_config s1 = get_capacity_config s"
      "c_attestors s1 = c_attestors s" "c_access s1 = c_access s" "c_audit s1 = c_audit s"
    by (simp_all add: get_attestor_count_def get_capacity_config_def)
  from auth have auth': "a \<in> auths e \<or> (\<exists>admin. acc_admin (c_access s) = Some admin \<and> admin \<in> auths e)"
    by (auto simp: ok_simps split: if_splits)
  from assms s1 auth show ?thesis
    unfolding register_attestor_def
    by (simp add: Let_def ok_simps same split: if_split_asm)
      (use auth' in \<open>auto simp: word_less_nat_alt word_le_nat_alt\<close>)
qed

lemma revoke_attestor_ok:
  assumes "revoke_attestor e a s = Inr s'"
  shows "\<exists>admin pk. acc_admin (c_access s) = Some admin \<and> admin \<in> auths e \<and>
    ats_registered (c_attestors s) a \<noteq> None \<and> ats_public_key (c_attestors s) a = Some pk \<and>
    c_attestors s' = drop_attestor e a admin pk (c_attestors s)"
proof -
  have emit_if: "c_attestors (if b then x else emit ev x) = c_attestors x" for b x ev by simp
  from assms show ?thesis
    unfolding revoke_attestor_def Let_def ok_simps
    by (elim exE conjE, hypsubst) (clarsimp simp: emit_if split del: if_split)
qed

lemma reactivate_attestor_ok:
  assumes "reactivate_attestor e a s = Inr s'"
  shows "\<exists>admin rec. acc_admin (c_access s) = Some admin \<and> admin \<in> auths e \<and>
    ats_registered (c_attestors s) a = None \<and> ats_revocation (c_attestors s) a = Some rec \<and>
    c_attestors s' = restore_attestor e a rec (get_attestor_count s + 1) (c_attestors s)"
  using assms unfolding reactivate_attestor_def Let_def ok_simps
  by (elim exE conjE, hypsubst) clarsimp

end
