(* ===== verification/Contract_Attestations.thy ===== *)
theory Contract_Attestations
  imports Contract_Attestors
begin

text \<open>
  Attestations of \<^verbatim>\<open>src/contract.rs\<close>: the checks in front of a submission, the record with
  its consecutive identifier and index, the four entry points without a session, and the queries.
\<close>

section \<open>Checks\<close>

abbreviation with_attest :: "(attestation_store \<Rightarrow> attestation_store) \<Rightarrow> contract \<Rightarrow> contract" where
  "with_attest f s \<equiv> s\<lparr>c_attest := f (c_attest s)\<rparr>"

definition verify_attestation_signature ::
    "env \<Rightarrow> address \<Rightarrow> bytes \<Rightarrow> bytes \<Rightarrow> contract \<Rightarrow> trap + unit" where
  "verify_attestation_signature e issuer payload_hash signature s =
     bind_ok (of_option (Panic UnauthorizedAttestor) (ats_public_key (c_attestors s) issuer)) (\<lambda>pk.
       if length signature \<noteq> 64 then Inl (Panic SignatureVerificationFailed)
       else if ed25519_verify e pk payload_hash signature then Inr () else Inl HostTrap)"

definition check_timestamp :: "u64 \<Rightarrow> trap + unit" where
  "check_timestamp ts = (if ts = 0 then Inl (Panic InvalidTimestamp) else Inr ())"

text \<open>The first of the three roles that the attestor holds selects the role override.\<close>

definition rate_limit_role :: "contract \<Rightarrow> address \<Rightarrow> string option" where
  "rate_limit_role s attestor =
     map_option role_name (find (has_role s attestor) [KycAdmin, AttestorAdmin, CacheAdmin])"

definition enforce_rate_limit :: "env \<Rightarrow> address \<Rightarrow> contract \<Rightarrow> trap + contract" where
  "enforce_rate_limit e attestor s =
     (let config = resolve_config (c_rl s) attestor (rate_limit_role s attestor) in
      bind_ok (check_and_increment e (acc_admin (c_access s)) attestor config (c_rl s) (c_audit s))
        (\<lambda>(r, rl, au).
           let s1 = s\<lparr>c_rl := rl, c_audit := au\<rparr> in
           case r of
             Inl _ \<Rightarrow>
               (let s2 = emit (EvRateLimitHit attestor (timestamp e) (ledger_seq e)) s1
                in Inl (Panic RateLimitExceeded))
           | Inr _ \<Rightarrow> Inr s1))"

text \<open>A detected replay is recorded and logged, and then the call panics.\<close>

definition refuse_replay :: "env \<Rightarrow> bytes \<Rightarrow> address \<Rightarrow> contract \<Rightarrow> trap + 'a" where
  "refuse_replay e payload_hash issuer s =
     bind_ok (record_replay_detection e payload_hash issuer (c_replay s)) (\<lambda>(ev, replay).
       let s1 = emit (EvReplay ev) (s\<lparr>c_replay := replay\<rparr>) in Inl (Panic ReplayAttack))"

section \<open>Recording\<close>

definition next_attestation_id :: "contract \<Rightarrow> trap + (u64 \<times> contract)" where
  "next_attestation_id s =
     (let n = get_or 0 (att_counter (c_attest s)) in
      if n = word_top then Inl (Panic AttestorCapacityExceeded)
      else bind_ok (plus_trap n 1) (\<lambda>m.
        Inr (n, with_attest (\<lambda>a. a\<lparr>att_counter := Some m\<rparr>) s)))"

definition store_attestation ::
    "u64 \<Rightarrow> address \<Rightarrow> address \<Rightarrow> u64 \<Rightarrow> bytes \<Rightarrow> bytes \<Rightarrow> contract \<Rightarrow> contract" where
  "store_attestation n issuer subject ts payload_hash signature s =
     with_attest (\<lambda>a.
       a\<lparr>att_records := (att_records a)(n \<mapsto>
            \<lparr>at_id = n, at_issuer = issuer, at_subject = subject, at_timestamp = ts,
             at_payload_hash = payload_hash, at_signature = signature,
             at_schema_version = SCHEMA_V1\<rparr>),
         att_index := Some (get_or [] (att_index a) @ [n])\<rparr>) s"

definition mark_used :: "address \<Rightarrow> bytes \<Rightarrow> u64 \<Rightarrow> contract \<Rightarrow> contract" where
  "mark_used issuer payload_hash n s =
     with_attest (\<lambda>a. a\<lparr>att_used := (att_used a)((issuer, payload_hash) \<mapsto> n)\<rparr>) s"

definition accept_event :: "env \<Rightarrow> contract \<Rightarrow> contract" where
  "accept_event e s = s\<lparr>c_replay := record_accepted_event e (c_replay s)\<rparr>"

text \<open>The common core of the single submissions: a fresh identifier, the record, the mark.\<close>

definition record_attestation ::
    "address \<Rightarrow> address \<Rightarrow> u64 \<Rightarrow> bytes \<Rightarrow> bytes \<Rightarrow> contract \<Rightarrow> trap + (u64 \<times> contract)" where
  "record_attestation issuer subject ts payload_hash signature s =
     bind_ok (next_attestation_id s) (\<lambda>(n, s1).
       Inr (n, mark_used issuer payload_hash n
                 (store_attestation n issuer subject ts payload_hash signature s1)))"

section \<open>Entry points\<close>

definition submit_attestation ::
    "env \<Rightarrow> address \<Rightarrow> address \<Rightarrow> u64 \<Rightarrow> bytes \<Rightarrow> bytes \<Rightarrow> contract \<Rightarrow> trap + (u64 \<times> contract)" where
  "submit_attestation e issuer subject ts payload_hash signature s =
     bind_ok (require_auth e issuer) (\<lambda>_.
       if MAX_PAYLOAD_HASH_BYTES < length payload_hash then Inl (Panic ValidationError)
       else
     bind_ok (check_attestor issuer s) (\<lambda>_.
     bind_ok (verify_attestation_signature e issuer payload_hash signature s) (\<lambda>_.
     bind_ok (check_timestamp ts) (\<lambda>_.
       if att_used (c_attest s) (issuer, payload_hash) \<noteq> None
       then refuse_replay e payload_hash issuer s
       else
     bind_ok (enforce_rate_limit e issuer s) (\<lambda>s1.
     bind_ok (record_attestation issuer subject ts payload_hash signature s1) (\<lambda>(n, s2).
       Inr (n, emit (EvAttestRecorded n subject payload_hash ts) (accept_event e s2))))))))"

text \<open>The window of the batch: the global configuration, five slots per entry.\<close>

definition charge_batch :: "env \<Rightarrow> address \<Rightarrow> nat \<Rightarrow> contract \<Rightarrow> trap + contract" where
  "charge_batch e caller batch_size s =
     (let config = get_rl_config (c_rl s);
          slots = sat_mul (of_nat batch_size) BATCH_ATTESTATION_RATE_MULTIPLIER;
          state = get_rl_state e (c_rl s) caller;
          state' = (if is_window_expired (ledger_seq e) (window_start_ledger state) (window_length config)
                    then \<lparr>submission_count = 0, window_start_ledger = ledger_seq e\<rparr> else state)
      in if max_submissions config < sat_add (submission_count state') slots
         then Inl (Panic RateLimitExceeded)
         else Inr (s\<lparr>c_rl := (c_rl s)\<lparr>rl_state := (rl_state (c_rl s))(caller \<mapsto>
                state'\<lparr>submission_count := sat_add (submission_count state') slots\<rparr>)\<rparr>\<rparr>))"

text \<open>The checks of all entries come before the first one is stored.\<close>

definition check_batch_entry :: "env \<Rightarrow> contract \<Rightarrow> attestation_input \<Rightarrow> trap + unit" where
  "check_batch_entry e s entry =
     bind_ok (verify_attestation_signature e (in_issuer entry) (in_payload_hash entry)
                (in_signature entry) s) (\<lambda>_.
     bind_ok (check_timestamp (in_timestamp entry)) (\<lambda>_.
       if att_used (c_attest s) (in_issuer entry, in_payload_hash entry) \<noteq> None
       then Inl (Panic ReplayAttack) else Inr ()))"

definition store_batch_entry ::
    "u64 list \<times> contract \<Rightarrow> attestation_input \<Rightarrow> trap + (u64 list \<times> contract)" where
  "store_batch_entry = (\<lambda>(ids, s) entry.
     bind_ok (record_attestation (in_issuer entry) (in_subject entry) (in_timestamp entry)
                (in_payload_hash entry) (in_signature entry) s) (\<lambda>(n, s1).
       Inr (ids @ [n], s1)))"

definition submit_attestation_batch ::
    "env \<Rightarrow> address \<Rightarrow> attestation_input list \<Rightarrow> contract \<Rightarrow> trap + (u64 list \<times> contract)" where
  "submit_attestation_batch e caller attestations s =
     bind_ok (require_auth e caller) (\<lambda>_.
     bind_ok (check_attestor caller s) (\<lambda>_.
       if MAX_BATCH_SIZE < length attestations then Inl (Panic BatchSizeExceeded)
       else if attestations = [] then Inr ([], s)
       else
     bind_ok (charge_batch e caller (length attestations) s) (\<lambda>s1.
     bind_ok (list_bind (\<lambda>_ entry. check_batch_entry e s1 entry) () attestations) (\<lambda>_.
       list_bind store_batch_entry ([], s1) attestations))))"

text \<open>The status read by the KYC check (\<open>get_kyc_status_internal\<close>).\<close>

definition kyc_of_u32 :: "u32 \<Rightarrow> kyc_status" where
  "kyc_of_u32 n =
     (if n = 0 then NotSubmitted
      else if n = 1 then Pending
      else if n = 2 then Approved
      else if n = 3 then Rejected
      else if n = 4 then KycExpiredStatus
      else if n = 5 then Reopened
      else NotSubmitted)"

definition current_kyc_status :: "env \<Rightarrow> kyc_record \<Rightarrow> kyc_status" where
  "current_kyc_status e record =
     (case ky_expiry record of
        Some expiry \<Rightarrow>
          if expiry < timestamp e then KycExpiredStatus else kyc_of_u32 (ky_status record)
      | None \<Rightarrow> kyc_of_u32 (ky_status record))"

definition get_kyc_status :: "env \<Rightarrow> contract \<Rightarrow> address \<Rightarrow> kyc_status" where
  "get_kyc_status e s subject =
     (case kyc_records (c_kyc s) subject of
        None \<Rightarrow> NotSubmitted
      | Some record \<Rightarrow> current_kyc_status e record)"

definition require_kyc_approved :: "env \<Rightarrow> address \<Rightarrow> contract \<Rightarrow> trap + unit" where
  "require_kyc_approved e subject s =
     (case get_kyc_status e s subject of
        Approved \<Rightarrow> Inr ()
      | Pending \<Rightarrow> Inl (Panic KycPending)
      | Rejected \<Rightarrow> Inl (Panic KycRejected)
      | KycExpiredStatus \<Rightarrow> Inl (Panic KycExpired)
      | NotSubmitted \<Rightarrow> Inl (Panic KycNotFound)
      | _ \<Rightarrow> Inl (Panic ComplianceNotMet))"

definition submit_attestation_kyc_check ::
    "env \<Rightarrow> address \<Rightarrow> address \<Rightarrow> u64 \<Rightarrow> bytes \<Rightarrow> bytes \<Rightarrow> bool \<Rightarrow> contract \<Rightarrow> trap + (u64 \<times> contract)" where
  "submit_attestation_kyc_check e issuer subject ts payload_hash signature require_kyc s =
     bind_ok (require_auth e issuer) (\<lambda>_.
     bind_ok (check_attestor issuer s) (\<lambda>_.
     bind_ok (verify_attestation_signature e issuer payload_hash signature s) (\<lambda>_.
     bind_ok (check_timestamp ts) (\<lambda>_.
     bind_ok (if require_kyc then require_kyc_approved e subject s else Inr ()) (\<lambda>_.
       if att_used (c_attest s) (issuer, payload_hash) \<noteq> None
       then refuse_replay e payload_hash issuer s
       else
     bind_ok (enforce_rate_limit e issuer s) (\<lambda>s1.
     bind_ok (record_attestation issuer subject ts payload_hash signature s1) (\<lambda>(n, s2).
       Inr (n, accept_event e
                 (emit (EvWebhook ''attestation_submitted'' n ts payload_hash)
                   (emit (EvAttestRecorded n subject payload_hash ts) s2))))))))))"

section \<open>Request tracing\<close>

definition store_span_with_parent ::
    "env \<Rightarrow> request_id \<Rightarrow> string \<Rightarrow> address \<Rightarrow> string \<Rightarrow> bytes \<Rightarrow> u32 \<Rightarrow> contract \<Rightarrow> contract" where
  "store_span_with_parent e rid operation actor status parent span_index s =
     s\<lparr>c_tracing := (c_tracing s)\<lparr>tr_spans :=
        temp_put (seq_nat e) SPAN_TTL (tr_spans (c_tracing s)) (rid_id rid)
          \<lparr>sp_request_id = rid, sp_operation = operation, sp_actor = actor,
           sp_started_at = timestamp e, sp_completed_at = timestamp e, sp_status = status,
           sp_parent = parent, sp_span_index = span_index\<rparr>\<rparr>\<rparr>"

definition store_span ::
    "env \<Rightarrow> request_id \<Rightarrow> string \<Rightarrow> address \<Rightarrow> string \<Rightarrow> contract \<Rightarrow> contract" where
  "store_span e rid operation actor status s = store_span_with_parent e rid operation actor status [] 0 s"

definition record_operation_in_context :: "env \<Rightarrow> bytes \<Rightarrow> string \<Rightarrow> contract \<Rightarrow> contract" where
  "record_operation_in_context e root_id operation_name s =
     (let ctx = get_or \<lparr>rc_root_request_id = \<lparr>rid_id = root_id, rid_created_at = timestamp e\<rparr>,
                        rc_operation_chain = [], rc_created_at = timestamp e\<rparr>
                  (temp_get (seq_nat e) (tr_contexts (c_tracing s)) root_id)
      in s\<lparr>c_tracing := (c_tracing s)\<lparr>tr_contexts :=
           temp_put (seq_nat e) SPAN_TTL (tr_contexts (c_tracing s)) root_id
             (ctx\<lparr>rc_operation_chain := rc_operation_chain ctx @ [operation_name]\<rparr>)\<rparr>\<rparr>)"

definition create_request_context ::
    "env \<Rightarrow> request_id \<Rightarrow> contract \<Rightarrow> trap + (request_context \<times> contract)" where
  "create_request_context e rid s =
     (if rid_id rid = [] then Inl (Panic ValidationError)
      else if rid_created_at rid = 0 then Inl (Panic InvalidTimestamp)
      else
        let ctx = \<lparr>rc_root_request_id = rid, rc_operation_chain = [], rc_created_at = timestamp e\<rparr>
        in Inr (ctx, s\<lparr>c_tracing := (c_tracing s)\<lparr>tr_contexts :=
             temp_put (seq_nat e) SPAN_TTL (tr_contexts (c_tracing s)) (rid_id rid) ctx\<rparr>\<rparr>))"

definition append_operation :: "env \<Rightarrow> bytes \<Rightarrow> string \<Rightarrow> contract \<Rightarrow> trap + contract" where
  "append_operation e root_id operation_name s =
     (if operation_name = [] then Inl (Panic ValidationError)
      else Inr (record_operation_in_context e root_id operation_name s))"

definition submit_with_request_id ::
    "env \<Rightarrow> request_id \<Rightarrow> address \<Rightarrow> address \<Rightarrow> u64 \<Rightarrow> bytes \<Rightarrow> bytes \<Rightarrow> contract \<Rightarrow> trap + (u64 \<times> contract)" where
  "submit_with_request_id e rid issuer subject ts payload_hash signature s =
     bind_ok (require_auth e issuer) (\<lambda>_.
     bind_ok (check_attestor issuer s) (\<lambda>_.
     bind_ok (verify_attestation_signature e issuer payload_hash signature s) (\<lambda>_.
     bind_ok (enforce_rate_limit e issuer s) (\<lambda>s1.
     bind_ok (check_timestamp ts) (\<lambda>_.
       if att_used (c_attest s1) (issuer, payload_hash) \<noteq> None
       then refuse_replay e payload_hash issuer s1
       else
     bind_ok (record_attestation issuer subject ts payload_hash signature s1) (\<lambda>(n, s2).
       let s3 = record_operation_in_context e (rid_id rid) ''submit_attestation''
                  (store_span e rid ''submit_attestation'' issuer ''success'' s2)
       in Inr (n, accept_event e
                    (emit (EvWebhook ''attestation_submitted'' n ts payload_hash)
                      (emit (EvAttestRecorded n subject payload_hash ts) s3)))))))))"

section \<open>Queries\<close>

definition get_attestation :: "contract \<Rightarrow> u64 \<Rightarrow> trap + attestation" where
  "get_attestation s n = of_option (Panic AttestationNotFound) (att_records (c_attest s) n)"

definition get_attestation_by_hash :: "contract \<Rightarrow> address \<Rightarrow> bytes \<Rightarrow> trap + u64" where
  "get_attestation_by_hash s issuer payload_hash =
     of_option (Panic AttestationNotFound) (att_used (c_attest s) (issuer, payload_hash))"

definition verify_stored_payload_hash :: "contract \<Rightarrow> u64 \<Rightarrow> bytes \<Rightarrow> trap + bool" where
  "verify_stored_payload_hash s n expected_hash =
     bind_ok (get_attestation s n) (\<lambda>a.
       if length (at_payload_hash a) \<noteq> 32 then Inl (Panic ValidationError)
       else Inr (at_payload_hash a = expected_hash))"

text \<open>\<open>get_attestations_paginated\<close>: the loop over all identifiers skips the first \<open>offset\<close>
  matching records and collects up to the limit; \<open>skipped\<close> and the page so far are its state.\<close>

record attestation_filter =
  fi_issuer :: "address option"
  fi_subject :: "address option"
  fi_from_timestamp :: "u64 option"
  fi_to_timestamp :: "u64 option"
  fi_min_id :: "u64 option"

record attestation_page =
  pg_records :: "attestation list"
  pg_next_offset :: u64
  pg_total :: u64

definition id_passes :: "attestation_filter option \<Rightarrow> u64 \<Rightarrow> bool" where
  "id_passes filt n =
     (case filt of
        None \<Rightarrow> True
      | Some f \<Rightarrow> (case fi_min_id f of None \<Rightarrow> True | Some min_id \<Rightarrow> \<not> n < min_id))"

definition record_passes :: "attestation_filter option \<Rightarrow> attestation \<Rightarrow> bool" where
  "record_passes filt a =
     (case filt of
        None \<Rightarrow> True
      | Some f \<Rightarrow>
          (case fi_issuer f of None \<Rightarrow> True | Some x \<Rightarrow> at_issuer a = x) \<and>
          (case fi_subject f of None \<Rightarrow> True | Some x \<Rightarrow> at_subject a = x) \<and>
          (case fi_from_timestamp f of None \<Rightarrow> True | Some x \<Rightarrow> \<not> at_timestamp a < x) \<and>
          (case fi_to_timestamp f of None \<Rightarrow> True | Some x \<Rightarrow> \<not> x < at_timestamp a))"

fun page_loop ::
    "(u64 \<Rightarrow> attestation option) \<Rightarrow> attestation_filter option \<Rightarrow> u64 \<Rightarrow> u64 \<Rightarrow> u64 list \<Rightarrow>
     u64 \<Rightarrow> attestation list \<Rightarrow> u64 \<Rightarrow> attestation list \<times> u64" where
  "page_loop recs filt offset limit [] skipped page next_offset = (page, next_offset)"
| "page_loop recs filt offset limit (n # ids) skipped page next_offset =
     (if \<not> id_passes filt n then page_loop recs filt offset limit ids skipped page next_offset
      else case recs n of
        None \<Rightarrow> page_loop recs filt offset limit ids skipped page next_offset
      | Some a \<Rightarrow>
          if \<not> record_passes filt a then page_loop recs filt offset limit ids skipped page next_offset
          else if skipped < offset
          then page_loop recs filt offset limit ids (skipped + 1) page next_offset
          else if limit \<le> of_nat (length page) then (page, sat_add offset limit)
          else page_loop recs filt offset limit ids skipped (page @ [a]) next_offset)"

definition PAGE_CAP :: u64 where "PAGE_CAP = 50"

definition get_attestations_paginated ::
    "contract \<Rightarrow> u64 \<Rightarrow> u64 \<Rightarrow> attestation_filter option \<Rightarrow> trap + attestation_page" where
  "get_attestations_paginated s offset limit filt =
     (if limit = 0 then Inl (Panic ValidationError)
      else
        let effective_limit = min limit PAGE_CAP;
            all_ids = get_or [] (att_index (c_attest s));
            total = of_nat (length all_ids)
        in if total \<le> offset
           then Inr \<lparr>pg_records = [], pg_next_offset = total, pg_total = total\<rparr>
           else
             let (page, next) = page_loop (att_records (c_attest s)) filt offset effective_limit
                                  all_ids 0 [] total
             in Inr \<lparr>pg_records = page, pg_next_offset = next, pg_total = total\<rparr>)"

section \<open>What a submission changes\<close>

definition added ::
    "u64 \<Rightarrow> address \<Rightarrow> address \<Rightarrow> u64 \<Rightarrow> bytes \<Rightarrow> bytes \<Rightarrow> attestation_store \<Rightarrow> attestation_store" where
  "added n issuer subject ts payload_hash signature st =
     st\<lparr>att_counter := Some (n + 1),
        att_records := (att_records st)(n \<mapsto>
          \<lparr>at_id = n, at_issuer = issuer, at_subject = subject, at_timestamp = ts,
           at_payload_hash = payload_hash, at_signature = signature, at_schema_version = SCHEMA_V1\<rparr>),
        att_index := Some (get_or [] (att_index st) @ [n]),
        att_used := (att_used st)((issuer, payload_hash) \<mapsto> n)\<rparr>"

abbreviation next_id :: "attestation_store \<Rightarrow> u64" where
  "next_id st \<equiv> get_or 0 (att_counter st)"

lemma record_attestation_Inr [ok_simps]:
  "record_attestation iss sub ts h sg s = Inr (n, s') \<longleftrightarrow>
     n = next_id (c_attest s) \<and> n \<noteq> word_top \<and> s' = with_attest (added n iss sub ts h sg) s"
proof -
  have "unat w + 1 < 2 ^ 64 \<longleftrightarrow> w \<noteq> word_top" for w :: u64
    using unat_lt_pow [of w] by (auto simp: word_unat_eq_iff unat_simps)
  then show ?thesis
    by (auto simp: record_attestation_def next_attestation_id_def store_attestation_def mark_used_def
        added_def Let_def ok_simps)
qed

lemma log_action_inv: "log_action e a ct t ov nv au = Inr au' \<Longrightarrow> audit_inv au \<Longrightarrow> audit_inv au'"
  by (auto simp: log_action_def intro: write_event_inv)

lemma case_sum_Inr: "case_sum f g r = Inr y \<longleftrightarrow> (\<exists>x. r = Inl x \<and> f x = Inr y) \<or> (\<exists>x. r = Inr x \<and> g x = Inr y)"
  by (cases r) auto

lemma check_and_increment_audit_inv:
  assumes "check_and_increment e admin b cfg rl au = Inr (r, rl', au')" and "audit_inv au"
  shows "audit_inv au'"
proof (cases "admin = Some b")
  case True
  with assms show ?thesis
    by (auto simp: check_and_increment_def log_change_def log_change_with_status_def ok_simps
        intro: write_event_inv)
next
  case False
  then have "au' = au"
    using assms(1)
    by (auto simp: check_and_increment_def Let_def ok_simps case_sum_Inr split: if_splits option.split_asm prod.split_asm)
  with assms(2) show ?thesis by simp
qed

lemma enforce_rate_limit_ok:
  assumes "enforce_rate_limit e a s = Inr s'"
  shows "\<exists>rl au. s' = s\<lparr>c_rl := rl, c_audit := au\<rparr> \<and> (audit_inv (c_audit s) \<longrightarrow> audit_inv au)"
proof -
  from assms obtain r rl au where
    run: "check_and_increment e (acc_admin (c_access s)) a
      (resolve_config (c_rl s) a (rate_limit_role s a)) (c_rl s) (c_audit s) = Inr (r, rl, au)"
    and s': "s' = s\<lparr>c_rl := rl, c_audit := au\<rparr>"
    by (auto simp: enforce_rate_limit_def Let_def ok_simps case_sum_Inr)
  from check_and_increment_audit_inv [OF run] s' show ?thesis by blast
qed

text \<open>What every accepted single submission satisfies, whichever entry point took it.\<close>

definition submitted ::
    "env \<Rightarrow> address \<Rightarrow> address \<Rightarrow> u64 \<Rightarrow> bytes \<Rightarrow> bytes \<Rightarrow> contract \<Rightarrow> u64 \<Rightarrow> contract \<Rightarrow> bool" where
  "submitted e iss sub ts h sg s n s' \<longleftrightarrow>
     iss \<in> auths e \<and> ats_registered (c_attestors s) iss \<noteq> None \<and>
     (\<exists>pk. ats_public_key (c_attestors s) iss = Some pk \<and> length sg = 64 \<and> ed25519_verify e pk h sg) \<and>
     ts \<noteq> 0 \<and> att_used (c_attest s) (iss, h) = None \<and>
     n = next_id (c_attest s) \<and> n \<noteq> word_top \<and>
     (\<exists>x. c_attest s' = added n iss sub ts h sg ((c_attest s)\<lparr>att_session_used := x\<rparr>)) \<and>
     c_access s' = c_access s \<and> c_schema s' = c_schema s \<and> c_jwt s' = c_jwt s \<and>
     c_attestors s' = c_attestors s \<and> c_kyc s' = c_kyc s \<and> c_quotes s' = c_quotes s \<and>
     c_txs s' = c_txs s \<and> c_anchors s' = c_anchors s \<and> tr_trace_ctx (c_tracing s') = tr_trace_ctx (c_tracing s) \<and>
     (audit_inv (c_audit s) \<longrightarrow> audit_inv (c_audit s'))"

lemma verify_attestation_signature_Inr [ok_simps]:
  "verify_attestation_signature e iss h sg s = Inr u \<longleftrightarrow>
     (\<exists>pk. ats_public_key (c_attestors s) iss = Some pk \<and> length sg = 64 \<and> ed25519_verify e pk h sg)"
  by (auto simp: verify_attestation_signature_def ok_simps)

lemma check_timestamp_Inr [ok_simps]: "check_timestamp ts = Inr u \<longleftrightarrow> ts \<noteq> 0"
  by (simp add: check_timestamp_def)

lemma refuse_replay_Inr [ok_simps]: "refuse_replay e h iss s = Inr x \<longleftrightarrow> False"
  by (auto simp: refuse_replay_def ok_simps Let_def)

lemma require_kyc_approved_Inr [ok_simps]:
  "require_kyc_approved e subject s = Inr u \<longleftrightarrow> get_kyc_status e s subject = Approved"
  by (simp add: require_kyc_approved_def split: kyc_status.split)

lemma accept_event_frame [simp]:
  "c_access (accept_event e s) = c_access s" "c_schema (accept_event e s) = c_schema s"
  "c_audit (accept_event e s) = c_audit s" "c_jwt (accept_event e s) = c_jwt s"
  "c_attestors (accept_event e s) = c_attestors s" "c_attest (accept_event e s) = c_attest s"
  "c_sessions (accept_event e s) = c_sessions s" "c_kyc (accept_event e s) = c_kyc s"
  "c_quotes (accept_event e s) = c_quotes s" "c_txs (accept_event e s) = c_txs s" "c_anchors (accept_event e s) = c_anchors s"
  "c_tracing (accept_event e s) = c_tracing s"
  by (simp_all add: accept_event_def)

lemma tracing_frame [simp]:
  "c_access (store_span e r op a st s) = c_access s" "c_schema (store_span e r op a st s) = c_schema s"
  "c_audit (store_span e r op a st s) = c_audit s" "c_jwt (store_span e r op a st s) = c_jwt s"
  "c_attestors (store_span e r op a st s) = c_attestors s" "c_attest (store_span e r op a st s) = c_attest s"
  "c_sessions (store_span e r op a st s) = c_sessions s" "c_kyc (store_span e r op a st s) = c_kyc s"
  "c_quotes (store_span e r op a st s) = c_quotes s" "c_txs (store_span e r op a st s) = c_txs s" "c_anchors (store_span e r op a st s) = c_anchors s"
  "tr_trace_ctx (c_tracing (store_span e r op a st s)) = tr_trace_ctx (c_tracing s)"
  by (simp_all add: store_span_def store_span_with_parent_def)

lemma context_frame [simp]:
  "c_access (record_operation_in_context e r op s) = c_access s"
  "c_schema (record_operation_in_context e r op s) = c_schema s"
  "c_audit (record_operation_in_context e r op s) = c_audit s"
  "c_jwt (record_operation_in_context e r op s) = c_jwt s"
  "c_attestors (record_operation_in_context e r op s) = c_attestors s"
  "c_attest (record_operation_in_context e r op s) = c_attest s"
  "c_sessions (record_operation_in_context e r op s) = c_sessions s"
  "c_kyc (record_operation_in_context e r op s) = c_kyc s"
  "c_quotes (record_operation_in_context e r op s) = c_quotes s"
  "c_txs (record_operation_in_context e r op s) = c_txs s" "c_anchors (record_operation_in_context e r op s) = c_anchors s"
  "tr_trace_ctx (c_tracing (record_operation_in_context e r op s)) = tr_trace_ctx (c_tracing s)"
  by (simp_all add: record_operation_in_context_def Let_def)

lemma added_session_used: "\<exists>x. added n i sb ts h sg st = added n i sb ts h sg (st\<lparr>att_session_used := x\<rparr>)"
  by (rule exI [of _ "att_session_used st"]) simp

text \<open>The last part of every entry point: charge the rate limit, then record.\<close>

lemma charged_and_recorded:
  assumes "enforce_rate_limit e iss s = Inr s1"
    and "record_attestation iss sub ts h sg s1 = Inr (n, s2)"
    and "iss \<in> auths e" "ats_registered (c_attestors s) iss \<noteq> None"
    and "\<exists>pk. ats_public_key (c_attestors s) iss = Some pk \<and> length sg = 64 \<and> ed25519_verify e pk h sg"
    and "ts \<noteq> 0" "att_used (c_attest s) (iss, h) = None"
  shows "submitted e iss sub ts h sg s n s2" and "c_sessions s2 = c_sessions s"
  using enforce_rate_limit_ok [OF assms(1)] assms(2-)
  by (auto simp: submitted_def ok_simps intro: added_session_used)

lemma submitted_frame:
  assumes "submitted e iss sub ts h sg s n s2"
    and "c_access s' = c_access s2" "c_schema s' = c_schema s2" "c_jwt s' = c_jwt s2"
    and "c_attestors s' = c_attestors s2" "c_kyc s' = c_kyc s2" "c_quotes s' = c_quotes s2"
    and "c_txs s' = c_txs s2" "c_anchors s' = c_anchors s2" "tr_trace_ctx (c_tracing s') = tr_trace_ctx (c_tracing s2)"
    and "c_attest s' = c_attest s2" "c_audit s' = c_audit s2"
  shows "submitted e iss sub ts h sg s n s'"
  using assms(1) unfolding submitted_def assms(2-) .

lemma submit_attestation_ok:
  assumes "submit_attestation e iss sub ts h sg s = Inr (n, s')"
  shows "submitted e iss sub ts h sg s n s' \<and> c_sessions s' = c_sessions s \<and>
    length h \<le> MAX_PAYLOAD_HASH_BYTES"
proof -
  from assms obtain s1 s2 where run: "enforce_rate_limit e iss s = Inr s1"
      "record_attestation iss sub ts h sg s1 = Inr (n, s2)"
    and g: "iss \<in> auths e" "ats_registered (c_attestors s) iss \<noteq> None"
      "\<exists>pk. ats_public_key (c_attestors s) iss = Some pk \<and> length sg = 64 \<and> ed25519_verify e pk h sg"
      "ts \<noteq> 0" "att_used (c_attest s) (iss, h) = None"
    and len: "length h \<le> MAX_PAYLOAD_HASH_BYTES"
    and s': "s' = emit (EvAttestRecorded n sub h ts) (accept_event e s2)"
    unfolding submit_attestation_def
    by (auto simp: bind_ok_Inr if_Inl_Inr require_auth_Inr check_attestor_Inr
        verify_attestation_signature_Inr check_timestamp_Inr refuse_replay_Inr split: if_split_asm)
  from charged_and_recorded [OF run g] len show ?thesis
    unfolding s' by (auto intro: submitted_frame)
qed

lemma submit_attestation_kyc_check_ok:
  assumes "submit_attestation_kyc_check e iss sub ts h sg k s = Inr (n, s')"
  shows "submitted e iss sub ts h sg s n s' \<and> c_sessions s' = c_sessions s \<and>
    (k \<longrightarrow> get_kyc_status e s sub = Approved)"
proof -
  from assms obtain s1 s2 where run: "enforce_rate_limit e iss s = Inr s1"
      "record_attestation iss sub ts h sg s1 = Inr (n, s2)"
    and g: "iss \<in> auths e" "ats_registered (c_attestors s) iss \<noteq> None"
      "\<exists>pk. ats_public_key (c_attestors s) iss = Some pk \<and> length sg = 64 \<and> ed25519_verify e pk h sg"
      "ts \<noteq> 0" "att_used (c_attest s) (iss, h) = None"
    and kyc: "k \<longrightarrow> get_kyc_status e s sub = Approved"
    and s': "s' = accept_event e (emit (EvWebhook ''attestation_submitted'' n ts h)
                   (emit (EvAttestRecorded n sub h ts) s2))"
    unfolding submit_attestation_kyc_check_def
    by (auto simp: bind_ok_Inr if_Inl_Inr require_auth_Inr check_attestor_Inr
        verify_attestation_signature_Inr check_timestamp_Inr refuse_replay_Inr
        require_kyc_approved_Inr split: if_split_asm)
  from charged_and_recorded [OF run g] kyc show ?thesis
    unfolding s' by (auto intro: submitted_frame)
qed

lemma submit_with_request_id_ok:
  assumes "submit_with_request_id e rid iss sub ts h sg s = Inr (n, s')"
  shows "submitted e iss sub ts h sg s n s' \<and> c_sessions s' = c_sessions s"
proof -
  from assms obtain s1 s2 where run: "enforce_rate_limit e iss s = Inr s1"
      "record_attestation iss sub ts h sg s1 = Inr (n, s2)"
    and g: "iss \<in> auths e" "ats_registered (c_attestors s) iss \<noteq> None"
      "\<exists>pk. ats_public_key (c_attestors s) iss = Some pk \<and> length sg = 64 \<and> ed25519_verify e pk h sg"
      "ts \<noteq> 0" and used: "att_used (c_attest s1) (iss, h) = None"
    and s': "s' = accept_event e (emit (EvWebhook ''attestation_submitted'' n ts h)
       (emit (EvAttestRecorded n sub h ts) (record_operation_in_context e (rid_id rid) ''submit_attestation''
         (store_span e rid ''submit_attestation'' iss ''success'' s2))))"
    unfolding submit_with_request_id_def Let_def
    by (auto simp: bind_ok_Inr if_Inl_Inr require_auth_Inr check_attestor_Inr
        verify_attestation_signature_Inr check_timestamp_Inr refuse_replay_Inr split: if_split_asm)
  have "att_used (c_attest s) (iss, h) = None"
    using enforce_rate_limit_ok [OF run(1)] used by auto
  from charged_and_recorded [OF run g this] show ?thesis
    unfolding s' by (auto intro: submitted_frame)
qed

section \<open>Invariants\<close>

text \<open>
  Identifiers are consecutive, every record sits under its own identifier, the index lists
  all identifiers in order, and the marks of used payloads and the records agree.
\<close>

definition attest_inv :: "attestation_store \<Rightarrow> bool" where
  "attest_inv st \<longleftrightarrow>
     (\<forall>i. (att_records st i \<noteq> None) = (unat i < unat (next_id st))) \<and>
     (\<forall>i a. att_records st i = Some a \<longrightarrow> at_id a = i) \<and>
     get_or [] (att_index st) = map of_nat [0..<unat (next_id st)] \<and>
     (\<forall>i a. att_records st i = Some a \<longrightarrow> att_used st (at_issuer a, at_payload_hash a) \<noteq> None) \<and>
     (\<forall>p j. att_used st p = Some j \<longrightarrow>
        (\<exists>a. att_records st j = Some a \<and> (at_issuer a, at_payload_hash a) = p))"

text \<open>No payload is recorded twice for one issuer.\<close>

definition attest_unique :: "attestation_store \<Rightarrow> bool" where
  "attest_unique st \<longleftrightarrow>
     (\<forall>i a. att_records st i = Some a \<longrightarrow> att_used st (at_issuer a, at_payload_hash a) = Some i)"

lemma attest_inv_empty:
  "attest_inv (c_attest fresh_contract)" "attest_unique (c_attest fresh_contract)"
  by (simp_all add: attest_inv_def attest_unique_def fresh_contract_def)

lemma attest_inv_session_used [simp]:
  "attest_inv (st\<lparr>att_session_used := x\<rparr>) = attest_inv st"
  "attest_unique (st\<lparr>att_session_used := x\<rparr>) = attest_unique st"
  by (simp_all add: attest_inv_def attest_unique_def)

lemma unat_next_id: "n \<noteq> word_top \<Longrightarrow> unat (n + 1) = Suc (unat n)" for n :: u64
proof -
  assume "n \<noteq> word_top"
  then have "n + 1 \<noteq> 0" by (metis add_diff_cancel diff_0 word_top_def)
  then show ?thesis by (simp add: unatSuc add.commute)
qed

lemma added_inv:
  assumes "attest_inv st" and "n = next_id st" and "n \<noteq> word_top"
  shows "attest_inv (added n iss sub ts h sg st)"
proof -
  have n: "unat (n + 1) = Suc (unat n)" using assms(3) by (rule unat_next_id)
  have "att_records st n = None"
    using assms(1,2) by (simp add: attest_inv_def) (metis less_irrefl option.exhaust)
  then have "att_used st p \<noteq> Some n" for p
    using assms(1) unfolding attest_inv_def by (metis option.distinct(1))
  then have used: "att_used st p = Some j \<Longrightarrow> unat j \<noteq> unat n" for p j
    by (metis word_unat_eq_iff)
  show ?thesis
    using assms(1) used
    by (auto simp: attest_inv_def added_def n less_Suc_eq word_unat_eq_iff assms(2) [symmetric])
qed

lemma added_unique:
  assumes "attest_inv st" and "attest_unique st" and "n = next_id st" and "att_used st (iss, h) = None"
  shows "attest_unique (added n iss sub ts h sg st)"
  using assms by (auto simp: attest_unique_def added_def)

lemma submitted_inv:
  assumes "submitted e iss sub ts h sg s n s'"
  shows "attest_inv (c_attest s) \<Longrightarrow> attest_inv (c_attest s')"
    and "\<lbrakk>attest_inv (c_attest s); attest_unique (c_attest s)\<rbrakk> \<Longrightarrow> attest_unique (c_attest s')"
  using assms by (auto simp: submitted_def intro!: added_inv added_unique)

text \<open>The batch: every entry is checked against the storage before the batch, then all are added.\<close>

lemma charge_batch_ok: "charge_batch e c k s = Inr s' \<Longrightarrow> \<exists>rl. s' = s\<lparr>c_rl := rl\<rparr>"
  by (auto simp: charge_batch_def Let_def split: if_splits)

abbreviation same_but_attest :: "contract \<Rightarrow> contract \<Rightarrow> bool" where
  "same_but_attest s s' \<equiv> \<exists>st. s' = s\<lparr>c_attest := st\<rparr>"

lemma store_batch_frame:
  "list_bind store_batch_entry (ids, s) xs = Inr (ids', s') \<Longrightarrow> same_but_attest s s'"
proof (induction xs arbitrary: ids s)
  case Nil
  then show ?case by (auto intro: exI [of _ "c_attest s"])
next
  case (Cons x xs)
  then obtain n s1 where "s1 = with_attest (added n (in_issuer x) (in_subject x) (in_timestamp x)
      (in_payload_hash x) (in_signature x)) s" "list_bind store_batch_entry (ids @ [n], s1) xs = Inr (ids', s')"
    by (auto simp: store_batch_entry_def ok_simps)
  with Cons.IH show ?case by fastforce
qed

lemma store_batch_inv:
  assumes "list_bind store_batch_entry (ids, s) xs = Inr (ids', s')" and "attest_inv (c_attest s)"
  shows "attest_inv (c_attest s')"
proof -
  have "(\<lambda>(_, s). attest_inv (c_attest s)) (ids', s')"
    by (rule list_bind_invariant [OF assms(1)])
      (use assms(2) in \<open>auto simp: store_batch_entry_def ok_simps intro: added_inv\<close>)
  then show ?thesis by simp
qed

lemma store_batch_unique:
  assumes "list_bind store_batch_entry (ids, s) xs = Inr (ids', s')"
    and "attest_inv (c_attest s)" "attest_unique (c_attest s)"
    and "distinct (map (\<lambda>x. (in_issuer x, in_payload_hash x)) xs)"
    and "\<forall>x\<in>set xs. att_used (c_attest s) (in_issuer x, in_payload_hash x) = None"
  shows "attest_unique (c_attest s')"
  using assms
proof (induction xs arbitrary: ids s)
  case (Cons x xs)
  then obtain n s1 where n: "n = next_id (c_attest s)" "n \<noteq> word_top"
    and s1: "s1 = with_attest (added n (in_issuer x) (in_subject x) (in_timestamp x)
      (in_payload_hash x) (in_signature x)) s"
    and rest: "list_bind store_batch_entry (ids @ [n], s1) xs = Inr (ids', s')"
    by (auto simp: store_batch_entry_def ok_simps)
  have "attest_inv (c_attest s1)" "attest_unique (c_attest s1)"
    using Cons.prems n by (auto simp: s1 intro: added_inv added_unique)
  moreover have "\<forall>y\<in>set xs. att_used (c_attest s1) (in_issuer y, in_payload_hash y) = None"
    using Cons.prems(4,5) by (auto simp: s1 added_def image_iff)
  ultimately show ?case using Cons.IH [OF rest] Cons.prems(4) by simp
qed simp

lemma submit_batch_ok:
  assumes "submit_attestation_batch e c xs s = Inr (ids, s')"
  shows "c \<in> auths e \<and> ats_registered (c_attestors s) c \<noteq> None \<and> length xs \<le> MAX_BATCH_SIZE \<and>
    (\<forall>x\<in>set xs. (\<exists>pk. ats_public_key (c_attestors s) (in_issuer x) = Some pk \<and>
         ed25519_verify e pk (in_payload_hash x) (in_signature x)) \<and>
       att_used (c_attest s) (in_issuer x, in_payload_hash x) = None) \<and>
    (xs = [] \<and> s' = s \<or> (\<exists>rl. list_bind store_batch_entry ([], s\<lparr>c_rl := rl\<rparr>) xs = Inr (ids, s')))"
proof (cases "xs = []")
  case True
  with assms show ?thesis by (auto simp: submit_attestation_batch_def ok_simps split: if_splits)
next
  case False
  from assms False obtain s1 where c: "charge_batch e c (length xs) s = Inr s1"
    and chk: "list_bind (\<lambda>_ entry. check_batch_entry e s1 entry) () xs = Inr ()"
    and st: "list_bind store_batch_entry ([], s1) xs = Inr (ids, s')"
    and g: "c \<in> auths e" "ats_registered (c_attestors s) c \<noteq> None" "length xs \<le> MAX_BATCH_SIZE"
    by (auto simp: submit_attestation_batch_def ok_simps not_less split: if_splits)
  obtain rl where rl: "s1 = s\<lparr>c_rl := rl\<rparr>" using charge_batch_ok [OF c] by blast
  have "\<forall>x\<in>set xs. check_batch_entry e s1 x = Inr ()"
    using chk by (induction xs) (auto simp: ok_simps)
  then show ?thesis
    using g st rl by (auto simp: check_batch_entry_def ok_simps split: if_splits)
qed

section \<open>Pagination is slicing\<close>

definition matching :: "(u64 \<Rightarrow> attestation option) \<Rightarrow> attestation_filter option \<Rightarrow> u64 list \<Rightarrow> attestation list" where
  "matching recs filt ids =
     filter (record_passes filt) (List.map_filter recs (filter (id_passes filt) ids))"

lemma matching_simps [simp]:
  "matching recs filt [] = []"
  "matching recs filt (n # ids) =
     (if \<not> id_passes filt n then matching recs filt ids
      else case recs n of
        None \<Rightarrow> matching recs filt ids
      | Some a \<Rightarrow> if record_passes filt a then a # matching recs filt ids else matching recs filt ids)"
  by (auto simp: matching_def List.map_filter_simps split: option.splits)

lemma page_loop_slice:
  assumes "skipped \<le> offset" and "length page \<le> unat limit"
  shows "page_loop recs filt offset limit ids skipped page next =
    (let rest = drop (unat offset - unat skipped) (matching recs filt ids);
         room = unat limit - length page
     in (page @ take room rest, if room < length rest then sat_add offset limit else next))"
  using assms
proof (induction ids arbitrary: skipped page)
  case (Cons n ids)
  have len: "limit \<le> of_nat (length page) \<longleftrightarrow> unat limit \<le> length page"
    using Cons.prems(2) unat_lt_pow [of limit]
    by (simp add: word_le_nat_alt unat_of_nat)
  show ?case
  proof (cases "id_passes filt n \<and> (\<exists>a. recs n = Some a \<and> record_passes filt a)")
    case False
    with Cons show ?thesis by (auto split: option.splits)
  next
    case True
    then obtain a where a: "id_passes filt n" "recs n = Some a" "record_passes filt a" by blast
    consider (skip) "skipped < offset" | (full) "\<not> skipped < offset" "unat limit \<le> length page"
      | (take) "\<not> skipped < offset" "\<not> unat limit \<le> length page" by blast
    then show ?thesis
    proof cases
      case skip
      have "unat (skipped + 1) = Suc (unat skipped)"
        using skip unat_lt_pow [of offset] by (simp add: unat_word_ariths word_less_nat_alt)
      moreover from this skip have "skipped + 1 \<le> offset"
        by (simp add: word_less_nat_alt word_le_nat_alt)
      moreover have "unat offset - unat skipped = Suc (unat offset - Suc (unat skipped))"
        using skip by (simp add: word_less_nat_alt)
      ultimately show ?thesis using Cons.IH [of "skipped + 1" page] Cons.prems a skip by simp
    next
      case full
      then have "skipped = offset" "length page = unat limit" using Cons.prems by auto
      with a full len show ?thesis by simp
    next
      case take
      then have "skipped = offset" and room: "unat limit - length page = Suc (unat limit - Suc (length page))"
        using Cons.prems by auto
      with a take len Cons.IH [of skipped "page @ [a]"] Cons.prems show ?thesis by (simp add: Let_def)
    qed
  qed
qed simp

section \<open>Properties\<close>

text \<open>A contract with administrator \<open>ADMIN\<close> and the attestor \<open>A\<close>, for concrete runs.\<close>

definition sample_contract :: contract where
  "sample_contract =
     fresh_contract\<lparr>
       c_access := (c_access fresh_contract)\<lparr>acc_initialized := True, acc_admin := Some ''ADMIN''\<rparr>,
       c_attestors := (c_attestors fresh_contract)\<lparr>
         ats_registered := [''A'' \<mapsto> True], ats_public_key := [''A'' \<mapsto> ''KEY''],
         ats_count := Some 1, ats_list := Some [''A'']\<rparr>,
       c_rl := empty_rl_store\<lparr>rl_config := Some \<lparr>max_submissions = 100, window_length = 100\<rparr>\<rparr>\<rparr>"

text \<open>
  Paginating is slicing: with at most \<open>2 ^ 32\<close> indexed identifiers, the page at an offset holds
  exactly the next \<open>min limit 50\<close> of the stored records that pass the filter, in the order of the
  index, and \<open>next_offset\<close> points behind them if more records follow and to the total otherwise.
\<close>

theorem pagination_slices:
  assumes "length (get_or [] (att_index (c_attest s))) < 2 ^ 32"
    and "get_attestations_paginated s offset limit filt = Inr page"
  shows "let ids = get_or [] (att_index (c_attest s));
             rest = drop (unat offset) (matching (att_records (c_attest s)) filt ids);
             size = min (unat limit) 50
         in limit \<noteq> 0 \<and> pg_records page = take size rest \<and> pg_total page = of_nat (length ids) \<and>
            (unat offset < length ids \<longrightarrow>
               pg_next_offset page =
                 (if size < length rest then sat_add offset (min limit 50) else of_nat (length ids)))"
proof -
  let ?ids = "get_or [] (att_index (c_attest s))"
  let ?ms = "matching (att_records (c_attest s)) filt ?ids"
  have "length (List.map_filter (att_records (c_attest s)) ns) \<le> length ns" for ns
    by (induction ns) (auto simp: List.map_filter_simps split: option.splits)
  then have short: "length ?ms \<le> length ?ids"
    unfolding matching_def by (meson length_filter_le order_trans)
  have total: "unat (of_nat (length ?ids) :: u64) = length ?ids"
    using assms(1) by (simp add: unsigned_of_nat take_bit_nat_eq_self)
  have cap: "unat (min limit PAGE_CAP) = min (unat limit) 50"
    by (simp add: min_def word_le_nat_alt PAGE_CAP_def)
  show ?thesis
  proof (cases "of_nat (length ?ids) \<le> offset")
    case True
    then have "length ?ids \<le> unat offset" using total by (simp add: word_le_nat_alt)
    with True assms(2) short show ?thesis
      by (auto simp: get_attestations_paginated_def Let_def split: if_splits)
  next
    case False
    note slice = page_loop_slice [of 0 offset "[]" "min limit PAGE_CAP" "att_records (c_attest s)" filt
        ?ids "of_nat (length ?ids)", unfolded cap Let_def, simplified]
    from False assms(2) have "limit \<noteq> 0" and "page = \<lparr>
        pg_records = take (min (unat limit) 50) (drop (unat offset) ?ms),
        pg_next_offset = (if min (unat limit) 50 < length ?ms - unat offset
          then sat_add offset (min limit PAGE_CAP) else of_nat (length ?ids)),
        pg_total = of_nat (length ?ids)\<rparr>"
      by (auto simp: get_attestations_paginated_def Let_def slice split: if_splits)
    then show ?thesis by (simp add: PAGE_CAP_def Let_def)
  qed
qed

theorem pagination_slices_witness:
  "\<exists>page. get_attestations_paginated
       (with_attest (\<lambda>_. added 0 ''A'' ''S'' 5 ''h'' ''sig'' (c_attest fresh_contract)) fresh_contract)
       0 10 None = Inr page \<and> length (pg_records page) = 1"
proof -
  let ?s = "with_attest (\<lambda>_. added 0 ''A'' ''S'' 5 ''h'' ''sig'' (c_attest fresh_contract)) fresh_contract"
  obtain page where p: "get_attestations_paginated ?s 0 10 None = Inr page"
    by (simp add: get_attestations_paginated_def Let_def case_prod_beta added_def fresh_contract_def)
  have "length (get_or [] (att_index (c_attest ?s))) < 2 ^ 32"
    by (simp add: added_def fresh_contract_def)
  from pagination_slices [OF this p] have "length (pg_records page) = 1"
    by (simp add: added_def fresh_contract_def Let_def id_passes_def record_passes_def)
  with p show ?thesis by blast
qed

text \<open>
  The batch entry point does not detect a replay inside the batch: two entries with
  the same issuer and payload are both stored, under different identifiers.
\<close>

theorem batch_replays_itself:
  assumes "submit_attestation_batch e caller [x, x] s = Inr (ids, s')"
  shows "\<exists>n m a b. ids = [n, m] \<and> n \<noteq> m \<and>
    get_attestation s' n = Inr a \<and> get_attestation s' m = Inr b \<and>
    (at_issuer a, at_payload_hash a) = (at_issuer b, at_payload_hash b)"
proof -
  obtain rl where "list_bind store_batch_entry ([], s\<lparr>c_rl := rl\<rparr>) [x, x] = Inr (ids, s')"
    using submit_batch_ok [OF assms] by auto
  then have n: "next_id (c_attest s) \<noteq> word_top" and ids: "ids = [next_id (c_attest s), next_id (c_attest s) + 1]"
    and s': "s' = with_attest (\<lambda>st. added (next_id st + 1) (in_issuer x) (in_subject x) (in_timestamp x)
        (in_payload_hash x) (in_signature x) (added (next_id st) (in_issuer x) (in_subject x)
        (in_timestamp x) (in_payload_hash x) (in_signature x) st)) (s\<lparr>c_rl := rl\<rparr>)"
    by (auto simp: store_batch_entry_def ok_simps added_def)
  show ?thesis
    by (simp add: ids s' get_attestation_def added_def)
qed

theorem batch_replays_itself_witness:
  "\<exists>ids s'. submit_attestation_batch (accepting_env 9 1 {''A''}) ''A''
     [\<lparr>in_issuer = ''A'', in_subject = ''S'', in_timestamp = 5, in_payload_hash = ''h'',
       in_signature = replicate 64 CHR ''s''\<rparr>,
      \<lparr>in_issuer = ''A'', in_subject = ''S'', in_timestamp = 5, in_payload_hash = ''h'',
       in_signature = replicate 64 CHR ''s''\<rparr>] sample_contract = Inr (ids, s') \<and> length ids = 2"
proof -
  let ?x = "\<lparr>in_issuer = ''A'', in_subject = ''S'', in_timestamp = 5, in_payload_hash = ''h'',
       in_signature = replicate 64 CHR ''s''\<rparr>"
  obtain ids s' where run: "submit_attestation_batch (accepting_env 9 1 {''A''}) ''A'' [?x, ?x]
      sample_contract = Inr (ids, s')"
    by (auto simp: submit_attestation_batch_def sample_contract_def accepting_env_def fresh_contract_def
        require_auth_def check_attestor_def MAX_BATCH_SIZE_def charge_batch_def check_batch_entry_def
        verify_attestation_signature_def check_timestamp_def store_batch_entry_def record_attestation_def
        next_attestation_id_def store_attestation_def mark_used_def get_rl_config_def get_rl_state_def
        BATCH_ATTESTATION_RATE_MULTIPLIER_def empty_rl_store_def Let_def word_less_nat_alt unat_simps
        plus_trap_def checked_add_def word_top_def)
  from batch_replays_itself [OF run] run show ?thesis by auto
qed

end
