(* ===== verification/Contract_Tracing.thy ===== *)
theory Contract_Tracing
  imports Contract_Attestations
begin

text \<open>
  Request identifiers and tracing spans of the contract (\<^verbatim>\<open>src/contract.rs\<close>): the generation of
  root and child identifiers, spans below a parent, and the trace of a root request.
\<close>

section \<open>Request identifiers\<close>

definition generate_request_id :: "env \<Rightarrow> contract \<Rightarrow> trap + (request_id \<times> contract)" where
  "generate_request_id e s =
     (let counter = get_or 0 (tr_id_counter (c_tracing s)) in
      bind_ok (plus_trap counter 1) (\<lambda>c1.
        Inr (\<lparr>rid_id = take 16 (sha256 e (u64_be (timestamp e) @ u32_be (ledger_seq e) @ u64_be counter)),
              rid_created_at = timestamp e\<rparr>,
             s\<lparr>c_tracing := (c_tracing s)\<lparr>tr_id_counter := Some c1\<rparr>\<rparr>)))"

definition generate_child_request_id :: "env \<Rightarrow> bytes \<Rightarrow> u64 \<Rightarrow> request_id" where
  "generate_child_request_id e root_bytes nonce =
     \<lparr>rid_id = take 16 (sha256 e (root_bytes @ u64_be nonce @ u64_be (timestamp e))),
      rid_created_at = timestamp e\<rparr>"

section \<open>Spans\<close>

definition get_tracing_span :: "env \<Rightarrow> contract \<Rightarrow> bytes \<Rightarrow> tracing_span option" where
  "get_tracing_span e s i = temp_get (seq_nat e) (tr_spans (c_tracing s)) i"

definition get_request_context :: "env \<Rightarrow> contract \<Rightarrow> bytes \<Rightarrow> request_context option" where
  "get_request_context e s i = temp_get (seq_nat e) (tr_contexts (c_tracing s)) i"

definition propagate_span ::
    "env \<Rightarrow> request_id \<Rightarrow> request_id \<Rightarrow> string \<Rightarrow> address \<Rightarrow> contract \<Rightarrow> trap + contract" where
  "propagate_span e parent child operation actor s =
     bind_ok (require_auth e actor) (\<lambda>_.
       if rid_id child = rid_id parent then Inl (Panic ValidationError)
       else
     bind_ok (of_option (Panic ValidationError)
       (temp_get (seq_nat e) (tr_trace_ctx (c_tracing s)) (rid_id parent))) (\<lambda>ctx.
     let span_index = tc_next_span_index ctx in
     bind_ok (of_option (Panic SessionOperationLimitExceeded) (checked_add span_index 1)) (\<lambda>i1.
       Inr (store_span_with_parent e child operation actor ''success'' (rid_id parent) span_index
         (s\<lparr>c_tracing := (c_tracing s)\<lparr>
              tr_trace_ctx := temp_put (seq_nat e) SPAN_TTL (tr_trace_ctx (c_tracing s)) (rid_id parent)
                (ctx\<lparr>tc_next_span_index := i1\<rparr>),
              tr_trace_ids := temp_put (seq_nat e) SPAN_TTL (tr_trace_ids (c_tracing s))
                (rid_id parent, span_index) (rid_id child)\<rparr>\<rparr>)))))"

definition get_trace :: "env \<Rightarrow> contract \<Rightarrow> bytes \<Rightarrow> tracing_span list" where
  "get_trace e s root =
     (let root_spans = (case get_tracing_span e s root of None \<Rightarrow> [] | Some sp \<Rightarrow> [sp]) in
      case temp_get (seq_nat e) (tr_trace_ctx (c_tracing s)) root of
        None \<Rightarrow> root_spans
      | Some ctx \<Rightarrow> root_spans @
          List.map_filter (\<lambda>i.
            case temp_get (seq_nat e) (tr_trace_ids (c_tracing s)) (root, of_nat i) of
              None \<Rightarrow> None
            | Some child \<Rightarrow> get_tracing_span e s child) [1..<unat (tc_next_span_index ctx)])"

section \<open>Lemmas\<close>

lemma generate_request_id_ok:
  assumes "generate_request_id e s = Inr (rid, s')"
  shows "\<exists>t. s' = s\<lparr>c_tracing := t\<rparr> \<and> tr_trace_ctx t = tr_trace_ctx (c_tracing s)"
  using assms by (auto simp: generate_request_id_def Let_def ok_simps)

lemma create_request_context_ok:
  assumes "create_request_context e rid s = Inr (ctx, s')"
  shows "\<exists>t. s' = s\<lparr>c_tracing := t\<rparr> \<and> tr_trace_ctx t = tr_trace_ctx (c_tracing s)"
  using assms by (auto simp: create_request_context_def Let_def split: if_splits)

lemma append_operation_ok:
  assumes "append_operation e root op s = Inr s'"
  shows "\<exists>t. s' = s\<lparr>c_tracing := t\<rparr> \<and> tr_trace_ctx t = tr_trace_ctx (c_tracing s)"
  using assms by (auto simp: append_operation_def record_operation_in_context_def Let_def split: if_splits)

text \<open>No trace context, no child span.\<close>

lemma propagate_span_needs_context:
  assumes "tr_trace_ctx (c_tracing s) = Map.empty"
  shows "propagate_span e parent child op actor s =
    Inl (if actor \<in> auths e then Panic ValidationError else AuthTrap)"
  using assms
  by (simp add: propagate_span_def require_auth_def require_def temp_get_def of_option_def)

lemma get_trace_root_only:
  assumes "tr_trace_ctx (c_tracing s) = Map.empty"
  shows "get_trace e s root = (case get_tracing_span e s root of None \<Rightarrow> [] | Some sp \<Rightarrow> [sp])"
  using assms by (simp add: get_trace_def temp_get_def)

text \<open>Within one contract the inputs of the hash differ from call to call: the counter grows.\<close>

lemma request_id_inputs_differ:
  assumes "generate_request_id e s = Inr (rid, s')"
  shows "get_or 0 (tr_id_counter (c_tracing s)) < get_or 0 (tr_id_counter (c_tracing s'))"
  using assms by (auto simp: generate_request_id_def Let_def ok_simps word_less_nat_alt unat_word_ariths)

end
