(* ===== verification/Contract_Sessions.thy ===== *)
theory Contract_Sessions
  imports Contract_Attestations
begin

text \<open>
  Sessions of \<^verbatim>\<open>src/contract.rs\<close>: creation, closing, the check that a session is open, the
  operations that run inside a session and are logged, and the audit log with its queries and
  pruning.
\<close>

abbreviation with_sessions :: "(session_store \<Rightarrow> session_store) \<Rightarrow> contract \<Rightarrow> contract" where
  "with_sessions f s \<equiv> s\<lparr>c_sessions := f (c_sessions s)\<rparr>"

section \<open>Lifecycle\<close>

definition create_session :: "env \<Rightarrow> address \<Rightarrow> contract \<Rightarrow> trap + (u64 \<times> contract)" where
  "create_session e initiator s =
     bind_ok (require_auth e initiator) (\<lambda>_.
       let session_id = get_or 0 (ses_count (c_sessions s)) in
       bind_ok (plus_trap session_id 1) (\<lambda>next_id.
         let session = \<lparr>se_session_id = session_id, se_initiator = initiator,
               se_created_at = timestamp e, se_nonce = 0, se_operation_count = 0,
               se_session_ttl_seconds = DEFAULT_SESSION_TTL, se_closed = False,
               se_state = state_u32 Created\<rparr>
         in Inr (session_id,
              emit (EvSessionCreated session_id initiator (timestamp e))
                (with_sessions (\<lambda>st. st\<lparr>ses_count := Some next_id,
                   ses_sessions := (ses_sessions st)(session_id \<mapsto> session)\<rparr>) s))))"

definition session_ttl :: "session \<Rightarrow> u64" where
  "session_ttl session =
     (if se_session_ttl_seconds session = 0 then DEFAULT_SESSION_TTL else se_session_ttl_seconds session)"

definition session_is_expired :: "env \<Rightarrow> session \<Rightarrow> bool" where
  "session_is_expired e session \<longleftrightarrow>
     session_expiry (se_created_at session) (session_ttl session) < timestamp e"

definition put_session :: "u64 \<Rightarrow> session \<Rightarrow> contract \<Rightarrow> contract" where
  "put_session i session s =
     with_sessions (\<lambda>st. st\<lparr>ses_sessions := (ses_sessions st)(i \<mapsto> session)\<rparr>) s"

text \<open>The expired branch stores the state and publishes an event, and then panics.\<close>

definition close_session :: "env \<Rightarrow> u64 \<Rightarrow> address \<Rightarrow> contract \<Rightarrow> trap + contract" where
  "close_session e session_id initiator s =
     bind_ok (require_auth e initiator) (\<lambda>_.
     bind_ok (of_option (Panic SessionNotFound) (ses_sessions (c_sessions s) session_id)) (\<lambda>session.
       if initiator \<noteq> se_initiator session then Inl (Panic UnauthorizedAttestor)
       else
         let from_s = from_u32 (se_state session) in
         if session_is_expired e session
         then (let s1 = emit (EvSessionExpired session_id (se_initiator session) (timestamp e))
                          (put_session session_id (session\<lparr>se_state := state_u32 Expired\<rparr>) s)
               in Inl (Panic SessionExpired))
         else case validate_transition from_s Closed of
           Inl FromTerminal \<Rightarrow>
             if from_s = Closed then Inl (Panic SessionClosed) else Inl (Panic IllegalTransition)
         | Inl _ \<Rightarrow> Inl (Panic IllegalTransition)
         | Inr _ \<Rightarrow>
             Inr (emit (EvSessionClosed session_id initiator (timestamp e))
                   (put_session session_id
                     (session\<lparr>se_closed := True, se_state := state_u32 Closed\<rparr>) s))))"

definition validate_session :: "env \<Rightarrow> session \<Rightarrow> trap + unit" where
  "validate_session e session =
     (if session_is_expired e session then Inl (Panic SessionExpired)
      else case from_u32 (se_state session) of
        Closed \<Rightarrow> Inl (Panic SessionClosed)
      | Expired \<Rightarrow> Inl (Panic SessionExpired)
      | Exhausted \<Rightarrow> Inl (Panic SessionOperationLimitExceeded)
      | _ \<Rightarrow> Inr ())"

definition session_op_count :: "contract \<Rightarrow> u64 \<Rightarrow> u64" where
  "session_op_count s i = get_or 0 (ses_op_count (c_sessions s) i)"

definition require_session_open :: "env \<Rightarrow> u64 \<Rightarrow> contract \<Rightarrow> trap + contract" where
  "require_session_open e session_id s =
     bind_ok (of_option (Panic SessionNotFound) (ses_sessions (c_sessions s) session_id)) (\<lambda>session.
       if sat_add (se_created_at session) (session_ttl session) < timestamp e \<and>
          \<not> is_terminal (from_u32 (se_state session))
       then (let s1 = emit (EvSessionExpired session_id (se_initiator session) (timestamp e))
                        (put_session session_id (session\<lparr>se_state := state_u32 Expired\<rparr>) s)
             in Inl (Panic SessionExpired))
       else bind_ok (validate_session e session) (\<lambda>_.
         let from_s = from_u32 (se_state session) in
         if MAX_OPS_PER_SESSION \<le> session_op_count s session_id
         then (let s1 = (if is_legal_transition from_s Exhausted
                         then put_session session_id (session\<lparr>se_state := state_u32 Exhausted\<rparr>) s
                         else s)
               in Inl (Panic SessionOperationLimitExceeded))
         else if from_s = Created
         then Inr (put_session session_id (session\<lparr>se_state := state_u32 Active\<rparr>) s)
         else Inr s))"

section \<open>Logged operations\<close>

definition next_audit_log_id :: "contract \<Rightarrow> trap + (u64 \<times> contract)" where
  "next_audit_log_id s =
     (let log_id = get_or 0 (ses_log_count (c_sessions s)) in
      bind_ok (of_option (Panic AuditLogCapacityExceeded) (checked_add log_id 1)) (\<lambda>next.
        Inr (log_id, with_sessions (\<lambda>st. st\<lparr>ses_log_count := Some next\<rparr>) s)))"

text \<open>The tail that the three operations of a session share: count the operation, take a log
  identifier, write the entry and the reference to it; \<open>(log_id, op_index)\<close> goes into the event.\<close>

definition log_session_operation ::
    "env \<Rightarrow> u64 \<Rightarrow> address \<Rightarrow> string \<Rightarrow> u64 \<Rightarrow> contract \<Rightarrow> trap + (u64 \<times> u64 \<times> contract)" where
  "log_session_operation e session_id actor op_type result s =
     (let op_index = session_op_count s session_id in
      bind_ok (plus_trap op_index 1) (\<lambda>next_op.
        let s1 = with_sessions (\<lambda>st. st\<lparr>ses_op_count := (ses_op_count st)(session_id \<mapsto> next_op)\<rparr>) s in
      bind_ok (next_audit_log_id s1) (\<lambda>(log_id, s2).
        let entry = \<lparr>al_log_id = log_id, al_session_id = session_id, al_actor = actor,
              al_operation = \<lparr>oc_session_id = session_id, oc_operation_index = op_index,
                oc_operation_type = op_type, oc_timestamp = timestamp e,
                oc_status = ''success'', oc_result_data = result\<rparr>\<rparr>
        in Inr (log_id, op_index,
             with_sessions (\<lambda>st. st\<lparr>ses_logs := (ses_logs st)(log_id \<mapsto> entry),
               ses_log_ids := (ses_log_ids st)((session_id, op_index) \<mapsto> log_id)\<rparr>) s2))))"

definition submit_attestation_with_session ::
    "env \<Rightarrow> u64 \<Rightarrow> address \<Rightarrow> address \<Rightarrow> u64 \<Rightarrow> bytes \<Rightarrow> bytes \<Rightarrow> contract \<Rightarrow> trap + (u64 \<times> contract)" where
  "submit_attestation_with_session e session_id issuer subject ts payload_hash signature s =
     bind_ok (require_auth e issuer) (\<lambda>_.
     bind_ok (require_session_open e session_id s) (\<lambda>s1.
     bind_ok (check_attestor issuer s1) (\<lambda>_.
     bind_ok (verify_attestation_signature e issuer payload_hash signature s1) (\<lambda>_.
     bind_ok (enforce_rate_limit e issuer s1) (\<lambda>s2.
     bind_ok (check_timestamp ts) (\<lambda>_.
       if att_session_used (c_attest s2) (session_id, payload_hash) \<noteq> None
       then refuse_replay e payload_hash issuer s2
       else
         let s3 = with_attest (\<lambda>a. a\<lparr>att_session_used :=
                    (att_session_used a)((session_id, payload_hash) \<mapsto> True)\<rparr>) s2 in
       if att_used (c_attest s3) (issuer, payload_hash) \<noteq> None
       then refuse_replay e payload_hash issuer s3
       else
     bind_ok (record_attestation issuer subject ts payload_hash signature s3) (\<lambda>(n, s4).
     bind_ok (of_option (Panic SessionNotFound) (ses_sessions (c_sessions s4) session_id)) (\<lambda>session.
     bind_ok (plus_trap (se_nonce session) 1) (\<lambda>nonce.
       let s5 = put_session session_id (session\<lparr>se_nonce := nonce\<rparr>) s4 in
     bind_ok (log_session_operation e session_id issuer ''attest'' n s5) (\<lambda>(log_id, op_index, s6).
       Inr (n, accept_event e
                 (emit (EvAuditLogged log_id session_id op_index ''attest'' ''success'' 0)
                   (emit (EvAttestRecorded n subject payload_hash ts) s6)))))))))))))"

text \<open>Registration inside a session checks neither the capacity nor the counter.\<close>

definition register_attestor_with_session ::
    "env \<Rightarrow> address \<Rightarrow> u64 \<Rightarrow> address \<Rightarrow> bytes \<Rightarrow> contract \<Rightarrow> trap + contract" where
  "register_attestor_with_session e operator session_id attestor public_key s =
     bind_ok (require_admin_or_role e operator AttestorAdmin s) (\<lambda>_.
     bind_ok (require_session_open e session_id s) (\<lambda>s1.
       if ats_registered (c_attestors s1) attestor \<noteq> None then Inl (Panic AttestorAlreadyRegistered)
       else
         let s2 = with_attestors (\<lambda>a. list_add attestor
                    (a\<lparr>ats_registered := (ats_registered a)(attestor \<mapsto> True),
                       ats_public_key := (ats_public_key a)(attestor \<mapsto> public_key)\<rparr>)) s1 in
     bind_ok (log_session_operation e session_id operator ''register'' 0 s2) (\<lambda>(log_id, op_index, s3).
       Inr (emit (EvAuditLogged log_id session_id op_index ''register'' ''success'' 0)
             (emit (EvAttestorAdded attestor (timestamp e)) s3)))))"

definition revoke_attestor_with_session ::
    "env \<Rightarrow> address \<Rightarrow> u64 \<Rightarrow> address \<Rightarrow> contract \<Rightarrow> trap + contract" where
  "revoke_attestor_with_session e operator session_id attestor s =
     bind_ok (require_admin_or_role e operator AttestorAdmin s) (\<lambda>_.
     bind_ok (require_session_open e session_id s) (\<lambda>s1.
       if ats_registered (c_attestors s1) attestor = None then Inl (Panic AttestorNotRegistered)
       else
         let s2 = with_attestors (\<lambda>a. list_remove attestor
                    (a\<lparr>ats_registered := (ats_registered a)(attestor := None),
                       ats_public_key := (ats_public_key a)(attestor := None)\<rparr>)) s1 in
     bind_ok (log_session_operation e session_id operator ''revoke'' 0 s2) (\<lambda>(log_id, op_index, s3).
       Inr (emit (EvAuditLogged log_id session_id op_index ''revoke'' ''success'' 0)
             (emit (EvAttestorRemoved attestor operator (timestamp e)) s3)))))"

section \<open>Queries\<close>

definition get_session :: "contract \<Rightarrow> u64 \<Rightarrow> trap + session" where
  "get_session s i = of_option (Panic SessionNotFound) (ses_sessions (c_sessions s) i)"

definition get_session_state :: "env \<Rightarrow> contract \<Rightarrow> u64 \<Rightarrow> trap + u32" where
  "get_session_state e s i =
     bind_ok (get_session s i) (\<lambda>session.
       if sat_add (se_created_at session) (session_ttl session) < timestamp e
       then Inr (state_u32 Expired) else Inr (se_state session))"

definition get_audit_log :: "contract \<Rightarrow> u64 \<Rightarrow> trap + audit_log" where
  "get_audit_log s i = of_option (Panic AuditLogNotFound) (ses_logs (c_sessions s) i)"

text \<open>The session log entry found under an index.\<close>

definition session_entry :: "contract \<Rightarrow> u64 \<Rightarrow> u64 \<Rightarrow> audit_log option" where
  "session_entry s session_id i =
     (case ses_log_ids (c_sessions s) (session_id, i) of
        None \<Rightarrow> None
      | Some log_id \<Rightarrow> ses_logs (c_sessions s) log_id)"

definition get_session_audit_logs :: "contract \<Rightarrow> u64 \<Rightarrow> u64 \<Rightarrow> audit_log list" where
  "get_session_audit_logs s session_id limit =
     (let total = session_op_count s session_id;
          start = (if limit < total then total - limit else 0)
      in List.map_filter (session_entry s session_id) (id_range start total))"

definition get_audit_logs_paginated :: "contract \<Rightarrow> u64 \<Rightarrow> u64 \<Rightarrow> audit_log list" where
  "get_audit_logs_paginated s offset limit =
     (let total = get_or 0 (ses_log_count (c_sessions s));
          stop = min (sat_add offset (min limit 50)) total
      in List.map_filter (ses_logs (c_sessions s)) (id_range offset stop))"

definition get_session_logs_paginated :: "contract \<Rightarrow> u64 \<Rightarrow> u64 \<Rightarrow> u64 \<Rightarrow> audit_log list" where
  "get_session_logs_paginated s session_id offset limit =
     (let total = session_op_count s session_id;
          stop = min (sat_add offset (min limit 50)) total
      in List.map_filter (session_entry s session_id) (id_range offset stop))"

section \<open>Retention and pruning\<close>

definition set_audit_log_retention :: "env \<Rightarrow> u64 \<Rightarrow> contract \<Rightarrow> trap + contract" where
  "set_audit_log_retention e retention_days s =
     bind_ok (require_admin e s) (\<lambda>_.
       if MAX_AUDIT_LOG_RETENTION_DAYS < retention_days then Inl (Panic ValidationError)
       else Inr (with_sessions (\<lambda>st. st\<lparr>ses_retention := Some retention_days\<rparr>) s))"

definition get_audit_log_retention :: "contract \<Rightarrow> u64" where
  "get_audit_log_retention s = get_or 0 (ses_retention (c_sessions s))"

text \<open>The scan covers the identifiers below 100, always from zero.\<close>

definition prune_step :: "u64 \<Rightarrow> u64 \<times> session_store \<Rightarrow> u64 \<Rightarrow> trap + (u64 \<times> session_store)" where
  "prune_step before_timestamp = (\<lambda>(pruned, st) i.
     case ses_logs st i of
       None \<Rightarrow> Inr (pruned, st)
     | Some entry \<Rightarrow>
         if oc_timestamp (al_operation entry) < before_timestamp
         then bind_ok (plus_trap pruned 1) (\<lambda>pruned'.
                Inr (pruned', st\<lparr>ses_logs := (ses_logs st)(i := None)\<rparr>))
         else Inr (pruned, st))"

definition prune_audit_logs_internal :: "u64 \<Rightarrow> contract \<Rightarrow> trap + (u64 \<times> contract)" where
  "prune_audit_logs_internal before_timestamp s =
     (let total = get_or 0 (ses_log_count (c_sessions s));
          scan_limit = min total 100
      in bind_ok (list_bind (prune_step before_timestamp) (0, c_sessions s) (id_range 0 scan_limit))
           (\<lambda>(pruned, st). Inr (pruned, s\<lparr>c_sessions := st\<rparr>)))"

definition prune_audit_logs :: "env \<Rightarrow> u64 \<Rightarrow> contract \<Rightarrow> trap + (u64 \<times> contract)" where
  "prune_audit_logs e before_timestamp s =
     bind_ok (require_admin e s) (\<lambda>_. prune_audit_logs_internal before_timestamp s)"

definition set_auto_prune_threshold :: "env \<Rightarrow> u32 \<Rightarrow> contract \<Rightarrow> trap + contract" where
  "set_auto_prune_threshold e n s =
     bind_ok (require_admin e s) (\<lambda>_.
       Inr (with_sessions (\<lambda>st. st\<lparr>ses_auto_prune := Some n\<rparr>) s))"

definition get_audit_log_count :: "env \<Rightarrow> contract \<Rightarrow> trap + (u64 \<times> contract)" where
  "get_audit_log_count e s =
     (let count = get_or 0 (ses_log_count (c_sessions s));
          threshold = get_or 0 (ses_auto_prune (c_sessions s))
      in if 0 < threshold \<and> ucast threshold < count
         then bind_ok (times_trap (get_audit_log_retention s) 86400) (\<lambda>secs.
              bind_ok (prune_audit_logs_internal (sat_sub (timestamp e) secs) s) (\<lambda>(pruned, s1).
                Inr (count, if 0 < pruned then emit (EvAuditPruned pruned) s1 else s1)))
         else Inr (count, s))"

section \<open>What the steps change\<close>

abbreviation op_count :: "session_store \<Rightarrow> u64 \<Rightarrow> u64" where
  "op_count st i \<equiv> get_or 0 (ses_op_count st i)"

abbreviation set_session :: "u64 \<Rightarrow> session \<Rightarrow> session_store \<Rightarrow> session_store" where
  "set_session i session st \<equiv> st\<lparr>ses_sessions := (ses_sessions st)(i \<mapsto> session)\<rparr>"

definition logged ::
    "env \<Rightarrow> u64 \<Rightarrow> address \<Rightarrow> string \<Rightarrow> u64 \<Rightarrow> session_store \<Rightarrow> session_store" where
  "logged e i actor op_type result st =
     (let k = op_count st i; l = get_or 0 (ses_log_count st) in
      st\<lparr>ses_op_count := (ses_op_count st)(i \<mapsto> k + 1),
         ses_log_count := Some (l + 1),
         ses_logs := (ses_logs st)(l \<mapsto>
           \<lparr>al_log_id = l, al_session_id = i, al_actor = actor,
            al_operation = \<lparr>oc_session_id = i, oc_operation_index = k, oc_operation_type = op_type,
              oc_timestamp = timestamp e, oc_status = ''success'', oc_result_data = result\<rparr>\<rparr>),
         ses_log_ids := (ses_log_ids st)((i, k) \<mapsto> l)\<rparr>)"

lemma log_session_operation_Inr [ok_simps]:
  "log_session_operation e i actor ty res s = Inr (l, k, s') \<longleftrightarrow>
     l = get_or 0 (ses_log_count (c_sessions s)) \<and> k = op_count (c_sessions s) i \<and>
     unat l + 1 < 2 ^ 64 \<and> unat k + 1 < 2 ^ 64 \<and>
     s' = with_sessions (logged e i actor ty res) s"
  by (auto simp: log_session_operation_def next_audit_log_id_def session_op_count_def logged_def
      checked_add_def Let_def ok_simps)

definition opened :: "u64 \<Rightarrow> session_store \<Rightarrow> session_store" where
  "opened i st =
     (case ses_sessions st i of
        None \<Rightarrow> st
      | Some session \<Rightarrow>
          if from_u32 (se_state session) = Created
          then set_session i (session\<lparr>se_state := state_u32 Active\<rparr>) st else st)"

lemma validate_session_Inr [ok_simps]:
  "validate_session e session = Inr u \<longleftrightarrow>
     \<not> session_is_expired e session \<and> accepts_operations (from_u32 (se_state session))"
  by (auto simp: validate_session_def split: session_state.splits)

lemma require_session_open_ok:
  assumes "require_session_open e i s = Inr s'"
  shows "\<exists>session. ses_sessions (c_sessions s) i = Some session \<and>
    \<not> session_is_expired e session \<and> accepts_operations (from_u32 (se_state session)) \<and>
    unat (op_count (c_sessions s) i) < 100 \<and> s' = with_sessions (opened i) s"
  using assms
  by (auto simp: require_session_open_def Let_def ok_simps opened_def put_session_def session_op_count_def
      MAX_OPS_PER_SESSION_def word_le_nat_alt split: if_splits)

section \<open>Invariant\<close>

text \<open>
  Session identifiers are consecutive; a stored state is \<open>Created\<close>, \<open>Active\<close> or \<open>Closed\<close>; no session
  runs more than 100 operations; each operation of a session has one log identifier, no two
  share one, and every log entry that has not been pruned is the one of its operation.
\<close>

definition session_wf :: "u64 \<Rightarrow> session \<Rightarrow> bool" where
  "session_wf i se \<longleftrightarrow>
     se_session_id se = i \<and> se_session_ttl_seconds se = DEFAULT_SESSION_TTL \<and>
     se_operation_count se = 0 \<and>
     se_state se \<in> {state_u32 Created, state_u32 Active, state_u32 Closed} \<and>
     (se_closed se \<longleftrightarrow> se_state se = state_u32 Closed)"

definition session_ids_inv :: "session_store \<Rightarrow> bool" where
  "session_ids_inv st \<longleftrightarrow>
     (\<forall>i. (ses_sessions st i \<noteq> None) = (unat i < unat (get_or 0 (ses_count st)))) \<and>
     (\<forall>i se. ses_sessions st i = Some se \<longrightarrow> session_wf i se)"

definition session_ops_inv :: "session_store \<Rightarrow> bool" where
  "session_ops_inv st \<longleftrightarrow>
     (\<forall>i. op_count st i \<le> 100) \<and>
     (\<forall>i. (case ses_sessions st i of None \<Rightarrow> True | Some se \<Rightarrow> se_state se = state_u32 Created) \<longrightarrow>
        op_count st i = 0)"

definition session_logs_inv :: "session_store \<Rightarrow> bool" where
  "session_logs_inv st \<longleftrightarrow>
     (\<forall>i k. (ses_log_ids st (i, k) \<noteq> None) = (unat k < unat (op_count st i))) \<and>
     (\<forall>p l. ses_log_ids st p = Some l \<longrightarrow> unat l < unat (get_or 0 (ses_log_count st))) \<and>
     (\<forall>p q l. ses_log_ids st p = Some l \<longrightarrow> ses_log_ids st q = Some l \<longrightarrow> p = q) \<and>
     (\<forall>l en. ses_logs st l = Some en \<longrightarrow> al_log_id en = l \<and>
        oc_session_id (al_operation en) = al_session_id en \<and>
        ses_log_ids st (al_session_id en, oc_operation_index (al_operation en)) = Some l)"

definition session_inv :: "session_store \<Rightarrow> bool" where
  "session_inv st \<longleftrightarrow> session_ids_inv st \<and> session_ops_inv st \<and> session_logs_inv st"

lemmas session_inv_defs = session_inv_def session_ids_inv_def session_ops_inv_def session_logs_inv_def

lemma session_inv_empty: "session_inv (c_sessions fresh_contract)"
  by (simp add: session_inv_defs fresh_contract_def)

lemma create_session_inv:
  assumes "create_session e a s = Inr (i, s')" and inv: "session_inv (c_sessions s)"
  shows "session_inv (c_sessions s')"
proof -
  let ?st = "c_sessions s"
  let ?n = "get_or 0 (ses_count ?st)"
  let ?se = "\<lparr>se_session_id = ?n, se_initiator = a, se_created_at = timestamp e, se_nonce = 0,
      se_operation_count = 0, se_session_ttl_seconds = DEFAULT_SESSION_TTL, se_closed = False,
      se_state = state_u32 Created\<rparr>"
  let ?st' = "?st\<lparr>ses_count := Some (?n + 1), ses_sessions := (ses_sessions ?st)(?n \<mapsto> ?se)\<rparr>"
  from assms(1) have n: "unat (?n + 1) = Suc (unat ?n)" and s': "c_sessions s' = ?st'"
    by (auto simp: create_session_def Let_def ok_simps unat_word_ariths)
  have none: "ses_sessions ?st ?n = None"
    using inv unfolding session_inv_defs by (metis less_irrefl option.exhaust)
  have wf: "session_wf ?n ?se" by (simp add: session_wf_def)
  have "session_ids_inv ?st'"
    using inv wf n unfolding session_inv_defs
    by (auto simp: less_Suc_eq) (simp_all add: word_unat_eq_iff)
  moreover have "session_ops_inv ?st'"
    using inv none unfolding session_inv_defs by (auto split: option.splits)
  moreover have "session_logs_inv ?st'"
    using inv by (simp add: session_inv_defs)
  ultimately show ?thesis by (simp add: session_inv_def s')
qed

lemma set_session_inv:
  assumes "session_inv st" and "ses_sessions st i = Some old" and "session_wf i new"
    and "se_state new = state_u32 Created \<Longrightarrow> se_state old = state_u32 Created"
  shows "session_inv (set_session i new st)"
proof -
  have "session_ids_inv (set_session i new st)" "session_logs_inv (set_session i new st)"
    using assms(1-3) by (auto simp: session_inv_defs)
  moreover have "session_ops_inv (set_session i new st)"
    using assms(1,2,4) unfolding session_inv_defs by (force split: option.splits)
  ultimately show ?thesis by (simp add: session_inv_def)
qed

lemma opened_inv:
  assumes inv: "session_inv st"
  shows "session_inv (opened i st)"
proof (cases "ses_sessions st i")
  case (Some session)
  then have wf: "session_wf i session" using inv by (simp add: session_inv_defs)
  have "session_inv (set_session i (session\<lparr>se_state := state_u32 Active\<rparr>) st)"
    if "from_u32 (se_state session) = Created"
    by (rule set_session_inv [OF inv Some])
      (use wf that in \<open>auto simp: session_wf_def from_u32_def split: if_splits\<close>)
  then show ?thesis using Some inv by (simp add: opened_def)
qed (simp add: opened_def inv)

lemma opened_simps [simp]:
  "ses_op_count (opened i st) = ses_op_count st" "ses_log_count (opened i st) = ses_log_count st"
  "ses_count (opened i st) = ses_count st" "ses_logs (opened i st) = ses_logs st"
  "ses_log_ids (opened i st) = ses_log_ids st"
  by (simp_all add: opened_def split: option.split)

lemma opened_session:
  assumes "ses_sessions st i = Some se" and "accepts_operations (from_u32 (se_state se))"
    and "session_wf i se"
  shows "\<exists>se'. ses_sessions (opened i st) i = Some se' \<and> se_state se' = state_u32 Active \<and>
    se_initiator se' = se_initiator se \<and> se_nonce se' = se_nonce se"
  using assms by (auto simp: opened_def session_wf_def from_u32_def)

text \<open>Logging keeps the invariant while the session is open and below its limit.\<close>

lemma logged_inv:
  assumes inv: "session_inv st" and se: "ses_sessions st i = Some se" "se_state se \<noteq> state_u32 Created"
    and k: "unat (op_count st i) < 100" and l: "unat (get_or 0 (ses_log_count st)) + 1 < 2 ^ 64"
  shows "session_inv (logged e i actor ty res st)"
proof -
  let ?k = "op_count st i" and ?l = "get_or 0 (ses_log_count st)"
  have k1: "unat (?k + 1) = Suc (unat ?k)" using k by (simp add: unat_word_ariths)
  have l1: "unat (?l + 1) = Suc (unat ?l)" using l by (simp add: unat_word_ariths)
  have fresh: "ses_log_ids st p \<noteq> Some ?l" for p
    using inv unfolding session_inv_defs by (metis less_irrefl)
  have none: "ses_log_ids st (i, ?k) = None"
    using inv unfolding session_inv_defs by (metis less_irrefl option.exhaust)
  have old: "(al_session_id en, oc_operation_index (al_operation en)) \<noteq> (i, ?k)" if "ses_logs st m = Some en" for m en
  proof
    assume "(al_session_id en, oc_operation_index (al_operation en)) = (i, ?k)"
    moreover have "ses_log_ids st (al_session_id en, oc_operation_index (al_operation en)) = Some m"
      using inv that unfolding session_inv_defs by blast
    ultimately show False using none by simp
  qed
  have "session_ids_inv (logged e i actor ty res st)"
    using inv by (simp add: session_inv_defs logged_def Let_def)
  moreover have "session_ops_inv (logged e i actor ty res st)"
    using inv k k1 se by (auto simp: session_inv_defs logged_def Let_def word_le_nat_alt)
  moreover have "session_logs_inv (logged e i actor ty res st)"
    using inv fresh none old unfolding session_inv_defs logged_def Let_def
    by (auto simp: k1 l1 less_Suc_eq) (simp_all add: word_unat_eq_iff)
  ultimately show ?thesis by (simp add: session_inv_def)
qed

section \<open>Every operation keeps the invariant\<close>

lemma close_session_ok:
  assumes "close_session e i a s = Inr s'"
  shows "\<exists>se. ses_sessions (c_sessions s) i = Some se \<and> a \<in> auths e \<and> a = se_initiator se \<and>
    \<not> session_is_expired e se \<and> accepts_operations (from_u32 (se_state se)) \<and>
    s' = emit (EvSessionClosed i a (timestamp e))
      (put_session i (se\<lparr>se_closed := True, se_state := state_u32 Closed\<rparr>) s)"
proof -
  have legal: "validate_transition f Closed = Inr u \<longleftrightarrow> accepts_operations f" for f u
    by (cases f) (simp_all add: validate_transition_def is_legal_transition_iff)
  show ?thesis
    using assms
    by (auto simp: close_session_def Let_def ok_simps legal
        split: if_splits sum.split_asm transition_error.split_asm)
qed

lemma close_session_inv:
  assumes "close_session e i a s = Inr s'" and "session_inv (c_sessions s)"
  shows "session_inv (c_sessions s')"
proof -
  from close_session_ok [OF assms(1)] obtain se where se: "ses_sessions (c_sessions s) i = Some se"
    and s': "c_sessions s' = set_session i (se\<lparr>se_closed := True, se_state := state_u32 Closed\<rparr>) (c_sessions s)"
    by (auto simp: put_session_def)
  have "session_wf i se" using assms(2) se by (simp add: session_inv_defs)
  then show ?thesis
    unfolding s' by (intro set_session_inv [OF assms(2) se]) (auto simp: session_wf_def)
qed

text \<open>An open session, after the check, is \<open>Active\<close> and can log one more operation.\<close>

lemma open_session:
  assumes "require_session_open e i s = Inr s1" and "session_inv (c_sessions s)"
  obtains se where "ses_sessions (opened i (c_sessions s)) i = Some se"
    "se_state se = state_u32 Active" "unat (op_count (c_sessions s) i) < 100"
    "s1 = with_sessions (opened i) s" "session_inv (opened i (c_sessions s))"
proof -
  from require_session_open_ok [OF assms(1)] obtain se0 where
    se0: "ses_sessions (c_sessions s) i = Some se0" "accepts_operations (from_u32 (se_state se0))"
    and k: "unat (op_count (c_sessions s) i) < 100" and s1: "s1 = with_sessions (opened i) s"
    by blast
  moreover have "session_wf i se0" using assms(2) se0 by (simp add: session_inv_defs)
  ultimately show thesis
    using opened_session [OF se0] opened_inv [OF assms(2)] that by blast
qed

lemma logged_open_inv:
  assumes "require_session_open e i s = Inr s1" and "session_inv (c_sessions s)"
    and "unat (get_or 0 (ses_log_count (c_sessions s))) + 1 < 2 ^ 64"
  shows "session_inv (logged e' i actor ty res (opened i (c_sessions s)))"
  using assms(1,2)
proof (rule open_session)
  fix se assume "ses_sessions (opened i (c_sessions s)) i = Some se" "se_state se = state_u32 Active"
    "unat (op_count (c_sessions s) i) < 100" "session_inv (opened i (c_sessions s))"
  with assms(3) show ?thesis by (intro logged_inv) auto
qed

lemma submit_with_session_ok:
  assumes "submit_attestation_with_session e i iss sub ts h sg s = Inr (n, s')"
  shows "submitted e iss sub ts h sg s n s' \<and> att_session_used (c_attest s) (i, h) = None \<and>
    c_tracing s' = c_tracing s \<and>
    (\<exists>se. require_session_open e i s = Inr (with_sessions (opened i) s) \<and>
      ses_sessions (opened i (c_sessions s)) i = Some se \<and>
      unat (get_or 0 (ses_log_count (c_sessions s))) + 1 < 2 ^ 64 \<and>
      c_sessions s' = logged e i iss ''attest'' n
        (set_session i (se\<lparr>se_nonce := se_nonce se + 1\<rparr>) (opened i (c_sessions s))))"
proof -
  from assms obtain s1 s2 s4 se where op: "require_session_open e i s = Inr s1"
    and auth: "iss \<in> auths e" "ats_registered (c_attestors s1) iss \<noteq> None"
      "\<exists>pk. ats_public_key (c_attestors s1) iss = Some pk \<and> length sg = 64 \<and> ed25519_verify e pk h sg"
    and rl: "enforce_rate_limit e iss s1 = Inr s2" and ts: "ts \<noteq> 0"
    and su: "att_session_used (c_attest s2) (i, h) = None"
    and u: "att_used (c_attest s2) (iss, h) = None"
    and rec: "record_attestation iss sub ts h sg (with_attest (\<lambda>a. a\<lparr>att_session_used :=
        (att_session_used a)((i, h) \<mapsto> True)\<rparr>) s2) = Inr (n, s4)"
    and se: "ses_sessions (c_sessions s4) i = Some se"
    and log: "\<exists>l k s6. log_session_operation e i iss ''attest'' n
        (put_session i (se\<lparr>se_nonce := se_nonce se + 1\<rparr>) s4) = Inr (l, k, s6) \<and>
      s' = accept_event e (emit (EvAuditLogged l i k ''attest'' ''success'' 0)
                   (emit (EvAttestRecorded n sub h ts) s6))"
    unfolding submit_attestation_with_session_def
    by (auto simp: bind_ok_Inr if_Inl_Inr require_auth_Inr check_attestor_Inr Let_def plus_trap_Inr
        of_option_Inr verify_attestation_signature_Inr check_timestamp_Inr refuse_replay_Inr
        split: if_split_asm)
  have s1: "s1 = with_sessions (opened i) s" using require_session_open_ok [OF op] by blast
  obtain rl' au where s2: "s2 = s1\<lparr>c_rl := rl', c_audit := au\<rparr>" "audit_inv (c_audit s1) \<longrightarrow> audit_inv au"
    using enforce_rate_limit_ok [OF rl] by blast
  from rec have n: "n = next_id (c_attest s)" "n \<noteq> word_top"
    and s4: "s4 = with_attest (\<lambda>a. added n iss sub ts h sg (a\<lparr>att_session_used :=
        (att_session_used a)((i, h) \<mapsto> True)\<rparr>)) s2"
    by (auto simp: record_attestation_Inr s2 s1)
  have se': "ses_sessions (opened i (c_sessions s)) i = Some se"
    using se by (simp add: s4 s2 s1)
  from log have fits: "unat (get_or 0 (ses_log_count (c_sessions s))) + 1 < 2 ^ 64"
    and s': "\<exists>l k. s' = accept_event e (emit (EvAuditLogged l i k ''attest'' ''success'' 0)
        (emit (EvAttestRecorded n sub h ts) (with_sessions (logged e i iss ''attest'' n)
          (put_session i (se\<lparr>se_nonce := se_nonce se + 1\<rparr>) s4))))"
    by (auto simp: log_session_operation_Inr s4 s2 s1 put_session_def)
  have "submitted e iss sub ts h sg s n s'"
    using auth ts u n s' s2(2)
    by (auto simp: submitted_def s4 s2 s1 put_session_def)
  moreover have "c_sessions s' = logged e i iss ''attest'' n
      (set_session i (se\<lparr>se_nonce := se_nonce se + 1\<rparr>) (opened i (c_sessions s)))"
    using s' by (auto simp: s4 s2 s1 put_session_def)
  moreover have "c_tracing s' = c_tracing s"
    using s' by (auto simp: s4 s2 s1 put_session_def)
  ultimately show ?thesis
    using op s1 se' fits su by (simp add: s2)
qed

lemma submit_with_session_inv:
  assumes "submit_attestation_with_session e i iss sub ts h sg s = Inr (n, s')"
    and inv: "session_inv (c_sessions s)"
  shows "session_inv (c_sessions s')"
proof -
  from submit_with_session_ok [OF assms(1)] obtain se where
    op: "require_session_open e i s = Inr (with_sessions (opened i) s)"
    and se: "ses_sessions (opened i (c_sessions s)) i = Some se"
    and l: "unat (get_or 0 (ses_log_count (c_sessions s))) + 1 < 2 ^ 64"
    and s': "c_sessions s' = logged e i iss ''attest'' n
        (set_session i (se\<lparr>se_nonce := se_nonce se + 1\<rparr>) (opened i (c_sessions s)))"
    by blast
  from op inv obtain se0 where "ses_sessions (opened i (c_sessions s)) i = Some se0"
    and st: "se_state se0 = state_u32 Active" and k: "unat (op_count (c_sessions s) i) < 100"
    and oi: "session_inv (opened i (c_sessions s))"
    by (rule open_session)
  with se have st: "se_state se = state_u32 Active" by simp
  have "session_wf i se" using oi se by (simp add: session_inv_defs)
  then have "session_inv (set_session i (se\<lparr>se_nonce := se_nonce se + 1\<rparr>) (opened i (c_sessions s)))"
    by (intro set_session_inv [OF oi se]) (auto simp: session_wf_def)
  then show ?thesis
    unfolding s' by (rule logged_inv) (use st k l in auto)
qed

lemma register_with_session_ok:
  assumes "register_attestor_with_session e op i a pk s = Inr s'"
  shows "has_role s op AttestorAdmin \<and> op \<in> auths e \<and>
    require_session_open e i s = Inr (with_sessions (opened i) s) \<and>
    ats_registered (c_attestors s) a = None \<and>
    unat (get_or 0 (ses_log_count (c_sessions s))) + 1 < 2 ^ 64 \<and>
    (\<exists>evs. s' = s\<lparr>c_attestors := list_add a ((c_attestors s)\<lparr>
         ats_registered := (ats_registered (c_attestors s))(a \<mapsto> True),
         ats_public_key := (ats_public_key (c_attestors s))(a \<mapsto> pk)\<rparr>),
       c_sessions := logged e i op ''register'' 0 (opened i (c_sessions s)), c_events := evs\<rparr>)"
proof -
  from assms obtain s1 where op: "require_session_open e i s = Inr s1"
    unfolding register_attestor_with_session_def by (auto simp: bind_ok_Inr)
  then have s1: "s1 = with_sessions (opened i) s" using require_session_open_ok by blast
  from assms op [unfolded s1] show ?thesis
    unfolding register_attestor_with_session_def Let_def s1
    by (auto simp: bind_ok_Inr if_Inl_Inr require_admin_or_role_Inr log_session_operation_Inr emit_def
        split: if_split_asm)
qed

lemma revoke_with_session_ok:
  assumes "revoke_attestor_with_session e op i a s = Inr s'"
  shows "has_role s op AttestorAdmin \<and> op \<in> auths e \<and>
    require_session_open e i s = Inr (with_sessions (opened i) s) \<and>
    ats_registered (c_attestors s) a \<noteq> None \<and>
    unat (get_or 0 (ses_log_count (c_sessions s))) + 1 < 2 ^ 64 \<and>
    (\<exists>evs. s' = s\<lparr>c_attestors := list_remove a ((c_attestors s)\<lparr>
         ats_registered := (ats_registered (c_attestors s))(a := None),
         ats_public_key := (ats_public_key (c_attestors s))(a := None)\<rparr>),
       c_sessions := logged e i op ''revoke'' 0 (opened i (c_sessions s)), c_events := evs\<rparr>)"
proof -
  from assms obtain s1 where op: "require_session_open e i s = Inr s1"
    unfolding revoke_attestor_with_session_def by (auto simp: bind_ok_Inr)
  then have s1: "s1 = with_sessions (opened i) s" using require_session_open_ok by blast
  from assms op [unfolded s1] show ?thesis
    unfolding revoke_attestor_with_session_def Let_def s1
    by (auto simp: bind_ok_Inr if_Inl_Inr require_admin_or_role_Inr log_session_operation_Inr emit_def
        split: if_split_asm)
qed

lemma register_with_session_inv:
  assumes ok: "register_attestor_with_session e op i a pk s = Inr s'"
    and inv: "session_inv (c_sessions s)"
  shows "session_inv (c_sessions s')"
proof -
  from register_with_session_ok [OF ok]
  have op: "require_session_open e i s = Inr (with_sessions (opened i) s)"
    and fits: "unat (get_or 0 (ses_log_count (c_sessions s))) + 1 < 2 ^ 64"
    and s': "c_sessions s' = logged e i op ''register'' 0 (opened i (c_sessions s))" by auto
  show ?thesis unfolding s' by (rule logged_open_inv [OF op inv fits])
qed

lemma revoke_with_session_inv:
  assumes ok: "revoke_attestor_with_session e op i a s = Inr s'"
    and inv: "session_inv (c_sessions s)"
  shows "session_inv (c_sessions s')"
proof -
  from revoke_with_session_ok [OF ok]
  have op: "require_session_open e i s = Inr (with_sessions (opened i) s)"
    and fits: "unat (get_or 0 (ses_log_count (c_sessions s))) + 1 < 2 ^ 64"
    and s': "c_sessions s' = logged e i op ''revoke'' 0 (opened i (c_sessions s))" by auto
  show ?thesis unfolding s' by (rule logged_open_inv [OF op inv fits])
qed

lemma with_session_attestor_inv:
  "register_attestor_with_session e op i a pk s = Inr s' \<Longrightarrow>
    attestor_inv (c_attestors s) \<Longrightarrow> attestor_inv (c_attestors s')"
  "revoke_attestor_with_session e op i a s = Inr s' \<Longrightarrow>
    attestor_inv (c_attestors s) \<Longrightarrow> attestor_inv (c_attestors s')"
  by (auto dest!: register_with_session_ok revoke_with_session_ok simp: attestor_inv_def
      split: if_splits)

text \<open>Pruning removes exactly the old entries among the scanned identifiers, and counts them.\<close>

definition old_entry :: "session_store \<Rightarrow> u64 \<Rightarrow> u64 \<Rightarrow> bool" where
  "old_entry st t l \<longleftrightarrow>
     (case ses_logs st l of None \<Rightarrow> False | Some en \<Rightarrow> oc_timestamp (al_operation en) < t)"

lemma prune_steps:
  assumes "list_bind (prune_step t) (n, st) ls = Inr (n', st')" and "distinct ls"
  shows "st' = st\<lparr>ses_logs := \<lambda>l. if l \<in> set ls \<and> old_entry st t l then None else ses_logs st l\<rparr> \<and>
    unat n' = unat n + length (filter (old_entry st t) ls)"
  using assms
proof (induction ls arbitrary: n st)
  case (Cons l ls)
  show ?case
  proof (cases "old_entry st t l")
    case False
    then have "prune_step t (n, st) l = Inr (n, st)"
      by (auto simp: prune_step_def old_entry_def split: option.splits)
    moreover have "(x \<in> set (l # ls) \<and> old_entry st t x) = (x \<in> set ls \<and> old_entry st t x)" for x
      using False by auto
    ultimately show ?thesis using Cons.IH [of n st] Cons.prems False by simp
  next
    case True
    let ?st = "st\<lparr>ses_logs := (ses_logs st)(l := None)\<rparr>"
    have step: "prune_step t (n, st) l = bind_ok (plus_trap n 1) (\<lambda>m. Inr (m, ?st))"
      using True by (auto simp: prune_step_def old_entry_def split: option.splits)
    from Cons.prems(1) have "unat n + 1 < 2 ^ 64" and rest: "list_bind (prune_step t) (n + 1, ?st) ls = Inr (n', st')"
      by (simp_all add: step ok_simps) 
    then have m: "unat (n + 1) = unat n + 1" by (simp add: unat_word_ariths)
    have same: "old_entry ?st t x = old_entry st t x" if "x \<in> set ls" for x
      using that Cons.prems(2) by (auto simp: old_entry_def)
    then have fl: "filter (old_entry ?st t) ls = filter (old_entry st t) ls" by (rule filter_cong [OF refl])
    have "(\<lambda>x. if x \<in> set ls \<and> old_entry ?st t x then None else ses_logs ?st x) =
        (\<lambda>x. if x \<in> set (l # ls) \<and> old_entry st t x then None else ses_logs st x)"
      using True same by (intro ext) auto
    with Cons.IH [OF rest] Cons.prems(2) True m fl show ?thesis by simp
  qed
qed simp

lemma prune_ok:
  assumes "prune_audit_logs_internal t s = Inr (n, s')"
  defines "st \<equiv> c_sessions s"
  defines "gone \<equiv> \<lambda>l. l < min (get_or 0 (ses_log_count st)) 100 \<and> old_entry st t l"
  shows "s' = s\<lparr>c_sessions := st\<lparr>ses_logs := \<lambda>l. if gone l then None else ses_logs st l\<rparr>\<rparr> \<and>
    unat n = card {l. gone l}"
proof -
  let ?ls = "id_range 0 (min (get_or 0 (ses_log_count st)) 100)"
  from assms(1) obtain st' where run: "list_bind (prune_step t) (0, st) ?ls = Inr (n, st')"
    and s': "s' = s\<lparr>c_sessions := st'\<rparr>"
    by (auto simp: prune_audit_logs_internal_def Let_def ok_simps st_def)
  have "card {l. gone l} = length (filter (old_entry st t) ?ls)"
  proof -
    have "{l. gone l} = set (filter (old_entry st t) ?ls)"
      unfolding set_filter set_id_range gone_def by blast
    then show ?thesis using distinct_card [OF distinct_filter [OF distinct_id_range]] by (simp only:)
  qed
  with prune_steps [OF run distinct_id_range] s' show ?thesis
    by (simp add: set_id_range gone_def)
qed

lemma fewer_logs_inv:
  assumes inv: "session_inv st" and sub: "\<And>l en. f l = Some en \<Longrightarrow> ses_logs st l = Some en"
  shows "session_inv (st\<lparr>ses_logs := f\<rparr>)"
proof -
  have "session_logs_inv (st\<lparr>ses_logs := f\<rparr>)"
    using inv unfolding session_inv_def session_logs_inv_def
    by (auto simp del: not_None_eq dest!: sub)
  moreover have "session_ids_inv (st\<lparr>ses_logs := f\<rparr>)" "session_ops_inv (st\<lparr>ses_logs := f\<rparr>)"
    using inv by (simp_all add: session_inv_defs)
  ultimately show ?thesis by (simp add: session_inv_def)
qed

lemma prune_inv:
  assumes "prune_audit_logs_internal t s = Inr (n, s')" and "session_inv (c_sessions s)"
  shows "session_inv (c_sessions s')"
  unfolding prune_ok [OF assms(1), THEN conjunct1] contract.select_convs contract.surjective
  by simp (rule fewer_logs_inv [OF assms(2)], simp split: if_split_asm)

section \<open>Properties\<close>

text \<open>Concrete runs: the sample contract with the fresh session 0 of \<open>A\<close>, created at time 1.\<close>

definition sample_session :: contract where
  "sample_session = sample_contract\<lparr>c_sessions := (c_sessions fresh_contract)\<lparr>ses_count := Some 1,
     ses_sessions := [0 \<mapsto> \<lparr>se_session_id = 0, se_initiator = ''A'', se_created_at = 1, se_nonce = 0,
       se_operation_count = 0, se_session_ttl_seconds = DEFAULT_SESSION_TTL, se_closed = False,
       se_state = state_u32 Created\<rparr>]\<rparr>\<rparr>"

lemma sample_session_created:
  "\<exists>evs. create_session (accepting_env 1 1 {''A''}) ''A'' sample_contract =
     Inr (0, sample_session\<lparr>c_events := evs\<rparr>)"
  by (simp add: create_session_def sample_session_def sample_contract_def fresh_contract_def Let_def
      accepting_env_def require_auth_def plus_trap_def checked_add_def emit_def)

lemmas sample_defs = sample_session_def sample_contract_def fresh_contract_def accepting_env_def
  empty_rl_store_def empty_audit_store_def empty_replay_store_def

lemma sample_open:
  "require_session_open (accepting_env 9 1 who) 0 sample_session = Inr (with_sessions (opened 0) sample_session)"
  by (simp add: require_session_open_def sample_defs opened_def put_session_def session_op_count_def
      validate_session_def session_is_expired_def session_expiry_def session_ttl_def DEFAULT_SESSION_TTL_def
      MAX_OPS_PER_SESSION_def from_u32_def sat_add_def word_less_nat_alt word_le_nat_alt Let_def)

text \<open>
  C27. Closing is final: after a successful \<open>close_session\<close> the stored state is \<open>Closed\<close> and
  every further operation on the session fails, whoever calls it and at whatever time: it can
  not be closed again, and no attestation, registration or revocation can run in it.
\<close>

theorem closing_is_final:
  assumes "close_session e i a s = Inr s'"
  shows "(\<exists>se. get_session s' i = Inr se \<and> se_closed se \<and> se_state se = state_u32 Closed) \<and>
    (\<forall>e' b. isl (close_session e' i b s')) \<and>
    (\<forall>e' iss sub ts h sg. isl (submit_attestation_with_session e' i iss sub ts h sg s')) \<and>
    (\<forall>e' op b pk. isl (register_attestor_with_session e' op i b pk s')) \<and>
    (\<forall>e' op b. isl (revoke_attestor_with_session e' op i b s'))"
proof -
  from close_session_ok [OF assms] obtain se where
    se: "ses_sessions (c_sessions s') i = Some se" "se_closed se" "se_state se = state_u32 Closed"
    by (auto simp: put_session_def)
  have shut: "\<not> accepts_operations (from_u32 (se_state se))" by (simp add: se from_u32_def)
  have "require_session_open e' i s' \<noteq> Inr s1" for e' s1
    using require_session_open_ok [of e' i s' s1] se shut by auto
  moreover have "close_session e' i b s' \<noteq> Inr s1" for e' b s1
    using close_session_ok [of e' i b s' s1] se shut by auto
  moreover have fails: "isl m \<longleftrightarrow> (\<forall>x. m \<noteq> Inr x)" for m :: "trap + 'x" by (cases m) auto
  ultimately show ?thesis
    using se by (auto simp: get_session_def fails dest: submit_with_session_ok register_with_session_ok
        revoke_with_session_ok)
qed

theorem closing_is_final_witness:
  "\<exists>s'. close_session (accepting_env 9 1 {''A''}) 0 ''A'' sample_session = Inr s' \<and>
     isl (close_session (accepting_env 10 1 {''A''}) 0 ''A'' s')"
proof -
  obtain s' where run: "close_session (accepting_env 9 1 {''A''}) 0 ''A'' sample_session = Inr s'"
    by (simp add: close_session_def sample_defs session_is_expired_def session_expiry_def session_ttl_def
        DEFAULT_SESSION_TTL_def from_u32_def require_auth_def Let_def sat_add_def word_less_nat_alt
        validate_transition_def is_legal_transition_iff)
  with closing_is_final [OF run] show ?thesis by blast
qed

text \<open>
  C26. An attestation submitted in a session leaves a complete trail: the operation gets the
  next index of the session, which was below 100; its log entry, found under that index and under
  a fresh log identifier, names the session, the issuer, the time and the identifier of the
  attestation; the attestation holds what was submitted; and no older log entry changes.
\<close>

theorem session_attestation_trail:
  assumes "submit_attestation_with_session e i iss sub ts h sg s = Inr (n, s')"
  shows "let k = session_op_count s i; l = get_or 0 (ses_log_count (c_sessions s));
             entry = \<lparr>al_log_id = l, al_session_id = i, al_actor = iss,
               al_operation = \<lparr>oc_session_id = i, oc_operation_index = k,
                 oc_operation_type = ''attest'', oc_timestamp = timestamp e,
                 oc_status = ''success'', oc_result_data = n\<rparr>\<rparr>
    in unat k < 100 \<and> session_op_count s' i = k + 1 \<and> session_entry s' i k = Some entry \<and>
       get_audit_log s' l = Inr entry \<and> (\<forall>l'. l' \<noteq> l \<longrightarrow> get_audit_log s' l' = get_audit_log s l') \<and>
       (\<exists>at. get_attestation s' n = Inr at \<and> at_issuer at = iss \<and> at_subject at = sub \<and>
          at_timestamp at = ts \<and> at_payload_hash at = h \<and> at_signature at = sg) \<and>
       get_attestation_by_hash s' iss h = Inr n"
proof -
  from submit_with_session_ok [OF assms] obtain se where
    op: "require_session_open e i s = Inr (with_sessions (opened i) s)"
    and sub: "submitted e iss sub ts h sg s n s'"
    and s': "c_sessions s' = logged e i iss ''attest'' n
        (set_session i (se\<lparr>se_nonce := se_nonce se + 1\<rparr>) (opened i (c_sessions s)))"
    by blast
  have "unat (session_op_count s i) < 100"
    using require_session_open_ok [OF op] by (auto simp: session_op_count_def)
  moreover from sub obtain x where
    "c_attest s' = added n iss sub ts h sg ((c_attest s)\<lparr>att_session_used := x\<rparr>)"
    by (auto simp: submitted_def)
  ultimately show ?thesis
    by (simp add: Let_def session_op_count_def session_entry_def get_audit_log_def s' logged_def
        get_attestation_def get_attestation_by_hash_def added_def)
qed

theorem session_attestation_trail_witness:
  "\<exists>n s'. submit_attestation_with_session (accepting_env 9 1 {''A''}) 0 ''A'' ''S'' 5 ''h''
      (replicate 64 CHR ''s'') sample_session = Inr (n, s') \<and> session_op_count s' 0 = 1 \<and>
    (\<exists>entry. session_entry s' 0 0 = Some entry \<and> al_actor entry = ''A'')"
proof -
  let ?e = "accepting_env 9 1 {''A''}"
  have rl: "enforce_rate_limit ?e ''A'' (with_sessions (opened 0) sample_session) =
      Inr ((with_sessions (opened 0) sample_session)\<lparr>c_rl := (c_rl sample_session)\<lparr>rl_state :=
        [''A'' \<mapsto> \<lparr>submission_count = 1, window_start_ledger = 1\<rparr>]\<rparr>\<rparr>)"
    by (simp add: enforce_rate_limit_def check_and_increment_def current_window_def get_rl_state_def
        resolve_config_def get_rl_config_def rate_limit_role_def has_role_def sample_defs Let_def
        word_le_nat_alt sat_add_def)
  obtain n s' where run: "submit_attestation_with_session ?e 0 ''A'' ''S'' 5 ''h''
      (replicate 64 CHR ''s'') sample_session = Inr (n, s')"
    unfolding submit_attestation_with_session_def sample_open bind_ok.simps
    by (simp add: rl)
      (simp add: sample_defs require_auth_def check_attestor_def verify_attestation_signature_def
        check_timestamp_def record_attestation_def next_attestation_id_def store_attestation_def
        mark_used_def put_session_def log_session_operation_def next_audit_log_id_def session_op_count_def
        opened_def from_u32_def plus_trap_def checked_add_def word_top_def Let_def)
  have "session_op_count sample_session 0 = 0"
    by (simp add: session_op_count_def sample_defs)
  with session_attestation_trail [OF run] run show ?thesis by (auto simp: Let_def)
qed

text \<open>
  Pruning removes exactly the log entries that are older than the given time and have one
  of the first hundred identifiers, and returns their number.  Older entries with a later
  identifier are never removed, however old they are.
\<close>

theorem pruning_scope:
  assumes "prune_audit_logs e t s = Inr (n, s')"
  shows "let gone = {l. unat l < min (unat (get_or 0 (ses_log_count (c_sessions s)))) 100 \<and>
               (\<exists>en. get_audit_log s l = Inr en \<and> oc_timestamp (al_operation en) < t)}
    in (\<forall>l. get_audit_log s' l = (if l \<in> gone then Inl (Panic AuditLogNotFound) else get_audit_log s l)) \<and>
       unat n = card gone"
proof -
  from assms have run: "prune_audit_logs_internal t s = Inr (n, s')"
    by (auto simp: prune_audit_logs_def ok_simps)
  have gone: "(l < min (get_or 0 (ses_log_count (c_sessions s))) 100 \<and> old_entry (c_sessions s) t l) =
      (unat l < min (unat (get_or 0 (ses_log_count (c_sessions s)))) 100 \<and>
        (\<exists>en. get_audit_log s l = Inr en \<and> oc_timestamp (al_operation en) < t))" for l
    by (auto simp: old_entry_def get_audit_log_def word_less_nat_alt word_le_nat_alt min_def ok_simps
        split: option.split)
  note ok = prune_ok [OF run, unfolded gone]
  show ?thesis
    unfolding Let_def ok [THEN conjunct2] ok [THEN conjunct1] by (auto simp: get_audit_log_def)
qed

theorem pruning_scope_witness:
  "\<exists>n s'. prune_audit_logs (accepting_env 9 1 {''ADMIN''}) 7 (with_sessions (\<lambda>st.
      st\<lparr>ses_log_count := Some 1, ses_logs := [0 \<mapsto> \<lparr>al_log_id = 0, al_session_id = 0, al_actor = ''A'',
        al_operation = \<lparr>oc_session_id = 0, oc_operation_index = 0, oc_operation_type = ''attest'',
          oc_timestamp = 5, oc_status = ''success'', oc_result_data = 0\<rparr>\<rparr>]\<rparr>) sample_session) = Inr (n, s') \<and>
    isl (get_audit_log s' 0)"
proof -
  let ?s = "with_sessions (\<lambda>st.
      st\<lparr>ses_log_count := Some 1, ses_logs := [0 \<mapsto> \<lparr>al_log_id = 0, al_session_id = 0, al_actor = ''A'',
        al_operation = \<lparr>oc_session_id = 0, oc_operation_index = 0, oc_operation_type = ''attest'',
          oc_timestamp = 5, oc_status = ''success'', oc_result_data = 0\<rparr>\<rparr>]\<rparr>) sample_session"
  obtain n s' where run: "prune_audit_logs (accepting_env 9 1 {''ADMIN''}) 7 ?s = Inr (n, s')"
    by (simp add: prune_audit_logs_def require_admin_def get_admin_def require_auth_def sample_defs
        prune_audit_logs_internal_def id_range_def prune_step_def plus_trap_def checked_add_def Let_def
        min_def word_le_nat_alt word_less_nat_alt)
  have "get_audit_log s' 0 = Inl (Panic AuditLogNotFound)"
    using pruning_scope [OF run] by (simp add: Let_def get_audit_log_def word_less_nat_alt)
  with run show ?thesis by auto
qed

text \<open>
  Registering inside a session by-passes the attestor counter: if the counter is zero, the
  attestor registered that way and then revoked is no longer an attestor, but the list of
  registered attestors still contains it.
\<close>

theorem revoked_attestor_stays_listed:
  assumes "register_attestor_with_session e op i a pk s = Inr s1" and "get_attestor_count s = 0"
    and "revoke_attestor e' a s1 = Inr s2"
  shows "get_attestor_count s1 = 0 \<and> \<not> is_attestor s2 a \<and> a \<in> set (list_registered_attestors s2)"
proof -
  from register_with_session_ok [OF assms(1)] have s1: "c_attestors s1 = list_add a ((c_attestors s)\<lparr>
         ats_registered := (ats_registered (c_attestors s))(a \<mapsto> True),
         ats_public_key := (ats_public_key (c_attestors s))(a \<mapsto> pk)\<rparr>)" by auto
  from revoke_attestor_ok [OF assms(3)] obtain admin pk' where
    s2: "c_attestors s2 = drop_attestor e' a admin pk' (c_attestors s1)" by blast
  show ?thesis
    using assms(2)
    by (simp add: s1 s2 get_attestor_count_def is_attestor_def list_registered_attestors_def)
qed

theorem revoked_attestor_stays_listed_witness:
  "\<exists>s1 s2. register_attestor_with_session (accepting_env 9 1 {''ADMIN''}) ''ADMIN'' 0 ''B'' ''KEY''
      (with_attestors (\<lambda>a. a\<lparr>ats_count := None\<rparr>) sample_session) = Inr s1 \<and>
    revoke_attestor (accepting_env 9 1 {''ADMIN''}) ''B'' s1 = Inr s2 \<and>
    ''B'' \<in> set (list_registered_attestors s2)"
proof -
  let ?e = "accepting_env 9 1 {''ADMIN''}"
  let ?s = "with_attestors (\<lambda>a. a\<lparr>ats_count := None\<rparr>) sample_session"
  obtain s1 s2 where run: "register_attestor_with_session ?e ''ADMIN'' 0 ''B'' ''KEY'' ?s = Inr s1"
      "revoke_attestor ?e ''B'' s1 = Inr s2"
    by (simp add: register_attestor_with_session_def revoke_attestor_def require_admin_or_role_def
        require_admin_def get_admin_def require_auth_def has_role_def sample_defs
        require_session_open_def validate_session_def session_is_expired_def session_expiry_def
        session_ttl_def DEFAULT_SESSION_TTL_def MAX_OPS_PER_SESSION_def from_u32_def sat_add_def
        word_less_nat_alt word_le_nat_alt put_session_def log_session_operation_def
        next_audit_log_id_def session_op_count_def list_add_def audit_action_def log_action_def
        write_event_def get_audit_config_def default_audit_config_def get_entry_count_def ttl_fits_def
        evict_oldest_def plus_trap_def checked_add_def Let_def)
  have "get_attestor_count ?s = 0" by (simp add: get_attestor_count_def)
  from revoked_attestor_stays_listed [OF run(1) this run(2)] run show ?thesis by blast
qed

text \<open>
  Revoking and reactivating is a round trip for the attestor: afterwards it is registered
  and listed again with the public key it had, a positive counter has its old value, and the
  reactivation succeeds whatever the configured capacity is.
\<close>

theorem revoke_reactivate_roundtrip:
  assumes "revoke_attestor e a s = Inr s1" and "reactivate_attestor e' a s1 = Inr s2"
  shows "is_attestor s2 a \<and> ats_public_key (c_attestors s2) a = ats_public_key (c_attestors s) a \<and>
    a \<in> set (list_registered_attestors s2) \<and>
    (0 < get_attestor_count s \<longrightarrow> get_attestor_count s2 = get_attestor_count s) \<and>
    \<not> is_attestor s1 a \<and> (\<exists>admin. get_attestor_revocation_info s1 a = Some
      \<lparr>rv_attestor = a, rv_revoked_at = timestamp e, rv_revoked_by = admin, rv_reason = [],
       rv_public_key = the (ats_public_key (c_attestors s) a), rv_reactivated = False,
       rv_reactivated_at = 0\<rparr>)"
proof -
  from revoke_attestor_ok [OF assms(1)] obtain admin pk where
    pk: "ats_public_key (c_attestors s) a = Some pk"
    and s1: "c_attestors s1 = drop_attestor e a admin pk (c_attestors s)" by blast
  from reactivate_attestor_ok [OF assms(2)] obtain rec where
    rec: "ats_revocation (c_attestors s1) a = Some rec"
    and s2: "c_attestors s2 = restore_attestor e' a rec (get_attestor_count s1 + 1) (c_attestors s1)" by blast
  show ?thesis
    using pk rec
    by (auto simp: s1 s2 get_attestor_count_def is_attestor_def list_registered_attestors_def
        get_attestor_revocation_info_def)
qed

theorem revoke_reactivate_roundtrip_witness:
  "\<exists>s1 s2. revoke_attestor (accepting_env 9 1 {''ADMIN''}) ''A'' sample_contract = Inr s1 \<and>
    reactivate_attestor (accepting_env 9 1 {''ADMIN''}) ''A'' s1 = Inr s2 \<and> is_attestor s2 ''A''"
proof -
  let ?e = "accepting_env 9 1 {''ADMIN''}"
  obtain s1 s2 where run: "revoke_attestor ?e ''A'' sample_contract = Inr s1"
      "reactivate_attestor ?e ''A'' s1 = Inr s2"
    by (simp add: revoke_attestor_def reactivate_attestor_def drop_attestor_def restore_attestor_def
        list_remove_def require_admin_def get_admin_def require_auth_def sample_defs
        audit_action_def log_action_def write_event_def get_audit_config_def default_audit_config_def
        get_entry_count_def get_attestor_count_def ttl_fits_def evict_oldest_def plus_trap_def checked_add_def
        Let_def word_less_nat_alt)
  from revoke_reactivate_roundtrip [OF run] run show ?thesis by blast
qed

end
