(* ===== verification/Contract_Kyc.thy ===== *)
theory Contract_Kyc
  imports Contract_Sessions
begin

text \<open>
  KYC records and compliance checks of \<^verbatim>\<open>src/contract.rs\<close>: the status machine with its
  resubmission cooldown and the expiry of an approval, and the history of compliance checks as an
  append-only list per subject and check type.
\<close>

abbreviation with_kyc :: "(kyc_store \<Rightarrow> kyc_store) \<Rightarrow> contract \<Rightarrow> contract" where
  "with_kyc f s \<equiv> s\<lparr>c_kyc := f (c_kyc s)\<rparr>"

section \<open>Status changes\<close>

definition validate_kyc_transition :: "kyc_status \<Rightarrow> kyc_status \<Rightarrow> kyc_record \<Rightarrow> u64 \<Rightarrow> bool" where
  "validate_kyc_transition current next record now =
     (if next = Pending \<and> sat_sub now (ky_submitted_at record) < 86400 then False
      else case (current, next) of
        (NotSubmitted, Pending) \<Rightarrow> True
      | (KycExpiredStatus, Pending) \<Rightarrow> True
      | (Rejected, Pending) \<Rightarrow> True
      | (Reopened, Pending) \<Rightarrow> True
      | (Pending, Approved) \<Rightarrow> True
      | (Pending, Rejected) \<Rightarrow> True
      | (Rejected, Reopened) \<Rightarrow> True
      | _ \<Rightarrow> False)"

definition submit_kyc :: "env \<Rightarrow> address \<Rightarrow> bytes \<Rightarrow> address \<Rightarrow> contract \<Rightarrow> trap + contract" where
  "submit_kyc e subject data_hash attestor s =
     bind_ok (require_auth e attestor) (\<lambda>_.
     bind_ok (check_attestor attestor s) (\<lambda>_.
     bind_ok
       (case kyc_records (c_kyc s) subject of
          None \<Rightarrow> Inr ()
        | Some existing \<Rightarrow>
            if \<not> validate_kyc_transition (current_kyc_status e existing) Pending existing (timestamp e)
            then Inl (Panic ComplianceNotMet) else Inr ())
       (\<lambda>_.
         let record = \<lparr>ky_subject = subject, ky_status = kyc_u32 Pending, ky_submitted_at = timestamp e,
               ky_reviewed_at = None, ky_expiry = None, ky_rejection_reason_hash = None,
               ky_schema_version = SCHEMA_V1\<rparr>
         in Inr (emit (EvKycSubmitted subject (timestamp e) data_hash)
              (with_kyc (\<lambda>k. k\<lparr>kyc_records := (kyc_records k)(subject \<mapsto> record),
                 kyc_data := (kyc_data k)(subject \<mapsto> data_hash)\<rparr>) s)))))"

definition get_kyc_data_hash :: "contract \<Rightarrow> address \<Rightarrow> bytes option" where
  "get_kyc_data_hash s subject = kyc_data (c_kyc s) subject"

definition put_kyc :: "address \<Rightarrow> kyc_record \<Rightarrow> contract \<Rightarrow> contract" where
  "put_kyc subject record s =
     with_kyc (\<lambda>k. k\<lparr>kyc_records := (kyc_records k)(subject \<mapsto> record)\<rparr>) s"

text \<open>The two checks that approval and rejection share.\<close>

definition require_kyc_operator :: "env \<Rightarrow> address \<Rightarrow> contract \<Rightarrow> trap + unit" where
  "require_kyc_operator e operator s =
     (if \<not> has_role s operator KycAdmin \<and> \<not> has_capability s operator ManageKyc
      then Inl (Panic Unauthorized) else require_auth e operator)"

definition kyc_record_for :: "env \<Rightarrow> address \<Rightarrow> kyc_status \<Rightarrow> contract \<Rightarrow> trap + kyc_record" where
  "kyc_record_for e subject next s =
     bind_ok (of_option (Panic KycNotFound) (kyc_records (c_kyc s) subject)) (\<lambda>record.
       if \<not> validate_kyc_transition (current_kyc_status e record) next record (timestamp e)
       then Inl (Panic IllegalTransition) else Inr record)"

definition approve_kyc :: "env \<Rightarrow> address \<Rightarrow> address \<Rightarrow> contract \<Rightarrow> trap + contract" where
  "approve_kyc e operator subject s =
     bind_ok (require_kyc_operator e operator s) (\<lambda>_.
     bind_ok (kyc_record_for e subject Approved s) (\<lambda>record.
     bind_ok (plus_trap (timestamp e) KYC_EXPIRY_SECONDS) (\<lambda>expiry.
       let s1 = put_kyc subject (record\<lparr>ky_status := kyc_u32 Approved,
                  ky_reviewed_at := Some (timestamp e), ky_expiry := Some expiry\<rparr>) s in
     bind_ok (audit_action e operator ''approve_kyc'' subject ''Pending'' ''Approved'' s1) (\<lambda>s2.
       Inr (emit (EvKycApproved subject (timestamp e)) s2)))))"

definition reject_kyc :: "env \<Rightarrow> address \<Rightarrow> address \<Rightarrow> bytes \<Rightarrow> contract \<Rightarrow> trap + contract" where
  "reject_kyc e operator subject reason_hash s =
     bind_ok (require_kyc_operator e operator s) (\<lambda>_.
     bind_ok (kyc_record_for e subject Rejected s) (\<lambda>record.
       let s1 = put_kyc subject (record\<lparr>ky_status := kyc_u32 Rejected,
                  ky_reviewed_at := Some (timestamp e), ky_expiry := None,
                  ky_rejection_reason_hash := Some reason_hash\<rparr>) s in
     bind_ok (audit_action e operator ''reject_kyc'' subject ''Pending'' ''Rejected'' s1) (\<lambda>s2.
       Inr (emit (EvKycRejected subject (timestamp e)) s2))))"

definition reopen_kyc :: "env \<Rightarrow> address \<Rightarrow> address \<Rightarrow> contract \<Rightarrow> trap + contract" where
  "reopen_kyc e operator subject s =
     bind_ok (require_admin_or_role e operator KycAdmin s) (\<lambda>_.
     bind_ok (kyc_record_for e subject Reopened s) (\<lambda>record.
       let s1 = put_kyc subject (record\<lparr>ky_status := kyc_u32 Reopened,
                  ky_reviewed_at := Some (timestamp e)\<rparr>) s in
     bind_ok (audit_action e operator ''reopen_kyc'' subject ''Rejected'' ''Reopened'' s1) (\<lambda>s2.
       Inr (emit (EvKycReopened subject (timestamp e)) s2))))"

section \<open>Compliance checks\<close>

definition store_compliance_check :: "address \<Rightarrow> string \<Rightarrow> compliance_check \<Rightarrow> kyc_store \<Rightarrow> trap + kyc_store" where
  "store_compliance_check subject check_type record k =
     (let idx = get_or 0 (comp_count k (subject, check_type)) in
      bind_ok (plus_trap idx 1) (\<lambda>next.
        let check_types = get_or [] (comp_index k subject);
            k1 = k\<lparr>comp_latest := (comp_latest k)((subject, check_type) \<mapsto> record),
                   comp_history := (comp_history k)((subject, check_type, idx) \<mapsto> record),
                   comp_count := (comp_count k)((subject, check_type) \<mapsto> next)\<rparr>
        in Inr (if check_type \<in> set check_types then k1
                else k1\<lparr>comp_index := (comp_index k)(subject \<mapsto> check_types @ [check_type])\<rparr>)))"

definition record_compliance_check ::
    "env \<Rightarrow> address \<Rightarrow> string \<Rightarrow> bool \<Rightarrow> u32 option \<Rightarrow> contract \<Rightarrow> trap + contract" where
  "record_compliance_check e subject check_type passed score s =
     bind_ok (require_admin e s) (\<lambda>_.
       let record = \<lparr>cc_subject = subject, cc_check_type = check_type,
             cc_result = (if passed then 1 else 0), cc_score = score, cc_timestamp = timestamp e\<rparr> in
     bind_ok (store_compliance_check subject check_type record (c_kyc s)) (\<lambda>k.
       Inr (emit (EvCompChecked subject record) (s\<lparr>c_kyc := k\<rparr>))))"

definition get_latest_compliance_check :: "contract \<Rightarrow> address \<Rightarrow> string \<Rightarrow> compliance_check option" where
  "get_latest_compliance_check s subject check_type = comp_latest (c_kyc s) (subject, check_type)"

definition get_compliance_check_history ::
    "contract \<Rightarrow> address \<Rightarrow> string \<Rightarrow> u64 \<Rightarrow> compliance_check list" where
  "get_compliance_check_history s subject check_type limit =
     (let total = get_or 0 (comp_count (c_kyc s) (subject, check_type));
          effective_limit = min limit 50;
          start = (if effective_limit < total then total - effective_limit else 0)
      in List.map_filter (\<lambda>i. comp_history (c_kyc s) (subject, check_type, i)) (id_range start total))"

definition list_subject_compliance_checks :: "contract \<Rightarrow> address \<Rightarrow> string list" where
  "list_subject_compliance_checks s subject = get_or [] (comp_index (c_kyc s) subject)"

section \<open>What the operations change\<close>

text \<open>The edges of the status machine; an edge to \<open>Pending\<close> needs a day since the submission.\<close>

fun kyc_edge :: "kyc_status \<Rightarrow> kyc_status \<Rightarrow> bool" where
  "kyc_edge NotSubmitted next = (next = Pending)"
| "kyc_edge KycExpiredStatus next = (next = Pending)"
| "kyc_edge Reopened next = (next = Pending)"
| "kyc_edge Rejected next = (next \<in> {Pending, Reopened})"
| "kyc_edge Pending next = (next \<in> {Approved, Rejected})"
| "kyc_edge Approved next = False"

lemma validate_kyc_transition_iff:
  "validate_kyc_transition a b r now \<longleftrightarrow>
     kyc_edge a b \<and> (b = Pending \<longrightarrow> unat (ky_submitted_at r) + 86400 \<le> unat now)"
  unfolding validate_kyc_transition_def
  by (cases a; cases b) (auto simp: word_less_nat_alt unat_simps)

lemma kyc_u32_values [simp]: "kyc_of_u32 (kyc_u32 st) = st"
  by (cases st) (simp_all add: kyc_of_u32_def)

lemma kyc_u32_inject [simp]: "kyc_u32 a = kyc_u32 b \<longleftrightarrow> a = b"
  by (cases a; cases b) simp_all

lemma require_kyc_operator_Inr [ok_simps]:
  "require_kyc_operator e a s = Inr u \<longleftrightarrow>
     (has_role s a KycAdmin \<or> has_capability s a ManageKyc) \<and> a \<in> auths e"
  by (auto simp: require_kyc_operator_def ok_simps)

lemma kyc_record_for_Inr [ok_simps]:
  "kyc_record_for e subject next s = Inr r \<longleftrightarrow>
     kyc_records (c_kyc s) subject = Some r \<and>
     validate_kyc_transition (current_kyc_status e r) next r (timestamp e)"
  by (auto simp: kyc_record_for_def ok_simps)

lemma submit_kyc_ok:
  assumes "submit_kyc e subject h a s = Inr s'"
  shows "a \<in> auths e \<and> ats_registered (c_attestors s) a \<noteq> None \<and>
    (\<forall>r. kyc_records (c_kyc s) subject = Some r \<longrightarrow>
       validate_kyc_transition (current_kyc_status e r) Pending r (timestamp e)) \<and>
    (\<exists>evs. s' = s\<lparr>c_kyc := (c_kyc s)\<lparr>kyc_records := (kyc_records (c_kyc s))(subject \<mapsto>
         \<lparr>ky_subject = subject, ky_status = kyc_u32 Pending, ky_submitted_at = timestamp e,
          ky_reviewed_at = None, ky_expiry = None, ky_rejection_reason_hash = None,
          ky_schema_version = SCHEMA_V1\<rparr>), kyc_data := (kyc_data (c_kyc s))(subject \<mapsto> h)\<rparr>,
       c_events := evs\<rparr>)"
  using assms
  by (auto simp: submit_kyc_def ok_simps Let_def emit_def split: option.splits if_splits)

lemma approve_kyc_ok:
  assumes "approve_kyc e a subject s = Inr s'"
  shows "(has_role s a KycAdmin \<or> has_capability s a ManageKyc) \<and> a \<in> auths e \<and>
    unat (timestamp e) + 2592000 < 2 ^ 64 \<and>
    (\<exists>r au evs. kyc_records (c_kyc s) subject = Some r \<and>
       validate_kyc_transition (current_kyc_status e r) Approved r (timestamp e) \<and>
       log_action e a ''approve_kyc'' subject ''Pending'' ''Approved'' (c_audit s) = Inr au \<and>
       s' = (put_kyc subject (r\<lparr>ky_status := kyc_u32 Approved, ky_reviewed_at := Some (timestamp e),
          ky_expiry := Some (timestamp e + KYC_EXPIRY_SECONDS)\<rparr>) s)\<lparr>c_audit := au, c_events := evs\<rparr>)"
  using assms
  by (auto simp: approve_kyc_def ok_simps Let_def emit_def put_kyc_def KYC_EXPIRY_SECONDS_def)

lemma reject_kyc_ok:
  assumes "reject_kyc e a subject h s = Inr s'"
  shows "(has_role s a KycAdmin \<or> has_capability s a ManageKyc) \<and> a \<in> auths e \<and>
    (\<exists>r au evs. kyc_records (c_kyc s) subject = Some r \<and>
       validate_kyc_transition (current_kyc_status e r) Rejected r (timestamp e) \<and>
       log_action e a ''reject_kyc'' subject ''Pending'' ''Rejected'' (c_audit s) = Inr au \<and>
       s' = (put_kyc subject (r\<lparr>ky_status := kyc_u32 Rejected, ky_reviewed_at := Some (timestamp e),
          ky_expiry := None, ky_rejection_reason_hash := Some h\<rparr>) s)\<lparr>c_audit := au, c_events := evs\<rparr>)"
  using assms by (auto simp: reject_kyc_def ok_simps Let_def emit_def put_kyc_def)

lemma reopen_kyc_ok:
  assumes "reopen_kyc e a subject s = Inr s'"
  shows "has_role s a KycAdmin \<and> a \<in> auths e \<and>
    (\<exists>r au evs. kyc_records (c_kyc s) subject = Some r \<and>
       validate_kyc_transition (current_kyc_status e r) Reopened r (timestamp e) \<and>
       log_action e a ''reopen_kyc'' subject ''Rejected'' ''Reopened'' (c_audit s) = Inr au \<and>
       s' = (put_kyc subject (r\<lparr>ky_status := kyc_u32 Reopened, ky_reviewed_at := Some (timestamp e)\<rparr>) s)
              \<lparr>c_audit := au, c_events := evs\<rparr>)"
  using assms by (auto simp: reopen_kyc_def ok_simps Let_def emit_def put_kyc_def)

lemma record_compliance_check_ok:
  assumes "record_compliance_check e subject ct p sc s = Inr s'"
  shows "\<exists>k evs. store_compliance_check subject ct \<lparr>cc_subject = subject, cc_check_type = ct,
      cc_result = (if p then 1 else 0), cc_score = sc, cc_timestamp = timestamp e\<rparr> (c_kyc s) = Inr k \<and>
    s' = s\<lparr>c_kyc := k, c_events := evs\<rparr>"
  using assms by (auto simp: record_compliance_check_def ok_simps Let_def emit_def)

section \<open>Invariants\<close>

text \<open>
  A stored status is one that an operation writes; an approval, and nothing else, has an expiry,
  and it is exactly thirty days after the review.
\<close>

definition kyc_record_wf :: "address \<Rightarrow> kyc_record \<Rightarrow> bool" where
  "kyc_record_wf subject r \<longleftrightarrow>
     ky_subject r = subject \<and>
     ky_status r \<in> {kyc_u32 Pending, kyc_u32 Approved, kyc_u32 Rejected, kyc_u32 Reopened} \<and>
     (ky_status r = kyc_u32 Pending \<longleftrightarrow> ky_reviewed_at r = None) \<and>
     (case ky_expiry r of
        None \<Rightarrow> ky_status r \<noteq> kyc_u32 Approved
      | Some t \<Rightarrow> ky_status r = kyc_u32 Approved \<and>
          (\<exists>rv. ky_reviewed_at r = Some rv \<and> unat t = unat rv + 2592000))"

definition kyc_inv :: "kyc_store \<Rightarrow> bool" where
  "kyc_inv k \<longleftrightarrow>
     (\<forall>subject r. kyc_records k subject = Some r \<longrightarrow> kyc_record_wf subject r) \<and>
     dom (kyc_records k) = dom (kyc_data k)"

lemma kyc_invD: "kyc_inv k \<Longrightarrow> kyc_records k subject = Some r \<Longrightarrow> kyc_record_wf subject r"
  by (simp add: kyc_inv_def)

lemma kyc_inv_empty: "kyc_inv (c_kyc fresh_contract)"
  by (simp add: kyc_inv_def fresh_contract_def)

lemma put_kyc_inv:
  assumes "kyc_inv k" and "kyc_records k subject = Some r0" and "kyc_record_wf subject r"
  shows "kyc_inv (k\<lparr>kyc_records := (kyc_records k)(subject \<mapsto> r)\<rparr>)"
  using assms unfolding kyc_inv_def by (auto simp: insert_absorb)

lemma new_kyc_inv:
  assumes "kyc_inv k" and "kyc_record_wf subject r"
  shows "kyc_inv (k\<lparr>kyc_records := (kyc_records k)(subject \<mapsto> r), kyc_data := (kyc_data k)(subject \<mapsto> h)\<rparr>)"
  using assms unfolding kyc_inv_def by auto

lemma submit_kyc_inv:
  assumes "submit_kyc e subject h a s = Inr s'" and "kyc_inv (c_kyc s)"
  shows "kyc_inv (c_kyc s')"
proof -
  have wf: "kyc_record_wf subject \<lparr>ky_subject = subject, ky_status = kyc_u32 Pending,
      ky_submitted_at = timestamp e, ky_reviewed_at = None, ky_expiry = None,
      ky_rejection_reason_hash = None, ky_schema_version = SCHEMA_V1\<rparr>"
    by (simp add: kyc_record_wf_def)
  from submit_kyc_ok [OF assms(1)] new_kyc_inv [OF assms(2) wf, of h] show ?thesis by auto
qed

lemma approve_kyc_inv:
  assumes "approve_kyc e a subject s = Inr s'" and inv: "kyc_inv (c_kyc s)"
  shows "kyc_inv (c_kyc s')"
proof -
  from approve_kyc_ok [OF assms(1)] obtain r where fits: "unat (timestamp e) + 2592000 < 2 ^ 64"
    and r: "kyc_records (c_kyc s) subject = Some r"
    and s': "c_kyc s' = (c_kyc s)\<lparr>kyc_records := (kyc_records (c_kyc s))(subject \<mapsto>
      r\<lparr>ky_status := kyc_u32 Approved, ky_reviewed_at := Some (timestamp e),
        ky_expiry := Some (timestamp e + KYC_EXPIRY_SECONDS)\<rparr>)\<rparr>"
    by (auto simp: put_kyc_def)
  have "unat (timestamp e + KYC_EXPIRY_SECONDS) = unat (timestamp e) + 2592000"
    using fits by (simp add: KYC_EXPIRY_SECONDS_def unat_word_ariths)
  with kyc_invD [OF inv r] show ?thesis
    unfolding s' by (intro put_kyc_inv [OF inv r]) (auto simp: kyc_record_wf_def)
qed

lemma reject_kyc_inv:
  assumes "reject_kyc e a subject h s = Inr s'" and inv: "kyc_inv (c_kyc s)"
  shows "kyc_inv (c_kyc s')"
  using reject_kyc_ok [OF assms(1)] kyc_invD [OF inv]
  by (auto simp: put_kyc_def kyc_record_wf_def intro!: put_kyc_inv [OF inv])

text \<open>Only a rejected record is reopened, and its expiry is empty already.\<close>

lemma kyc_current_status:
  assumes "kyc_record_wf subject r"
  shows "current_kyc_status e r =
    (case ky_expiry r of
       Some t \<Rightarrow> if t < timestamp e then KycExpiredStatus else Approved
     | None \<Rightarrow> kyc_of_u32 (ky_status r))"
  using assms by (auto simp: current_kyc_status_def kyc_record_wf_def kyc_of_u32_def split: option.split)

lemma reopen_kyc_inv:
  assumes "reopen_kyc e a subject s = Inr s'" and inv: "kyc_inv (c_kyc s)"
  shows "kyc_inv (c_kyc s')"
proof -
  from reopen_kyc_ok [OF assms(1)] obtain r where
    r: "kyc_records (c_kyc s) subject = Some r"
    and v: "validate_kyc_transition (current_kyc_status e r) Reopened r (timestamp e)"
    and s': "c_kyc s' = (c_kyc s)\<lparr>kyc_records := (kyc_records (c_kyc s))(subject \<mapsto>
      r\<lparr>ky_status := kyc_u32 Reopened, ky_reviewed_at := Some (timestamp e)\<rparr>)\<rparr>"
    by (auto simp: put_kyc_def)
  have wf: "kyc_record_wf subject r" by (rule kyc_invD [OF inv r])
  have "kyc_edge (current_kyc_status e r) Reopened" using v by (simp add: validate_kyc_transition_iff)
  then have "ky_expiry r = None"
    using kyc_current_status [OF wf, of e] by (auto split: option.splits if_splits)
  with wf show ?thesis
    unfolding s' by (intro put_kyc_inv [OF inv r]) (auto simp: kyc_record_wf_def)
qed

text \<open>The history of one kind of check, as a list.\<close>

definition check_log :: "kyc_store \<Rightarrow> address \<times> string \<Rightarrow> compliance_check list" where
  "check_log k = (\<lambda>(subject, ct). map (\<lambda>i. the (comp_history k (subject, ct, i)))
     (id_range 0 (get_or 0 (comp_count k (subject, ct)))))"

definition comp_inv :: "kyc_store \<Rightarrow> bool" where
  "comp_inv k \<longleftrightarrow>
     (\<forall>subject ct i. (comp_history k (subject, ct, i) \<noteq> None) =
        (i < get_or 0 (comp_count k (subject, ct)))) \<and>
     (\<forall>subject ct. comp_latest k (subject, ct) =
        (let n = get_or 0 (comp_count k (subject, ct)) in
         if n = 0 then None else comp_history k (subject, ct, n - 1))) \<and>
     (\<forall>subject ct. (ct \<in> set (get_or [] (comp_index k subject))) =
        (get_or 0 (comp_count k (subject, ct)) \<noteq> 0)) \<and>
     (\<forall>subject. distinct (get_or [] (comp_index k subject)))"

lemma comp_inv_empty: "comp_inv (c_kyc fresh_contract)"
  by (simp add: comp_inv_def fresh_contract_def Let_def)

lemma store_compliance_check_Inr:
  "store_compliance_check subject ct r k = Inr k' \<longleftrightarrow>
     (let n = get_or 0 (comp_count k (subject, ct)); xs = get_or [] (comp_index k subject) in
      unat n + 1 < 2 ^ 64 \<and>
      k' = k\<lparr>comp_latest := (comp_latest k)((subject, ct) \<mapsto> r),
             comp_history := (comp_history k)((subject, ct, n) \<mapsto> r),
             comp_count := (comp_count k)((subject, ct) \<mapsto> n + 1),
             comp_index := (if ct \<in> set xs then comp_index k else (comp_index k)(subject \<mapsto> xs @ [ct]))\<rparr>)"
  by (auto simp: store_compliance_check_def Let_def ok_simps)

lemma store_compliance_check_inv:
  assumes "store_compliance_check subject ct r k = Inr k'" and inv: "comp_inv k"
  shows "comp_inv k'"
proof -
  let ?n = "get_or 0 (comp_count k (subject, ct))"
  from assms(1) have fits: "unat ?n + 1 < 2 ^ 64"
    and k': "k' = k\<lparr>comp_latest := (comp_latest k)((subject, ct) \<mapsto> r),
             comp_history := (comp_history k)((subject, ct, ?n) \<mapsto> r),
             comp_count := (comp_count k)((subject, ct) \<mapsto> ?n + 1),
             comp_index := (if ct \<in> set (get_or [] (comp_index k subject)) then comp_index k
               else (comp_index k)(subject \<mapsto> get_or [] (comp_index k subject) @ [ct]))\<rparr>"
    by (simp_all add: store_compliance_check_Inr Let_def)
  have n: "unat (?n + 1) = Suc (unat ?n)" using fits by (simp add: unat_word_ariths)
  then have nz: "?n + 1 \<noteq> 0" by (metis nat.distinct(1) unat_0)
  have step: "i < ?n + 1 \<longleftrightarrow> i = ?n \<or> i < ?n" for i
    by (auto simp: word_less_nat_alt n less_Suc_eq word_unat_eq_iff)
  show ?thesis
    using inv unfolding comp_inv_def k' by (auto simp: Let_def step nz)
qed

lemma check_log_store:
  assumes "store_compliance_check subject ct r k = Inr k'"
  shows "check_log k' = (check_log k)((subject, ct) := check_log k (subject, ct) @ [r])"
proof
  fix p :: "address \<times> string"
  let ?n = "get_or 0 (comp_count k (subject, ct))"
  from assms have fits: "unat ?n + 1 < 2 ^ 64"
    and cnt: "comp_count k' = (comp_count k)((subject, ct) \<mapsto> ?n + 1)"
    and hist: "comp_history k' = (comp_history k)((subject, ct, ?n) \<mapsto> r)"
    by (simp_all add: store_compliance_check_Inr Let_def)
  have "unat (?n + 1) = Suc (unat ?n)" using fits by (simp add: unat_word_ariths)
  then have range: "id_range 0 (?n + 1) = id_range 0 ?n @ [?n]" by (simp add: id_range_def)
  have old: "i \<noteq> ?n" if "i \<in> set (id_range 0 ?n)" for i using that by (auto simp: set_id_range)
  obtain sb c where p: "p = (sb, c)" by (cases p)
  show "check_log k' p = ((check_log k)((subject, ct) := check_log k (subject, ct) @ [r])) p"
  proof (cases "p = (subject, ct)")
    case True
    with old show ?thesis by (auto simp: check_log_def cnt hist range)
  next
    case False
    then have "(subject, ct, ?n) \<noteq> (sb, c, i)" for i using p by auto
    with False p show ?thesis by (auto simp: check_log_def cnt hist)
  qed
qed

lemma compliance_history_is_suffix:
  assumes "comp_inv (c_kyc s)"
  shows "get_compliance_check_history s subject ct limit =
    (let xs = check_log (c_kyc s) (subject, ct) in drop (length xs - min (unat limit) 50) xs)"
proof -
  let ?h = "\<lambda>i. comp_history (c_kyc s) (subject, ct, i)"
  let ?n = "get_or 0 (comp_count (c_kyc s) (subject, ct))"
  let ?m = "if min limit 50 < ?n then ?n - min limit 50 else 0"
  have lim: "unat (min limit 50) = min (unat limit) 50"
    by (simp add: min_def word_le_nat_alt)
  have m: "unat ?m = unat ?n - min (unat limit) 50"
    using lim by (auto simp: word_less_nat_alt unat_sub word_le_nat_alt)
  have dropped: "id_range ?m ?n = drop (unat ?m) (id_range 0 ?n)"
    by (simp add: id_range_def drop_map)
  have "List.map_filter ?h xs = map (\<lambda>i. the (?h i)) xs" if "set xs \<subseteq> {i. i < ?n}" for xs
    using that
  proof (induction xs)
    case (Cons x xs)
    then have "?h x \<noteq> None" using assms unfolding comp_inv_def by auto
    with Cons show ?case by (auto simp: List.map_filter_simps)
  qed (simp add: List.map_filter_simps)
  moreover have "set (drop (unat ?m) (id_range 0 ?n)) \<subseteq> {i. i < ?n}"
    using set_drop_subset set_id_range by fast
  ultimately have "get_compliance_check_history s subject ct limit =
      map (\<lambda>i. the (?h i)) (drop (unat ?m) (id_range 0 ?n))"
    unfolding get_compliance_check_history_def Let_def dropped by blast
  then show ?thesis
    by (simp add: check_log_def Let_def drop_map m)
qed

end
