(* ===== verification/Contract_Quotes.thy ===== *)
theory Contract_Quotes
  imports Contract_Kyc
begin

text \<open>
  Quotes of \<^verbatim>\<open>src/contract.rs\<close>: submission with its validations, lifecycle, purge, acceptance
  with a compliance check, and the batched migration of the stored quotes to the second schema.
\<close>

abbreviation with_quotes :: "(quote_store \<Rightarrow> quote_store) \<Rightarrow> contract \<Rightarrow> contract" where
  "with_quotes f s \<equiv> s\<lparr>c_quotes := f (c_quotes s)\<rparr>"

section \<open>Submission\<close>

definition validate_fee_percent :: "u32 \<Rightarrow> trap + unit" where
  "validate_fee_percent fee = (if 10000 < fee then Inl (Panic InvalidQuote) else Inr ())"

definition validate_amount_limits :: "u64 \<Rightarrow> u64 \<Rightarrow> trap + unit" where
  "validate_amount_limits min_amount max_amount =
     (if max_amount \<noteq> 0 \<and> max_amount < min_amount then Inl (Panic InvalidQuote) else Inr ())"

definition validate_currency_code :: "string \<Rightarrow> trap + unit" where
  "validate_currency_code code =
     (if code = [] \<or> 12 < length code then Inl (Panic InvalidAssetCode) else Inr ())"

text \<open>The validity window: in the future, and at most thirty days ahead.\<close>

definition validate_validity :: "u64 \<Rightarrow> u64 \<Rightarrow> trap + unit" where
  "validate_validity now valid_until =
     (if valid_until \<le> now then Inl (Panic InvalidQuote)
      else if MAX_QUOTE_VALIDITY_SECONDS < sat_sub valid_until now then Inl (Panic InvalidQuote)
      else Inr ())"

definition append_quote_index :: "u64 \<Rightarrow> address \<Rightarrow> quote_store \<Rightarrow> quote_store" where
  "append_quote_index quote_id anchor q =
     q\<lparr>quo_index := Some (get_or [] (quo_index q) @ [quote_id]),
       quo_anchor_ref := (quo_anchor_ref q)(quote_id \<mapsto> anchor)\<rparr>"

text \<open>What a submission stores, given its identifier.\<close>

definition store_quote :: "quote \<Rightarrow> quote_store \<Rightarrow> quote_store" where
  "store_quote qt q =
     (let i = qu_quote_id qt; anchor = qu_anchor qt;
          q1 = q\<lparr>quo_count := Some i,
                 quo_quotes := (quo_quotes q)((anchor, i) \<mapsto> qt),
                 quo_lifecycle := (quo_lifecycle q)((anchor, i) \<mapsto> lifecycle_u32 QuoteActive)\<rparr>;
          q2 = append_quote_index i anchor q1
      in q2\<lparr>quo_latest := (quo_latest q2)(anchor \<mapsto> i)\<rparr>)"

definition submit_quote_with_reason ::
    "env \<Rightarrow> address \<Rightarrow> string \<Rightarrow> string \<Rightarrow> u64 \<Rightarrow> u32 \<Rightarrow> u64 \<Rightarrow> u64 \<Rightarrow> u64 \<Rightarrow> string option \<Rightarrow>
     contract \<Rightarrow> trap + (u64 \<times> contract)" where
  "submit_quote_with_reason e anchor base_asset quote_asset rate fee_percentage minimum_amount
      maximum_amount valid_until routing_reason s =
     bind_ok (require_auth e anchor) (\<lambda>_.
     bind_ok (validate_currency_code base_asset) (\<lambda>_.
     bind_ok (validate_currency_code quote_asset) (\<lambda>_.
     bind_ok (validate_fee_percent fee_percentage) (\<lambda>_.
     bind_ok (validate_amount_limits minimum_amount maximum_amount) (\<lambda>_.
     bind_ok (validate_validity (timestamp e) valid_until) (\<lambda>_.
     bind_ok (plus_trap (get_or 0 (quo_count (c_quotes s))) 1) (\<lambda>i.
       let qt = \<lparr>qu_quote_id = i, qu_anchor = anchor, qu_base_asset = base_asset,
             qu_quote_asset = quote_asset, qu_rate = rate, qu_fee_percentage = fee_percentage,
             qu_minimum_amount = minimum_amount, qu_maximum_amount = maximum_amount,
             qu_valid_until = valid_until, qu_schema_version = SCHEMA_V1,
             qu_routing_reason = routing_reason\<rparr>
       in Inr (i, emit (EvQuoteSubmit i anchor base_asset quote_asset rate valid_until routing_reason)
                    (with_quotes (store_quote qt) s)))))))))"

definition submit_quote ::
    "env \<Rightarrow> address \<Rightarrow> string \<Rightarrow> string \<Rightarrow> u64 \<Rightarrow> u32 \<Rightarrow> u64 \<Rightarrow> u64 \<Rightarrow> u64 \<Rightarrow> contract \<Rightarrow>
     trap + (u64 \<times> contract)" where
  "submit_quote e anchor base_asset quote_asset rate fee_percentage minimum_amount maximum_amount
      valid_until s =
     submit_quote_with_reason e anchor base_asset quote_asset rate fee_percentage minimum_amount
       maximum_amount valid_until None s"

section \<open>Reading, receiving, invalidating\<close>

definition get_quote :: "contract \<Rightarrow> address \<Rightarrow> u64 \<Rightarrow> trap + quote" where
  "get_quote s anchor i = of_option (Panic QuoteNotFound) (quo_quotes (c_quotes s) (anchor, i))"

definition get_quote_routing_reason :: "contract \<Rightarrow> address \<Rightarrow> u64 \<Rightarrow> string option" where
  "get_quote_routing_reason s anchor i =
     (case quo_quotes (c_quotes s) (anchor, i) of None \<Rightarrow> None | Some qt \<Rightarrow> qu_routing_reason qt)"

definition receive_quote :: "env \<Rightarrow> address \<Rightarrow> address \<Rightarrow> u64 \<Rightarrow> contract \<Rightarrow> trap + (quote \<times> contract)" where
  "receive_quote e receiver anchor i s =
     bind_ok (require_auth e receiver) (\<lambda>_.
     bind_ok (get_quote s anchor i) (\<lambda>qt.
       Inr (qt, emit (EvQuoteReceived i receiver (timestamp e)) s)))"

definition get_quote_lifecycle_state :: "contract \<Rightarrow> address \<Rightarrow> u64 \<Rightarrow> quote_lifecycle_state" where
  "get_quote_lifecycle_state s anchor i =
     (if get_or 0 (quo_lifecycle (c_quotes s) (anchor, i)) = lifecycle_u32 QuoteInvalidated
      then QuoteInvalidated else QuoteActive)"

definition invalidate_quote :: "env \<Rightarrow> address \<Rightarrow> u64 \<Rightarrow> contract \<Rightarrow> trap + contract" where
  "invalidate_quote e anchor i s =
     bind_ok (require_admin e s) (\<lambda>_.
       if quo_quotes (c_quotes s) (anchor, i) = None then Inl (Panic QuoteNotFound)
       else Inr (emit (EvQuoteInvalid i)
              (with_quotes (\<lambda>q. q\<lparr>quo_lifecycle := (quo_lifecycle q)((anchor, i) \<mapsto>
                 lifecycle_u32 QuoteInvalidated)\<rparr>) s)))"

text \<open>The purge rewrites the entry \<open>QIDX\<close>, which is not the index that submissions append to.\<close>

definition quote_is_live :: "u64 \<Rightarrow> quote_store \<Rightarrow> u64 \<Rightarrow> bool" where
  "quote_is_live now q i =
     (case quo_anchor_ref q i of
        None \<Rightarrow> False
      | Some anchor \<Rightarrow>
          (case quo_quotes q (anchor, i) of
             None \<Rightarrow> False
           | Some qt \<Rightarrow> now < qu_valid_until qt \<and>
               get_or 0 (quo_lifecycle q (anchor, i)) \<noteq> lifecycle_u32 QuoteInvalidated))"

definition purge_expired_quotes :: "env \<Rightarrow> contract \<Rightarrow> trap + contract" where
  "purge_expired_quotes e s =
     bind_ok (require_admin e s) (\<lambda>_.
       let ids = get_or [] (quo_qidx (c_quotes s));
           live = filter (quote_is_live (timestamp e) (c_quotes s)) ids
       in if length live < length ids
          then Inr (with_quotes (\<lambda>q. q\<lparr>quo_qidx := Some live\<rparr>) s)
          else Inr s)"

text \<open>The expired branch publishes an event and then panics.\<close>

definition accept_quote_with_compliance ::
    "env \<Rightarrow> address \<Rightarrow> address \<Rightarrow> u64 \<Rightarrow> bool \<Rightarrow> contract \<Rightarrow> trap + (quote \<times> contract)" where
  "accept_quote_with_compliance e receiver anchor i require_compliance s =
     bind_ok (require_auth e receiver) (\<lambda>_.
     bind_ok (get_quote s anchor i) (\<lambda>qt.
       if qu_valid_until qt \<le> timestamp e
       then (let s1 = emit (EvQuoteExpired i anchor (qu_valid_until qt) (timestamp e)) s
             in Inl (Panic QuoteExpired))
       else
         let passed = (case get_latest_compliance_check s receiver ''kyc'' of
                         None \<Rightarrow> False | Some r \<Rightarrow> cc_result r = 1) in
         if require_compliance \<and> \<not> passed then Inl (Panic ComplianceNotMet)
         else Inr (qt, emit (EvQuoteAccepted i receiver (timestamp e)) s)))"

section \<open>Migration of the stored quotes\<close>

fun migrate_loop ::
    "u32 \<Rightarrow> u64 \<Rightarrow> u64 list \<Rightarrow> u32 \<Rightarrow> u64 \<Rightarrow> quote_store \<Rightarrow> trap + (u32 \<times> quote_store)" where
  "migrate_loop batch_size resume_after [] migrated last_processed q =
     Inr (migrated, q\<lparr>quo_cursor := None\<rparr>)"
| "migrate_loop batch_size resume_after (i # ids) migrated last_processed q =
     (if i \<le> resume_after
      then migrate_loop batch_size resume_after ids migrated last_processed q
      else if batch_size \<le> migrated
      then Inr (migrated, q\<lparr>quo_cursor := Some last_processed\<rparr>)
      else case quo_anchor_ref q i of
        None \<Rightarrow> migrate_loop batch_size resume_after ids migrated i q
      | Some anchor \<Rightarrow>
          (case quo_quotes q (anchor, i) of
             None \<Rightarrow> migrate_loop batch_size resume_after ids migrated i q
           | Some qt \<Rightarrow>
               if SCHEMA_V2 \<le> qu_schema_version qt
               then migrate_loop batch_size resume_after ids migrated i q
               else bind_ok (plus_trap migrated 1) (\<lambda>m.
                 migrate_loop batch_size resume_after ids m i
                   (q\<lparr>quo_quotes := (quo_quotes q)((anchor, i) \<mapsto>
                      qt\<lparr>qu_routing_reason := None, qu_schema_version := SCHEMA_V2\<rparr>)\<rparr>))))"

definition migrate_quotes_to_v2 :: "u32 \<Rightarrow> quote_store \<Rightarrow> trap + (u32 \<times> quote_store)" where
  "migrate_quotes_to_v2 batch_size q =
     (if batch_size = 0 then Inl (Panic ValidationError)
      else let resume_after = get_or 0 (quo_cursor q)
           in migrate_loop batch_size resume_after (get_or [] (quo_index q)) 0 resume_after q)"

definition migration_panic :: "migration_error \<Rightarrow> error_code" where
  "migration_panic err =
     (case err of
        InvalidTargetVersion \<Rightarrow> ValidationError
      | VersionTooNew \<Rightarrow> UnsupportedCapabilityVersion
      | VersionNotAdvancing \<Rightarrow> IllegalTransition
      | _ \<Rightarrow> ValidationError)"

text \<open>The part of \<open>migrate\<close> that rewrites quotes; the flag says that quotes remain.\<close>

definition migrate_pending_quotes :: "env \<Rightarrow> u32 \<Rightarrow> u32 \<Rightarrow> contract \<Rightarrow> trap + (bool \<times> contract)" where
  "migrate_pending_quotes e new_schema_version batch_size s =
     (if SCHEMA_V2 \<le> new_schema_version \<and>
         (current_version (c_schema s) < SCHEMA_V2 \<or> quo_cursor (c_quotes s) \<noteq> None)
      then bind_ok (migrate_quotes_to_v2 batch_size (c_quotes s)) (\<lambda>(migrated, q).
        let s1 = s\<lparr>c_quotes := q\<rparr> in
        bind_ok
          (if 0 < migrated
           then bind_ok (get_admin s1) (\<lambda>admin.
             audit_action e admin ''schema_migration'' ''quotes'' ''v1''
               (''v2 ('' @ decimal (unat migrated) @ '')'') s1)
           else Inr s1) (\<lambda>s2.
          Inr (quo_cursor (c_quotes s2) \<noteq> None, s2)))
      else Inr (False, s))"

definition migrate :: "env \<Rightarrow> u32 \<Rightarrow> u32 \<Rightarrow> contract \<Rightarrow> trap + contract" where
  "migrate e new_schema_version batch_size s =
     (if \<not> acc_initialized (c_access s) then Inl (Panic NotInitialized)
      else bind_ok (require_admin e s) (\<lambda>_.
        case validate_migration new_schema_version (c_schema s) of
          Inl err \<Rightarrow> Inl (Panic (migration_panic err))
        | Inr step \<Rightarrow>
            let current = current_version (c_schema s) in
            bind_ok (migrate_pending_quotes e new_schema_version batch_size s) (\<lambda>(pending, s1).
              if pending then Inr s1
              else case commit_version e current new_schema_version (step_label step) (c_schema s1) of
                Inl _ \<Rightarrow> Inl (Panic ValidationError)
              | Inr sch \<Rightarrow> Inr (s1\<lparr>c_schema := sch\<rparr>))))"

definition get_migration_count :: "contract \<Rightarrow> u32" where
  "get_migration_count s = migration_count (c_schema s)"

section \<open>Invariant\<close>

text \<open>
  Quote identifiers are consecutive from 1, the index lists them in order, each belongs to one
  anchor and holds one quote whose fields passed the validations, and everything up to the
  migration cursor has been migrated.
\<close>

definition quote_wf :: "address \<Rightarrow> u64 \<Rightarrow> quote \<Rightarrow> bool" where
  "quote_wf anchor i qt \<longleftrightarrow>
     qu_quote_id qt = i \<and> qu_anchor qt = anchor \<and> qu_fee_percentage qt \<le> 10000 \<and>
     (qu_maximum_amount qt = 0 \<or> qu_minimum_amount qt \<le> qu_maximum_amount qt) \<and>
     length (qu_base_asset qt) \<in> {1..12} \<and> length (qu_quote_asset qt) \<in> {1..12} \<and>
     qu_schema_version qt \<in> {SCHEMA_V1, SCHEMA_V2}"

abbreviation quote_count :: "quote_store \<Rightarrow> u64" where
  "quote_count q \<equiv> get_or 0 (quo_count q)"

definition quote_ids_inv :: "quote_store \<Rightarrow> bool" where
  "quote_ids_inv q \<longleftrightarrow>
     get_or [] (quo_index q) = map of_nat [1..<Suc (unat (quote_count q))] \<and>
     (\<forall>i. (quo_anchor_ref q i \<noteq> None) = (i \<noteq> 0 \<and> i \<le> quote_count q)) \<and>
     (\<forall>a i. (quo_quotes q (a, i) \<noteq> None) = (quo_anchor_ref q i = Some a))"

definition quote_content_inv :: "quote_store \<Rightarrow> bool" where
  "quote_content_inv q \<longleftrightarrow>
     (\<forall>a i qt. quo_quotes q (a, i) = Some qt \<longrightarrow> quote_wf a i qt) \<and>
     dom (quo_lifecycle q) = dom (quo_quotes q) \<and> quo_qidx q = None"

definition quote_latest_inv :: "quote_store \<Rightarrow> bool" where
  "quote_latest_inv q \<longleftrightarrow>
     (\<forall>a i. quo_latest q a = Some i \<longrightarrow> quo_anchor_ref q i = Some a) \<and>
     (\<forall>a i. quo_anchor_ref q i = Some a \<longrightarrow> (\<exists>m. quo_latest q a = Some m \<and> i \<le> m))"

definition quote_cursor_inv :: "quote_store \<Rightarrow> bool" where
  "quote_cursor_inv q \<longleftrightarrow>
     (\<forall>c. quo_cursor q = Some c \<longrightarrow> c \<le> quote_count q \<and>
        (\<forall>a i qt. i \<le> c \<longrightarrow> quo_quotes q (a, i) = Some qt \<longrightarrow> qu_schema_version qt = SCHEMA_V2))"

definition quote_inv :: "quote_store \<Rightarrow> bool" where
  "quote_inv q \<longleftrightarrow>
     quote_ids_inv q \<and> quote_content_inv q \<and> quote_latest_inv q \<and> quote_cursor_inv q"

lemmas quote_inv_defs = quote_inv_def quote_ids_inv_def quote_content_inv_def quote_latest_inv_def
  quote_cursor_inv_def

lemma quote_inv_empty: "quote_inv (c_quotes fresh_contract)"
  by (simp add: quote_inv_defs fresh_contract_def)

lemma submit_quote_ok:
  assumes "submit_quote_with_reason e a b qa r f mi ma v rr s = Inr (i, s')"
  shows "a \<in> auths e \<and> unat (get_or 0 (quo_count (c_quotes s))) + 1 < 2 ^ 64 \<and>
    i = get_or 0 (quo_count (c_quotes s)) + 1 \<and>
    unat (timestamp e) < unat v \<and> unat v \<le> unat (timestamp e) + 2592000 \<and>
    (\<exists>qt evs. quote_wf a i qt \<and> qu_schema_version qt = SCHEMA_V1 \<and> qu_valid_until qt = v \<and>
       qu_rate qt = r \<and> qu_base_asset qt = b \<and> qu_quote_asset qt = qa \<and> qu_routing_reason qt = rr \<and>
       qu_fee_percentage qt = f \<and> qu_minimum_amount qt = mi \<and> qu_maximum_amount qt = ma \<and>
       s' = s\<lparr>c_quotes := store_quote qt (c_quotes s), c_events := evs\<rparr>)"
proof -
  from assms have g: "a \<in> auths e" "b \<noteq> []" "length b \<le> 12" "qa \<noteq> []" "length qa \<le> 12" "f \<le> 10000"
      "ma = 0 \<or> mi \<le> ma" "timestamp e < v" "sat_sub v (timestamp e) \<le> MAX_QUOTE_VALIDITY_SECONDS"
      "unat (get_or 0 (quo_count (c_quotes s))) + 1 < 2 ^ 64"
      "i = get_or 0 (quo_count (c_quotes s)) + 1"
    and s': "s' = emit (EvQuoteSubmit i a b qa r v rr) (with_quotes (store_quote \<lparr>qu_quote_id = i,
      qu_anchor = a, qu_base_asset = b, qu_quote_asset = qa, qu_rate = r, qu_fee_percentage = f,
      qu_minimum_amount = mi, qu_maximum_amount = ma, qu_valid_until = v,
      qu_schema_version = SCHEMA_V1, qu_routing_reason = rr\<rparr>) s)"
    by (auto simp: submit_quote_with_reason_def ok_simps Let_def validate_currency_code_def
        validate_fee_percent_def validate_amount_limits_def validate_validity_def not_less not_le
        split: if_splits)
  have "unat v - unat (timestamp e) \<le> 2592000"
    using g(9) by (simp add: word_le_nat_alt unat_simps MAX_QUOTE_VALIDITY_SECONDS_def)
  moreover have "quote_wf a i \<lparr>qu_quote_id = i,
      qu_anchor = a, qu_base_asset = b, qu_quote_asset = qa, qu_rate = r, qu_fee_percentage = f,
      qu_minimum_amount = mi, qu_maximum_amount = ma, qu_valid_until = v,
      qu_schema_version = SCHEMA_V1, qu_routing_reason = rr\<rparr>"
    using g by (simp add: quote_wf_def Suc_le_eq)
  ultimately show ?thesis
    using g(1,8,10,11) s' by (fastforce simp: emit_def word_less_nat_alt)
qed

lemma store_quote_inv:
  assumes inv: "quote_inv q" and fits: "unat (quote_count q) + 1 < 2 ^ 64"
    and wf: "quote_wf a (quote_count q + 1) qt"
  shows "quote_inv (store_quote qt q)"
proof -
  let ?n = "quote_count q"
  let ?i = "?n + 1"
  have n: "unat ?i = Suc (unat ?n)" using fits by (simp add: unat_word_ariths)
  then have nz: "?i \<noteq> 0" by (metis nat.distinct(1) unat_0)
  have step: "i \<le> ?i \<longleftrightarrow> i = ?i \<or> i \<le> ?n" for i
    by (auto simp: word_le_nat_alt n le_Suc_eq word_unat_eq_iff)
  have new: "\<not> ?i \<le> m" if "m \<le> ?n" for m using that by (simp add: word_le_nat_alt n)
  have ids: "quote_ids_inv q" and content: "quote_content_inv q"
    and latest: "quote_latest_inv q" and cursor: "quote_cursor_inv q"
    using inv by (simp_all add: quote_inv_def)
  have fresh: "quo_anchor_ref q ?i = None" and noquote: "quo_quotes q (b, ?i) = None" for b
    using ids new [of ?n] unfolding quote_ids_inv_def by (metis order_refl option.distinct(1))+
  have below: "i \<le> ?n" if "quo_anchor_ref q i = Some b" for i b
    using ids that unfolding quote_ids_inv_def by (metis option.distinct(1))
  have id: "qu_quote_id qt = ?i" "qu_anchor qt = a" using wf by (simp_all add: quote_wf_def)
  define q' where "q' = store_quote qt q"
  have q': "quo_count q' = Some ?i" "quo_quotes q' = (quo_quotes q)((a, ?i) \<mapsto> qt)"
      "quo_lifecycle q' = (quo_lifecycle q)((a, ?i) \<mapsto> 0)"
      "get_or [] (quo_index q') = get_or [] (quo_index q) @ [?i]"
      "quo_anchor_ref q' = (quo_anchor_ref q)(?i \<mapsto> a)" "quo_latest q' = (quo_latest q)(a \<mapsto> ?i)"
      "quo_qidx q' = quo_qidx q" "quo_cursor q' = quo_cursor q"
    by (simp_all add: q'_def store_quote_def append_quote_index_def Let_def id)
  have "quote_ids_inv q'"
    using ids fresh noquote nz unfolding quote_ids_inv_def q' by (auto simp: n step)
  moreover have "quote_content_inv q'"
    using content wf unfolding quote_content_inv_def q' by auto
  moreover have "quote_latest_inv q'"
    using latest fresh unfolding quote_latest_inv_def q'
    by (auto simp: step dest: below)
  moreover have "quote_cursor_inv q'"
    using cursor unfolding quote_cursor_inv_def q' by (auto simp: step new)
  ultimately show ?thesis by (simp add: quote_inv_def q'_def)
qed

lemma submit_quote_inv:
  assumes "submit_quote_with_reason e a b qa r f mi ma v rr s = Inr (i, s')" and "quote_inv (c_quotes s)"
  shows "quote_inv (c_quotes s')"
  using submit_quote_ok [OF assms(1)] store_quote_inv [OF assms(2)] by auto

lemma invalidate_quote_ok:
  assumes "invalidate_quote e a i s = Inr s'"
  shows "(\<exists>admin. acc_admin (c_access s) = Some admin \<and> admin \<in> auths e) \<and>
    quo_quotes (c_quotes s) (a, i) \<noteq> None \<and>
    (\<exists>evs. s' = s\<lparr>c_quotes := (c_quotes s)\<lparr>quo_lifecycle := (quo_lifecycle (c_quotes s))((a, i) \<mapsto> 1)\<rparr>,
       c_events := evs\<rparr>)"
  using assms by (auto simp: invalidate_quote_def ok_simps emit_def)

lemma invalidate_quote_inv:
  assumes "invalidate_quote e a i s = Inr s'" and "quote_inv (c_quotes s)"
  shows "quote_inv (c_quotes s')"
proof -
  from invalidate_quote_ok [OF assms(1)] obtain qt where qt: "quo_quotes (c_quotes s) (a, i) = Some qt"
    and s': "c_quotes s' = (c_quotes s)\<lparr>quo_lifecycle := (quo_lifecycle (c_quotes s))((a, i) \<mapsto> 1)\<rparr>"
    by auto
  have "insert (a, i) (dom (quo_quotes (c_quotes s))) = dom (quo_quotes (c_quotes s))" using qt by auto
  with assms(2) show ?thesis unfolding s' by (simp add: quote_inv_defs)
qed

lemma purge_expired_quotes_noop:
  assumes "purge_expired_quotes e s = Inr s'" and "quote_inv (c_quotes s)"
  shows "s' = s"
  using assms by (auto simp: purge_expired_quotes_def ok_simps Let_def quote_inv_defs)

lemma accept_quote_iff:
  "accept_quote_with_compliance e r a i c s = Inr (qt, s') \<longleftrightarrow>
     r \<in> auths e \<and> quo_quotes (c_quotes s) (a, i) = Some qt \<and> timestamp e < qu_valid_until qt \<and>
     (c \<longrightarrow> (\<exists>chk. get_latest_compliance_check s r ''kyc'' = Some chk \<and> cc_result chk = 1)) \<and>
     s' = emit (EvQuoteAccepted i r (timestamp e)) s"
proof (cases "quo_quotes (c_quotes s) (a, i)")
  case (Some x)
  then show ?thesis
    by (auto simp: accept_quote_with_compliance_def get_quote_def ok_simps Let_def split: option.split)
qed (simp add: accept_quote_with_compliance_def get_quote_def ok_simps)

section \<open>Migration\<close>

definition to_v2 :: "quote \<Rightarrow> quote" where
  "to_v2 qt = (if SCHEMA_V2 \<le> qu_schema_version qt then qt
     else qt\<lparr>qu_routing_reason := None, qu_schema_version := SCHEMA_V2\<rparr>)"

definition upto_cursor :: "quote_store \<Rightarrow> u64 \<Rightarrow> bool" where
  "upto_cursor q i \<longleftrightarrow> (case quo_cursor q of None \<Rightarrow> True | Some c \<Rightarrow> i \<le> c)"

text \<open>What the loop does from the rest \<open>ids\<close> of the index on, having processed up to \<open>lp\<close>.\<close>

definition loop_result :: "u64 list \<Rightarrow> u64 \<Rightarrow> u64 \<Rightarrow> u32 \<Rightarrow> quote_store \<Rightarrow> u32 \<Rightarrow> quote_store \<Rightarrow> bool" where
  "loop_result ids r lp bs q n q' \<longleftrightarrow>
     (\<forall>a j. quo_quotes q' (a, j) =
        (if j \<in> set ids \<and> r < j \<and> upto_cursor q' j then map_option to_v2 (quo_quotes q (a, j))
         else quo_quotes q (a, j))) \<and>
     q' = q\<lparr>quo_quotes := quo_quotes q', quo_cursor := quo_cursor q'\<rparr> \<and> n \<le> bs \<and>
     (\<forall>c. quo_cursor q' = Some c \<longrightarrow> lp \<le> c \<and> (c = lp \<or> c \<in> set ids) \<and> n = bs)"

lemma loop_result_past: "loop_result ids r lp bs q n q' \<Longrightarrow> i \<le> r \<Longrightarrow> loop_result (i # ids) r lp bs q n q'"
  unfolding loop_result_def by fastforce

lemma loop_result_same:
  assumes "loop_result ids r i bs q n q'" and "lp \<le> i"
    and same: "\<And>a. map_option to_v2 (quo_quotes q (a, i)) = quo_quotes q (a, i)"
  shows "loop_result (i # ids) r lp bs q n q'"
proof -
  have "quo_quotes q' (a, j) =
      (if j \<in> set (i # ids) \<and> r < j \<and> upto_cursor q' j then map_option to_v2 (quo_quotes q (a, j))
       else quo_quotes q (a, j))" for a j
    using assms(1) same [of a] unfolding loop_result_def by (cases "j = i") (simp_all split: if_split)
  with assms(1,2) show ?thesis unfolding loop_result_def by auto
qed

lemma loop_result_upgraded:
  assumes res: "loop_result ids r i bs (q\<lparr>quo_quotes := (quo_quotes q)((b, i) \<mapsto> to_v2 qt)\<rparr>) n q'"
    and "lp \<le> i" "r < i" "i \<notin> set ids" and qt: "quo_quotes q (b, i) = Some qt"
    and other: "\<And>a. a \<noteq> b \<Longrightarrow> quo_quotes q (a, i) = None"
  shows "loop_result (i # ids) r lp bs q n q'"
proof -
  let ?q = "q\<lparr>quo_quotes := (quo_quotes q)((b, i) \<mapsto> to_v2 qt)\<rparr>"
  have step: "quo_quotes q' (a, j) =
      (if j \<in> set ids \<and> r < j \<and> upto_cursor q' j then map_option to_v2 (quo_quotes ?q (a, j))
       else quo_quotes ?q (a, j))" for a j
    using res unfolding loop_result_def by blast
  have upto: "upto_cursor q' i"
    using res unfolding loop_result_def upto_cursor_def by (cases "quo_cursor q'") auto
  have "quo_quotes q' (a, j) =
      (if j \<in> set (i # ids) \<and> r < j \<and> upto_cursor q' j then map_option to_v2 (quo_quotes q (a, j))
       else quo_quotes q (a, j))" for a j
  proof (cases "j = i")
    case True
    then show ?thesis using step [of a i] assms(3,4) upto qt other [of a] by (cases "a = b") simp_all
  next
    case False
    then show ?thesis using step [of a j] by simp
  qed
  moreover have "q' = q\<lparr>quo_quotes := quo_quotes q', quo_cursor := quo_cursor q'\<rparr>"
    using res unfolding loop_result_def by (metis quote_store.update_convs(2) quote_store.surjective quote_store.update_convs(8))
  ultimately show ?thesis
    using res assms(2) unfolding loop_result_def by auto
qed

lemma migrate_loop_ok:
  assumes "migrate_loop bs r ids m lp q = Inr (n, q')"
    and "sorted_wrt (<) ids" and "\<forall>i\<in>set ids. i \<le> r \<or> lp < i" and "r \<le> lp" and "m \<le> bs"
    and "\<forall>a i. quo_quotes q (a, i) \<noteq> None \<longrightarrow> quo_anchor_ref q i = Some a"
  shows "loop_result ids r lp bs q n q'"
  using assms
proof (induction ids arbitrary: m lp q)
  case Nil
  then show ?case by (auto simp: loop_result_def)
next
  case (Cons i ids)
  have sorted: "sorted_wrt (<) ids" "\<forall>j\<in>set ids. i < j" using Cons.prems(2) by auto
  have later: "\<forall>j\<in>set ids. j \<le> r \<or> i < j" using sorted(2) by blast
  have owner: "quo_quotes q (a, i) = None" if "quo_anchor_ref q i \<noteq> Some a" for a
    using Cons.prems(6) that by blast
  show ?case
  proof (cases "i \<le> r")
    case True
    with Cons.prems have "loop_result ids r lp bs q n q'" by (intro Cons.IH) auto
    then show ?thesis using True by (rule loop_result_past)
  next
    case False
    then have le: "r \<le> i" "lp \<le> i" "r < i" using Cons.prems(3) by auto
    show ?thesis
    proof (cases "bs \<le> m")
      case True
      with Cons.prems(1,5) False have q': "q' = q\<lparr>quo_cursor := Some lp\<rparr>" and n: "n = m" "m = bs" by auto
      have "\<not> upto_cursor q' j" if "j \<in> set (i # ids)" "r < j" for j
        using Cons.prems(3) that by (auto simp: q' upto_cursor_def)
      then show ?thesis unfolding loop_result_def q' n by auto
    next
      case more: False
      have same: ?thesis if "migrate_loop bs r ids m i q = Inr (n, q')"
        "\<And>a. map_option to_v2 (quo_quotes q (a, i)) = quo_quotes q (a, i)"
        by (rule loop_result_same [OF Cons.IH [OF that(1) sorted(1) later le(1) Cons.prems(5,6)] le(2) that(2)])
      show ?thesis
      proof (cases "quo_anchor_ref q i")
        case None
        with Cons.prems(1) False more owner show ?thesis by (intro same) auto
      next
        case (Some b)
        then have other: "quo_quotes q (a, i) = None" if "a \<noteq> b" for a using owner that by simp
        show ?thesis
        proof (cases "quo_quotes q (b, i)")
          case None
          then have "quo_quotes q (a, i) = None" for a using other by (cases "a = b") auto
          with Cons.prems(1) False more Some None show ?thesis by (intro same) auto
        next
          case qt: (Some qt)
          show ?thesis
          proof (cases "SCHEMA_V2 \<le> qu_schema_version qt")
            case True
            then have "map_option to_v2 (quo_quotes q (a, i)) = quo_quotes q (a, i)" for a
              using other qt by (cases "a = b") (auto simp: to_v2_def)
            with Cons.prems(1) False more Some qt True show ?thesis by (intro same) auto
          next
            case old: False
            let ?q = "q\<lparr>quo_quotes := (quo_quotes q)((b, i) \<mapsto> to_v2 qt)\<rparr>"
            have rec: "migrate_loop bs r ids (m + 1) i ?q = Inr (n, q')"
              using Cons.prems(1) False more Some qt old by (auto simp: ok_simps to_v2_def)
            have "m + 1 \<le> bs" using more by (simp add: inc_le not_le)
            moreover have "\<forall>a j. quo_quotes ?q (a, j) \<noteq> None \<longrightarrow> quo_anchor_ref ?q j = Some a"
              using Cons.prems(6) Some by auto
            ultimately have "loop_result ids r i bs ?q n q'"
              by (rule Cons.IH [OF rec sorted(1) later le(1)])
            then show ?thesis
              by (rule loop_result_upgraded) (use le sorted(2) qt other in auto)
          qed
        qed
      qed
    qed
  qed
qed

lemma unat_of_nat_below: "m \<le> unat n \<Longrightarrow> unat (of_nat m :: u64) = m" for n :: u64
  using unat_lt_pow [of n] by (simp add: unsigned_of_nat take_bit_nat_eq_self)

lemma sorted_quote_ids:
  "sorted_wrt (<) (map of_nat [1..<Suc (unat n)] :: u64 list)" for n :: u64
proof -
  have "sorted_wrt (\<lambda>a b. (of_nat a :: u64) < of_nat b) [1..<Suc (unat n)]"
  proof (rule sorted_wrt_mono_rel [OF _ strict_sorted_iff [THEN iffD2]])
    fix a b assume "a \<in> set [1..<Suc (unat n)]" "b \<in> set [1..<Suc (unat n)]" "a < b"
    then have "unat (of_nat a :: u64) = a" "unat (of_nat b :: u64) = b"
      using unat_of_nat_below [of _ n] by (simp_all only: set_upt atLeastLessThan_iff less_Suc_eq_le)
    then show "(of_nat a :: u64) < of_nat b" using \<open>a < b\<close> by (simp only: word_less_nat_alt)
  next
    show "sorted [1..<Suc (unat n)] \<and> distinct [1..<Suc (unat n)]" by (simp only: sorted_upt distinct_upt simp_thms)
  qed
  then show ?thesis by (simp only: sorted_wrt_map)
qed

lemma set_quote_ids: "set (map of_nat [1..<Suc (unat n)]) = {i. i \<noteq> 0 \<and> i \<le> n}" for n :: u64
proof (rule set_eqI, rule iffI)
  fix i :: u64 assume "i \<in> set (map of_nat [1..<Suc (unat n)])"
  then obtain m where "i = of_nat m" "1 \<le> m" "m \<le> unat n"
    unfolding set_map set_upt by (auto simp only: image_iff atLeastLessThan_iff less_Suc_eq_le)
  moreover from this have "unat i = m" using unat_of_nat_below by simp
  ultimately show "i \<in> {i. i \<noteq> 0 \<and> i \<le> n}" by (auto simp: word_le_nat_alt)
next
  fix i :: u64 assume "i \<in> {i. i \<noteq> 0 \<and> i \<le> n}"
  then have "1 \<le> unat i" "unat i < Suc (unat n)"
    by (simp_all add: word_le_nat_alt Suc_le_eq unat_gt_0)
  then show "i \<in> set (map of_nat [1..<Suc (unat n)])"
    unfolding set_map set_upt by (intro image_eqI [of _ _ "unat i"]) simp_all
qed

text \<open>One batch: exactly the quotes up to the new cursor are of the second schema afterwards.\<close>

lemma migrate_quotes_ok:
  assumes "migrate_quotes_to_v2 bs q = Inr (n, q')" and inv: "quote_inv q"
  shows "(\<forall>a i. quo_quotes q' (a, i) =
      (if upto_cursor q' i then map_option to_v2 (quo_quotes q (a, i)) else quo_quotes q (a, i))) \<and>
    (\<exists>f c. q' = q\<lparr>quo_quotes := f, quo_cursor := c\<rparr>) \<and> n \<le> bs \<and> bs \<noteq> 0 \<and>
    (\<forall>c. quo_cursor q' = Some c \<longrightarrow> get_or 0 (quo_cursor q) \<le> c \<and> c \<le> quote_count q \<and> n = bs)"
proof -
  let ?r = "get_or 0 (quo_cursor q)"
  let ?ids = "get_or [] (quo_index q)"
  have ids: "?ids = map of_nat [1..<Suc (unat (quote_count q))]"
    and owner: "\<forall>a i. quo_quotes q (a, i) \<noteq> None \<longrightarrow> quo_anchor_ref q i = Some a"
    and refs: "\<forall>i. (quo_anchor_ref q i \<noteq> None) = (i \<noteq> 0 \<and> i \<le> quote_count q)"
    using inv unfolding quote_inv_def quote_ids_inv_def by blast+
  have known: "\<forall>i. quo_anchor_ref q i \<noteq> None \<longrightarrow> i \<in> set ?ids"
    unfolding ids set_quote_ids using refs by blast
  have "sorted_wrt (<) ?ids" unfolding ids by (rule sorted_quote_ids)
  moreover have "migrate_loop bs ?r ?ids 0 ?r q = Inr (n, q')" and bs: "bs \<noteq> 0"
    using assms(1) by (auto simp: migrate_quotes_to_v2_def Let_def split: if_splits)
  ultimately have res: "loop_result ?ids ?r ?r bs q n q'"
    using owner by (intro migrate_loop_ok) auto
  have past: "map_option to_v2 (quo_quotes q (a, i)) = quo_quotes q (a, i)" if "i \<le> ?r" for a i
  proof (cases "quo_cursor q")
    case None
    then have "quo_quotes q (a, i) = None"
      using inv that unfolding quote_inv_def quote_ids_inv_def
      by (metis get_or_simps(1) option.distinct(1) word_le_0_iff)
    then show ?thesis by simp
  next
    case (Some c)
    then show ?thesis
      using inv that unfolding quote_inv_def quote_cursor_inv_def
      by (cases "quo_quotes q (a, i)") (auto simp: to_v2_def SCHEMA_V2_def)
  qed
  have "quo_quotes q' (a, i) =
      (if upto_cursor q' i then map_option to_v2 (quo_quotes q (a, i)) else quo_quotes q (a, i))" for a i
  proof (cases "i \<in> set ?ids")
    case True
    with res past [of i a] show ?thesis unfolding loop_result_def by (cases "i \<le> ?r") auto
  next
    case False
    then have "quo_quotes q (a, i) = None" using owner known by (metis option.distinct(1))
    with res show ?thesis unfolding loop_result_def by simp
  qed
  moreover have "c \<le> quote_count q" if "quo_cursor q' = Some c" for c
  proof -
    have "c = ?r \<or> c \<in> set ?ids" using res that unfolding loop_result_def by blast
    moreover have "?r \<le> quote_count q"
      using inv unfolding quote_inv_def quote_cursor_inv_def by (cases "quo_cursor q") auto
    ultimately show ?thesis unfolding ids using set_quote_ids by auto
  qed
  ultimately show ?thesis using res bs unfolding loop_result_def by blast
qed

text \<open>The counter counts the rewritten quotes: a rewritten quote is of the second schema and is
  not rewritten again.\<close>

definition rewritten :: "quote_store \<Rightarrow> quote_store \<Rightarrow> (address \<times> u64) set" where
  "rewritten q q' = {p. quo_quotes q' p \<noteq> quo_quotes q p}"

lemma migrate_loop_count:
  assumes "migrate_loop bs r ids m lp q = Inr (n, q')"
  shows "finite (rewritten q q') \<and> card (rewritten q q') + unat m = unat n \<and>
    (\<forall>p qt. quo_quotes q p = Some qt \<longrightarrow> SCHEMA_V2 \<le> qu_schema_version qt \<longrightarrow> p \<notin> rewritten q q')"
  using assms
proof (induction ids arbitrary: m lp q)
  case Nil
  then show ?case by (auto simp: rewritten_def)
next
  case (Cons i ids)
  show ?case
  proof (cases "i \<le> r \<or> bs \<le> m \<or> quo_anchor_ref q i = None")
    case True
    with Cons show ?thesis by (auto simp: rewritten_def split: if_split_asm)
  next
    case False
    then obtain b where b: "quo_anchor_ref q i = Some b" "\<not> i \<le> r" "\<not> bs \<le> m" by auto
    show ?thesis
    proof (cases "\<exists>qt. quo_quotes q (b, i) = Some qt \<and> \<not> SCHEMA_V2 \<le> qu_schema_version qt")
      case False
      with b Cons.prems have "\<exists>lp. migrate_loop bs r ids m lp q = Inr (n, q')"
        by (cases "quo_quotes q (b, i)") (auto split: if_split_asm)
      with Cons.IH show ?thesis by blast
    next
      case True
      then obtain qt where qt: "quo_quotes q (b, i) = Some qt" "\<not> SCHEMA_V2 \<le> qu_schema_version qt" by blast
      define q1 where "q1 = q\<lparr>quo_quotes := (quo_quotes q)((b, i) \<mapsto>
          qt\<lparr>qu_routing_reason := None, qu_schema_version := SCHEMA_V2\<rparr>)\<rparr>"
      have fits: "unat m + 1 < 2 ^ 32" and run: "migrate_loop bs r ids (m + 1) i q1 = Inr (n, q')"
        using Cons.prems b qt by (auto simp: ok_simps q1_def)
      then have m: "unat (m + 1) = Suc (unat m)" by (simp add: unat_word_ariths)
      note ih = Cons.IH [OF run]
      have new: "(b, i) \<notin> rewritten q1 q'" using ih by (auto simp: q1_def)
      have "qt\<lparr>qu_routing_reason := None, qu_schema_version := SCHEMA_V2\<rparr> \<noteq> qt"
      proof
        assume "qt\<lparr>qu_routing_reason := None, qu_schema_version := SCHEMA_V2\<rparr> = qt"
        then have "qu_schema_version qt = SCHEMA_V2"
          by (metis quote.select_convs quote.surjective quote.update_convs)
        with qt(2) show False by simp
      qed
      with new have eq: "rewritten q q' = insert (b, i) (rewritten q1 q')"
        using qt(1) by (auto simp: rewritten_def q1_def split: if_split_asm)
      have kept: "p \<notin> rewritten q q'" if "quo_quotes q p = Some x" "SCHEMA_V2 \<le> qu_schema_version x" for p x
      proof -
        have "p \<noteq> (b, i)" using that qt by auto
        then have "quo_quotes q1 p = Some x" using that(1) by (simp add: q1_def)
        with ih that(2) \<open>p \<noteq> (b, i)\<close> show ?thesis unfolding eq by blast
      qed
      show ?thesis using ih new m kept unfolding eq by auto
    qed
  qed
qed

lemma migrate_quotes_count:
  assumes "migrate_quotes_to_v2 bs q = Inr (n, q')"
  shows "finite (rewritten q q') \<and> card (rewritten q q') = unat n"
proof -
  have "migrate_loop bs (get_or 0 (quo_cursor q)) (get_or [] (quo_index q)) 0 (get_or 0 (quo_cursor q)) q = Inr (n, q')"
    using assms by (auto simp: migrate_quotes_to_v2_def Let_def split: if_splits)
  from migrate_loop_count [OF this] show ?thesis by simp
qed

lemma migrate_quotes_inv:
  assumes "migrate_quotes_to_v2 bs q = Inr (n, q')" and inv: "quote_inv q"
  shows "quote_inv q'"
proof -
  note ok = migrate_quotes_ok [OF assms]
  then obtain f c where q': "q' = q\<lparr>quo_quotes := f, quo_cursor := c\<rparr>" by blast
  have f: "f (a, i) = (if upto_cursor q' i then map_option to_v2 (quo_quotes q (a, i)) else quo_quotes q (a, i))" for a i
    using ok by (simp add: q')
  have none: "f p = None \<longleftrightarrow> quo_quotes q p = None" for p
    by (cases p) (simp add: f)
  then have dom: "dom f = dom (quo_quotes q)" by (auto simp: dom_def)
  have wf: "quote_wf a i (to_v2 qt)" if "quote_wf a i qt" for a i qt
    using that by (auto simp: quote_wf_def to_v2_def)
  have v2: "qu_schema_version (to_v2 qt) = SCHEMA_V2" if "quote_wf a i qt" for a i qt
    using that by (auto simp: quote_wf_def to_v2_def SCHEMA_V1_def SCHEMA_V2_def word_le_nat_alt)
  have content: "quo_quotes q (a, i) = Some qt \<Longrightarrow> quote_wf a i qt" for a i qt
    using inv unfolding quote_inv_def quote_content_inv_def by blast
  have "quote_ids_inv q'" using inv unfolding quote_inv_def quote_ids_inv_def by (simp add: q' none)
  moreover have "quote_content_inv q'"
    using inv wf unfolding quote_inv_def quote_content_inv_def
    by (auto simp: q' dom) (auto simp: f split: if_splits)
  moreover have "quote_latest_inv q'"
    using inv unfolding quote_inv_def quote_latest_inv_def by (simp add: q')
  moreover have "quote_cursor_inv q'"
    using ok unfolding quote_cursor_inv_def
    by (auto simp: q' upto_cursor_def intro: v2 [OF content])
  ultimately show ?thesis by (simp add: quote_inv_def)
qed

lemma migrate_pending_quotes_ok:
  assumes "migrate_pending_quotes e v bs s = Inr (pending, s')"
    and run: "SCHEMA_V2 \<le> v \<and> (current_version (c_schema s) < SCHEMA_V2 \<or> quo_cursor (c_quotes s) \<noteq> None)"
  shows "\<exists>n q au. migrate_quotes_to_v2 bs (c_quotes s) = Inr (n, q) \<and> pending = (quo_cursor q \<noteq> None) \<and>
       s' = s\<lparr>c_quotes := q, c_audit := au\<rparr> \<and> (audit_inv (c_audit s) \<longrightarrow> audit_inv au)"
proof -
  from assms(1) obtain n q s2 where m: "migrate_quotes_to_v2 bs (c_quotes s) = Inr (n, q)"
    and s2: "(if 0 < n then bind_ok (get_admin (s\<lparr>c_quotes := q\<rparr>)) (\<lambda>admin.
             audit_action e admin ''schema_migration'' ''quotes'' ''v1''
               (''v2 ('' @ decimal (unat n) @ '')'') (s\<lparr>c_quotes := q\<rparr>)) else Inr (s\<lparr>c_quotes := q\<rparr>)) = Inr s2"
    and s': "pending = (quo_cursor (c_quotes s2) \<noteq> None)" "s' = s2"
    unfolding migrate_pending_quotes_def if_P [OF run] by (auto simp: Let_def bind_ok_Inr)
  have "\<exists>au. s2 = s\<lparr>c_quotes := q, c_audit := au\<rparr> \<and> (audit_inv (c_audit s) \<longrightarrow> audit_inv au)"
  proof (cases "0 < n")
    case True
    with s2 show ?thesis by (auto simp: ok_simps intro: log_action_inv)
  next
    case False
    with s2 have "s2 = s\<lparr>c_quotes := q\<rparr>" by simp
    also have "\<dots> = s\<lparr>c_quotes := q, c_audit := c_audit s\<rparr>" by simp
    finally show ?thesis by blast
  qed
  with m s' show ?thesis by auto
qed

lemma migrate_ok:
  assumes "migrate e v bs s = Inr s'"
  shows "acc_initialized (c_access s) \<and> v = 2 \<and> current_version (c_schema s) = 1 \<and>
    (\<exists>n q au sch. (migrate_quotes_to_v2 bs (c_quotes s) = Inr (n, q)) \<and>
       s' = s\<lparr>c_quotes := q, c_audit := au, c_schema := sch\<rparr> \<and>
       (audit_inv (c_audit s) \<longrightarrow> audit_inv au) \<and>
       (if quo_cursor q \<noteq> None then sch = c_schema s
        else commit_version e 1 2 (step_label ToV2) (c_schema s) = Inr sch))"
proof -
  from assms obtain pending s1 st where init: "acc_initialized (c_access s)"
    and st: "validate_migration v (c_schema s) = Inr st"
    and p: "migrate_pending_quotes e v bs s = Inr (pending, s1)"
    and s': "if pending then s' = s1
      else \<exists>sch. commit_version e (current_version (c_schema s)) v (step_label st) (c_schema s1) = Inr sch \<and>
        s' = s1\<lparr>c_schema := sch\<rparr>"
    by (auto simp: migrate_def Let_def bind_ok_Inr case_sum_Inr split: if_splits)
  from st have v: "v = 2" "current_version (c_schema s) = 1" "st = ToV2" by (simp_all add: validate_migration_iff)
  then have "SCHEMA_V2 \<le> v \<and> (current_version (c_schema s) < SCHEMA_V2 \<or> quo_cursor (c_quotes s) \<noteq> None)"
    by (simp add: SCHEMA_V2_def word_less_nat_alt)
  from migrate_pending_quotes_ok [OF p this] obtain n q au where
    m: "migrate_quotes_to_v2 bs (c_quotes s) = Inr (n, q)" "pending = (quo_cursor q \<noteq> None)"
      "s1 = s\<lparr>c_quotes := q, c_audit := au\<rparr>" "audit_inv (c_audit s) \<longrightarrow> audit_inv au" by blast
  show ?thesis
  proof (cases pending)
    case True
    with s' m have "s' = s\<lparr>c_quotes := q, c_audit := au, c_schema := c_schema s\<rparr>" by simp
    with True m v init show ?thesis by auto
  next
    case False
    with s' m v init show ?thesis by auto
  qed
qed

end
