(* ===== verification/Contract_Transactions.thy ===== *)
theory Contract_Transactions
  imports Contract_Access
begin

text \<open>
  Transaction records kept by the contract (\<^verbatim>\<open>src/contract.rs\<close>): creation with the storage budget
  and the eviction of old terminal records, the state transitions, and the queries over a range of
  identifiers and over all records.
\<close>

section \<open>Budget and eviction policy\<close>

record storage_budget_report =
  br_entry_count :: u64
  br_approx_bytes :: u64
  br_warning_bytes :: u64
  br_critical_bytes :: u64
  br_warning :: bool
  br_critical :: bool

abbreviation with_txs :: "(tx_store \<Rightarrow> tx_store) \<Rightarrow> contract \<Rightarrow> contract" where
  "with_txs f s \<equiv> s\<lparr>c_txs := f (c_txs s)\<rparr>"

definition set_eviction_policy :: "env \<Rightarrow> bool \<Rightarrow> u32 \<Rightarrow> contract \<Rightarrow> trap + contract" where
  "set_eviction_policy e enabled max_per_call s =
     bind_ok (require_admin e s) (\<lambda>_.
       Inr (with_txs (\<lambda>t. t\<lparr>txs_evict_enabled := Some enabled, txs_evict_max := Some max_per_call\<rparr>) s))"

definition set_storage_budget_thresholds :: "env \<Rightarrow> u64 \<Rightarrow> u64 \<Rightarrow> contract \<Rightarrow> trap + contract" where
  "set_storage_budget_thresholds e warning_bytes critical_bytes s =
     bind_ok (require_admin e s) (\<lambda>_.
       if warning_bytes = 0 \<or> critical_bytes \<le> warning_bytes then Inl (Panic ValidationError)
       else Inr (with_txs (\<lambda>t. t\<lparr>txs_budget_warning := Some warning_bytes,
                               txs_budget_critical := Some critical_bytes\<rparr>) s))"

definition storage_budget_thresholds :: "tx_store \<Rightarrow> u64 \<times> u64" where
  "storage_budget_thresholds t =
     (get_or DEFAULT_TXBUDGET_WARNING_BYTES (txs_budget_warning t),
      get_or DEFAULT_TXBUDGET_CRITICAL_BYTES (txs_budget_critical t))"

definition get_storage_budget_report :: "tx_store \<Rightarrow> storage_budget_report" where
  "get_storage_budget_report t =
     (let entry_count = (case txs_ids t of None \<Rightarrow> 0 | Some ids \<Rightarrow> of_nat (length ids));
          approx_bytes = sat_mul entry_count APPROX_TXSTATE_RECORD_BYTES;
          (warning_bytes, critical_bytes) = storage_budget_thresholds t
      in \<lparr>br_entry_count = entry_count, br_approx_bytes = approx_bytes,
          br_warning_bytes = warning_bytes, br_critical_bytes = critical_bytes,
          br_warning = warning_bytes \<le> approx_bytes, br_critical = critical_bytes \<le> approx_bytes\<rparr>)"

text \<open>The new store and the number of evicted entries; an event is published when it is not zero.\<close>

definition run_auto_eviction :: "stamp_sort \<Rightarrow> u32 \<Rightarrow> tx_store \<Rightarrow> nat \<times> tx_store" where
  "run_auto_eviction srt max_per_call t =
     (let evicted = evicted_ids srt max_per_call (terminal_stamps (txs_records t) (get_or [] (txs_ids t)));
          recs = fold (\<lambda>i m. m(i := None)) evicted (txs_records t)
      in if evicted = [] then (0, t)
         else (length evicted,
               t\<lparr>txs_records := recs,
                 txs_ids := Some (filter (\<lambda>i. i \<notin> set evicted) (get_or [] (txs_ids t)))\<rparr>))"

definition auto_evict :: "stamp_sort \<Rightarrow> contract \<Rightarrow> contract" where
  "auto_evict srt s =
     (let report = get_storage_budget_report (c_txs s) in
      if get_or False (txs_evict_enabled (c_txs s)) \<and> (br_warning report \<or> br_critical report)
      then let (n, t) = run_auto_eviction srt (get_or 10 (txs_evict_max (c_txs s))) (c_txs s);
               s1 = s\<lparr>c_txs := t\<rparr>
           in if n = 0 then s1 else emit (EvEvictBudget (of_nat n)) s1
      else s)"

section \<open>Records\<close>

definition insert_tx :: "transaction_state_record \<Rightarrow> tx_store \<Rightarrow> tx_store" where
  "insert_tx r t = t\<lparr>txs_records := (txs_records t)(tx_id r \<mapsto> r),
                     txs_ids := Some (get_or [] (txs_ids t) @ [tx_id r])\<rparr>"

definition budget_event :: "contract \<Rightarrow> contract" where
  "budget_event s =
     (let report = get_storage_budget_report (c_txs s) in
      if br_critical report then emit (EvTxBudget True (br_entry_count report) (br_approx_bytes report)) s
      else if br_warning report then emit (EvTxBudget False (br_entry_count report) (br_approx_bytes report)) s
      else s)"

definition create_txn_record_with_reason ::
    "stamp_sort \<Rightarrow> env \<Rightarrow> u64 \<Rightarrow> address \<Rightarrow> string option \<Rightarrow> contract \<Rightarrow> transaction_state_record \<times> contract" where
  "create_txn_record_with_reason srt e transaction_id initiator routing_reason s =
     (let s1 = auto_evict srt s;
          r = new_tx_record e transaction_id initiator routing_reason
      in (r, budget_event (with_txs (insert_tx r) s1)))"

definition create_transaction_record ::
    "stamp_sort \<Rightarrow> env \<Rightarrow> u64 \<Rightarrow> address \<Rightarrow> contract \<Rightarrow> transaction_state_record \<times> contract" where
  "create_transaction_record srt e transaction_id initiator s =
     create_txn_record_with_reason srt e transaction_id initiator None s"

definition advance_transaction_state ::
    "env \<Rightarrow> u64 \<Rightarrow> tx_state \<Rightarrow> string option \<Rightarrow> contract \<Rightarrow> trap + (transaction_state_record \<times> contract)" where
  "advance_transaction_state e transaction_id new_state error_message s =
     bind_ok (of_option (Panic TransactionNotFound) (txs_records (c_txs s) transaction_id)) (\<lambda>r.
       if \<not> is_valid_transition (tx_state_of r) new_state then Inl (Panic IllegalTransition)
       else
         let r1 = advance_record e new_state error_message r
         in Inr (r1, with_txs (\<lambda>t. t\<lparr>txs_records := (txs_records t)(transaction_id \<mapsto> r1)\<rparr>) s))"

definition start_transaction_record :: "env \<Rightarrow> u64 \<Rightarrow> contract \<Rightarrow> trap + (transaction_state_record \<times> contract)" where
  "start_transaction_record e i s = advance_transaction_state e i TxInProgress None s"

definition complete_transaction_record :: "env \<Rightarrow> u64 \<Rightarrow> contract \<Rightarrow> trap + (transaction_state_record \<times> contract)" where
  "complete_transaction_record e i s = advance_transaction_state e i TxCompleted None s"

definition fail_transaction_record ::
    "env \<Rightarrow> u64 \<Rightarrow> string \<Rightarrow> contract \<Rightarrow> trap + (transaction_state_record \<times> contract)" where
  "fail_transaction_record e i error_message s =
     advance_transaction_state e i TxFailed (Some error_message) s"

section \<open>Queries\<close>

definition get_txn_state_history :: "contract \<Rightarrow> u64 \<Rightarrow> trap + (tx_state \<times> u64) list" where
  "get_txn_state_history s i =
     bind_ok (of_option (Panic AttestationNotFound) (txs_records (c_txs s) i)) (\<lambda>r. Inr (tx_history r))"

text \<open>The trap is the overflow of \<open>id += 1\<close>.\<close>

definition get_transactions_in_range ::
    "contract \<Rightarrow> u64 \<Rightarrow> u64 \<Rightarrow> u32 \<Rightarrow> trap + transaction_state_record list" where
  "get_transactions_in_range s from_id to_id limit =
     (if to_id < from_id then Inr []
      else range_loop ArithTrap (txs_records (c_txs s)) to_id (unat (min limit 100)) from_id [])"

definition summarize_transactions_by_status :: "contract \<Rightarrow> trap + transaction_status_summary" where
  "summarize_transactions_by_status s =
     list_bind (\<lambda>m i. case txs_records (c_txs s) i of
         None \<Rightarrow> Inr m
       | Some r \<Rightarrow> count_state (tx_state_of r) m) empty_summary (get_or [] (txs_ids (c_txs s)))"

section \<open>Invariant\<close>

text \<open>
  Every record sits under its own identifier, has a history that is a path of the state machine
  from \<open>Pending\<close> to its current state, and is listed.
\<close>

definition tx_inv :: "tx_store \<Rightarrow> bool" where
  "tx_inv t \<longleftrightarrow>
     (\<forall>i r. txs_records t i = Some r \<longrightarrow> tx_id r = i \<and> record_wf is_valid_transition r \<and> i \<in> set (get_or [] (txs_ids t)))"

lemma tx_invD: "tx_inv t \<Longrightarrow> txs_records t i = Some r \<Longrightarrow>
    tx_id r = i \<and> record_wf is_valid_transition r \<and> i \<in> set (get_or [] (txs_ids t))"
  by (simp add: tx_inv_def)

lemma tx_inv_empty: "tx_inv (c_txs fresh_contract)"
  by (simp add: tx_inv_def fresh_contract_def empty_tx_store_def)

lemma run_auto_eviction_effect:
  assumes "run_auto_eviction srt k t = (n, t')"
  defines "gone \<equiv> set (evicted_ids srt k (terminal_stamps (txs_records t) (get_or [] (txs_ids t))))"
  shows "txs_records t' = (\<lambda>i. if i \<in> gone then None else txs_records t i)"
    and "get_or [] (txs_ids t') = filter (\<lambda>i. i \<notin> gone) (get_or [] (txs_ids t))"
  using assms(1) unfolding gone_def
  by (auto simp: run_auto_eviction_def Let_def drop_records split: if_splits)

lemma run_auto_eviction_inv:
  assumes "run_auto_eviction srt k t = (n, t')" and "tx_inv t"
  shows "tx_inv t'"
  using assms(2) run_auto_eviction_effect [OF assms(1)] by (simp add: tx_inv_def)

lemma auto_evict_ok: "\<exists>t evs. auto_evict srt s = s\<lparr>c_txs := t, c_events := evs\<rparr> \<and> (tx_inv (c_txs s) \<longrightarrow> tx_inv t)"
proof -
  obtain n t where r: "run_auto_eviction srt (get_or 10 (txs_evict_max (c_txs s))) (c_txs s) = (n, t)"
    by (cases "run_auto_eviction srt (get_or 10 (txs_evict_max (c_txs s))) (c_txs s)")
  let ?t = "c_txs (auto_evict srt s)" and ?evs = "c_events (auto_evict srt s)"
  have "auto_evict srt s = s\<lparr>c_txs := ?t, c_events := ?evs\<rparr>"
    by (simp add: auto_evict_def Let_def r emit_def)
  moreover have "tx_inv (c_txs s) \<longrightarrow> tx_inv ?t"
    using run_auto_eviction_inv [OF r] by (simp add: auto_evict_def Let_def r)
  ultimately show ?thesis by blast
qed

lemma insert_tx_inv: "tx_inv t \<Longrightarrow> record_wf is_valid_transition r \<Longrightarrow> tx_inv (insert_tx r t)"
  by (auto simp: tx_inv_def insert_tx_def)

lemma budget_event_frame: "budget_event s = s\<lparr>c_events := c_events (budget_event s)\<rparr>"
  by (simp add: budget_event_def Let_def emit_def)

lemma create_txn_record_ok:
  assumes "create_txn_record_with_reason srt e i a rr s = (r, s')"
  shows "r = new_tx_record e i a rr \<and>
    (\<exists>t evs. s' = s\<lparr>c_txs := t, c_events := evs\<rparr> \<and> txs_records t i = Some r \<and> (tx_inv (c_txs s) \<longrightarrow> tx_inv t))"
proof -
  have id: "tx_id (new_tx_record e i a rr) = i" by (simp add: new_tx_record_def)
  obtain t evs where s1: "auto_evict srt s = s\<lparr>c_txs := t, c_events := evs\<rparr>" "tx_inv (c_txs s) \<longrightarrow> tx_inv t"
    using auto_evict_ok by blast
  obtain evs' where "budget_event (with_txs (insert_tx (new_tx_record e i a rr)) (auto_evict srt s)) =
      (with_txs (insert_tx (new_tx_record e i a rr)) (auto_evict srt s))\<lparr>c_events := evs'\<rparr>"
    by (rule that [OF budget_event_frame])
  with assms s1 have "s' = s\<lparr>c_txs := insert_tx r t, c_events := evs'\<rparr>" and r: "r = new_tx_record e i a rr"
    by (auto simp: create_txn_record_with_reason_def Let_def)
  moreover have "tx_inv (c_txs s) \<longrightarrow> tx_inv (insert_tx r t)"
    using s1(2) r by (simp add: insert_tx_inv new_tx_record_wf)
  moreover have "txs_records (insert_tx r t) i = Some r" using id r by (simp add: insert_tx_def)
  ultimately show ?thesis by blast
qed

lemma advance_transaction_state_ok:
  assumes "advance_transaction_state e i st msg s = Inr (r', s')"
  shows "\<exists>r. txs_records (c_txs s) i = Some r \<and> is_valid_transition (tx_state_of r) st \<and>
    r' = advance_record e st msg r \<and>
    s' = with_txs (\<lambda>t. t\<lparr>txs_records := (txs_records t)(i \<mapsto> r')\<rparr>) s"
  using assms by (auto simp: advance_transaction_state_def Let_def ok_simps split: if_splits)

lemma advance_transaction_state_inv:
  assumes "advance_transaction_state e i st msg s = Inr (r', s')" and inv: "tx_inv (c_txs s)"
  shows "tx_inv (c_txs s')"
proof -
  from advance_transaction_state_ok [OF assms(1)] obtain r where
    r: "txs_records (c_txs s) i = Some r" "is_valid_transition (tx_state_of r) st"
    and r': "r' = advance_record e st msg r"
    and s': "s' = with_txs (\<lambda>t. t\<lparr>txs_records := (txs_records t)(i \<mapsto> r')\<rparr>) s" by blast
  from tx_invD [OF inv r(1)] have "tx_id r = i" "record_wf is_valid_transition r" "i \<in> set (get_or [] (txs_ids (c_txs s)))"
    by auto
  with inv advance_record_wf [OF _ r(2) order.refl] show ?thesis
    unfolding s' r' by (auto simp: tx_inv_def)
qed

lemmas tx_step_defs =
  start_transaction_record_def complete_transaction_record_def fail_transaction_record_def

section \<open>What the queries return\<close>

text \<open>The summary counts listed identifiers, one for each occurrence in the list.\<close>

definition states_listed :: "contract \<Rightarrow> tx_state list" where
  "states_listed s = List.map_filter (\<lambda>i. map_option tx_state_of (txs_records (c_txs s) i))
     (get_or [] (txs_ids (c_txs s)))"

lemma summarize_ok:
  assumes "length (get_or [] (txs_ids (c_txs s))) < 2 ^ 64"
  shows "summarize_transactions_by_status s = Inr (summary_of (states_listed s))"
proof -
  let ?f = "\<lambda>m i. case txs_records (c_txs s) i of None \<Rightarrow> Inr m | Some r \<Rightarrow> count_state (tx_state_of r) m"
  let ?g = "\<lambda>i. map_option tx_state_of (txs_records (c_txs s) i)"
  have "list_bind ?f (summary_of ss) xs = Inr (summary_of (ss @ List.map_filter ?g xs))"
    if "length ss + length xs < 2 ^ 64" for ss xs
    using that
  proof (induction xs arbitrary: ss)
    case (Cons x xs)
    then show ?case
      by (cases "txs_records (c_txs s) x") (simp_all add: count_state_summary List.map_filter_simps)
  qed (simp add: List.map_filter_simps)
  from this [of "[]"] assms show ?thesis
    by (simp add: summarize_transactions_by_status_def states_listed_def summary_of_def empty_summary_def)
qed

end
