(* ===== verification/Contract_Caches.thy ===== *)
theory Contract_Caches
  imports Contract_Attestors
begin

text \<open>
  The metadata and capability caches of \<^verbatim>\<open>src/contract.rs\<close>: writes under the TTL policies and the
  capacity, plain and stale-while-revalidate reads, compaction, invalidation by the administrator or
  by a quorum of attestors, and the freshness reports.
\<close>

abbreviation with_caches :: "(cache_store \<Rightarrow> cache_store) \<Rightarrow> contract \<Rightarrow> contract" where
  "with_caches f s \<equiv> s\<lparr>c_anchors := (c_anchors s)\<lparr>an_caches := f (an_caches (c_anchors s))\<rparr>\<rparr>"

abbreviation with_governance :: "governance_store \<Rightarrow> contract \<Rightarrow> contract" where
  "with_governance g s \<equiv> s\<lparr>c_anchors := (c_anchors s)\<lparr>an_governance := g\<rparr>\<rparr>"

abbreviation caches :: "contract \<Rightarrow> cache_store" where
  "caches s \<equiv> an_caches (c_anchors s)"

abbreviation governance :: "contract \<Rightarrow> governance_store" where
  "governance s \<equiv> an_governance (c_anchors s)"

section \<open>Configuration and entries\<close>

definition set_cache_config :: "env \<Rightarrow> cache_config \<Rightarrow> contract \<Rightarrow> trap + contract" where
  "set_cache_config e config s =
     bind_ok (require_admin e s) (\<lambda>_.
       if cf_metadata_ttl config = 0 \<or> cf_capabilities_ttl config = 0 \<or> cf_swr_ttl config = 0
       then Inl (Panic ValidationError)
       else
         let s1 = with_caches (\<lambda>c. c\<lparr>ca_config := Some config\<rparr>) s in
         bind_ok (get_admin s1) (\<lambda>admin.
           audit_action e admin ''set_cache_config'' ''cache'' '''' ''updated'' s1))"

definition get_cache_config :: "contract \<Rightarrow> cache_config" where
  "get_cache_config s = get_or default_cache_config (ca_config (caches s))"

text \<open>The refusals of the governance module become panics.\<close>

definition or_panic :: "error_code \<Rightarrow> 'x + 'a \<Rightarrow> trap + 'a" where
  "or_panic code r = (case r of Inl _ \<Rightarrow> Inl (Panic code) | Inr v \<Rightarrow> Inr v)"

definition set_cache_policy_set :: "env \<Rightarrow> cache_policy_set \<Rightarrow> contract \<Rightarrow> trap + contract" where
  "set_cache_policy_set e policies s =
     bind_ok (require_admin e s) (\<lambda>_.
     bind_ok (or_panic ValidationError (set_policy_set policies (governance s))) (\<lambda>g.
       Inr (with_governance g s)))"

definition get_cache_policy_set :: "contract \<Rightarrow> cache_policy_set" where
  "get_cache_policy_set s = get_policy_set (governance s)"

definition effective_ttl :: "u64 \<Rightarrow> u64 \<Rightarrow> u64" where
  "effective_ttl override_ttl configured = (if override_ttl \<noteq> 0 then override_ttl else configured)"

text \<open>The lifetime of an entry in ledgers: the seconds, cut to 32 bits.\<close>

definition ledger_ttl :: "u64 \<Rightarrow> nat" where
  "ledger_ttl ttl = unat (if MIN_TEMP_TTL < (ucast ttl :: u32) then ucast ttl else MIN_TEMP_TTL)"

definition get_cache_count :: "contract \<Rightarrow> u64" where
  "get_cache_count s = get_or 0 (ca_count (caches s))"

definition cached_metadata :: "env \<Rightarrow> contract \<Rightarrow> address \<Rightarrow> metadata_cache option" where
  "cached_metadata e s anchor = temp_get (unat (ledger_seq e)) (ca_metadata (caches s)) anchor"

definition cached_capabilities :: "env \<Rightarrow> contract \<Rightarrow> address \<Rightarrow> capabilities_cache option" where
  "cached_capabilities e s anchor = temp_get (unat (ledger_seq e)) (ca_capabilities (caches s)) anchor"

definition put_metadata :: "env \<Rightarrow> nat \<Rightarrow> address \<Rightarrow> metadata_cache \<Rightarrow> contract \<Rightarrow> contract" where
  "put_metadata e ttl anchor entry s =
     with_caches (\<lambda>c. c\<lparr>ca_metadata := temp_put (unat (ledger_seq e)) ttl (ca_metadata c) anchor entry\<rparr>) s"

definition put_capabilities :: "env \<Rightarrow> nat \<Rightarrow> address \<Rightarrow> capabilities_cache \<Rightarrow> contract \<Rightarrow> contract" where
  "put_capabilities e ttl anchor entry s =
     with_caches (\<lambda>c. c\<lparr>ca_capabilities := temp_put (unat (ledger_seq e)) ttl (ca_capabilities c) anchor entry\<rparr>) s"

text \<open>The capacity check before a new entry, and the count after it.\<close>

definition require_cache_room :: "bool \<Rightarrow> contract \<Rightarrow> trap + unit" where
  "require_cache_room entry_exists s =
     (if \<not> entry_exists \<and> max_cache_entries (get_capacity_config s) \<le> get_cache_count s
      then Inl (Panic CacheCapacityExceeded) else Inr ())"

definition count_cache_entry :: "bool \<Rightarrow> contract \<Rightarrow> trap + contract" where
  "count_cache_entry entry_exists s =
     (if entry_exists then Inr s
      else bind_ok (plus_trap (get_cache_count s) 1) (\<lambda>n. Inr (with_caches (\<lambda>c. c\<lparr>ca_count := Some n\<rparr>) s)))"

section \<open>Writes\<close>

definition cache_metadata :: "env \<Rightarrow> address \<Rightarrow> anchor_metadata \<Rightarrow> u64 \<Rightarrow> contract \<Rightarrow> trap + contract" where
  "cache_metadata e anchor metadata ttl_seconds s =
     bind_ok (require_admin e s) (\<lambda>_.
       let entry_exists = cached_metadata e s anchor \<noteq> None in
     bind_ok (require_cache_room entry_exists s) (\<lambda>_.
       let cfg = get_cache_config s;
           base_ttl = effective_ttl ttl_seconds (cf_metadata_ttl cfg);
           ttl = fst (enforce_write_policy (governance s) CacheMetadata base_ttl 0);
           entry = \<lparr>mc_metadata = metadata, mc_cached_at = timestamp e, mc_ttl = ttl,
                    mc_stale_ttl = cf_swr_ttl cfg, mc_needs_refresh = False\<rparr>
       in count_cache_entry entry_exists (put_metadata e (ledger_ttl ttl) anchor entry s)))"

definition cache_metadata_swr ::
    "env \<Rightarrow> address \<Rightarrow> anchor_metadata \<Rightarrow> u64 \<Rightarrow> u64 \<Rightarrow> contract \<Rightarrow> trap + contract" where
  "cache_metadata_swr e anchor metadata ttl_seconds stale_ttl_seconds s =
     bind_ok (require_admin e s) (\<lambda>_.
       let entry_exists = cached_metadata e s anchor \<noteq> None in
     bind_ok (require_cache_room entry_exists s) (\<lambda>_.
       let cfg = get_cache_config s;
           base_ttl = effective_ttl ttl_seconds (cf_metadata_ttl cfg);
           stale = effective_ttl stale_ttl_seconds (cf_swr_ttl cfg);
           ttl = fst (enforce_write_policy (governance s) CacheMetadata base_ttl 0);
           entry = \<lparr>mc_metadata = metadata, mc_cached_at = timestamp e, mc_ttl = ttl,
                    mc_stale_ttl = stale, mc_needs_refresh = False\<rparr>
       in count_cache_entry entry_exists (put_metadata e (ledger_ttl (sat_add ttl stale)) anchor entry s)))"

definition force_refresh_metadata ::
    "env \<Rightarrow> address \<Rightarrow> anchor_metadata \<Rightarrow> u64 \<Rightarrow> u64 \<Rightarrow> contract \<Rightarrow> trap + contract" where
  "force_refresh_metadata e anchor metadata ttl_seconds stale_ttl_seconds s =
     bind_ok (require_admin e s) (\<lambda>_.
     bind_ok (or_panic ValidationError (enforce_invalidation_policy (governance s) CacheMetadata)) (\<lambda>_.
       let cfg = get_cache_config s;
           base_ttl = effective_ttl ttl_seconds (cf_metadata_ttl cfg);
           stale = effective_ttl stale_ttl_seconds (cf_swr_ttl cfg);
           ttl = fst (enforce_write_policy (governance s) CacheMetadata base_ttl 0);
           entry = \<lparr>mc_metadata = metadata, mc_cached_at = timestamp e, mc_ttl = ttl,
                    mc_stale_ttl = stale, mc_needs_refresh = False\<rparr>
       in Inr (put_metadata e (ledger_ttl (sat_add ttl stale)) anchor entry s)))"

definition validate_metadata :: "address \<Rightarrow> anchor_metadata \<Rightarrow> trap + unit" where
  "validate_metadata anchor metadata =
     (if am_anchor metadata \<noteq> anchor then Inl (Panic ValidationError)
      else if 10000 < am_uptime metadata then Inl (Panic ValidationError) else Inr ())"

definition refresh_metadata_cache_swr ::
    "env \<Rightarrow> address \<Rightarrow> anchor_metadata \<Rightarrow> u64 \<Rightarrow> u64 \<Rightarrow> contract \<Rightarrow> trap + contract" where
  "refresh_metadata_cache_swr e anchor metadata ttl_seconds stale_ttl_seconds s =
     bind_ok (require_admin e s) (\<lambda>_.
     bind_ok (validate_metadata anchor metadata) (\<lambda>_.
       let unchanged = (case cached_metadata e s anchor of
             None \<Rightarrow> False
           | Some existing \<Rightarrow> sat_sub (timestamp e) (mc_cached_at existing) \<le> mc_ttl existing \<and>
               mc_metadata existing = metadata)
       in if unchanged then Inr s
          else Inr (put_metadata e (ledger_ttl (sat_add ttl_seconds stale_ttl_seconds)) anchor
                 \<lparr>mc_metadata = metadata, mc_cached_at = timestamp e, mc_ttl = ttl_seconds,
                  mc_stale_ttl = stale_ttl_seconds, mc_needs_refresh = False\<rparr> s)))"

definition cache_capabilities ::
    "env \<Rightarrow> address \<Rightarrow> string \<Rightarrow> string \<Rightarrow> u64 \<Rightarrow> contract \<Rightarrow> trap + contract" where
  "cache_capabilities e anchor toml_url capabilities ttl_seconds s =
     bind_ok (require_admin e s) (\<lambda>_.
       let entry_exists = cached_capabilities e s anchor \<noteq> None in
     bind_ok (require_cache_room entry_exists s) (\<lambda>_.
       let base_ttl = effective_ttl ttl_seconds (cf_capabilities_ttl (get_cache_config s));
           ttl = fst (enforce_write_policy (governance s) CacheCapabilities base_ttl 0);
           entry = \<lparr>kc_toml_url = toml_url, kc_capabilities = capabilities,
                    kc_cached_at = timestamp e, kc_ttl = ttl\<rparr>
       in count_cache_entry entry_exists (put_capabilities e (ledger_ttl ttl) anchor entry s)))"

text \<open>The report of the last refresh, and the two refreshing calls that leave one.\<close>

definition record_refresh_diagnostic ::
    "env \<Rightarrow> address \<Rightarrow> string \<Rightarrow> refresh_status \<Rightarrow> bool \<Rightarrow> string \<Rightarrow> contract \<Rightarrow> contract" where
  "record_refresh_diagnostic e anchor operation status had detail s =
     with_caches (\<lambda>c. c\<lparr>ca_diagnostics := temp_put (unat (ledger_seq e)) (unat MIN_TEMP_TTL) (ca_diagnostics c)
       (anchor, operation) \<lparr>rd_operation = operation, rd_status = status, rd_attempted_at = timestamp e,
                            rd_had_cached_entry = had, rd_detail = detail\<rparr>\<rparr>) s"

definition get_refresh_diagnostic :: "env \<Rightarrow> contract \<Rightarrow> address \<Rightarrow> string \<Rightarrow> trap + refresh_diagnostic" where
  "get_refresh_diagnostic e s anchor operation =
     of_option (Panic CacheNotFound) (temp_get (unat (ledger_seq e)) (ca_diagnostics (caches s)) (anchor, operation))"

definition refresh_metadata_cache :: "env \<Rightarrow> address \<Rightarrow> anchor_metadata \<Rightarrow> u64 \<Rightarrow> contract \<Rightarrow> trap + contract" where
  "refresh_metadata_cache e anchor metadata ttl_seconds s =
     bind_ok (require_admin e s) (\<lambda>_.
     bind_ok (cache_metadata e anchor metadata ttl_seconds s) (\<lambda>s1.
       Inr (record_refresh_diagnostic e anchor ''metadata'' RefreshSuccess True
              ''metadata cache refreshed successfully'' s1)))"

definition refresh_capabilities_cache ::
    "env \<Rightarrow> address \<Rightarrow> string \<Rightarrow> string \<Rightarrow> u64 \<Rightarrow> contract \<Rightarrow> trap + contract" where
  "refresh_capabilities_cache e anchor toml_url capabilities ttl_seconds s =
     bind_ok (require_admin e s) (\<lambda>_.
     bind_ok (cache_capabilities e anchor toml_url capabilities ttl_seconds s) (\<lambda>s1.
       Inr (record_refresh_diagnostic e anchor ''capabilities'' RefreshSuccess True
              ''capabilities cache refreshed successfully'' s1)))"

section \<open>Reads\<close>

definition get_cached_metadata :: "env \<Rightarrow> contract \<Rightarrow> address \<Rightarrow> trap + anchor_metadata" where
  "get_cached_metadata e s anchor =
     bind_ok (of_option (Panic CacheNotFound) (cached_metadata e s anchor)) (\<lambda>entry.
     bind_ok (plus_trap (mc_cached_at entry) (mc_ttl entry)) (\<lambda>until.
       if until \<le> timestamp e then Inl (Panic CacheExpired) else Inr (mc_metadata entry)))"

text \<open>The rewrite of a stale entry has no \<open>extend_ttl\<close>, so its lifetime stays as it is.\<close>

definition get_cached_metadata_swr ::
    "env \<Rightarrow> address \<Rightarrow> contract \<Rightarrow> trap + ((anchor_metadata \<times> bool) \<times> contract)" where
  "get_cached_metadata_swr e anchor s =
     bind_ok (of_option (Panic CacheNotFound) (cached_metadata e s anchor)) (\<lambda>entry.
       let age = sat_sub (timestamp e) (mc_cached_at entry) in
       if age \<le> mc_ttl entry then Inr ((mc_metadata entry, False), s)
       else if age \<le> sat_add (mc_ttl entry) (mc_stale_ttl entry)
       then Inr ((mc_metadata entry, True), put_metadata e 0 anchor (entry\<lparr>mc_needs_refresh := True\<rparr>) s)
       else Inl (Panic CacheExpired))"

definition entry_state :: "u64 \<Rightarrow> metadata_cache \<Rightarrow> metadata_cache_state" where
  "entry_state now entry =
     (let age = sat_sub now (mc_cached_at entry) in
      if age \<le> mc_ttl entry then CacheFresh
      else if age \<le> sat_add (mc_ttl entry) (mc_stale_ttl entry) then CacheStale
      else CacheExpiredState)"

definition get_metadata_cache_state :: "env \<Rightarrow> contract \<Rightarrow> address \<Rightarrow> metadata_cache_state" where
  "get_metadata_cache_state e s anchor =
     (case cached_metadata e s anchor of
        None \<Rightarrow> CacheMissing
      | Some entry \<Rightarrow> entry_state (timestamp e) entry)"

definition get_cached_capabilities :: "env \<Rightarrow> contract \<Rightarrow> address \<Rightarrow> trap + capabilities_cache" where
  "get_cached_capabilities e s anchor =
     bind_ok (of_option (Panic CacheNotFound) (cached_capabilities e s anchor)) (\<lambda>entry.
     bind_ok (plus_trap (kc_cached_at entry) (kc_ttl entry)) (\<lambda>until.
       if until \<le> timestamp e then Inl (Panic CacheExpired) else Inr entry))"

section \<open>Invalidation\<close>

definition drop_entries :: "bool \<Rightarrow> bool \<Rightarrow> address \<Rightarrow> contract \<Rightarrow> contract" where
  "drop_entries meta cap anchor s =
     with_caches (\<lambda>c. c\<lparr>ca_metadata := (if meta then (ca_metadata c)(anchor := None) else ca_metadata c),
       ca_capabilities := (if cap then (ca_capabilities c)(anchor := None) else ca_capabilities c)\<rparr>) s"

definition release_slots :: "u64 \<Rightarrow> contract \<Rightarrow> contract" where
  "release_slots freed s =
     (let current = get_cache_count s
      in with_caches (\<lambda>c. c\<lparr>ca_count := Some (if freed \<le> current then current - freed else 0)\<rparr>) s)"

definition invalidate_cache_internal :: "env \<Rightarrow> address \<Rightarrow> contract \<Rightarrow> bool \<times> contract" where
  "invalidate_cache_internal e anchor s =
     (let meta = cached_metadata e s anchor \<noteq> None;
          cap = cached_capabilities e s anchor \<noteq> None;
          slots_freed = (if meta then 1 else 0) + (if cap then 1 else 0);
          s1 = drop_entries meta cap anchor s
      in if 0 < slots_freed
         then (True, emit (EvCacheInvalid anchor (timestamp e)) (release_slots slots_freed s1))
         else (False, s1))"

definition invalidate_cache_for_anchor :: "env \<Rightarrow> address \<Rightarrow> contract \<Rightarrow> trap + (bool \<times> contract)" where
  "invalidate_cache_for_anchor e anchor s =
     bind_ok (require_admin e s) (\<lambda>_.
       case invalidate_cache_internal e anchor s of
         (cleared, s1) \<Rightarrow>
           if cleared
           then bind_ok (get_admin s1) (\<lambda>admin.
                bind_ok (audit_action e admin ''invalidate_cache'' anchor ''cached'' ''invalidated'' s1) (\<lambda>s2.
                  Inr (True, s2)))
           else Inr (False, s1))"

text \<open>\<open>compact_cache\<close>: one anchor, then the list.\<close>

definition expired_metadata :: "env \<Rightarrow> contract \<Rightarrow> address \<Rightarrow> bool" where
  "expired_metadata e s anchor \<longleftrightarrow>
     (case cached_metadata e s anchor of
        None \<Rightarrow> False
      | Some entry \<Rightarrow> sat_add (mc_cached_at entry) (sat_add (mc_ttl entry) (mc_stale_ttl entry)) \<le> timestamp e)"

definition expired_capabilities :: "env \<Rightarrow> contract \<Rightarrow> address \<Rightarrow> bool" where
  "expired_capabilities e s anchor \<longleftrightarrow>
     (case cached_capabilities e s anchor of
        None \<Rightarrow> False
      | Some entry \<Rightarrow> sat_add (kc_cached_at entry) (kc_ttl entry) \<le> timestamp e)"

definition compact_anchor :: "env \<Rightarrow> u64 \<times> contract \<Rightarrow> address \<Rightarrow> trap + (u64 \<times> contract)" where
  "compact_anchor e st anchor =
     (case st of (freed, s) \<Rightarrow>
        let meta = expired_metadata e s anchor; cap = expired_capabilities e s anchor in
        bind_ok (if meta then plus_trap freed 1 else Inr freed) (\<lambda>f1.
        bind_ok (if cap then plus_trap f1 1 else Inr f1) (\<lambda>f2.
          Inr (f2, drop_entries meta cap anchor s))))"

definition compact_cache :: "env \<Rightarrow> address list \<Rightarrow> contract \<Rightarrow> trap + (u64 \<times> contract)" where
  "compact_cache e anchors s =
     bind_ok (require_admin e s) (\<lambda>_.
     bind_ok (list_bind (compact_anchor e) (0, s) anchors) (\<lambda>(freed, s1).
       if 0 < freed
       then bind_ok (get_admin (release_slots freed s1)) (\<lambda>admin.
            bind_ok (audit_action e admin ''compact_cache'' ''cache'' '''' ''compacted'' (release_slots freed s1)) (\<lambda>s2.
              Inr (freed, emit (EvCacheCompacted freed) s2)))
       else Inr (freed, s1)))"

section \<open>Governance\<close>

definition propose_cache_invalidation :: "env \<Rightarrow> address \<Rightarrow> address \<Rightarrow> contract \<Rightarrow> trap + (u64 \<times> contract)" where
  "propose_cache_invalidation e caller anchor s =
     bind_ok (require_auth e caller) (\<lambda>_.
     bind_ok (check_attestor caller s) (\<lambda>_.
     bind_ok (or_panic CacheCapacityExceeded (propose e caller anchor (governance s))) (\<lambda>(i, g).
       Inr (i, with_governance g s))))"

definition endorse_cache_invalidation :: "env \<Rightarrow> address \<Rightarrow> u64 \<Rightarrow> contract \<Rightarrow> trap + contract" where
  "endorse_cache_invalidation e caller proposal_id s =
     bind_ok (require_auth e caller) (\<lambda>_.
     bind_ok (check_attestor caller s) (\<lambda>_.
     bind_ok (or_panic ValidationError (endorse e caller proposal_id (governance s))) (\<lambda>g.
       Inr (with_governance g s))))"

definition execute_cache_invalidation :: "env \<Rightarrow> u64 \<Rightarrow> contract \<Rightarrow> trap + contract" where
  "execute_cache_invalidation e proposal_id s =
     bind_ok (or_panic ValidationError (execute_proposal e proposal_id (governance s))) (\<lambda>(anchor, g).
       Inr (snd (invalidate_cache_internal e anchor (with_governance g s))))"

definition get_cache_invalidation_proposal :: "contract \<Rightarrow> u64 \<Rightarrow> trap + cache_invalidation_proposal" where
  "get_cache_invalidation_proposal s proposal_id =
     of_option (Panic CacheNotFound) (get_proposal (governance s) proposal_id)"

definition set_cache_quorum_threshold :: "env \<Rightarrow> u32 \<Rightarrow> contract \<Rightarrow> trap + contract" where
  "set_cache_quorum_threshold e n s =
     bind_ok (require_admin e s) (\<lambda>_.
     bind_ok (or_panic ValidationError
                (set_governance ((get_governance (governance s))\<lparr>gc_quorum := n\<rparr>) (governance s))) (\<lambda>g.
       Inr (with_governance g s)))"

definition set_cache_proposal_expiry :: "env \<Rightarrow> u32 \<Rightarrow> contract \<Rightarrow> trap + contract" where
  "set_cache_proposal_expiry e ledgers s =
     bind_ok (require_admin e s) (\<lambda>_.
     bind_ok (or_panic ValidationError
                (set_governance ((get_governance (governance s))\<lparr>gc_expiry := ledgers\<rparr>) (governance s))) (\<lambda>g.
       Inr (with_governance g s)))"

section \<open>Reports\<close>

record metadata_freshness_report =
  fr_anchor :: address
  fr_state :: metadata_cache_state
  fr_age :: u64
  fr_needs_refresh :: bool
  fr_score :: u32

text \<open>\<open>remaining * 100\<close> traps when it overflows.\<close>

definition compute_freshness_score :: "u64 \<Rightarrow> u64 \<Rightarrow> metadata_cache_state \<Rightarrow> bool \<Rightarrow> trap + u32" where
  "compute_freshness_score age ttl state needs_refresh =
     (if state \<in> {CacheMissing, CacheExpiredState} then Inr 0
      else bind_ok
        (if ttl = 0 then Inr 100
         else if ttl \<le> age then Inr 0
         else bind_ok (times_trap (sat_sub ttl age) 100) (\<lambda>x. Inr (ucast (x div ttl)))) (\<lambda>age_score.
          let after_state = (if state = CacheStale then age_score div 2 else age_score);
              penalty = (if needs_refresh then 10 else 0)
          in Inr (min (sat_sub after_state penalty) 100)))"

definition get_metadata_freshness :: "env \<Rightarrow> contract \<Rightarrow> address \<Rightarrow> trap + metadata_freshness_report" where
  "get_metadata_freshness e s anchor =
     (case cached_metadata e s anchor of
        None \<Rightarrow> Inr \<lparr>fr_anchor = anchor, fr_state = CacheMissing, fr_age = 0,
                     fr_needs_refresh = False, fr_score = 0\<rparr>
      | Some entry \<Rightarrow>
          let age = sat_sub (timestamp e) (mc_cached_at entry); state = entry_state (timestamp e) entry in
          bind_ok (compute_freshness_score age (mc_ttl entry) state (mc_needs_refresh entry)) (\<lambda>score.
            Inr \<lparr>fr_anchor = anchor, fr_state = state, fr_age = age,
                 fr_needs_refresh = mc_needs_refresh entry \<or> state \<noteq> CacheFresh, fr_score = score\<rparr>))"

record cache_diagnostics =
  cd_anchor :: address
  cd_metadata_cached :: bool
  cd_metadata_age :: u64
  cd_metadata_ttl :: u64
  cd_capabilities_cached :: bool
  cd_capabilities_age :: u64
  cd_capabilities_ttl :: u64
  cd_checked_at :: u64

definition get_cache_diagnostics :: "env \<Rightarrow> contract \<Rightarrow> address \<Rightarrow> cache_diagnostics" where
  "get_cache_diagnostics e s anchor =
     (let now = timestamp e;
          (mc, mage, mttl) = (case cached_metadata e s anchor of
             None \<Rightarrow> (False, 0, 0) | Some entry \<Rightarrow> (True, sat_sub now (mc_cached_at entry), mc_ttl entry));
          (cc, cage, cttl) = (case cached_capabilities e s anchor of
             None \<Rightarrow> (False, 0, 0) | Some entry \<Rightarrow> (True, sat_sub now (kc_cached_at entry), kc_ttl entry))
      in \<lparr>cd_anchor = anchor, cd_metadata_cached = mc, cd_metadata_age = mage, cd_metadata_ttl = mttl,
          cd_capabilities_cached = cc, cd_capabilities_age = cage, cd_capabilities_ttl = cttl,
          cd_checked_at = now\<rparr>)"

section \<open>What the operations change\<close>

text \<open>The operations on anchors write the anchor part, the audit log and events, nothing else.\<close>

definition anchor_step :: "contract \<Rightarrow> contract \<Rightarrow> bool" where
  "anchor_step s s' \<longleftrightarrow>
     c_access s' = c_access s \<and> c_schema s' = c_schema s \<and> c_rl s' = c_rl s \<and> c_replay s' = c_replay s \<and>
     c_jwt s' = c_jwt s \<and> c_attestors s' = c_attestors s \<and> c_attest s' = c_attest s \<and>
     c_tracing s' = c_tracing s \<and> c_sessions s' = c_sessions s \<and> c_kyc s' = c_kyc s \<and>
     c_quotes s' = c_quotes s \<and> c_txs s' = c_txs s \<and> (audit_inv (c_audit s) \<longrightarrow> audit_inv (c_audit s'))"

lemma anchor_step_refl [simp]: "anchor_step s s"
  by (simp add: anchor_step_def)

lemma anchor_step_iff [simp]:
  "anchor_step s (emit ev s1) \<longleftrightarrow> anchor_step s s1"
  "anchor_step s (s1\<lparr>c_anchors := x\<rparr>) \<longleftrightarrow> anchor_step s s1"
  by (simp_all add: anchor_step_def)

text \<open>An audit entry leaves the anchor part alone.\<close>

lemma audited_anchors:
  assumes "audit_action e a ct t ov nv s1 = Inr s2"
  shows "c_anchors s2 = c_anchors s1 \<and> (anchor_step s s1 \<longrightarrow> anchor_step s s2)"
  using assms write_event_audit_inv by (auto simp: audit_action_Inr anchor_step_def)

lemma or_panic_Inr [ok_simps]: "or_panic c r = Inr v \<longleftrightarrow> r = Inr v"
  by (cases r) (simp_all add: or_panic_def)

lemma require_cache_room_Inr [ok_simps]:
  "require_cache_room b s = Inr u \<longleftrightarrow> b \<or> get_cache_count s < max_cache_entries (get_capacity_config s)"
  by (auto simp: require_cache_room_def)

lemma count_cache_entry_Inr [ok_simps]:
  "count_cache_entry b s = Inr s' \<longleftrightarrow>
     (if b then s' = s
      else unat (get_cache_count s) + 1 < 2 ^ 64 \<and> s' = with_caches (\<lambda>c. c\<lparr>ca_count := Some (get_cache_count s + 1)\<rparr>) s)"
  by (auto simp: count_cache_entry_def ok_simps)

text \<open>Writes to the caches leave the rest of the anchor part alone as well.\<close>

definition only_caches :: "contract \<Rightarrow> contract \<Rightarrow> bool" where
  "only_caches s s' \<longleftrightarrow> anchor_step s s' \<and>
     an_profiles (c_anchors s') = an_profiles (c_anchors s) \<and> an_switches (c_anchors s') = an_switches (c_anchors s) \<and>
     an_governance (c_anchors s') = an_governance (c_anchors s) \<and>
     an_directory (c_anchors s') = an_directory (c_anchors s) \<and> an_routing (c_anchors s') = an_routing (c_anchors s) \<and>
     an_health (c_anchors s') = an_health (c_anchors s)"

lemma only_caches_refl [simp]: "only_caches s s"
  by (simp add: only_caches_def)

lemma only_caches_iff [simp]:
  "only_caches s (emit ev s1) \<longleftrightarrow> only_caches s s1"
  "only_caches s (with_caches f s1) \<longleftrightarrow> only_caches s s1"
  "only_caches s (put_metadata e t a m s1) \<longleftrightarrow> only_caches s s1"
  "only_caches s (put_capabilities e t a k s1) \<longleftrightarrow> only_caches s s1"
  "only_caches s (record_refresh_diagnostic e a op st had d s1) \<longleftrightarrow> only_caches s s1"
  "only_caches s (drop_entries b c a s1) \<longleftrightarrow> only_caches s s1"
  "only_caches s (release_slots n s1) \<longleftrightarrow> only_caches s s1"
  by (simp_all add: only_caches_def put_metadata_def put_capabilities_def record_refresh_diagnostic_def
      drop_entries_def release_slots_def Let_def)

lemma only_caches_audit:
  assumes "audit_action e a ct t ov nv s1 = Inr s2"
  shows "only_caches s s1 \<longrightarrow> only_caches s s2"
  using audited_anchors [OF assms, of s] by (auto simp: only_caches_def)

lemma only_caches_invalidate [simp]:
  "only_caches s (snd (invalidate_cache_internal e a s1)) \<longleftrightarrow> only_caches s s1"
  by (simp add: invalidate_cache_internal_def Let_def)

text \<open>The same, as equations.\<close>

lemma invalidate_frame [simp]:
  fixes s1 :: contract and e a
  defines "s2 \<equiv> snd (invalidate_cache_internal e a s1)"
  shows "an_profiles (c_anchors s2) = an_profiles (c_anchors s1)" "an_switches (c_anchors s2) = an_switches (c_anchors s1)"
    "an_governance (c_anchors s2) = an_governance (c_anchors s1)"
    "an_directory (c_anchors s2) = an_directory (c_anchors s1)" "an_routing (c_anchors s2) = an_routing (c_anchors s1)"
    "an_health (c_anchors s2) = an_health (c_anchors s1)" "anchor_step s s2 \<longleftrightarrow> anchor_step s s1"
  by (simp_all add: s2_def invalidate_cache_internal_def drop_entries_def release_slots_def Let_def)

lemma only_caches_writes:
  "set_cache_config e cfg s = Inr s' \<Longrightarrow> only_caches s s'"
  "cache_metadata e a md t s = Inr s' \<Longrightarrow> only_caches s s'"
  "cache_metadata_swr e a md t u s = Inr s' \<Longrightarrow> only_caches s s'"
  "force_refresh_metadata e a md t u s = Inr s' \<Longrightarrow> only_caches s s'"
  "refresh_metadata_cache_swr e a md t u s = Inr s' \<Longrightarrow> only_caches s s'"
  "cache_capabilities e a url caps t s = Inr s' \<Longrightarrow> only_caches s s'"
  by (auto simp: set_cache_config_def cache_metadata_def cache_metadata_swr_def force_refresh_metadata_def
      refresh_metadata_cache_swr_def cache_capabilities_def bind_ok_Inr count_cache_entry_Inr Let_def
      split: if_split_asm dest!: only_caches_audit [where s = s])

lemma only_caches_refreshes:
  "refresh_metadata_cache e a md t s = Inr s' \<Longrightarrow> only_caches s s'"
  "refresh_capabilities_cache e a url caps t s = Inr s' \<Longrightarrow> only_caches s s'"
  by (auto simp: refresh_metadata_cache_def refresh_capabilities_cache_def bind_ok_Inr dest: only_caches_writes)

lemma only_caches_read: "get_cached_metadata_swr e a s = Inr (x, s') \<Longrightarrow> only_caches s s'"
  by (auto simp: get_cached_metadata_swr_def bind_ok_Inr Let_def split: if_split_asm)

lemma only_caches_compact:
  assumes "compact_cache e anchors s = Inr (n, s')"
  shows "only_caches s s'"
proof -
  have "(\<lambda>(_, t). only_caches s t) st" if "list_bind (compact_anchor e) (0, s) anchors = Inr st" for st
    by (rule list_bind_invariant [OF that]) (auto simp: compact_anchor_def bind_ok_Inr Let_def)
  with assms show ?thesis
    by (auto simp: compact_cache_def bind_ok_Inr split: if_split_asm dest!: only_caches_audit [where s = s])
qed

lemma only_caches_invalidate_call:
  "invalidate_cache_for_anchor e a s = Inr (b, s') \<Longrightarrow> only_caches s s'"
proof -
  assume call: "invalidate_cache_for_anchor e a s = Inr (b, s')"
  have inv: "only_caches s s1" if "invalidate_cache_internal e a s = (c, s1)" for c s1
    using only_caches_invalidate [of s e a s] that by simp
  show ?thesis
    using call
    by (auto simp: invalidate_cache_for_anchor_def bind_ok_Inr split: prod.split_asm if_split_asm
        dest!: inv only_caches_audit [where s = s])
qed

text \<open>Governance calls keep its invariant.\<close>

definition caches_effect :: "contract \<Rightarrow> contract \<Rightarrow> bool" where
  "caches_effect s s' \<longleftrightarrow> anchor_step s s' \<and>
     an_profiles (c_anchors s') = an_profiles (c_anchors s) \<and> an_switches (c_anchors s') = an_switches (c_anchors s) \<and>
     an_directory (c_anchors s') = an_directory (c_anchors s) \<and> an_routing (c_anchors s') = an_routing (c_anchors s) \<and>
     an_health (c_anchors s') = an_health (c_anchors s) \<and>
     (governance_inv (governance s) \<longrightarrow> governance_inv (governance s'))"

lemma only_caches_effect: "only_caches s s' \<Longrightarrow> caches_effect s s'"
  by (simp add: only_caches_def caches_effect_def)

lemma caches_effect_governance:
  "set_cache_policy_set e ps s = Inr s' \<Longrightarrow> caches_effect s s'"
  "propose_cache_invalidation e c a s = Inr (i, s') \<Longrightarrow> caches_effect s s'"
  "endorse_cache_invalidation e c i s = Inr s' \<Longrightarrow> caches_effect s s'"
  "execute_cache_invalidation e i s = Inr s' \<Longrightarrow> caches_effect s s'"
  "set_cache_quorum_threshold e n s = Inr s' \<Longrightarrow> caches_effect s s'"
  "set_cache_proposal_expiry e n s = Inr s' \<Longrightarrow> caches_effect s s'"
  by (auto simp: set_cache_policy_set_def propose_cache_invalidation_def endorse_cache_invalidation_def
      execute_cache_invalidation_def set_cache_quorum_threshold_def set_cache_proposal_expiry_def
      bind_ok_Inr or_panic_Inr caches_effect_def
      intro: set_policy_set_inv propose_inv endorse_inv execute_proposal_inv set_governance_inv)

section \<open>Properties\<close>

text \<open>After an invalidation nothing is cached for the anchor.\<close>

lemma invalidate_clears:
  "cached_metadata e (snd (invalidate_cache_internal e a s)) a = None \<and>
   cached_capabilities e (snd (invalidate_cache_internal e a s)) a = None"
  by (auto simp: invalidate_cache_internal_def Let_def drop_entries_def release_slots_def cached_metadata_def
      cached_capabilities_def temp_get_def emit_def)

text \<open>
  The stale-while-revalidate read answers by the state of the entry: a missing one fails with
  \<open>CacheNotFound\<close> and an expired one with \<open>CacheExpired\<close>; a fresh one is returned and nothing changes;
  a stale one is returned as stale and afterwards carries the refresh mark, keeping everything else
  (its time, its lifetimes, its metadata), so that every later read in its stale period says the same.
\<close>

theorem swr_read_by_state:
  "case get_metadata_cache_state e s a of
     CacheMissing \<Rightarrow> get_cached_metadata_swr e a s = Inl (Panic CacheNotFound)
   | CacheExpiredState \<Rightarrow> get_cached_metadata_swr e a s = Inl (Panic CacheExpired)
   | CacheFresh \<Rightarrow> \<exists>m. cached_metadata e s a = Some m \<and>
       get_cached_metadata_swr e a s = Inr ((mc_metadata m, False), s)
   | CacheStale \<Rightarrow> \<exists>m s'. cached_metadata e s a = Some m \<and>
       get_cached_metadata_swr e a s = Inr ((mc_metadata m, True), s') \<and>
       cached_metadata e s' a = Some (m\<lparr>mc_needs_refresh := True\<rparr>) \<and>
       get_cached_metadata_swr e a s' = Inr ((mc_metadata m, True), s')"
proof (cases "cached_metadata e s a")
  case None
  then show ?thesis by (simp add: get_metadata_cache_state_def get_cached_metadata_swr_def)
next
  case (Some m)
  let ?s' = "put_metadata e 0 a (m\<lparr>mc_needs_refresh := True\<rparr>) s"
  have put: "cached_metadata e ?s' a = Some (m\<lparr>mc_needs_refresh := True\<rparr>)"
    by (simp add: cached_metadata_def put_metadata_def temp.get_put_now)
  have again: "put_metadata e 0 a (m\<lparr>mc_needs_refresh := True\<rparr>) ?s' = ?s'"
    by (cases s) (auto simp: put_metadata_def temp_put_def split: option.splits)
  have state: "get_metadata_cache_state e s a = entry_state (timestamp e) m"
    using Some by (simp add: get_metadata_cache_state_def)
  show ?thesis
    unfolding state entry_state_def get_cached_metadata_swr_def
    using put again by (simp add: Some Let_def)
qed

end
