(* ===== verification/Domain_Validator.thy ===== *)
theory Domain_Validator
  imports Ascii_Text Errors
begin

text \<open>
  \<^verbatim>\<open>src/domain_validator.rs\<close>: the check of the HTTPS addresses under which anchors publish their
  services, and the policy that allows or denies hosts.  The main result is the grammar of the
  accepted addresses.
\<close>

section \<open>The checks\<close>

abbreviation bad_endpoint :: "anchor_kit_error + 'a" where
  "bad_endpoint \<equiv> Inl (from_code InvalidEndpointFormat)"

definition forbidden_chars :: string where
  "forbidden_chars = ''<>{}|[]^'' @ [CHR 0x5C, CHR 0x60]"

fun validate_url_characters :: "string \<Rightarrow> anchor_kit_error + unit" where
  "validate_url_characters [] = Inr ()"
| "validate_url_characters (c # cs) =
     (if \<not> ascii_char c then bad_endpoint
      else if ascii_control c then bad_endpoint
      else if c = CHR '' '' then bad_endpoint
      else if c \<in> set forbidden_chars then bad_endpoint
      else validate_url_characters cs)"

definition is_delimiter :: "char \<Rightarrow> bool" where
  "is_delimiter c \<longleftrightarrow> c \<in> set ''/?#''"

text \<open>\<open>rfind(':')\<close>: the text before and after the last colon.\<close>

definition split_last_colon :: "string \<Rightarrow> (string \<times> string) option" where
  "split_last_colon s =
     (if CHR '':'' \<in> set s
      then Some (rev (tl (dropWhile (\<lambda>c. c \<noteq> CHR '':'') (rev s))),
                 rev (takeWhile (\<lambda>c. c \<noteq> CHR '':'') (rev s)))
      else None)"

definition port_ok :: "string \<Rightarrow> bool" where
  "port_ok ds \<longleftrightarrow> ds \<noteq> [] \<and> list_all ascii_digit ds \<and> 1 \<le> digits_value ds \<and> digits_value ds \<le> 65535"

definition label_ok :: "string \<Rightarrow> bool" where
  "label_ok l \<longleftrightarrow> l \<noteq> [] \<and> length l \<le> 63 \<and> ascii_alnum (hd l) \<and> ascii_alnum (last l) \<and>
     list_all (\<lambda>c. ascii_alnum c \<or> c = CHR ''-'') l"

definition validate_host :: "string \<Rightarrow> anchor_kit_error + unit" where
  "validate_host host =
     (if host = [] then bad_endpoint
      else if CHR '' '' \<in> set host then bad_endpoint
      else
        bind_ok
          (case split_last_colon host of
             Some (before, port) \<Rightarrow> if port_ok port then Inr before else bad_endpoint
           | None \<Rightarrow> Inr host)
          (\<lambda>domain_without_port.
        if domain_without_port = [] then bad_endpoint
        else if 253 < length domain_without_port then bad_endpoint
        else if CHR ''.'' \<notin> set domain_without_port then bad_endpoint
        else if \<exists>i < length domain_without_port. starts_with ''..'' (drop i domain_without_port) then bad_endpoint
        else if starts_with ''.'' domain_without_port \<or> ends_with ''.'' domain_without_port then bad_endpoint
        else
          let labels = split_on CHR ''.'' domain_without_port in
          if list_all (list_all ascii_digit) labels then bad_endpoint
          else if list_all label_ok labels then Inr () else bad_endpoint))"

definition validate_anchor_domain :: "string \<Rightarrow> anchor_kit_error + unit" where
  "validate_anchor_domain domain =
     (if trim_text domain = [] then bad_endpoint
      else if domain \<noteq> trim_text domain then bad_endpoint
      else if length domain < 12 then bad_endpoint
      else if 2048 < length domain then bad_endpoint
      else if \<not> starts_with ''https://'' domain then bad_endpoint
      else bind_ok (validate_url_characters domain) (\<lambda>_.
        let after_scheme = drop 8 domain in
        if after_scheme = [] then bad_endpoint
        else
          let authority = takeWhile (\<lambda>c. \<not> is_delimiter c) after_scheme in
          if authority = [] then bad_endpoint
          else if CHR ''@'' \<in> set authority then bad_endpoint
          else if \<not> starts_with ''['' authority \<and> 1 < count_list authority CHR '':'' then bad_endpoint
          else
            let after_authority = drop (length authority) after_scheme;
                path = takeWhile (\<lambda>c. c \<notin> set ''?#'') after_authority
            in if path \<noteq> [] \<and> path \<noteq> ''/'' then bad_endpoint
               else validate_host authority))"

section \<open>Policies\<close>

datatype policy_action = Allow | Deny

record domain_policy_rule =
  dr_action :: policy_action
  dr_host_pattern :: string

record domain_policy =
  dp_rules :: "domain_policy_rule list"
  dp_default_deny :: bool

definition allow_all :: domain_policy where
  "allow_all = \<lparr>dp_rules = [], dp_default_deny = False\<rparr>"

definition deny_all :: domain_policy where
  "deny_all = \<lparr>dp_rules = [], dp_default_deny = True\<rparr>"

definition with_allow :: "string \<Rightarrow> domain_policy \<Rightarrow> domain_policy" where
  "with_allow pattern p =
     (let trimmed = trim_text pattern in
      if trimmed \<noteq> [] then p\<lparr>dp_rules := dp_rules p @ [\<lparr>dr_action = Allow, dr_host_pattern = trimmed\<rparr>]\<rparr> else p)"

definition with_deny :: "string \<Rightarrow> domain_policy \<Rightarrow> domain_policy" where
  "with_deny pattern p =
     (let trimmed = trim_text pattern in
      if trimmed \<noteq> [] then p\<lparr>dp_rules := dp_rules p @ [\<lparr>dr_action = Deny, dr_host_pattern = trimmed\<rparr>]\<rparr> else p)"

definition rule_matches :: "string \<Rightarrow> domain_policy_rule \<Rightarrow> bool" where
  "rule_matches host r =
     (let pattern = to_ascii_lowercase (dr_host_pattern r) in
      pattern \<noteq> [] \<and> (host = pattern \<or> ends_with (''.'' @ pattern) host))"

definition permits :: "domain_policy \<Rightarrow> string \<Rightarrow> bool" where
  "permits p host =
     (case find (rule_matches (to_ascii_lowercase host)) (dp_rules p) of
        Some r \<Rightarrow> dr_action r = Allow
      | None \<Rightarrow> \<not> dp_default_deny p)"

definition extract_host :: "string \<Rightarrow> string" where
  "extract_host domain =
     (if starts_with ''https://'' domain
      then
        let authority = takeWhile (\<lambda>c. \<not> is_delimiter c) (drop 8 domain) in
        case split_last_colon authority of
          Some (before, port) \<Rightarrow> if port \<noteq> [] \<and> list_all ascii_digit port then before else authority
        | None \<Rightarrow> authority
      else [])"

definition validate_anchor_domain_with_policy :: "string \<Rightarrow> domain_policy option \<Rightarrow> anchor_kit_error + unit" where
  "validate_anchor_domain_with_policy domain policy =
     bind_ok (validate_anchor_domain domain) (\<lambda>_.
       case policy of
         None \<Rightarrow> Inr ()
       | Some pol \<Rightarrow>
           let host = extract_host domain in
           if \<not> permits pol host
           then Inl (with_context InvalidEndpointFormat ''Anchor domain is blocked by deployment policy'' host)
           else Inr ())"

section \<open>The accepted addresses\<close>

definition host_grammar :: "string \<Rightarrow> bool" where
  "host_grammar host \<longleftrightarrow>
     (\<exists>labels. host = join_on CHR ''.'' labels \<and> 2 \<le> length labels \<and> list_all label_ok labels \<and>
        \<not> list_all (list_all ascii_digit) labels) \<and> length host \<le> 253"

definition port_grammar :: "string \<Rightarrow> bool" where
  "port_grammar port \<longleftrightarrow> port = [] \<or> (\<exists>ds. port = CHR '':'' # ds \<and> port_ok ds)"

definition tail_grammar :: "string \<Rightarrow> bool" where
  "tail_grammar tail \<longleftrightarrow>
     (\<exists>q. (tail = q \<or> tail = CHR ''/'' # q) \<and> (q = [] \<or> hd q \<in> set ''?#''))"

definition url_char :: "char \<Rightarrow> bool" where
  "url_char c \<longleftrightarrow> visible c \<and> c \<notin> set forbidden_chars"

lemma validate_url_characters_iff: "validate_url_characters s = Inr () \<longleftrightarrow> (\<forall>c \<in> set s. url_char c)"
proof (induction s)
  case (Cons c s)
  have "(\<not> ascii_control c \<and> ascii_char c \<and> c \<noteq> CHR '' '') = visible c"
    using of_char_eq_iff [of c "CHR '' ''", where 'a=nat]
    by (auto simp: ascii_defs visible_def)
  with Cons show ?case by (auto simp: url_char_def)
qed simp

lemma split_last_colon_at:
  "CHR '':'' \<notin> set p \<Longrightarrow> split_last_colon (b @ CHR '':'' # p) = Some (b, p)"
proof -
  assume p: "CHR '':'' \<notin> set p"
  have "takeWhile (\<lambda>c. c \<noteq> CHR '':'') (rev p @ CHR '':'' # rev b) = rev p"
    by (subst takeWhile_append2) (use p in auto)
  moreover have "dropWhile (\<lambda>c. c \<noteq> CHR '':'') (rev p @ CHR '':'' # rev b) = CHR '':'' # rev b"
    by (subst dropWhile_append2) (use p in auto)
  ultimately show ?thesis by (simp add: split_last_colon_def)
qed

lemma split_last_colon_Some: "split_last_colon s = Some (b, p) \<Longrightarrow> s = b @ CHR '':'' # p \<and> CHR '':'' \<notin> set p"
proof -
  assume s: "split_last_colon s = Some (b, p)"
  then have "CHR '':'' \<in> set s" by (simp add: split_last_colon_def split: if_splits)
  then obtain y z where yz: "s = y @ CHR '':'' # z" "CHR '':'' \<notin> set z"
    by (auto dest: split_list_last)
  with s split_last_colon_at [OF yz(2), of y] show ?thesis by simp
qed

lemma split_last_colon_None: "split_last_colon s = None \<longleftrightarrow> CHR '':'' \<notin> set s"
  by (simp add: split_last_colon_def)

text \<open>Characters of hosts and ports.\<close>

lemma special_not_alnum:
  "\<not> ascii_alnum CHR '':''" "\<not> ascii_alnum CHR ''.''" "\<not> ascii_alnum CHR '' ''" "\<not> ascii_alnum CHR ''/''"
  "\<not> ascii_alnum CHR ''?''" "\<not> ascii_alnum CHR ''#''" "\<not> ascii_alnum CHR ''@''"
  "\<not> ascii_digit CHR '':''" "\<not> ascii_digit CHR '' ''" "\<not> ascii_digit CHR ''/''" "\<not> ascii_digit CHR ''?''"
  "\<not> ascii_digit CHR ''#''" "\<not> ascii_digit CHR ''@''" "\<not> ascii_digit CHR ''.''"
  by (simp_all add: ascii_defs)

lemma set_join_on: "set (join_on c ls) \<subseteq> insert c (\<Union> (set ` set ls))"
  by (induction c ls rule: join_on.induct) auto

lemma label_chars: "list_all label_ok ls \<Longrightarrow> c \<in> set (join_on CHR ''.'' ls) \<Longrightarrow>
    ascii_alnum c \<or> c = CHR ''-'' \<or> c = CHR ''.''"
  using set_join_on [of "CHR ''.''" ls] by (fastforce simp: list_all_iff label_ok_def)

lemma host_chars: "host_grammar host \<Longrightarrow> c \<in> set host \<Longrightarrow>
    ascii_alnum c \<or> c = CHR ''-'' \<or> c = CHR ''.''"
  by (auto simp: host_grammar_def dest: label_chars)

lemma host_specials:
  assumes "host_grammar host"
  shows "CHR '':'' \<notin> set host" "CHR '' '' \<notin> set host" "CHR ''@'' \<notin> set host" "host \<noteq> []"
    "\<forall>c \<in> set host. \<not> is_delimiter c"
proof -
  show "CHR '':'' \<notin> set host" "CHR '' '' \<notin> set host" "CHR ''@'' \<notin> set host"
    using host_chars [OF assms] special_not_alnum by blast+
  show "\<forall>c \<in> set host. \<not> is_delimiter c"
    using host_chars [OF assms] special_not_alnum by (auto simp: is_delimiter_def)
  from assms obtain ls where "host = join_on CHR ''.'' ls" "2 \<le> length ls"
    by (auto simp: host_grammar_def)
  then show "host \<noteq> []" by (auto simp: numeral_2_eq_2 Suc_le_length_iff)
qed

lemma port_chars: "port_grammar port \<Longrightarrow> c \<in> set port \<Longrightarrow> c = CHR '':'' \<or> ascii_digit c"
  by (auto simp: port_grammar_def port_ok_def list_all_iff)

text \<open>The label checks.\<close>

lemma dots_labels:
  assumes "list_all (\<lambda>l. l \<noteq> []) (split_on CHR ''.'' h)"
  shows "\<not> (\<exists>i < length h. starts_with ''..'' (drop i h))" "\<not> starts_with ''.'' h" "\<not> ends_with ''.'' h"
proof -
  have "[] \<in> set (tl (split_on CHR ''.'' (a @ CHR ''.'' # CHR ''.'' # b)))" for a b
    by (induction a) (auto split: list.split dest: list.set_sel(2) [rotated])
  then have "[] \<in> set (split_on CHR ''.'' (a @ CHR ''.'' # CHR ''.'' # b))" for a b
    by (meson list.set_sel(2) split_on_nonempty)
  then show "\<not> (\<exists>i < length h. starts_with ''..'' (drop i h))"
    using assms unfolding starts_with_append list_all_iff
    by (metis append_Cons append_Nil append_take_drop_id)
  show "\<not> starts_with ''.'' h" using assms by (auto simp: starts_with_append)
  have "[] \<in> set (tl (split_on CHR ''.'' (a @ ''.'')))" for a
    by (induction a) (auto split: list.split dest: list.set_sel(2) [rotated])
  then have "[] \<in> set (split_on CHR ''.'' (a @ ''.''))" for a
    by (meson list.set_sel(2) split_on_nonempty)
  then show "\<not> ends_with ''.'' h" using assms by (auto simp: ends_with_append list_all_iff)
qed

lemma labels_grammar:
  "host_grammar h \<longleftrightarrow> length h \<le> 253 \<and> CHR ''.'' \<in> set h \<and> list_all label_ok (split_on CHR ''.'' h) \<and>
     \<not> list_all (list_all ascii_digit) (split_on CHR ''.'' h)"
proof -
  have two: "CHR ''.'' \<in> set h \<longleftrightarrow> 2 \<le> length (split_on CHR ''.'' h)"
    by (simp add: split_on_length Suc_le_eq count_list_0_iff flip: neq0_conv)
  have "host_grammar h \<longleftrightarrow> (2 \<le> length (split_on CHR ''.'' h) \<and> list_all label_ok (split_on CHR ''.'' h) \<and>
     \<not> list_all (list_all ascii_digit) (split_on CHR ''.'' h)) \<and> length h \<le> 253"
  proof -
    have "ls = split_on CHR ''.'' h" if "h = join_on CHR ''.'' ls" "2 \<le> length ls" "list_all label_ok ls" for ls
    proof -
      have "\<forall>l \<in> set ls. CHR ''.'' \<notin> set l"
        using that(3) special_not_alnum(2) by (fastforce simp: list_all_iff label_ok_def)
      moreover from that(2) have "ls \<noteq> []" by auto
      ultimately show ?thesis using that(1) by (simp add: split_join)
    qed
    then show ?thesis unfolding host_grammar_def by (metis join_split)
  qed
  with two show ?thesis by blast
qed

lemma validate_host_iff:
  "validate_host h = Inr () \<longleftrightarrow> (\<exists>host port. h = host @ port \<and> host_grammar host \<and> port_grammar port)"
proof -
  have nonempty: "list_all (\<lambda>l. l \<noteq> []) ls" if "list_all label_ok ls" for ls
    using that by (auto simp: list_all_iff label_ok_def)
  define inner where "inner d =
       (if d = [] then bad_endpoint
        else if 253 < length d then bad_endpoint
        else if CHR ''.'' \<notin> set d then bad_endpoint
        else if \<exists>i < length d. starts_with ''..'' (drop i d) then bad_endpoint
        else if starts_with ''.'' d \<or> ends_with ''.'' d then bad_endpoint
        else
          let labels = split_on CHR ''.'' d in
          if list_all (list_all ascii_digit) labels then bad_endpoint
          else if list_all label_ok labels then Inr () else bad_endpoint)" for d :: string
  have inner: "inner d = (Inr () :: anchor_kit_error + unit) \<longleftrightarrow> host_grammar d" for d
    using dots_labels [OF nonempty, of d]
    by (auto simp: inner_def labels_grammar Let_def if_Inl_Inr)
  have eq: "validate_host h = (if h = [] then bad_endpoint else if CHR '' '' \<in> set h then bad_endpoint
      else bind_ok (case split_last_colon h of
             Some (before, port) \<Rightarrow> if port_ok port then Inr before else bad_endpoint
           | None \<Rightarrow> Inr h) inner)"
    by (simp add: validate_host_def inner_def [abs_def])
  show ?thesis
  proof
    assume "validate_host h = Inr ()"
    then obtain d where d: "(case split_last_colon h of
             Some (before, port) \<Rightarrow> if port_ok port then Inr before else bad_endpoint
           | None \<Rightarrow> Inr h) = (Inr d :: anchor_kit_error + string)" "host_grammar d"
      by (auto simp: eq if_Inl_Inr bind_ok_Inr inner)
    show "\<exists>host port. h = host @ port \<and> host_grammar host \<and> port_grammar port"
    proof (cases "split_last_colon h")
      case None
      with d have "h = d @ [] \<and> host_grammar d \<and> port_grammar []" by (simp add: port_grammar_def)
      then show ?thesis by blast
    next
      case (Some bp)
      with d(1) obtain port where "split_last_colon h = Some (d, port)" "port_ok port"
        by (cases bp) (auto split: if_splits)
      with split_last_colon_Some [of h d port] d(2)
      have "h = d @ (CHR '':'' # port) \<and> host_grammar d \<and> port_grammar (CHR '':'' # port)"
        by (simp add: port_grammar_def)
      then show ?thesis by blast
    qed
  next
    assume "\<exists>host port. h = host @ port \<and> host_grammar host \<and> port_grammar port"
    then obtain host port where h: "h = host @ port" and host: "host_grammar host" and port: "port_grammar port"
      by blast
    note sp = host_specials [OF host]
    have blank: "CHR '' '' \<notin> set port"
      using port_chars [OF port, of "CHR '' ''"] special_not_alnum(9) by auto
    show "validate_host h = Inr ()"
    proof (cases "port = []")
      case True
      with sp host show ?thesis
        unfolding eq by (simp add: h split_last_colon_None [THEN iffD2] inner)
    next
      case False
      with port obtain ds where ds: "port = CHR '':'' # ds" "port_ok ds" by (auto simp: port_grammar_def)
      then have "CHR '':'' \<notin> set ds" using special_not_alnum(8) by (auto simp: port_ok_def list_all_iff)
      with sp host ds blank show ?thesis unfolding eq by (simp add: h split_last_colon_at inner)
    qed
  qed
qed

section \<open>Whole addresses\<close>

definition scheme :: string where
  "scheme = ''https://''"

lemma split_authority:
  assumes "\<forall>c \<in> set a. \<not> is_delimiter c" and "t = [] \<or> is_delimiter (hd t)"
  shows "takeWhile (\<lambda>c. \<not> is_delimiter c) (a @ t) = a"
proof -
  have "takeWhile (\<lambda>c. \<not> is_delimiter c) t = []" using assms(2) by (cases t) auto
  with assms(1) show ?thesis by (subst takeWhile_append2) auto
qed

lemma authority_chars:
  assumes "host_grammar host" and "port_grammar port"
  shows "\<forall>c \<in> set (host @ port). \<not> is_delimiter c" "CHR ''@'' \<notin> set (host @ port)"
    "count_list (host @ port) CHR '':'' \<le> 1"
proof -
  note sp = host_specials [OF assms(1)]
  have port: "\<not> is_delimiter c \<and> c \<noteq> CHR ''@''" if "c \<in> set port" for c
    using port_chars [OF assms(2) that] special_not_alnum by (auto simp: is_delimiter_def)
  then show "\<forall>c \<in> set (host @ port). \<not> is_delimiter c" "CHR ''@'' \<notin> set (host @ port)"
    using sp by auto
  have "count_list port CHR '':'' \<le> 1"
    using assms(2) special_not_alnum(8)
    by (auto simp: port_grammar_def port_ok_def list_all_iff count_list_0_iff)
  moreover have "count_list host CHR '':'' = 0" using sp(1) by (simp add: count_list_0_iff)
  ultimately show "count_list (host @ port) CHR '':'' \<le> 1" by simp
qed

lemma path_iff:
  assumes "t = [] \<or> is_delimiter (hd t)"
  shows "(let path = takeWhile (\<lambda>c. c \<notin> set ''?#'') t in path = [] \<or> path = ''/'') \<longleftrightarrow> tail_grammar t"
proof
  assume path: "let path = takeWhile (\<lambda>c. c \<notin> set ''?#'') t in path = [] \<or> path = ''/''"
  define q where "q = dropWhile (\<lambda>c. c \<notin> set ''?#'') t"
  have "q = [] \<or> hd q \<in> set ''?#''"
    using hd_dropWhile [of "\<lambda>c. c \<notin> set ''?#''" t] unfolding q_def by blast
  moreover have "t = takeWhile (\<lambda>c. c \<notin> set ''?#'') t @ q" by (simp add: q_def)
  with path have "t = q \<or> t = CHR ''/'' # q" by (metis append_Cons append_Nil)
  ultimately show "tail_grammar t" unfolding tail_grammar_def by blast
next
  assume "tail_grammar t"
  then obtain q where t: "t = q \<or> t = CHR ''/'' # q" and q: "q = [] \<or> hd q \<in> set ''?#''"
    by (auto simp: tail_grammar_def)
  from q have "takeWhile (\<lambda>c. c \<notin> set ''?#'') q = []" by (cases q) auto
  with t show "let path = takeWhile (\<lambda>c. c \<notin> set ''?#'') t in path = [] \<or> path = ''/''" by auto
qed

lemma tail_starts: "tail_grammar t \<Longrightarrow> t = [] \<or> is_delimiter (hd t)"
  by (auto simp: tail_grammar_def is_delimiter_def)

lemma url_char_visible: "\<forall>c \<in> set d. url_char c \<Longrightarrow> trim_text d = d"
  by (rule trim_visible) (simp add: url_char_def)

text \<open>The host that the policy looks at is the one that was validated.\<close>

lemma extract_host_grammar:
  assumes "host_grammar host" and "port_grammar port" and "tail_grammar t"
  shows "extract_host (scheme @ host @ port @ t) = host"
proof -
  have auth: "takeWhile (\<lambda>c. \<not> is_delimiter c) (host @ port @ t) = host @ port"
    using split_authority [of "host @ port" t] authority_chars(1) [OF assms(1,2)] tail_starts [OF assms(3)]
    by simp
  show ?thesis
  proof (cases "port = []")
    case True
    with auth host_specials(1) [OF assms(1)] show ?thesis
      by (simp add: extract_host_def scheme_def starts_with_def split_last_colon_None [THEN iffD2] Let_def)
  next
    case False
    with assms(2) obtain ds where ds: "port = CHR '':'' # ds" "port_ok ds" by (auto simp: port_grammar_def)
    then have "CHR '':'' \<notin> set ds" using special_not_alnum(8) by (auto simp: port_ok_def list_all_iff)
    with ds auth show ?thesis
      by (simp add: extract_host_def scheme_def starts_with_def split_last_colon_at Let_def port_ok_def)
  qed
qed

definition authority_of :: "string \<Rightarrow> string" where
  "authority_of d = takeWhile (\<lambda>c. \<not> is_delimiter c) (drop 8 d)"

lemma validate_anchor_domain_iff:
  "validate_anchor_domain d = Inr () \<longleftrightarrow>
     trim_text d \<noteq> [] \<and> trim_text d = d \<and> 12 \<le> length d \<and> length d \<le> 2048 \<and>
     starts_with ''https://'' d \<and> (\<forall>c \<in> set d. url_char c) \<and> drop 8 d \<noteq> [] \<and>
     authority_of d \<noteq> [] \<and> CHR ''@'' \<notin> set (authority_of d) \<and>
     \<not> (\<not> starts_with ''['' (authority_of d) \<and> 1 < count_list (authority_of d) CHR '':'') \<and>
     (let path = takeWhile (\<lambda>c. c \<notin> set ''?#'') (drop (length (authority_of d)) (drop 8 d))
      in path = [] \<or> path = ''/'') \<and>
     validate_host (authority_of d) = Inr ()"
  unfolding validate_anchor_domain_def Let_def if_Inl_Inr bind_ok_Inr validate_url_characters_iff
    authority_of_def [symmetric]
  by (simp only: not_less de_Morgan_conj not_not ex_simps) (rule iffI; elim conjE exE; intro conjI; simp add: validate_url_characters_iff)

lemma domain_accepted_iff:
  "validate_anchor_domain d = Inr () \<longleftrightarrow>
     12 \<le> length d \<and> length d \<le> 2048 \<and> (\<forall>c \<in> set d. url_char c) \<and>
     (\<exists>host port t. d = scheme @ host @ port @ t \<and> host_grammar host \<and> port_grammar port \<and> tail_grammar t)"
proof
  assume ok: "validate_anchor_domain d = Inr ()"
  define rest where "rest = drop 8 d"
  define auth where "auth = authority_of d"
  define t where "t = drop (length auth) rest"
  note all = ok [unfolded validate_anchor_domain_iff, folded auth_def, folded rest_def, folded t_def]
  have chars: "\<forall>c \<in> set d. url_char c" using all by (elim conjE)
  have len: "12 \<le> length d" using all by (elim conjE)
  have len2: "length d \<le> 2048" using all by (elim conjE)
  have https: "starts_with ''https://'' d" using all by (elim conjE)
  have path: "let path = takeWhile (\<lambda>c. c \<notin> set ''?#'') t in path = [] \<or> path = ''/''" using all by (elim conjE)
  have host: "validate_host auth = Inr ()" using all by (elim conjE)
  have d: "d = scheme @ rest"
  proof -
    from https obtain u where "d = ''https://'' @ u" unfolding starts_with_append by blast
    then show ?thesis by (simp add: scheme_def rest_def)
  qed
  have "t = dropWhile (\<lambda>c. \<not> is_delimiter c) rest"
    unfolding t_def auth_def authority_of_def rest_def by (rule dropWhile_eq_drop [symmetric])
  then have rest: "rest = auth @ t" by (simp add: auth_def authority_of_def rest_def)
  have "t = [] \<or> is_delimiter (hd t)"
    using \<open>t = dropWhile _ rest\<close> hd_dropWhile [of "\<lambda>c. \<not> is_delimiter c" rest] by blast
  with path have tail: "tail_grammar t" using path_iff by blast
  from host obtain h p where "auth = h @ p" "host_grammar h" "port_grammar p"
    by (auto simp: validate_host_iff)
  then have "d = scheme @ h @ p @ t \<and> host_grammar h \<and> port_grammar p \<and> tail_grammar t"
    using d rest tail by simp
  with chars len len2 show "12 \<le> length d \<and> length d \<le> 2048 \<and> (\<forall>c \<in> set d. url_char c) \<and>
     (\<exists>host port t. d = scheme @ host @ port @ t \<and> host_grammar host \<and> port_grammar port \<and> tail_grammar t)"
    by blast
next
  assume "12 \<le> length d \<and> length d \<le> 2048 \<and> (\<forall>c \<in> set d. url_char c) \<and>
     (\<exists>host port t. d = scheme @ host @ port @ t \<and> host_grammar host \<and> port_grammar port \<and> tail_grammar t)"
  then obtain host port t where len: "12 \<le> length d" "length d \<le> 2048" and chars: "\<forall>c \<in> set d. url_char c"
    and d: "d = scheme @ host @ port @ t" and g: "host_grammar host" "port_grammar port" "tail_grammar t"
    by blast
  have auth: "takeWhile (\<lambda>c. \<not> is_delimiter c) (host @ port @ t) = host @ port"
    using split_authority [of "host @ port" t] authority_chars(1) [OF g(1,2)] tail_starts [OF g(3)] by simp
  have vh: "validate_host (host @ port) = Inr ()" using g by (auto simp: validate_host_iff)
  have rest: "drop 8 d = host @ port @ t" and https: "starts_with ''https://'' d"
    by (simp_all add: d scheme_def starts_with_def)
  have a: "authority_of d = host @ port" by (simp only: authority_of_def rest auth)
  have after: "drop (length (host @ port)) (drop 8 d) = t" by (simp add: rest)
  have "d \<noteq> []" "host @ port \<noteq> []" using len host_specials(4) [OF g(1)] by auto
  moreover have "trim_text d = d" by (rule url_char_visible [OF chars])
  moreover have "let path = takeWhile (\<lambda>c. c \<notin> set ''?#'') t in path = [] \<or> path = ''/''"
    using path_iff [OF tail_starts [OF g(3)]] g(3) by blast
  ultimately show "validate_anchor_domain d = Inr ()"
    unfolding validate_anchor_domain_iff a after
    using len chars https vh rest authority_chars(2,3) [OF g(1,2)] by (auto simp del: drop_append)
qed

section \<open>Properties\<close>


text \<open>
  Under a policy the decision is taken on the host that was validated, without its port: the
  address is accepted exactly if it is well formed and the first rule whose pattern is the host, or
  a parent domain of it, in any letter case, allows it (or no rule matches and the default allows).
\<close>

theorem policy_decides_on_host:
  assumes "host_grammar host" and "port_grammar port" and "tail_grammar t"
    and "validate_anchor_domain (scheme @ host @ port @ t) = Inr ()"
  shows "validate_anchor_domain_with_policy (scheme @ host @ port @ t) (Some p) = Inr () \<longleftrightarrow>
    (case find (\<lambda>r. dr_host_pattern r \<noteq> [] \<and>
              (\<exists>parent. to_ascii_lowercase host = parent @ to_ascii_lowercase (dr_host_pattern r) \<and>
                 (parent = [] \<or> last parent = CHR ''.''))) (dp_rules p) of
       Some r \<Rightarrow> dr_action r = Allow
     | None \<Rightarrow> \<not> dp_default_deny p)"
proof -
  have rule: "rule_matches h r \<longleftrightarrow> dr_host_pattern r \<noteq> [] \<and>
      (\<exists>parent. h = parent @ to_ascii_lowercase (dr_host_pattern r) \<and> (parent = [] \<or> last parent = CHR ''.''))" for h r
  proof -
    have "(\<exists>t. h = t @ CHR ''.'' # pat) \<longleftrightarrow> (\<exists>parent. h = parent @ pat \<and> parent \<noteq> [] \<and> last parent = CHR ''.'')" for pat
    proof
      assume "\<exists>t. h = t @ CHR ''.'' # pat"
      then obtain t where "h = (t @ ''.'') @ pat" by auto
      then show "\<exists>parent. h = parent @ pat \<and> parent \<noteq> [] \<and> last parent = CHR ''.''"
        by (intro exI [of _ "t @ ''.''"]) simp
    next
      assume "\<exists>parent. h = parent @ pat \<and> parent \<noteq> [] \<and> last parent = CHR ''.''"
      then obtain parent where "h = parent @ pat" "parent = butlast parent @ ''.''"
        by (metis append_butlast_last_id)
      then have "h = butlast parent @ CHR ''.'' # pat" by (metis append_Cons append_Nil append_assoc)
      then show "\<exists>t. h = t @ CHR ''.'' # pat" by blast
    qed
    then have "(h = pat \<or> (\<exists>t. h = t @ CHR ''.'' # pat)) \<longleftrightarrow>
        (\<exists>parent. h = parent @ pat \<and> (parent = [] \<or> last parent = CHR ''.''))" for pat
      by (metis append_Nil)
    then show ?thesis by (simp add: rule_matches_def Let_def ends_with_append to_ascii_lowercase_def)
  qed
  have host: "extract_host (scheme @ host @ port @ t) = host"
    by (rule extract_host_grammar [OF assms(1-3)])
  show ?thesis
    by (simp add: validate_anchor_domain_with_policy_def assms(4) host permits_def Let_def rule [abs_def]
        split: option.split)
qed

theorem policy_decides_on_host_witness:
  "validate_anchor_domain_with_policy ''https://Api.Bad.example:8080/?x''
     (Some (with_deny ''bad.example'' allow_all)) \<noteq> Inr ()"
proof -
  have split: "split_on CHR ''.'' ''Api.Bad.example'' = [''Api'', ''Bad'', ''example'']" by simp
  have host: "host_grammar ''Api.Bad.example''"
    by (simp add: labels_grammar split label_ok_def ascii_defs)
  have port: "port_grammar '':8080''"
    by (simp add: port_grammar_def port_ok_def ascii_defs digits_value_def)
  have tail: "tail_grammar ''/?x''" unfolding tail_grammar_def by (rule exI [of _ "''?x''"]) simp
  have eq: "scheme @ ''Api.Bad.example'' @ '':8080'' @ ''/?x'' = ''https://Api.Bad.example:8080/?x''"
    by (simp add: scheme_def)
  have "\<forall>c \<in> set (scheme @ ''Api.Bad.example'' @ '':8080'' @ ''/?x''). url_char c"
    by (simp add: url_char_def visible_def forbidden_chars_def scheme_def)
  moreover have "12 \<le> length (scheme @ ''Api.Bad.example'' @ '':8080'' @ ''/?x'')"
    "length (scheme @ ''Api.Bad.example'' @ '':8080'' @ ''/?x'') \<le> 2048" by (simp_all add: scheme_def)
  ultimately have "validate_anchor_domain (scheme @ ''Api.Bad.example'' @ '':8080'' @ ''/?x'') = Inr ()"
    using host port tail unfolding domain_accepted_iff by blast
  from policy_decides_on_host [OF host port tail this, of "with_deny ''bad.example'' allow_all"]
  have "validate_anchor_domain_with_policy (scheme @ ''Api.Bad.example'' @ '':8080'' @ ''/?x'')
      (Some (with_deny ''bad.example'' allow_all)) \<noteq> Inr ()"
  proof -
    have trim: "trim_text ''bad.example'' = ''bad.example''"
      by (rule trim_visible) (simp add: visible_def)
    have "\<exists>parent. to_ascii_lowercase ''Api.Bad.example'' = parent @ to_ascii_lowercase ''bad.example'' \<and>
        (parent = [] \<or> last parent = CHR ''.'')"
      by (rule exI [of _ "''api.''"]) (simp add: to_ascii_lowercase_def lower_char_def ascii_defs char_of_def bit_simps)
    with policy_decides_on_host [OF host port tail \<open>validate_anchor_domain _ = Inr ()\<close>,
        of "with_deny ''bad.example'' allow_all"]
    show ?thesis by (simp add: with_deny_def allow_all_def trim Let_def)
  qed
  then show ?thesis unfolding eq .
qed

end
