(* ===== verification/Contract_Services.thy ===== *)
theory Contract_Services
  imports Contract_Caches Domain_Validator
begin

text \<open>
  Profiles and services of the attestors (\<^verbatim>\<open>src/contract.rs\<close>): endpoint and webhook, the configured
  services with their retirement, the switches with their snapshots, and the readiness reports.
\<close>

abbreviation with_profiles :: "(profile_store \<Rightarrow> profile_store) \<Rightarrow> contract \<Rightarrow> contract" where
  "with_profiles f s \<equiv> s\<lparr>c_anchors := (c_anchors s)\<lparr>an_profiles := f (an_profiles (c_anchors s))\<rparr>\<rparr>"

abbreviation with_switches :: "service_store \<Rightarrow> contract \<Rightarrow> contract" where
  "with_switches v s \<equiv> s\<lparr>c_anchors := (c_anchors s)\<lparr>an_switches := v\<rparr>\<rparr>"

abbreviation profiles :: "contract \<Rightarrow> profile_store" where
  "profiles s \<equiv> an_profiles (c_anchors s)"

abbreviation switches :: "contract \<Rightarrow> service_store" where
  "switches s \<equiv> an_switches (c_anchors s)"

section \<open>Profiles\<close>

definition load_or_init_profile :: "contract \<Rightarrow> address \<Rightarrow> attestor_profile" where
  "load_or_init_profile s attestor =
     get_or \<lparr>pf_attestor = attestor, pf_endpoint = [], pf_webhook_url = [], pf_services = [],
             pf_enabled = True, pf_updated_at = 0\<rparr> (pr_profiles (profiles s) attestor)"

definition save_profile :: "attestor_profile \<Rightarrow> contract \<Rightarrow> contract" where
  "save_profile profile s =
     with_profiles (\<lambda>p. p\<lparr>pr_profiles := (pr_profiles p)(pf_attestor profile \<mapsto> profile)\<rparr>) s"

definition get_attestor_profile :: "contract \<Rightarrow> address \<Rightarrow> trap + attestor_profile" where
  "get_attestor_profile s attestor =
     bind_ok (check_attestor attestor s) (\<lambda>_. Inr (load_or_init_profile s attestor))"

text \<open>The URL checks of \<open>set_endpoint\<close>, \<open>register_webhook\<close> and \<open>register_endpoint_proof\<close>: a string
  that is not UTF-8 is refused before the validator sees it, which would refuse it as well.\<close>

definition check_url :: "string \<Rightarrow> trap + unit" where
  "check_url url = or_panic InvalidEndpointFormat (validate_anchor_domain url)"

definition set_endpoint :: "env \<Rightarrow> address \<Rightarrow> string \<Rightarrow> contract \<Rightarrow> trap + contract" where
  "set_endpoint e attestor endpoint s =
     bind_ok (require_auth e attestor) (\<lambda>_.
     bind_ok (check_attestor attestor s) (\<lambda>_.
     bind_ok (check_url endpoint) (\<lambda>_.
       let profile = load_or_init_profile s attestor;
           s1 = save_profile (profile\<lparr>pf_endpoint := endpoint, pf_updated_at := timestamp e\<rparr>) s in
     bind_ok (audit_action e attestor ''set_endpoint'' attestor '''' ''updated'' s1) (\<lambda>s2.
       Inr (emit (EvEndpointUpdated attestor endpoint) s2)))))"

definition get_endpoint :: "contract \<Rightarrow> address \<Rightarrow> trap + string" where
  "get_endpoint s attestor =
     bind_ok (check_attestor attestor s) (\<lambda>_.
       let endpoint = pf_endpoint (load_or_init_profile s attestor)
       in if endpoint = [] then Inl (Panic EndpointNotSet) else Inr endpoint)"

definition register_webhook :: "env \<Rightarrow> address \<Rightarrow> string \<Rightarrow> contract \<Rightarrow> trap + contract" where
  "register_webhook e attestor webhook_url s =
     bind_ok (require_auth e attestor) (\<lambda>_.
     bind_ok (check_attestor attestor s) (\<lambda>_.
     bind_ok (check_url webhook_url) (\<lambda>_.
       let profile = load_or_init_profile s attestor
       in Inr (emit (EvWebhookReg attestor (timestamp e))
            (save_profile (profile\<lparr>pf_webhook_url := webhook_url, pf_updated_at := timestamp e\<rparr>) s)))))"

definition get_webhook_url :: "contract \<Rightarrow> address \<Rightarrow> trap + string" where
  "get_webhook_url s attestor =
     bind_ok (check_attestor attestor s) (\<lambda>_.
       let url = pf_webhook_url (load_or_init_profile s attestor)
       in if url = [] then Inl (Panic WebhookUrlNotSet) else Inr url)"

section \<open>Configured services\<close>

definition is_known_service_code :: "u32 \<Rightarrow> bool" where
  "is_known_service_code code \<longleftrightarrow> SERVICE_DEPOSITS \<le> code \<and> code \<le> MAX_KNOWN_SERVICE_CODE"

text \<open>The loops that refuse a repeated or an unknown code.\<close>

fun check_codes :: "u32 list \<Rightarrow> u32 list \<Rightarrow> trap + unit" where
  "check_codes seen [] = Inr ()"
| "check_codes seen (c # cs) =
     (if c \<in> set seen then Inl (Panic InvalidServiceType)
      else if \<not> is_known_service_code c then Inl (Panic InvalidServiceType)
      else check_codes (seen @ [c]) cs)"

definition configure_services_versioned ::
    "env \<Rightarrow> address \<Rightarrow> u32 list \<Rightarrow> service_retirement_info list \<Rightarrow> u32 \<Rightarrow> contract \<Rightarrow> trap + contract" where
  "configure_services_versioned e anchor services retirements version s =
     bind_ok (require_auth e anchor) (\<lambda>_.
       if ats_registered (c_attestors s) anchor = None then Inl (Panic AttestorNotRegistered)
       else if version = 0 \<or> SERVICE_CAPABILITY_VERSION < version then Inl (Panic UnsupportedCapabilityVersion)
       else if services = [] then Inl (Panic InvalidServiceType)
       else
         bind_ok (check_codes [] services) (\<lambda>_.
         bind_ok (check_codes [] (map ri_service_code retirements)) (\<lambda>_.
           let normalized = sort services;
               record = \<lparr>as_anchor = anchor, as_services = normalized, as_version = version,
                         as_retirements = retirements\<rparr>;
               s1 = with_profiles (\<lambda>p. p\<lparr>pr_services := (pr_services p)(anchor \<mapsto> record)\<rparr>) s;
               profile = load_or_init_profile s1 anchor;
               s2 = save_profile (profile\<lparr>pf_services := normalized, pf_updated_at := timestamp e\<rparr>) s1
           in Inr (emit (EvServicesConfigured anchor (length normalized) version (timestamp e)) s2))))"

definition configure_services :: "env \<Rightarrow> address \<Rightarrow> u32 list \<Rightarrow> contract \<Rightarrow> trap + contract" where
  "configure_services e anchor services s =
     configure_services_versioned e anchor services [] SERVICE_CAPABILITY_VERSION s"

definition configure_services_with_retire ::
    "env \<Rightarrow> address \<Rightarrow> u32 list \<Rightarrow> service_retirement_info list \<Rightarrow> contract \<Rightarrow> trap + contract" where
  "configure_services_with_retire e anchor services retirements s =
     configure_services_versioned e anchor services retirements SERVICE_CAPABILITY_VERSION s"

definition get_supported_services :: "contract \<Rightarrow> address \<Rightarrow> trap + anchor_services" where
  "get_supported_services s anchor = of_option (Panic ServicesNotConfigured) (pr_services (profiles s) anchor)"

definition get_service_capability_version :: "contract \<Rightarrow> address \<Rightarrow> trap + u32" where
  "get_service_capability_version s anchor =
     of_option (Panic ServicesNotConfigured) (map_option as_version (pr_services (profiles s) anchor))"

definition is_service_retired :: "anchor_services \<Rightarrow> u32 \<Rightarrow> bool" where
  "is_service_retired record service \<longleftrightarrow>
     list_ex (\<lambda>r. ri_service_code r = service \<and> ri_retired r) (as_retirements record)"

definition get_active_services :: "contract \<Rightarrow> address \<Rightarrow> trap + u32 list" where
  "get_active_services s anchor =
     bind_ok (get_supported_services s anchor) (\<lambda>record.
       Inr (filter (\<lambda>c. \<not> is_service_retired record c) (as_services record)))"

definition supports_service :: "contract \<Rightarrow> address \<Rightarrow> u32 \<Rightarrow> trap + bool" where
  "supports_service s anchor service =
     bind_ok (get_supported_services s anchor) (\<lambda>record.
       Inr (service \<in> set (as_services record) \<and> \<not> is_service_retired record service))"

definition get_service_retirement_info :: "contract \<Rightarrow> address \<Rightarrow> u32 \<Rightarrow> trap + service_retirement_info option" where
  "get_service_retirement_info s anchor service =
     bind_ok (get_supported_services s anchor) (\<lambda>record.
       Inr (find (\<lambda>r. ri_service_code r = service) (as_retirements record)))"

definition or_else :: "'a option \<Rightarrow> 'a option \<Rightarrow> 'a option" where
  "or_else x y = (case x of None \<Rightarrow> y | Some v \<Rightarrow> Some v)"

definition retire_service ::
    "env \<Rightarrow> address \<Rightarrow> u32 \<Rightarrow> u64 option \<Rightarrow> string option \<Rightarrow> contract \<Rightarrow> trap + contract" where
  "retire_service e anchor service at notice s =
     bind_ok (require_auth e anchor) (\<lambda>_.
     bind_ok (get_supported_services s anchor) (\<lambda>record.
       let updated = map (\<lambda>r. if ri_service_code r = service
             then \<lparr>ri_service_code = service, ri_retired = True, ri_timestamp = or_else at (ri_timestamp r),
                   ri_notice = or_else notice (ri_notice r)\<rparr>
             else r) (as_retirements record);
           found = list_ex (\<lambda>r. ri_service_code r = service) (as_retirements record);
           retirements = (if found then updated
             else updated @ [\<lparr>ri_service_code = service, ri_retired = True, ri_timestamp = at, ri_notice = notice\<rparr>])
       in Inr (emit (EvServiceRetired anchor service)
            (with_profiles (\<lambda>p. p\<lparr>pr_services := (pr_services p)(anchor \<mapsto>
               record\<lparr>as_retirements := retirements\<rparr>)\<rparr>) s))))"

definition unretire_service :: "env \<Rightarrow> address \<Rightarrow> u32 \<Rightarrow> contract \<Rightarrow> trap + contract" where
  "unretire_service e anchor service s =
     bind_ok (require_auth e anchor) (\<lambda>_.
     bind_ok (get_supported_services s anchor) (\<lambda>record.
       let retirements = map (\<lambda>r. if ri_service_code r = service
             then \<lparr>ri_service_code = service, ri_retired = False, ri_timestamp = None, ri_notice = ri_notice r\<rparr>
             else r) (as_retirements record)
       in Inr (emit (EvServiceUnretired anchor service)
            (with_profiles (\<lambda>p. p\<lparr>pr_services := (pr_services p)(anchor \<mapsto>
               record\<lparr>as_retirements := retirements\<rparr>)\<rparr>) s))))"

section \<open>Switches and snapshots\<close>

text \<open>A refusal of the manager counts as \<open>False\<close>; the audit entry is written in every case.\<close>

definition switched ::
    "env \<Rightarrow> address \<Rightarrow> address \<Rightarrow> string \<Rightarrow> string \<Rightarrow> string \<Rightarrow> (anchor_kit_error + bool) \<times> service_store \<Rightarrow>
     contract \<Rightarrow> trap + (bool \<times> contract)" where
  "switched e caller anchor action old_value new_value result s =
     (case result of (r, v) \<Rightarrow>
        let changed = (case r of Inl _ \<Rightarrow> False | Inr b \<Rightarrow> b) in
        bind_ok (audit_action e caller action anchor old_value new_value (with_switches v s)) (\<lambda>s1.
          Inr (changed, if changed then snd (invalidate_cache_internal e anchor s1) else s1)))"

definition enable_service :: "env \<Rightarrow> address \<Rightarrow> address \<Rightarrow> u32 \<Rightarrow> contract \<Rightarrow> trap + (bool \<times> contract)" where
  "enable_service e caller anchor code s =
     bind_ok (require_admin_or_capability e caller ToggleServices s) (\<lambda>_.
       switched e caller anchor ''enable_service'' ''disabled'' ''enabled''
         (enable_toggle e anchor code (switches s)) s)"

definition disable_service :: "env \<Rightarrow> address \<Rightarrow> address \<Rightarrow> u32 \<Rightarrow> contract \<Rightarrow> trap + (bool \<times> contract)" where
  "disable_service e caller anchor code s =
     bind_ok (require_admin_or_capability e caller ToggleServices s) (\<lambda>_.
       switched e caller anchor ''disable_service'' ''enabled'' ''disabled''
         (disable_toggle e anchor code (switches s)) s)"

text \<open>\<open>expect\<close> on the manager's result aborts without a contract error; a description that is not
  UTF-8 is not modelled.\<close>

definition snapshot_services ::
    "env \<Rightarrow> address \<Rightarrow> address \<Rightarrow> u32 list \<Rightarrow> string \<Rightarrow> contract \<Rightarrow> trap + (u64 \<times> contract)" where
  "snapshot_services e caller anchor services description s =
     bind_ok (require_admin_or_capability e caller ToggleServices s) (\<lambda>_.
     bind_ok (create_snapshot e anchor services description (switches s)) (\<lambda>(r, v).
       case r of
         Inl _ \<Rightarrow> Inl HostTrap
       | Inr snapshot_id \<Rightarrow>
           bind_ok (audit_action e caller ''snapshot_services'' anchor '''' ''snapshot_taken'' (with_switches v s))
             (\<lambda>s1. Inr (snapshot_id, s1))))"

definition rollback_services :: "env \<Rightarrow> address \<Rightarrow> u64 \<Rightarrow> contract \<Rightarrow> trap + (bool \<times> contract)" where
  "rollback_services e caller snapshot_id s =
     bind_ok (require_admin_or_capability e caller ToggleServices s) (\<lambda>_.
       case rollback_to_snapshot e snapshot_id (switches s) of
         (restored, v) \<Rightarrow>
           let s1 = with_switches v s;
               s2 = (if restored
                     then case get_snapshot v snapshot_id of
                            None \<Rightarrow> s1
                          | Some snap \<Rightarrow> snd (invalidate_cache_internal e (sc_anchor snap) s1)
                     else s1) in
           bind_ok (audit_action e caller ''rollback_services'' ''service_snapshot'' ''''
                      (if restored then ''rolled_back'' else ''rollback_failed'') s2) (\<lambda>s3.
             Inr (restored, s3)))"

section \<open>Readiness\<close>

definition advertises :: "contract \<Rightarrow> address \<Rightarrow> u32 \<Rightarrow> bool" where
  "advertises s anchor service \<longleftrightarrow>
     (case pr_services (profiles s) anchor of None \<Rightarrow> False | Some r \<Rightarrow> service \<in> set (as_services r))"

definition advertises_quote_service :: "contract \<Rightarrow> address \<Rightarrow> bool" where
  "advertises_quote_service s anchor \<longleftrightarrow> advertises s anchor SERVICE_QUOTES"

text \<open>The quote an anchor submitted last (\<open>LATESTQ\<close>, then \<open>QUOTE\<close>).\<close>

definition latest_quote :: "contract \<Rightarrow> address \<Rightarrow> quote option" where
  "latest_quote s anchor =
     (case quo_latest (c_quotes s) anchor of
        None \<Rightarrow> None
      | Some quote_id \<Rightarrow> quo_quotes (c_quotes s) (anchor, quote_id))"

definition is_quote_ready :: "env \<Rightarrow> contract \<Rightarrow> address \<Rightarrow> bool" where
  "is_quote_ready e s anchor \<longleftrightarrow>
     advertises s anchor SERVICE_QUOTES \<and>
     (case latest_quote s anchor of None \<Rightarrow> False | Some q \<Rightarrow> timestamp e < qu_valid_until q)"

definition is_deposit_ready :: "contract \<Rightarrow> address \<Rightarrow> bool" where
  "is_deposit_ready s anchor \<longleftrightarrow> advertises s anchor SERVICE_DEPOSITS"

record anchor_readiness_report =
  ar_anchor :: address
  ar_registered :: bool
  ar_deposit :: bool
  ar_withdrawal :: bool
  ar_quote :: bool
  ar_kyc :: bool
  ar_checked_at :: u64

definition get_anchor_readiness :: "env \<Rightarrow> contract \<Rightarrow> address \<Rightarrow> anchor_readiness_report" where
  "get_anchor_readiness e s anchor =
     \<lparr>ar_anchor = anchor, ar_registered = is_attestor s anchor,
      ar_deposit = advertises s anchor SERVICE_DEPOSITS, ar_withdrawal = advertises s anchor SERVICE_WITHDRAWALS,
      ar_quote = is_quote_ready e s anchor, ar_kyc = advertises s anchor SERVICE_KYC,
      ar_checked_at = timestamp e\<rparr>"

section \<open>Invariant and effects\<close>

text \<open>
  Profiles are stored under their attestor; a configured record lists known services, sorted and each
  once, under a supported version, with at most one retirement entry per code, and the profile of
  the anchor agrees with it.
\<close>

definition services_wf :: "address \<Rightarrow> anchor_services \<Rightarrow> bool" where
  "services_wf a r \<longleftrightarrow> as_anchor r = a \<and> as_services r \<noteq> [] \<and> sorted (as_services r) \<and> distinct (as_services r) \<and>
     (\<forall>c \<in> set (as_services r). is_known_service_code c) \<and>
     as_version r \<noteq> 0 \<and> as_version r \<le> SERVICE_CAPABILITY_VERSION \<and>
     distinct (map ri_service_code (as_retirements r))"

definition profile_inv :: "profile_store \<Rightarrow> bool" where
  "profile_inv p \<longleftrightarrow>
     (\<forall>a f. pr_profiles p a = Some f \<longrightarrow> pf_attestor f = a) \<and>
     (\<forall>a r. pr_services p a = Some r \<longrightarrow> services_wf a r \<and>
        (\<exists>f. pr_profiles p a = Some f \<and> pf_services f = as_services r))"

lemma check_codes_Inr [ok_simps]:
  "check_codes seen cs = Inr u \<longleftrightarrow>
     distinct cs \<and> set cs \<inter> set seen = {} \<and> (\<forall>c \<in> set cs. is_known_service_code c)"
  by (induction seen cs rule: check_codes.induct) auto

definition services_effect :: "contract \<Rightarrow> contract \<Rightarrow> bool" where
  "services_effect s s' \<longleftrightarrow> anchor_step s s' \<and>
     an_governance (c_anchors s') = an_governance (c_anchors s) \<and>
     an_directory (c_anchors s') = an_directory (c_anchors s) \<and> an_routing (c_anchors s') = an_routing (c_anchors s) \<and>
     an_health (c_anchors s') = an_health (c_anchors s) \<and>
     (profile_inv (profiles s) \<longrightarrow> profile_inv (profiles s')) \<and>
     (toggles_inv (switches s) \<longrightarrow> toggles_inv (switches s'))"

lemma services_effect_emit [simp]: "services_effect s (emit ev s1) \<longleftrightarrow> services_effect s s1"
  by (simp add: services_effect_def)

lemma services_effect_audit:
  assumes "audit_action e a ct t ov nv s1 = Inr s2"
  shows "services_effect s s1 \<longrightarrow> services_effect s s2"
  using audited_anchors [OF assms, of s] by (simp add: services_effect_def)

lemma services_effect_invalidate [simp]:
  "services_effect s (snd (invalidate_cache_internal e a s1)) \<longleftrightarrow> services_effect s s1"
  by (simp add: services_effect_def)

text \<open>A profile whose services stay as they are.\<close>

lemma save_profile_inv:
  assumes "profile_inv p" and "pf_attestor f = a"
    and "\<And>r. pr_services p a = Some r \<Longrightarrow> pf_services f = as_services r"
  shows "profile_inv (p\<lparr>pr_profiles := (pr_profiles p)(a \<mapsto> f)\<rparr>)"
  using assms unfolding profile_inv_def by auto

lemma loaded_profile:
  assumes "profile_inv (profiles s)"
  shows "pf_attestor (load_or_init_profile s a) = a"
    and "pr_services (profiles s) a = Some r \<Longrightarrow> pf_services (load_or_init_profile s a) = as_services r"
proof -
  show "pf_attestor (load_or_init_profile s a) = a"
    using assms unfolding profile_inv_def load_or_init_profile_def get_or_def by (auto split: option.split)
  assume "pr_services (profiles s) a = Some r"
  with assms obtain f where "pr_profiles (profiles s) a = Some f" "pf_services f = as_services r"
    unfolding profile_inv_def by blast
  then show "pf_services (load_or_init_profile s a) = as_services r" by (simp add: load_or_init_profile_def)
qed

lemma effect_save_profile:
  assumes "\<And>f. pf_attestor (g f) = pf_attestor f \<and> pf_services (g f) = pf_services f"
  shows "services_effect s (save_profile (g (load_or_init_profile s a)) s)"
  using assms loaded_profile [of s a]
  by (auto simp: services_effect_def save_profile_def intro!: save_profile_inv)

lemma services_effect_profile:
  "set_endpoint e a url s = Inr s' \<Longrightarrow> services_effect s s'"
  "register_webhook e a url s = Inr s' \<Longrightarrow> services_effect s s'"
  by (auto simp: set_endpoint_def register_webhook_def bind_ok_Inr Let_def
      intro!: effect_save_profile dest!: services_effect_audit [where s = s] elim!: mp)

text \<open>A successful configuration, exactly.\<close>

lemma configure_services_ok:
  assumes "configure_services_versioned e a svcs rets v s = Inr s'"
  shows "a \<in> auths e" "ats_registered (c_attestors s) a \<noteq> None"
    and "services_wf a \<lparr>as_anchor = a, as_services = sort svcs, as_version = v, as_retirements = rets\<rparr>"
    and "profiles s' = (profiles s)\<lparr>pr_services := (pr_services (profiles s))(a \<mapsto>
           \<lparr>as_anchor = a, as_services = sort svcs, as_version = v, as_retirements = rets\<rparr>),
         pr_profiles := (pr_profiles (profiles s))(pf_attestor (load_or_init_profile s a) \<mapsto>
           (load_or_init_profile s a)\<lparr>pf_services := sort svcs, pf_updated_at := timestamp e\<rparr>)\<rparr>"
    and "anchor_step s s'" "c_anchors s' = (c_anchors s)\<lparr>an_profiles := profiles s'\<rparr>"
  using assms
  by (auto simp: configure_services_versioned_def bind_ok_Inr require_auth_Inr check_codes_Inr Let_def
      services_wf_def save_profile_def load_or_init_profile_def not_less set_empty [symmetric]
      simp del: set_empty split: if_split_asm)

lemma services_effect_configure:
  assumes "configure_services_versioned e a svcs rets v s = Inr s'"
  shows "services_effect s s'"
proof -
  note ok = configure_services_ok [OF assms]
  have "profile_inv (profiles s')" if inv: "profile_inv (profiles s)"
    using inv ok(3) loaded_profile(1) [OF inv, of a] unfolding profile_inv_def ok(4) by auto
  with ok(5,6) show ?thesis unfolding services_effect_def by (metis anchor_store.simps anchor_store.surjective)
qed

text \<open>Retiring and unretiring rewrite the list of retirements of a configured record.\<close>

lemma put_retirements_inv:
  assumes "profile_inv p" and "pr_services p a = Some r" and "distinct (map ri_service_code rets)"
  shows "profile_inv (p\<lparr>pr_services := (pr_services p)(a \<mapsto> r\<lparr>as_retirements := rets\<rparr>)\<rparr>)"
  using assms unfolding profile_inv_def services_wf_def by auto

definition retired_list :: "u32 \<Rightarrow> u64 option \<Rightarrow> string option \<Rightarrow> service_retirement_info list \<Rightarrow> service_retirement_info list" where
  "retired_list c at notice rs =
     (let updated = map (\<lambda>r. if ri_service_code r = c
            then \<lparr>ri_service_code = c, ri_retired = True, ri_timestamp = or_else at (ri_timestamp r),
                  ri_notice = or_else notice (ri_notice r)\<rparr> else r) rs
      in if list_ex (\<lambda>r. ri_service_code r = c) rs then updated
         else updated @ [\<lparr>ri_service_code = c, ri_retired = True, ri_timestamp = at, ri_notice = notice\<rparr>])"

definition unretired_list :: "u32 \<Rightarrow> service_retirement_info list \<Rightarrow> service_retirement_info list" where
  "unretired_list c rs = map (\<lambda>r. if ri_service_code r = c
     then \<lparr>ri_service_code = c, ri_retired = False, ri_timestamp = None, ri_notice = ri_notice r\<rparr> else r) rs"

lemma map_code_if:
  "(\<And>r. ri_service_code (f r) = c) \<Longrightarrow>
   map (\<lambda>r. ri_service_code (if ri_service_code r = c then f r else r)) rs = map ri_service_code rs"
  by (induction rs) auto

lemma distinct_retired:
  "distinct (map ri_service_code rs) \<Longrightarrow> distinct (map ri_service_code (retired_list c at notice rs))"
  "distinct (map ri_service_code rs) \<Longrightarrow> distinct (map ri_service_code (unretired_list c rs))"
  by (auto simp: retired_list_def unretired_list_def Let_def list_ex_iff map_code_if comp_def)

lemma retire_service_ok:
  assumes "retire_service e a c at notice s = Inr s'"
  obtains r where "pr_services (profiles s) a = Some r" "a \<in> auths e"
    "s' = emit (EvServiceRetired a c) (with_profiles (\<lambda>p. p\<lparr>pr_services := (pr_services p)(a \<mapsto>
       r\<lparr>as_retirements := retired_list c at notice (as_retirements r)\<rparr>)\<rparr>) s)"
  using assms
  by (auto simp: retire_service_def bind_ok_Inr require_auth_Inr get_supported_services_def of_option_Inr
      retired_list_def Let_def)

lemma unretire_service_ok:
  assumes "unretire_service e a c s = Inr s'"
  obtains r where "pr_services (profiles s) a = Some r" "a \<in> auths e"
    "s' = emit (EvServiceUnretired a c) (with_profiles (\<lambda>p. p\<lparr>pr_services := (pr_services p)(a \<mapsto>
       r\<lparr>as_retirements := unretired_list c (as_retirements r)\<rparr>)\<rparr>) s)"
  using assms
  by (auto simp: unretire_service_def bind_ok_Inr require_auth_Inr get_supported_services_def of_option_Inr
      unretired_list_def Let_def)

lemma effect_put_retirements:
  assumes "pr_services (profiles s) a = Some r"
    and "distinct (map ri_service_code (as_retirements r)) \<Longrightarrow> distinct (map ri_service_code rets)"
  shows "services_effect s (with_profiles (\<lambda>p. p\<lparr>pr_services := (pr_services p)(a \<mapsto> r\<lparr>as_retirements := rets\<rparr>)\<rparr>) s)"
proof -
  have "distinct (map ri_service_code (as_retirements r))" if "profile_inv (profiles s)"
    using that assms(1) unfolding profile_inv_def services_wf_def by blast
  then show ?thesis
    using put_retirements_inv [OF _ assms(1)] assms(2) by (simp add: services_effect_def)
qed

lemma services_effect_retire:
  "retire_service e a c at notice s = Inr s' \<Longrightarrow> services_effect s s'"
  "unretire_service e a c s = Inr s' \<Longrightarrow> services_effect s s'"
  by (erule retire_service_ok, simp, rule effect_put_retirements, auto intro: distinct_retired)
    (erule unretire_service_ok, simp, rule effect_put_retirements, auto intro: distinct_retired)

lemma effect_switches:
  assumes "toggles_inv (switches s) \<longrightarrow> toggles_inv v"
  shows "services_effect s (with_switches v s)"
  using assms by (simp add: services_effect_def)

lemma services_effect_switches:
  "enable_service e c a k s = Inr (b, s') \<Longrightarrow> services_effect s s'"
  "disable_service e c a k s = Inr (b, s') \<Longrightarrow> services_effect s s'"
proof -
  have sw: "services_effect s s'"
    if "switched e c a act ov nv (r, v) s = Inr (b, s')" "toggles_inv (switches s) \<longrightarrow> toggles_inv v" for r v act ov nv
    using that effect_switches [of s v]
    by (auto simp: switched_def bind_ok_Inr Let_def dest!: services_effect_audit [where s = s])
  show "services_effect s s'" if "enable_service e c a k s = Inr (b, s')"
    using that toggle_inv(1) [of "switches s" e a k]
    by (cases "enable_toggle e a k (switches s)") (auto simp: enable_service_def bind_ok_Inr intro: sw)
  show "services_effect s s'" if "disable_service e c a k s = Inr (b, s')"
    using that toggle_inv(2) [of "switches s" e a k]
    by (cases "disable_toggle e a k (switches s)") (auto simp: disable_service_def bind_ok_Inr intro: sw)
qed

lemma snapshot_toggles: "create_snapshot e a xs d v = Inr (r, v') \<Longrightarrow> toggles_inv v \<longrightarrow> toggles_inv v'"
  unfolding create_snapshot_def Let_def toggles_inv_def by (fastforce simp: bind_ok_Inr split: if_split_asm)

lemma services_effect_snapshots:
  "snapshot_services e c a xs d s = Inr (i, s') \<Longrightarrow> services_effect s s'"
proof -
  assume "snapshot_services e c a xs d s = Inr (i, s')"
  then obtain r v where r: "create_snapshot e a xs d (switches s) = Inr (r, v)"
    and rest: "(case r of Inl _ \<Rightarrow> Inl HostTrap
       | Inr n \<Rightarrow> bind_ok (audit_action e c ''snapshot_services'' a '''' ''snapshot_taken'' (with_switches v s))
           (\<lambda>s1. Inr (n, s1))) = Inr (i, s')"
    by (auto simp: snapshot_services_def bind_ok_Inr)
  then have v: "create_snapshot e a xs d (switches s) = Inr (Inr i, v)"
    and au: "audit_action e c ''snapshot_services'' a '''' ''snapshot_taken'' (with_switches v s) = Inr s'"
    by (cases r; simp add: bind_ok_Inr)+
  from services_effect_audit [OF au, of s] effect_switches [OF snapshot_toggles [OF v]]
  show "services_effect s s'" by blast
qed

lemma services_effect_rollback:
  assumes "rollback_services e c i s = Inr (b, s')"
  shows "services_effect s s'"
proof -
  obtain restored v where rb: "rollback_to_snapshot e i (switches s) = (restored, v)" by fastforce
  then have "toggles_inv (switches s) \<longrightarrow> toggles_inv v" using toggle_inv(3) [of "switches s" e i] by auto
  then have "services_effect s (with_switches v s)" by (rule effect_switches)
  then show ?thesis
    using assms by (auto simp: rollback_services_def rb bind_ok_Inr Let_def split: if_split_asm option.split_asm
        dest!: services_effect_audit [where s = s])
qed

section \<open>Properties\<close>

text \<open>
  Retiring a service: from then on \<open>supports_service\<close> denies it and \<open>get_active_services\<close> leaves it
  out, every other service answers as before, and unretiring it restores the answer that the
  configuration gives.  The quote routing, which looks at the configured list only, does not
  notice the retirement.
\<close>

theorem retired_service_denied:
  assumes retire: "retire_service e a c at notice s = Inr s1"
  shows "supports_service s1 a c = Inr False \<and>
    (\<forall>r. get_supported_services s a = Inr r \<longrightarrow>
       get_active_services s1 a = Inr (filter (\<lambda>d. d \<noteq> c \<and> \<not> is_service_retired r d) (as_services r))) \<and>
    (\<forall>d. d \<noteq> c \<longrightarrow> supports_service s1 a d = supports_service s a d) \<and>
    (\<forall>b. b \<noteq> a \<longrightarrow> get_supported_services s1 b = get_supported_services s b) \<and>
    (\<forall>e2 s2 r. unretire_service e2 a c s1 = Inr s2 \<longrightarrow> get_supported_services s a = Inr r \<longrightarrow>
       supports_service s2 a c = Inr (c \<in> set (as_services r))) \<and>
    advertises_quote_service s1 a = advertises_quote_service s a"
proof -
  from retire obtain r where r: "pr_services (profiles s) a = Some r"
    and s1: "pr_services (profiles s1) = (pr_services (profiles s))(a \<mapsto>
        r\<lparr>as_retirements := retired_list c at notice (as_retirements r)\<rparr>)"
    by (rule retire_service_ok) simp
  have ret: "list_ex (\<lambda>x. ri_service_code x = d \<and> ri_retired x) (retired_list c at notice rs) \<longleftrightarrow>
      d = c \<or> list_ex (\<lambda>x. ri_service_code x = d \<and> ri_retired x) rs" for d rs
  proof -
    let ?upd = "\<lambda>r. if ri_service_code r = c then \<lparr>ri_service_code = c, ri_retired = True,
        ri_timestamp = or_else at (ri_timestamp r), ri_notice = or_else notice (ri_notice r)\<rparr> else r"
    have "list_ex (\<lambda>x. ri_service_code x = d \<and> ri_retired x) (map ?upd rs) \<longleftrightarrow>
        (d = c \<and> list_ex (\<lambda>r. ri_service_code r = c) rs) \<or> list_ex (\<lambda>x. ri_service_code x = d \<and> ri_retired x) rs"
      by (induction rs) auto
    then show ?thesis by (auto simp: retired_list_def Let_def)
  qed
  have unret: "\<not> list_ex (\<lambda>x. ri_service_code x = c \<and> ri_retired x) (unretired_list c rs)" for rs
    by (induction rs) (auto simp: unretired_list_def)
  have restored: "supports_service s2 a c = Inr (c \<in> set (as_services r))" if "unretire_service e2 a c s1 = Inr s2" for e2 s2
    using that
  proof (rule unretire_service_ok)
    fix r1 assume "pr_services (profiles s1) a = Some r1"
      "s2 = emit (EvServiceUnretired a c) (with_profiles (\<lambda>p. p\<lparr>pr_services := (pr_services p)(a \<mapsto>
         r1\<lparr>as_retirements := unretired_list c (as_retirements r1)\<rparr>)\<rparr>) s1)"
    moreover from this(1) s1 have "r1 = r\<lparr>as_retirements := retired_list c at notice (as_retirements r)\<rparr>" by simp
    ultimately show ?thesis
      using s1 unret by (simp add: supports_service_def get_supported_services_def is_service_retired_def)
  qed
  have cfg: "get_supported_services s a = Inr r" "get_supported_services s1 a =
      Inr (r\<lparr>as_retirements := retired_list c at notice (as_retirements r)\<rparr>)"
    using r s1 by (simp_all add: get_supported_services_def)
  have rest: "get_supported_services s1 b = get_supported_services s b" if "b \<noteq> a" for b
    using that s1 by (simp add: get_supported_services_def)
  have adv: "advertises_quote_service s1 a = advertises_quote_service s a"
    using r s1 by (simp add: advertises_quote_service_def advertises_def)
  show ?thesis
    using restored rest adv
    by (auto simp: supports_service_def get_active_services_def cfg is_service_retired_def ret intro!: filter_cong)
qed

text \<open>An anchor with deposits and quotes that retires its quotes.\<close>

definition two_services :: contract where
  "two_services = with_profiles (\<lambda>p. p\<lparr>pr_services := [''A'' \<mapsto>
     \<lparr>as_anchor = ''A'', as_services = [1, 3], as_version = 1, as_retirements = []\<rparr>]\<rparr>) fresh_contract"

theorem retired_service_denied_witness:
  "\<exists>s1. retire_service (accepting_env 5 1 {''A''}) ''A'' 3 None None two_services = Inr s1 \<and>
     supports_service s1 ''A'' 3 = Inr False \<and> supports_service s1 ''A'' 1 = Inr True \<and>
     get_active_services s1 ''A'' = Inr [1]"
proof -
  have conf: "get_supported_services two_services ''A'' =
      Inr \<lparr>as_anchor = ''A'', as_services = [1, 3], as_version = 1, as_retirements = []\<rparr>"
    by (simp add: get_supported_services_def two_services_def)
  obtain s1 where s1: "retire_service (accepting_env 5 1 {''A''}) ''A'' 3 None None two_services = Inr s1"
    by (simp add: retire_service_def require_auth_def accepting_env_def conf Let_def)
  from retired_service_denied [OF s1] show ?thesis
    by (intro exI [of _ s1]) (simp add: s1 conf supports_service_def is_service_retired_def)
qed

end
