(* ===== verification/Contract_Directory.thy ===== *)
theory Contract_Directory
  imports Contract_Caches
begin

text \<open>
  The routing directory of \<^verbatim>\<open>src/contract.rs\<close>: the metadata of the anchors with its history, the
  blacklist, and the clusters.
\<close>

abbreviation with_directory :: "(directory_store \<Rightarrow> directory_store) \<Rightarrow> contract \<Rightarrow> contract" where
  "with_directory f s \<equiv> s\<lparr>c_anchors := (c_anchors s)\<lparr>an_directory := f (an_directory (c_anchors s))\<rparr>\<rparr>"

abbreviation directory :: "contract \<Rightarrow> directory_store" where
  "directory s \<equiv> an_directory (c_anchors s)"

section \<open>Anchor metadata\<close>

definition anchor_meta_opt :: "contract \<Rightarrow> address \<Rightarrow> routing_anchor_meta option" where
  "anchor_meta_opt s anchor = di_meta (directory s) anchor"

definition anchor_list :: "contract \<Rightarrow> address list" where
  "anchor_list s = get_or [] (di_list (directory s))"

definition get_anchor_meta_version_count :: "contract \<Rightarrow> address \<Rightarrow> u32" where
  "get_anchor_meta_version_count s anchor = get_or 0 (di_version_count (directory s) anchor)"

definition set_anchor_metadata ::
    "env \<Rightarrow> address \<Rightarrow> u32 \<Rightarrow> u64 \<Rightarrow> u32 \<Rightarrow> u32 \<Rightarrow> u64 \<Rightarrow> contract \<Rightarrow> trap + contract" where
  "set_anchor_metadata e anchor reputation settlement liquidity uptime volume s =
     bind_ok (require_admin e s) (\<lambda>_.
     bind_ok (plus_trap (get_anchor_meta_version_count s anchor) 1) (\<lambda>version.
       let meta = \<lparr>rm_anchor = anchor, rm_reputation = reputation, rm_settlement = settlement,
             rm_liquidity = liquidity, rm_uptime = uptime, rm_volume = volume, rm_active = True\<rparr>;
           entry = \<lparr>mv_version = version, mv_updated_at = timestamp e, mv_reputation = reputation,
             mv_settlement = settlement, mv_liquidity = liquidity, mv_uptime = uptime,
             mv_volume = volume, mv_active = True\<rparr>;
           anchors = anchor_list s;
           s1 = with_directory (\<lambda>d. d\<lparr>di_meta := (di_meta d)(anchor \<mapsto> meta),
             di_version_count := (di_version_count d)(anchor \<mapsto> version),
             di_history := (di_history d)((anchor, version) \<mapsto> entry),
             di_list := (if anchor \<in> set anchors then di_list d else Some (anchors @ [anchor]))\<rparr>) s
       in Inr (snd (invalidate_cache_internal e anchor s1))))"

definition get_anchor_metadata_at_version :: "contract \<Rightarrow> address \<Rightarrow> u32 \<Rightarrow> trap + anchor_metadata_version" where
  "get_anchor_metadata_at_version s anchor version =
     of_option (Panic AttestorNotRegistered) (di_history (directory s) (anchor, version))"

definition MAX_HISTORY :: u32 where "MAX_HISTORY = 50"

definition get_anchor_metadata_history :: "contract \<Rightarrow> address \<Rightarrow> anchor_metadata_version list" where
  "get_anchor_metadata_history s anchor =
     (let total = get_anchor_meta_version_count s anchor;
          start = (if MAX_HISTORY < total then total - MAX_HISTORY + 1 else 1)
      in List.map_filter (\<lambda>v. di_history (directory s) (anchor, of_nat v)) [unat start..<Suc (unat total)])"

definition set_anchor_active :: "env \<Rightarrow> bool \<Rightarrow> address \<Rightarrow> contract \<Rightarrow> trap + contract" where
  "set_anchor_active e active anchor s =
     bind_ok (require_admin e s) (\<lambda>_.
     bind_ok (of_option (Panic AttestorNotRegistered) (anchor_meta_opt s anchor)) (\<lambda>meta.
       Inr (with_directory (\<lambda>d. d\<lparr>di_meta := (di_meta d)(anchor \<mapsto> meta\<lparr>rm_active := active\<rparr>)\<rparr>) s)))"

definition deactivate_anchor :: "env \<Rightarrow> address \<Rightarrow> contract \<Rightarrow> trap + contract" where
  "deactivate_anchor e anchor s = set_anchor_active e False anchor s"

definition reactivate_anchor :: "env \<Rightarrow> address \<Rightarrow> contract \<Rightarrow> trap + contract" where
  "reactivate_anchor e anchor s = set_anchor_active e True anchor s"

definition get_anchor_metadata :: "contract \<Rightarrow> address \<Rightarrow> trap + routing_anchor_meta" where
  "get_anchor_metadata s anchor = of_option (Panic AttestorNotRegistered) (anchor_meta_opt s anchor)"

definition list_active_anchors :: "contract \<Rightarrow> address list" where
  "list_active_anchors s =
     filter (\<lambda>a. case anchor_meta_opt s a of None \<Rightarrow> False | Some m \<Rightarrow> rm_active m) (anchor_list s)"

section \<open>Blacklist\<close>

definition is_anchor_blacklisted :: "contract \<Rightarrow> address \<Rightarrow> bool" where
  "is_anchor_blacklisted s anchor \<longleftrightarrow> di_blacklist (directory s) anchor \<noteq> None"

definition get_blacklisted_anchors :: "contract \<Rightarrow> address list" where
  "get_blacklisted_anchors s = get_or [] (di_blacklist_index (directory s))"

definition blacklist_anchor :: "env \<Rightarrow> address \<Rightarrow> string \<Rightarrow> contract \<Rightarrow> trap + contract" where
  "blacklist_anchor e anchor reason s =
     bind_ok (require_admin e s) (\<lambda>_.
       let entry = \<lparr>bl_anchor = anchor, bl_reason = reason, bl_at = timestamp e\<rparr>;
           s1 = with_directory (\<lambda>d. d\<lparr>di_blacklist := (di_blacklist d)(anchor \<mapsto> entry),
                  di_blacklist_index := Some (push_new anchor (get_blacklisted_anchors s))\<rparr>) s in
       bind_ok (get_admin s1) (\<lambda>admin.
       bind_ok (audit_action e admin ''blacklist_anchor'' anchor ''active'' ''blacklisted'' s1) (\<lambda>s2.
         Inr (emit (EvBlacklisted anchor) s2))))"

definition remove_from_blacklist :: "env \<Rightarrow> address \<Rightarrow> contract \<Rightarrow> trap + contract" where
  "remove_from_blacklist e anchor s =
     bind_ok (require_admin e s) (\<lambda>_.
       let s1 = with_directory (\<lambda>d. d\<lparr>di_blacklist := (di_blacklist d)(anchor := None),
                  di_blacklist_index := Some (filter (\<lambda>a. a \<noteq> anchor) (get_blacklisted_anchors s))\<rparr>) s in
       bind_ok (get_admin s1) (\<lambda>admin.
       bind_ok (audit_action e admin ''remove_from_blacklist'' anchor ''blacklisted'' ''active'' s1) (\<lambda>s2.
         Inr (emit (EvUnblacklisted anchor) s2))))"

section \<open>Clusters\<close>

definition list_anchor_clusters :: "contract \<Rightarrow> string list" where
  "list_anchor_clusters s = get_or [] (di_cluster_list (directory s))"

definition get_anchor_cluster :: "contract \<Rightarrow> string \<Rightarrow> trap + anchor_cluster" where
  "get_anchor_cluster s cluster_id = of_option (Panic ValidationError) (di_clusters (directory s) cluster_id)"

definition create_anchor_cluster :: "env \<Rightarrow> string \<Rightarrow> string \<Rightarrow> address list \<Rightarrow> contract \<Rightarrow> trap + contract" where
  "create_anchor_cluster e cluster_id name anchors s =
     bind_ok (require_admin e s) (\<lambda>_.
       if di_clusters (directory s) cluster_id \<noteq> None then Inl (Panic AlreadyInitialized)
       else Inr (emit EvClusterCreated (with_directory (\<lambda>d. d\<lparr>
              di_clusters := (di_clusters d)(cluster_id \<mapsto>
                \<lparr>cl_id = cluster_id, cl_name = name, cl_anchors = anchors, cl_created_at = timestamp e\<rparr>),
              di_cluster_list := Some (push_new cluster_id (list_anchor_clusters s))\<rparr>) s)))"

definition delete_anchor_cluster :: "env \<Rightarrow> string \<Rightarrow> contract \<Rightarrow> trap + contract" where
  "delete_anchor_cluster e cluster_id s =
     bind_ok (require_admin e s) (\<lambda>_.
       if di_clusters (directory s) cluster_id = None then Inl (Panic ValidationError)
       else Inr (emit (EvClusterDeleted cluster_id) (with_directory (\<lambda>d. d\<lparr>
              di_clusters := (di_clusters d)(cluster_id := None),
              di_cluster_list := Some (filter (\<lambda>i. i \<noteq> cluster_id) (list_anchor_clusters s))\<rparr>) s)))"

definition update_anchor_cluster_anchors :: "env \<Rightarrow> string \<Rightarrow> address list \<Rightarrow> contract \<Rightarrow> trap + contract" where
  "update_anchor_cluster_anchors e cluster_id anchors s =
     bind_ok (require_admin e s) (\<lambda>_.
     bind_ok (get_anchor_cluster s cluster_id) (\<lambda>cluster.
       Inr (emit (EvClusterUpdated cluster_id) (with_directory (\<lambda>d. d\<lparr>
              di_clusters := (di_clusters d)(cluster_id \<mapsto> cluster\<lparr>cl_anchors := anchors\<rparr>)\<rparr>) s))))"

section \<open>Invariant\<close>

text \<open>
  The anchors with metadata are the listed ones, each once; the versions of an anchor are numbered
  from one without a gap, the last agreeing with the current metadata except for its activation;
  the indexes of the blacklist and of the clusters list exactly the stored entries, each once.
\<close>

definition same_metadata :: "routing_anchor_meta \<Rightarrow> anchor_metadata_version \<Rightarrow> bool" where
  "same_metadata m v \<longleftrightarrow> mv_reputation v = rm_reputation m \<and> mv_settlement v = rm_settlement m \<and>
     mv_liquidity v = rm_liquidity m \<and> mv_uptime v = rm_uptime m \<and> mv_volume v = rm_volume m"

definition directory_inv :: "directory_store \<Rightarrow> bool" where
  "directory_inv d \<longleftrightarrow>
     distinct (get_or [] (di_list d)) \<and> set (get_or [] (di_list d)) = dom (di_meta d) \<and>
     (\<forall>a m. di_meta d a = Some m \<longrightarrow> rm_anchor m = a \<and>
        (\<exists>v. di_history d (a, get_or 0 (di_version_count d a)) = Some v \<and> same_metadata m v)) \<and>
     (\<forall>a i. di_history d (a, i) \<noteq> None \<longleftrightarrow> 1 \<le> i \<and> i \<le> get_or 0 (di_version_count d a)) \<and>
     (\<forall>a i v. di_history d (a, i) = Some v \<longrightarrow> mv_version v = i) \<and>
     distinct (get_or [] (di_blacklist_index d)) \<and>
     set (get_or [] (di_blacklist_index d)) = dom (di_blacklist d) \<and>
     distinct (get_or [] (di_cluster_list d)) \<and> set (get_or [] (di_cluster_list d)) = dom (di_clusters d)"

definition directory_effect :: "contract \<Rightarrow> contract \<Rightarrow> bool" where
  "directory_effect s s' \<longleftrightarrow> anchor_step s s' \<and>
     an_profiles (c_anchors s') = an_profiles (c_anchors s) \<and> an_switches (c_anchors s') = an_switches (c_anchors s) \<and>
     an_governance (c_anchors s') = an_governance (c_anchors s) \<and> an_routing (c_anchors s') = an_routing (c_anchors s) \<and>
     an_health (c_anchors s') = an_health (c_anchors s) \<and>
     (directory_inv (directory s) \<longrightarrow> directory_inv (directory s'))"

lemma directory_effect_emit [simp]: "directory_effect s (emit ev s1) \<longleftrightarrow> directory_effect s s1"
  by (simp add: directory_effect_def)

lemma directory_effect_audit:
  assumes "audit_action e a ct t ov nv s1 = Inr s2"
  shows "directory_effect s s1 \<longrightarrow> directory_effect s s2"
  using audited_anchors [OF assms, of s] by (simp add: directory_effect_def)

lemma directory_effect_invalidate [simp]:
  "directory_effect s (snd (invalidate_cache_internal e a s1)) \<longleftrightarrow> directory_effect s s1"
  by (simp add: directory_effect_def)

lemma directory_effectI:
  "(directory_inv (directory s) \<Longrightarrow> directory_inv (f (directory s))) \<Longrightarrow> directory_effect s (with_directory f s)"
  by (simp add: directory_effect_def)

lemma directory_invD:
  assumes "directory_inv d"
  shows "distinct (get_or [] (di_list d))" "set (get_or [] (di_list d)) = dom (di_meta d)"
    "di_meta d a = Some m \<Longrightarrow> rm_anchor m = a"
    "di_meta d a = Some m \<Longrightarrow> \<exists>v. di_history d (a, get_or 0 (di_version_count d a)) = Some v \<and> same_metadata m v"
    "di_history d (a, i) \<noteq> None \<longleftrightarrow> 1 \<le> i \<and> i \<le> get_or 0 (di_version_count d a)"
    "di_history d (a, i) = Some v \<Longrightarrow> mv_version v = i"
  using assms unfolding directory_inv_def by blast+

text \<open>A new version of an anchor's metadata.\<close>

lemma new_version_inv:
  assumes inv: "directory_inv d" and n: "unat (get_or 0 (di_version_count d a)) + 1 < 2 ^ 32"
    "version = get_or 0 (di_version_count d a) + 1"
    and m: "rm_anchor m = a" "same_metadata m v" "mv_version v = version"
    and lst: "lst = (if a \<in> set (get_or [] (di_list d)) then di_list d else Some (get_or [] (di_list d) @ [a]))"
  shows "directory_inv (d\<lparr>di_meta := (di_meta d)(a \<mapsto> m), di_version_count := (di_version_count d)(a \<mapsto> version),
    di_history := (di_history d)((a, version) \<mapsto> v), di_list := lst\<rparr>)"
proof -
  let ?n = "get_or 0 (di_version_count d a)"
  have "unat version = unat ?n + 1" using n by (simp add: unat_word_ariths)
  then have le: "1 \<le> i \<and> i \<le> version \<longleftrightarrow> (1 \<le> i \<and> i \<le> ?n) \<or> i = version" for i
    by (auto simp: word_le_nat_alt word_unat_eq_iff)
  have lst': "distinct (get_or [] lst)" "set (get_or [] lst) = insert a (dom (di_meta d))"
    using directory_invD(1,2) [OF inv] by (auto simp: lst)
  have hist: "((di_history d)((a, version) \<mapsto> v)) (b, i) \<noteq> None \<longleftrightarrow>
      1 \<le> i \<and> i \<le> get_or 0 (((di_version_count d)(a \<mapsto> version)) b)" for b i
    using directory_invD(5) [OF inv, of b i] le [of i] by auto
  show ?thesis
    using inv lst' hist m unfolding directory_inv_def by auto
qed

lemma set_active_inv:
  assumes "directory_inv d" and "di_meta d a = Some m"
  shows "directory_inv (d\<lparr>di_meta := (di_meta d)(a \<mapsto> m\<lparr>rm_active := b\<rparr>)\<rparr>)"
proof -
  have "same_metadata (m\<lparr>rm_active := b\<rparr>) v = same_metadata m v" for v by (simp add: same_metadata_def)
  moreover have "insert a (dom (di_meta d)) = dom (di_meta d)" using assms(2) by auto
  ultimately show ?thesis using assms unfolding directory_inv_def by auto
qed

lemma directory_effect_version:
  assumes "set_anchor_metadata e a r t l u v s = Inr s'"
  shows "directory_effect s s'"
proof -
  let ?n = "get_or 0 (di_version_count (directory s) a)"
  let ?m = "\<lparr>rm_anchor = a, rm_reputation = r, rm_settlement = t, rm_liquidity = l, rm_uptime = u, rm_volume = v, rm_active = True\<rparr>"
  let ?v = "\<lparr>mv_version = ?n + 1, mv_updated_at = timestamp e, mv_reputation = r, mv_settlement = t,
      mv_liquidity = l, mv_uptime = u, mv_volume = v, mv_active = True\<rparr>"
  have "directory_effect s (with_directory (\<lambda>d. d\<lparr>di_meta := (di_meta d)(a \<mapsto> ?m),
      di_version_count := (di_version_count d)(a \<mapsto> ?n + 1), di_history := (di_history d)((a, ?n + 1) \<mapsto> ?v),
      di_list := (if a \<in> set (anchor_list s) then di_list d else Some (anchor_list s @ [a]))\<rparr>) s)"
    if "unat ?n + 1 < 2 ^ 32"
    using that
    by (intro directory_effectI new_version_inv) (simp_all add: same_metadata_def anchor_list_def)
  with assms show ?thesis
    by (auto simp: set_anchor_metadata_def bind_ok_Inr plus_trap_Inr get_anchor_meta_version_count_def Let_def
        split del: if_split)
qed

lemma directory_effect_metadata:
  "deactivate_anchor e a s = Inr s' \<Longrightarrow> directory_effect s s'"
  "reactivate_anchor e a s = Inr s' \<Longrightarrow> directory_effect s s'"
  by (auto simp: deactivate_anchor_def reactivate_anchor_def set_anchor_active_def
      bind_ok_Inr of_option_Inr anchor_meta_opt_def intro!: directory_effectI set_active_inv)

lemma directory_effect_blacklist:
  "blacklist_anchor e a why s = Inr s' \<Longrightarrow> directory_effect s s'"
  "remove_from_blacklist e a s = Inr s' \<Longrightarrow> directory_effect s s'"
proof -
  have add: "directory_effect s (with_directory (\<lambda>d. d\<lparr>di_blacklist := (di_blacklist d)(a \<mapsto> x),
      di_blacklist_index := Some (push_new a (get_blacklisted_anchors s))\<rparr>) s)" for x
    by (rule directory_effectI) (auto simp: directory_inv_def get_blacklisted_anchors_def)
  have del: "directory_effect s (with_directory (\<lambda>d. d\<lparr>di_blacklist := (di_blacklist d)(a := None),
      di_blacklist_index := Some (filter (\<lambda>b. b \<noteq> a) (get_blacklisted_anchors s))\<rparr>) s)"
    by (rule directory_effectI) (auto simp: directory_inv_def get_blacklisted_anchors_def split: if_split_asm)
  show "blacklist_anchor e a why s = Inr s' \<Longrightarrow> directory_effect s s'"
    using add by (auto simp: blacklist_anchor_def bind_ok_Inr Let_def dest!: directory_effect_audit [where s = s])
  show "remove_from_blacklist e a s = Inr s' \<Longrightarrow> directory_effect s s'"
    using del by (auto simp: remove_from_blacklist_def bind_ok_Inr Let_def dest!: directory_effect_audit [where s = s])
qed

lemma directory_effect_clusters:
  "create_anchor_cluster e i n xs s = Inr s' \<Longrightarrow> directory_effect s s'"
  "delete_anchor_cluster e i s = Inr s' \<Longrightarrow> directory_effect s s'"
  "update_anchor_cluster_anchors e i xs s = Inr s' \<Longrightarrow> directory_effect s s'"
  by (auto simp: create_anchor_cluster_def delete_anchor_cluster_def update_anchor_cluster_anchors_def
      get_anchor_cluster_def list_anchor_clusters_def bind_ok_Inr of_option_Inr directory_inv_def insert_absorb domI
      split: if_split_asm intro!: directory_effectI)

section \<open>History\<close>

text \<open>Under the invariant the history is a gap-free suffix that ends with the current metadata.\<close>

lemma version_range:
  fixes a
  assumes "directory_inv (directory s)"
  defines "n \<equiv> unat (get_anchor_meta_version_count s a)"
  shows "map mv_version (get_anchor_metadata_history s a) = map of_nat [Suc (n - 50)..<Suc n]"
proof -
  let ?N = "get_anchor_meta_version_count s a"
  let ?start = "if MAX_HISTORY < ?N then ?N - MAX_HISTORY + 1 else 1"
  have n32: "n < 2 ^ 32" using unat_lt_pow [of ?N] by (simp add: n_def)
  have start: "unat ?start = Suc (n - 50)"
  proof (cases "MAX_HISTORY < ?N")
    case True
    then have "unat (?N - MAX_HISTORY) = n - 50"
      by (simp add: n_def unat_sub MAX_HISTORY_def order.strict_implies_order)
    with True n32 show ?thesis by (simp add: unat_word_ariths)
  next
    case False
    then have "n \<le> 50" by (simp add: n_def MAX_HISTORY_def word_less_nat_alt)
    with False show ?thesis by simp
  qed
  have mf: "map mv_version (List.map_filter (\<lambda>v. di_history (directory s) (a, of_nat v)) vs) = map of_nat vs"
    if "\<forall>v \<in> set vs. 1 \<le> v \<and> v \<le> n" for vs
    using that
  proof (induction vs)
    case (Cons v vs)
    have "unat (of_nat v :: u32) = v" using Cons.prems n32 by (simp add: unsigned_of_nat take_bit_nat_eq_self)
    then have "(1 :: u32) \<le> of_nat v \<and> of_nat v \<le> ?N" using Cons.prems by (simp add: word_le_nat_alt n_def)
    then obtain x where x: "di_history (directory s) (a, of_nat v) = Some x"
      using directory_invD(5) [OF assms(1), of a "of_nat v"] by (auto simp: get_anchor_meta_version_count_def)
    with Cons directory_invD(6) [OF assms(1) x] show ?case by (simp add: List.map_filter_simps)
  qed (simp add: List.map_filter_simps)
  have "get_anchor_metadata_history s a =
      List.map_filter (\<lambda>v. di_history (directory s) (a, of_nat v)) [Suc (n - 50)..<Suc n]"
    unfolding get_anchor_metadata_history_def Let_def start n_def [symmetric] ..
  moreover have "\<forall>v \<in> set [Suc (n - 50)..<Suc n]. 1 \<le> v \<and> v \<le> n" by auto
  ultimately show ?thesis using mf by metis
qed

end
