(* ===== verification/Compliance_Policy.thy ===== *)
theory Compliance_Policy
  imports Prelude
begin

text \<open>
  \<^verbatim>\<open>src/compliance_policy.rs\<close>: the rules on KYC, compliance checks and scores, and the engine that
  evaluates a list of them in order.
\<close>

datatype kyc_state = KycStateNotSubmitted | KycStatePending | KycStateApproved | KycStateRejected | KycStateExpired | KycStateReopened

record policy_context =
  px_kyc :: kyc_state
  px_check_passed :: bool
  px_minimum_score :: "u32 option"
  px_subject_score :: "u32 option"
  px_require_kyc :: bool
  px_require_compliance :: bool

definition permissive :: policy_context where
  "permissive = \<lparr>px_kyc = KycStateNotSubmitted, px_check_passed = False, px_minimum_score = None,
     px_subject_score = None, px_require_kyc = False, px_require_compliance = False\<rparr>"

datatype denial_reason =
    DenyKycNotSubmitted | DenyKycPending | DenyKycRejected | DenyKycExpired | DenyComplianceCheckFailed
  | DenyScoreBelowMinimum u32 u32

primrec denial_message :: "denial_reason \<Rightarrow> string" where
  "denial_message DenyKycNotSubmitted = ''KYC has not been submitted''"
| "denial_message DenyKycPending = ''KYC verification is pending''"
| "denial_message DenyKycRejected = ''KYC verification was rejected''"
| "denial_message DenyKycExpired = ''KYC approval has expired''"
| "denial_message DenyComplianceCheckFailed = ''Compliance check record is missing or failed''"
| "denial_message (DenyScoreBelowMinimum required actual) =
     ''Compliance score '' @ decimal (unat actual) @ '' is below required minimum '' @ decimal (unat required)"

datatype policy_decision = Allow | Deny denial_reason

primrec is_denied :: "policy_decision \<Rightarrow> bool" where
  "is_denied Allow = False"
| "is_denied (Deny r) = True"

primrec decision_reason :: "policy_decision \<Rightarrow> denial_reason option" where
  "decision_reason Allow = None"
| "decision_reason (Deny r) = Some r"

section \<open>Rules\<close>

type_synonym policy_rule = "policy_context \<Rightarrow> policy_decision"

definition kyc_approved_rule :: policy_rule where
  "kyc_approved_rule ctx =
     (if \<not> px_require_kyc ctx then Allow
      else case px_kyc ctx of
        KycStateApproved \<Rightarrow> Allow
      | KycStateNotSubmitted \<Rightarrow> Deny DenyKycNotSubmitted
      | KycStatePending \<Rightarrow> Deny DenyKycPending
      | KycStateRejected \<Rightarrow> Deny DenyKycRejected
      | KycStateExpired \<Rightarrow> Deny DenyKycExpired
      | KycStateReopened \<Rightarrow> Deny DenyKycPending)"

definition compliance_check_passed_rule :: policy_rule where
  "compliance_check_passed_rule ctx =
     (if \<not> px_require_compliance ctx then Allow
      else if px_check_passed ctx then Allow else Deny DenyComplianceCheckFailed)"

definition minimum_score_rule :: policy_rule where
  "minimum_score_rule ctx =
     (if \<not> px_require_compliance ctx then Allow
      else case px_minimum_score ctx of
        None \<Rightarrow> Allow
      | Some required \<Rightarrow>
          (case px_subject_score ctx of
             None \<Rightarrow> if required = 0 then Allow else Deny (DenyScoreBelowMinimum required 0)
           | Some score \<Rightarrow> if required \<le> score then Allow else Deny (DenyScoreBelowMinimum required score)))"

section \<open>The engine\<close>

definition standard_rules :: "policy_rule list" where
  "standard_rules = [kyc_approved_rule, compliance_check_passed_rule, minimum_score_rule]"

fun evaluate_rules :: "policy_rule list \<Rightarrow> policy_context \<Rightarrow> policy_decision" where
  "evaluate_rules [] ctx = Allow"
| "evaluate_rules (r # rs) ctx = (let d = r ctx in if is_denied d then d else evaluate_rules rs ctx)"

definition evaluate_all :: "policy_rule list \<Rightarrow> policy_context \<Rightarrow> denial_reason list" where
  "evaluate_all rules ctx = List.map_filter (\<lambda>r. decision_reason (r ctx)) rules"

text \<open>The first denial decides.\<close>

lemma evaluate_rules_iff:
  "evaluate_rules rules ctx = (case evaluate_all rules ctx of [] \<Rightarrow> Allow | d # ds \<Rightarrow> Deny d)"
proof (induction rules)
  case (Cons r rs)
  then show ?case
    by (cases "r ctx") (simp_all add: evaluate_all_def List.map_filter_simps Let_def)
qed (simp add: evaluate_all_def List.map_filter_simps)

definition score_met :: "policy_context \<Rightarrow> bool" where
  "score_met ctx \<longleftrightarrow>
     (case px_minimum_score ctx of
        None \<Rightarrow> True
      | Some required \<Rightarrow> required \<le> get_or 0 (px_subject_score ctx))"

lemma standard_allows:
  "evaluate_rules standard_rules ctx = Allow \<longleftrightarrow>
     (px_require_kyc ctx \<longrightarrow> px_kyc ctx = KycStateApproved) \<and>
     (px_require_compliance ctx \<longrightarrow> px_check_passed ctx \<and> score_met ctx)"
  by (auto simp: standard_rules_def kyc_approved_rule_def compliance_check_passed_rule_def
      minimum_score_rule_def score_met_def Let_def split: kyc_state.split option.split)

end
