(* ===== verification/Float32.thy ===== *)
theory Float32
  imports Complex_Main Prelude "HOL-Library.Log_Nat"
begin

text \<open>
  Rust's \<open>f32\<close> as the repository uses it: a finite value is the rational number it denotes, and
  every operation rounds its exact result to 24 significant bits, ties to even.  The operands are
  integers of at most 64 bits and quotients of them, so no result of the source reaches the
  subnormal range or overflows, and the model has neither.
\<close>

type_synonym f32 = rat

section \<open>Rounding\<close>

definition two_pow :: "int \<Rightarrow> rat" where
  "two_pow k = (if 0 \<le> k then 2 ^ nat k else 1 / 2 ^ nat (- k))"

text \<open>The exponent of a positive rational: \<open>two_pow k \<le> q < two_pow (k + 1)\<close>.\<close>

definition exponent :: "rat \<Rightarrow> int" where
  "exponent q =
     (case quotient_of q of
        (a, b) \<Rightarrow> let k = bitlen a - bitlen b in if two_pow k \<le> q then k else k - 1)"

definition round_even :: "rat \<Rightarrow> int" where
  "round_even x =
     (let f = \<lfloor>x\<rfloor>; d = x - of_int f
      in if d < 1 / 2 then f else if 1 / 2 < d then f + 1 else if even f then f else f + 1)"

definition round_pos :: "rat \<Rightarrow> f32" where
  "round_pos q = (let s = exponent q - 23 in of_int (round_even (q / two_pow s)) * two_pow s)"

definition round32 :: "rat \<Rightarrow> f32" where
  "round32 q = (if q = 0 then 0 else if q < 0 then - round_pos (- q) else round_pos q)"

section \<open>Operations\<close>

definition f32_of_u32 :: "u32 \<Rightarrow> f32" where
  "f32_of_u32 w = round32 (of_nat (unat w))"

definition f32_of_u64 :: "u64 \<Rightarrow> f32" where
  "f32_of_u64 w = round32 (of_nat (unat w))"

definition f_add :: "f32 \<Rightarrow> f32 \<Rightarrow> f32" where
  "f_add x y = round32 (x + y)"

definition f_sub :: "f32 \<Rightarrow> f32 \<Rightarrow> f32" where
  "f_sub x y = round32 (x - y)"

definition f_mul :: "f32 \<Rightarrow> f32 \<Rightarrow> f32" where
  "f_mul x y = round32 (x * y)"

definition f_div :: "f32 \<Rightarrow> f32 \<Rightarrow> f32" where
  "f_div x y = round32 (x / y)"

definition f_clamp :: "f32 \<Rightarrow> f32 \<Rightarrow> f32 \<Rightarrow> f32" where
  "f_clamp x lo hi = (if x < lo then lo else if hi < x then hi else x)"

text \<open>\<open>as u32\<close> truncates and saturates.\<close>

definition f32_to_u32 :: "f32 \<Rightarrow> u32" where
  "f32_to_u32 x = (if x < 0 then 0 else if 2 ^ 32 \<le> \<lfloor>x\<rfloor> then word_top else word_of_int \<lfloor>x\<rfloor>)"

section \<open>Powers of two\<close>

lemma two_pow_pos [simp]: "0 < two_pow k"
  by (simp add: two_pow_def)

lemma two_pow_nonneg [simp]: "0 \<le> two_pow k"
  by (rule less_imp_le) simp

lemma two_pow_nonzero [simp]: "two_pow k \<noteq> 0"
  using two_pow_pos [of k] by (metis less_irrefl)

lemma two_pow_powi: "two_pow k = 2 powi k"
  by (simp add: two_pow_def power_int_def inverse_eq_divide power_one_over)

lemma two_pow_add: "two_pow (a + b) = two_pow a * two_pow b"
  by (simp add: two_pow_powi power_int_add)

lemma two_pow_mono: "a \<le> b \<Longrightarrow> two_pow a \<le> two_pow b"
  by (simp add: two_pow_powi power_int_increasing)

lemma two_pow_less_iff: "two_pow a < two_pow b \<longleftrightarrow> a < b"
proof
  assume "two_pow a < two_pow b"
  then show "a < b" using two_pow_mono [of b a] by linarith
next
  assume "a < b"
  then show "two_pow a < two_pow b" by (simp add: two_pow_powi power_int_strict_increasing)
qed

lemma two_pow_nat: "two_pow (int n) = 2 ^ n"
  by (simp add: two_pow_def)

section \<open>The exponent\<close>

lemma bitlen_bounds_rat:
  assumes "0 < a"
  shows "two_pow (bitlen a - 1) \<le> of_int a \<and> of_int a < two_pow (bitlen a)"
proof -
  have "a < 2 ^ nat (bitlen a)" using bitlen_bounds [OF assms] by simp
  then have "nat (bitlen a) \<noteq> 0" using assms by (intro notI) simp
  then obtain n where n: "bitlen a = int (Suc n)"
    by (metis int_nat_eq nat_le_0 not0_implies_Suc le_cases nat_0_le)
  have "2 ^ n \<le> a \<and> a < 2 ^ Suc n" using bitlen_bounds [OF assms] unfolding n by (simp add: nat_add_distrib)
  then have "(of_int (2 ^ n) :: rat) \<le> of_int a \<and> of_int a < (of_int (2 ^ Suc n) :: rat)"
    by (simp only: of_int_le_iff of_int_less_iff)
  then have "(2 :: rat) ^ n \<le> of_int a \<and> of_int a < (2 :: rat) ^ Suc n" by simp
  moreover have "bitlen a - 1 = int n" using n by simp
  ultimately show ?thesis by (simp only: n two_pow_nat)
qed

lemma exponent_bounds:
  assumes "0 < q"
  shows "two_pow (exponent q) \<le> q \<and> q < two_pow (exponent q + 1)"
proof -
  obtain a b where ab: "quotient_of q = (a, b)" by (cases "quotient_of q")
  have b: "0 < b" and q: "q = of_int a / of_int b"
    using quotient_of_denom_pos [OF ab] quotient_of_div [OF ab] by auto
  have a: "0 < a" using assms q b by (simp add: zero_less_divide_iff)
  let ?k = "bitlen a - bitlen b"
  note A = bitlen_bounds_rat [OF a] and B = bitlen_bounds_rat [OF b]
  have "of_int a < two_pow (?k + 1) * two_pow (bitlen b - 1)"
    using A by (simp flip: two_pow_add)
  also have "\<dots> \<le> two_pow (?k + 1) * of_int b"
    using B by (simp add: mult_left_mono)
  finally have hi: "q < two_pow (?k + 1)" using b by (simp add: q pos_divide_less_eq)
  have "two_pow (?k - 1) * of_int b \<le> two_pow (?k - 1) * two_pow (bitlen b)"
    using B by (simp add: mult_left_mono)
  also have "\<dots> = two_pow (bitlen a - 1)" by (simp flip: two_pow_add)
  also have "\<dots> \<le> of_int a" using A by simp
  finally have lo: "two_pow (?k - 1) \<le> q" using b by (simp add: q pos_le_divide_eq)
  show ?thesis
  proof (cases "two_pow ?k \<le> q")
    case True
    then have "exponent q = ?k" by (simp add: exponent_def ab)
    then show ?thesis using True hi by simp
  next
    case False
    then have "exponent q = ?k - 1" by (simp add: exponent_def ab)
    then show ?thesis using False lo by simp
  qed
qed

lemma exponent_mono:
  assumes "0 < q" "q \<le> r"
  shows "exponent q \<le> exponent r"
proof -
  have "two_pow (exponent q) \<le> q" "r < two_pow (exponent r + 1)"
    using exponent_bounds [of q] exponent_bounds [of r] assms by auto
  then have "two_pow (exponent q) < two_pow (exponent r + 1)" using assms by linarith
  then show ?thesis by (simp add: two_pow_less_iff)
qed

section \<open>Rounding is monotone\<close>

lemma round_even_bounds: "\<lfloor>x\<rfloor> \<le> round_even x \<and> round_even x \<le> \<lfloor>x\<rfloor> + 1"
  by (simp add: round_even_def Let_def)

lemma round_even_of_int [simp]: "round_even (of_int n) = n"
  by (simp add: round_even_def)

lemma round_even_mono:
  assumes "x \<le> y"
  shows "round_even x \<le> round_even y"
proof (cases "\<lfloor>x\<rfloor> = \<lfloor>y\<rfloor>")
  case True
  then show ?thesis using assms by (auto simp: round_even_def Let_def)
next
  case False
  then have "\<lfloor>x\<rfloor> + 1 \<le> \<lfloor>y\<rfloor>" using floor_mono [OF assms] by linarith
  then show ?thesis using round_even_bounds [of x] round_even_bounds [of y] by linarith
qed

lemma round_pos_bounds:
  assumes "0 < q"
  shows "two_pow (exponent q) \<le> round_pos q \<and> round_pos q \<le> two_pow (exponent q + 1)"
proof -
  let ?s = "exponent q - 23"
  have p24: "two_pow (exponent q + 1) = 2 ^ 24 * two_pow ?s"
    using two_pow_add [of 24 ?s] two_pow_nat [of 24] by (simp add: algebra_simps)
  have p23: "two_pow (exponent q) = 2 ^ 23 * two_pow ?s"
    using two_pow_add [of 23 ?s] two_pow_nat [of 23] by (simp add: algebra_simps)
  have "of_int (2 ^ 23) \<le> q / two_pow ?s" "q / two_pow ?s \<le> of_int (2 ^ 24)"
    using exponent_bounds [OF assms] by (simp_all add: pos_le_divide_eq pos_divide_le_eq p23 p24)
  then have "2 ^ 23 \<le> round_even (q / two_pow ?s)" "round_even (q / two_pow ?s) \<le> 2 ^ 24"
    by (metis round_even_mono round_even_of_int)+
  then have "(of_int (2 ^ 23) :: rat) \<le> of_int (round_even (q / two_pow ?s))"
    "(of_int (round_even (q / two_pow ?s)) :: rat) \<le> of_int (2 ^ 24)"
    by (simp_all only: of_int_le_iff)
  then show ?thesis
    unfolding round_pos_def Let_def p23 p24 by (simp add: mult_right_mono)
qed

lemma round_pos_mono:
  assumes "0 < q" "q \<le> r"
  shows "round_pos q \<le> round_pos r"
proof (cases "exponent q = exponent r")
  case True
  have "round_even (q / two_pow (exponent r - 23)) \<le> round_even (r / two_pow (exponent r - 23))"
    using assms by (intro round_even_mono divide_right_mono) simp_all
  then show ?thesis unfolding round_pos_def Let_def True by (simp add: mult_right_mono)
next
  case False
  then have "exponent q + 1 \<le> exponent r" using exponent_mono [OF assms] by simp
  then have "two_pow (exponent q + 1) \<le> two_pow (exponent r)" by (rule two_pow_mono)
  then show ?thesis
    using round_pos_bounds [OF assms(1)] round_pos_bounds [of r] assms by linarith
qed

lemma round_pos_positive: "0 < q \<Longrightarrow> 0 < round_pos q"
  using round_pos_bounds [of q] two_pow_pos [of "exponent q"] by linarith

lemma round32_mono: "q \<le> r \<Longrightarrow> round32 q \<le> round32 r"
proof -
  assume le: "q \<le> r"
  consider "0 < q" | "q = 0" | "q < 0" "r < 0" | "q < 0" "0 \<le> r" by linarith
  then show ?thesis
  proof cases
    case 1
    with le round_pos_mono show ?thesis by (simp add: round32_def)
  next
    case 2
    with le round_pos_positive [of r] show ?thesis by (auto simp: round32_def)
  next
    case 3
    with le round_pos_mono [of "- r" "- q"] show ?thesis by (simp add: round32_def)
  next
    case 4
    with round_pos_positive [of "- q"] round_pos_positive [of r] show ?thesis by (auto simp: round32_def)
  qed
qed

lemma round32_0 [simp]: "round32 0 = 0"
  by (simp add: round32_def)

text \<open>An integer of at most 24 bits is its own rounding.\<close>

lemma round32_of_nat:
  assumes "n < 2 ^ 24"
  shows "round32 (of_nat n) = of_nat n"
proof (cases "n = 0")
  case False
  let ?q = "of_nat n :: rat" and ?s = "exponent (of_nat n) - 23"
  have pos: "0 < ?q" using False by simp
  have "two_pow (exponent ?q) \<le> ?q" using exponent_bounds [OF pos] by simp
  also have "?q < two_pow 24" using assms two_pow_nat [of 24] by (metis of_nat_less_iff of_nat_numeral of_nat_power)
  finally have "?s \<le> 0" by (simp add: two_pow_less_iff)
  then have "?q / two_pow ?s = of_nat n * 2 ^ nat (- ?s)"
    by (auto simp: two_pow_def)
  also have "\<dots> = of_int (int n * 2 ^ nat (- ?s))" by simp
  finally have "round_even (?q / two_pow ?s) = int n * 2 ^ nat (- ?s)" by (metis round_even_of_int)
  then have "round_pos ?q = of_int (int n * 2 ^ nat (- ?s)) * two_pow ?s" by (simp add: round_pos_def)
  also have "\<dots> = ?q" using \<open>?s \<le> 0\<close> by (auto simp: two_pow_def)
  finally show ?thesis using pos by (simp add: round32_def)
qed simp

lemma round32_numeral [simp]: "round32 1 = 1" "round32 1000 = 1000" "round32 10000 = 10000"
  using round32_of_nat [of 1] round32_of_nat [of 1000] round32_of_nat [of 10000] by simp_all

text \<open>Results within bounds that are numbers of the format stay within them.\<close>

lemma round32_nonneg: "0 \<le> q \<Longrightarrow> 0 \<le> round32 q"
  using round32_mono [of 0 q] by simp

lemma round32_le_1: "q \<le> 1 \<Longrightarrow> round32 q \<le> 1"
  using round32_mono [of q 1] by simp

lemma f_div_le_1: "0 \<le> x \<Longrightarrow> x \<le> y \<Longrightarrow> f_div x y \<le> 1"
  by (cases "y = 0") (auto simp: f_div_def intro!: round32_le_1 simp: divide_le_eq)

lemma f_mono:
  "x \<le> x' \<Longrightarrow> y \<le> y' \<Longrightarrow> f_add x y \<le> f_add x' y'"
  "0 \<le> x \<Longrightarrow> y \<le> y' \<Longrightarrow> f_mul x y \<le> f_mul x y'"
  "0 \<le> z \<Longrightarrow> x \<le> x' \<Longrightarrow> f_div x z \<le> f_div x' z"
  "x \<le> x' \<Longrightarrow> y' \<le> y \<Longrightarrow> f_sub x y \<le> f_sub x' y'"
  unfolding f_add_def f_mul_def f_div_def f_sub_def
  by (auto intro!: round32_mono add_mono mult_left_mono divide_right_mono diff_mono)

lemma f_nonneg:
  "0 \<le> x \<Longrightarrow> 0 \<le> y \<Longrightarrow> 0 \<le> f_add x y" "0 \<le> x \<Longrightarrow> 0 \<le> y \<Longrightarrow> 0 \<le> f_mul x y"
  "0 \<le> x \<Longrightarrow> 0 \<le> y \<Longrightarrow> 0 \<le> f_div x y" "0 \<le> f32_of_u32 w" "0 \<le> f32_of_u64 v"
  unfolding f_add_def f_mul_def f_div_def f32_of_u32_def f32_of_u64_def
  by (auto intro!: round32_nonneg simp del: of_nat_unat)

lemma f32_of_mono:
  "v \<le> w \<Longrightarrow> f32_of_u32 v \<le> f32_of_u32 w" "a \<le> b \<Longrightarrow> f32_of_u64 a \<le> f32_of_u64 b"
  unfolding f32_of_u32_def f32_of_u64_def
  by (auto intro!: round32_mono simp: word_le_nat_alt simp del: of_nat_unat)

lemma f_clamp_bounds: "lo \<le> hi \<Longrightarrow> lo \<le> f_clamp x lo hi \<and> f_clamp x lo hi \<le> hi"
  by (simp add: f_clamp_def)

lemma f_clamp_mono: "lo \<le> hi \<Longrightarrow> x \<le> y \<Longrightarrow> f_clamp x lo hi \<le> f_clamp y lo hi"
  by (auto simp: f_clamp_def)

lemma f32_to_u32_mono: "x \<le> y \<Longrightarrow> f32_to_u32 x \<le> f32_to_u32 y"
proof -
  assume le: "x \<le> y"
  have unat_in: "unat (word_of_int n :: u32) = nat n" if "0 \<le> n" "n < 2 ^ 32" for n :: int
    using that by (simp add: unsigned_of_int take_bit_int_eq_self)
  show ?thesis
    using le floor_mono [OF le]
    by (auto simp: f32_to_u32_def unat_in not_less not_le word_le_nat_alt [of "word_of_int _"] intro: nat_mono)
qed

lemma f32_to_u32_le:
  assumes "x \<le> of_nat n" and "n < 2 ^ 32"
  shows "unat (f32_to_u32 x) \<le> n"
proof (cases "x < 0")
  case False
  have le: "\<lfloor>x\<rfloor> \<le> int n" using assms(1) by (metis floor_mono floor_of_nat)
  also have "int n < 2 ^ 32" using assms(2) by simp
  finally have lt: "\<lfloor>x\<rfloor> < 2 ^ 32" .
  have "unat (word_of_int \<lfloor>x\<rfloor> :: u32) = nat \<lfloor>x\<rfloor>"
    using False lt by (simp add: unsigned_of_int take_bit_int_eq_self del: floor_less_numeral)
  moreover have "f32_to_u32 x = word_of_int \<lfloor>x\<rfloor>" using False lt unfolding f32_to_u32_def by presburger
  ultimately show ?thesis using le by simp
qed (simp add: f32_to_u32_def)

text \<open>The error of one rounding near one.\<close>

lemma round_even_error: "\<bar>of_int (round_even x) - x\<bar> \<le> 1 / 2"
proof -
  have "of_int \<lfloor>x\<rfloor> \<le> x" "x < of_int \<lfloor>x\<rfloor> + 1" by linarith+
  then show ?thesis by (auto simp: round_even_def Let_def)
qed

lemma round_pos_error: "\<bar>round_pos q - q\<bar> \<le> two_pow (exponent q - 23) / 2"
proof -
  let ?t = "two_pow (exponent q - 23)" and ?r = "of_int (round_even (q / two_pow (exponent q - 23))) :: rat"
  have "round_pos q - q = (?r - q / ?t) * ?t" by (simp add: round_pos_def Let_def left_diff_distrib)
  then have "\<bar>round_pos q - q\<bar> = \<bar>?r - q / ?t\<bar> * ?t" by (simp add: abs_mult)
  also have "\<dots> \<le> 1 / 2 * ?t" by (intro mult_right_mono round_even_error) simp
  finally show ?thesis by simp
qed

lemma round32_error:
  assumes "\<bar>q\<bar> < 2"
  shows "\<bar>round32 q - q\<bar> \<le> 1 / 2 ^ 24"
proof -
  have pos: "\<bar>round_pos x - x\<bar> \<le> 1 / 2 ^ 24" if "0 < x" "x < 2" for x
  proof -
    have "two_pow (exponent x) \<le> x" using exponent_bounds [OF that(1)] by simp
    also have "x < two_pow 1" using that(2) two_pow_nat [of 1] by simp
    finally have "two_pow (exponent x - 23) \<le> two_pow (- 23)" by (intro two_pow_mono) (simp add: two_pow_less_iff)
    moreover have "two_pow (- 23) = 1 / 2 ^ 23" by (simp add: two_pow_def)
    ultimately show ?thesis using round_pos_error [of x] by simp
  qed
  have neg: "\<bar>- round_pos (- q) - q\<bar> = \<bar>round_pos (- q) - (- q)\<bar>" by (simp add: abs_if)
  show ?thesis
    using pos [of q] pos [of "- q"] assms by (auto simp: round32_def neg)
qed

end
