(* ===== verification/Contract_Routing.thy ===== *)
theory Contract_Routing
  imports Contract_Directory Contract_Services Contract_Quotes Contract_Kyc Compliance_Policy Float32
    "HOL-Library.Product_Lexorder" "HOL-Library.List_Lexorder" "HOL-Library.Char_ord"
begin

text \<open>
  Routing of \<^verbatim>\<open>src/contract.rs\<close>: which quotes compete for a request, the strategies that choose
  among them, the ranking of anchors, reputation, the policies by time of day and by network, and the
  compliance policy.
\<close>

abbreviation with_routing :: "(routing_store \<Rightarrow> routing_store) \<Rightarrow> contract \<Rightarrow> contract" where
  "with_routing f s \<equiv> s\<lparr>c_anchors := (c_anchors s)\<lparr>an_routing := f (an_routing (c_anchors s))\<rparr>\<rparr>"

abbreviation routing :: "contract \<Rightarrow> routing_store" where
  "routing s \<equiv> an_routing (c_anchors s)"

section \<open>Requests and candidates\<close>

record routing_request =
  rq_base_asset :: string
  rq_quote_asset :: string
  rq_amount :: u64
  rq_operation_type :: u32

record routing_options =
  op_request :: routing_request
  op_strategy :: "string list"
  op_min_reputation :: u32
  op_max_anchors :: u32
  op_require_kyc :: bool
  op_require_compliance :: bool
  op_subject :: address
  op_fee_weight :: u32
  op_speed_weight :: u32
  op_reputation_weight :: u32

text \<open>The tests on a quote that both routing paths make; \<open>lc\<close> is the stored lifecycle state.\<close>

definition quote_serves :: "u64 \<Rightarrow> routing_request \<Rightarrow> u32 \<Rightarrow> quote \<Rightarrow> bool" where
  "quote_serves now rq lc q \<longleftrightarrow>
     \<not> (qu_base_asset q \<noteq> rq_base_asset rq \<or> qu_quote_asset q \<noteq> rq_quote_asset rq) \<and>
     \<not> qu_valid_until q \<le> now \<and>
     lc \<noteq> lifecycle_u32 QuoteInvalidated \<and>
     \<not> (rq_amount rq < qu_minimum_amount q \<or>
        (qu_maximum_amount q \<noteq> 0 \<and> qu_maximum_amount q < rq_amount rq))"

definition lifecycle_code :: "contract \<Rightarrow> address \<Rightarrow> u64 \<Rightarrow> u32" where
  "lifecycle_code s anchor i = get_or 0 (quo_lifecycle (c_quotes s) (anchor, i))"

definition candidate_quote :: "env \<Rightarrow> routing_options \<Rightarrow> contract \<Rightarrow> address \<Rightarrow> quote option" where
  "candidate_quote e opts s anchor =
     (if is_anchor_blacklisted s anchor then None
      else case anchor_meta_opt s anchor of
        None \<Rightarrow> None
      | Some meta \<Rightarrow>
          if \<not> rm_active meta then None
          else if rm_reputation meta < op_min_reputation opts then None
          else case latest_quote s anchor of
            None \<Rightarrow> None
          | Some q \<Rightarrow>
              if \<not> advertises_quote_service s anchor then None
              else if quote_serves (timestamp e) (op_request opts) (lifecycle_code s anchor (qu_quote_id q)) q
              then Some q else None)"

definition candidates :: "env \<Rightarrow> routing_options \<Rightarrow> contract \<Rightarrow> quote list" where
  "candidates e opts s = List.map_filter (candidate_quote e opts s) (anchor_list s)"

section \<open>Strategies\<close>

text \<open>The loop that keeps the best quote so far and replaces it by a strictly better one.\<close>

definition best_by :: "('k \<Rightarrow> 'k \<Rightarrow> bool) \<Rightarrow> (quote \<Rightarrow> 'k) \<Rightarrow> quote list \<Rightarrow> quote" where
  "best_by better key qs = fold (\<lambda>q best. if better (key q) (key best) then q else best) qs (hd qs)"

definition settlement_of :: "contract \<Rightarrow> quote \<Rightarrow> u64" where
  "settlement_of s q = (case anchor_meta_opt s (qu_anchor q) of None \<Rightarrow> word_top | Some m \<Rightarrow> rm_settlement m)"

definition reputation_of :: "contract \<Rightarrow> quote \<Rightarrow> u32" where
  "reputation_of s q = (case anchor_meta_opt s (qu_anchor q) of None \<Rightarrow> 0 | Some m \<Rightarrow> rm_reputation m)"

text \<open>The normalisation bounds: fees over all candidates, the others over those with metadata.\<close>

definition known_settlement :: "contract \<Rightarrow> quote \<Rightarrow> u64" where
  "known_settlement s q = (case anchor_meta_opt s (qu_anchor q) of None \<Rightarrow> 0 | Some m \<Rightarrow> rm_settlement m)"

definition max_of :: "('a \<Rightarrow> 'w::len word) \<Rightarrow> 'a list \<Rightarrow> 'w word" where
  "max_of f xs = fold (\<lambda>x m. if m < f x then f x else m) xs 0"

definition fee_score :: "u32 \<Rightarrow> u32 \<Rightarrow> f32" where
  "fee_score fee max_fee =
     (if max_fee = 0 then 1 else f_sub 1 (f_div (f32_of_u32 fee) (f32_of_u32 max_fee)))"

definition speed_score :: "u64 \<Rightarrow> u64 \<Rightarrow> f32" where
  "speed_score t max_t = (if max_t = 0 then 1 else f_sub 1 (f_div (f32_of_u64 t) (f32_of_u64 max_t)))"

definition rep_score :: "u32 \<Rightarrow> u32 \<Rightarrow> f32" where
  "rep_score r max_r = (if max_r = 0 then 0 else f_div (f32_of_u32 r) (f32_of_u32 max_r))"

definition weighted_sum :: "f32 \<Rightarrow> f32 \<Rightarrow> f32 \<Rightarrow> f32 \<Rightarrow> f32 \<Rightarrow> f32 \<Rightarrow> f32" where
  "weighted_sum fw sw rw f sp r = f_add (f_add (f_mul fw f) (f_mul sw sp)) (f_mul rw r)"

definition per_mille :: "u32 \<Rightarrow> f32" where
  "per_mille w = f_div (f32_of_u32 w) 1000"

definition weighted_score :: "contract \<Rightarrow> routing_options \<Rightarrow> quote list \<Rightarrow> quote \<Rightarrow> f32" where
  "weighted_score s opts qs q =
     weighted_sum (per_mille (op_fee_weight opts)) (per_mille (op_speed_weight opts))
       (per_mille (op_reputation_weight opts))
       (fee_score (qu_fee_percentage q) (max_of qu_fee_percentage qs))
       (speed_score (settlement_of s q) (max_of (known_settlement s) qs))
       (rep_score (reputation_of s q) (max_of (reputation_of s) qs))"

definition choose_quote :: "contract \<Rightarrow> routing_options \<Rightarrow> string \<Rightarrow> quote list \<Rightarrow> quote" where
  "choose_quote s opts strategy qs =
     (if strategy = ''LowestFee'' then best_by (<) qu_fee_percentage qs
      else if strategy = ''FastestSettlement'' then best_by (<) (settlement_of s) qs
      else if strategy = ''HighestReputation'' then best_by (>) (reputation_of s) qs
      else if strategy = ''WeightedScore'' then best_by (>) (weighted_score s opts qs) qs
      else hd qs)"

section \<open>Routing a transaction\<close>

definition route_transaction :: "env \<Rightarrow> routing_options \<Rightarrow> contract \<Rightarrow> trap + (quote \<times> contract)" where
  "route_transaction e opts s =
     bind_ok (validate_currency_code (rq_base_asset (op_request opts))) (\<lambda>_.
     bind_ok (validate_currency_code (rq_quote_asset (op_request opts))) (\<lambda>_.
       let qs = candidates e opts s in
       if qs = [] then Inl (Panic NoQuotesAvailable)
       else
         let passed = (case comp_latest (c_kyc s) (op_subject opts, ''kyc'') of
                         None \<Rightarrow> False | Some r \<Rightarrow> cc_result r = 1) in
         if op_require_compliance opts \<and> \<not> passed then Inl (Panic ComplianceNotMet)
         else
     bind_ok (if op_require_kyc opts then require_kyc_approved e (op_subject opts) s else Inr ()) (\<lambda>_.
       case op_strategy opts of
         [] \<Rightarrow> Inl (Panic NoQuotesAvailable)
       | strategy # _ \<Rightarrow>
           let best = choose_quote s opts strategy qs
           in Inr (best, emit (EvRouteSelected (qu_quote_id best) (timestamp e)) s))))"

definition preferred_quote :: "env \<Rightarrow> routing_options \<Rightarrow> contract \<Rightarrow> address \<Rightarrow> quote option" where
  "preferred_quote e opts s anchor =
     (if is_anchor_blacklisted s anchor then None
      else case anchor_meta_opt s anchor of
        None \<Rightarrow> None
      | Some meta \<Rightarrow>
          if \<not> rm_active meta then None
          else case quo_latest (c_quotes s) anchor of
            None \<Rightarrow> None
          | Some i \<Rightarrow>
              (case quo_quotes (c_quotes s) (anchor, i) of
                 None \<Rightarrow> None
               | Some q \<Rightarrow>
                   if quote_serves (timestamp e) (op_request opts) (lifecycle_code s anchor i) q
                   then Some q else None))"

definition route_with_fallback ::
    "env \<Rightarrow> routing_options \<Rightarrow> address \<Rightarrow> contract \<Rightarrow> trap + (quote \<times> contract)" where
  "route_with_fallback e opts preferred s =
     bind_ok (validate_currency_code (rq_base_asset (op_request opts))) (\<lambda>_.
     bind_ok (validate_currency_code (rq_quote_asset (op_request opts))) (\<lambda>_.
       case preferred_quote e opts s preferred of
         Some q \<Rightarrow> Inr (q, emit (EvQuoteRouted (qu_quote_id q)) s)
       | None \<Rightarrow> route_transaction e opts (emit EvQuoteFallback s)))"

section \<open>Ranking by weights\<close>

record weighted_routing_strategy =
  ws_fee :: f32
  ws_speed :: f32
  ws_reputation :: f32

definition WEIGHT_SUM_TOLERANCE :: f32 where "WEIGHT_SUM_TOLERANCE = round32 (1 / 100)"

definition ANOMALY_SCORE_PENALTY :: f32 where "ANOMALY_SCORE_PENALTY = round32 (1 / 5)"

definition validate_strategy :: "weighted_routing_strategy \<Rightarrow> bool" where
  "validate_strategy w \<longleftrightarrow>
     (if ws_fee w < 0 \<or> ws_speed w < 0 \<or> ws_reputation w < 0 then False
      else \<bar>f_sub (f_add (f_add (ws_fee w) (ws_speed w)) (ws_reputation w)) 1\<bar> < WEIGHT_SUM_TOLERANCE)"

text \<open>\<open>anomalous\<close> lists the identifiers of the report, when there is one.\<close>

definition score_anchor_with_anomaly ::
    "weighted_routing_strategy \<Rightarrow> u32 \<Rightarrow> u64 \<Rightarrow> u32 \<Rightarrow> u32 \<Rightarrow> u64 \<Rightarrow> u32 \<Rightarrow> string option \<Rightarrow>
     string list option \<Rightarrow> f32" where
  "score_anchor_with_anomaly w fee settlement reputation max_fee max_settlement max_reputation anchor_id anomalous =
     (let base = weighted_sum (ws_fee w) (ws_speed w) (ws_reputation w) (fee_score fee max_fee)
            (speed_score settlement max_settlement) (rep_score reputation max_reputation);
          penalty = (case (anchor_id, anomalous) of
             (Some i, Some report) \<Rightarrow> if i \<in> set report then ANOMALY_SCORE_PENALTY else 0
           | _ \<Rightarrow> 0)
      in f_clamp (f_sub base penalty) 0 1)"

definition score_anchor ::
    "weighted_routing_strategy \<Rightarrow> u32 \<Rightarrow> u64 \<Rightarrow> u32 \<Rightarrow> u32 \<Rightarrow> u64 \<Rightarrow> u32 \<Rightarrow> f32" where
  "score_anchor w fee settlement reputation max_fee max_settlement max_reputation =
     score_anchor_with_anomaly w fee settlement reputation max_fee max_settlement max_reputation None None"

text \<open>The anchors that take part, with their metadata and latest quote.\<close>

definition ranked_entry :: "env \<Rightarrow> u32 \<Rightarrow> contract \<Rightarrow> address \<Rightarrow> (routing_anchor_meta \<times> quote) option" where
  "ranked_entry e min_reputation s anchor =
     (case anchor_meta_opt s anchor of
        None \<Rightarrow> None
      | Some m \<Rightarrow>
          if rm_active m \<and> min_reputation \<le> rm_reputation m
          then case latest_quote s anchor of
                 None \<Rightarrow> None
               | Some q \<Rightarrow> if qu_valid_until q \<le> timestamp e then None else Some (m, q)
          else None)"

text \<open>\<open>sort_unstable_by\<close> leaves the order of equal scores open: the sort is a parameter, and
  \<open>sorts_by_score\<close> is what its documentation promises.\<close>

type_synonym score_sort = "(u32 \<times> quote) list \<Rightarrow> (u32 \<times> quote) list"

definition sorts_by_score :: "score_sort \<Rightarrow> bool" where
  "sorts_by_score srt \<longleftrightarrow>
     (\<forall>xs. (\<forall>x. count_list (srt xs) x = count_list xs x) \<and> sorted_wrt (\<lambda>a b. fst b \<le> fst a) (srt xs))"

definition scaled_score :: "f32 \<Rightarrow> u32" where
  "scaled_score x = f32_to_u32 (f_mul (f_clamp x 0 1) 1000000)"

definition score_entries :: "weighted_routing_strategy \<Rightarrow> (routing_anchor_meta \<times> quote) list \<Rightarrow> (u32 \<times> quote) list" where
  "score_entries w entries =
     (let max_fee = max_of (\<lambda>(m, q). qu_fee_percentage q) entries;
          max_settlement = max_of (\<lambda>(m, q). rm_settlement m) entries;
          max_reputation = max_of (\<lambda>(m, q). rm_reputation m) entries
      in map (\<lambda>(m, q). (scaled_score (score_anchor w (qu_fee_percentage q) (rm_settlement m) (rm_reputation m)
              max_fee max_settlement max_reputation), q)) entries)"

definition weights_sum_1000 :: "u32 \<Rightarrow> u32 \<Rightarrow> u32 \<Rightarrow> bool" where
  "weights_sum_1000 a b c \<longleftrightarrow> Option.bind (checked_add a b) (\<lambda>x. checked_add x c) = Some 1000"

definition route_anchors ::
    "score_sort \<Rightarrow> env \<Rightarrow> u32 \<Rightarrow> u32 \<Rightarrow> u32 \<Rightarrow> u32 \<Rightarrow> u32 \<Rightarrow> contract \<Rightarrow> trap + quote list" where
  "route_anchors srt e fee_weight speed_weight reputation_weight max_results min_reputation s =
     (if \<not> weights_sum_1000 fee_weight speed_weight reputation_weight then Inl (Panic InvalidWeights)
      else
        let w = \<lparr>ws_fee = per_mille fee_weight, ws_speed = per_mille speed_weight,
                 ws_reputation = per_mille reputation_weight\<rparr> in
        if \<not> validate_strategy w then Inl (Panic InvalidWeights)
        else
          let scored = srt (score_entries w (List.map_filter (ranked_entry e min_reputation s) (anchor_list s)));
              limit = (if max_results = 0 then 2 ^ 32 - 1 else unat max_results)
          in Inr (map snd (take limit scored)))"

section \<open>Reputation\<close>

definition default_weights :: reputation_weights where
  "default_weights = \<lparr>rw_success = 400, rw_uptime = 350, rw_quality = 250\<rparr>"

definition compute_composite :: "reputation_weights \<Rightarrow> anchor_reputation_record \<Rightarrow> u32" where
  "compute_composite w r =
     (let success_rate = (if rr_total_routed r = 0 then 1
            else f_div (f32_of_u64 (min (rr_successful_routed r) (rr_total_routed r))) (f32_of_u64 (rr_total_routed r)));
          uptime_rate = (if rr_total_ticks r = 0 then 1
            else f_div (f32_of_u64 (min (rr_uptime_ticks r) (rr_total_ticks r))) (f32_of_u64 (rr_total_ticks r)));
          quality_rate = f_div (f32_of_u32 (min (rr_quality_score r) 10000)) 10000;
          composite = weighted_sum (per_mille (rw_success w)) (per_mille (rw_uptime w)) (per_mille (rw_quality w))
            success_rate uptime_rate quality_rate
      in f32_to_u32 (f_mul (f_clamp composite 0 1) 10000))"

definition set_anchor_reputation ::
    "env \<Rightarrow> address \<Rightarrow> u64 \<Rightarrow> u64 \<Rightarrow> u32 \<Rightarrow> u64 \<Rightarrow> u64 \<Rightarrow> contract \<Rightarrow> trap + contract" where
  "set_anchor_reputation e anchor total_routed successful quality uptime_ticks total_ticks s =
     bind_ok (require_admin e s) (\<lambda>_.
       if total_routed < successful then Inl (Panic ValidationError)
       else if 10000 < quality then Inl (Panic ValidationError)
       else
         let record = \<lparr>rr_anchor = anchor, rr_total_routed = total_routed, rr_successful_routed = successful,
               rr_quality_score = quality, rr_uptime_ticks = uptime_ticks, rr_total_ticks = total_ticks,
               rr_updated_at = timestamp e\<rparr>
         in Inr (emit (EvRepUpdated anchor)
              (with_routing (\<lambda>r. r\<lparr>ro_records := (ro_records r)(anchor \<mapsto> record)\<rparr>) s)))"

definition get_anchor_reputation :: "contract \<Rightarrow> address \<Rightarrow> anchor_reputation_record option" where
  "get_anchor_reputation s anchor = ro_records (routing s) anchor"

definition set_reputation_weights :: "env \<Rightarrow> u32 \<Rightarrow> u32 \<Rightarrow> u32 \<Rightarrow> contract \<Rightarrow> trap + contract" where
  "set_reputation_weights e success uptime quality s =
     bind_ok (require_admin e s) (\<lambda>_.
       if \<not> weights_sum_1000 success uptime quality then Inl (Panic InvalidWeights)
       else Inr (with_routing (\<lambda>r. r\<lparr>ro_weights :=
              Some \<lparr>rw_success = success, rw_uptime = uptime, rw_quality = quality\<rparr>\<rparr>) s))"

definition get_reputation_weights :: "contract \<Rightarrow> reputation_weights" where
  "get_reputation_weights s = get_or default_weights (ro_weights (routing s))"

definition get_anchor_composite_reputation :: "contract \<Rightarrow> address \<Rightarrow> u32" where
  "get_anchor_composite_reputation s anchor =
     (case ro_records (routing s) anchor of
        None \<Rightarrow> 0
      | Some record \<Rightarrow> compute_composite (get_reputation_weights s) record)"

text \<open>
  The comparison is by descending composite and then by the XDR encoding of the address (a parameter:
  the host's).  Equal keys belong to equal addresses, so the unstable sort has one result.
\<close>

definition rank_key :: "(address \<Rightarrow> bytes) \<Rightarrow> contract \<Rightarrow> address \<Rightarrow> int \<times> bytes" where
  "rank_key to_xdr s a = (- uint (get_anchor_composite_reputation s a), to_xdr a)"

definition rank_anchors_by_reputation :: "(address \<Rightarrow> bytes) \<Rightarrow> contract \<Rightarrow> address list" where
  "rank_anchors_by_reputation to_xdr s = sort_key (rank_key to_xdr s) (anchor_list s)"

section \<open>Policies by time of day\<close>

definition window_is_active :: "routing_time_window \<Rightarrow> u32 \<Rightarrow> bool" where
  "window_is_active w t \<longleftrightarrow>
     (if tw_start w = tw_end w then True
      else if tw_start w < tw_end w then tw_start w \<le> t \<and> t < tw_end w
      else tw_start w \<le> t \<or> t < tw_end w)"

definition policy_count :: "contract \<Rightarrow> u64" where
  "policy_count s = get_or 0 (ro_policy_count (routing s))"

definition register_timed_routing_policy ::
    "env \<Rightarrow> string \<Rightarrow> string \<Rightarrow> u32 \<Rightarrow> u32 \<Rightarrow> u32 \<Rightarrow> contract \<Rightarrow> trap + (u64 \<times> contract)" where
  "register_timed_routing_policy e name strategy_name window_start window_end priority s =
     bind_ok (require_admin e s) (\<lambda>_.
       if strategy_name = [] then Inl (Panic ValidationError)
       else if 86400 \<le> window_start \<or> 86400 \<le> window_end then Inl (Panic ValidationError)
       else
         bind_ok (plus_trap (policy_count s) 1) (\<lambda>next_id.
           let policy = \<lparr>tp_id = next_id, tp_name = name, tp_strategy = strategy_name,
                 tp_window = \<lparr>tw_start = window_start, tw_end = window_end\<rparr>, tp_priority = priority,
                 tp_enabled = True\<rparr>
           in Inr (next_id, emit (EvPolicyAdded next_id)
                (with_routing (\<lambda>r. r\<lparr>ro_policies := (ro_policies r)(next_id \<mapsto> policy),
                   ro_policy_count := Some next_id\<rparr>) s))))"

definition set_timed_policy_enabled :: "env \<Rightarrow> u64 \<Rightarrow> bool \<Rightarrow> contract \<Rightarrow> trap + contract" where
  "set_timed_policy_enabled e policy_id enabled s =
     bind_ok (require_admin e s) (\<lambda>_.
     bind_ok (of_option (Panic ValidationError) (ro_policies (routing s) policy_id)) (\<lambda>policy.
       Inr (with_routing (\<lambda>r. r\<lparr>ro_policies := (ro_policies r)(policy_id \<mapsto> policy\<lparr>tp_enabled := enabled\<rparr>)\<rparr>) s)))"

definition get_timed_routing_policy :: "contract \<Rightarrow> u64 \<Rightarrow> timed_routing_policy option" where
  "get_timed_routing_policy s policy_id = ro_policies (routing s) policy_id"

definition better_policy ::
    "contract \<Rightarrow> u32 \<Rightarrow> u64 \<Rightarrow> (u32 \<times> u64 \<times> string) option \<Rightarrow> (u32 \<times> u64 \<times> string) option" where
  "better_policy s time_of_day i best =
     (case ro_policies (routing s) i of
        None \<Rightarrow> best
      | Some p \<Rightarrow>
          if \<not> tp_enabled p then best
          else if \<not> window_is_active (tp_window p) time_of_day then best
          else
            let better = (case best of
                  None \<Rightarrow> True
                | Some (best_prio, best_id, _) \<Rightarrow>
                    tp_priority p < best_prio \<or> (tp_priority p = best_prio \<and> i < best_id))
            in if better then Some (tp_priority p, i, tp_strategy p) else best)"

definition get_active_routing_policy :: "contract \<Rightarrow> u64 \<Rightarrow> string option" where
  "get_active_routing_policy s unix_timestamp =
     (let time_of_day = ucast (unix_timestamp mod 86400)
      in map_option (\<lambda>(_, _, strategy). strategy)
           (fold (better_policy s time_of_day) (ids_between 1 (policy_count s)) None))"

section \<open>Policies by network\<close>

definition register_network_routing_profile ::
    "env \<Rightarrow> string \<Rightarrow> string \<Rightarrow> u32 \<Rightarrow> u32 \<Rightarrow> u32 \<Rightarrow> u32 \<Rightarrow> bool \<Rightarrow> contract \<Rightarrow> trap + contract" where
  "register_network_routing_profile e network default_strategy fee speed reputation min_reputation is_default s =
     bind_ok (require_admin e s) (\<lambda>_.
       if network = [] then Inl (Panic ValidationError)
       else if default_strategy = [] then Inl (Panic ValidationError)
       else if \<not> weights_sum_1000 fee speed reputation then Inl (Panic InvalidWeights)
       else
         let profile = \<lparr>np_network = network, np_strategy = default_strategy, np_fee_weight = fee,
               np_speed_weight = speed, np_reputation_weight = reputation,
               np_min_reputation = min_reputation, np_is_default = is_default\<rparr>
         in Inr (emit (EvNetworkProfile network)
              (with_routing (\<lambda>r. r\<lparr>ro_default := (if is_default then Some network else ro_default r),
                 ro_profiles := (ro_profiles r)(network \<mapsto> profile)\<rparr>) s)))"

definition set_active_network :: "env \<Rightarrow> string \<Rightarrow> contract \<Rightarrow> trap + contract" where
  "set_active_network e network s =
     bind_ok (require_admin e s) (\<lambda>_.
       if network = [] then Inl (Panic ValidationError)
       else Inr (with_routing (\<lambda>r. r\<lparr>ro_active := Some network\<rparr>) s))"

definition get_active_network :: "contract \<Rightarrow> string option" where
  "get_active_network s = ro_active (routing s)"

definition get_network_routing_profile :: "contract \<Rightarrow> string \<Rightarrow> network_routing_profile option" where
  "get_network_routing_profile s network = ro_profiles (routing s) network"

definition get_routing_profile :: "contract \<Rightarrow> network_routing_profile option" where
  "get_routing_profile s =
     (case Option.bind (ro_active (routing s)) (ro_profiles (routing s)) of
        Some profile \<Rightarrow> Some profile
      | None \<Rightarrow>
          (case Option.bind (ro_default (routing s)) (ro_profiles (routing s)) of
             None \<Rightarrow> None
           | Some profile \<Rightarrow> if np_is_default profile then Some profile else None))"

section \<open>Compliance policy\<close>

definition set_compliance_policy :: "env \<Rightarrow> u32 option \<Rightarrow> contract \<Rightarrow> trap + contract" where
  "set_compliance_policy e minimum_score s =
     bind_ok (require_admin e s) (\<lambda>_. Inr (with_routing (\<lambda>r. r\<lparr>ro_compliance := Some minimum_score\<rparr>) s))"

definition get_compliance_policy :: "contract \<Rightarrow> u32 option" where
  "get_compliance_policy s = get_or None (ro_compliance (routing s))"

primrec policy_kyc_state :: "kyc_status \<Rightarrow> kyc_state" where
  "policy_kyc_state Approved = KycStateApproved"
| "policy_kyc_state Pending = KycStatePending"
| "policy_kyc_state Rejected = KycStateRejected"
| "policy_kyc_state KycExpiredStatus = KycStateExpired"
| "policy_kyc_state Reopened = KycStateReopened"
| "policy_kyc_state NotSubmitted = KycStateNotSubmitted"

primrec denial_panic :: "denial_reason \<Rightarrow> error_code" where
  "denial_panic DenyKycPending = KycPending"
| "denial_panic DenyKycRejected = KycRejected"
| "denial_panic DenyKycExpired = ComplianceNotMet"
| "denial_panic DenyKycNotSubmitted = KycNotFound"
| "denial_panic DenyComplianceCheckFailed = ComplianceNotMet"
| "denial_panic (DenyScoreBelowMinimum a b) = ComplianceNotMet"

definition enforce_policy :: "env \<Rightarrow> contract \<Rightarrow> address \<Rightarrow> bool \<Rightarrow> bool \<Rightarrow> trap + unit" where
  "enforce_policy e s subject require_kyc require_compliance =
     (if \<not> require_kyc \<and> \<not> require_compliance then Inr ()
      else
        let check = comp_latest (c_kyc s) (subject, ''kyc'');
            ctx = \<lparr>px_kyc = policy_kyc_state (get_kyc_status e s subject),
                   px_check_passed = (case check of None \<Rightarrow> False | Some r \<Rightarrow> cc_result r = 1),
                   px_minimum_score = get_compliance_policy s,
                   px_subject_score = Option.bind check cc_score,
                   px_require_kyc = require_kyc, px_require_compliance = require_compliance\<rparr>
        in case evaluate_rules standard_rules ctx of
             Allow \<Rightarrow> Inr ()
           | Deny reason \<Rightarrow> Inl (Panic (denial_panic reason)))"

section \<open>Choosing by preference\<close>

text \<open>
  A strategy compares by a strict preference; the loop returns the first of the quotes that no other
  beats.
\<close>

lemma find_append_case:
  "find P (xs @ ys) = (case find P xs of None \<Rightarrow> find P ys | Some y \<Rightarrow> Some y)"
  by (induction xs) auto

lemma find_refine: "find P xs = Some b \<Longrightarrow> Q b \<Longrightarrow> (\<And>y. Q y \<Longrightarrow> P y) \<Longrightarrow> find Q xs = Some b"
  by (induction xs) (auto split: if_split_asm)

locale preference =
  fixes better :: "'k \<Rightarrow> 'k \<Rightarrow> bool"
  assumes irrefl: "\<not> better x x"
    and trans: "better x y \<Longrightarrow> better y z \<Longrightarrow> better x z"
    and neg_trans: "\<not> better x y \<Longrightarrow> \<not> better y z \<Longrightarrow> \<not> better x z"
begin

lemma best_is_first:
  assumes "qs \<noteq> []"
  shows "find (\<lambda>q. \<forall>c \<in> set qs. \<not> better (key c) (key q)) qs = Some (best_by better key qs)"
  using assms
proof (induction qs rule: rev_induct)
  case (snoc x xs)
  show ?case
  proof (cases "xs = []")
    case True
    then show ?thesis by (simp add: best_by_def irrefl)
  next
    case False
    let ?b = "best_by better key xs"
    let ?P = "\<lambda>q. \<forall>c \<in> set xs. \<not> better (key c) (key q)"
    let ?Q = "\<lambda>q. \<forall>c \<in> set (xs @ [x]). \<not> better (key c) (key q)"
    have IH: "find ?P xs = Some ?b" using snoc.IH False by blast
    then have b: "?b \<in> set xs" "?P ?b" by (metis (no_types, lifting) find_Some_iff nth_mem)+
    have step: "best_by better key (xs @ [x]) = (if better (key x) (key ?b) then x else ?b)"
      using False by (simp add: best_by_def)
    note app = find_append_case [of ?Q xs "[x]"]
    show ?thesis
    proof (cases "better (key x) (key ?b)")
      case True
      have "\<not> ?Q q" if "q \<in> set xs" for q
        using True b(2) that trans neg_trans [of "key x" "key q" "key ?b"] by auto
      then have "find ?Q xs = None" by (simp add: find_None_iff)
      moreover have "?Q x" using True b(2) trans irrefl neg_trans by (metis set_append Un_iff list.set_intros(1) set_ConsD empty_iff list.set(1))
      ultimately show ?thesis using app step True by simp
    next
      case no: False
      have "find ?Q xs = Some ?b" by (rule find_refine [OF IH]) (use b(2) no in auto)
      then show ?thesis using app step no by simp
    qed
  qed
qed simp

lemma best_in: "qs \<noteq> [] \<Longrightarrow> best_by better key qs \<in> set qs"
  using best_is_first [of qs key] by (metis (no_types, lifting) find_Some_iff nth_mem)

lemma best_unbeaten:
  assumes "qs \<noteq> []" and "c \<in> set qs"
  shows "\<not> better (key c) (key (best_by better key qs))"
  using best_is_first [OF assms(1), of key] assms(2) by (metis (no_types, lifting) find_Some_iff)

end

interpretation lower: preference "(<) :: 'k::linorder \<Rightarrow> 'k \<Rightarrow> bool"
  by unfold_locales auto

interpretation higher: preference "(>) :: 'k::linorder \<Rightarrow> 'k \<Rightarrow> bool"
  by unfold_locales auto

lemma first_lowest:
  "qs \<noteq> [] \<Longrightarrow> find (\<lambda>q. \<forall>c \<in> set qs. key q \<le> key c) qs = Some (best_by (<) key qs)"
  for key :: "quote \<Rightarrow> 'k::linorder"
  using lower.best_is_first [of qs key] by (simp add: not_less)

lemma first_highest:
  "qs \<noteq> [] \<Longrightarrow> find (\<lambda>q. \<forall>c \<in> set qs. key c \<le> key q) qs = Some (best_by (>) key qs)"
  for key :: "quote \<Rightarrow> 'k::linorder"
  using higher.best_is_first [of qs key] by (simp add: not_less)

lemma set_map_filter: "set (List.map_filter f xs) = {y. \<exists>x \<in> set xs. f x = Some y}"
  by (induction xs) (auto simp: List.map_filter_simps split: option.split)

lemma choose_quote_in: "qs \<noteq> [] \<Longrightarrow> choose_quote s opts strategy qs \<in> set qs"
  by (simp add: choose_quote_def lower.best_in higher.best_in)

lemma candidate_quote_Some:
  "candidate_quote e opts s a = Some q \<longleftrightarrow>
     \<not> is_anchor_blacklisted s a \<and>
     (\<exists>m. anchor_meta_opt s a = Some m \<and> rm_active m \<and> op_min_reputation opts \<le> rm_reputation m) \<and>
     latest_quote s a = Some q \<and> advertises_quote_service s a \<and>
     quote_serves (timestamp e) (op_request opts) (lifecycle_code s a (qu_quote_id q)) q"
  by (auto simp: candidate_quote_def not_less split: option.splits)

section \<open>Scores\<close>

lemma max_of_ge: "x \<in> set xs \<Longrightarrow> f x \<le> max_of f xs"
proof -
  let ?g = "\<lambda>x m. if m < f x then f x else m"
  have up: "m0 \<le> fold ?g ys m0" for ys m0
  proof (induction ys arbitrary: m0)
    case (Cons y ys)
    then show ?case using Cons.IH [of "f y"] Cons.IH [of m0] by (auto intro: order.trans less_imp_le)
  qed simp
  have "x \<in> set ys \<Longrightarrow> f x \<le> fold ?g ys m0" for ys m0
  proof (induction ys arbitrary: m0)
    case (Cons y ys)
    then show ?case using up [of "f x" ys] up [of m0 ys] by (auto simp: not_less intro: order.trans)
  qed simp
  then show "x \<in> set xs \<Longrightarrow> f x \<le> max_of f xs" by (simp add: max_of_def)
qed

text \<open>Every score lies between zero and one, and the scaled one below a million.\<close>

lemma ratio_bounds:
  "fee \<le> max_fee \<Longrightarrow> 0 \<le> fee_score fee max_fee \<and> fee_score fee max_fee \<le> 1"
  "t \<le> max_t \<Longrightarrow> 0 \<le> speed_score t max_t \<and> speed_score t max_t \<le> 1"
  "r \<le> max_r \<Longrightarrow> 0 \<le> rep_score r max_r \<and> rep_score r max_r \<le> 1"
proof -
  have q: "0 \<le> f_div x y \<and> f_div x y \<le> 1" if "0 \<le> x" "x \<le> y" for x y
    using that f_nonneg(3) [of x y] f_div_le_1 [of x y] by linarith
  have d: "0 \<le> f_sub 1 x \<and> f_sub 1 x \<le> 1" if "0 \<le> x" "x \<le> 1" for x
    using that unfolding f_sub_def by (auto intro: round32_nonneg round32_le_1)
  show "fee \<le> max_fee \<Longrightarrow> 0 \<le> fee_score fee max_fee \<and> fee_score fee max_fee \<le> 1"
    using q [OF f_nonneg(4) f32_of_mono(1)] d by (simp add: fee_score_def)
  show "t \<le> max_t \<Longrightarrow> 0 \<le> speed_score t max_t \<and> speed_score t max_t \<le> 1"
    using q [OF f_nonneg(5) f32_of_mono(2)] d by (simp add: speed_score_def)
  show "r \<le> max_r \<Longrightarrow> 0 \<le> rep_score r max_r \<and> rep_score r max_r \<le> 1"
    using q [OF f_nonneg(4) f32_of_mono(1)] by (simp add: rep_score_def)
qed

lemma scaled_score_le: "scaled_score x \<le> 1000000"
proof -
  have "f_mul (f_clamp x 0 1) 1000000 \<le> f_mul 1 1000000"
    using f_clamp_bounds [of 0 1 x] unfolding f_mul_def by (intro round32_mono mult_right_mono) auto
  also have "\<dots> = of_nat 1000000" using round32_of_nat [of 1000000] by (simp add: f_mul_def)
  finally have "unat (scaled_score x) \<le> 1000000"
    unfolding scaled_score_def by (rule f32_to_u32_le) simp
  then show ?thesis by (simp add: word_le_nat_alt)
qed

text \<open>The weights of a valid triple, and why \<open>validate\<close> never refuses one.\<close>

lemma weights_sum_iff:
  "weights_sum_1000 a b c \<longleftrightarrow> unat a + unat b + unat c = 1000"
proof
  assume "weights_sum_1000 a b c"
  then show "unat a + unat b + unat c = 1000"
    by (auto simp: weights_sum_1000_def checked_add_Some bind_eq_Some_conv)
next
  assume sum: "unat a + unat b + unat c = 1000"
  then have "unat (a + b) = unat a + unat b" by (simp add: unat_word_ariths)
  with sum show "weights_sum_1000 a b c"
    by (simp add: weights_sum_1000_def checked_add_def word_unat_eq_iff unat_word_ariths)
qed

lemma per_mille_near:
  assumes "unat w \<le> 1000"
  shows "\<bar>per_mille w - of_nat (unat w) / 1000\<bar> \<le> 1 / 2 ^ 24" "0 \<le> per_mille w" "per_mille w \<le> 1"
proof -
  have x: "f32_of_u32 w = of_nat (unat w)"
    unfolding f32_of_u32_def by (rule round32_of_nat) (use assms in simp)
  let ?q = "of_nat (unat w) / 1000 :: rat"
  have le: "?q \<le> 1"
  proof -
    have "(of_nat (unat w) :: rat) \<le> of_nat 1000" using assms by (simp only: of_nat_le_iff)
    then show ?thesis by (simp del: of_nat_unat)
  qed
  have ge: "0 \<le> ?q" by (simp del: of_nat_unat)
  have p: "per_mille w = round32 ?q" by (simp only: per_mille_def f_div_def x)
  show "\<bar>per_mille w - ?q\<bar> \<le> 1 / 2 ^ 24"
    unfolding p by (rule round32_error) (use le ge in linarith)
  show "0 \<le> per_mille w" "per_mille w \<le> 1"
    unfolding p using le ge by (auto intro: round32_nonneg round32_le_1)
qed

lemma valid_weights:
  assumes "weights_sum_1000 a b c"
  shows "validate_strategy \<lparr>ws_fee = per_mille a, ws_speed = per_mille b, ws_reputation = per_mille c\<rparr>"
proof -
  have sum: "unat a + unat b + unat c = 1000" using assms by (simp add: weights_sum_iff)
  let ?A = "of_nat (unat a) / 1000 :: rat" and ?B = "of_nat (unat b) / 1000 :: rat" and ?C = "of_nat (unat c) / 1000 :: rat"
  have one: "?A + ?B + ?C = 1"
  proof -
    have "of_nat (unat a + unat b + unat c) = (1000 :: rat)" by (simp only: sum of_nat_numeral)
    then show ?thesis by (simp del: of_nat_unat add: add_divide_distrib [symmetric])
  qed
  have nn: "0 \<le> ?A" "0 \<le> ?B" "0 \<le> ?C" by (simp_all del: of_nat_unat)
  define \<epsilon> :: rat where "\<epsilon> = 1 / 2 ^ 24"
  note near = per_mille_near [of a] per_mille_near [of b] per_mille_near [of c]
  let ?x = "per_mille a + per_mille b"
  have na: "\<bar>per_mille a - ?A\<bar> \<le> \<epsilon>" and nb: "\<bar>per_mille b - ?B\<bar> \<le> \<epsilon>" and nc: "\<bar>per_mille c - ?C\<bar> \<le> \<epsilon>"
    using near sum unfolding \<epsilon>_def by auto
  have small: "\<epsilon> < 1 / 1000" by (simp add: \<epsilon>_def)
  have r1: "\<bar>f_add (per_mille a) (per_mille b) - ?x\<bar> \<le> \<epsilon>"
    unfolding f_add_def \<epsilon>_def
    by (rule round32_error) (use na nb nn one small in linarith)
  let ?y = "f_add (per_mille a) (per_mille b)"
  have r2: "\<bar>f_add ?y (per_mille c) - (?y + per_mille c)\<bar> \<le> \<epsilon>"
    unfolding f_add_def [of ?y] \<epsilon>_def
    by (rule round32_error) (use r1 na nb nc nn one small in linarith)
  let ?z = "f_add ?y (per_mille c)"
  have z: "\<bar>?z - 1\<bar> \<le> 5 * \<epsilon>" using r1 r2 na nb nc one by linarith
  have "\<bar>f_sub ?z 1 - (?z - 1)\<bar> \<le> \<epsilon>"
    unfolding f_sub_def \<epsilon>_def by (rule round32_error) (use z small in linarith)
  then have d: "\<bar>f_sub ?z 1\<bar> \<le> 6 * \<epsilon>" using z by linarith
  have "\<bar>WEIGHT_SUM_TOLERANCE - 1 / 100\<bar> \<le> \<epsilon>"
    unfolding WEIGHT_SUM_TOLERANCE_def \<epsilon>_def by (rule round32_error) simp
  moreover have "7 * \<epsilon> < 1 / 100" by (simp add: \<epsilon>_def)
  ultimately have "6 * \<epsilon> < WEIGHT_SUM_TOLERANCE" by linarith
  with d near(2,5,8) sum show ?thesis by (simp add: validate_strategy_def)
qed

section \<open>Invariant and effects\<close>

text \<open>
  Stored weights add up to one; policies are numbered from one without a gap, with windows inside a
  day and a strategy; network profiles are stored under their name with valid weights, and the
  default names one of them; reputation records are possible ones.
\<close>

definition routing_inv :: "routing_store \<Rightarrow> bool" where
  "routing_inv r \<longleftrightarrow>
     (\<forall>w. ro_weights r = Some w \<longrightarrow> weights_sum_1000 (rw_success w) (rw_uptime w) (rw_quality w)) \<and>
     (\<forall>i. ro_policies r i \<noteq> None \<longleftrightarrow> 1 \<le> i \<and> i \<le> get_or 0 (ro_policy_count r)) \<and>
     (\<forall>i p. ro_policies r i = Some p \<longrightarrow> tp_id p = i \<and> tp_strategy p \<noteq> [] \<and>
        tw_start (tp_window p) < 86400 \<and> tw_end (tp_window p) < 86400) \<and>
     (\<forall>n p. ro_profiles r n = Some p \<longrightarrow> np_network p = n \<and> n \<noteq> [] \<and> np_strategy p \<noteq> [] \<and>
        weights_sum_1000 (np_fee_weight p) (np_speed_weight p) (np_reputation_weight p)) \<and>
     (\<forall>n. ro_default r = Some n \<longrightarrow> ro_profiles r n \<noteq> None) \<and>
     (\<forall>a x. ro_records r a = Some x \<longrightarrow> rr_anchor x = a \<and> rr_successful_routed x \<le> rr_total_routed x \<and>
        rr_quality_score x \<le> 10000)"

definition routing_effect :: "contract \<Rightarrow> contract \<Rightarrow> bool" where
  "routing_effect s s' \<longleftrightarrow> anchor_step s s' \<and>
     an_profiles (c_anchors s') = an_profiles (c_anchors s) \<and> an_switches (c_anchors s') = an_switches (c_anchors s) \<and>
     an_governance (c_anchors s') = an_governance (c_anchors s) \<and>
     an_directory (c_anchors s') = an_directory (c_anchors s) \<and> an_health (c_anchors s') = an_health (c_anchors s) \<and>
     (routing_inv (routing s) \<longrightarrow> routing_inv (routing s'))"

lemma routing_effect_emit [simp]: "routing_effect s (emit ev s1) \<longleftrightarrow> routing_effect s s1"
  by (simp add: routing_effect_def)

lemma routing_effect_refl [simp]: "routing_effect s s"
  by (simp add: routing_effect_def)

lemma routing_effectI:
  "(routing_inv (routing s) \<Longrightarrow> routing_inv (f (routing s))) \<Longrightarrow> routing_effect s (with_routing f s)"
  by (simp add: routing_effect_def)

lemma routing_effect_route:
  "route_transaction e opts s = Inr (q, s') \<Longrightarrow> routing_effect s s'"
  by (auto simp: route_transaction_def bind_ok_Inr Let_def split: if_split_asm list.split_asm)

lemma routing_effect_fallback:
  assumes "route_with_fallback e opts a s = Inr (q, s')"
  shows "routing_effect s s'"
proof -
  have "routing_effect s s'" if "route_transaction e opts (emit EvQuoteFallback s) = Inr (q, s')"
    using routing_effect_route [OF that] by (simp add: routing_effect_def anchor_step_def)
  with assms show ?thesis by (auto simp: route_with_fallback_def bind_ok_Inr split: option.split_asm)
qed

lemma routing_effect_settings:
  "set_anchor_reputation e a tot su q u t s = Inr s' \<Longrightarrow> routing_effect s s'"
  "set_reputation_weights e x1 x2 x3 s = Inr s' \<Longrightarrow> routing_effect s s'"
  "register_network_routing_profile e n st f sp rp mr d s = Inr s' \<Longrightarrow> routing_effect s s'"
  "set_active_network e n s = Inr s' \<Longrightarrow> routing_effect s s'"
  "set_compliance_policy e m s = Inr s' \<Longrightarrow> routing_effect s s'"
  by (auto simp: set_anchor_reputation_def set_reputation_weights_def
      register_network_routing_profile_def set_active_network_def set_compliance_policy_def
      bind_ok_Inr of_option_Inr Let_def not_less routing_inv_def intro!: routing_effectI split: if_split_asm)

lemma routing_effect_enabled:
  assumes "set_timed_policy_enabled e i b s = Inr s'"
  shows "routing_effect s s'"
proof -
  let ?r = "routing s"
  from assms obtain p where p: "ro_policies ?r i = Some p"
    and s': "s' = with_routing (\<lambda>r. r\<lparr>ro_policies := (ro_policies r)(i \<mapsto> p\<lparr>tp_enabled := b\<rparr>)\<rparr>) s"
    by (auto simp: set_timed_policy_enabled_def bind_ok_Inr of_option_Inr)
  have "routing_inv (?r\<lparr>ro_policies := (ro_policies ?r)(i \<mapsto> p\<lparr>tp_enabled := b\<rparr>)\<rparr>)" if inv: "routing_inv ?r"
  proof -
    have "1 \<le> i \<and> i \<le> get_or 0 (ro_policy_count ?r)"
      using inv p unfolding routing_inv_def by (metis option.distinct(1))
    with inv p show ?thesis unfolding routing_inv_def by auto
  qed
  then show ?thesis unfolding s' by (rule routing_effectI)
qed

lemma routing_effect_policy:
  assumes "register_timed_routing_policy e nm st w1 w2 pr s = Inr (i, s')"
  shows "routing_effect s s'"
proof -
  let ?c = "get_or 0 (ro_policy_count (routing s))"
  let ?p = "\<lparr>tp_id = i, tp_name = nm, tp_strategy = st, tp_window = \<lparr>tw_start = w1, tw_end = w2\<rparr>,
      tp_priority = pr, tp_enabled = True\<rparr>"
  from assms have ok: "st \<noteq> []" "w1 < 86400" "w2 < 86400" "unat ?c + 1 < 2 ^ 64" "i = ?c + 1"
    and s': "s' = emit (EvPolicyAdded i) (with_routing (\<lambda>r. r\<lparr>ro_policies := (ro_policies r)(i \<mapsto> ?p),
        ro_policy_count := Some i\<rparr>) s)"
    by (auto simp: register_timed_routing_policy_def bind_ok_Inr plus_trap_Inr policy_count_def Let_def not_le
        split: if_split_asm)
  have "unat i = unat ?c + 1" using ok by (simp add: unat_word_ariths)
  then have le: "1 \<le> j \<and> j \<le> i \<longleftrightarrow> (1 \<le> j \<and> j \<le> ?c) \<or> j = i" for j
    by (auto simp: word_le_nat_alt word_unat_eq_iff)
  have "routing_inv ((routing s)\<lparr>ro_policies := (ro_policies (routing s))(i \<mapsto> ?p), ro_policy_count := Some i\<rparr>)"
    if "routing_inv (routing s)"
    using that ok(1,2,3) le unfolding routing_inv_def by auto
  then show ?thesis unfolding s' routing_effect_emit by (rule routing_effectI)
qed

end
