(* ===== verification/Contract_Health.thy ===== *)
theory Contract_Health
  imports Contract_Services Contract_Quotes
begin

text \<open>
  Anchor information, health and proofs of possession of \<^verbatim>\<open>src/contract.rs\<close>: the cached
  \<^verbatim>\<open>stellar.toml\<close> and what is read from it, the health counters with the composite score of the
  latest window, the endpoint proofs, and the diagnostic reports.
\<close>

abbreviation with_health :: "(health_store \<Rightarrow> health_store) \<Rightarrow> contract \<Rightarrow> contract" where
  "with_health f s \<equiv> s\<lparr>c_anchors := (c_anchors s)\<lparr>an_health := f (an_health (c_anchors s))\<rparr>\<rparr>"

abbreviation health :: "contract \<Rightarrow> health_store" where
  "health s \<equiv> an_health (c_anchors s)"

section \<open>Anchor information\<close>

definition validate_asset_info :: "asset_info \<Rightarrow> trap + unit" where
  "validate_asset_info a =
     bind_ok (validate_currency_code (ai_code a)) (\<lambda>_.
     bind_ok (validate_fee_percent (ai_deposit_fee_percent a)) (\<lambda>_.
     bind_ok (validate_fee_percent (ai_withdrawal_fee_percent a)) (\<lambda>_.
     bind_ok (validate_amount_limits (ai_deposit_min a) (ai_deposit_max a)) (\<lambda>_.
       validate_amount_limits (ai_withdrawal_min a) (ai_withdrawal_max a)))))"

definition fetch_anchor_info ::
    "env \<Rightarrow> address \<Rightarrow> stellar_toml \<Rightarrow> u64 \<Rightarrow> string \<Rightarrow> contract \<Rightarrow> trap + contract" where
  "fetch_anchor_info e anchor toml ttl_seconds source_uri s =
     bind_ok (require_auth e anchor) (\<lambda>_.
     bind_ok (list_bind (\<lambda>_ a. validate_asset_info a) () (to_currencies toml)) (\<lambda>_.
       let base_ttl = effective_ttl ttl_seconds (cf_capabilities_ttl (get_cache_config s));
           ttl = fst (enforce_write_policy (governance s) CacheCapabilities base_ttl 0);
           cached = \<lparr>ct_toml = toml, ct_cached_at = timestamp e, ct_ttl = ttl, ct_source_uri = source_uri,
                     ct_last_refreshed_at = timestamp e\<rparr>
       in Inr (with_caches (\<lambda>c. c\<lparr>ca_toml :=
            temp_put (unat (ledger_seq e)) (ledger_ttl ttl) (ca_toml c) anchor cached\<rparr>) s)))"

text \<open>The entry behind all reads: present, and not past its time to live.\<close>

definition live_toml :: "env \<Rightarrow> contract \<Rightarrow> address \<Rightarrow> trap + cached_toml" where
  "live_toml e s anchor =
     bind_ok (of_option (Panic CacheNotFound) (temp_get (unat (ledger_seq e)) (ca_toml (caches s)) anchor)) (\<lambda>cached.
     bind_ok (plus_trap (ct_cached_at cached) (ct_ttl cached)) (\<lambda>until.
       if until \<le> timestamp e then Inl (Panic CacheExpired) else Inr cached))"

definition get_anchor_toml :: "env \<Rightarrow> contract \<Rightarrow> address \<Rightarrow> trap + stellar_toml" where
  "get_anchor_toml e s anchor = bind_ok (live_toml e s anchor) (\<lambda>c. Inr (ct_toml c))"

definition get_anchor_toml_provenance :: "env \<Rightarrow> contract \<Rightarrow> address \<Rightarrow> trap + anchor_toml_provenance" where
  "get_anchor_toml_provenance e s anchor =
     bind_ok (live_toml e s anchor) (\<lambda>c.
       Inr \<lparr>ap_anchor = anchor, ap_source_uri = ct_source_uri c, ap_cached_at = ct_cached_at c,
            ap_last_refreshed_at = ct_last_refreshed_at c, ap_ttl = ct_ttl c,
            ap_age = sat_sub (timestamp e) (ct_cached_at c)\<rparr>)"

definition refresh_anchor_info ::
    "env \<Rightarrow> address \<Rightarrow> stellar_toml \<Rightarrow> u64 \<Rightarrow> string \<Rightarrow> contract \<Rightarrow> trap + contract" where
  "refresh_anchor_info e anchor toml ttl_seconds source_uri s =
     bind_ok (require_auth e anchor) (\<lambda>_.
       let had = temp_get (unat (ledger_seq e)) (ca_toml (caches s)) anchor \<noteq> None in
     bind_ok (fetch_anchor_info e anchor toml ttl_seconds source_uri s) (\<lambda>s1.
       Inr (record_refresh_diagnostic e anchor ''anchor_info'' RefreshSuccess had
              ''anchor info cache refreshed successfully'' s1)))"

definition get_anchor_assets :: "env \<Rightarrow> contract \<Rightarrow> address \<Rightarrow> trap + string list" where
  "get_anchor_assets e s anchor =
     bind_ok (get_anchor_toml e s anchor) (\<lambda>toml. Inr (map ai_code (to_currencies toml)))"

definition get_anchor_asset_info :: "env \<Rightarrow> contract \<Rightarrow> address \<Rightarrow> string \<Rightarrow> trap + asset_info" where
  "get_anchor_asset_info e s anchor code =
     bind_ok (get_anchor_toml e s anchor) (\<lambda>toml.
       of_option (Panic ValidationError) (find (\<lambda>a. ai_code a = code) (to_currencies toml)))"

definition get_anchor_deposit_limits :: "env \<Rightarrow> contract \<Rightarrow> address \<Rightarrow> string \<Rightarrow> trap + (u64 \<times> u64)" where
  "get_anchor_deposit_limits e s anchor code =
     bind_ok (get_anchor_asset_info e s anchor code) (\<lambda>a. Inr (ai_deposit_min a, ai_deposit_max a))"

definition get_anchor_withdrawal_limits :: "env \<Rightarrow> contract \<Rightarrow> address \<Rightarrow> string \<Rightarrow> trap + (u64 \<times> u64)" where
  "get_anchor_withdrawal_limits e s anchor code =
     bind_ok (get_anchor_asset_info e s anchor code) (\<lambda>a. Inr (ai_withdrawal_min a, ai_withdrawal_max a))"

definition get_anchor_deposit_fees :: "env \<Rightarrow> contract \<Rightarrow> address \<Rightarrow> string \<Rightarrow> trap + (u64 \<times> u32)" where
  "get_anchor_deposit_fees e s anchor code =
     bind_ok (get_anchor_asset_info e s anchor code) (\<lambda>a. Inr (ai_deposit_fee_fixed a, ai_deposit_fee_percent a))"

definition get_anchor_withdrawal_fees :: "env \<Rightarrow> contract \<Rightarrow> address \<Rightarrow> string \<Rightarrow> trap + (u64 \<times> u32)" where
  "get_anchor_withdrawal_fees e s anchor code =
     bind_ok (get_anchor_asset_info e s anchor code) (\<lambda>a.
       Inr (ai_withdrawal_fee_fixed a, ai_withdrawal_fee_percent a))"

definition anchor_supports_deposits :: "env \<Rightarrow> contract \<Rightarrow> address \<Rightarrow> string \<Rightarrow> trap + bool" where
  "anchor_supports_deposits e s anchor code =
     bind_ok (get_anchor_asset_info e s anchor code) (\<lambda>a. Inr (ai_deposit_enabled a))"

definition anchor_supports_withdrawals :: "env \<Rightarrow> contract \<Rightarrow> address \<Rightarrow> string \<Rightarrow> trap + bool" where
  "anchor_supports_withdrawals e s anchor code =
     bind_ok (get_anchor_asset_info e s anchor code) (\<lambda>a. Inr (ai_withdrawal_enabled a))"

definition supports_sep31 :: "env \<Rightarrow> contract \<Rightarrow> address \<Rightarrow> trap + bool" where
  "supports_sep31 e s anchor =
     (case temp_get (unat (ledger_seq e)) (ca_toml (caches s)) anchor of
        None \<Rightarrow> Inr False
      | Some cached \<Rightarrow>
          bind_ok (plus_trap (ct_cached_at cached) (ct_ttl cached)) (\<lambda>until.
            Inr (\<not> until \<le> timestamp e \<and> to_direct_payment_server (ct_toml cached) \<noteq> [])))"

section \<open>Health counters\<close>

definition no_metrics :: "address \<Rightarrow> u64 \<Rightarrow> anchor_health_metrics" where
  "no_metrics anchor at = \<lparr>hm_anchor = anchor, hm_success = 0, hm_failure = 0, hm_total = 0,
     hm_uptime_bps = 0, hm_last_event_at = at\<rparr>"

definition get_anchor_health :: "contract \<Rightarrow> address \<Rightarrow> anchor_health_metrics" where
  "get_anchor_health s anchor = get_or (no_metrics anchor 0) (he_metrics (health s) anchor)"

definition rate_bps :: "u64 \<Rightarrow> u64 \<Rightarrow> u32" where
  "rate_bps part whole = (if whole = 0 then 0 else ucast (sat_mul part 10000 div whole))"

text \<open>The counters after \<open>ok\<close> successes and \<open>bad\<close> failures more.\<close>

definition count_events :: "u64 \<Rightarrow> u64 \<Rightarrow> u64 \<Rightarrow> anchor_health_metrics \<Rightarrow> trap + anchor_health_metrics" where
  "count_events now ok bad m =
     bind_ok (plus_trap (hm_success m) ok) (\<lambda>succ.
     bind_ok (plus_trap (hm_failure m) bad) (\<lambda>fail.
     bind_ok (plus_trap succ fail) (\<lambda>tot.
       Inr (m\<lparr>hm_success := succ, hm_failure := fail, hm_total := tot,
              hm_uptime_bps := rate_bps succ tot, hm_last_event_at := now\<rparr>))))"

definition put_metrics :: "address \<Rightarrow> anchor_health_metrics \<Rightarrow> contract \<Rightarrow> contract" where
  "put_metrics anchor m s = with_health (\<lambda>h. h\<lparr>he_metrics := (he_metrics h)(anchor \<mapsto> m)\<rparr>) s"

definition record_health_event :: "env \<Rightarrow> address \<Rightarrow> bool \<Rightarrow> contract \<Rightarrow> trap + contract" where
  "record_health_event e anchor success s =
     bind_ok (require_admin e s) (\<lambda>_.
     bind_ok (require_auth e anchor) (\<lambda>_.
     bind_ok (check_attestor anchor s) (\<lambda>_.
     bind_ok (count_events (timestamp e) (if success then 1 else 0) (if success then 0 else 1)
                (get_anchor_health s anchor)) (\<lambda>m.
       Inr (emit (EvHealthEvent anchor success (hm_uptime_bps m)) (put_metrics anchor m s))))))"

definition reset_anchor_health :: "env \<Rightarrow> address \<Rightarrow> contract \<Rightarrow> trap + contract" where
  "reset_anchor_health e anchor s =
     bind_ok (require_admin e s) (\<lambda>_. Inr (put_metrics anchor (no_metrics anchor (timestamp e)) s))"

section \<open>Windows and the composite score\<close>

definition get_anchor_health_windows :: "contract \<Rightarrow> address \<Rightarrow> anchor_health_window list" where
  "get_anchor_health_windows s anchor = get_or [] (he_windows (health s) anchor)"

definition push_window :: "anchor_health_window \<Rightarrow> anchor_health_window list \<Rightarrow> anchor_health_window list" where
  "push_window w ws = (if MAX_HEALTH_WINDOWS \<le> length ws then tl ws else ws) @ [w]"

definition record_health_window :: "env \<Rightarrow> address \<Rightarrow> anchor_health_window \<Rightarrow> contract \<Rightarrow> trap + contract" where
  "record_health_window e anchor window s =
     bind_ok (require_admin e s) (\<lambda>_.
       let s1 = with_health (\<lambda>h. h\<lparr>he_windows := (he_windows h)(anchor \<mapsto>
                  push_window window (get_anchor_health_windows s anchor))\<rparr>) s in
     bind_ok (count_events (timestamp e) (hw_success window) (hw_failure window)
                (get_anchor_health s1 anchor)) (\<lambda>m.
       Inr (emit (EvHealthWindow anchor (hw_success window) (hw_failure window)) (put_metrics anchor m s1))))"

definition latency_bps :: "u64 \<Rightarrow> u32" where
  "latency_bps l =
     (if l = 0 then 5000
      else if l \<le> 5000 then 10000
      else if 100000 \<le> l then 0
      else min (ucast (sat_sub 10000 (sat_mul (l - 5000) 10000 div (100000 - 5000)))) 10000)"

definition routing_bps :: "u64 \<Rightarrow> u64 \<Rightarrow> u32" where
  "routing_bps attempts failures =
     (if attempts = 0 then 10000
      else ucast (sat_mul (attempts - min failures attempts) 10000 div attempts))"

definition recovery_bps :: "u64 \<Rightarrow> u32" where
  "recovery_bps t =
     (if t = 0 then 10000
      else if t \<le> 60 then 10000
      else if 3600 \<le> t then 0
      else min (ucast (sat_sub 10000 (sat_mul (t - 60) 10000 div (3600 - 60)))) 10000)"

definition score_one :: "anchor_health_window \<Rightarrow> trap + (u32 \<times> u32 \<times> u32 \<times> u32)" where
  "score_one w =
     bind_ok (plus_trap (hw_success w) (hw_failure w)) (\<lambda>tot.
       Inr (rate_bps (hw_success w) tot, latency_bps (hw_latency w),
            routing_bps (hw_attempts w) (hw_routing_failures w), recovery_bps (hw_recovery w)))"

text \<open>The sub-scores are at most 10000, so the weighted sum fits in 64 and in 32 bits.\<close>

definition composite_from :: "u32 \<times> u32 \<times> u32 \<times> u32 \<Rightarrow> u32" where
  "composite_from x =
     (case x of (sr, lat, rt, rec) \<Rightarrow>
        ucast (ucast sr * 40 + ucast lat * 25 + ucast rt * 20 + ucast rec * 15 :: u64) div 100)"

definition TREND_THRESH :: u32 where "TREND_THRESH = 150"

definition trend_of :: "u32 \<Rightarrow> u32 \<Rightarrow> health_trend" where
  "trend_of now prev =
     (if prev < now \<and> TREND_THRESH < now - prev then Improving
      else if now < prev \<and> TREND_THRESH < prev - now then Degrading
      else Steady)"

definition get_anchor_health_score :: "env \<Rightarrow> contract \<Rightarrow> address \<Rightarrow> trap + anchor_health_score" where
  "get_anchor_health_score e s anchor =
     (let ws = get_anchor_health_windows s anchor; n = length ws in
      if n = 0
      then Inr \<lparr>hs_anchor = anchor, hs_composite = 0, hs_success_rate = 0, hs_latency = 0, hs_routing = 0,
                hs_recovery = 0, hs_trend = Steady, hs_previous = 0, hs_scored_at = timestamp e, hs_window_count = 0\<rparr>
      else
        bind_ok (score_one (ws ! (n - 1))) (\<lambda>(sr, lat, rt, rec).
          let composite = composite_from (sr, lat, rt, rec) in
        bind_ok (if 2 \<le> n
                 then bind_ok (score_one (ws ! (n - 2))) (\<lambda>x.
                        let prev = composite_from x in Inr (trend_of composite prev, prev))
                 else Inr (Steady, 0)) (\<lambda>(trend, prev).
          Inr \<lparr>hs_anchor = anchor, hs_composite = composite, hs_success_rate = sr, hs_latency = lat,
               hs_routing = rt, hs_recovery = rec, hs_trend = trend, hs_previous = prev,
               hs_scored_at = timestamp e, hs_window_count = n\<rparr>)))"

section \<open>Endpoint proofs\<close>

definition put_proof :: "address \<Rightarrow> anchor_proof_record \<Rightarrow> contract \<Rightarrow> contract" where
  "put_proof anchor r s = with_health (\<lambda>h. h\<lparr>he_proofs := (he_proofs h)(anchor \<mapsto> r)\<rparr>) s"

definition register_endpoint_proof :: "env \<Rightarrow> address \<Rightarrow> string \<Rightarrow> bytes \<Rightarrow> contract \<Rightarrow> trap + contract" where
  "register_endpoint_proof e anchor endpoint proof_hash s =
     bind_ok (require_auth e anchor) (\<lambda>_.
     bind_ok (check_attestor anchor s) (\<lambda>_.
     bind_ok (check_url endpoint) (\<lambda>_.
       let profile = load_or_init_profile s anchor in
       if pf_endpoint profile \<noteq> [] \<and> pf_endpoint profile \<noteq> endpoint then Inl (Panic ValidationError)
       else Inr (emit (EvPopRegister anchor (timestamp e)) (put_proof anchor
              \<lparr>po_anchor = anchor, po_endpoint = endpoint, po_hash = proof_hash,
               po_registered_at = timestamp e, po_verified = False\<rparr> s)))))"

definition verify_endpoint_proof :: "env \<Rightarrow> address \<Rightarrow> bytes \<Rightarrow> contract \<Rightarrow> bool \<times> contract" where
  "verify_endpoint_proof e anchor proof_hash s =
     (case he_proofs (health s) anchor of
        None \<Rightarrow> (False, s)
      | Some r \<Rightarrow>
          if po_hash r \<noteq> proof_hash then (False, emit (EvPopFailed anchor (timestamp e)) s)
          else (True, emit (EvPopVerified anchor (timestamp e)) (put_proof anchor (r\<lparr>po_verified := True\<rparr>) s)))"

definition get_endpoint_proof :: "contract \<Rightarrow> address \<Rightarrow> anchor_proof_record option" where
  "get_endpoint_proof s anchor = he_proofs (health s) anchor"

section \<open>Diagnostics\<close>

datatype health_status = Healthy | Degraded | Unavailable

definition get_health_status :: "contract \<Rightarrow> health_status" where
  "get_health_status s =
     (if \<not> acc_initialized (c_access s) then Unavailable
      else if rl_config (c_rl s) \<noteq> None then Healthy else Degraded)"

record rate_limiter_health =
  rh_attestor :: address
  rh_count :: u32
  rh_max :: u32
  rh_window_length :: u32
  rh_window_start :: u32
  rh_throttled :: bool

definition get_rate_limiter_health :: "env \<Rightarrow> contract \<Rightarrow> address \<Rightarrow> rate_limiter_health" where
  "get_rate_limiter_health e s attestor =
     (let config = get_rl_config (c_rl s); state = get_rl_state e (c_rl s) attestor;
          expired = sat_add (window_start_ledger state) (window_length config) \<le> ledger_seq e;
          count = (if expired then 0 else submission_count state)
      in \<lparr>rh_attestor = attestor, rh_count = count, rh_max = max_submissions config,
          rh_window_length = window_length config, rh_window_start = window_start_ledger state,
          rh_throttled = (\<not> expired \<and> max_submissions config \<le> count)\<rparr>)"

record contract_diagnostics =
  dg_initialized :: bool
  dg_attestations :: u64
  dg_quotes :: u64
  dg_sessions :: u64
  dg_max_submissions :: u32
  dg_window_length :: u32
  dg_checked_at :: u64

definition get_contract_diagnostics :: "env \<Rightarrow> contract \<Rightarrow> contract_diagnostics" where
  "get_contract_diagnostics e s =
     (let config = get_rl_config (c_rl s)
      in \<lparr>dg_initialized = acc_initialized (c_access s), dg_attestations = get_or 0 (att_counter (c_attest s)),
          dg_quotes = get_or 0 (quo_count (c_quotes s)), dg_sessions = get_or 0 (ses_count (c_sessions s)),
          dg_max_submissions = max_submissions config, dg_window_length = window_length config,
          dg_checked_at = timestamp e\<rparr>)"

section \<open>Bounds\<close>

lemma ucast_small: "unat (x :: u64) \<le> 10000 \<Longrightarrow> unat (ucast x :: u32) = unat x"
  by (simp add: unsigned_ucast_eq take_bit_nat_eq_self)

lemma rate_bps_value:
  assumes "part \<le> whole"
  shows "unat (rate_bps part whole) \<le> 10000"
    and "unat part * 10000 < 2 ^ 64 \<Longrightarrow> unat (rate_bps part whole) = unat part * 10000 div unat whole"
proof -
  have le: "unat part * 10000 div unat whole \<le> 10000"
  proof (cases "whole = 0")
    case False
    then have "unat part * 10000 div unat whole \<le> unat whole * 10000 div unat whole"
      using assms by (intro div_le_mono) (simp add: word_le_nat_alt)
    with False show ?thesis by (simp add: unat_gt_0)
  qed simp
  have val: "unat (sat_mul part 10000 div whole) = min (unat part * 10000) (2 ^ 64 - 1) div unat whole"
    by (simp add: unat_div unat_sat_mul)
  also have "\<dots> \<le> unat part * 10000 div unat whole" by (intro div_le_mono) simp
  finally have small: "unat (sat_mul part 10000 div whole) \<le> 10000" using le by linarith
  then show "unat (rate_bps part whole) \<le> 10000" by (simp add: rate_bps_def ucast_small)
  assume "unat part * 10000 < 2 ^ 64"
  then show "unat (rate_bps part whole) = unat part * 10000 div unat whole"
    using ucast_small [OF small] val by (simp add: rate_bps_def)
qed

lemma latency_bps_le: "unat (latency_bps l) \<le> 10000"
  by (auto simp: latency_bps_def min_def word_le_nat_alt)

lemma recovery_bps_le: "unat (recovery_bps t) \<le> 10000"
  by (auto simp: recovery_bps_def min_def word_le_nat_alt)

lemma routing_bps_le: "unat (routing_bps a f) \<le> 10000"
proof -
  have "a - min f a \<le> a" by (metis min.cobounded2 word_sub_le)
  then show ?thesis
    using rate_bps_value(1) [of "a - min f a" a] by (simp add: routing_bps_def rate_bps_def split: if_split_asm)
qed

lemma score_one_bounds:
  assumes "score_one w = Inr (sr, lat, rt, rec)"
  shows "unat sr \<le> 10000 \<and> unat lat \<le> 10000 \<and> unat rt \<le> 10000 \<and> unat rec \<le> 10000"
proof -
  from assms have no: "unat (hw_success w) + unat (hw_failure w) < 2 ^ 64"
    and eq: "sr = rate_bps (hw_success w) (hw_success w + hw_failure w)" "lat = latency_bps (hw_latency w)"
      "rt = routing_bps (hw_attempts w) (hw_routing_failures w)" "rec = recovery_bps (hw_recovery w)"
    by (auto simp: score_one_def bind_ok_Inr plus_trap_Inr)
  have "hw_success w \<le> hw_success w + hw_failure w"
    using no by (simp add: word_le_nat_alt unat_word_ariths)
  then show ?thesis
    using rate_bps_value(1) latency_bps_le routing_bps_le recovery_bps_le by (simp add: eq)
qed

lemma composite_value:
  assumes "unat sr \<le> 10000" "unat lat \<le> 10000" "unat rt \<le> 10000" "unat rec \<le> 10000"
  shows "unat (composite_from (sr, lat, rt, rec)) = (40 * unat sr + 25 * unat lat + 20 * unat rt + 15 * unat rec) div 100"
proof -
  have up: "unat (ucast x :: u64) = unat x" for x :: u32
    using unat_lt_pow [of x] by (simp add: unsigned_ucast_eq take_bit_nat_eq_self)
  let ?x = "ucast sr * 40 + ucast lat * 25 + ucast rt * 20 + ucast rec * 15 :: u64"
  have x: "unat ?x = 40 * unat sr + 25 * unat lat + 20 * unat rt + 15 * unat rec"
    using assms by (simp add: unat_word_ariths up)
  then have "unat ?x < 2 ^ 32" using assms by simp
  then have "unat (ucast ?x :: u32) = unat ?x" by (simp add: unsigned_ucast_eq take_bit_nat_eq_self)
  then show ?thesis by (simp add: composite_from_def unat_div x)
qed

section \<open>Invariant and effects\<close>

text \<open>
  Counters add up and the uptime is their quotient; at most \<open>MAX_HEALTH_WINDOWS\<close> windows are kept;
  a proof covers an accepted URL.
\<close>

definition health_inv :: "health_store \<Rightarrow> bool" where
  "health_inv h \<longleftrightarrow>
     (\<forall>a m. he_metrics h a = Some m \<longrightarrow> hm_anchor m = a \<and>
        unat (hm_total m) = unat (hm_success m) + unat (hm_failure m) \<and>
        hm_uptime_bps m = rate_bps (hm_success m) (hm_total m)) \<and>
     (\<forall>a ws. he_windows h a = Some ws \<longrightarrow> length ws \<le> MAX_HEALTH_WINDOWS) \<and>
     (\<forall>a r. he_proofs h a = Some r \<longrightarrow> po_anchor r = a \<and> validate_anchor_domain (po_endpoint r) = Inr ())"

definition health_effect :: "contract \<Rightarrow> contract \<Rightarrow> bool" where
  "health_effect s s' \<longleftrightarrow> anchor_step s s' \<and>
     an_profiles (c_anchors s') = an_profiles (c_anchors s) \<and> an_switches (c_anchors s') = an_switches (c_anchors s) \<and>
     an_governance (c_anchors s') = an_governance (c_anchors s) \<and>
     an_directory (c_anchors s') = an_directory (c_anchors s) \<and> an_routing (c_anchors s') = an_routing (c_anchors s) \<and>
     (health_inv (health s) \<longrightarrow> health_inv (health s'))"

lemma health_effect_emit [simp]: "health_effect s (emit ev s1) \<longleftrightarrow> health_effect s s1"
  by (simp add: health_effect_def)

lemma health_effect_refl [simp]: "health_effect s s"
  by (simp add: health_effect_def)

lemma only_caches_health: "only_caches s s' \<Longrightarrow> health_effect s s'"
  by (simp add: only_caches_def health_effect_def)

lemma no_metrics_ok:
  "hm_anchor (no_metrics a t) = a" "hm_success (no_metrics a t) = 0" "hm_failure (no_metrics a t) = 0"
  "hm_total (no_metrics a t) = 0" "hm_uptime_bps (no_metrics a t) = 0" "rate_bps 0 0 = 0"
  by (simp_all add: no_metrics_def rate_bps_def)

lemma count_events_ok:
  assumes "count_events now k b m = Inr m'"
  shows "hm_anchor m' = hm_anchor m \<and> unat (hm_total m') = unat (hm_success m') + unat (hm_failure m') \<and>
    hm_uptime_bps m' = rate_bps (hm_success m') (hm_total m') \<and>
    unat (hm_success m') = unat (hm_success m) + unat k \<and> unat (hm_failure m') = unat (hm_failure m) + unat b"
  using assms by (auto simp: count_events_def bind_ok_Inr plus_trap_Inr unat_word_ariths)

lemma get_health_anchor: "health_inv (health s) \<Longrightarrow> hm_anchor (get_anchor_health s a) = a"
  by (auto simp: health_inv_def get_anchor_health_def get_or_def no_metrics_def split: option.split)

lemma put_metrics_inv:
  assumes "health_inv h" and "hm_anchor m = a" and "unat (hm_total m) = unat (hm_success m) + unat (hm_failure m)"
    and "hm_uptime_bps m = rate_bps (hm_success m) (hm_total m)"
  shows "health_inv (h\<lparr>he_metrics := (he_metrics h)(a \<mapsto> m)\<rparr>)"
  using assms by (auto simp: health_inv_def)

lemma effect_put_metrics:
  assumes "health_effect s s1" and "health_inv (health s) \<Longrightarrow> hm_anchor m = a"
    and "unat (hm_total m) = unat (hm_success m) + unat (hm_failure m)"
    and "hm_uptime_bps m = rate_bps (hm_success m) (hm_total m)"
  shows "health_effect s (put_metrics a m s1)"
  using assms put_metrics_inv [of "health s1" m a] by (auto simp: health_effect_def put_metrics_def)

lemma health_effect_counters:
  "record_health_event e a b s = Inr s' \<Longrightarrow> health_effect s s'"
  "reset_anchor_health e a s = Inr s' \<Longrightarrow> health_effect s s'"
  by (auto simp: record_health_event_def reset_anchor_health_def bind_ok_Inr no_metrics_ok
      dest!: count_events_ok intro!: effect_put_metrics get_health_anchor)

lemma length_push_window: "length ws \<le> MAX_HEALTH_WINDOWS \<Longrightarrow> length (push_window w ws) \<le> MAX_HEALTH_WINDOWS"
  by (auto simp: push_window_def MAX_HEALTH_WINDOWS_def)

lemma health_effect_window:
  assumes "record_health_window e a w s = Inr s'"
  shows "health_effect s s'"
proof -
  let ?s1 = "with_health (\<lambda>h. h\<lparr>he_windows := (he_windows h)(a \<mapsto> push_window w (get_anchor_health_windows s a))\<rparr>) s"
  have "length (get_anchor_health_windows s a) \<le> MAX_HEALTH_WINDOWS" if "health_inv (health s)"
    using that by (auto simp: health_inv_def get_anchor_health_windows_def get_or_def split: option.split)
  then have "health_inv (health ?s1)" if "health_inv (health s)"
    using that length_push_window by (auto simp: health_inv_def)
  then have step: "health_effect s ?s1" by (simp add: health_effect_def)
  from assms obtain m where m: "count_events (timestamp e) (hw_success w) (hw_failure w) (get_anchor_health ?s1 a) = Inr m"
    and s': "s' = emit (EvHealthWindow a (hw_success w) (hw_failure w)) (put_metrics a m ?s1)"
    by (auto simp: record_health_window_def bind_ok_Inr Let_def)
  have "hm_anchor (get_anchor_health ?s1 a) = a" if "health_inv (health s)"
    using get_health_anchor [of ?s1 a] step that by (simp add: health_effect_def)
  then show ?thesis
    unfolding s' using count_events_ok [OF m] step by (auto intro!: effect_put_metrics)
qed

lemma health_effect_proofs:
  "register_endpoint_proof e a url h s = Inr s' \<Longrightarrow> health_effect s s'"
  "verify_endpoint_proof e a h s = (b, s') \<Longrightarrow> health_effect s s'"
proof -
  have put: "health_effect s (put_proof a r s)"
    if "health_inv (health s) \<Longrightarrow> po_anchor r = a \<and> validate_anchor_domain (po_endpoint r) = Inr ()" for r
    using that by (auto simp: health_effect_def put_proof_def health_inv_def)
  show "register_endpoint_proof e a url h s = Inr s' \<Longrightarrow> health_effect s s'"
    by (auto simp: register_endpoint_proof_def bind_ok_Inr check_url_def or_panic_Inr Let_def
        split: if_split_asm intro!: put)
  show "verify_endpoint_proof e a h s = (b, s') \<Longrightarrow> health_effect s s'"
    by (auto simp: verify_endpoint_proof_def health_inv_def split: option.split_asm if_split_asm intro!: put)
qed

lemma health_effect_info:
  "fetch_anchor_info e a toml t src s = Inr s' \<Longrightarrow> health_effect s s'"
  "refresh_anchor_info e a toml t src s = Inr s' \<Longrightarrow> health_effect s s'"
  by (auto simp: fetch_anchor_info_def refresh_anchor_info_def bind_ok_Inr Let_def intro!: only_caches_health)

section \<open>Properties\<close>

text \<open>
  The health score of an anchor: every sub-score and the composite lie between 0 and 10000 basis
  points, the composite is the weighted mean (40, 25, 20 and 15 percent), rounded down, without
  overflow, and the trend reports a change of the composite of more than 150 points against the window
  before, in its direction.
\<close>

theorem health_score_bounds:
  assumes "get_anchor_health_score e s a = Inr sc"
  shows "unat (hs_success_rate sc) \<le> 10000 \<and> unat (hs_latency sc) \<le> 10000 \<and> unat (hs_routing sc) \<le> 10000 \<and>
    unat (hs_recovery sc) \<le> 10000 \<and> unat (hs_composite sc) \<le> 10000 \<and>
    unat (hs_composite sc) = (40 * unat (hs_success_rate sc) + 25 * unat (hs_latency sc) +
      20 * unat (hs_routing sc) + 15 * unat (hs_recovery sc)) div 100 \<and>
    (2 \<le> hs_window_count sc \<longrightarrow>
       (hs_trend sc = Improving \<longleftrightarrow> unat (hs_previous sc) + 150 < unat (hs_composite sc)) \<and>
       (hs_trend sc = Degrading \<longleftrightarrow> unat (hs_composite sc) + 150 < unat (hs_previous sc))) \<and>
    (hs_window_count sc < 2 \<longrightarrow> hs_trend sc = Steady \<and> hs_previous sc = 0)"
proof (cases "get_anchor_health_windows s a = []")
  case True
  with assms show ?thesis by (auto simp: get_anchor_health_score_def)
next
  case False
  let ?ws = "get_anchor_health_windows s a"
  from assms False obtain sr lat rt rec trend prev where
    one: "score_one (?ws ! (length ?ws - 1)) = Inr (sr, lat, rt, rec)"
    and two: "(if 2 \<le> length ?ws then bind_ok (score_one (?ws ! (length ?ws - 2)))
        (\<lambda>x. let prev = composite_from x in Inr (trend_of (composite_from (sr, lat, rt, rec)) prev, prev))
        else Inr (Steady, 0)) = Inr (trend, prev)"
    and sc: "sc = \<lparr>hs_anchor = a, hs_composite = composite_from (sr, lat, rt, rec), hs_success_rate = sr,
       hs_latency = lat, hs_routing = rt, hs_recovery = rec, hs_trend = trend, hs_previous = prev,
       hs_scored_at = timestamp e, hs_window_count = length ?ws\<rparr>"
    by (auto simp: get_anchor_health_score_def Let_def bind_ok_Inr)
  note b = score_one_bounds [OF one]
  note c = composite_value [of sr lat rt rec]
  have trend: "trend_of n p = Improving \<longleftrightarrow> unat p + 150 < unat n" "trend_of n p = Degrading \<longleftrightarrow> unat n + 150 < unat p"
    for n p :: u32
    by (auto simp: trend_of_def TREND_THRESH_def word_less_nat_alt unat_sub_if')
  have "2 \<le> length ?ws \<longrightarrow> trend = trend_of (composite_from (sr, lat, rt, rec)) prev"
    using two by (auto simp: bind_ok_Inr Let_def)
  moreover have "length ?ws < 2 \<longrightarrow> trend = Steady \<and> prev = 0" using two by auto
  moreover have "(40 * unat sr + 25 * unat lat + 20 * unat rt + 15 * unat rec) div 100 \<le> 1000000 div 100"
    using b by (intro div_le_mono) linarith
  ultimately show ?thesis
    using b c by (simp add: sc trend)
qed

theorem health_score_bounds_witness:
  "\<exists>sc. get_anchor_health_score (accepting_env 9 1 {}) (fresh_contract\<lparr>c_anchors := empty_anchor_store\<lparr>an_health :=
     \<lparr>he_metrics = Map.empty, he_windows = [''A'' \<mapsto> [\<lparr>hw_started_at = 0, hw_ended_at = 5,
        hw_success = 3, hw_failure = 1, hw_latency = 0, hw_attempts = 4, hw_routing_failures = 2,
        hw_recovery = 0\<rparr>]], he_proofs = Map.empty\<rparr>\<rparr>\<rparr>) ''A'' = Inr sc \<and>
     unat (hs_composite sc) = 6750 \<and> hs_trend sc = Steady"
proof -
  let ?s = "fresh_contract\<lparr>c_anchors := empty_anchor_store\<lparr>an_health :=
     \<lparr>he_metrics = Map.empty, he_windows = [''A'' \<mapsto> [\<lparr>hw_started_at = 0, hw_ended_at = 5,
        hw_success = 3, hw_failure = 1, hw_latency = 0, hw_attempts = 4, hw_routing_failures = 2,
        hw_recovery = 0\<rparr>]], he_proofs = Map.empty\<rparr>\<rparr>\<rparr>"
  have ws: "get_anchor_health_windows ?s ''A'' = [\<lparr>hw_started_at = 0, hw_ended_at = 5,
        hw_success = 3, hw_failure = 1, hw_latency = 0, hw_attempts = 4, hw_routing_failures = 2,
        hw_recovery = 0\<rparr>]" by (simp add: get_anchor_health_windows_def)
  have one: "score_one \<lparr>hw_started_at = 0, hw_ended_at = 5, hw_success = 3, hw_failure = 1, hw_latency = 0,
      hw_attempts = 4, hw_routing_failures = 2, hw_recovery = 0\<rparr> = Inr (7500, 5000, 5000, 10000)"
    by (simp add: score_one_def plus_trap_def checked_add_def rate_bps_def latency_bps_def routing_bps_def
        recovery_bps_def sat_mul_def min_def)
  obtain sc where sc: "get_anchor_health_score (accepting_env 9 1 {}) ?s ''A'' = Inr sc"
    "hs_success_rate sc = 7500" "hs_latency sc = 5000" "hs_routing sc = 5000" "hs_recovery sc = 10000"
    "hs_window_count sc = 1"
    by (simp add: get_anchor_health_score_def ws one)
  from health_score_bounds [OF sc(1)] sc show ?thesis by auto
qed

end
