(* ===== verification/Anchor_System.thy ===== *)
theory Anchor_System
  imports Contract_Caches Contract_Services Contract_Directory Contract_Routing Contract_Health
begin

text \<open>
  The entry points of the contract that change what it keeps about anchors, as calls, and the
  invariant of the anchor store that all of them keep.
\<close>

section \<open>Calls\<close>

datatype (plugins only: size) cache_call =
    SetCacheConfig cache_config
  | SetCachePolicySet cache_policy_set
  | CacheMetadata address anchor_metadata u64
  | CacheMetadataSwr address anchor_metadata u64 u64
  | ForceRefreshMetadata address anchor_metadata u64 u64
  | RefreshMetadataCacheSwr address anchor_metadata u64 u64
  | CacheCapabilities address string string u64
  | RefreshMetadataCache address anchor_metadata u64
  | RefreshCapabilitiesCache address string string u64
  | GetCachedMetadataSwr address
  | InvalidateCacheForAnchor address
  | CompactCache "address list"
  | ProposeCacheInvalidation address address
  | EndorseCacheInvalidation address u64
  | ExecuteCacheInvalidation u64
  | SetCacheQuorumThreshold u32
  | SetCacheProposalExpiry u32

datatype (plugins only: size) service_call =
    SetEndpoint address string
  | RegisterWebhook address string
  | ConfigureServices address "u32 list"
  | ConfigureServicesWithRetire address "u32 list" "service_retirement_info list"
  | RetireService address u32 "u64 option" "string option"
  | UnretireService address u32
  | EnableService address address u32
  | DisableService address address u32
  | SnapshotServices address address "u32 list" string
  | RollbackServices address u64

datatype (plugins only: size) directory_call =
    SetAnchorMetadata address u32 u64 u32 u32 u64
  | DeactivateAnchor address
  | ReactivateAnchor address
  | BlacklistAnchor address string
  | RemoveFromBlacklist address
  | CreateAnchorCluster string string "address list"
  | DeleteAnchorCluster string
  | UpdateAnchorClusterAnchors string "address list"

datatype (plugins only: size) routing_call =
    RouteTransaction routing_options
  | RouteWithFallback routing_options address
  | SetAnchorReputation address u64 u64 u32 u64 u64
  | SetReputationWeights u32 u32 u32
  | RegisterTimedRoutingPolicy string string u32 u32 u32
  | SetTimedPolicyEnabled u64 bool
  | RegisterNetworkRoutingProfile string string u32 u32 u32 u32 bool
  | SetActiveNetwork string
  | SetCompliancePolicy "u32 option"

datatype (plugins only: size) health_call =
    FetchAnchorInfo address stellar_toml u64 string
  | RefreshAnchorInfo address stellar_toml u64 string
  | RecordHealthEvent address bool
  | ResetAnchorHealth address
  | RecordHealthWindow address anchor_health_window
  | RegisterEndpointProof address string bytes
  | VerifyEndpointProof address bytes

datatype (plugins only: size) anchor_call =
    CacheCall cache_call
  | ServiceCall service_call
  | DirectoryCall directory_call
  | RoutingCall routing_call
  | HealthCall health_call

text \<open>The storage after a call that also returns a value.\<close>

definition storage_of :: "trap + ('a \<times> contract) \<Rightarrow> trap + contract" where
  "storage_of m = bind_ok m (\<lambda>(_, s). Inr s)"

lemma storage_of_Inr [ok_simps]: "storage_of m = Inr s' \<longleftrightarrow> (\<exists>x. m = Inr (x, s'))"
  by (cases m) (auto simp: storage_of_def)

primrec exec_cache :: "env \<Rightarrow> cache_call \<Rightarrow> contract \<Rightarrow> trap + contract" where
  "exec_cache e (SetCacheConfig cfg) s = set_cache_config e cfg s"
| "exec_cache e (SetCachePolicySet ps) s = set_cache_policy_set e ps s"
| "exec_cache e (CacheMetadata a m t) s = cache_metadata e a m t s"
| "exec_cache e (CacheMetadataSwr a m t u) s = cache_metadata_swr e a m t u s"
| "exec_cache e (ForceRefreshMetadata a m t u) s = force_refresh_metadata e a m t u s"
| "exec_cache e (RefreshMetadataCacheSwr a m t u) s = refresh_metadata_cache_swr e a m t u s"
| "exec_cache e (CacheCapabilities a url c t) s = cache_capabilities e a url c t s"
| "exec_cache e (RefreshMetadataCache a m t) s = refresh_metadata_cache e a m t s"
| "exec_cache e (RefreshCapabilitiesCache a url c t) s = refresh_capabilities_cache e a url c t s"
| "exec_cache e (GetCachedMetadataSwr a) s = storage_of (get_cached_metadata_swr e a s)"
| "exec_cache e (InvalidateCacheForAnchor a) s = storage_of (invalidate_cache_for_anchor e a s)"
| "exec_cache e (CompactCache xs) s = storage_of (compact_cache e xs s)"
| "exec_cache e (ProposeCacheInvalidation c a) s = storage_of (propose_cache_invalidation e c a s)"
| "exec_cache e (EndorseCacheInvalidation c i) s = endorse_cache_invalidation e c i s"
| "exec_cache e (ExecuteCacheInvalidation i) s = execute_cache_invalidation e i s"
| "exec_cache e (SetCacheQuorumThreshold n) s = set_cache_quorum_threshold e n s"
| "exec_cache e (SetCacheProposalExpiry n) s = set_cache_proposal_expiry e n s"

primrec exec_service :: "env \<Rightarrow> service_call \<Rightarrow> contract \<Rightarrow> trap + contract" where
  "exec_service e (SetEndpoint a url) s = set_endpoint e a url s"
| "exec_service e (RegisterWebhook a url) s = register_webhook e a url s"
| "exec_service e (ConfigureServices a cs) s = configure_services e a cs s"
| "exec_service e (ConfigureServicesWithRetire a cs rs) s = configure_services_with_retire e a cs rs s"
| "exec_service e (RetireService a c t n) s = retire_service e a c t n s"
| "exec_service e (UnretireService a c) s = unretire_service e a c s"
| "exec_service e (EnableService c a k) s = storage_of (enable_service e c a k s)"
| "exec_service e (DisableService c a k) s = storage_of (disable_service e c a k s)"
| "exec_service e (SnapshotServices c a xs d) s = storage_of (snapshot_services e c a xs d s)"
| "exec_service e (RollbackServices c i) s = storage_of (rollback_services e c i s)"

primrec exec_directory :: "env \<Rightarrow> directory_call \<Rightarrow> contract \<Rightarrow> trap + contract" where
  "exec_directory e (SetAnchorMetadata a r t l u v) s = set_anchor_metadata e a r t l u v s"
| "exec_directory e (DeactivateAnchor a) s = deactivate_anchor e a s"
| "exec_directory e (ReactivateAnchor a) s = reactivate_anchor e a s"
| "exec_directory e (BlacklistAnchor a why) s = blacklist_anchor e a why s"
| "exec_directory e (RemoveFromBlacklist a) s = remove_from_blacklist e a s"
| "exec_directory e (CreateAnchorCluster i n xs) s = create_anchor_cluster e i n xs s"
| "exec_directory e (DeleteAnchorCluster i) s = delete_anchor_cluster e i s"
| "exec_directory e (UpdateAnchorClusterAnchors i xs) s = update_anchor_cluster_anchors e i xs s"

primrec exec_routing :: "env \<Rightarrow> routing_call \<Rightarrow> contract \<Rightarrow> trap + contract" where
  "exec_routing e (RouteTransaction opts) s = storage_of (route_transaction e opts s)"
| "exec_routing e (RouteWithFallback opts a) s = storage_of (route_with_fallback e opts a s)"
| "exec_routing e (SetAnchorReputation a tot su q u t) s = set_anchor_reputation e a tot su q u t s"
| "exec_routing e (SetReputationWeights x y z) s = set_reputation_weights e x y z s"
| "exec_routing e (RegisterTimedRoutingPolicy n st w1 w2 p) s =
     storage_of (register_timed_routing_policy e n st w1 w2 p s)"
| "exec_routing e (SetTimedPolicyEnabled i b) s = set_timed_policy_enabled e i b s"
| "exec_routing e (RegisterNetworkRoutingProfile n st f sp rp mr d) s =
     register_network_routing_profile e n st f sp rp mr d s"
| "exec_routing e (SetActiveNetwork n) s = set_active_network e n s"
| "exec_routing e (SetCompliancePolicy m) s = set_compliance_policy e m s"

primrec exec_health :: "env \<Rightarrow> health_call \<Rightarrow> contract \<Rightarrow> trap + contract" where
  "exec_health e (FetchAnchorInfo a toml t src) s = fetch_anchor_info e a toml t src s"
| "exec_health e (RefreshAnchorInfo a toml t src) s = refresh_anchor_info e a toml t src s"
| "exec_health e (RecordHealthEvent a b) s = record_health_event e a b s"
| "exec_health e (ResetAnchorHealth a) s = reset_anchor_health e a s"
| "exec_health e (RecordHealthWindow a w) s = record_health_window e a w s"
| "exec_health e (RegisterEndpointProof a url h) s = register_endpoint_proof e a url h s"
| "exec_health e (VerifyEndpointProof a h) s = storage_of (Inr (verify_endpoint_proof e a h s))"

primrec exec_anchor :: "env \<Rightarrow> anchor_call \<Rightarrow> contract \<Rightarrow> trap + contract" where
  "exec_anchor e (CacheCall c) s = exec_cache e c s"
| "exec_anchor e (ServiceCall c) s = exec_service e c s"
| "exec_anchor e (DirectoryCall c) s = exec_directory e c s"
| "exec_anchor e (RoutingCall c) s = exec_routing e c s"
| "exec_anchor e (HealthCall c) s = exec_health e c s"

section \<open>Invariant\<close>

definition anchor_inv :: "anchor_store \<Rightarrow> bool" where
  "anchor_inv a \<longleftrightarrow> profile_inv (an_profiles a) \<and> toggles_inv (an_switches a) \<and>
     governance_inv (an_governance a) \<and> directory_inv (an_directory a) \<and> routing_inv (an_routing a) \<and>
     health_inv (an_health a)"

lemma anchor_inv_empty: "anchor_inv empty_anchor_store"
proof -
  have "\<not> ((1 :: u64) \<le> i \<and> i \<le> 0)" "\<not> ((1 :: u32) \<le> j \<and> j \<le> 0)" for i j
    by (auto simp: word_le_nat_alt)
  then show ?thesis
    by (simp add: anchor_inv_def empty_anchor_store_def profile_inv_def directory_inv_def routing_inv_def
        health_inv_def governance_inv_empty toggles_inv_def empty_service_store_def)
qed

definition anchor_effect :: "contract \<Rightarrow> contract \<Rightarrow> bool" where
  "anchor_effect s s' \<longleftrightarrow> anchor_step s s' \<and> (anchor_inv (c_anchors s) \<longrightarrow> anchor_inv (c_anchors s'))"

text \<open>Each group's effect is one on the whole store.\<close>

lemma group_effects:
  "caches_effect s s' \<Longrightarrow> anchor_effect s s'" "services_effect s s' \<Longrightarrow> anchor_effect s s'"
  "directory_effect s s' \<Longrightarrow> anchor_effect s s'" "routing_effect s s' \<Longrightarrow> anchor_effect s s'"
  "health_effect s s' \<Longrightarrow> anchor_effect s s'"
  by (simp_all add: anchor_effect_def anchor_inv_def caches_effect_def services_effect_def
      directory_effect_def routing_effect_def health_effect_def)

lemma exec_cache_effect: "exec_cache e c s = Inr s' \<Longrightarrow> caches_effect s s'"
  by (cases c) (auto simp: storage_of_Inr intro: caches_effect_governance only_caches_effect
      only_caches_writes only_caches_refreshes only_caches_read only_caches_invalidate_call only_caches_compact)

lemma exec_service_effect: "exec_service e c s = Inr s' \<Longrightarrow> services_effect s s'"
  by (cases c) (auto simp: storage_of_Inr configure_services_def configure_services_with_retire_def
      intro: services_effect_profile services_effect_configure services_effect_retire
        services_effect_switches services_effect_snapshots services_effect_rollback)

lemma exec_directory_effect: "exec_directory e c s = Inr s' \<Longrightarrow> directory_effect s s'"
  by (cases c) (auto intro: directory_effect_version directory_effect_metadata directory_effect_blacklist
      directory_effect_clusters)

lemma exec_routing_effect: "exec_routing e c s = Inr s' \<Longrightarrow> routing_effect s s'"
  by (cases c) (auto simp: storage_of_Inr intro: routing_effect_route routing_effect_fallback
      routing_effect_settings routing_effect_enabled routing_effect_policy)

lemma exec_health_effect: "exec_health e c s = Inr s' \<Longrightarrow> health_effect s s'"
  by (cases c) (auto simp: storage_of_Inr intro: health_effect_counters health_effect_window
      health_effect_proofs health_effect_info)

lemma exec_anchor_effect: "exec_anchor e c s = Inr s' \<Longrightarrow> anchor_effect s s'"
  by (cases c) (auto dest: exec_cache_effect exec_service_effect exec_directory_effect exec_routing_effect
      exec_health_effect intro: group_effects)

text \<open>An executed proposal is never changed again.\<close>

lemma exec_cache_executed:
  assumes "exec_cache e c s = Inr s'" and "governance_inv (governance s)"
    and "gov_proposals (governance s) i = Some p" and "ip_executed p"
  shows "gov_proposals (governance s') i = Some p"
proof -
  have same: "gov_proposals (governance s') i = Some p" if "only_caches s s'"
    using that assms(3) by (simp add: only_caches_def)
  show ?thesis
  proof (cases c)
    case (SetCachePolicySet ps)
    with assms(1,3) show ?thesis
      by (auto simp: set_cache_policy_set_def bind_ok_Inr or_panic_Inr set_policy_set_def)
  next
    case (ProposeCacheInvalidation cl a)
    with assms(1) obtain n g where "propose e cl a (governance s) = Inr (n, g)" "s' = with_governance g s"
      by (auto simp: storage_of_Inr propose_cache_invalidation_def bind_ok_Inr or_panic_Inr)
    moreover from this(1) assms(2,3) have "n \<noteq> i" by (auto dest!: propose_ok simp: governance_inv_def)
    ultimately show ?thesis using assms(3) by (auto dest: propose_ok)
  next
    case (EndorseCacheInvalidation cl n)
    with assms(1) obtain g where "endorse e cl n (governance s) = Inr g" "s' = with_governance g s"
      by (auto simp: endorse_cache_invalidation_def bind_ok_Inr or_panic_Inr)
    with assms(3,4) show ?thesis by (auto dest!: endorse_ok)
  next
    case (ExecuteCacheInvalidation n)
    with assms(1) obtain a g where "execute_proposal e n (governance s) = Inr (a, g)"
      "governance s' = g"
      by (auto simp: execute_cache_invalidation_def bind_ok_Inr or_panic_Inr)
    with assms(3,4) show ?thesis by (auto dest!: execute_proposal_ok)
  next
    case (SetCacheQuorumThreshold n)
    with assms(1,3) show ?thesis
      by (auto simp: set_cache_quorum_threshold_def bind_ok_Inr or_panic_Inr set_governance_def split: if_split_asm)
  next
    case (SetCacheProposalExpiry n)
    with assms(1,3) show ?thesis
      by (auto simp: set_cache_proposal_expiry_def bind_ok_Inr or_panic_Inr set_governance_def split: if_split_asm)
  qed (use assms(1) in \<open>auto simp: storage_of_Inr intro!: same intro: only_caches_writes only_caches_refreshes
      only_caches_read only_caches_invalidate_call only_caches_compact\<close>)
qed

lemma exec_anchor_executed:
  assumes "exec_anchor e c s = Inr s'" and "governance_inv (governance s)"
    and "gov_proposals (governance s) i = Some p" and "ip_executed p"
  shows "gov_proposals (governance s') i = Some p"
proof (cases c)
  case (CacheCall x)
  with assms show ?thesis by (auto intro: exec_cache_executed)
qed (use assms in \<open>auto dest!: exec_service_effect exec_directory_effect exec_routing_effect exec_health_effect
    simp: services_effect_def directory_effect_def routing_effect_def health_effect_def\<close>)

end
