(* ===== verification/Contract_System.thy ===== *)
theory Contract_System
  imports Contract_Tracing Contract_Kyc Contract_Quotes Contract_Transactions Anchor_System
begin

text \<open>
  The contract as a whole: its entry points as calls, one step of the contract, and the
  composition of the component invariants over every history of calls.  The host rolls a trapping
  call back (\<open>run\<close>).
\<close>

section \<open>Calls\<close>

datatype (plugins only: size) admin_call =
    Initialize address
  | ProposeAdminTransfer address
  | AcceptAdminTransfer
  | GrantRole address admin_role
  | RevokeRole address admin_role
  | GrantCapability address admin_capability
  | RevokeCapability address admin_capability
  | Upgrade bytes
  | SetRateLimitConfig address u32 u32
  | SetRoleRateLimit address string rate_limit_config
  | SetAddressRateLimit address address rate_limit_config
  | SetSep10Key address bytes
  | RotateSep10Key address bytes
  | SetJwtMaxLen u32
  | SetJwtSkew u64
  | VerifySep10Token string address "string option"
  | PurgeExpiredJtis

datatype (plugins only: size) attestor_call =
    SetCapacityConfig capacity_config
  | RegisterAttestor address string address bytes
  | RevokeAttestor address
  | ReactivateAttestor address

datatype (plugins only: size) attest_call =
    SubmitAttestation address address u64 bytes bytes
  | SubmitAttestationBatch address "attestation_input list"
  | SubmitAttestationKycCheck address address u64 bytes bytes bool
  | SubmitWithRequestId request_id address address u64 bytes bytes
  | CreateRequestContext request_id
  | AppendOperation bytes string
  | GenerateRequestId
  | PropagateSpan request_id request_id string address

datatype (plugins only: size) session_call =
    CreateSession address
  | CloseSession u64 address
  | SubmitAttestationWithSession u64 address address u64 bytes bytes
  | RegisterAttestorWithSession address u64 address bytes
  | RevokeAttestorWithSession address u64 address
  | SetAuditLogRetention u64
  | PruneAuditLogs u64
  | SetAutoPruneThreshold u32
  | GetAuditLogCount

datatype (plugins only: size) kyc_call =
    SubmitKyc address bytes address
  | ApproveKyc address address
  | RejectKyc address address bytes
  | ReopenKyc address address
  | RecordComplianceCheck address string bool "u32 option"

datatype (plugins only: size) quote_call =
    SubmitQuote address string string u64 u32 u64 u64 u64 "string option"
  | ReceiveQuote address address u64
  | InvalidateQuote address u64
  | PurgeExpiredQuotes
  | AcceptQuoteWithCompliance address address u64 bool
  | Migrate u32 u32

datatype (plugins only: size) txn_call =
    SetEvictionPolicy bool u32
  | SetStorageBudgetThresholds u64 u64
  | CreateTransactionRecord u64 address "string option"
  | StartTransactionRecord u64
  | CompleteTransactionRecord u64
  | FailTransactionRecord u64 string

datatype (plugins only: size) call =
    AdminCall admin_call
  | AttestorCall attestor_call
  | AttestCall attest_call
  | SessionCall session_call
  | KycCall kyc_call
  | QuoteCall quote_call
  | TxnCall txn_call
  | AnchorCall anchor_call

primrec exec_admin :: "env \<Rightarrow> admin_call \<Rightarrow> contract \<Rightarrow> trap + contract" where
  "exec_admin e (Initialize a) s = initialize e a s"
| "exec_admin e (ProposeAdminTransfer a) s = propose_admin_transfer e a s"
| "exec_admin e AcceptAdminTransfer s = accept_admin_transfer e s"
| "exec_admin e (GrantRole a r) s = grant_role e a r s"
| "exec_admin e (RevokeRole a r) s = revoke_role e a r s"
| "exec_admin e (GrantCapability a c) s = grant_capability e a c s"
| "exec_admin e (RevokeCapability a c) s = revoke_capability e a c s"
| "exec_admin e (Upgrade h) s = upgrade e h s"
| "exec_admin e (SetRateLimitConfig a m w) s = set_rate_limit_config e a m w s"
| "exec_admin e (SetRoleRateLimit a r cfg) s = set_role_rate_limit e a r cfg s"
| "exec_admin e (SetAddressRateLimit a b cfg) s = set_address_rate_limit e a b cfg s"
| "exec_admin e (SetSep10Key iss k) s = set_sep10_jwt_verifying_key e iss k s"
| "exec_admin e (RotateSep10Key iss k) s = rotate_sep10_key e iss k s"
| "exec_admin e (SetJwtMaxLen n) s = set_jwt_max_len e n s"
| "exec_admin e (SetJwtSkew n) s = set_jwt_skew e n s"
| "exec_admin e (VerifySep10Token tok iss sub) s = verify_sep10_token e tok iss sub s"
| "exec_admin e PurgeExpiredJtis s = purge_expired_jtis e s"

primrec exec_attestor :: "env \<Rightarrow> attestor_call \<Rightarrow> contract \<Rightarrow> trap + contract" where
  "exec_attestor e (SetCapacityConfig cfg) s = set_capacity_config e cfg s"
| "exec_attestor e (RegisterAttestor a tok iss pk) s = register_attestor e a tok iss pk s"
| "exec_attestor e (RevokeAttestor a) s = revoke_attestor e a s"
| "exec_attestor e (ReactivateAttestor a) s = reactivate_attestor e a s"

primrec exec_attest :: "env \<Rightarrow> attest_call \<Rightarrow> contract \<Rightarrow> trap + contract" where
  "exec_attest e (SubmitAttestation iss sub ts h sg) s = storage_of (submit_attestation e iss sub ts h sg s)"
| "exec_attest e (SubmitAttestationBatch a xs) s = storage_of (submit_attestation_batch e a xs s)"
| "exec_attest e (SubmitAttestationKycCheck iss sub ts h sg k) s =
     storage_of (submit_attestation_kyc_check e iss sub ts h sg k s)"
| "exec_attest e (SubmitWithRequestId rid iss sub ts h sg) s =
     storage_of (submit_with_request_id e rid iss sub ts h sg s)"
| "exec_attest e (CreateRequestContext rid) s = storage_of (create_request_context e rid s)"
| "exec_attest e (AppendOperation rt op) s = append_operation e rt op s"
| "exec_attest e GenerateRequestId s = storage_of (generate_request_id e s)"
| "exec_attest e (PropagateSpan parent child op a) s = propagate_span e parent child op a s"

primrec exec_session :: "env \<Rightarrow> session_call \<Rightarrow> contract \<Rightarrow> trap + contract" where
  "exec_session e (CreateSession a) s = storage_of (create_session e a s)"
| "exec_session e (CloseSession i a) s = close_session e i a s"
| "exec_session e (SubmitAttestationWithSession i iss sub ts h sg) s =
     storage_of (submit_attestation_with_session e i iss sub ts h sg s)"
| "exec_session e (RegisterAttestorWithSession op i a pk) s = register_attestor_with_session e op i a pk s"
| "exec_session e (RevokeAttestorWithSession op i a) s = revoke_attestor_with_session e op i a s"
| "exec_session e (SetAuditLogRetention d) s = set_audit_log_retention e d s"
| "exec_session e (PruneAuditLogs t) s = storage_of (prune_audit_logs e t s)"
| "exec_session e (SetAutoPruneThreshold n) s = set_auto_prune_threshold e n s"
| "exec_session e GetAuditLogCount s = storage_of (get_audit_log_count e s)"

primrec exec_kyc :: "env \<Rightarrow> kyc_call \<Rightarrow> contract \<Rightarrow> trap + contract" where
  "exec_kyc e (SubmitKyc sub h a) s = submit_kyc e sub h a s"
| "exec_kyc e (ApproveKyc a sub) s = approve_kyc e a sub s"
| "exec_kyc e (RejectKyc a sub h) s = reject_kyc e a sub h s"
| "exec_kyc e (ReopenKyc a sub) s = reopen_kyc e a sub s"
| "exec_kyc e (RecordComplianceCheck sub ct p sc) s = record_compliance_check e sub ct p sc s"

primrec exec_quote :: "env \<Rightarrow> quote_call \<Rightarrow> contract \<Rightarrow> trap + contract" where
  "exec_quote e (SubmitQuote a b q r f mi ma v rr) s = storage_of (submit_quote_with_reason e a b q r f mi ma v rr s)"
| "exec_quote e (ReceiveQuote r a i) s = storage_of (receive_quote e r a i s)"
| "exec_quote e (InvalidateQuote a i) s = invalidate_quote e a i s"
| "exec_quote e PurgeExpiredQuotes s = purge_expired_quotes e s"
| "exec_quote e (AcceptQuoteWithCompliance r a i c) s = storage_of (accept_quote_with_compliance e r a i c s)"
| "exec_quote e (Migrate v n) s = migrate e v n s"

primrec exec_txn :: "stamp_sort \<Rightarrow> env \<Rightarrow> txn_call \<Rightarrow> contract \<Rightarrow> trap + contract" where
  "exec_txn srt e (SetEvictionPolicy b k) s = set_eviction_policy e b k s"
| "exec_txn srt e (SetStorageBudgetThresholds w c) s = set_storage_budget_thresholds e w c s"
| "exec_txn srt e (CreateTransactionRecord i a rr) s =
     storage_of (Inr (create_txn_record_with_reason srt e i a rr s))"
| "exec_txn srt e (StartTransactionRecord i) s = storage_of (start_transaction_record e i s)"
| "exec_txn srt e (CompleteTransactionRecord i) s = storage_of (complete_transaction_record e i s)"
| "exec_txn srt e (FailTransactionRecord i msg) s = storage_of (fail_transaction_record e i msg s)"

primrec exec :: "stamp_sort \<Rightarrow> env \<Rightarrow> call \<Rightarrow> contract \<Rightarrow> trap + contract" where
  "exec srt e (AdminCall c) s = exec_admin e c s"
| "exec srt e (AttestorCall c) s = exec_attestor e c s"
| "exec srt e (AttestCall c) s = exec_attest e c s"
| "exec srt e (SessionCall c) s = exec_session e c s"
| "exec srt e (KycCall c) s = exec_kyc e c s"
| "exec srt e (QuoteCall c) s = exec_quote e c s"
| "exec srt e (TxnCall c) s = exec_txn srt e c s"
| "exec srt e (AnchorCall c) s = exec_anchor e c s"

section \<open>Footprints\<close>

datatype (plugins only: size) part =
  PAccess | PSchema | PAudit | PRateLimit | PReplay | PJwt | PAttestors | PAttest | PTracing |
  PSessions | PKyc | PQuotes | PTxs | PAnchors

primrec same_part :: "part \<Rightarrow> contract \<Rightarrow> contract \<Rightarrow> bool" where
  "same_part PAccess s s' \<longleftrightarrow> c_access s' = c_access s"
| "same_part PSchema s s' \<longleftrightarrow> c_schema s' = c_schema s"
| "same_part PAudit s s' \<longleftrightarrow> c_audit s' = c_audit s"
| "same_part PRateLimit s s' \<longleftrightarrow> c_rl s' = c_rl s"
| "same_part PReplay s s' \<longleftrightarrow> c_replay s' = c_replay s"
| "same_part PJwt s s' \<longleftrightarrow> c_jwt s' = c_jwt s"
| "same_part PAttestors s s' \<longleftrightarrow> c_attestors s' = c_attestors s"
| "same_part PAttest s s' \<longleftrightarrow> c_attest s' = c_attest s"
| "same_part PTracing s s' \<longleftrightarrow> c_tracing s' = c_tracing s"
| "same_part PSessions s s' \<longleftrightarrow> c_sessions s' = c_sessions s"
| "same_part PKyc s s' \<longleftrightarrow> c_kyc s' = c_kyc s"
| "same_part PQuotes s s' \<longleftrightarrow> c_quotes s' = c_quotes s"
| "same_part PTxs s s' \<longleftrightarrow> c_txs s' = c_txs s"
| "same_part PAnchors s s' \<longleftrightarrow> c_anchors s' = c_anchors s"

primrec footprint :: "call \<Rightarrow> part list" where
  "footprint (AdminCall c) = [PAccess, PSchema, PAudit, PRateLimit, PJwt, PAttestors]"
| "footprint (AttestorCall c) = [PAttestors, PAudit, PJwt]"
| "footprint (AttestCall c) = [PAttest, PAudit, PRateLimit, PReplay, PTracing]"
| "footprint (SessionCall c) = [PSessions, PAttest, PAttestors, PAudit, PRateLimit, PReplay]"
| "footprint (KycCall c) = [PKyc, PAudit]"
| "footprint (QuoteCall c) = [PQuotes, PAudit, PSchema]"
| "footprint (TxnCall c) = [PTxs]"
| "footprint (AnchorCall c) = [PAnchors, PAudit]"

section \<open>What each group of calls changes\<close>

text \<open>
  The parts outside the footprint stay as they are, and the audit log and the schema history keep
  their invariants.  A group's own invariants are those of its theory.
\<close>

definition logs_kept :: "contract \<Rightarrow> contract \<Rightarrow> bool" where
  "logs_kept s s' \<longleftrightarrow> (audit_inv (c_audit s) \<longrightarrow> audit_inv (c_audit s')) \<and>
     (schema_inv (c_schema s) \<longrightarrow> schema_inv (c_schema s'))"

definition admin_effect :: "contract \<Rightarrow> contract \<Rightarrow> bool" where
  "admin_effect s s' \<longleftrightarrow> logs_kept s s' \<and>
     c_replay s' = c_replay s \<and> c_attest s' = c_attest s \<and> c_tracing s' = c_tracing s \<and>
     c_sessions s' = c_sessions s \<and> c_kyc s' = c_kyc s \<and> c_quotes s' = c_quotes s \<and> c_txs s' = c_txs s \<and> c_anchors s' = c_anchors s \<and>
     ats_registered (c_attestors s') = ats_registered (c_attestors s) \<and>
     ats_public_key (c_attestors s') = ats_public_key (c_attestors s) \<and>
     ats_list (c_attestors s') = ats_list (c_attestors s)"

lemma initialize_ok:
  assumes "initialize e a s = Inr s'"
  shows "a \<in> auths e \<and> \<not> acc_initialized (c_access s) \<and>
    c_access s' = (c_access s)\<lparr>acc_initialized := True, acc_admin := Some a\<rparr> \<and> admin_effect s s'"
  using assms
  by (auto simp: initialize_def ok_simps Let_def case_sum_Inr admin_effect_def logs_kept_def
      intro: set_version_inv split: if_split_asm)

lemma audited_effect:
  assumes "audit_action e a ct t ov nv s = Inr s'"
  shows "\<exists>au. s' = s\<lparr>c_audit := au\<rparr> \<and> (audit_inv (c_audit s) \<longrightarrow> audit_inv au)"
  using assms write_event_audit_inv by (auto simp: audit_action_Inr)

lemma admin_effect_refl [simp]: "admin_effect s s"
  by (simp add: admin_effect_def logs_kept_def)

lemma admin_effectI [simp]:
  "admin_effect s (emit ev s1) \<longleftrightarrow> admin_effect s s1"
  "admin_effect s (s1\<lparr>c_access := x\<rparr>) \<longleftrightarrow> admin_effect s s1"
  "admin_effect s (s1\<lparr>c_rl := y\<rparr>) \<longleftrightarrow> admin_effect s s1"
  "admin_effect s (s1\<lparr>c_jwt := z\<rparr>) \<longleftrightarrow> admin_effect s s1"
  by (simp_all add: admin_effect_def logs_kept_def)

lemma admin_effect_audit:
  assumes "audit_action e a ct t ov nv s1 = Inr s2"
  shows "admin_effect s s1 \<longrightarrow> admin_effect s s2"
  using audited_effect [OF assms] by (auto simp: admin_effect_def logs_kept_def)

lemma admin_effect_steps:
  "propose_admin_transfer e a s = Inr s' \<Longrightarrow> admin_effect s s'"
  "accept_admin_transfer e s = Inr s' \<Longrightarrow> admin_effect s s'"
  "grant_role e a rl s = Inr s' \<Longrightarrow> admin_effect s s'"
  "revoke_role e a rl s = Inr s' \<Longrightarrow> admin_effect s s'"
  "grant_capability e a cp s = Inr s' \<Longrightarrow> admin_effect s s'"
  "revoke_capability e a cp s = Inr s' \<Longrightarrow> admin_effect s s'"
  by (auto simp: propose_admin_transfer_def accept_admin_transfer_def grant_role_def revoke_role_def
      grant_capability_def revoke_capability_def bind_ok_Inr Let_def dest!: admin_effect_audit [where s = s])

lemma admin_effect_upgrade: "upgrade e h s = Inr s' \<Longrightarrow> admin_effect s s'"
  by (auto simp: upgrade_def bind_ok_Inr Let_def split: if_split_asm dest!: admin_effect_audit [where s = s])

lemma admin_effect_limits:
  "set_rate_limit_config e a m w s = Inr s' \<Longrightarrow> admin_effect s s'"
  "set_role_rate_limit e a r cfg s = Inr s' \<Longrightarrow> admin_effect s s'"
  "set_address_rate_limit e a b cfg s = Inr s' \<Longrightarrow> admin_effect s s'"
  by (auto simp: set_rate_limit_config_def set_role_rate_limit_def set_address_rate_limit_def
      bind_ok_Inr case_sum_Inr dest!: admin_effect_audit [where s = s])

lemma admin_effect_sep10:
  "set_sep10_jwt_verifying_key e iss k s = Inr s' \<Longrightarrow> admin_effect s s'"
  "rotate_sep10_key e iss k s = Inr s' \<Longrightarrow> admin_effect s s'"
  "set_jwt_max_len e n s = Inr s' \<Longrightarrow> admin_effect s s'"
  "set_jwt_skew e sk s = Inr s' \<Longrightarrow> admin_effect s s'"
  "verify_sep10_token e tok iss sub s = Inr s' \<Longrightarrow> admin_effect s s'"
  "purge_expired_jtis e s = Inr s' \<Longrightarrow> admin_effect s s'"
  by (auto simp: set_sep10_jwt_verifying_key_def rotate_sep10_key_def set_jwt_max_len_def set_jwt_skew_def
      purge_expired_jtis_def bind_ok_Inr Let_def admin_effect_def logs_kept_def
      dest!: verify_sep10_token_frame split: if_split_asm option.split_asm)

lemma exec_admin_effect:
  assumes "exec_admin e c s = Inr s'"
  shows "admin_effect s s'"
  using assms
  by (cases c) (auto dest: initialize_ok admin_effect_steps admin_effect_upgrade admin_effect_limits
      admin_effect_sep10)

definition attestor_effect :: "contract \<Rightarrow> contract \<Rightarrow> bool" where
  "attestor_effect s s' \<longleftrightarrow> logs_kept s s' \<and>
     c_access s' = c_access s \<and> c_schema s' = c_schema s \<and> c_rl s' = c_rl s \<and> c_replay s' = c_replay s \<and>
     c_attest s' = c_attest s \<and> c_tracing s' = c_tracing s \<and> c_sessions s' = c_sessions s \<and>
     c_kyc s' = c_kyc s \<and> c_quotes s' = c_quotes s \<and> c_txs s' = c_txs s \<and> c_anchors s' = c_anchors s"

lemma attestor_effect_refl [simp]: "attestor_effect s s"
  by (simp add: attestor_effect_def logs_kept_def)

lemma attestor_effectI [simp]:
  "attestor_effect s (emit ev s1) \<longleftrightarrow> attestor_effect s s1"
  "attestor_effect s (s1\<lparr>c_attestors := x\<rparr>) \<longleftrightarrow> attestor_effect s s1"
  "attestor_effect s (s1\<lparr>c_jwt := z\<rparr>) \<longleftrightarrow> attestor_effect s s1"
  by (simp_all add: attestor_effect_def logs_kept_def)

lemma attestor_effect_audit:
  assumes "audit_action e a ct t ov nv s1 = Inr s2"
  shows "attestor_effect s s1 \<longrightarrow> attestor_effect s s2"
  using audited_effect [OF assms] by (auto simp: attestor_effect_def logs_kept_def)

lemma exec_attestor_effect:
  assumes "exec_attestor e c s = Inr s'"
  shows "attestor_effect s s'"
proof (cases c)
  case (SetCapacityConfig cfg)
  with assms show ?thesis by (auto simp: set_capacity_config_def bind_ok_Inr split: if_split_asm)
next
  case (RegisterAttestor a tok iss pk)
  with assms have "register_attestor e a tok iss pk s = Inr s'" by simp
  from register_attestor_ok [OF this] show ?thesis
    by (auto dest!: verify_sep10_token_frame write_event_audit_inv simp: attestor_effect_def logs_kept_def)
next
  case (RevokeAttestor a)
  have emit_if: "attestor_effect s (if b then x else emit ev x) = attestor_effect s x" for b x ev by simp
  from RevokeAttestor assms show ?thesis
    by (auto simp: revoke_attestor_def bind_ok_Inr Let_def emit_if split del: if_split split: if_split_asm
        dest!: attestor_effect_audit [where s = s])
next
  case (ReactivateAttestor a)
  with assms show ?thesis
    by (auto simp: reactivate_attestor_def bind_ok_Inr Let_def split: if_split_asm
        dest!: attestor_effect_audit [where s = s])
qed

lemma exec_attestor_inv:
  assumes "exec_attestor e c s = Inr s'" and "attestor_inv (c_attestors s)"
  shows "attestor_inv (c_attestors s')"
proof (cases c)
  case (SetCapacityConfig cfg)
  with assms show ?thesis
    by (auto simp: set_capacity_config_def bind_ok_Inr attestor_inv_def split: if_split_asm)
next
  case (RegisterAttestor a tok iss pk)
  with assms(1) have "register_attestor e a tok iss pk s = Inr s'" by simp
  from register_attestor_ok [OF this] assms(2) show ?thesis
    by (auto dest!: verify_sep10_token_frame intro: add_attestor_inv)
next
  case (RevokeAttestor a)
  with assms(1) have "revoke_attestor e a s = Inr s'" by simp
  from revoke_attestor_ok [OF this] drop_attestor_inv [OF assms(2)] show ?thesis by auto
next
  case (ReactivateAttestor a)
  with assms(1) have "reactivate_attestor e a s = Inr s'" by simp
  from reactivate_attestor_ok [OF this] restore_attestor_inv [OF assms(2)] show ?thesis by auto
qed

lemma admin_effect_attestors:
  assumes "admin_effect s s'" and "attestor_inv (c_attestors s)"
  shows "attestor_inv (c_attestors s')"
proof -
  from assms(1) have eq: "ats_registered (c_attestors s') = ats_registered (c_attestors s)"
    "ats_public_key (c_attestors s') = ats_public_key (c_attestors s)"
    "ats_list (c_attestors s') = ats_list (c_attestors s)" by (simp_all add: admin_effect_def)
  show ?thesis using assms(2) unfolding attestor_inv_def eq .
qed

text \<open>Attestation calls: outside sessions, then inside.\<close>

definition attest_effect :: "contract \<Rightarrow> contract \<Rightarrow> bool" where
  "attest_effect s s' \<longleftrightarrow> logs_kept s s' \<and>
     c_access s' = c_access s \<and> c_schema s' = c_schema s \<and> c_jwt s' = c_jwt s \<and>
     c_attestors s' = c_attestors s \<and> c_kyc s' = c_kyc s \<and> c_quotes s' = c_quotes s \<and> c_txs s' = c_txs s \<and> c_anchors s' = c_anchors s \<and>
     tr_trace_ctx (c_tracing s') = tr_trace_ctx (c_tracing s) \<and>
     (attest_inv (c_attest s) \<longrightarrow> attest_inv (c_attest s')) \<and>
     (\<forall>i r. att_records (c_attest s) i = Some r \<longrightarrow> attest_inv (c_attest s) \<longrightarrow>
        att_records (c_attest s') i = Some r)"

lemma attest_effect_refl [simp]: "attest_effect s s"
  by (simp add: attest_effect_def logs_kept_def)

lemma added_keeps_records:
  assumes "attest_inv st" and "att_records st i = Some r"
  shows "att_records (added (next_id st) iss sub ts h sg st) i = Some r"
proof -
  have "i \<noteq> next_id st" using assms by (auto simp: attest_inv_def)
  then show ?thesis using assms(2) by (simp add: added_def)
qed

lemma submitted_effect:
  assumes "submitted e iss sub ts h sg s n s'"
  shows "attest_effect s s'"
proof -
  have "att_records (c_attest s') i = Some r"
    if "att_records (c_attest s) i = Some r" "attest_inv (c_attest s)" for i r
  proof -
    from assms obtain x where "c_attest s' =
        added (next_id (c_attest s)) iss sub ts h sg ((c_attest s)\<lparr>att_session_used := x\<rparr>)"
      unfolding submitted_def by blast
    then show ?thesis using added_keeps_records [of "(c_attest s)\<lparr>att_session_used := x\<rparr>" i r] that by simp
  qed
  moreover have "attest_inv (c_attest s) \<longrightarrow> attest_inv (c_attest s')"
    using submitted_inv(1) [OF assms] by blast
  ultimately show ?thesis
    using assms unfolding attest_effect_def logs_kept_def submitted_def by simp
qed

lemma store_batch_records:
  assumes "list_bind store_batch_entry (ids, s) xs = Inr (ids', s')" and "attest_inv (c_attest s)"
    and "att_records (c_attest s) i = Some r"
  shows "att_records (c_attest s') i = Some r"
proof -
  have "(\<lambda>(_, s). attest_inv (c_attest s) \<and> att_records (c_attest s) i = Some r) (ids', s')"
    by (rule list_bind_invariant [OF assms(1)])
      (use assms(2,3) in \<open>auto simp: store_batch_entry_def ok_simps added_keeps_records intro: added_inv\<close>)
  then show ?thesis by simp
qed

lemma batch_effect:
  assumes "submit_attestation_batch e a xs s = Inr (ids, s')"
  shows "attest_effect s s' \<and> c_tracing s' = c_tracing s \<and> c_sessions s' = c_sessions s"
proof (cases "xs = [] \<and> s' = s")
  case False
  with submit_batch_ok [OF assms] obtain rl where
    run: "list_bind store_batch_entry ([], s\<lparr>c_rl := rl\<rparr>) xs = Inr (ids, s')" by auto
  obtain st where s': "s' = s\<lparr>c_rl := rl, c_attest := st\<rparr>" using store_batch_frame [OF run] by auto
  from store_batch_inv [OF run] store_batch_records [OF run] show ?thesis
    by (simp add: attest_effect_def logs_kept_def s')
qed simp

lemma exec_attest_effect:
  assumes "exec_attest e c s = Inr s'" and "tr_trace_ctx (c_tracing s) = Map.empty"
  shows "attest_effect s s' \<and> c_sessions s' = c_sessions s"
proof (cases c)
  case (SubmitAttestation iss sub ts h sg)
  with assms(1) show ?thesis
    by (auto simp: storage_of_Inr dest!: submit_attestation_ok intro: submitted_effect)
next
  case (SubmitAttestationBatch a xs)
  with assms(1) show ?thesis by (auto simp: storage_of_Inr dest!: batch_effect)
next
  case (SubmitAttestationKycCheck iss sub ts h sg k)
  with assms(1) show ?thesis
    by (auto simp: storage_of_Inr dest!: submit_attestation_kyc_check_ok intro: submitted_effect)
next
  case (SubmitWithRequestId rid iss sub ts h sg)
  with assms(1) show ?thesis
    by (auto simp: storage_of_Inr dest!: submit_with_request_id_ok intro: submitted_effect)
next
  case (CreateRequestContext rid)
  with assms(1) show ?thesis
    by (auto simp: storage_of_Inr attest_effect_def logs_kept_def dest!: create_request_context_ok)
next
  case (AppendOperation rt op)
  with assms(1) show ?thesis by (auto simp: attest_effect_def logs_kept_def dest!: append_operation_ok)
next
  case GenerateRequestId
  with assms(1) show ?thesis
    by (auto simp: storage_of_Inr attest_effect_def logs_kept_def dest!: generate_request_id_ok)
next
  case (PropagateSpan parent child op a)
  with assms propagate_span_needs_context [OF assms(2), of e parent child op a] show ?thesis by simp
qed

definition session_effect :: "contract \<Rightarrow> contract \<Rightarrow> bool" where
  "session_effect s s' \<longleftrightarrow> logs_kept s s' \<and>
     c_access s' = c_access s \<and> c_schema s' = c_schema s \<and> c_jwt s' = c_jwt s \<and> c_tracing s' = c_tracing s \<and>
     c_kyc s' = c_kyc s \<and> c_quotes s' = c_quotes s \<and> c_txs s' = c_txs s \<and> c_anchors s' = c_anchors s \<and>
     (attest_inv (c_attest s) \<longrightarrow> attest_inv (c_attest s')) \<and>
     (\<forall>i r. att_records (c_attest s) i = Some r \<longrightarrow> attest_inv (c_attest s) \<longrightarrow>
        att_records (c_attest s') i = Some r) \<and>
     (attestor_inv (c_attestors s) \<longrightarrow> attestor_inv (c_attestors s')) \<and>
     (session_inv (c_sessions s) \<longrightarrow> session_inv (c_sessions s'))"

lemma sessions_only_effect:
  assumes "session_inv (c_sessions s) \<longrightarrow> session_inv st"
  shows "session_effect s (s\<lparr>c_sessions := st, c_events := evs\<rparr>)"
  using assms by (simp add: session_effect_def logs_kept_def)

lemma get_audit_log_count_ok:
  assumes "get_audit_log_count e s = Inr (n, s')"
  shows "\<exists>st evs. s' = s\<lparr>c_sessions := st, c_events := evs\<rparr> \<and> (session_inv (c_sessions s) \<longrightarrow> session_inv st)"
proof -
  have "s' = s \<or> (\<exists>t k s1. prune_audit_logs_internal t s = Inr (k, s1) \<and>
      s' = (if 0 < k then emit (EvAuditPruned k) s1 else s1))"
  proof (cases "0 < get_or 0 (ses_auto_prune (c_sessions s)) \<and>
      ucast (get_or 0 (ses_auto_prune (c_sessions s))) < get_or 0 (ses_log_count (c_sessions s))")
    case True
    with assms show ?thesis
      by (simp add: get_audit_log_count_def Let_def bind_ok_Inr split del: if_split)
        (elim exE conjE, blast)
  next
    case False
    with assms show ?thesis by (auto simp: get_audit_log_count_def Let_def split: if_split_asm)
  qed
  then show ?thesis
  proof (elim disjE exE conjE)
    assume "s' = s"
    then have "s' = s\<lparr>c_sessions := c_sessions s, c_events := c_events s\<rparr>" by simp
    then show ?thesis by blast
  next
    fix t k s1 assume p: "prune_audit_logs_internal t s = Inr (k, s1)"
      and s': "s' = (if 0 < k then emit (EvAuditPruned k) s1 else s1)"
    from prune_ok [OF p] obtain st where s1: "s1 = s\<lparr>c_sessions := st\<rparr>" by blast
    have "s' = s\<lparr>c_sessions := st, c_events := c_events s'\<rparr>"
      by (simp add: s' s1 emit_def)
    moreover have "session_inv (c_sessions s) \<longrightarrow> session_inv st"
      using prune_inv [OF p] by (simp add: s1)
    ultimately show ?thesis by blast
  qed
qed

lemma exec_session_effect:
  assumes "exec_session e c s = Inr s'"
  shows "session_effect s s'"
proof (cases c)
  case (CreateSession a)
  with assms obtain i where run: "create_session e a s = Inr (i, s')" by (auto simp: storage_of_Inr)
  then have "s' = s\<lparr>c_sessions := c_sessions s', c_events := c_events s'\<rparr>"
    by (auto simp: create_session_def Let_def bind_ok_Inr emit_def)
  with sessions_only_effect [of s "c_sessions s'" "c_events s'"] create_session_inv [OF run] show ?thesis by simp
next
  case (CloseSession i a)
  with assms have run: "close_session e i a s = Inr s'" by simp
  from close_session_ok [OF run] have "s' = s\<lparr>c_sessions := c_sessions s', c_events := c_events s'\<rparr>"
    by (auto simp: put_session_def emit_def)
  with sessions_only_effect [of s "c_sessions s'" "c_events s'"] close_session_inv [OF run] show ?thesis by simp
next
  case (SubmitAttestationWithSession i iss sub ts h sg)
  with assms obtain n where run: "submit_attestation_with_session e i iss sub ts h sg s = Inr (n, s')"
    by (auto simp: storage_of_Inr)
  from submit_with_session_ok [OF run] have sub: "submitted e iss sub ts h sg s n s'" and tr: "c_tracing s' = c_tracing s"
    by auto
  from submitted_effect [OF sub] submit_with_session_inv [OF run] tr show ?thesis
    unfolding session_effect_def attest_effect_def by simp
next
  case (RegisterAttestorWithSession op i a pk)
  with assms have run: "register_attestor_with_session e op i a pk s = Inr s'" by simp
  from register_with_session_ok [OF run] with_session_attestor_inv(1) [OF run] register_with_session_inv [OF run]
  show ?thesis by (auto simp: session_effect_def logs_kept_def)
next
  case (RevokeAttestorWithSession op i a)
  with assms have run: "revoke_attestor_with_session e op i a s = Inr s'" by simp
  from revoke_with_session_ok [OF run] with_session_attestor_inv(2) [OF run] revoke_with_session_inv [OF run]
  show ?thesis by (auto simp: session_effect_def logs_kept_def)
next
  case (SetAuditLogRetention d)
  with assms have "s' = with_sessions (\<lambda>st. st\<lparr>ses_retention := Some d\<rparr>) s"
    by (auto simp: set_audit_log_retention_def bind_ok_Inr split: if_split_asm)
  then show ?thesis by (simp add: session_effect_def logs_kept_def session_inv_defs)
next
  case (PruneAuditLogs t)
  with assms obtain n where run: "prune_audit_logs_internal t s = Inr (n, s')"
    by (auto simp: storage_of_Inr prune_audit_logs_def bind_ok_Inr)
  from prune_ok [OF run] have "s' = s\<lparr>c_sessions := c_sessions s', c_events := c_events s'\<rparr>" by simp
  with sessions_only_effect [of s "c_sessions s'" "c_events s'"] prune_inv [OF run] show ?thesis by simp
next
  case (SetAutoPruneThreshold n)
  with assms have "s' = with_sessions (\<lambda>st. st\<lparr>ses_auto_prune := Some n\<rparr>) s"
    by (auto simp: set_auto_prune_threshold_def bind_ok_Inr)
  then show ?thesis by (simp add: session_effect_def logs_kept_def session_inv_defs)
next
  case GetAuditLogCount
  with assms obtain n where "get_audit_log_count e s = Inr (n, s')" by (auto simp: storage_of_Inr)
  from get_audit_log_count_ok [OF this] sessions_only_effect show ?thesis by blast
qed

text \<open>KYC, quotes and transaction records.\<close>

definition kyc_effect :: "contract \<Rightarrow> contract \<Rightarrow> bool" where
  "kyc_effect s s' \<longleftrightarrow>
     (\<exists>k au evs. s' = s\<lparr>c_kyc := k, c_audit := au, c_events := evs\<rparr> \<and>
        (audit_inv (c_audit s) \<longrightarrow> audit_inv au) \<and> (kyc_inv (c_kyc s) \<longrightarrow> kyc_inv k) \<and>
        (comp_inv (c_kyc s) \<longrightarrow> comp_inv k) \<and>
        (\<exists>xs. \<forall>p. check_log k p = check_log (c_kyc s) p @ xs p))"

lemma kyc_records_effect:
  assumes "s' = s\<lparr>c_kyc := k, c_audit := au, c_events := evs\<rparr>" and "audit_inv (c_audit s) \<longrightarrow> audit_inv au"
    and "kyc_inv (c_kyc s) \<longrightarrow> kyc_inv k" and "comp_latest k = comp_latest (c_kyc s)"
    and "comp_count k = comp_count (c_kyc s)" "comp_history k = comp_history (c_kyc s)"
    and "comp_index k = comp_index (c_kyc s)"
  shows "kyc_effect s s'"
proof -
  have "comp_inv k = comp_inv (c_kyc s)" unfolding comp_inv_def assms(4-) ..
  moreover have "\<forall>p. check_log k p = check_log (c_kyc s) p @ []" by (simp add: check_log_def assms(4-))
  then have "\<exists>xs. \<forall>p. check_log k p = check_log (c_kyc s) p @ xs p" by (intro exI [of _ "\<lambda>_. []"])
  ultimately show ?thesis unfolding kyc_effect_def using assms(1-3) by blast
qed

lemma exec_kyc_effect:
  assumes "exec_kyc e c s = Inr s'"
  shows "kyc_effect s s'"
proof (cases c)
  case (SubmitKyc sub h a)
  with assms have run: "submit_kyc e sub h a s = Inr s'" by simp
  from submit_kyc_ok [OF run] have "s' = s\<lparr>c_kyc := c_kyc s', c_audit := c_audit s, c_events := c_events s'\<rparr>" by auto
  then show ?thesis
    by (rule kyc_records_effect) (use submit_kyc_ok [OF run] submit_kyc_inv [OF run] in auto)
next
  case (ApproveKyc a sub)
  with assms have run: "approve_kyc e a sub s = Inr s'" by simp
  from approve_kyc_ok [OF run] have "s' = s\<lparr>c_kyc := c_kyc s', c_audit := c_audit s', c_events := c_events s'\<rparr>"
    by (auto simp: put_kyc_def)
  then show ?thesis
    by (rule kyc_records_effect)
      (use approve_kyc_ok [OF run] approve_kyc_inv [OF run] write_event_audit_inv in \<open>auto simp: put_kyc_def\<close>)
next
  case (RejectKyc a sub h)
  with assms have run: "reject_kyc e a sub h s = Inr s'" by simp
  from reject_kyc_ok [OF run] have "s' = s\<lparr>c_kyc := c_kyc s', c_audit := c_audit s', c_events := c_events s'\<rparr>"
    by (auto simp: put_kyc_def)
  then show ?thesis
    by (rule kyc_records_effect)
      (use reject_kyc_ok [OF run] reject_kyc_inv [OF run] write_event_audit_inv in \<open>auto simp: put_kyc_def\<close>)
next
  case (ReopenKyc a sub)
  with assms have run: "reopen_kyc e a sub s = Inr s'" by simp
  from reopen_kyc_ok [OF run] have "s' = s\<lparr>c_kyc := c_kyc s', c_audit := c_audit s', c_events := c_events s'\<rparr>"
    by (auto simp: put_kyc_def)
  then show ?thesis
    by (rule kyc_records_effect)
      (use reopen_kyc_ok [OF run] reopen_kyc_inv [OF run] write_event_audit_inv in \<open>auto simp: put_kyc_def\<close>)
next
  case (RecordComplianceCheck sub ct p sc)
  with assms have "record_compliance_check e sub ct p sc s = Inr s'" by simp
  from record_compliance_check_ok [OF this] obtain r k evs where st: "store_compliance_check sub ct r (c_kyc s) = Inr k"
    and s': "s' = s\<lparr>c_kyc := k, c_events := evs\<rparr>" by blast
  have "kyc_records k = kyc_records (c_kyc s)" "kyc_data k = kyc_data (c_kyc s)"
    using st by (simp_all add: store_compliance_check_Inr Let_def)
  then have "kyc_inv k = kyc_inv (c_kyc s)" by (simp add: kyc_inv_def)
  moreover have "s' = s\<lparr>c_kyc := k, c_audit := c_audit s, c_events := evs\<rparr>" by (simp add: s')
  moreover have "\<forall>p. check_log k p = check_log (c_kyc s) p @ (if p = (sub, ct) then [r] else [])"
    using check_log_store [OF st] by simp
  then have "\<exists>xs. \<forall>p. check_log k p = check_log (c_kyc s) p @ xs p"
    by (rule exI [where x = "\<lambda>p. if p = (sub, ct) then [r] else []"])
  ultimately show ?thesis
    using store_compliance_check_inv [OF st] unfolding kyc_effect_def by blast
qed

definition quote_effect :: "contract \<Rightarrow> contract \<Rightarrow> bool" where
  "quote_effect s s' \<longleftrightarrow> logs_kept s s' \<and>
     (\<exists>q au sch evs. s' = s\<lparr>c_quotes := q, c_audit := au, c_schema := sch, c_events := evs\<rparr> \<and>
        (quote_inv (c_quotes s) \<longrightarrow> quote_inv q))"

lemma quotes_only_effect:
  assumes "s' = s\<lparr>c_quotes := q, c_events := evs\<rparr>" and "quote_inv (c_quotes s) \<longrightarrow> quote_inv q"
  shows "quote_effect s s'"
proof -
  have "s' = s\<lparr>c_quotes := q, c_audit := c_audit s, c_schema := c_schema s, c_events := evs\<rparr>" by (simp add: assms(1))
  moreover have "logs_kept s s'" by (simp add: logs_kept_def assms(1))
  ultimately show ?thesis unfolding quote_effect_def using assms(2) by blast
qed

lemma exec_quote_effect:
  assumes "exec_quote e c s = Inr s'"
  shows "quote_effect s s'"
proof (cases c)
  case (SubmitQuote a b q r f mi ma v rr)
  with assms obtain i where run: "submit_quote_with_reason e a b q r f mi ma v rr s = Inr (i, s')"
    by (auto simp: storage_of_Inr)
  from submit_quote_ok [OF run] have "s' = s\<lparr>c_quotes := c_quotes s', c_events := c_events s'\<rparr>" by auto
  then show ?thesis by (rule quotes_only_effect) (use submit_quote_inv [OF run] in blast)
next
  case (ReceiveQuote r a i)
  with assms have "s' = s\<lparr>c_quotes := c_quotes s, c_events := c_events s'\<rparr>"
    by (auto simp: storage_of_Inr receive_quote_def bind_ok_Inr Let_def emit_def split: if_split_asm)
  then show ?thesis by (rule quotes_only_effect) simp
next
  case (InvalidateQuote a i)
  with assms have run: "invalidate_quote e a i s = Inr s'" by simp
  from invalidate_quote_ok [OF run] have "s' = s\<lparr>c_quotes := c_quotes s', c_events := c_events s'\<rparr>" by auto
  then show ?thesis by (rule quotes_only_effect) (use invalidate_quote_inv [OF run] in blast)
next
  case PurgeExpiredQuotes
  with assms have run: "purge_expired_quotes e s = Inr s'" by simp
  then obtain q where s': "s' = s\<lparr>c_quotes := q\<rparr>"
    by (cases s) (auto simp: purge_expired_quotes_def bind_ok_Inr Let_def split: if_split_asm)
  then have eq: "s' = s\<lparr>c_quotes := q, c_events := c_events s\<rparr>" by simp
  have "quote_inv (c_quotes s) \<longrightarrow> quote_inv q"
  proof
    assume inv: "quote_inv (c_quotes s)"
    have "c_quotes s' = q" by (simp add: s')
    with purge_expired_quotes_noop [OF run inv] inv show "quote_inv q" by simp
  qed
  with eq show ?thesis by (rule quotes_only_effect)
next
  case (AcceptQuoteWithCompliance r a i cm)
  with assms have "s' = s\<lparr>c_quotes := c_quotes s, c_events := c_events s'\<rparr>"
    by (auto simp: storage_of_Inr accept_quote_iff emit_def)
  then show ?thesis by (rule quotes_only_effect) simp
next
  case (Migrate v n)
  with assms have "migrate e v n s = Inr s'" by simp
  from migrate_ok [OF this] obtain k q au sch where v: "v = 2" "current_version (c_schema s) = 1"
    and run: "migrate_quotes_to_v2 n (c_quotes s) = Inr (k, q)"
    and s': "s' = s\<lparr>c_quotes := q, c_audit := au, c_schema := sch\<rparr>" "audit_inv (c_audit s) \<longrightarrow> audit_inv au"
    and sch: "if quo_cursor q \<noteq> None then sch = c_schema s
        else commit_version e 1 2 (step_label ToV2) (c_schema s) = Inr sch" by blast
  have "schema_inv (c_schema s) \<longrightarrow> schema_inv sch"
    using sch commit_version_inv [of 2 "c_schema s" ToV2 e sch] v
    by (auto simp: validate_migration_iff split: if_split_asm)
  then have "logs_kept s s'" using s' by (simp add: logs_kept_def)
  moreover have "s' = s\<lparr>c_quotes := q, c_audit := au, c_schema := sch, c_events := c_events s\<rparr>" by (simp add: s')
  ultimately show ?thesis unfolding quote_effect_def using migrate_quotes_inv [OF run] by blast
qed

definition txn_effect :: "contract \<Rightarrow> contract \<Rightarrow> bool" where
  "txn_effect s s' \<longleftrightarrow> (\<exists>t evs. s' = s\<lparr>c_txs := t, c_events := evs\<rparr> \<and> (tx_inv (c_txs s) \<longrightarrow> tx_inv t))"

lemma exec_txn_effect:
  assumes "exec_txn srt e c s = Inr s'"
  shows "txn_effect s s'"
proof -
  have adv: "txn_effect s s'" if "advance_transaction_state e i st msg s = Inr (r, s')" for i st msg r
  proof -
    from advance_transaction_state_ok [OF that] have "s' = s\<lparr>c_txs := c_txs s', c_events := c_events s'\<rparr>" by auto
    with advance_transaction_state_inv [OF that] show ?thesis unfolding txn_effect_def by blast
  qed
  have conf: "txn_effect s (s\<lparr>c_txs := t\<rparr>)" if "tx_inv (c_txs s) \<longrightarrow> tx_inv t" for t
  proof -
    have "s\<lparr>c_txs := t\<rparr> = s\<lparr>c_txs := t, c_events := c_events s\<rparr>" by simp
    with that show ?thesis unfolding txn_effect_def by blast
  qed
  show ?thesis
  proof (cases c)
    case (SetEvictionPolicy b k)
    with assms show ?thesis by (auto simp: set_eviction_policy_def bind_ok_Inr tx_inv_def intro!: conf)
  next
    case (SetStorageBudgetThresholds w cr)
    with assms show ?thesis
      by (auto simp: set_storage_budget_thresholds_def bind_ok_Inr tx_inv_def intro!: conf split: if_split_asm)
  next
    case (CreateTransactionRecord i a rr)
    with assms obtain r where "create_txn_record_with_reason srt e i a rr s = (r, s')"
      by (auto simp: storage_of_Inr)
    from create_txn_record_ok [OF this] show ?thesis unfolding txn_effect_def by blast
  qed (use assms in \<open>auto simp: storage_of_Inr tx_step_defs intro: adv\<close>)
qed

section \<open>The invariant of the contract\<close>

definition contract_inv :: "contract \<Rightarrow> bool" where
  "contract_inv s \<longleftrightarrow>
     audit_inv (c_audit s) \<and> schema_inv (c_schema s) \<and> attestor_inv (c_attestors s) \<and>
     attest_inv (c_attest s) \<and> session_inv (c_sessions s) \<and> kyc_inv (c_kyc s) \<and> comp_inv (c_kyc s) \<and>
     quote_inv (c_quotes s) \<and> tx_inv (c_txs s) \<and> tr_trace_ctx (c_tracing s) = Map.empty \<and>
     anchor_inv (c_anchors s)"

lemma contract_invD:
  assumes "contract_inv s"
  shows "audit_inv (c_audit s)" "schema_inv (c_schema s)" "attestor_inv (c_attestors s)"
    "attest_inv (c_attest s)" "session_inv (c_sessions s)" "kyc_inv (c_kyc s)" "comp_inv (c_kyc s)"
    "quote_inv (c_quotes s)" "tx_inv (c_txs s)" "tr_trace_ctx (c_tracing s) = Map.empty"
    "anchor_inv (c_anchors s)"
  using assms by (simp_all add: contract_inv_def)

lemma attestor_inv_empty: "attestor_inv (c_attestors fresh_contract)"
  by (simp add: attestor_inv_def fresh_contract_def)

lemma contract_inv_fresh: "contract_inv fresh_contract"
proof -
  have "c_audit fresh_contract = empty_audit_store" "c_schema fresh_contract = empty_schema_store"
    "tr_trace_ctx (c_tracing fresh_contract) = Map.empty" "c_anchors fresh_contract = empty_anchor_store"
    by (simp_all add: fresh_contract_def)
  then show ?thesis
    by (simp add: contract_inv_def audit_inv_empty schema_inv_empty attestor_inv_empty attest_inv_empty
        session_inv_empty kyc_inv_empty comp_inv_empty quote_inv_empty tx_inv_empty anchor_inv_empty)
qed

lemma exec_contract_inv:
  assumes inv: "contract_inv s" and run: "exec srt e c s = Inr s'"
  shows "contract_inv s'"
proof (cases c)
  case (AdminCall x)
  with run have "admin_effect s s'" by (auto dest: exec_admin_effect)
  with admin_effect_attestors [OF this] contract_invD [OF inv] show ?thesis
    by (simp add: contract_inv_def admin_effect_def logs_kept_def)
next
  case (AttestorCall x)
  with run have run': "exec_attestor e x s = Inr s'" by simp
  from exec_attestor_effect [OF run'] exec_attestor_inv [OF run'] contract_invD [OF inv] show ?thesis
    by (simp add: contract_inv_def attestor_effect_def logs_kept_def)
next
  case (AttestCall x)
  with run have run': "exec_attest e x s = Inr s'" by simp
  from exec_attest_effect [OF run' contract_invD(10) [OF inv]] contract_invD [OF inv] show ?thesis
    by (simp add: contract_inv_def attest_effect_def logs_kept_def)
next
  case (SessionCall x)
  with run have run': "exec_session e x s = Inr s'" by simp
  from exec_session_effect [OF run'] contract_invD [OF inv] show ?thesis
    by (simp add: contract_inv_def session_effect_def logs_kept_def)
next
  case (KycCall x)
  with run have "kyc_effect s s'" by (auto dest: exec_kyc_effect)
  with contract_invD [OF inv] show ?thesis
    by (auto simp: contract_inv_def kyc_effect_def)
next
  case (QuoteCall x)
  with run have "quote_effect s s'" by (auto dest: exec_quote_effect)
  with contract_invD [OF inv] show ?thesis
    by (auto simp: contract_inv_def quote_effect_def logs_kept_def)
next
  case (TxnCall x)
  with run have "txn_effect s s'" by (auto dest: exec_txn_effect)
  with contract_invD [OF inv] show ?thesis
    by (auto simp: contract_inv_def txn_effect_def)
next
  case (AnchorCall x)
  with run have "anchor_effect s s'" by (auto dest: exec_anchor_effect)
  with contract_invD [OF inv] show ?thesis
    by (simp add: contract_inv_def anchor_effect_def anchor_step_def)
qed

interpretation sys: transactional "exec srt" contract_inv for srt
  by unfold_locales (rule exec_contract_inv)

text \<open>A storage that some history of calls produces.\<close>

definition reachable :: "stamp_sort \<Rightarrow> contract \<Rightarrow> bool" where
  "reachable srt s \<longleftrightarrow> (\<exists>cs. s = run (exec srt) cs fresh_contract)"

lemma reachable_fresh: "reachable srt fresh_contract"
  unfolding reachable_def by (rule exI [of _ "[]"]) simp

lemma reachable_inv: "reachable srt s \<Longrightarrow> contract_inv s"
  by (auto simp: reachable_def intro: sys.run_inv contract_inv_fresh)

lemma reachable_step:
  assumes "reachable srt s" and "exec srt e c s = Inr s'"
  shows "reachable srt s'"
proof -
  obtain cs where "s = run (exec srt) cs fresh_contract" using assms(1) by (auto simp: reachable_def)
  then have "s' = run (exec srt) (cs @ [(e, c)]) fresh_contract" using assms(2) by (simp add: run_append)
  then show ?thesis unfolding reachable_def by blast
qed

text \<open>Recorded attestations, checks and administration under one step.\<close>

lemma exec_keeps_attestation:
  assumes inv: "contract_inv s" and old: "att_records (c_attest s) i = Some r" and run: "exec srt e c s = Inr s'"
  shows "att_records (c_attest s') i = Some r"
proof (cases c)
  case (AdminCall x)
  with run old show ?thesis by (auto dest: exec_admin_effect simp: admin_effect_def)
next
  case (AttestorCall x)
  with run old show ?thesis by (auto dest: exec_attestor_effect simp: attestor_effect_def)
next
  case (AttestCall x)
  with run have run': "exec_attest e x s = Inr s'" by simp
  from exec_attest_effect [OF run' contract_invD(10) [OF inv]] contract_invD(4) [OF inv] old show ?thesis
    unfolding attest_effect_def by blast
next
  case (SessionCall x)
  with run have "session_effect s s'" by (auto dest: exec_session_effect)
  with contract_invD(4) [OF inv] old show ?thesis unfolding session_effect_def by blast
next
  case (KycCall x)
  with run old show ?thesis by (auto dest!: exec_kyc_effect simp: kyc_effect_def)
next
  case (QuoteCall x)
  with run old show ?thesis by (auto dest!: exec_quote_effect simp: quote_effect_def)
next
  case (TxnCall x)
  with run old show ?thesis by (auto dest!: exec_txn_effect simp: txn_effect_def)
next
  case (AnchorCall x)
  with run old show ?thesis by (auto dest!: exec_anchor_effect simp: anchor_effect_def anchor_step_def)
qed

interpretation attested: stable_under "exec srt" contract_inv "\<lambda>s. att_records (c_attest s) i = Some r"
  for srt i r
  by unfold_locales (rule exec_keeps_attestation)

lemma exec_footprint:
  assumes inv: "contract_inv s" and run: "exec srt e c s = Inr s'" and out: "p \<notin> set (footprint c)"
  shows "same_part p s s'"
proof (cases c)
  case (AdminCall x)
  with run have "admin_effect s s'" by (auto dest: exec_admin_effect)
  with out AdminCall show ?thesis by (cases p) (simp_all add: admin_effect_def)
next
  case (AttestorCall x)
  with run have "attestor_effect s s'" by (auto dest: exec_attestor_effect)
  with out AttestorCall show ?thesis by (cases p) (simp_all add: attestor_effect_def)
next
  case (AttestCall x)
  with run have run': "exec_attest e x s = Inr s'" by simp
  from exec_attest_effect [OF run' contract_invD(10) [OF inv]] out AttestCall show ?thesis
    by (cases p) (simp_all add: attest_effect_def)
next
  case (SessionCall x)
  with run have "session_effect s s'" by (auto dest: exec_session_effect)
  with out SessionCall show ?thesis by (cases p) (simp_all add: session_effect_def)
next
  case (KycCall x)
  with run have "kyc_effect s s'" by (auto dest: exec_kyc_effect)
  with out KycCall show ?thesis by (cases p) (auto simp: kyc_effect_def)
next
  case (QuoteCall x)
  with run have "quote_effect s s'" by (auto dest: exec_quote_effect)
  with out QuoteCall show ?thesis by (cases p) (auto simp: quote_effect_def)
next
  case (TxnCall x)
  with run have "txn_effect s s'" by (auto dest: exec_txn_effect)
  with out TxnCall show ?thesis by (cases p) (auto simp: txn_effect_def)
next
  case (AnchorCall x)
  with run have "anchor_effect s s'" by (auto dest: exec_anchor_effect)
  with out AnchorCall show ?thesis by (cases p) (auto simp: anchor_effect_def anchor_step_def)
qed

text \<open>An executed cache proposal stays as it is.\<close>

lemma exec_keeps_executed:
  assumes inv: "contract_inv s" and run: "exec srt e c s = Inr s'"
    and old: "gov_proposals (governance s) i = Some p \<and> ip_executed p"
  shows "gov_proposals (governance s') i = Some p \<and> ip_executed p"
proof (cases "PAnchors \<in> set (footprint c)")
  case False
  from exec_footprint [OF inv run this] old show ?thesis by simp
next
  case True
  then obtain x where c: "c = AnchorCall x" by (cases c) auto
  have "governance_inv (governance s)" using contract_invD(11) [OF inv] by (simp add: anchor_inv_def)
  with c run old show ?thesis by (auto intro: exec_anchor_executed)
qed

interpretation executed: stable_under "exec srt" contract_inv
    "\<lambda>s. gov_proposals (governance s) i = Some p \<and> ip_executed p" for srt i p
  by unfold_locales (rule exec_keeps_executed)

end
