(* ===== verification/Life_Cycles.thy ===== *)
theory Life_Cycles
  imports Contract_System
begin

text \<open>
  What one call of the contract may do to one session and to one transaction record, as step
  relations, and the proof that every call of \<^verbatim>\<open>Contract_System\<close> is such a step.  Last, the
  refusal of a payload that is marked as used, on every path of submission.
\<close>

section \<open>Sessions\<close>

section \<open>Life cycles under one call\<close>

text \<open>
  What one call may do to a session and its operation count: nothing; create it, under an
  identifier that was free; close it, by its initiator, while it is open and has not expired; or
  run one logged operation in it, which makes it \<open>Active\<close>.
\<close>

primrec operates_in :: "session_call \<Rightarrow> u64 option" where
  "operates_in (CreateSession a) = None"
| "operates_in (CloseSession i a) = None"
| "operates_in (SubmitAttestationWithSession i iss sub ts h sg) = Some i"
| "operates_in (RegisterAttestorWithSession op i a pk) = Some i"
| "operates_in (RevokeAttestorWithSession op i a) = Some i"
| "operates_in (SetAuditLogRetention d) = None"
| "operates_in (PruneAuditLogs t) = None"
| "operates_in (SetAutoPruneThreshold n) = None"
| "operates_in GetAuditLogCount = None"

inductive session_step ::
    "env \<Rightarrow> call \<Rightarrow> u64 \<Rightarrow> session option \<times> u64 \<Rightarrow> session option \<times> u64 \<Rightarrow> bool" for e c i where
  session_kept: "session_step e c i p p"
| session_created: "\<lbrakk>c = SessionCall (CreateSession a); a \<in> auths e\<rbrakk> \<Longrightarrow>
    session_step e c i (None, 0)
      (Some \<lparr>se_session_id = i, se_initiator = a, se_created_at = timestamp e, se_nonce = 0,
        se_operation_count = 0, se_session_ttl_seconds = DEFAULT_SESSION_TTL, se_closed = False,
        se_state = state_u32 Created\<rparr>, 0)"
| session_closed: "\<lbrakk>c = SessionCall (CloseSession i (se_initiator se)); se_initiator se \<in> auths e;
    \<not> session_is_expired e se; se_state se \<in> {state_u32 Created, state_u32 Active}\<rbrakk> \<Longrightarrow>
    session_step e c i (Some se, k) (Some (se\<lparr>se_closed := True, se_state := state_u32 Closed\<rparr>), k)"
| session_operated: "\<lbrakk>c = SessionCall x; operates_in x = Some i; \<not> session_is_expired e se;
    se_state se \<in> {state_u32 Created, state_u32 Active}; unat k < 100;
    n = se_nonce se \<or> n = se_nonce se + 1\<rbrakk> \<Longrightarrow>
    session_step e c i (Some se, k) (Some (se\<lparr>se_state := state_u32 Active, se_nonce := n\<rparr>), k + 1)"

abbreviation session_view :: "contract \<Rightarrow> u64 \<Rightarrow> session option \<times> u64" where
  "session_view s i \<equiv> (ses_sessions (c_sessions s) i, session_op_count s i)"

lemma open_states: "session_wf i se \<Longrightarrow> accepts_operations (from_u32 (se_state se)) \<longleftrightarrow>
    se_state se \<in> {state_u32 Created, state_u32 Active}"
  by (auto simp: session_wf_def from_u32_def)

lemma opened_is_active:
  assumes "ses_sessions st i = Some se" and "session_wf i se" and "accepts_operations (from_u32 (se_state se))"
  shows "ses_sessions (opened i st) i = Some (se\<lparr>se_state := state_u32 Active\<rparr>)"
proof -
  have "se_state se = state_u32 Created \<or> se_state se = state_u32 Active"
    using assms(3) open_states [OF assms(2)] by simp
  then show ?thesis
  proof
    assume st: "se_state se = state_u32 Active"
    then have "se\<lparr>se_state := state_u32 Active\<rparr> = se" by (cases se) simp
    with st assms(1) show ?thesis by (simp add: opened_def from_u32_def)
  qed (simp add: opened_def assms(1) from_u32_def)
qed

lemma opened_other: "j \<noteq> i \<Longrightarrow> ses_sessions (opened i st) j = ses_sessions st j"
  by (simp add: opened_def split: option.split)

lemma operated_step:
  assumes inv: "session_inv (c_sessions s)" and op: "require_session_open e j s = Inr s1"
    and c: "c = SessionCall x" "operates_in x = Some j"
    and s': "ses_op_count (c_sessions s') = (ses_op_count (c_sessions s))(j \<mapsto> session_op_count s j + 1)"
    and se': "\<And>se. ses_sessions (opened j (c_sessions s)) j = Some se \<Longrightarrow>
        \<exists>n. (n = se_nonce se \<or> n = se_nonce se + 1) \<and>
          ses_sessions (c_sessions s') = (ses_sessions (opened j (c_sessions s)))(j \<mapsto> se\<lparr>se_nonce := n\<rparr>)"
  shows "session_step e c i (session_view s i) (session_view s' i)"
proof -
  from require_session_open_ok [OF op] obtain se where
    se: "ses_sessions (c_sessions s) j = Some se" "\<not> session_is_expired e se"
      "accepts_operations (from_u32 (se_state se))" "unat (session_op_count s j) < 100"
    by (auto simp: session_op_count_def)
  have wf: "session_wf j se" using inv se(1) by (simp add: session_inv_defs)
  from se' [OF opened_is_active [OF se(1) wf se(3)]] obtain n where
    n: "n = se_nonce se \<or> n = se_nonce se + 1" and
    new: "ses_sessions (c_sessions s') = (ses_sessions (opened j (c_sessions s)))
      (j \<mapsto> se\<lparr>se_state := state_u32 Active, se_nonce := n\<rparr>)" by auto
  show ?thesis
  proof (cases "i = j")
    case True
    have "session_view s i = (Some se, session_op_count s j)"
      "session_view s' i = (Some (se\<lparr>se_state := state_u32 Active, se_nonce := n\<rparr>), session_op_count s j + 1)"
      using True se(1) by (simp_all add: new session_op_count_def [of s'] s')
    with True show ?thesis
      using session_operated [OF c(1) _ se(2) _ se(4) n, of i] se(3) c(2) open_states [OF wf] by simp
  next
    case False
    then have "session_view s' i = session_view s i"
      by (simp add: new opened_other session_op_count_def s')
    then show ?thesis by (simp add: session_kept)
  qed
qed

lemma get_audit_log_count_sessions:
  assumes "get_audit_log_count e s = Inr (n, s')"
  shows "ses_sessions (c_sessions s') = ses_sessions (c_sessions s) \<and>
    ses_op_count (c_sessions s') = ses_op_count (c_sessions s)"
proof (cases "0 < get_or 0 (ses_auto_prune (c_sessions s)) \<and>
      ucast (get_or 0 (ses_auto_prune (c_sessions s))) < get_or 0 (ses_log_count (c_sessions s))")
  case True
  with assms obtain t k s1 where p: "prune_audit_logs_internal t s = Inr (k, s1)"
    and s': "s' = (if 0 < k then emit (EvAuditPruned k) s1 else s1)"
    by (simp add: get_audit_log_count_def Let_def bind_ok_Inr split del: if_split) (elim exE conjE, blast)
  have "c_sessions s' = c_sessions s1" by (simp add: s' emit_def)
  with prune_ok [OF p] show ?thesis by simp
next
  case False
  with assms show ?thesis by (auto simp: get_audit_log_count_def Let_def split: if_split_asm)
qed

lemma exec_session_step:
  assumes inv: "contract_inv s" and run: "exec srt e c s = Inr s'"
  shows "session_step e c i (session_view s i) (session_view s' i)"
proof (cases "PSessions \<in> set (footprint c)")
  case False
  from exec_footprint [OF inv run False] show ?thesis by (simp add: session_op_count_def session_kept)
next
  case True
  then obtain x where c: "c = SessionCall x" by (cases c) auto
  with run have ex: "exec_session e x s = Inr s'" by simp
  have si: "session_inv (c_sessions s)" by (rule contract_invD(5) [OF inv])
  have kept: ?thesis if "ses_sessions (c_sessions s') = ses_sessions (c_sessions s)"
    "ses_op_count (c_sessions s') = ses_op_count (c_sessions s)"
    using that by (simp add: session_op_count_def session_kept)
  show ?thesis
  proof (cases x)
    case (CreateSession a)
    let ?n = "get_or 0 (ses_count (c_sessions s))"
    from ex CreateSession have a: "a \<in> auths e" and s': "c_sessions s' = (c_sessions s)\<lparr>
        ses_count := Some (?n + 1), ses_sessions := (ses_sessions (c_sessions s))(?n \<mapsto>
         \<lparr>se_session_id = ?n, se_initiator = a, se_created_at = timestamp e, se_nonce = 0,
          se_operation_count = 0, se_session_ttl_seconds = DEFAULT_SESSION_TTL, se_closed = False,
          se_state = state_u32 Created\<rparr>)\<rparr>"
      by (auto simp: storage_of_Inr create_session_def Let_def ok_simps)
    have none: "ses_sessions (c_sessions s) ?n = None"
      using si unfolding session_inv_defs by (metis less_irrefl option.exhaust)
    then have "session_op_count s ?n = 0"
      using si unfolding session_inv_defs session_op_count_def by (metis option.simps(4))
    with none s' show ?thesis
      using session_created [of c a e i] a c CreateSession
      by (cases "i = ?n") (auto simp: session_op_count_def intro: session_kept)
  next
    case (CloseSession j a)
    with ex have "close_session e j a s = Inr s'" by simp
    from close_session_ok [OF this] obtain se where
      se: "ses_sessions (c_sessions s) j = Some se" "a \<in> auths e" "a = se_initiator se"
        "\<not> session_is_expired e se" "accepts_operations (from_u32 (se_state se))"
      and s': "c_sessions s' = set_session j (se\<lparr>se_closed := True, se_state := state_u32 Closed\<rparr>) (c_sessions s)"
      by (auto simp: put_session_def)
    have wf: "session_wf j se" using si se(1) by (simp add: session_inv_defs)
    show ?thesis
    proof (cases "i = j")
      case True
      have "session_view s i = (Some se, session_op_count s j)"
        "session_view s' i = (Some (se\<lparr>se_closed := True, se_state := state_u32 Closed\<rparr>), session_op_count s j)"
        using True se(1) by (simp_all add: s' session_op_count_def)
      with True show ?thesis
        using session_closed [of c i se e] se c CloseSession open_states [OF wf] by simp
    next
      case False
      then show ?thesis by (simp add: s' session_op_count_def session_kept)
    qed
  next
    case (SubmitAttestationWithSession j iss sub ts h sg)
    with ex obtain n where "submit_attestation_with_session e j iss sub ts h sg s = Inr (n, s')"
      by (auto simp: storage_of_Inr)
    from submit_with_session_ok [OF this] obtain se where
      op: "require_session_open e j s = Inr (with_sessions (opened j) s)"
      and se: "ses_sessions (opened j (c_sessions s)) j = Some se"
      and s': "c_sessions s' = logged e j iss ''attest'' n
        (set_session j (se\<lparr>se_nonce := se_nonce se + 1\<rparr>) (opened j (c_sessions s)))" by blast
    show ?thesis
      by (rule operated_step [OF si op c])
        (use se SubmitAttestationWithSession in \<open>auto simp: s' logged_def Let_def session_op_count_def\<close>)
  next
    case (RegisterAttestorWithSession op j a pk)
    with ex have "register_attestor_with_session e op j a pk s = Inr s'" by simp
    from register_with_session_ok [OF this] have
      op: "require_session_open e j s = Inr (with_sessions (opened j) s)"
      and s': "c_sessions s' = logged e j op ''register'' 0 (opened j (c_sessions s))" by auto
    show ?thesis
      by (rule operated_step [OF si op c])
        (use RegisterAttestorWithSession in \<open>auto simp: s' logged_def Let_def session_op_count_def fun_upd_idem\<close>)
  next
    case (RevokeAttestorWithSession op j a)
    with ex have "revoke_attestor_with_session e op j a s = Inr s'" by simp
    from revoke_with_session_ok [OF this] have
      op: "require_session_open e j s = Inr (with_sessions (opened j) s)"
      and s': "c_sessions s' = logged e j op ''revoke'' 0 (opened j (c_sessions s))" by auto
    show ?thesis
      by (rule operated_step [OF si op c])
        (use RevokeAttestorWithSession in \<open>auto simp: s' logged_def Let_def session_op_count_def fun_upd_idem\<close>)
  next
    case (SetAuditLogRetention d)
    with ex show ?thesis
      by (intro kept) (auto simp: set_audit_log_retention_def bind_ok_Inr split: if_split_asm)
  next
    case (PruneAuditLogs t)
    with ex obtain n where "prune_audit_logs_internal t s = Inr (n, s')"
      by (auto simp: storage_of_Inr prune_audit_logs_def bind_ok_Inr)
    from prune_ok [OF this] show ?thesis by (intro kept) auto
  next
    case (SetAutoPruneThreshold n)
    with ex show ?thesis by (intro kept) (auto simp: set_auto_prune_threshold_def bind_ok_Inr)
  next
    case GetAuditLogCount
    with ex obtain n where "get_audit_log_count e s = Inr (n, s')" by (auto simp: storage_of_Inr)
    from get_audit_log_count_sessions [OF this] show ?thesis by (intro kept) auto
  qed
qed

section \<open>Transaction records\<close>

text \<open>
  What one call may do to a transaction record: nothing; replace it by a new pending one; evict it,
  when it is terminal and another record is created; or advance it along the state machine.
\<close>

primrec advances_to :: "txn_call \<Rightarrow> (u64 \<times> tx_state \<times> string option) option" where
  "advances_to (SetEvictionPolicy b k) = None"
| "advances_to (SetStorageBudgetThresholds w cr) = None"
| "advances_to (CreateTransactionRecord i a rr) = None"
| "advances_to (StartTransactionRecord i) = Some (i, TxInProgress, None)"
| "advances_to (CompleteTransactionRecord i) = Some (i, TxCompleted, None)"
| "advances_to (FailTransactionRecord i msg) = Some (i, TxFailed, Some msg)"

inductive record_step ::
    "env \<Rightarrow> call \<Rightarrow> u64 \<Rightarrow> transaction_state_record option \<Rightarrow> transaction_state_record option \<Rightarrow> bool"
    for e c i where
  record_kept: "record_step e c i p p"
| record_created: "c = TxnCall (CreateTransactionRecord i a rr) \<Longrightarrow>
    record_step e c i p (Some \<lparr>tx_id = i, tx_state_of = TxPending, tx_initiator = a,
      tx_timestamp = timestamp e, tx_last_updated = timestamp e, tx_last_updated_ledger = ledger_seq e,
      tx_error_message = None, tx_history = [(TxPending, timestamp e)], tx_recovery = None,
      tx_routing_reason = rr\<rparr>)"
| record_evicted: "\<lbrakk>c = TxnCall (CreateTransactionRecord j a rr); j \<noteq> i; tx_is_terminal (tx_state_of r)\<rbrakk> \<Longrightarrow>
    record_step e c i (Some r) None"
| record_advanced: "\<lbrakk>c = TxnCall x; advances_to x = Some (i, st, msg); is_valid_transition (tx_state_of r) st\<rbrakk> \<Longrightarrow>
    record_step e c i (Some r) (Some (r\<lparr>tx_state_of := st, tx_last_updated := timestamp e,
      tx_last_updated_ledger := ledger_seq e, tx_error_message := msg,
      tx_history := tx_history r @ [(st, timestamp e)],
      tx_recovery := (if st = TxFailed
        then Some \<lparr>rm_failure_reason = get_or ''unspecified failure'' msg,
               rm_last_updated_ledger = ledger_seq e, rm_failed_from_state = tx_state_of r,
               rm_retry_count = 0\<rparr>
        else tx_recovery r)\<rparr>))"

lemma auto_evict_records:
  assumes "unstable_sort srt"
  shows "txs_records (c_txs (auto_evict srt s)) i = txs_records (c_txs s) i \<or>
    txs_records (c_txs (auto_evict srt s)) i = None \<and>
    (\<exists>r. txs_records (c_txs s) i = Some r \<and> tx_is_terminal (tx_state_of r))"
proof -
  obtain n t where r: "run_auto_eviction srt (get_or 10 (txs_evict_max (c_txs s))) (c_txs s) = (n, t)"
    by (cases "run_auto_eviction srt (get_or 10 (txs_evict_max (c_txs s))) (c_txs s)")
  let ?stamps = "terminal_stamps (txs_records (c_txs s)) (get_or [] (txs_ids (c_txs s)))"
  let ?gone = "set (evicted_ids srt (get_or 10 (txs_evict_max (c_txs s))) ?stamps)"
  have "\<exists>r. txs_records (c_txs s) i = Some r \<and> tx_is_terminal (tx_state_of r)" if "i \<in> ?gone"
    using that evicted_from_stamps [OF assms, of "get_or 10 (txs_evict_max (c_txs s))" ?stamps]
    by (auto simp: set_terminal_stamps)
  then have "txs_records t i = txs_records (c_txs s) i \<or> txs_records t i = None \<and>
      (\<exists>r. txs_records (c_txs s) i = Some r \<and> tx_is_terminal (tx_state_of r))"
    unfolding run_auto_eviction_effect(1) [OF r] by simp
  then show ?thesis by (simp add: auto_evict_def Let_def r)
qed

lemma created_record_step:
  assumes "unstable_sort srt" and "create_txn_record_with_reason srt e j a rr s = (r, s')"
    and c: "c = TxnCall (CreateTransactionRecord j a rr)"
  shows "record_step e c i (txs_records (c_txs s) i) (txs_records (c_txs s') i)"
proof -
  have budget: "c_txs (budget_event s) = c_txs s" for s
    by (subst budget_event_frame) simp
  have s': "txs_records (c_txs s') = (txs_records (c_txs (auto_evict srt s)))(j \<mapsto> new_tx_record e j a rr)"
    using assms(2) by (auto simp: create_txn_record_with_reason_def Let_def budget insert_tx_def new_tx_record_def)
  show ?thesis
  proof (cases "i = j")
    case True
    then show ?thesis using record_created [of c i a rr e] c by (simp add: s' new_tx_record_def)
  next
    case False
    then show ?thesis
      using auto_evict_records [OF assms(1), of s i] record_evicted [OF c, of i _ e]
      by (auto simp: s' intro: record_kept)
  qed
qed

lemma advanced_record_step:
  assumes "advance_transaction_state e j st msg s = Inr (r', s')"
    and c: "c = TxnCall x" "advances_to x = Some (j, st, msg)"
  shows "record_step e c i (txs_records (c_txs s) i) (txs_records (c_txs s') i)"
proof -
  from advance_transaction_state_ok [OF assms(1)] obtain r where
    r: "txs_records (c_txs s) j = Some r" "is_valid_transition (tx_state_of r) st"
    and s': "s' = with_txs (\<lambda>t. t\<lparr>txs_records := (txs_records t)(j \<mapsto> advance_record e st msg r)\<rparr>) s"
    by blast
  show ?thesis
  proof (cases "i = j")
    case True
    have "advance_record e st msg r = r\<lparr>tx_state_of := st, tx_last_updated := timestamp e,
      tx_last_updated_ledger := ledger_seq e, tx_error_message := msg,
      tx_history := tx_history r @ [(st, timestamp e)],
      tx_recovery := (if st = TxFailed
        then Some \<lparr>rm_failure_reason = get_or ''unspecified failure'' msg,
               rm_last_updated_ledger = ledger_seq e, rm_failed_from_state = tx_state_of r,
               rm_retry_count = 0\<rparr>
        else tx_recovery r)\<rparr>"
      by (simp add: advance_record_def Let_def)
    with True r show ?thesis using record_advanced [OF c(1), of i st msg r e] c(2) by (simp add: s')
  next
    case False
    then show ?thesis by (simp add: s' record_kept)
  qed
qed

lemma exec_record_step:
  assumes inv: "contract_inv s" and srt: "unstable_sort srt" and run: "exec srt e c s = Inr s'"
  shows "record_step e c i (txs_records (c_txs s) i) (txs_records (c_txs s') i)"
proof (cases "PTxs \<in> set (footprint c)")
  case False
  from exec_footprint [OF inv run False] show ?thesis by (simp add: record_kept)
next
  case True
  then obtain x where c: "c = TxnCall x" by (cases c) auto
  with run have ex: "exec_txn srt e x s = Inr s'" by simp
  show ?thesis
  proof (cases x)
    case (SetEvictionPolicy b k)
    with ex show ?thesis by (auto simp: set_eviction_policy_def bind_ok_Inr intro: record_kept)
  next
    case (SetStorageBudgetThresholds w cr)
    with ex show ?thesis
      by (auto simp: set_storage_budget_thresholds_def bind_ok_Inr intro: record_kept split: if_split_asm)
  next
    case (CreateTransactionRecord j a rr)
    with ex obtain r where "create_txn_record_with_reason srt e j a rr s = (r, s')"
      by (auto simp: storage_of_Inr)
    from created_record_step [OF srt this] c CreateTransactionRecord show ?thesis by simp
  next
    case (StartTransactionRecord j)
    with ex obtain r where "advance_transaction_state e j TxInProgress None s = Inr (r, s')"
      by (auto simp: storage_of_Inr tx_step_defs)
    from advanced_record_step [OF this c] StartTransactionRecord show ?thesis by simp
  next
    case (CompleteTransactionRecord j)
    with ex obtain r where "advance_transaction_state e j TxCompleted None s = Inr (r, s')"
      by (auto simp: storage_of_Inr tx_step_defs)
    from advanced_record_step [OF this c] CompleteTransactionRecord show ?thesis by simp
  next
    case (FailTransactionRecord j msg)
    with ex obtain r where "advance_transaction_state e j TxFailed (Some msg) s = Inr (r, s')"
      by (auto simp: storage_of_Inr tx_step_defs)
    from advanced_record_step [OF this c] FailTransactionRecord show ?thesis by simp
  qed
qed

section \<open>Replays\<close>

text \<open>The mark of a recorded payload refuses it on every path of submission.\<close>

lemma used_payload_refused:
  assumes "att_used (c_attest s) (iss, h) \<noteq> None"
  shows "isl (submit_attestation e iss sub ts h sg s)"
    and "isl (submit_attestation_kyc_check e iss sub ts h sg k s)"
    and "isl (submit_with_request_id e rid iss sub ts h sg s)"
    and "isl (submit_attestation_with_session e j iss sub ts h sg s)"
    and "isl (submit_attestation_batch e a (xs @ \<lparr>in_issuer = iss, in_subject = sub, in_timestamp = ts,
        in_payload_hash = h, in_signature = sg\<rparr> # ys) s)"
proof -
  have fails: "isl m" if "\<And>n s'. m \<noteq> Inr (n, s')" for m :: "trap + 'x \<times> contract"
    using that by (cases m) auto
  show "isl (submit_attestation e iss sub ts h sg s)"
    using assms by (intro fails notI) (auto dest!: submit_attestation_ok simp: submitted_def)
  show "isl (submit_attestation_kyc_check e iss sub ts h sg k s)"
    using assms by (intro fails notI) (auto dest!: submit_attestation_kyc_check_ok simp: submitted_def)
  show "isl (submit_with_request_id e rid iss sub ts h sg s)"
    using assms by (intro fails notI) (auto dest!: submit_with_request_id_ok simp: submitted_def)
  show "isl (submit_attestation_with_session e j iss sub ts h sg s)"
    using assms by (intro fails notI) (auto dest!: submit_with_session_ok simp: submitted_def)
  show "isl (submit_attestation_batch e a (xs @ \<lparr>in_issuer = iss, in_subject = sub, in_timestamp = ts,
        in_payload_hash = h, in_signature = sg\<rparr> # ys) s)"
    using assms by (intro fails notI) (drule submit_batch_ok, auto)
qed

end
