(* ===== verification/Routing_Properties.thy ===== *)
theory Routing_Properties
  imports Contract_Routing "HOL-Library.Multiset"
begin

text \<open>
  What the routing of \<^verbatim>\<open>src/contract.rs\<close> guarantees: the choice of \<open>route_transaction\<close> and its
  errors, the preferred path, the ranking of anchors, the composite reputation and the policy of the
  time of day.
\<close>

text \<open>An anchor of reputation 0 with one quote, and no services configured.\<close>

definition unrated_anchor :: contract where
  "unrated_anchor =
     (with_directory (\<lambda>d. d\<lparr>di_list := Some [''A''], di_meta := [''A'' \<mapsto> \<lparr>rm_anchor = ''A'',
        rm_reputation = 0, rm_settlement = 9, rm_liquidity = 0, rm_uptime = 0, rm_volume = 0, rm_active = True\<rparr>]\<rparr>)
      fresh_contract)\<lparr>c_quotes := (c_quotes fresh_contract)\<lparr>quo_latest := [''A'' \<mapsto> 1],
        quo_quotes := [(''A'', 1) \<mapsto> \<lparr>qu_quote_id = 1, qu_anchor = ''A'', qu_base_asset = ''USD'',
          qu_quote_asset = ''EUR'', qu_rate = 9, qu_fee_percentage = 5, qu_minimum_amount = 1,
          qu_maximum_amount = 0, qu_valid_until = 100, qu_schema_version = 1, qu_routing_reason = None\<rparr>]\<rparr>\<rparr>"

text \<open>The same anchor, with quotes among its services; requests for its pair.\<close>

definition quoting_anchor :: contract where
  "quoting_anchor = with_profiles (\<lambda>p. p\<lparr>pr_services := [''A'' \<mapsto>
     \<lparr>as_anchor = ''A'', as_services = [1, 3], as_version = 1, as_retirements = []\<rparr>]\<rparr>) unrated_anchor"

definition usd_eur :: "string list \<Rightarrow> bool \<Rightarrow> routing_options" where
  "usd_eur strategies kyc = \<lparr>op_request = \<lparr>rq_base_asset = ''USD'', rq_quote_asset = ''EUR'', rq_amount = 7,
       rq_operation_type = 0\<rparr>, op_strategy = strategies, op_min_reputation = 0, op_max_anchors = 0,
     op_require_kyc = kyc, op_require_compliance = False, op_subject = ''U'', op_fee_weight = 500,
     op_speed_weight = 300, op_reputation_weight = 200\<rparr>"

lemma quoting_anchor_candidates:
  "candidates (accepting_env 50 1 {}) (usd_eur st kyc) quoting_anchor = [the (latest_quote quoting_anchor ''A'')]"
  "qu_quote_id (the (latest_quote quoting_anchor ''A'')) = 1"
  by (simp_all add: candidates_def anchor_list_def candidate_quote_def is_anchor_blacklisted_def
      anchor_meta_opt_def latest_quote_def advertises_quote_service_def advertises_def SERVICE_QUOTES_def
      quote_serves_def lifecycle_code_def quoting_anchor_def unrated_anchor_def usd_eur_def
      fresh_contract_def empty_anchor_store_def accepting_env_def List.map_filter_simps)


text \<open>
  C6. A routed transaction gets a quote that is the latest one of a listed, active anchor which is not
  blacklisted, has the reputation asked for and advertises quotes; the quote is for the requested
  pair, has not expired, was not invalidated and admits the amount.  Among all such quotes it is
  the first in list order that no other beats under the strategy: the lowest fee, the fastest
  settlement, the highest reputation or the highest weighted score.  A demanded compliance check has
  passed and demanded KYC is approved, and only the routing event is added to the storage.
\<close>

theorem routed_quote_is_best:
  assumes "route_transaction e opts s = Inr (q, s')"
  shows "(\<exists>a m. a \<in> set (anchor_list s) \<and> \<not> is_anchor_blacklisted s a \<and> anchor_meta_opt s a = Some m \<and>
        rm_active m \<and> op_min_reputation opts \<le> rm_reputation m \<and> latest_quote s a = Some q \<and>
        advertises_quote_service s a \<and> lifecycle_code s a (qu_quote_id q) \<noteq> lifecycle_u32 QuoteInvalidated) \<and>
      qu_base_asset q = rq_base_asset (op_request opts) \<and> qu_quote_asset q = rq_quote_asset (op_request opts) \<and>
      timestamp e < qu_valid_until q \<and> qu_minimum_amount q \<le> rq_amount (op_request opts) \<and>
      (qu_maximum_amount q = 0 \<or> rq_amount (op_request opts) \<le> qu_maximum_amount q) \<and>
      (hd (op_strategy opts) = ''LowestFee'' \<longrightarrow>
        find (\<lambda>q. \<forall>c \<in> set (candidates e opts s). qu_fee_percentage q \<le> qu_fee_percentage c) (candidates e opts s) = Some q) \<and>
      (hd (op_strategy opts) = ''FastestSettlement'' \<longrightarrow>
        find (\<lambda>q. \<forall>c \<in> set (candidates e opts s). settlement_of s q \<le> settlement_of s c) (candidates e opts s) = Some q) \<and>
      (hd (op_strategy opts) = ''HighestReputation'' \<longrightarrow>
        find (\<lambda>q. \<forall>c \<in> set (candidates e opts s). reputation_of s c \<le> reputation_of s q) (candidates e opts s) = Some q) \<and>
      (hd (op_strategy opts) = ''WeightedScore'' \<longrightarrow>
        find (\<lambda>q. \<forall>c \<in> set (candidates e opts s). weighted_score s opts (candidates e opts s) c
           \<le> weighted_score s opts (candidates e opts s) q) (candidates e opts s) = Some q) \<and>
      (op_require_compliance opts \<longrightarrow> (\<exists>r. comp_latest (c_kyc s) (op_subject opts, ''kyc'') = Some r \<and> cc_result r = 1)) \<and>
      (op_require_kyc opts \<longrightarrow> get_kyc_status e s (op_subject opts) = Approved) \<and>
      s' = emit (EvRouteSelected (qu_quote_id q) (timestamp e)) s"
proof -
  let ?qs = "candidates e opts s"
  from assms obtain st rest where ne: "?qs \<noteq> []" and st: "op_strategy opts = st # rest"
    and q: "q = choose_quote s opts st ?qs" and s': "s' = emit (EvRouteSelected (qu_quote_id q) (timestamp e)) s"
    and comp: "op_require_compliance opts \<longrightarrow> (\<exists>r. comp_latest (c_kyc s) (op_subject opts, ''kyc'') = Some r \<and> cc_result r = 1)"
    and kyc: "op_require_kyc opts \<longrightarrow> get_kyc_status e s (op_subject opts) = Approved"
    by (auto simp: route_transaction_def bind_ok_Inr Let_def require_kyc_approved_Inr
        split: if_split_asm list.split_asm option.split_asm)
  have "q \<in> set ?qs" using choose_quote_in [OF ne] q by simp
  then obtain a where a: "a \<in> set (anchor_list s)" "candidate_quote e opts s a = Some q"
    by (auto simp: candidates_def set_map_filter)
  note c = a(2) [unfolded candidate_quote_Some quote_serves_def]
  have elig: "\<exists>a m. a \<in> set (anchor_list s) \<and> \<not> is_anchor_blacklisted s a \<and> anchor_meta_opt s a = Some m \<and>
      rm_active m \<and> op_min_reputation opts \<le> rm_reputation m \<and> latest_quote s a = Some q \<and>
      advertises_quote_service s a \<and> lifecycle_code s a (qu_quote_id q) \<noteq> lifecycle_u32 QuoteInvalidated"
    using a(1) c by blast
  have fee: "st = ''LowestFee'' \<longrightarrow> find (\<lambda>q. \<forall>c \<in> set ?qs. qu_fee_percentage q \<le> qu_fee_percentage c) ?qs = Some q"
    by (simp add: q choose_quote_def first_lowest [OF ne])
  have fast: "st = ''FastestSettlement'' \<longrightarrow> find (\<lambda>q. \<forall>c \<in> set ?qs. settlement_of s q \<le> settlement_of s c) ?qs = Some q"
    by (simp add: q choose_quote_def first_lowest [OF ne])
  have best_rep: "st = ''HighestReputation'' \<longrightarrow> find (\<lambda>q. \<forall>c \<in> set ?qs. reputation_of s c \<le> reputation_of s q) ?qs = Some q"
    by (simp add: q choose_quote_def first_highest [OF ne])
  have weighted: "st = ''WeightedScore'' \<longrightarrow>
      find (\<lambda>q. \<forall>c \<in> set ?qs. weighted_score s opts ?qs c \<le> weighted_score s opts ?qs q) ?qs = Some q"
    by (simp add: q choose_quote_def first_highest [OF ne])
  have terms: "qu_base_asset q = rq_base_asset (op_request opts) \<and> qu_quote_asset q = rq_quote_asset (op_request opts) \<and>
      timestamp e < qu_valid_until q \<and> qu_minimum_amount q \<le> rq_amount (op_request opts) \<and>
      (qu_maximum_amount q = 0 \<or> rq_amount (op_request opts) \<le> qu_maximum_amount q)"
    using c by (auto simp: not_le not_less)
  show ?thesis
    using elig terms fee fast best_rep weighted comp kyc s' by (simp only: st list.sel simp_thms)
qed

theorem routed_quote_is_best_witness:
  "\<exists>q s'. route_transaction (accepting_env 50 1 {}) (usd_eur [''LowestFee''] False) quoting_anchor = Inr (q, s') \<and>
     qu_base_asset q = ''USD'' \<and> 50 < qu_valid_until q \<and>
     find (\<lambda>q. \<forall>c \<in> set (candidates (accepting_env 50 1 {}) (usd_eur [''LowestFee''] False) quoting_anchor).
       qu_fee_percentage q \<le> qu_fee_percentage c)
       (candidates (accepting_env 50 1 {}) (usd_eur [''LowestFee''] False) quoting_anchor) = Some q"
proof -
  let ?e = "accepting_env 50 1 {}" and ?o = "usd_eur [''LowestFee''] False"
  obtain q s' where run: "route_transaction ?e ?o quoting_anchor = Inr (q, s')"
    by (simp add: route_transaction_def validate_currency_code_def Let_def quoting_anchor_candidates)
      (simp add: usd_eur_def Let_def)
  from routed_quote_is_best [OF run] have "qu_base_asset q = ''USD''" "50 < qu_valid_until q"
    "find (\<lambda>q. \<forall>c \<in> set (candidates ?e ?o quoting_anchor). qu_fee_percentage q \<le> qu_fee_percentage c)
       (candidates ?e ?o quoting_anchor) = Some q"
    by (simp_all add: usd_eur_def accepting_env_def)
  with run show ?thesis by blast
qed






text \<open>
  The preferred anchor of \<open>route_with_fallback\<close> is judged by its activation, the blacklist and the
  terms of its latest quote alone: it wins for every minimum reputation, KYC and compliance demand,
  subject and strategy, and whatever services the anchor configured, even where
  \<open>route_transaction\<close> refuses the same request because the subject's KYC is not approved.
\<close>

theorem preferred_route_skips_checks:
  assumes "length (rq_base_asset rq) \<in> {1..12}" and "length (rq_quote_asset rq) \<in> {1..12}"
    and "\<not> is_anchor_blacklisted s a" and "anchor_meta_opt s a = Some m" and "rm_active m"
    and "quo_latest (c_quotes s) a = Some i" and "quo_quotes (c_quotes s) (a, i) = Some q"
    and "quote_serves (timestamp e) rq (lifecycle_code s a i) q"
  shows "\<forall>opts :: routing_options. op_request opts = rq \<longrightarrow>
    route_with_fallback e opts a s = Inr (q, emit (EvQuoteRouted (qu_quote_id q)) s) \<and>
    (op_require_kyc opts \<and> get_kyc_status e s (op_subject opts) \<noteq> Approved \<longrightarrow>
      (\<exists>t. route_transaction e opts s = Inl t))"
proof (intro allI impI conjI)
  fix opts :: routing_options assume rq: "op_request opts = rq"
  have codes: "validate_currency_code (rq_base_asset rq) = Inr ()" "validate_currency_code (rq_quote_asset rq) = Inr ()"
    using assms(1,2) by (auto simp: validate_currency_code_def)
  show "route_with_fallback e opts a s = Inr (q, emit (EvQuoteRouted (qu_quote_id q)) s)"
    using assms codes rq by (simp add: route_with_fallback_def preferred_quote_def)
  assume kyc: "op_require_kyc opts \<and> get_kyc_status e s (op_subject opts) \<noteq> Approved"
  have "require_kyc_approved e (op_subject opts) s \<noteq> Inr ()" using kyc by (simp add: require_kyc_approved_Inr)
  then show "\<exists>t. route_transaction e opts s = Inl t"
    using kyc codes rq
    by (cases "require_kyc_approved e (op_subject opts) s") (auto simp: route_transaction_def Let_def)
qed

theorem preferred_route_skips_checks_witness:
  "\<exists>q. qu_quote_id q = 1 \<and> (\<forall>opts :: routing_options. op_request opts = \<lparr>rq_base_asset = ''USD'', rq_quote_asset = ''EUR'', rq_amount = 7,
       rq_operation_type = 0\<rparr> \<longrightarrow>
     (\<exists>s'. route_with_fallback (accepting_env 50 1 {}) opts ''A'' unrated_anchor = Inr (q, s')) \<and>
     (op_require_kyc opts \<longrightarrow> (\<exists>t. route_transaction (accepting_env 50 1 {}) opts unrated_anchor = Inl t)))"
proof -
  let ?e = "accepting_env 50 1 {}" and ?rq = "\<lparr>rq_base_asset = ''USD'', rq_quote_asset = ''EUR'', rq_amount = 7, rq_operation_type = 0\<rparr>"
  obtain m where m: "anchor_meta_opt unrated_anchor ''A'' = Some m" "rm_active m"
    by (simp add: anchor_meta_opt_def unrated_anchor_def)
  obtain q where q: "quo_quotes (c_quotes unrated_anchor) (''A'', 1) = Some q" "qu_quote_id q = 1"
    "quote_serves 50 ?rq 0 q"
    by (simp add: unrated_anchor_def quote_serves_def)
  have st: "\<not> is_anchor_blacklisted unrated_anchor ''A''" "quo_latest (c_quotes unrated_anchor) ''A'' = Some 1"
    "lifecycle_code unrated_anchor ''A'' 1 = 0" "\<And>x. get_kyc_status ?e unrated_anchor x \<noteq> Approved" "timestamp ?e = 50"
    by (simp_all add: is_anchor_blacklisted_def unrated_anchor_def lifecycle_code_def get_kyc_status_def
        fresh_contract_def empty_anchor_store_def accepting_env_def)
  have "\<forall>opts :: routing_options. op_request opts = ?rq \<longrightarrow>
    route_with_fallback ?e opts ''A'' unrated_anchor = Inr (q, emit (EvQuoteRouted (qu_quote_id q)) unrated_anchor) \<and>
    (op_require_kyc opts \<and> get_kyc_status ?e unrated_anchor (op_subject opts) \<noteq> Approved \<longrightarrow>
      (\<exists>t. route_transaction ?e opts unrated_anchor = Inl t))"
    by (rule preferred_route_skips_checks [OF _ _ st(1) m st(2) q(1)]) (use q(3) st in auto)
  with q(2) st(4) show ?thesis by blast
qed

text \<open>The score of one entry against all, and the weights of the three arguments.\<close>

definition entry_score ::
    "weighted_routing_strategy \<Rightarrow> (routing_anchor_meta \<times> quote) list \<Rightarrow> routing_anchor_meta \<times> quote \<Rightarrow> u32" where
  "entry_score w es = (\<lambda>(m, q). scaled_score (score_anchor w (qu_fee_percentage q) (rm_settlement m) (rm_reputation m)
      (max_of (\<lambda>(m, q). qu_fee_percentage q) es) (max_of (\<lambda>(m, q). rm_settlement m) es)
      (max_of (\<lambda>(m, q). rm_reputation m) es)))"

definition weights_of :: "u32 \<Rightarrow> u32 \<Rightarrow> u32 \<Rightarrow> weighted_routing_strategy" where
  "weights_of f s r = \<lparr>ws_fee = per_mille f, ws_speed = per_mille s, ws_reputation = per_mille r\<rparr>"

lemma score_entries_map: "score_entries w es = map (\<lambda>x. (entry_score w es x, snd x)) es"
  by (auto simp: score_entries_def entry_score_def Let_def)

text \<open>
  C22. \<open>route_anchors\<close> refuses exactly the weights that do not add up to 1000 - the rounding of the
  floating-point sum never refuses any other.  Otherwise it answers with the entries of the highest
  scores, as many as asked for (all when the limit is 0), in descending order: every entry left out
  scores no more than every one listed.  The entries are the listed, active anchors of sufficient
  reputation whose latest quote has not expired; the blacklist, the asset pair and the lifecycle state
  of the quote play no part; nor do the services an anchor advertises, although a test of the
  repository expects an anchor without the quote service to be left out.
\<close>

theorem route_anchors_ranks:
  assumes "sorts_by_score srt"
  shows "let entries = List.map_filter (ranked_entry e min_reputation s) (anchor_list s);
      scored = score_entries (weights_of fw sw rw) entries;
      limit = (if max_results = 0 then 2 ^ 32 - 1 else unat max_results)
    in (case route_anchors srt e fw sw rw max_results min_reputation s of
        Inl t \<Rightarrow> t = Panic InvalidWeights \<and> unat fw + unat sw + unat rw \<noteq> 1000
      | Inr qs \<Rightarrow> unat fw + unat sw + unat rw = 1000 \<and>
          (\<exists>ranked others. qs = map snd ranked \<and> mset (ranked @ others) = mset scored \<and>
             length ranked = min limit (length entries) \<and> sorted_wrt (\<lambda>x y. fst y \<le> fst x) ranked \<and>
             (\<forall>x \<in> set ranked. \<forall>y \<in> set others. fst y \<le> fst x) \<and>
             (\<forall>x \<in> set ranked. fst x \<le> 1000000))) \<and>
      (\<forall>b. route_anchors srt e fw sw rw max_results min_reputation (with_directory (di_blacklist_update b) s) =
         route_anchors srt e fw sw rw max_results min_reputation s)"
proof -
  let ?es = "List.map_filter (ranked_entry e min_reputation s) (anchor_list s)"
  let ?scored = "score_entries (weights_of fw sw rw) ?es"
  let ?n = "if max_results = 0 then 2 ^ 32 - 1 else unat max_results"
  have run: "route_anchors srt e fw sw rw max_results min_reputation s =
      (if unat fw + unat sw + unat rw = 1000 then Inr (map snd (take ?n (srt ?scored))) else Inl (Panic InvalidWeights))"
    using valid_weights [of fw sw rw]
    by (auto simp: route_anchors_def weights_of_def Let_def simp flip: weights_sum_iff)
  have mset: "mset (srt xs) = mset xs" and desc: "sorted_wrt (\<lambda>x y. fst y \<le> fst x) (srt xs)" for xs
    using assms by (simp_all add: sorts_by_score_def multiset_eq_iff count_mset)
  let ?ranked = "take ?n (srt ?scored)" and ?others = "drop ?n (srt ?scored)"
  have "sorted_wrt (\<lambda>x y. fst y \<le> fst x) (?ranked @ ?others)" by (simp only: append_take_drop_id desc)
  then have ord: "sorted_wrt (\<lambda>x y. fst y \<le> fst x) ?ranked" "\<forall>x \<in> set ?ranked. \<forall>y \<in> set ?others. fst y \<le> fst x"
    unfolding sorted_wrt_append by blast+
  have len: "length ?ranked = min ?n (length ?es)"
    using mset_eq_length [OF mset, of ?scored] by (simp add: score_entries_map min.commute)
  have "set (srt ?scored) = set ?scored" using mset_eq_setD [OF mset] .
  then have small: "\<forall>x \<in> set ?ranked. fst x \<le> 1000000"
    using set_take_subset [of ?n "srt ?scored"] by (auto simp: score_entries_map entry_score_def scaled_score_le)
  have "mset (?ranked @ ?others) = mset ?scored" by (simp only: append_take_drop_id mset)
  then have exist: "\<exists>ranked others. map snd ?ranked = map snd ranked \<and> mset (ranked @ others) = mset ?scored \<and>
      length ranked = min ?n (length ?es) \<and> sorted_wrt (\<lambda>x y. fst y \<le> fst x) ranked \<and>
      (\<forall>x \<in> set ranked. \<forall>y \<in> set others. fst y \<le> fst x) \<and> (\<forall>x \<in> set ranked. fst x \<le> 1000000)"
    using ord len small by blast
  have "latest_quote (with_directory (di_blacklist_update b) s) = latest_quote s" for b
    by (simp add: fun_eq_iff latest_quote_def split: option.split)
  then have blind: "ranked_entry e min_reputation (with_directory (di_blacklist_update b) s) = ranked_entry e min_reputation s"
    "anchor_list (with_directory (di_blacklist_update b) s) = anchor_list s" for b
    by (simp_all add: fun_eq_iff ranked_entry_def anchor_list_def anchor_meta_opt_def split: option.split)
  have same: "route_anchors srt e fw sw rw max_results min_reputation (with_directory (di_blacklist_update b) s) =
      route_anchors srt e fw sw rw max_results min_reputation s" for b
    by (simp only: route_anchors_def blind)
  show ?thesis
  proof (cases "unat fw + unat sw + unat rw = 1000")
    case True
    then show ?thesis unfolding Let_def same run if_P [OF True] sum.case using exist by blast
  next
    case False
    then show ?thesis unfolding Let_def same run if_not_P [OF False] sum.case by blast
  qed
qed

theorem route_anchors_ranks_witness:
  "(case route_anchors (sort_key (\<lambda>x. - uint (fst x))) (accepting_env 50 1 {}) 500 300 200 0 0 unrated_anchor of
      Inl _ \<Rightarrow> False | Inr qs \<Rightarrow> length qs = 1)"
proof -
  let ?srt = "sort_key (\<lambda>x. - uint (fst x)) :: score_sort"
  have "sorted_wrt (\<lambda>x y. fst y \<le> fst x) (?srt xs)" for xs
    using sorted_sort_key [of "\<lambda>x. - uint (fst x)" xs] by (simp add: sorted_map word_le_def)
  then have "sorts_by_score ?srt" by (simp add: sorts_by_score_def flip: count_mset)
  from route_anchors_ranks [OF this, of "accepting_env 50 1 {}" 0 unrated_anchor 500 300 200 0]
  have "case route_anchors ?srt (accepting_env 50 1 {}) 500 300 200 0 0 unrated_anchor of
      Inl _ \<Rightarrow> False
    | Inr qs \<Rightarrow> length qs = min (2 ^ 32 - 1) (length (List.map_filter (ranked_entry (accepting_env 50 1 {}) 0 unrated_anchor) (anchor_list unrated_anchor)))"
    by (auto simp: Let_def split: sum.splits)
  moreover have "length (List.map_filter (ranked_entry (accepting_env 50 1 {}) 0 unrated_anchor) (anchor_list unrated_anchor)) = 1"
    by (simp add: anchor_list_def ranked_entry_def anchor_meta_opt_def latest_quote_def unrated_anchor_def
        fresh_contract_def empty_anchor_store_def accepting_env_def List.map_filter_simps)
  ultimately show ?thesis by (simp split: sum.splits)
qed

text \<open>
  C31. The composite reputation is at most 10000, and with unchanged totals more successful routings, more
  uptime and a higher operator quality never lower it, single-precision rounding included.
\<close>

theorem composite_reputation_monotone:
  assumes "rr_total_routed r = rr_total_routed r'" and "rr_total_ticks r = rr_total_ticks r'"
    and "rr_successful_routed r \<le> rr_successful_routed r'" and "rr_uptime_ticks r \<le> rr_uptime_ticks r'"
    and "rr_quality_score r \<le> rr_quality_score r'"
  shows "compute_composite w r \<le> compute_composite w r' \<and> compute_composite w r' \<le> 10000"
proof
  have pm: "0 \<le> per_mille x" for x by (simp add: per_mille_def f_nonneg)
  have min_mono: "min a t \<le> min b t" if "a \<le> b" for a b t :: "'w::len word" using that by (auto simp: min_def)
  have q: "f_div (f32_of_u32 (min (rr_quality_score r) 10000)) 10000
      \<le> f_div (f32_of_u32 (min (rr_quality_score r') 10000)) 10000"
    using assms(5) by (intro f_mono f32_of_mono min.mono) simp_all
  have rates: "(if t = 0 then 1 else f_div (f32_of_u64 (min a t)) (f32_of_u64 t))
      \<le> (if t = 0 then 1 else f_div (f32_of_u64 (min b t)) (f32_of_u64 t))" if "a \<le> b" for a b t
    using that by (auto intro!: f_mono f32_of_mono min.mono f_nonneg)
  have sum: "weighted_sum f s p x y z \<le> weighted_sum f s p x' y' z'"
    if "0 \<le> f" "0 \<le> s" "0 \<le> p" "x \<le> x'" "y \<le> y'" "z \<le> z'" for f s p x x' y y' z z'
    unfolding weighted_sum_def using that by (intro f_mono)
  have out: "f32_to_u32 (f_mul (f_clamp x 0 1) 10000) \<le> f32_to_u32 (f_mul (f_clamp y 0 1) 10000)" if "x \<le> y" for x y
  proof -
    have "f_clamp x 0 1 \<le> f_clamp y 0 1" using that by (simp add: f_clamp_mono)
    then show ?thesis
      unfolding f_mul_def by (intro f32_to_u32_mono round32_mono mult_right_mono) simp_all
  qed
  show "compute_composite w r \<le> compute_composite w r'"
    unfolding compute_composite_def Let_def assms(1,2)
    by (intro out sum pm rates q assms(3,4))
  have "f_mul (f_clamp x 0 1) 10000 \<le> of_nat 10000" for x
  proof -
    have "f_mul (f_clamp x 0 1) 10000 \<le> f_mul 1 10000"
      using f_clamp_bounds [of 0 1 x] unfolding f_mul_def by (intro round32_mono mult_right_mono) auto
    also have "\<dots> = of_nat 10000" by (simp add: f_mul_def)
    finally show ?thesis .
  qed
  then have "unat (compute_composite w r') \<le> 10000"
    unfolding compute_composite_def Let_def by (intro f32_to_u32_le) simp_all
  then show "compute_composite w r' \<le> 10000" by (simp add: word_le_nat_alt)
qed

theorem composite_reputation_monotone_witness:
  "compute_composite default_weights \<lparr>rr_anchor = ''A'', rr_total_routed = 9, rr_successful_routed = 3,
       rr_quality_score = 10, rr_uptime_ticks = 1, rr_total_ticks = 7, rr_updated_at = 0\<rparr>
     \<le> compute_composite default_weights \<lparr>rr_anchor = ''B'', rr_total_routed = 9, rr_successful_routed = 4,
       rr_quality_score = 11, rr_uptime_ticks = 6, rr_total_ticks = 7, rr_updated_at = 5\<rparr>"
  by (rule composite_reputation_monotone [THEN conjunct1]) simp_all

text \<open>A policy applies at a time of day when it is enabled and its window contains the time.\<close>

definition applicable :: "contract \<Rightarrow> u32 \<Rightarrow> u64 \<Rightarrow> timed_routing_policy \<Rightarrow> bool" where
  "applicable s t i p \<longleftrightarrow> ro_policies (routing s) i = Some p \<and> tp_enabled p \<and> window_is_active (tp_window p) t"

text \<open>The policies among the identifiers \<open>ks\<close> that apply, and the best of them.\<close>

definition best_policy :: "contract \<Rightarrow> u32 \<Rightarrow> u64 list \<Rightarrow> (u32 \<times> u64 \<times> string) option \<Rightarrow> bool" where
  "best_policy s t ks best \<longleftrightarrow> (case best of
      None \<Rightarrow> \<forall>i \<in> set ks. \<forall>p. \<not> applicable s t i p
    | Some (prio, i, strategy) \<Rightarrow> i \<in> set ks \<and> (\<exists>p. applicable s t i p \<and> tp_priority p = prio \<and> tp_strategy p = strategy) \<and>
        (\<forall>j \<in> set ks. \<forall>p. applicable s t j p \<longrightarrow> prio < tp_priority p \<or> (prio = tp_priority p \<and> i \<le> j)))"

lemma better_policy_skip: "\<nexists>p. applicable s t k p \<Longrightarrow> better_policy s t k b = b"
  by (auto simp: better_policy_def applicable_def split: option.split)

lemma better_policy_take:
  "applicable s t k p \<Longrightarrow> better_policy s t k b =
     (case b of None \<Rightarrow> Some (tp_priority p, k, tp_strategy p)
      | Some (prio, i, strategy) \<Rightarrow>
          if tp_priority p < prio \<or> (tp_priority p = prio \<and> k < i) then Some (tp_priority p, k, tp_strategy p) else b)"
  by (auto simp: better_policy_def applicable_def split: option.split)

lemma applicable_unique: "applicable s t k p \<Longrightarrow> applicable s t k p' \<Longrightarrow> p' = p"
  by (simp add: applicable_def)

lemma best_policy_step:
  assumes best: "best_policy s t ks b" and later: "\<forall>i \<in> set ks. i < k"
  shows "best_policy s t (ks @ [k]) (better_policy s t k b)"
proof (cases "\<exists>p. applicable s t k p")
  case False
  with best show ?thesis by (auto simp: better_policy_skip best_policy_def split: option.splits)
next
  case True
  then obtain p where p: "applicable s t k p" by blast
  show ?thesis
  proof (cases b)
    case None
    with best p show ?thesis
      by (auto simp: better_policy_take best_policy_def dest: applicable_unique [OF p])
  next
    case (Some x)
    obtain prio i st where x: "x = (prio, i, st)" by (cases x)
    with best Some have i: "i \<in> set ks" "\<exists>p. applicable s t i p \<and> tp_priority p = prio \<and> tp_strategy p = st"
      and least: "\<And>j p. j \<in> set ks \<Longrightarrow> applicable s t j p \<Longrightarrow> prio < tp_priority p \<or> (prio = tp_priority p \<and> i \<le> j)"
      by (auto simp: best_policy_def)
    have "i < k" using later i(1) by blast
    then have step: "better_policy s t k b = (if tp_priority p < prio then Some (tp_priority p, k, tp_strategy p) else b)"
      by (auto simp: better_policy_take [OF p] Some x)
    show ?thesis
    proof (cases "tp_priority p < prio")
      case True
      have "tp_priority p < tp_priority p' \<or> (tp_priority p = tp_priority p' \<and> k \<le> j)"
        if "j \<in> set (ks @ [k])" "applicable s t j p'" for j p'
      proof (cases "j = k")
        case True
        with applicable_unique [OF p] that(2) show ?thesis by simp
      next
        case False
        with that least [of j p'] \<open>tp_priority p < prio\<close> show ?thesis by auto
      qed
      then have "best_policy s t (ks @ [k]) (Some (tp_priority p, k, tp_strategy p))"
        using p unfolding best_policy_def option.case prod.case by (metis in_set_conv_decomp)
      with True show ?thesis by (simp add: step)
    next
      case False
      have "prio < tp_priority p' \<or> (prio = tp_priority p' \<and> i \<le> j)"
        if "j \<in> set (ks @ [k])" "applicable s t j p'" for j p'
      proof (cases "j = k")
        case True
        with applicable_unique [OF p] that(2) False \<open>i < k\<close> show ?thesis by (auto simp: not_less le_less)
      next
        case False
        with that least [of j p'] show ?thesis by auto
      qed
      then have "best_policy s t (ks @ [k]) (Some (prio, i, st))"
        using i unfolding best_policy_def option.case prod.case by (simp only: set_append Un_iff simp_thms) blast
      with False Some x step show ?thesis by (simp only: if_False)
    qed
  qed
qed

lemma best_policy_fold: "sorted_wrt (<) ks \<Longrightarrow> best_policy s t ks (fold (better_policy s t) ks None)"
proof (induction ks rule: rev_induct)
  case (snoc k ks)
  then show ?case using best_policy_step [of s t ks _ k] by (simp add: sorted_wrt_append)
qed (simp add: best_policy_def)

text \<open>
  C23. The policy for a time of day is the one that a complete search would give: among the enabled
  policies whose window contains the time, that of the smallest priority number, the oldest one first;
  none exactly if there is no such policy.
\<close>

theorem active_policy_is_best:
  assumes "routing_inv (routing s)"
  shows "case get_active_routing_policy s now of
      None \<Rightarrow> \<forall>i p. \<not> applicable s (ucast (now mod 86400)) i p
    | Some strategy \<Rightarrow> strategy \<noteq> [] \<and> (\<exists>i p. applicable s (ucast (now mod 86400)) i p \<and> tp_strategy p = strategy \<and>
        (\<forall>j p'. applicable s (ucast (now mod 86400)) j p' \<longrightarrow>
           (tp_priority p, i) \<le> (tp_priority p', j)))"
proof -
  let ?t = "ucast (now mod 86400) :: u32"
  have known: "i \<in> set (ids_between 1 (policy_count s))" "tp_strategy p \<noteq> []" if "applicable s ?t i p" for i p
    using that assms unfolding routing_inv_def applicable_def set_ids_between policy_count_def
    by (metis (no_types, lifting) mem_Collect_eq option.distinct(1), metis)
  have "best_policy s ?t (ids_between 1 (policy_count s))
      (fold (better_policy s ?t) (ids_between 1 (policy_count s)) None)"
    by (rule best_policy_fold) (rule ids_between_sorted)
  then show ?thesis
  proof (cases "fold (better_policy s ?t) (ids_between 1 (policy_count s)) None")
    case None
    with \<open>best_policy s ?t _ _\<close> known(1) show ?thesis
      by (auto simp: get_active_routing_policy_def Let_def best_policy_def)
  next
    case (Some x)
    obtain prio i st where x: "x = (prio, i, st)" by (cases x)
    with \<open>best_policy s ?t _ _\<close> Some obtain p where p: "applicable s ?t i p" "tp_priority p = prio" "tp_strategy p = st"
      and best: "\<And>j p'. j \<in> set (ids_between 1 (policy_count s)) \<Longrightarrow> applicable s ?t j p' \<Longrightarrow>
          prio < tp_priority p' \<or> (prio = tp_priority p' \<and> i \<le> j)"
      by (auto simp: best_policy_def)
    have "(tp_priority p, i) \<le> (tp_priority p', j)" if "applicable s ?t j p'" for j p'
      using best [OF known(1) [OF that] that] p(2) by (auto simp: less_eq_prod_def)
    with p known(2) [OF p(1)] have "st \<noteq> [] \<and> (\<exists>i p. applicable s ?t i p \<and> tp_strategy p = st \<and>
        (\<forall>j p'. applicable s ?t j p' \<longrightarrow> (tp_priority p, i) \<le> (tp_priority p', j)))" by blast
    then show ?thesis by (simp add: get_active_routing_policy_def Let_def Some x)
  qed
qed

text \<open>Two policies: one for the night with priority 2, one for the whole day with priority 5.\<close>

definition night_and_day :: contract where
  "night_and_day = with_routing (\<lambda>r. r\<lparr>ro_policy_count := Some 2, ro_policies := [
     1 \<mapsto> \<lparr>tp_id = 1, tp_name = ''day'', tp_strategy = ''LowestFee'',
       tp_window = \<lparr>tw_start = 0, tw_end = 0\<rparr>, tp_priority = 5, tp_enabled = True\<rparr>,
     2 \<mapsto> \<lparr>tp_id = 2, tp_name = ''night'', tp_strategy = ''HighestReputation'',
       tp_window = \<lparr>tw_start = 79200, tw_end = 21600\<rparr>, tp_priority = 2, tp_enabled = True\<rparr>]\<rparr>) fresh_contract"

theorem active_policy_is_best_witness:
  "get_active_routing_policy night_and_day 3600 = Some ''HighestReputation''"
proof -
  have two: "1 \<le> i \<and> i \<le> 2 \<longleftrightarrow> i = 1 \<or> i = 2" for i :: u64
    by (auto simp: word_le_nat_alt word_unat_eq_iff)
  have "routing_inv (routing night_and_day)"
    by (auto simp: routing_inv_def night_and_day_def fresh_contract_def empty_anchor_store_def two split: if_split_asm)
  note best = active_policy_is_best [OF this, of 3600]
  have time: "ucast ((3600 :: u64) mod 86400) = (3600 :: u32)" by simp
  have app: "applicable night_and_day 3600 i p \<longleftrightarrow> i \<in> {1, 2} \<and> ro_policies (routing night_and_day) i = Some p" for i p
    by (auto simp: applicable_def night_and_day_def window_is_active_def split: if_split_asm)
  have pols: "ro_policies (routing night_and_day) i = (if i = 2 then Some \<lparr>tp_id = 2, tp_name = ''night'', tp_strategy = ''HighestReputation'',
       tp_window = \<lparr>tw_start = 79200, tw_end = 21600\<rparr>, tp_priority = 2, tp_enabled = True\<rparr> else
     if i = 1 then Some \<lparr>tp_id = 1, tp_name = ''day'', tp_strategy = ''LowestFee'',
       tp_window = \<lparr>tw_start = 0, tw_end = 0\<rparr>, tp_priority = 5, tp_enabled = True\<rparr> else None)" for i
    by (simp add: night_and_day_def)
  show ?thesis
    using best unfolding time app
    by (auto simp: pols less_eq_prod_def split: option.splits if_split_asm dest: spec [of _ "2 :: u64"])
qed

end
