(* ===== verification/Transaction_Tracker.thy ===== *)
theory Transaction_Tracker
  imports Transaction_State
begin

text \<open>
  The tracker of \<^verbatim>\<open>src/transaction_state_tracker.rs\<close>: the struct \<open>TransactionStateTracker\<close> with
  both of its modes (the in-memory cache of the development mode, the persistent storage of the
  production mode) and all of its operations, the abstract map of records that both modes
  implement, and the invariant of the histories.
\<close>

section \<open>The tracker and its storage\<close>

record transition_audit_entry =
  te_transaction_id :: u64
  te_from_state :: tx_state
  te_to_state :: tx_state
  te_timestamp :: u64
  te_success :: bool

text \<open>The persistent entries \<open>TXSTATE\<close>, \<open>TXIDS\<close>, \<open>TXAUDIT\<close>, \<open>TXAUDITK\<close>, \<open>RCVPOLCY\<close>, \<open>RCVARCH\<close>, \<open>TXTTLCFG\<close>.\<close>

record tx_storage =
  tk_records :: "u64 \<Rightarrow> transaction_state_record option"
  tk_ids :: "u64 list option"
  tk_audit_count :: "u64 \<Rightarrow> u64 option"
  tk_audit :: "u64 \<times> u64 \<Rightarrow> (u32 \<times> u32 \<times> u64 \<times> bool) option"
  tk_policy :: "recovery_retention_policy option"
  tk_archived :: "u64 \<Rightarrow> archived_recovery_metadata option"
  tk_ttl_config :: "u32 option"

text \<open>\<open>tk_events\<close> are the published eviction events.\<close>

record tracker =
  tk_cache :: "transaction_state_record list"
  tk_audit_log :: "transition_audit_entry list"
  tk_is_dev_mode :: bool
  tk_known_ids :: "u64 list"
  tk_expired_ids :: "u64 list"
  tk_eviction_enabled :: bool
  tk_max_evictions :: u32
  tk_budget :: storage_budget_monitor
  tk_archive :: "archived_recovery_metadata list"
  tk_store :: tx_storage
  tk_events :: "(u32 \<times> bool) list"

definition TXSTATE_TTL :: u32 where "TXSTATE_TTL = 1555200"
definition APPROX_RECORD_BYTES :: u64 where "APPROX_RECORD_BYTES = 256"

definition empty_tx_storage :: tx_storage where
  "empty_tx_storage = \<lparr>tk_records = Map.empty, tk_ids = None, tk_audit_count = Map.empty,
     tk_audit = Map.empty, tk_policy = None, tk_archived = Map.empty, tk_ttl_config = None\<rparr>"

text \<open>\<open>TransactionStateTracker::new\<close> over the storage of the environment.\<close>

definition new_tracker :: "bool \<Rightarrow> tx_storage \<Rightarrow> tracker" where
  "new_tracker is_dev_mode st =
     \<lparr>tk_cache = [], tk_audit_log = [], tk_is_dev_mode = is_dev_mode, tk_known_ids = [],
      tk_expired_ids = [], tk_eviction_enabled = False, tk_max_evictions = 10,
      tk_budget = \<lparr>bm_entry_count = 0, bm_approx_bytes = 0\<rparr>, tk_archive = [], tk_store = st,
      tk_events = []\<rparr>"

abbreviation with_store :: "(tx_storage \<Rightarrow> tx_storage) \<Rightarrow> tracker \<Rightarrow> tracker" where
  "with_store f t \<equiv> t\<lparr>tk_store := f (tk_store t)\<rparr>"

text \<open>
  Reading and replacing one record: the first cache entry with the identifier, or the entry of
  the persistent storage.
\<close>

definition tk_lookup :: "tracker \<Rightarrow> u64 \<Rightarrow> transaction_state_record option" where
  "tk_lookup t i =
     (if tk_is_dev_mode t then find (\<lambda>r. tx_id r = i) (tk_cache t) else tk_records (tk_store t) i)"

definition tk_write :: "u64 \<Rightarrow> transaction_state_record \<Rightarrow> tracker \<Rightarrow> tracker" where
  "tk_write i r t =
     (if tk_is_dev_mode t then t\<lparr>tk_cache := update_first (\<lambda>x. tx_id x = i) r (tk_cache t)\<rparr>
      else with_store (\<lambda>st. st\<lparr>tk_records := (tk_records st)(i \<mapsto> r)\<rparr>) t)"

definition tk_insert :: "transaction_state_record \<Rightarrow> tracker \<Rightarrow> tracker" where
  "tk_insert r t =
     (if tk_is_dev_mode t
      then t\<lparr>tk_cache := tk_cache t @ [r], tk_known_ids := tk_known_ids t @ [tx_id r],
             tk_budget := record_entry APPROX_RECORD_BYTES (tk_budget t)\<rparr>
      else with_store (\<lambda>st. st\<lparr>tk_records := (tk_records st)(tx_id r \<mapsto> r),
             tk_ids := Some (get_or [] (tk_ids st) @ [tx_id r])\<rparr>) t)"

definition tk_not_found :: "tracker \<Rightarrow> string" where
  "tk_not_found t = (if tk_is_dev_mode t then ''Transaction not found in cache'' else ''Transaction not found'')"

text \<open>\<open>for _ in 0..n\<close>.\<close>

definition repeat_fn :: "nat \<Rightarrow> ('a \<Rightarrow> 'a) \<Rightarrow> 'a \<Rightarrow> 'a" where
  "repeat_fn n f x = (f ^^ n) x"

section \<open>Creation and eviction\<close>

definition auto_evict_if_needed :: "stamp_sort \<Rightarrow> tracker \<Rightarrow> tracker" where
  "auto_evict_if_needed srt t =
     (if \<not> tk_eviction_enabled t then t
      else let status = get_status 5120 12800 (tk_budget t) in
      if status = BudgetOk then t
      else if tk_is_dev_mode t
      then let stamps = map (\<lambda>r. (tx_timestamp r, tx_id r)) (filter (\<lambda>r. tx_is_terminal (tx_state_of r)) (tk_cache t));
               evicted = evicted_ids srt (tk_max_evictions t) stamps
           in if evicted = [] then t
              else t\<lparr>tk_cache := filter (\<lambda>r. tx_id r \<notin> set evicted) (tk_cache t),
                     tk_known_ids := filter (\<lambda>i. i \<notin> set evicted) (tk_known_ids t),
                     tk_budget := repeat_fn (length evicted) (remove_entry APPROX_RECORD_BYTES) (tk_budget t),
                     tk_events := tk_events t @ [(of_nat (length evicted), status = BudgetCritical)]\<rparr>
      else let st = tk_store t; ids = get_or [] (tk_ids st);
               evicted = evicted_ids srt (tk_max_evictions t) (terminal_stamps (tk_records st) ids)
           in if evicted = [] then t
              else t\<lparr>tk_store := st\<lparr>tk_records := fold (\<lambda>i m. m(i := None)) evicted (tk_records st),
                                    tk_ids := Some (filter (\<lambda>i. i \<notin> set evicted) ids)\<rparr>,
                     tk_events := tk_events t @ [(of_nat (length evicted), status = BudgetCritical)]\<rparr>)"

text \<open>An operation returns the value of its \<open>Result\<close> and the new tracker, or traps.\<close>

type_synonym 'a tk_result = "trap + ((string + 'a) \<times> tracker)"

definition create_transaction_with_reason ::
    "stamp_sort \<Rightarrow> env \<Rightarrow> u64 \<Rightarrow> address \<Rightarrow> string option \<Rightarrow> tracker \<Rightarrow> transaction_state_record tk_result" where
  "create_transaction_with_reason srt e transaction_id initiator routing_reason t =
     (let r = new_tx_record e transaction_id initiator routing_reason
      in Inr (Inr r, tk_insert r (auto_evict_if_needed srt t)))"

definition create_transaction ::
    "stamp_sort \<Rightarrow> env \<Rightarrow> u64 \<Rightarrow> address \<Rightarrow> tracker \<Rightarrow> transaction_state_record tk_result" where
  "create_transaction srt e transaction_id initiator t =
     create_transaction_with_reason srt e transaction_id initiator None t"

section \<open>State changes\<close>

text \<open>The audit entry of an attempted transition: a list in memory, numbered entries in storage.\<close>

definition audit_transition ::
    "env \<Rightarrow> u64 \<Rightarrow> tx_state \<Rightarrow> tx_state \<Rightarrow> bool \<Rightarrow> tracker \<Rightarrow> trap + tracker" where
  "audit_transition e i from_s to_s valid t =
     (if tk_is_dev_mode t
      then Inr (t\<lparr>tk_audit_log := tk_audit_log t @
             [\<lparr>te_transaction_id = i, te_from_state = from_s, te_to_state = to_s,
               te_timestamp = timestamp e, te_success = valid\<rparr>]\<rparr>)
      else
        let idx = get_or 0 (tk_audit_count (tk_store t) i) in
        bind_ok (plus_trap idx 1) (\<lambda>n.
          Inr (with_store (\<lambda>st. st\<lparr>
            tk_audit := (tk_audit st)((i, idx) \<mapsto> (tx_u32 from_s, tx_u32 to_s, timestamp e, valid)),
            tk_audit_count := (tk_audit_count st)(i \<mapsto> n)\<rparr>) t)))"

definition update_state ::
    "env \<Rightarrow> u64 \<Rightarrow> tx_state \<Rightarrow> string option \<Rightarrow> tracker \<Rightarrow> transaction_state_record tk_result" where
  "update_state e i new_state error_message t =
     (case tk_lookup t i of
        None \<Rightarrow> Inr (Inl (tk_not_found t), t)
      | Some r \<Rightarrow>
          let valid = is_valid_transition (tx_state_of r) new_state in
          bind_ok (audit_transition e i (tx_state_of r) new_state valid t) (\<lambda>t1.
            if \<not> valid then Inr (Inl (illegal_transition_message (tx_state_of r) new_state), t1)
            else let r1 = advance_record e new_state error_message r
                 in Inr (Inr r1, tk_write i r1 t1)))"

definition start_transaction :: "env \<Rightarrow> u64 \<Rightarrow> tracker \<Rightarrow> transaction_state_record tk_result" where
  "start_transaction e i t = update_state e i TxInProgress None t"

definition complete_transaction :: "env \<Rightarrow> u64 \<Rightarrow> tracker \<Rightarrow> transaction_state_record tk_result" where
  "complete_transaction e i t = update_state e i TxCompleted None t"

definition fail_transaction :: "env \<Rightarrow> u64 \<Rightarrow> string \<Rightarrow> tracker \<Rightarrow> transaction_state_record tk_result" where
  "fail_transaction e i error_message t = update_state e i TxFailed (Some error_message) t"

definition advance_tracked_state :: "env \<Rightarrow> u64 \<Rightarrow> tx_state \<Rightarrow> tracker \<Rightarrow> transaction_state_record tk_result" where
  "advance_tracked_state e i new_state t = update_state e i new_state None t"

section \<open>Recovery\<close>

definition record_recovery_attempt :: "u64 \<Rightarrow> tracker \<Rightarrow> unit tk_result" where
  "record_recovery_attempt i t =
     (case tk_lookup t i of
        None \<Rightarrow> Inr (Inl (tk_not_found t), t)
      | Some r \<Rightarrow> bind_ok (attempt_record r) (\<lambda>res.
          case res of Inl msg \<Rightarrow> Inr (Inl msg, t) | Inr r1 \<Rightarrow> Inr (Inr (), tk_write i r1 t)))"

text \<open>Only the development mode records the resumption in its audit log.\<close>

definition resume_partial_recovery :: "env \<Rightarrow> u64 \<Rightarrow> tracker \<Rightarrow> transaction_state_record tk_result" where
  "resume_partial_recovery e i t =
     (case tk_lookup t i of
        None \<Rightarrow> Inr (Inl (tk_not_found t), t)
      | Some r \<Rightarrow> bind_ok (resume_record e r) (\<lambda>res.
          case res of
            Inl msg \<Rightarrow> Inr (Inl msg, t)
          | Inr r1 \<Rightarrow>
              bind_ok (if tk_is_dev_mode t then audit_transition e i TxFailed (tx_state_of r1) True t else Inr t)
                (\<lambda>t1. Inr (Inr r1, tk_write i r1 t1))))"

definition get_recovery_metadata :: "tracker \<Rightarrow> u64 \<Rightarrow> recovery_metadata option" where
  "get_recovery_metadata t i = (case tk_lookup t i of None \<Rightarrow> None | Some r \<Rightarrow> tx_recovery r)"

definition is_recoverable :: "tracker \<Rightarrow> u64 \<Rightarrow> bool" where
  "is_recoverable t i = (case tk_lookup t i of None \<Rightarrow> False | Some r \<Rightarrow> tx_state_of r = TxFailed)"

definition is_partially_recoverable :: "tracker \<Rightarrow> u64 \<Rightarrow> bool" where
  "is_partially_recoverable t i =
     (case tk_lookup t i of
        None \<Rightarrow> False
      | Some r \<Rightarrow> tx_state_of r = TxFailed \<and>
          (case tx_recovery r of Some meta \<Rightarrow> \<not> tx_is_terminal (rm_failed_from_state meta) | None \<Rightarrow> False))"

text \<open>Export and import; \<open>to_json\<close> and \<open>from_json\<close> are the serializer's.\<close>

record recovery_export =
  ex_failure_reason :: string
  ex_last_updated_ledger :: u32
  ex_failed_from_state :: string
  ex_retry_count :: u32
  ex_transaction_id :: u64

definition export_recovery_state ::
    "(recovery_export \<Rightarrow> string + string) \<Rightarrow> tracker \<Rightarrow> u64 \<Rightarrow> string + string" where
  "export_recovery_state to_json t i =
     bind_ok (of_option (''No recovery metadata for transaction '' @ decimal (unat i)) (get_recovery_metadata t i)) (\<lambda>meta.
       case to_json \<lparr>ex_failure_reason = rm_failure_reason meta,
              ex_last_updated_ledger = rm_last_updated_ledger meta,
              ex_failed_from_state = tx_as_str (rm_failed_from_state meta),
              ex_retry_count = rm_retry_count meta, ex_transaction_id = i\<rparr> of
         Inl err \<Rightarrow> Inl (''Serialization error: '' @ err)
       | Inr json \<Rightarrow> Inr json)"

definition import_recovery_state ::
    "(string \<Rightarrow> string + recovery_export) \<Rightarrow> env \<Rightarrow> string \<Rightarrow> address \<Rightarrow> tracker \<Rightarrow> (string + unit) \<times> tracker" where
  "import_recovery_state from_json e json_data initiator t =
     (case from_json json_data of
        Inl err \<Rightarrow> (Inl (''Invalid recovery state JSON: '' @ err), t)
      | Inr imp \<Rightarrow>
     (case tx_from_str (ex_failed_from_state imp) of
        None \<Rightarrow> (Inl (''Invalid failed_from_state '' @ [CHR 0x27] @ ex_failed_from_state imp @ [CHR 0x27] @
                   '': must be one of: pending, in_progress, completed, failed''), t)
      | Some failed_from \<Rightarrow>
       if tx_is_terminal failed_from
       then (Inl (''Invalid failed_from_state '' @ [CHR 0x27] @ ex_failed_from_state imp @ [CHR 0x27] @
                   '': cannot be a terminal state''), t)
       else
         let i = ex_transaction_id imp;
             meta = \<lparr>rm_failure_reason = ex_failure_reason imp,
                     rm_last_updated_ledger = ex_last_updated_ledger imp,
                     rm_failed_from_state = failed_from, rm_retry_count = ex_retry_count imp\<rparr>
         in case tk_lookup t i of
              Some r \<Rightarrow>
                if tx_state_of r \<noteq> TxFailed
                then (Inl (''Cannot import recovery state: transaction '' @ decimal (unat i) @
                       '' is in state '' @ [CHR 0x27] @ tx_as_str (tx_state_of r) @ [CHR 0x27] @
                       '', expected '' @ [CHR 0x27] @ ''failed'' @ [CHR 0x27]), t)
                else (Inr (), tk_write i (r\<lparr>tx_recovery := Some meta, tx_last_updated := timestamp e,
                                         tx_last_updated_ledger := ledger_seq e\<rparr>) t)
            | None \<Rightarrow>
                (Inr (), tk_insert \<lparr>tx_id = i, tx_state_of = TxFailed, tx_initiator = initiator,
                   tx_timestamp = timestamp e, tx_last_updated = timestamp e,
                   tx_last_updated_ledger = ledger_seq e, tx_error_message = Some (ex_failure_reason imp),
                   tx_history = [(TxPending, timestamp e), (failed_from, timestamp e), (TxFailed, timestamp e)],
                   tx_recovery = Some meta, tx_routing_reason = None\<rparr> t)))"

section \<open>Pruning and archival of recovery metadata\<close>

definition set_retention_policy :: "recovery_retention_policy \<Rightarrow> tx_storage \<Rightarrow> tx_storage" where
  "set_retention_policy p st = st\<lparr>tk_policy := Some p\<rparr>"

definition get_retention_policy :: "tx_storage \<Rightarrow> recovery_retention_policy" where
  "get_retention_policy st = get_or default_policy (tk_policy st)"

definition prune_recovery_metadata ::
    "recovery_retention_policy \<Rightarrow> env \<Rightarrow> u64 \<Rightarrow> tracker \<Rightarrow> bool \<times> tracker" where
  "prune_recovery_metadata p e i t =
     (case tk_lookup t i of
        None \<Rightarrow> (False, t)
      | Some r \<Rightarrow>
          (case eligible_meta e p r of
             None \<Rightarrow> (False, t)
           | Some _ \<Rightarrow> (True, tk_write i (r\<lparr>tx_recovery := None\<rparr>) t)))"

definition archive_recovery_metadata ::
    "recovery_retention_policy \<Rightarrow> env \<Rightarrow> u64 \<Rightarrow> tracker \<Rightarrow> bool \<times> tracker" where
  "archive_recovery_metadata p e i t =
     (case tk_lookup t i of
        None \<Rightarrow> (False, t)
      | Some r \<Rightarrow>
          (case eligible_meta e p r of
             None \<Rightarrow> (False, t)
           | Some meta \<Rightarrow>
               (let t1 = tk_write i (r\<lparr>tx_recovery := None\<rparr>) t; entry = archived_entry e i meta
                in (True, if tk_is_dev_mode t then t1\<lparr>tk_archive := tk_archive t1 @ [entry]\<rparr>
                          else with_store (\<lambda>st. st\<lparr>tk_archived := (tk_archived st)(i \<mapsto> entry)\<rparr>) t1))))"

definition get_archived_recovery_metadata :: "tracker \<Rightarrow> u64 \<Rightarrow> archived_recovery_metadata option" where
  "get_archived_recovery_metadata t i =
     (if tk_is_dev_mode t then find (\<lambda>a. ar_transaction_id a = i) (tk_archive t)
      else tk_archived (tk_store t) i)"

definition listed_ids :: "tracker \<Rightarrow> u64 list" where
  "listed_ids t = (if tk_is_dev_mode t then tk_known_ids t else get_or [] (tk_ids (tk_store t)))"

definition sweep_step ::
    "recovery_retention_policy \<Rightarrow> bool \<Rightarrow> env \<Rightarrow> u32 \<times> tracker \<Rightarrow> u64 \<Rightarrow> trap + (u32 \<times> tracker)" where
  "sweep_step p archive e = (\<lambda>(n, t) i.
     (case (if archive then archive_recovery_metadata p e i t else prune_recovery_metadata p e i t) of
        (did, t1) \<Rightarrow> if did then bind_ok (plus_trap n 1) (\<lambda>n1. Inr (n1, t1)) else Inr (n, t1)))"

definition sweep_recovery_metadata ::
    "recovery_retention_policy \<Rightarrow> bool \<Rightarrow> env \<Rightarrow> tracker \<Rightarrow> trap + (u32 \<times> tracker)" where
  "sweep_recovery_metadata p archive e t = list_bind (sweep_step p archive e) (0, t) (listed_ids t)"

section \<open>Queries, expiry and the cache\<close>

definition get_transaction_state :: "tracker \<Rightarrow> u64 \<Rightarrow> transaction_state_record option" where
  "get_transaction_state t i = tk_lookup t i"

definition get_transactions_by_state :: "tracker \<Rightarrow> tx_state \<Rightarrow> transaction_state_record list" where
  "get_transactions_by_state t st =
     (if tk_is_dev_mode t then filter (\<lambda>r. tx_state_of r = st) (tk_cache t) else [])"

definition get_failed_transactions :: "tracker \<Rightarrow> transaction_state_record list" where
  "get_failed_transactions t = get_transactions_by_state t TxFailed"

definition get_all_transactions :: "tracker \<Rightarrow> transaction_state_record list" where
  "get_all_transactions t = (if tk_is_dev_mode t then tk_cache t else [])"

definition clear_cache :: "tracker \<Rightarrow> (string + unit) \<times> tracker" where
  "clear_cache t =
     (if tk_is_dev_mode t then (Inr (), t\<lparr>tk_cache := []\<rparr>)
      else (Inl ''Cannot clear cache in production mode'', t))"

definition cache_size :: "tracker \<Rightarrow> nat" where
  "cache_size t = length (tk_cache t)"

text \<open>The trap is the overflow of \<open>id += 1\<close>.\<close>

definition get_tracked_in_range ::
    "tracker \<Rightarrow> u64 \<Rightarrow> u64 \<Rightarrow> u32 \<Rightarrow> trap + transaction_state_record list" where
  "get_tracked_in_range t from_id to_id limit =
     (if to_id < from_id then Inr []
      else if tk_is_dev_mode t
      then Inr (take (unat (min limit 100))
             (sort_key tx_id (filter (\<lambda>r. from_id \<le> tx_id r \<and> tx_id r \<le> to_id) (tk_cache t))))
      else range_loop ArithTrap (tk_records (tk_store t)) to_id (unat (min limit 100)) from_id [])"

definition summarize_tracked_by_status :: "tracker \<Rightarrow> trap + transaction_status_summary" where
  "summarize_tracked_by_status t =
     (if tk_is_dev_mode t
      then list_bind (\<lambda>m r. count_state (tx_state_of r) m) empty_summary (tk_cache t)
      else list_bind (\<lambda>m i. case tk_records (tk_store t) i of
               None \<Rightarrow> Inr m
             | Some r \<Rightarrow> count_state (tx_state_of r) m) empty_summary (get_or [] (tk_ids (tk_store t))))"

definition active_ttl :: "tx_storage \<Rightarrow> u32" where
  "active_ttl st = get_or TXSTATE_TTL (tk_ttl_config st)"

definition set_ttl_config :: "u32 \<Rightarrow> tx_storage \<Rightarrow> tx_storage" where
  "set_ttl_config new_ttl st = st\<lparr>tk_ttl_config := Some new_ttl\<rparr>"

text \<open>\<open>removed += 1\<close> for every identifier dropped.\<close>

definition counted :: "nat \<Rightarrow> trap + u64" where
  "counted n = (if n < 2 ^ 64 then Inr (of_nat n) else Inl ArithTrap)"

definition cleanup_expired :: "tracker \<Rightarrow> trap + (u64 \<times> tracker)" where
  "cleanup_expired t =
     (if tk_is_dev_mode t
      then let expired = set (tk_expired_ids t) in
        bind_ok (counted (length (filter (\<lambda>r. tx_id r \<in> expired) (tk_cache t)))) (\<lambda>n.
          Inr (n, t\<lparr>tk_cache := filter (\<lambda>r. tx_id r \<notin> expired) (tk_cache t),
                    tk_known_ids := filter (\<lambda>i. i \<notin> expired) (tk_known_ids t),
                    tk_expired_ids := []\<rparr>))
      else let ids = get_or [] (tk_ids (tk_store t)); has = (\<lambda>i. tk_records (tk_store t) i \<noteq> None) in
        bind_ok (counted (length (filter (\<lambda>i. \<not> has i) ids))) (\<lambda>n.
          Inr (n, with_store (\<lambda>st. st\<lparr>tk_ids := Some (filter has ids)\<rparr>) t)))"

section \<open>Calls\<close>

datatype (plugins only: size) tx_call =
    TkCreate u64 address "string option"
  | TkAdvance u64 tx_state "string option"
  | TkAttempt u64
  | TkResume u64
  | TkPrune recovery_retention_policy u64
  | TkArchive recovery_retention_policy u64
  | TkSweep recovery_retention_policy bool
  | TkImport string address
  | TkSetEviction bool u32
  | TkMarkExpired "u64 list"
  | TkCleanup
  | TkClearCache

datatype (plugins only: size) tx_answer =
    AnsRecord transaction_state_record | AnsUnit | AnsFlag bool | AnsCount u64

definition answer :: "('a \<Rightarrow> tx_answer) \<Rightarrow> 'a tk_result \<Rightarrow> tx_answer tk_result" where
  "answer f res = bind_ok res (\<lambda>(v, t). Inr (case v of Inl msg \<Rightarrow> Inl msg | Inr x \<Rightarrow> Inr (f x), t))"

text \<open>
  One call, with the sort and the deserializer as parameters.  The fields \<open>eviction_enabled\<close>,
  \<open>max_evictions_per_call\<close> and \<open>expired_ids\<close> are public: their owner sets them.
\<close>

primrec tk_exec ::
    "stamp_sort \<Rightarrow> (string \<Rightarrow> string + recovery_export) \<Rightarrow> env \<Rightarrow> tx_call \<Rightarrow> tracker \<Rightarrow> tx_answer tk_result" where
  "tk_exec srt from_json e (TkCreate i a rr) t =
     answer AnsRecord (create_transaction_with_reason srt e i a rr t)"
| "tk_exec srt from_json e (TkAdvance i st msg) t = answer AnsRecord (update_state e i st msg t)"
| "tk_exec srt from_json e (TkAttempt i) t = answer (\<lambda>_. AnsUnit) (record_recovery_attempt i t)"
| "tk_exec srt from_json e (TkResume i) t = answer AnsRecord (resume_partial_recovery e i t)"
| "tk_exec srt from_json e (TkPrune p i) t =
     (case prune_recovery_metadata p e i t of (b, t1) \<Rightarrow> Inr (Inr (AnsFlag b), t1))"
| "tk_exec srt from_json e (TkArchive p i) t =
     (case archive_recovery_metadata p e i t of (b, t1) \<Rightarrow> Inr (Inr (AnsFlag b), t1))"
| "tk_exec srt from_json e (TkSweep p ar) t =
     bind_ok (sweep_recovery_metadata p ar e t) (\<lambda>(n, t1). Inr (Inr (AnsCount (ucast n)), t1))"
| "tk_exec srt from_json e (TkImport json a) t =
     answer (\<lambda>_. AnsUnit) (Inr (import_recovery_state from_json e json a t))"
| "tk_exec srt from_json e (TkSetEviction b k) t =
     Inr (Inr AnsUnit, t\<lparr>tk_eviction_enabled := b, tk_max_evictions := k\<rparr>)"
| "tk_exec srt from_json e (TkMarkExpired ids) t = Inr (Inr AnsUnit, t\<lparr>tk_expired_ids := ids\<rparr>)"
| "tk_exec srt from_json e TkCleanup t =
     bind_ok (cleanup_expired t) (\<lambda>(n, t1). Inr (Inr (AnsCount n), t1))"
| "tk_exec srt from_json e TkClearCache t = answer (\<lambda>_. AnsUnit) (Inr (clear_cache t))"

text \<open>A sequence of calls; a trap stops it.\<close>

fun tk_run ::
    "stamp_sort \<Rightarrow> (string \<Rightarrow> string + recovery_export) \<Rightarrow> (env \<times> tx_call) list \<Rightarrow> tracker \<Rightarrow>
      trap + ((string + tx_answer) list \<times> tracker)" where
  "tk_run srt from_json [] t = Inr ([], t)"
| "tk_run srt from_json ((e, c) # cs) t =
     bind_ok (tk_exec srt from_json e c t) (\<lambda>(a, t1).
       bind_ok (tk_run srt from_json cs t1) (\<lambda>(as, t2). Inr (a # as, t2)))"

section \<open>Lookups after writes\<close>

lemma tk_write_mode [simp]:
  "tk_is_dev_mode (tk_write i r t) = tk_is_dev_mode t"
  "tk_eviction_enabled (tk_write i r t) = tk_eviction_enabled t"
  "tk_audit_count (tk_store (tk_write i r t)) = tk_audit_count (tk_store t)"
  "listed_ids (tk_write i r t) = listed_ids t"
  by (simp_all add: tk_write_def listed_ids_def)

lemma tk_insert_mode [simp]:
  "tk_is_dev_mode (tk_insert r t) = tk_is_dev_mode t"
  "tk_eviction_enabled (tk_insert r t) = tk_eviction_enabled t"
  "tk_audit_count (tk_store (tk_insert r t)) = tk_audit_count (tk_store t)"
  "listed_ids (tk_insert r t) = listed_ids t @ [tx_id r]"
  by (simp_all add: tk_insert_def listed_ids_def)

lemma tk_lookup_cong:
  "tk_is_dev_mode t' = tk_is_dev_mode t \<Longrightarrow> tk_cache t' = tk_cache t \<Longrightarrow>
    tk_records (tk_store t') = tk_records (tk_store t) \<Longrightarrow> tk_lookup t' = tk_lookup t"
  by (rule ext) (simp add: tk_lookup_def)

lemma tk_lookup_write:
  assumes "tk_lookup t i = Some r0" and "tx_id r = i"
  shows "tk_lookup (tk_write i r t) = (tk_lookup t)(i \<mapsto> r)"
proof
  fix j show "tk_lookup (tk_write i r t) j = ((tk_lookup t)(i \<mapsto> r)) j"
  proof (cases "tk_is_dev_mode t")
    case True
    then have "find (\<lambda>x. tx_id x = i) (tk_cache t) \<noteq> None"
      using assms(1) by (simp add: tk_lookup_def)
    with find_update_first [OF this assms(2), of j] True show ?thesis
      by (simp add: tk_lookup_def tk_write_def)
  qed (simp add: tk_lookup_def tk_write_def)
qed

lemma find_append: "find P (xs @ ys) = (case find P xs of None \<Rightarrow> find P ys | Some x \<Rightarrow> Some x)"
  by (induction xs) auto

lemma tk_lookup_insert:
  assumes "tk_lookup t (tx_id r) = None"
  shows "tk_lookup (tk_insert r t) = (tk_lookup t)(tx_id r \<mapsto> r)"
proof
  fix j show "tk_lookup (tk_insert r t) j = ((tk_lookup t)(tx_id r \<mapsto> r)) j"
    using assms by (auto simp: tk_lookup_def tk_insert_def find_append split: option.split)
qed

section \<open>The abstract tracker\<close>

text \<open>
  A map from identifiers to records.  \<open>None\<close> as an answer is an error of any text; both modes
  have to give the same answers.
\<close>

type_synonym tx_map = "u64 \<Rightarrow> transaction_state_record option"

definition map_change ::
    "u64 \<Rightarrow> trap + (string + transaction_state_record) \<Rightarrow> (transaction_state_record \<Rightarrow> tx_answer) \<Rightarrow> tx_map \<Rightarrow>
      trap + (tx_answer option \<times> tx_map)" where
  "map_change i res f m =
     bind_ok res (\<lambda>v. case v of Inl _ \<Rightarrow> Inr (None, m) | Inr r \<Rightarrow> Inr (Some (f r), m(i \<mapsto> r)))"

definition clear_eligible :: "env \<Rightarrow> recovery_retention_policy \<Rightarrow> transaction_state_record \<Rightarrow> transaction_state_record" where
  "clear_eligible e p r = (if eligible_meta e p r = None then r else r\<lparr>tx_recovery := None\<rparr>)"

definition eligible_ids :: "env \<Rightarrow> recovery_retention_policy \<Rightarrow> tx_map \<Rightarrow> u64 set" where
  "eligible_ids e p m = {i. \<exists>r. m i = Some r \<and> eligible_meta e p r \<noteq> None}"

definition map_prune :: "env \<Rightarrow> recovery_retention_policy \<Rightarrow> u64 \<Rightarrow> tx_map \<Rightarrow> tx_map" where
  "map_prune e p i m = (case m i of None \<Rightarrow> m | Some r \<Rightarrow> m(i \<mapsto> clear_eligible e p r))"

text \<open>The record an import writes over \<open>r\<close>, or anew.\<close>

definition imported :: "env \<Rightarrow> recovery_export \<Rightarrow> tx_state \<Rightarrow> address \<Rightarrow> transaction_state_record option \<Rightarrow> transaction_state_record" where
  "imported e imp failed_from a old =
     (let meta = \<lparr>rm_failure_reason = ex_failure_reason imp,
                  rm_last_updated_ledger = ex_last_updated_ledger imp,
                  rm_failed_from_state = failed_from, rm_retry_count = ex_retry_count imp\<rparr>
      in case old of
           Some r \<Rightarrow> r\<lparr>tx_recovery := Some meta, tx_last_updated := timestamp e,
                       tx_last_updated_ledger := ledger_seq e\<rparr>
         | None \<Rightarrow> \<lparr>tx_id = ex_transaction_id imp, tx_state_of = TxFailed, tx_initiator = a,
                   tx_timestamp = timestamp e, tx_last_updated = timestamp e,
                   tx_last_updated_ledger = ledger_seq e, tx_error_message = Some (ex_failure_reason imp),
                   tx_history = [(TxPending, timestamp e), (failed_from, timestamp e), (TxFailed, timestamp e)],
                   tx_recovery = Some meta, tx_routing_reason = None\<rparr>)"

definition map_import ::
    "env \<Rightarrow> string + recovery_export \<Rightarrow> address \<Rightarrow> tx_map \<Rightarrow> tx_answer option \<times> tx_map" where
  "map_import e parsed a m =
     (case parsed of
        Inl _ \<Rightarrow> (None, m)
      | Inr imp \<Rightarrow>
     (case tx_from_str (ex_failed_from_state imp) of
        None \<Rightarrow> (None, m)
      | Some failed_from \<Rightarrow>
         let i = ex_transaction_id imp in
         if tx_is_terminal failed_from \<or> (\<exists>r. m i = Some r \<and> tx_state_of r \<noteq> TxFailed) then (None, m)
         else (Some AnsUnit, m(i \<mapsto> imported e imp failed_from a (m i)))))"

fun map_exec ::
    "(string \<Rightarrow> string + recovery_export) \<Rightarrow> env \<Rightarrow> tx_call \<Rightarrow> tx_map \<Rightarrow> trap + (tx_answer option \<times> tx_map)" where
  "map_exec from_json e (TkCreate i a rr) m =
     Inr (Some (AnsRecord (new_tx_record e i a rr)), m(i \<mapsto> new_tx_record e i a rr))"
| "map_exec from_json e (TkAdvance i st msg) m =
     (case m i of
        None \<Rightarrow> Inr (None, m)
      | Some r \<Rightarrow> map_change i (Inr (if is_valid_transition (tx_state_of r) st
                                  then Inr (advance_record e st msg r) else Inl [])) AnsRecord m)"
| "map_exec from_json e (TkAttempt i) m =
     (case m i of None \<Rightarrow> Inr (None, m) | Some r \<Rightarrow> map_change i (attempt_record r) (\<lambda>_. AnsUnit) m)"
| "map_exec from_json e (TkResume i) m =
     (case m i of None \<Rightarrow> Inr (None, m) | Some r \<Rightarrow> map_change i (resume_record e r) AnsRecord m)"
| "map_exec from_json e (TkPrune p i) m = Inr (Some (AnsFlag (i \<in> eligible_ids e p m)), map_prune e p i m)"
| "map_exec from_json e (TkArchive p i) m = Inr (Some (AnsFlag (i \<in> eligible_ids e p m)), map_prune e p i m)"
| "map_exec from_json e (TkSweep p ar) m =
     (if card (eligible_ids e p m) < 2 ^ 32
      then Inr (Some (AnsCount (of_nat (card (eligible_ids e p m)))),
                \<lambda>i. map_option (clear_eligible e p) (m i))
      else Inl ArithTrap)"
| "map_exec from_json e (TkImport json a) m = Inr (map_import e (from_json json) a m)"
| "map_exec from_json e c m = Inr (None, m)"

text \<open>The calls the abstract tracker covers: identifiers are fresh when created.\<close>

fun admissible :: "tx_call \<Rightarrow> tx_map \<Rightarrow> bool" where
  "admissible (TkCreate i a rr) m \<longleftrightarrow> m i = None"
| "admissible (TkSetEviction b k) m \<longleftrightarrow> False"
| "admissible (TkMarkExpired ids) m \<longleftrightarrow> False"
| "admissible TkCleanup m \<longleftrightarrow> False"
| "admissible TkClearCache m \<longleftrightarrow> False"
| "admissible c m \<longleftrightarrow> True"

text \<open>
  A tracker represents a map when its lookups are the map, every record is listed and sits under
  its own identifier, eviction is off and no audit counter is within \<open>n\<close> of its limit.
\<close>

definition represents :: "nat \<Rightarrow> tracker \<Rightarrow> tx_map \<Rightarrow> bool" where
  "represents n t m \<longleftrightarrow>
     tk_lookup t = m \<and> dom m \<subseteq> set (listed_ids t) \<and> (\<forall>i r. m i = Some r \<longrightarrow> tx_id r = i) \<and>
     \<not> tk_eviction_enabled t \<and> (\<forall>i. unat (get_or 0 (tk_audit_count (tk_store t) i)) + n < 2 ^ 64)"

definition same_answer :: "string + tx_answer \<Rightarrow> tx_answer option \<Rightarrow> bool" where
  "same_answer a b \<longleftrightarrow> (case a of Inl _ \<Rightarrow> b = None | Inr x \<Rightarrow> b = Some x)"

lemma same_answer_simps [simp]:
  "same_answer (Inl msg) None" "same_answer (Inr x) (Some y) \<longleftrightarrow> x = y"
  by (auto simp: same_answer_def)

end
