(* ===== verification/Tracker_Refinement.thy ===== *)
theory Tracker_Refinement
  imports Transaction_Tracker
begin

text \<open>
  What the transaction tracker promises: both of its modes implement the abstract map of records,
  so they answer alike; the sweep clears exactly the eligible metadata; histories are paths of the
  state machine; exported recovery metadata can be imported; and the production mode never evicts.
\<close>

section \<open>The simulation\<close>

definition step_agrees ::
    "nat \<Rightarrow> tx_answer tk_result \<Rightarrow> trap + (tx_answer option \<times> tx_map) \<Rightarrow> bool" where
  "step_agrees n res spec \<longleftrightarrow>
     (case spec of
        Inl x \<Rightarrow> res = Inl x
      | Inr (b, m') \<Rightarrow> (\<exists>a t'. res = Inr (a, t') \<and> same_answer a b \<and> represents n t' m'))"

lemma step_agrees_simps [simp]:
  "step_agrees n (Inr (a, t)) (Inr (b, m)) \<longleftrightarrow> same_answer a b \<and> represents n t m"
  "step_agrees n (Inl x) (Inl y) \<longleftrightarrow> x = y"
  by (auto simp: step_agrees_def)

lemma representsD:
  assumes "represents n t m"
  shows "tk_lookup t = m" "m i = Some r \<Longrightarrow> tx_id r = i" "dom m \<subseteq> set (listed_ids t)" "\<not> tk_eviction_enabled t"
  using assms by (auto simp: represents_def)

lemma represents_less: "represents (Suc n) t m \<Longrightarrow> represents n t m"
proof -
  assume "represents (Suc n) t m"
  moreover then have "unat (get_or 0 (tk_audit_count (tk_store t) i)) + Suc n < 2 ^ 64" for i
    by (simp only: represents_def)
  then have "unat (get_or 0 (tk_audit_count (tk_store t) i)) + n < 2 ^ 64" for i
    by (simp only: add_Suc_right Suc_lessD)
  ultimately show ?thesis by (simp add: represents_def)
qed

lemma represents_write:
  assumes "represents n t m" and "m i = Some r0" and "tx_id r = i"
  shows "represents n (tk_write i r t) (m(i \<mapsto> r))"
  using assms tk_lookup_write [of t i r0 r] by (auto simp: represents_def)

lemma represents_insert:
  assumes "represents n t m" and "m (tx_id r) = None"
  shows "represents n (tk_insert r t) (m(tx_id r \<mapsto> r))"
  using assms tk_lookup_insert [of t r] by (auto simp: represents_def)

lemma represents_frame:
  assumes "represents n t m" and "tk_lookup t' = tk_lookup t" and "listed_ids t' = listed_ids t"
    and "tk_eviction_enabled t' = tk_eviction_enabled t"
    and "\<And>i. unat (get_or 0 (tk_audit_count (tk_store t') i)) + k < 2 ^ 64"
  shows "represents k t' m"
  using assms unfolding represents_def by metis

lemma audit_room:
  "represents n t m \<Longrightarrow> unat (get_or 0 (tk_audit_count (tk_store t) i)) + n < 2 ^ 64"
  unfolding represents_def by blast

lemma represents_audit:
  assumes rep: "represents (Suc n) t m"
  shows "\<exists>t1. audit_transition e i a b v t = Inr t1 \<and> represents n t1 m"
proof (cases "tk_is_dev_mode t")
  case True
  define t' where "t' = t\<lparr>tk_audit_log := tk_audit_log t @ [\<lparr>te_transaction_id = i, te_from_state = a,
     te_to_state = b, te_timestamp = timestamp e, te_success = v\<rparr>]\<rparr>"
  have "represents n t' m"
  proof (rule represents_frame [OF rep])
    show "tk_lookup t' = tk_lookup t" by (rule tk_lookup_cong) (simp_all add: t'_def)
    show "unat (get_or 0 (tk_audit_count (tk_store t') j)) + n < 2 ^ 64" for j
      using audit_room [OF represents_less [OF rep], of j] by (simp add: t'_def)
  qed (simp_all add: t'_def listed_ids_def)
  moreover have "audit_transition e i a b v t = Inr t'" using True by (simp add: audit_transition_def t'_def)
  ultimately show ?thesis by blast
next
  case False
  define idx where "idx = get_or 0 (tk_audit_count (tk_store t) i)"
  define t' where "t' = with_store (\<lambda>st. st\<lparr>
            tk_audit := (tk_audit st)((i, idx) \<mapsto> (tx_u32 a, tx_u32 b, timestamp e, v)),
            tk_audit_count := (tk_audit_count st)(i \<mapsto> idx + 1)\<rparr>) t"
  have room: "unat idx + Suc n < 2 ^ 64" using audit_room [OF rep, of i] by (simp add: idx_def)
  then have up: "unat (idx + 1) = unat idx + 1" by (simp add: unat_word_ariths)
  have "represents n t' m"
  proof (rule represents_frame [OF rep])
    show "tk_lookup t' = tk_lookup t" by (rule tk_lookup_cong) (simp_all add: t'_def)
    show "unat (get_or 0 (tk_audit_count (tk_store t') j)) + n < 2 ^ 64" for j
      using audit_room [OF represents_less [OF rep], of j] room by (auto simp: t'_def up)
  qed (simp_all add: t'_def listed_ids_def)
  moreover have "audit_transition e i a b v t = Inr t'"
    using False room by (simp add: audit_transition_def t'_def idx_def [symmetric] plus_trap_def
        checked_add_def of_option_def)
  ultimately show ?thesis by blast
qed

section \<open>Single operations\<close>

lemma attempt_record_id: "attempt_record r = Inr (Inr r1) \<Longrightarrow> tx_id r1 = tx_id r"
  unfolding attempt_record_def
  by (auto simp: bind_ok_Inr split: if_split_asm option.split_asm)

lemma resume_record_id: "resume_record e r = Inr (Inr r1) \<Longrightarrow> tx_id r1 = tx_id r"
  unfolding resume_record_def Let_def
  by (auto simp: bind_ok_Inr split: if_split_asm option.split_asm)

lemma no_eviction: "\<not> tk_eviction_enabled t \<Longrightarrow> auto_evict_if_needed srt t = t"
  by (simp add: auto_evict_if_needed_def)

lemma create_agrees:
  assumes "represents (Suc n) t m" and "m i = None"
  shows "step_agrees n (tk_exec srt fj e (TkCreate i a rr) t) (map_exec fj e (TkCreate i a rr) m)"
proof -
  have id: "tx_id (new_tx_record e i a rr) = i" by (simp add: new_tx_record_def)
  from represents_insert [OF represents_less [OF assms(1)], of "new_tx_record e i a rr"] assms
  show ?thesis
    by (simp add: create_transaction_with_reason_def answer_def no_eviction representsD(4) id Let_def)
qed

lemma advance_agrees:
  assumes rep: "represents (Suc n) t m"
  shows "step_agrees n (tk_exec srt fj e (TkAdvance i st msg) t) (map_exec fj e (TkAdvance i st msg) m)"
proof (cases "m i")
  case None
  with representsD(1) [OF rep] represents_less [OF rep] show ?thesis
    by (simp add: update_state_def answer_def)
next
  case (Some r)
  obtain t1 where t1: "audit_transition e i (tx_state_of r) st (is_valid_transition (tx_state_of r) st) t = Inr t1"
    and rep1: "represents n t1 m"
    using represents_audit [OF rep] by blast
  have "tx_id (advance_record e st msg r) = i" using representsD(2) [OF rep Some] by simp
  from represents_write [OF rep1 Some this] Some t1 rep1 representsD(1) [OF rep] show ?thesis
    by (simp add: update_state_def answer_def map_change_def Let_def)
qed

lemma attempt_agrees:
  assumes rep: "represents (Suc n) t m"
  shows "step_agrees n (tk_exec srt fj e (TkAttempt i) t) (map_exec fj e (TkAttempt i) m)"
proof (cases "m i")
  case None
  with representsD(1) [OF rep] represents_less [OF rep] show ?thesis
    by (simp add: record_recovery_attempt_def answer_def)
next
  case (Some r)
  note lk = representsD(1) [OF rep] and id = representsD(2) [OF rep Some]
  consider x where "attempt_record r = Inl x" | msg where "attempt_record r = Inr (Inl msg)"
    | r1 where "attempt_record r = Inr (Inr r1)"
    by (metis sum.exhaust)
  then show ?thesis
  proof cases
    case 3
    from represents_write [OF represents_less [OF rep] Some, of r1] attempt_record_id [OF 3] id 3 lk Some
    show ?thesis by (simp add: record_recovery_attempt_def answer_def map_change_def)
  qed (use lk Some represents_less [OF rep] in \<open>simp_all add: record_recovery_attempt_def answer_def map_change_def\<close>)
qed

lemma resume_agrees:
  assumes rep: "represents (Suc n) t m"
  shows "step_agrees n (tk_exec srt fj e (TkResume i) t) (map_exec fj e (TkResume i) m)"
proof (cases "m i")
  case None
  with representsD(1) [OF rep] represents_less [OF rep] show ?thesis
    by (simp add: resume_partial_recovery_def answer_def)
next
  case (Some r)
  note lk = representsD(1) [OF rep] and id = representsD(2) [OF rep Some]
  consider x where "resume_record e r = Inl x" | msg where "resume_record e r = Inr (Inl msg)"
    | r1 where "resume_record e r = Inr (Inr r1)"
    by (metis sum.exhaust)
  then show ?thesis
  proof cases
    case 3
    obtain t1 where t1: "(if tk_is_dev_mode t then audit_transition e i TxFailed (tx_state_of r1) True t else Inr t) = Inr t1"
      and rep1: "represents n t1 m"
      using represents_audit [OF rep, of e i TxFailed "tx_state_of r1" True] represents_less [OF rep]
      by (cases "tk_is_dev_mode t") auto
    from represents_write [OF rep1 Some, of r1] resume_record_id [OF 3] id 3 lk Some t1
    show ?thesis by (simp add: resume_partial_recovery_def answer_def map_change_def)
  qed (use lk Some represents_less [OF rep] in \<open>simp_all add: resume_partial_recovery_def answer_def map_change_def\<close>)
qed

text \<open>Pruning and archiving change the records alike.\<close>

definition with_archive :: "bool \<Rightarrow> env \<Rightarrow> recovery_retention_policy \<Rightarrow> u64 \<Rightarrow> tracker \<Rightarrow> bool \<times> tracker" where
  "with_archive archive e p i t =
     (if archive then archive_recovery_metadata p e i t else prune_recovery_metadata p e i t)"

lemma represents_archive:
  assumes "represents n t m"
  shows "represents n (if tk_is_dev_mode t then t\<lparr>tk_archive := xs\<rparr>
           else with_store (\<lambda>st. st\<lparr>tk_archived := f st\<rparr>) t) m"
proof -
  let ?t = "if tk_is_dev_mode t then t\<lparr>tk_archive := xs\<rparr> else with_store (\<lambda>st. st\<lparr>tk_archived := f st\<rparr>) t"
  have "tk_lookup ?t = tk_lookup t" by (rule tk_lookup_cong) simp_all
  with assms show ?thesis by (auto simp: represents_def listed_ids_def)
qed

lemma with_archive_agrees:
  assumes rep: "represents n t m"
  shows "\<exists>t1. with_archive ar e p i t = (i \<in> eligible_ids e p m, t1) \<and>
    represents n t1 (map_prune e p i m) \<and> listed_ids t1 = listed_ids t"
proof (cases "m i")
  case None
  with representsD(1) [OF rep] rep show ?thesis
    by (auto simp: with_archive_def archive_recovery_metadata_def prune_recovery_metadata_def
        eligible_ids_def map_prune_def)
next
  case (Some r)
  note lk = representsD(1) [OF rep] and id = representsD(2) [OF rep Some]
  show ?thesis
  proof (cases "eligible_meta e p r")
    case None
    then have "clear_eligible e p r = r" by (simp add: clear_eligible_def)
    moreover have "m(i \<mapsto> r) = m" using Some by (rule fun_upd_idem)
    ultimately show ?thesis using lk Some None rep
      by (auto simp: with_archive_def archive_recovery_metadata_def prune_recovery_metadata_def
          eligible_ids_def map_prune_def)
  next
    case (Some meta)
    let ?r = "r\<lparr>tx_recovery := None\<rparr>"
    have w: "represents n (tk_write i ?r t) (m(i \<mapsto> ?r))"
      by (rule represents_write [OF rep \<open>m i = Some r\<close>]) (simp add: id)
    have "map_prune e p i m = m(i \<mapsto> ?r)" "i \<in> eligible_ids e p m"
      using Some \<open>m i = Some r\<close> by (simp_all add: map_prune_def clear_eligible_def eligible_ids_def)
    with represents_archive [OF w] w lk Some \<open>m i = Some r\<close> show ?thesis
      by (auto simp: with_archive_def archive_recovery_metadata_def prune_recovery_metadata_def Let_def
          listed_ids_def tk_write_def)
  qed
qed

lemma prune_agrees:
  assumes rep: "represents (Suc n) t m"
  shows "step_agrees n (tk_exec srt fj e (TkPrune p i) t) (map_exec fj e (TkPrune p i) m)"
    and "step_agrees n (tk_exec srt fj e (TkArchive p i) t) (map_exec fj e (TkArchive p i) m)"
  using with_archive_agrees [OF represents_less [OF rep], of False e p i]
    with_archive_agrees [OF represents_less [OF rep], of True e p i]
  by (auto simp: with_archive_def)

section \<open>The sweep\<close>

lemma clear_eligible_again [simp]: "eligible_meta e p (clear_eligible e p r) = None"
  by (simp add: clear_eligible_def eligible_meta_def)

lemma eligible_ids_prune: "eligible_ids e p (map_prune e p i m) = eligible_ids e p m - {i}"
  by (auto simp: eligible_ids_def map_prune_def split: option.splits if_splits)

lemma clear_not_eligible: "i \<notin> eligible_ids e p m \<Longrightarrow> map_option (clear_eligible e p) (m i) = m i"
  by (cases "m i") (auto simp: eligible_ids_def clear_eligible_def)

definition cleared :: "env \<Rightarrow> recovery_retention_policy \<Rightarrow> u64 set \<Rightarrow> tx_map \<Rightarrow> tx_map" where
  "cleared e p I m = (\<lambda>i. if i \<in> I then map_option (clear_eligible e p) (m i) else m i)"

lemma map_prune_cleared: "map_prune e p i m = cleared e p {i} m"
  by (auto simp: map_prune_def cleared_def split: option.split)

lemma clear_eligible_idem [simp]: "clear_eligible e p (clear_eligible e p r) = clear_eligible e p r"
  by (subst clear_eligible_def) simp

lemma cleared_cleared: "cleared e p I (cleared e p J m) = cleared e p (I \<union> J) m"
  by (auto simp: cleared_def fun_eq_iff option.map_comp comp_def)

lemma sweep_loop:
  fixes e :: env and p :: recovery_retention_policy
  assumes "represents n t m"
  defines "E \<equiv> \<lambda>m xs. eligible_ids e p m \<inter> set xs"
  shows "if unat k + card (E m xs) < 2 ^ 32
    then \<exists>t'. list_bind (sweep_step p ar e) (k, t) xs = Inr (k + of_nat (card (E m xs)), t') \<and>
           represents n t' (cleared e p (set xs) m)
    else list_bind (sweep_step p ar e) (k, t) xs = Inl ArithTrap"
  using assms(1)
proof (induction xs arbitrary: k t m)
  case Nil
  have "unat k < 2 ^ 32" using unat_lt_pow [of k] by simp
  with Nil show ?case by (simp add: E_def cleared_def)
next
  case (Cons x xs)
  obtain t1 where t1: "with_archive ar e p x t = (x \<in> eligible_ids e p m, t1)"
    and rep1: "represents n t1 (map_prune e p x m)"
    using with_archive_agrees [OF Cons.prems] by blast
  let ?m = "map_prune e p x m"
  have m': "cleared e p (set xs) ?m = cleared e p (set (x # xs)) m"
    by (simp add: map_prune_cleared cleared_cleared)
  have E': "E ?m xs = E m (x # xs) - {x}"
    by (auto simp: E_def eligible_ids_prune)
  have fin: "finite (E m (x # xs))" by (simp add: E_def)
  show ?case
  proof (cases "x \<in> eligible_ids e p m")
    case False
    then have same: "E ?m xs = E m (x # xs)" using E' by (auto simp: E_def)
    have step: "list_bind (sweep_step p ar e) (k, t) (x # xs) = list_bind (sweep_step p ar e) (k, t1) xs"
      using t1 False by (simp add: sweep_step_def with_archive_def)
    from Cons.IH [OF rep1, of k] show ?thesis unfolding same step m' .
  next
    case True
    then have x: "x \<in> E m (x # xs)" by (simp add: E_def)
    then have card: "card (E m (x # xs)) = Suc (card (E ?m xs))"
      using card_Suc_Diff1 [OF fin x] by (simp only: E')
    have step: "list_bind (sweep_step p ar e) (k, t) (x # xs) =
        bind_ok (plus_trap k 1) (\<lambda>k1. list_bind (sweep_step p ar e) (k1, t1) xs)"
      using t1 True by (cases "plus_trap k 1") (simp_all add: sweep_step_def with_archive_def)
    show ?thesis
    proof (cases "unat k + 1 < 2 ^ 32")
      case True
      then have k1: "unat (k + 1) = unat k + 1" and
        run: "list_bind (sweep_step p ar e) (k, t) (x # xs) = list_bind (sweep_step p ar e) (k + 1, t1) xs"
        unfolding step by (simp_all add: plus_trap_def checked_add_def of_option_def unat_word_ariths)
      have "unat (k + 1) + card (E ?m xs) = unat k + card (E m (x # xs))"
        and "k + 1 + of_nat (card (E ?m xs)) = k + of_nat (card (E m (x # xs)))"
        using k1 by (simp_all add: card)
      with Cons.IH [OF rep1, of "k + 1"] show ?thesis unfolding run m' by (simp only:)
    next
      case False
      then have "plus_trap k 1 = Inl ArithTrap"
        by (simp add: plus_trap_def of_option_def checked_add_def)
      then have "list_bind (sweep_step p ar e) (k, t) (x # xs) = Inl ArithTrap"
        unfolding step by (simp only: bind_ok.simps)
      moreover have "\<not> unat k + card (E m (x # xs)) < 2 ^ 32" using False by (simp add: card)
      ultimately show ?thesis by (simp only: if_False)
    qed
  qed
qed

lemma sweep_agrees:
  assumes rep: "represents (Suc n) t m"
  shows "step_agrees n (tk_exec srt fj e (TkSweep p ar) t) (map_exec fj e (TkSweep p ar) m)"
proof -
  let ?E = "eligible_ids e p m"
  have dom: "dom m \<subseteq> set (listed_ids t)" by (rule representsD(3) [OF rep])
  then have E: "?E \<inter> set (listed_ids t) = ?E" by (auto simp: eligible_ids_def)
  have m': "cleared e p (set (listed_ids t)) m = (\<lambda>i. map_option (clear_eligible e p) (m i))"
  proof
    fix i show "cleared e p (set (listed_ids t)) m i = map_option (clear_eligible e p) (m i)"
      using dom by (cases "m i") (auto simp: cleared_def)
  qed
  have cast: "ucast (of_nat k :: u32) = (of_nat k :: u64)" if "k < 2 ^ 32" for k
    using that by (simp add: word_unat_eq_iff unsigned_of_nat unsigned_ucast_eq take_bit_nat_eq_self)
  from sweep_loop [OF represents_less [OF rep], of 0 e p "listed_ids t" ar] cast show ?thesis
    by (auto simp: sweep_recovery_metadata_def E m' split: if_splits)
qed

section \<open>Import\<close>

lemma import_agrees:
  assumes rep: "represents (Suc n) t m"
  shows "step_agrees n (tk_exec srt fj e (TkImport json a) t) (map_exec fj e (TkImport json a) m)"
proof (cases "fj json")
  case (Inl err)
  with represents_less [OF rep] show ?thesis
    by (simp add: import_recovery_state_def answer_def map_import_def)
next
  case (Inr imp)
  let ?i = "ex_transaction_id imp"
  note lk = representsD(1) [OF rep] and rep' = represents_less [OF rep]
  show ?thesis
  proof (cases "tx_from_str (ex_failed_from_state imp)")
    case None
    with Inr rep' show ?thesis by (simp add: import_recovery_state_def answer_def map_import_def)
  next
    case (Some f)
    have "tx_id (imported e imp f a (m ?i)) = ?i"
      using representsD(2) [OF rep] by (auto simp: imported_def Let_def split: option.split)
    then have "m ?i = Some r \<Longrightarrow> represents n (tk_write ?i (imported e imp f a (m ?i)) t) (m(?i \<mapsto> imported e imp f a (m ?i)))"
      and "m ?i = None \<Longrightarrow> represents n (tk_insert (imported e imp f a (m ?i)) t) (m(?i \<mapsto> imported e imp f a (m ?i)))" for r
      using represents_write [OF rep', of ?i r "imported e imp f a (m ?i)"]
        represents_insert [OF rep', of "imported e imp f a (m ?i)"] by auto
    with Inr Some rep' lk show ?thesis
      by (cases "m ?i") (auto simp: import_recovery_state_def answer_def map_import_def Let_def imported_def)
  qed
qed

section \<open>Sequences of calls\<close>

lemma step_refines:
  assumes rep: "represents (Suc n) t m" and "admissible c m"
  shows "step_agrees n (tk_exec srt fj e c t) (map_exec fj e c m)"
proof (cases c)
  case (TkCreate i a rr)
  have "m i = None" using assms(2) unfolding TkCreate by simp
  then show ?thesis unfolding TkCreate by (rule create_agrees [OF rep])
next
  case (TkAdvance i st msg)
  show ?thesis unfolding TkAdvance by (rule advance_agrees [OF rep])
next
  case (TkAttempt i)
  show ?thesis unfolding TkAttempt by (rule attempt_agrees [OF rep])
next
  case (TkResume i)
  show ?thesis unfolding TkResume by (rule resume_agrees [OF rep])
next
  case (TkPrune p i)
  show ?thesis unfolding TkPrune by (rule prune_agrees(1) [OF rep])
next
  case (TkArchive p i)
  show ?thesis unfolding TkArchive by (rule prune_agrees(2) [OF rep])
next
  case (TkSweep p ar)
  show ?thesis unfolding TkSweep by (rule sweep_agrees [OF rep])
next
  case (TkImport json a)
  show ?thesis unfolding TkImport by (rule import_agrees [OF rep])
qed (use assms(2) in simp_all)

fun map_run ::
    "(string \<Rightarrow> string + recovery_export) \<Rightarrow> (env \<times> tx_call) list \<Rightarrow> tx_map \<Rightarrow>
      trap + (tx_answer option list \<times> tx_map)" where
  "map_run fj [] m = Inr ([], m)"
| "map_run fj ((e, c) # cs) m =
     bind_ok (map_exec fj e c m) (\<lambda>(b, m1). bind_ok (map_run fj cs m1) (\<lambda>(bs, m2). Inr (b # bs, m2)))"

fun admissible_run :: "(string \<Rightarrow> string + recovery_export) \<Rightarrow> (env \<times> tx_call) list \<Rightarrow> tx_map \<Rightarrow> bool" where
  "admissible_run fj [] m \<longleftrightarrow> True"
| "admissible_run fj ((e, c) # cs) m \<longleftrightarrow>
     admissible c m \<and> (case map_exec fj e c m of Inl _ \<Rightarrow> True | Inr (_, m1) \<Rightarrow> admissible_run fj cs m1)"

text \<open>What a client sees of a run: the answers, errors without their text, and the lookups.\<close>

definition observed :: "trap + ((string + tx_answer) list \<times> tracker) \<Rightarrow> trap + (tx_answer option list \<times> tx_map)" where
  "observed res = bind_ok res (\<lambda>(as, t). Inr (map (case_sum (\<lambda>_. None) Some) as, tk_lookup t))"

lemma same_answer_iff: "same_answer a b \<longleftrightarrow> case_sum (\<lambda>_. None) Some a = b"
  by (auto simp: same_answer_def split: sum.split)

lemma observed_step:
  "observed (bind_ok res (\<lambda>(as, t). Inr (a # as, t))) =
    bind_ok (observed res) (\<lambda>(bs, m). Inr (case_sum (\<lambda>_. None) Some a # bs, m))"
  by (cases res) (auto simp: observed_def)

lemma run_refines:
  assumes "represents (n + length cs) t m" and "admissible_run fj cs m"
  shows "observed (tk_run srt fj cs t) = map_run fj cs m"
  using assms
proof (induction cs arbitrary: t m)
  case Nil
  then show ?case by (simp add: observed_def representsD(1))
next
  case (Cons ec cs)
  obtain e c where ec: "ec = (e, c)" by (cases ec)
  have rep: "represents (Suc (n + length cs)) t m" using Cons.prems(1) by simp
  have adm: "admissible c m" using Cons.prems(2) by (simp add: ec)
  note step = step_refines [OF rep adm, of srt fj e]
  show ?case
  proof (cases "map_exec fj e c m")
    case (Inl x)
    with step show ?thesis by (simp add: ec step_agrees_def observed_def)
  next
    case (Inr bm)
    obtain b m1 where bm: "bm = (b, m1)" by (cases bm)
    with step Inr obtain a t1 where a: "tk_exec srt fj e c t = Inr (a, t1)"
      "case_sum (\<lambda>_. None) Some a = b" and rep1: "represents (n + length cs) t1 m1"
      by (auto simp: step_agrees_def same_answer_iff)
    have "admissible_run fj cs m1" using Cons.prems(2) Inr bm by (simp add: ec)
    from Cons.IH [OF rep1 this] a Inr bm show ?thesis by (simp add: ec observed_step)
  qed
qed

lemma new_represents: "n < 2 ^ 64 \<Longrightarrow> represents n (new_tracker dev empty_tx_storage) Map.empty"
  by (simp add: represents_def new_tracker_def empty_tx_storage_def tk_lookup_def fun_eq_iff)

section \<open>The invariant of histories\<close>

text \<open>An import can also put \<open>Pending\<close> after \<open>Pending\<close>.\<close>

definition tracker_edge :: "tx_state \<Rightarrow> tx_state \<Rightarrow> bool" where
  "tracker_edge a b \<longleftrightarrow> history_edge a b \<or> a = TxPending \<and> b = TxPending"

lemma history_edge_le: "history_edge \<le> tracker_edge"
  by (auto simp: tracker_edge_def)

lemma valid_le_tracker: "is_valid_transition \<le> tracker_edge"
  using valid_le_history history_edge_le by (rule order.trans)

definition stored :: "tracker \<Rightarrow> transaction_state_record set" where
  "stored t = (if tk_is_dev_mode t then set (tk_cache t) else ran (tk_records (tk_store t)))"

definition tk_wf :: "tracker \<Rightarrow> bool" where
  "tk_wf t \<longleftrightarrow> (\<forall>r \<in> stored t. record_wf tracker_edge r)"

lemma tk_wf_mono: "tk_wf t \<Longrightarrow> stored t' \<subseteq> stored t \<Longrightarrow> tk_wf t'"
  by (auto simp: tk_wf_def)

lemma tk_wf_frame:
  "tk_wf t \<Longrightarrow> tk_is_dev_mode t' = tk_is_dev_mode t \<Longrightarrow> tk_cache t' = tk_cache t \<Longrightarrow>
    tk_records (tk_store t') = tk_records (tk_store t) \<Longrightarrow> tk_wf t'"
  by (simp add: tk_wf_def stored_def)

lemma lookup_stored: "tk_lookup t i = Some r \<Longrightarrow> r \<in> stored t"
  by (auto simp: tk_lookup_def stored_def find_Some_iff ran_def split: if_splits)

lemma tk_wf_lookup: "tk_wf t \<Longrightarrow> tk_lookup t i = Some r \<Longrightarrow> record_wf tracker_edge r"
  using lookup_stored by (auto simp: tk_wf_def)

lemma stored_write: "stored (tk_write i r t) \<subseteq> insert r (stored t)"
  using set_update_first [of "\<lambda>x. tx_id x = i" r "tk_cache t"]
  by (auto simp: stored_def tk_write_def ran_def split: if_splits)

lemma stored_insert: "stored (tk_insert r t) \<subseteq> insert r (stored t)"
  by (auto simp: stored_def tk_insert_def ran_def split: if_splits)

lemma tk_wf_write: "tk_wf t \<Longrightarrow> record_wf tracker_edge r \<Longrightarrow> tk_wf (tk_write i r t)"
  using stored_write [of i r t] by (auto simp: tk_wf_def)

lemma tk_wf_insert: "tk_wf t \<Longrightarrow> record_wf tracker_edge r \<Longrightarrow> tk_wf (tk_insert r t)"
  using stored_insert [of r t] by (auto simp: tk_wf_def)

lemma stored_evict: "stored (auto_evict_if_needed srt t) \<subseteq> stored t"
  by (auto simp: auto_evict_if_needed_def stored_def Let_def drop_records ran_def split: if_splits)

lemma audit_transition_frame:
  assumes "audit_transition e i a b v t = Inr t1"
  shows "tk_is_dev_mode t1 = tk_is_dev_mode t" "tk_cache t1 = tk_cache t"
    "tk_records (tk_store t1) = tk_records (tk_store t)" "tk_budget t1 = tk_budget t" "tk_events t1 = tk_events t"
  using assms by (auto simp: audit_transition_def Let_def bind_ok_Inr split: if_split_asm)

lemma audit_transition_wf: "audit_transition e i a b v t = Inr t1 \<Longrightarrow> tk_wf t \<Longrightarrow> tk_wf t1"
  by (rule tk_wf_frame) (simp_all add: audit_transition_frame)

lemma update_state_wf:
  assumes "update_state e i st msg t = Inr (res, t')" and wf: "tk_wf t"
  shows "tk_wf t'"
proof (cases "tk_lookup t i")
  case None
  with assms show ?thesis by (simp add: update_state_def)
next
  case (Some r)
  with assms(1) obtain t1 where t1: "audit_transition e i (tx_state_of r) st (is_valid_transition (tx_state_of r) st) t = Inr t1"
    and t': "t' = t1 \<or> is_valid_transition (tx_state_of r) st \<and> t' = tk_write i (advance_record e st msg r) t1"
    by (auto simp: update_state_def Let_def bind_ok_Inr split: if_split_asm)
  from t' audit_transition_wf [OF t1 wf] advance_record_wf [OF tk_wf_lookup [OF wf Some] _ valid_le_tracker]
  show ?thesis by (auto intro: tk_wf_write)
qed

lemma bind_result_Inr:
  "bind_ok res (\<lambda>v. case v of Inl msg \<Rightarrow> Inr (g msg) | Inr r \<Rightarrow> h r) = Inr y \<longleftrightarrow>
    (\<exists>msg. res = Inr (Inl msg) \<and> y = g msg) \<or> (\<exists>r. res = Inr (Inr r) \<and> h r = Inr y)"
  by (cases res) (auto split: sum.split sum.split_asm)

lemma attempt_wf:
  assumes "record_recovery_attempt i t = Inr (res, t')" and wf: "tk_wf t"
  shows "tk_wf t'"
  using assms attempt_record_wf tk_wf_lookup [OF wf]
  by (auto simp: record_recovery_attempt_def bind_result_Inr split: option.split_asm intro!: tk_wf_write)

lemma resume_partial_recovery_Inr:
  assumes "resume_partial_recovery e i t = Inr (res, t')"
  shows "t' = t \<or> (\<exists>r r1 t1. tk_lookup t i = Some r \<and> resume_record e r = Inr (Inr r1) \<and>
    (t1 = t \<or> audit_transition e i TxFailed (tx_state_of r1) True t = Inr t1) \<and> t' = tk_write i r1 t1)"
proof (cases "tk_lookup t i")
  case None
  with assms show ?thesis by (simp add: resume_partial_recovery_def)
next
  case (Some r)
  consider x where "resume_record e r = Inl x" | msg where "resume_record e r = Inr (Inl msg)"
    | r1 where "resume_record e r = Inr (Inr r1)"
    by (metis sum.exhaust)
  then show ?thesis
  proof cases
    case 3
    with assms Some obtain t1 where
      "(if tk_is_dev_mode t then audit_transition e i TxFailed (tx_state_of r1) True t else Inr t) = Inr t1"
      and t': "t' = tk_write i r1 t1"
      by (auto simp: resume_partial_recovery_def bind_ok_Inr)
    then have "t1 = t \<or> audit_transition e i TxFailed (tx_state_of r1) True t = Inr t1"
      by (cases "tk_is_dev_mode t") auto
    with Some 3 t' show ?thesis by blast
  qed (use assms Some in \<open>simp_all add: resume_partial_recovery_def\<close>)
qed

lemma resume_wf:
  assumes "resume_partial_recovery e i t = Inr (res, t')" and wf: "tk_wf t"
  shows "tk_wf t'"
  using resume_partial_recovery_Inr [OF assms(1)]
proof (elim disjE exE conjE)
  fix r r1 t1 assume r: "tk_lookup t i = Some r" "resume_record e r = Inr (Inr r1)"
    and t1: "audit_transition e i TxFailed (tx_state_of r1) True t = Inr t1" and t': "t' = tk_write i r1 t1"
  show ?thesis
    unfolding t' using resume_record_wf [OF r(2) tk_wf_lookup [OF wf r(1)] history_edge_le]
    by (rule tk_wf_write [OF audit_transition_wf [OF t1 wf]])
next
  fix r r1 t1 assume r: "tk_lookup t i = Some r" "resume_record e r = Inr (Inr r1)"
    and "t1 = t" and t': "t' = tk_write i r1 t1"
  with resume_record_wf [OF r(2) tk_wf_lookup [OF wf r(1)] history_edge_le] show ?thesis
    by (simp add: tk_wf_write [OF wf])
qed (use wf in simp)

lemma prune_wf:
  assumes "prune_recovery_metadata p e i t = (b, t')" and wf: "tk_wf t"
  shows "tk_wf t'"
  using assms no_recovery_wf [OF tk_wf_lookup [OF wf]]
  by (auto simp: prune_recovery_metadata_def split: option.split_asm intro!: tk_wf_write)

lemma archive_wf:
  assumes "archive_recovery_metadata p e i t = (b, t')" and wf: "tk_wf t"
  shows "tk_wf t'"
proof -
  have frame: "tk_wf (t1\<lparr>tk_archive := xs\<rparr>) = tk_wf t1"
    "tk_wf (t1\<lparr>tk_store := tk_store t1\<lparr>tk_archived := ys\<rparr>\<rparr>) = tk_wf t1" for t1 xs ys
    by (simp_all add: tk_wf_def stored_def)
  from assms no_recovery_wf [OF tk_wf_lookup [OF wf]] show ?thesis
    by (auto simp: archive_recovery_metadata_def Let_def frame split: option.split_asm if_split_asm intro!: tk_wf_write)
qed

lemma sweep_wf:
  assumes "sweep_recovery_metadata p ar e t = Inr (n, t')" and wf: "tk_wf t"
  shows "tk_wf t'"
proof -
  have "tk_wf (snd (n, t'))"
    using assms(1) unfolding sweep_recovery_metadata_def
  proof (rule list_bind_invariant [where I = "\<lambda>x. tk_wf (snd x)"])
    show "tk_wf (snd (0, t))" using wf by simp
    fix s x s' assume "tk_wf (snd s)" and "sweep_step p ar e s x = Inr s'"
    then show "tk_wf (snd s')"
      by (cases s) (auto simp: sweep_step_def bind_ok_Inr split: prod.split_asm if_split_asm
          dest: archive_wf prune_wf)
  qed
  then show ?thesis by simp
qed

lemma imported_wf:
  assumes "\<not> tx_is_terminal f" and "\<And>r. old = Some r \<Longrightarrow> record_wf tracker_edge r"
  shows "record_wf tracker_edge (imported e imp f a old)"
proof (cases old)
  case None
  then show ?thesis
    using assms(1) by (cases f)
      (simp_all add: imported_def record_wf_def tracker_edge_def history_edge_def is_valid_transition_def
        tx_is_terminal_def)
next
  case (Some r)
  with assms show ?thesis by (simp add: imported_def record_wf_def)
qed

lemma import_wf:
  assumes "import_recovery_state fj e json a t = (res, t')" and wf: "tk_wf t"
  shows "tk_wf t'"
proof (cases "fj json")
  case (Inl x)
  with assms show ?thesis by (simp add: import_recovery_state_def)
next
  case (Inr imp)
  show ?thesis
  proof (cases "tx_from_str (ex_failed_from_state imp)")
    case None
    with assms Inr show ?thesis by (simp add: import_recovery_state_def)
  next
    case (Some f)
    let ?r = "imported e imp f a (tk_lookup t (ex_transaction_id imp))"
    from assms(1) Inr Some consider "t' = t"
      | "\<not> tx_is_terminal f" "t' = tk_write (ex_transaction_id imp) ?r t \<or> t' = tk_insert ?r t"
      by (auto simp: import_recovery_state_def Let_def imported_def split: if_split_asm option.split_asm)
    then show ?thesis
    proof cases
      case 2
      with imported_wf [OF 2(1) tk_wf_lookup [OF wf]] wf show ?thesis
        by (auto intro: tk_wf_write tk_wf_insert)
    qed (use wf in simp)
  qed
qed

lemma stored_cleanup: "cleanup_expired t = Inr (n, t') \<Longrightarrow> stored t' \<subseteq> stored t"
  by (auto simp: cleanup_expired_def stored_def Let_def bind_ok_Inr split: if_split_asm)

lemma stored_clear: "clear_cache t = (res, t') \<Longrightarrow> stored t' \<subseteq> stored t"
  by (auto simp: clear_cache_def stored_def split: if_split_asm)

definition tk_step ::
    "stamp_sort \<Rightarrow> (string \<Rightarrow> string + recovery_export) \<Rightarrow> env \<Rightarrow> tx_call \<Rightarrow> tracker \<Rightarrow> trap + tracker" where
  "tk_step srt fj e c t = bind_ok (tk_exec srt fj e c t) (\<lambda>(a, t'). Inr t')"

lemma answer_Inr: "answer f res = Inr (a, t') \<Longrightarrow> \<exists>v. res = Inr (v, t')"
  by (auto simp: answer_def bind_ok_Inr)

lemma tk_exec_wf:
  assumes "tk_exec srt fj e c t = Inr (a, t')" and wf: "tk_wf t"
  shows "tk_wf t'"
proof (cases c)
  case (TkCreate i adr rr)
  with assms(1) have "t' = tk_insert (new_tx_record e i adr rr) (auto_evict_if_needed srt t)"
    by (auto simp: create_transaction_with_reason_def answer_def Let_def)
  then show ?thesis by (simp add: tk_wf_insert [OF tk_wf_mono [OF wf stored_evict]] new_tx_record_wf)
next
  case (TkSweep p ar)
  with assms(1) sweep_wf [OF _ wf] show ?thesis by (auto simp: bind_ok_Inr)
next
  case TkCleanup
  with assms(1) stored_cleanup tk_wf_mono [OF wf] show ?thesis by (auto simp: bind_ok_Inr)
next
  case TkClearCache
  with assms(1) have "clear_cache t = (fst (clear_cache t), t')"
    by (auto dest!: answer_Inr)
  then show ?thesis using stored_clear tk_wf_mono [OF wf] by metis
next
  case (TkImport json adr)
  with assms(1) import_wf [OF _ wf] show ?thesis by (auto dest!: answer_Inr)
next
  case (TkAdvance i st msg)
  with assms(1) update_state_wf [OF _ wf] show ?thesis by (auto dest!: answer_Inr)
next
  case (TkAttempt i)
  with assms(1) attempt_wf [OF _ wf] show ?thesis by (auto dest!: answer_Inr)
next
  case (TkResume i)
  with assms(1) resume_wf [OF _ wf] show ?thesis by (auto dest!: answer_Inr)
next
  case (TkPrune p i)
  with assms(1) prune_wf [OF _ wf] show ?thesis by (auto split: prod.split_asm)
next
  case (TkArchive p i)
  with assms(1) archive_wf [OF _ wf] show ?thesis by (auto split: prod.split_asm)
next
  case (TkSetEviction b k)
  with assms(1) have t': "t' = t\<lparr>tk_eviction_enabled := b, tk_max_evictions := k\<rparr>" by simp
  show ?thesis by (rule tk_wf_frame [OF wf]) (simp_all add: t')
next
  case (TkMarkExpired ids)
  with assms(1) have t': "t' = t\<lparr>tk_expired_ids := ids\<rparr>" by simp
  show ?thesis by (rule tk_wf_frame [OF wf]) (simp_all add: t')
qed

interpretation tracked: transactional "tk_step srt fj" tk_wf for srt fj
  by unfold_locales (auto simp: tk_step_def bind_ok_Inr dest: tk_exec_wf)

lemma new_tracker_wf: "tk_wf (new_tracker dev empty_tx_storage)"
  by (simp add: tk_wf_def stored_def new_tracker_def empty_tx_storage_def)

section \<open>The production mode never evicts\<close>

text \<open>
  Only the development mode counts its entries in the budget monitor, and the eviction of both
  modes asks the monitor.
\<close>

definition idle_budget :: "tracker \<Rightarrow> bool" where
  "idle_budget t \<longleftrightarrow> \<not> tk_is_dev_mode t \<and> bm_approx_bytes (tk_budget t) = 0"

lemma idle_no_eviction: "idle_budget t \<Longrightarrow> auto_evict_if_needed srt t = t"
  by (simp add: idle_budget_def auto_evict_if_needed_def get_status_def Let_def)

text \<open>What a production step leaves in place.\<close>

definition keeps :: "tracker \<Rightarrow> tracker \<Rightarrow> bool" where
  "keeps t t' \<longleftrightarrow> tk_is_dev_mode t' = tk_is_dev_mode t \<and> tk_budget t' = tk_budget t \<and>
     tk_events t' = tk_events t \<and> dom (tk_records (tk_store t)) \<subseteq> dom (tk_records (tk_store t'))"

lemma keeps_refl [simp]: "keeps t t"
  by (simp add: keeps_def)

lemma keeps_trans: "keeps t t1 \<Longrightarrow> keeps t1 t2 \<Longrightarrow> keeps t t2"
  by (auto simp: keeps_def)

lemma keeps_write: "\<not> tk_is_dev_mode t \<Longrightarrow> keeps t (tk_write i r t)"
  by (auto simp: keeps_def tk_write_def)

lemma keeps_insert: "\<not> tk_is_dev_mode t \<Longrightarrow> keeps t (tk_insert r t)"
  by (auto simp: keeps_def tk_insert_def)

lemma keeps_audit: "audit_transition e i a b v t = Inr t1 \<Longrightarrow> keeps t t1"
  by (simp add: keeps_def audit_transition_frame)

lemma keeps_archive: "\<not> tk_is_dev_mode t \<Longrightarrow> with_archive ar e p i t = (b, t') \<Longrightarrow> keeps t t'"
proof -
  assume prod: "\<not> tk_is_dev_mode t" and run: "with_archive ar e p i t = (b, t')"
  have store: "keeps t1 (t1\<lparr>tk_store := tk_store t1\<lparr>tk_archived := ys\<rparr>\<rparr>)" for t1 ys
    by (simp add: keeps_def)
  from run prod show ?thesis
    by (auto simp: with_archive_def archive_recovery_metadata_def prune_recovery_metadata_def Let_def
        split: option.split_asm if_split_asm intro: keeps_write keeps_trans [OF keeps_write store])
qed

lemma keeps_sweep:
  assumes "sweep_recovery_metadata p ar e t = Inr (n, t')" and "\<not> tk_is_dev_mode t"
  shows "keeps t t'"
proof -
  have "keeps t (snd (n, t'))"
    using assms(1) unfolding sweep_recovery_metadata_def
  proof (rule list_bind_invariant [where I = "\<lambda>x. keeps t (snd x)"])
    show "keeps t (snd (0, t))" by simp
    fix s x s' assume I: "keeps t (snd s)" and "sweep_step p ar e s x = Inr s'"
    then obtain b where "with_archive ar e p x (snd s) = (b, snd s')"
      by (cases s) (auto simp: sweep_step_def with_archive_def bind_ok_Inr split: prod.split_asm if_split_asm)
    moreover have "\<not> tk_is_dev_mode (snd s)" using I assms(2) by (simp add: keeps_def)
    ultimately show "keeps t (snd s')" using I keeps_archive keeps_trans by blast
  qed
  then show ?thesis by simp
qed

lemma tk_exec_keeps:
  assumes "tk_exec srt fj e c t = Inr (a, t')" and idle: "idle_budget t"
  shows "keeps t t'"
proof -
  have prod: "\<not> tk_is_dev_mode t" using idle by (simp add: idle_budget_def)
  show ?thesis
  proof (cases c)
    case (TkCreate i adr rr)
    with assms(1) have "t' = tk_insert (new_tx_record e i adr rr) t"
      by (auto simp: create_transaction_with_reason_def answer_def Let_def idle_no_eviction [OF idle])
    with keeps_insert [OF prod] show ?thesis by simp
  next
    case (TkAdvance i st msg)
    with assms(1) show ?thesis
    proof (cases "tk_lookup t i")
      case (Some r)
      with TkAdvance assms(1) obtain t1 where t1: "audit_transition e i (tx_state_of r) st
          (is_valid_transition (tx_state_of r) st) t = Inr t1"
        and t': "t' = t1 \<or> t' = tk_write i (advance_record e st msg r) t1"
        by (auto dest!: answer_Inr simp: update_state_def Let_def bind_ok_Inr split: if_split_asm)
      have "\<not> tk_is_dev_mode t1" using audit_transition_frame(1) [OF t1] prod by simp
      with t' keeps_audit [OF t1] keeps_write show ?thesis by (auto intro: keeps_trans)
    qed (auto simp: update_state_def answer_def)
  next
    case (TkAttempt i)
    with assms(1) prod show ?thesis
      by (auto dest!: answer_Inr simp: record_recovery_attempt_def bind_result_Inr keeps_write
          split: option.split_asm)
  next
    case (TkResume i)
    with assms(1) obtain v where "resume_partial_recovery e i t = Inr (v, t')" by (auto dest!: answer_Inr)
    from resume_partial_recovery_Inr [OF this] show ?thesis
    proof (elim disjE exE conjE)
      fix r r1 t1 assume t1: "audit_transition e i TxFailed (tx_state_of r1) True t = Inr t1"
        and t': "t' = tk_write i r1 t1"
      have "\<not> tk_is_dev_mode t1" using audit_transition_frame(1) [OF t1] prod by simp
      then show ?thesis unfolding t' by (rule keeps_trans [OF keeps_audit [OF t1] keeps_write])
    qed (use keeps_write [OF prod] in simp_all)
  next
    case (TkPrune p i)
    with assms(1) keeps_archive [OF prod, of False e p i] show ?thesis
      by (auto simp: with_archive_def split: prod.split_asm)
  next
    case (TkArchive p i)
    with assms(1) keeps_archive [OF prod, of True e p i] show ?thesis
      by (auto simp: with_archive_def split: prod.split_asm)
  next
    case (TkSweep p ar)
    with assms(1) keeps_sweep [OF _ prod] show ?thesis by (auto simp: bind_ok_Inr)
  next
    case (TkImport json adr)
    with assms(1) keeps_write [OF prod] keeps_insert [OF prod] show ?thesis
      by (auto dest!: answer_Inr simp: import_recovery_state_def Let_def
          split: sum.split_asm option.split_asm if_split_asm)
  next
    case TkCleanup
    with assms(1) prod show ?thesis by (auto simp: cleanup_expired_def Let_def bind_ok_Inr keeps_def)
  qed (use assms(1) prod in \<open>auto simp: keeps_def clear_cache_def answer_def\<close>)
qed

lemma tk_step_keeps: "tk_step srt fj e c t = Inr t' \<Longrightarrow> idle_budget t \<Longrightarrow> keeps t t'"
  by (auto simp: tk_step_def bind_ok_Inr dest: tk_exec_keeps)

interpretation production: stable_under "tk_step srt fj" idle_budget "keeps t0" for srt fj t0
proof unfold_locales
  show "idle_budget t'" if "idle_budget t" "tk_step srt fj e c t = Inr t'" for t e c t'
    using tk_step_keeps [OF that(2,1)] that(1) by (simp add: idle_budget_def keeps_def)
  show "keeps t0 t'" if "idle_budget t" "keeps t0 t" "tk_step srt fj e c t = Inr t'" for t e c t'
    using tk_step_keeps [OF that(3,1)] that(2) keeps_trans by blast
qed

section \<open>Range queries\<close>

lemma find_key: "distinct (map key xs) \<Longrightarrow> x \<in> set xs \<Longrightarrow> find (\<lambda>y. key y = key x) xs = Some x"
  by (induction xs) auto

lemma find_keyD: "find (\<lambda>y. key y = k) xs = Some x \<Longrightarrow> x \<in> set xs \<and> key x = k"
  by (induction xs) (auto split: if_split_asm)

lemma mem_map_filter: "x \<in> set (List.map_filter f ks) \<longleftrightarrow> (\<exists>k \<in> set ks. f k = Some x)"
  by (induction ks) (auto simp: List.map_filter_simps split: option.split)

lemma map_key_filter:
  assumes "\<And>k x. f k = Some x \<Longrightarrow> key x = k"
  shows "map key (List.map_filter f ks) = filter (\<lambda>k. f k \<noteq> None) ks"
  using assms by (induction ks) (auto simp: List.map_filter_simps split: option.split)

lemma sorted_records:
  assumes dist: "distinct (map tx_id xs)"
  shows "sort_key tx_id (filter (\<lambda>r. i \<le> tx_id r \<and> tx_id r \<le> j) xs) =
    List.map_filter (\<lambda>k. find (\<lambda>r. tx_id r = k) xs) (ids_between i j)"
    (is "?l = ?r")
proof (rule map_sorted_distinct_set_unique [where f = tx_id])
  have ids: "map tx_id ?r = filter (\<lambda>k. find (\<lambda>r. tx_id r = k) xs \<noteq> None) (ids_between i j)"
    by (rule map_key_filter) (erule find_keyD [THEN conjunct2])
  show "sorted (map tx_id ?r)"
    unfolding ids using ids_between_sorted(2) [of i j] sorted_filter [of "\<lambda>x. x"] by simp
  show "distinct (map tx_id ?r)"
    unfolding ids using ids_between_sorted(3) by (rule distinct_filter)
  show "sorted (map tx_id ?l)" by simp
  have inj: "inj_on tx_id (set xs)" "distinct xs" using dist by (simp_all add: distinct_map)
  then show "distinct (map tx_id ?l)" by (auto simp: distinct_map inj_on_def)
  show same: "set ?l = set ?r"
  proof (rule set_eqI)
    fix x
    have "x \<in> set ?l \<longleftrightarrow> x \<in> set xs \<and> i \<le> tx_id x \<and> tx_id x \<le> j" by simp
    also have "\<dots> \<longleftrightarrow> (\<exists>k. i \<le> k \<and> k \<le> j \<and> find (\<lambda>r. tx_id r = k) xs = Some x)"
      using find_key [OF dist, of x] find_keyD [of tx_id _ xs x] by metis
    also have "\<dots> \<longleftrightarrow> x \<in> set ?r" by (auto simp: mem_map_filter set_ids_between)
    finally show "x \<in> set ?l \<longleftrightarrow> x \<in> set ?r" .
  qed
  show "inj_on tx_id (set ?l \<union> set ?r)" using inj(1) unfolding same [symmetric] by (auto simp: inj_on_def)
qed

section \<open>Properties\<close>

text \<open>
  C2. Refinement: whatever the mode, a tracker that represents a map of records answers a sequence
  of calls exactly as the abstract map does, and then represents the map's new value.  Answers
  are compared up to the text of the error messages; traps (the overflow of a counter) agree
  too.  Identifiers have to be fresh when created, and eviction off.
\<close>

theorem tracker_refines_map:
  assumes "represents (length cs) t m" and "admissible_run fj cs m"
  shows "observed (tk_run srt fj cs t) = map_run fj cs m"
  using run_refines [of 0 cs t m fj srt] assms by simp

definition sample_calls :: "(env \<times> tx_call) list" where
  "sample_calls =
     [(accepting_env 5 1 {}, TkCreate 7 ''A'' None), (accepting_env 6 1 {}, TkAdvance 7 TxInProgress None),
      (accepting_env 7 1 {}, TkAdvance 7 TxFailed (Some ''timeout'')), (accepting_env 8 1 {}, TkResume 7),
      (accepting_env 9 1 {}, TkAdvance 7 TxPending None)]"

lemma sample_admissible: "admissible_run fj sample_calls Map.empty"
  by (simp add: sample_calls_def new_tx_record_def accepting_env_def advance_record_def map_change_def
      is_valid_transition_def resume_record_def tx_is_terminal_def Let_def plus_trap_def checked_add_def
      of_option_def)

theorem tracker_refines_map_witness:
  "observed (tk_run (sort_key fst) (\<lambda>s. Inl s) sample_calls (new_tracker False empty_tx_storage)) =
     map_run (\<lambda>s. Inl s) sample_calls Map.empty"
  by (rule tracker_refines_map [OF new_represents sample_admissible]) (simp add: sample_calls_def)

text \<open>
  C10. The development mode and the production mode are interchangeable: from fresh trackers they
  give the same answers to every admissible sequence of calls and the same lookups afterwards.
\<close>

theorem modes_agree:
  assumes "admissible_run fj cs Map.empty" and "length cs < 2 ^ 64"
  shows "observed (tk_run srt fj cs (new_tracker True empty_tx_storage)) =
    observed (tk_run srt fj cs (new_tracker False empty_tx_storage))"
  using run_refines [of 0 cs _ _ fj srt, OF _ assms(1)] new_represents [OF assms(2)] by simp

theorem modes_agree_witness:
  "observed (tk_run (sort_key fst) (\<lambda>s. Inl s) sample_calls (new_tracker True empty_tx_storage)) =
   observed (tk_run (sort_key fst) (\<lambda>s. Inl s) sample_calls (new_tracker False empty_tx_storage))"
  by (rule modes_agree [OF sample_admissible]) (simp add: sample_calls_def)

text \<open>
  C19. Whatever calls are made, in either mode and with traps rolled back, the history of every
  stored record starts at \<open>Pending\<close>, ends in the record's current state and moves only along
  valid transitions and resumptions (or from \<open>Pending\<close> to \<open>Pending\<close>, by an import); and the state
  to resume from is never terminal.
\<close>

theorem tracker_histories:
  assumes "r \<in> stored (run (tk_step srt fj) cs (new_tracker dev empty_tx_storage))"
  shows "hd (map fst (tx_history r)) = TxPending \<and> last (map fst (tx_history r)) = tx_state_of r \<and>
    is_trail tracker_edge (map fst (tx_history r)) \<and>
    (\<forall>m. tx_recovery r = Some m \<longrightarrow> \<not> tx_is_terminal (rm_failed_from_state m))"
proof -
  have "tk_wf (run (tk_step srt fj) cs (new_tracker dev empty_tx_storage))"
    by (rule tracked.run_inv [OF new_tracker_wf])
  with assms have "record_wf tracker_edge r" by (simp add: tk_wf_def)
  then show ?thesis by (auto simp: record_wf_def)
qed

theorem tracker_histories_witness:
  "is_trail tracker_edge (map fst (tx_history
     (new_tx_record (accepting_env 5 1 {}) 7 ''A'' None)))"
proof -
  have "new_tx_record (accepting_env 5 1 {}) 7 ''A'' None \<in>
    stored (run (tk_step (sort_key fst) (\<lambda>s. Inl s)) [(accepting_env 5 1 {}, TkCreate 7 ''A'' None)]
      (new_tracker True empty_tx_storage))"
    by (simp add: invoke_def tk_step_def create_transaction_with_reason_def answer_def Let_def stored_def
        auto_evict_if_needed_def tk_insert_def new_tracker_def)
  from tracker_histories [OF this] show ?thesis by blast
qed

text \<open>
  A sweep leaves no eligible recovery metadata behind: it clears the metadata of exactly the
  eligible records, changes nothing else in any record, and counts them.
\<close>

theorem sweep_clears_eligible:
  assumes "represents n t m" and "sweep_recovery_metadata p archive e t = Inr (k, t')"
  shows "eligible_ids e p (tk_lookup t') = {} \<and> unat k = card (eligible_ids e p (tk_lookup t)) \<and>
    (\<forall>i. tk_lookup t' i = map_option (clear_eligible e p) (tk_lookup t i))"
proof -
  let ?E = "eligible_ids e p m"
  have dom: "dom m \<subseteq> set (listed_ids t)" by (rule representsD(3) [OF assms(1)])
  then have E: "?E \<inter> set (listed_ids t) = ?E" by (auto simp: eligible_ids_def)
  from sweep_loop [OF assms(1), of 0 e p "listed_ids t" archive] assms(2)
  have c: "card ?E < 2 ^ 32" and k: "k = of_nat (card ?E)"
    and rep: "represents n t' (cleared e p (set (listed_ids t)) m)"
    by (auto simp: sweep_recovery_metadata_def E split: if_split_asm)
  have all: "tk_lookup t' i = map_option (clear_eligible e p) (m i)" for i
    using dom representsD(1) [OF rep] by (cases "m i") (auto simp: cleared_def)
  then have "eligible_ids e p (tk_lookup t') = {}" by (auto simp: eligible_ids_def)
  moreover have "unat k = card ?E" using c k by (simp add: unsigned_of_nat take_bit_nat_eq_self)
  ultimately show ?thesis using all representsD(1) [OF assms(1)] by blast
qed

theorem sweep_clears_eligible_witness:
  "\<exists>k t'. sweep_recovery_metadata default_policy True (accepting_env 5 1 {})
      (new_tracker True empty_tx_storage) = Inr (k, t') \<and> unat k = 0 \<and>
      eligible_ids (accepting_env 5 1 {}) default_policy (tk_lookup t') = {}"
proof -
  have run: "sweep_recovery_metadata default_policy True (accepting_env 5 1 {})
      (new_tracker True empty_tx_storage) = Inr (0, new_tracker True empty_tx_storage)"
    by (simp add: sweep_recovery_metadata_def listed_ids_def new_tracker_def)
  have "represents 0 (new_tracker True empty_tx_storage) Map.empty" by (rule new_represents) simp
  from sweep_clears_eligible [OF this run] run show ?thesis by auto
qed

text \<open>
  C20. Exported recovery metadata can be imported into any tracker that has no record with the
  identifier, or a failed one, and is then found there unchanged; this rests on the serializer
  reading back what it writes.
\<close>

theorem export_import_roundtrip:
  assumes serde: "\<And>x json. to_json x = Inr json \<Longrightarrow> from_json json = Inr x"
    and "export_recovery_state to_json t i = Inr json" and "tk_wf t"
    and absent: "\<And>r. tk_lookup u i = Some r \<Longrightarrow> tx_id r = i \<and> tx_state_of r = TxFailed"
  shows "\<exists>t3. import_recovery_state from_json e json a u = (Inr (), t3) \<and>
    get_recovery_metadata t3 i = get_recovery_metadata t i"
proof -
  obtain meta where meta: "get_recovery_metadata t i = Some meta"
    using assms(2) by (cases "get_recovery_metadata t i") (auto simp: export_recovery_state_def of_option_def)
  let ?x = "\<lparr>ex_failure_reason = rm_failure_reason meta, ex_last_updated_ledger = rm_last_updated_ledger meta,
     ex_failed_from_state = tx_as_str (rm_failed_from_state meta), ex_retry_count = rm_retry_count meta,
     ex_transaction_id = i\<rparr>"
  have "to_json ?x = Inr json"
    using assms(2) meta by (auto simp: export_recovery_state_def of_option_def split: sum.split_asm)
  then have fj: "from_json json = Inr ?x" by (rule serde)
  obtain r where "tk_lookup t i = Some r" "tx_recovery r = Some meta"
    using meta by (auto simp: get_recovery_metadata_def split: option.split_asm)
  with assms(3) have nt: "\<not> tx_is_terminal (rm_failed_from_state meta)"
    using tk_wf_lookup by (fastforce simp: record_wf_def)
  let ?r = "imported e ?x (rm_failed_from_state meta) a (tk_lookup u i)"
  have rec: "tx_recovery ?r = Some meta" by (cases "tk_lookup u i") (simp_all add: imported_def)
  have id: "tx_id ?r = i"
  proof (cases "tk_lookup u i")
    case (Some r2)
    with absent [OF Some] show ?thesis by (simp add: imported_def)
  qed (simp add: imported_def)
  show ?thesis
  proof (cases "tk_lookup u i")
    case None
    then have "import_recovery_state from_json e json a u = (Inr (), tk_insert ?r u)"
      using fj nt by (simp add: import_recovery_state_def imported_def Let_def)
    moreover have "tk_lookup (tk_insert ?r u) i = Some ?r"
      using tk_lookup_insert [of u ?r] None id by simp
    ultimately show ?thesis using rec meta by (auto simp: get_recovery_metadata_def)
  next
    case (Some r2)
    then have "import_recovery_state from_json e json a u = (Inr (), tk_write i ?r u)"
      using fj nt absent [OF Some] by (simp add: import_recovery_state_def imported_def Let_def)
    moreover have "tk_lookup (tk_write i ?r u) i = Some ?r"
      using tk_lookup_write [OF Some id] by simp
    ultimately show ?thesis using rec meta by (auto simp: get_recovery_metadata_def)
  qed
qed

definition sample_failed :: transaction_state_record where
  "sample_failed = advance_record (accepting_env 7 1 {}) TxFailed (Some ''timeout'')
     (new_tx_record (accepting_env 5 1 {}) 7 ''A'' None)"

definition sample_export :: recovery_export where
  "sample_export = \<lparr>ex_failure_reason = ''timeout'', ex_last_updated_ledger = 1,
     ex_failed_from_state = ''pending'', ex_retry_count = 0, ex_transaction_id = 7\<rparr>"

lemma sample_failed_wf: "record_wf tracker_edge sample_failed"
  unfolding sample_failed_def
  by (rule advance_record_wf [OF new_tx_record_wf _ valid_le_tracker])
    (simp add: new_tx_record_def is_valid_transition_def)

theorem export_import_roundtrip_witness:
  "\<exists>t3. import_recovery_state (\<lambda>s. Inr sample_export) (accepting_env 9 1 {}) ''J'' ''B''
      (new_tracker False empty_tx_storage) = (Inr (), t3) \<and>
    get_recovery_metadata t3 7 = Some \<lparr>rm_failure_reason = ''timeout'', rm_last_updated_ledger = 1,
      rm_failed_from_state = TxPending, rm_retry_count = 0\<rparr>"
proof -
  let ?to = "\<lambda>x. if x = sample_export then Inr ''J'' else Inl ''''"
  let ?t = "(new_tracker True empty_tx_storage)\<lparr>tk_cache := [sample_failed]\<rparr>"
  have meta: "get_recovery_metadata ?t 7 = Some \<lparr>rm_failure_reason = ''timeout'', rm_last_updated_ledger = 1,
      rm_failed_from_state = TxPending, rm_retry_count = 0\<rparr>"
    by (simp add: get_recovery_metadata_def tk_lookup_def new_tracker_def sample_failed_def
        advance_record_def new_tx_record_def accepting_env_def Let_def)
  then have exp: "export_recovery_state ?to ?t 7 = Inr ''J''"
    by (simp add: export_recovery_state_def of_option_def sample_export_def)
  have wf: "tk_wf ?t" using sample_failed_wf by (simp add: tk_wf_def stored_def new_tracker_def)
  have none: "tk_lookup (new_tracker False empty_tx_storage) 7 = None"
    by (simp add: tk_lookup_def new_tracker_def empty_tx_storage_def)
  have serde: "?to x = Inr json \<Longrightarrow> Inr sample_export = (Inr x :: string + recovery_export)" for x json
    by (simp split: if_split_asm)
  show ?thesis
    using export_import_roundtrip [where to_json = ?to and from_json = "\<lambda>s. Inr sample_export" and
        u = "new_tracker False empty_tx_storage" and e = "accepting_env 9 1 {}" and a = "''B''",
        OF serde exp wf] none
    unfolding meta by simp
qed

text \<open>
  In production mode eviction never removes anything, even when it is switched on: the budget
  monitor that triggers it is only updated in development mode.  Every record ever stored is still
  there after any sequence of calls, and no eviction is reported.
\<close>

theorem production_never_evicts:
  assumes "tk_records st i \<noteq> None"
  shows "tk_records (tk_store (run (tk_step srt fj) cs (new_tracker False st))) i \<noteq> None \<and>
    tk_events (run (tk_step srt fj) cs (new_tracker False st)) = []"
proof -
  have "idle_budget (new_tracker False st)" by (simp add: idle_budget_def new_tracker_def)
  from production.run_fact [OF this keeps_refl, of srt fj cs] assms show ?thesis
    by (auto simp: keeps_def new_tracker_def)
qed

theorem production_never_evicts_witness:
  "tk_records (tk_store (run (tk_step (sort_key fst) (\<lambda>s. Inl s))
      [(accepting_env 8 1 {}, TkSetEviction True 10), (accepting_env 9 1 {}, TkCreate 1 ''B'' None)]
      (new_tracker False (empty_tx_storage\<lparr>tk_records := [7 \<mapsto> sample_failed]\<rparr>)))) 7 \<noteq> None"
  using production_never_evicts [of "empty_tx_storage\<lparr>tk_records := [7 \<mapsto> sample_failed]\<rparr>" 7
      "sort_key fst" "\<lambda>s. Inl s" "[(accepting_env 8 1 {}, TkSetEviction True 10), (accepting_env 9 1 {}, TkCreate 1 ''B'' None)]"]
  by simp

text \<open>
  Range queries agree between the modes: on the same records, sorting the cache and walking
  the identifiers give the same list, the first records of the range in order of their
  identifiers, at most one hundred.  The only difference is the walk's overflow, which happens
  exactly when the range ends at the largest identifier and is not cut short by the limit.
\<close>

theorem range_queries_agree:
  assumes "tk_is_dev_mode d" and "distinct (map tx_id (tk_cache d))" and "\<not> tk_is_dev_mode p"
    and "tk_lookup p = tk_lookup d"
  shows "get_tracked_in_range p from_id to_id limit =
    (if range_overflows (tk_lookup d) to_id (unat (min limit 100)) from_id []
     then Inl ArithTrap else get_tracked_in_range d from_id to_id limit)"
proof -
  have dev: "tk_lookup d = (\<lambda>k. find (\<lambda>r. tx_id r = k) (tk_cache d))"
    using assms(1) by (simp add: tk_lookup_def fun_eq_iff)
  have prod: "tk_records (tk_store p) = tk_lookup d"
    using assms(3,4) by (simp add: tk_lookup_def fun_eq_iff)
  show ?thesis
  proof (cases "to_id < from_id")
    case True
    then have "\<not> from_id \<le> to_id" by simp
    with True show ?thesis unfolding get_tracked_in_range_def range_overflows_def by (simp only: simp_thms if_True if_False)
  next
    case False
    then show ?thesis
      using assms(1,3) sorted_records [OF assms(2), of from_id to_id]
      by (simp add: get_tracked_in_range_def prod range_loop_result dev)
  qed
qed

theorem range_queries_agree_witness:
  "get_tracked_in_range (new_tracker False (empty_tx_storage\<lparr>tk_records := [7 \<mapsto> sample_failed]\<rparr>)) 1 9 5 =
   get_tracked_in_range ((new_tracker True empty_tx_storage)\<lparr>tk_cache := [sample_failed]\<rparr>) 1 9 5"
proof -
  have id: "tx_id sample_failed = 7" by (simp add: sample_failed_def new_tx_record_def)
  have "tk_lookup (new_tracker False (empty_tx_storage\<lparr>tk_records := [7 \<mapsto> sample_failed]\<rparr>)) =
      tk_lookup ((new_tracker True empty_tx_storage)\<lparr>tk_cache := [sample_failed]\<rparr>)"
    by (auto simp: tk_lookup_def new_tracker_def empty_tx_storage_def id fun_eq_iff)
  from range_queries_agree [OF _ _ _ this, of 1 9 5] show ?thesis
    by (simp add: new_tracker_def range_overflows_def word_top_def)
qed

end
