(* ===== verification/Rate_Limiter_Quotas.thy ===== *)
theory Rate_Limiter_Quotas
  imports Rate_Limiter
begin

text \<open>
  How many requests the rate limiter lets through: bounds for the window and for the token
  bucket, obtained from the \<open>quota\<close> interface, over every sequence of requests by any attestors.
\<close>

section \<open>Requests\<close>

text \<open>
  A request \<open>(e, b)\<close> by attestor \<open>b\<close>, with the configuration resolved as
  \<open>enforce_rate_limit\<close> in \<^verbatim>\<open>src/contract.rs\<close> resolves it; \<open>role\<close> gives the role symbol of each
  address.  It counts when it is accepted and made by \<open>a\<close>.  A trap leaves the stores alone.
\<close>

definition rl_admit ::
    "address option \<Rightarrow> (address \<Rightarrow> string option) \<Rightarrow> address \<Rightarrow> env \<times> address \<Rightarrow>
     rl_store \<times> audit_store \<Rightarrow> bool \<times> (rl_store \<times> audit_store)" where
  "rl_admit admin role a = (\<lambda>(e, b) (s, au).
     case check_and_increment e admin b (resolve_config s b (role b)) s au of
       Inl _ \<Rightarrow> (False, (s, au))
     | Inr (r, s', au') \<Rightarrow> (r = Inr () \<and> b = a, (s', au')))"

abbreviation request_time :: "env \<times> address \<Rightarrow> nat" where
  "request_time r \<equiv> unat (ledger_seq (fst r))"

lemma took_token_frame:
  assumes "took_token e b s s1"
  shows "rl_config s1 = rl_config s" "rl_role s1 = rl_role s" "rl_addr s1 = rl_addr s"
    "rl_burst_config s1 = rl_burst_config s" "rl_fairness s1 = rl_fairness s"
    "rl_state s1 = rl_state s" "rl_global s1 = rl_global s"
    "a \<noteq> b \<Longrightarrow> rl_burst_state s1 a = rl_burst_state s a"
  using assms by (auto simp: took_token_def Let_def split: option.splits)

lemma fairness_frame:
  assumes "case f of None \<Rightarrow> s2 = s1 | Some fc \<Rightarrow> check_fairness cfg st fc now s1 = Inr (Inr (), s2)"
  shows "rl_config s2 = rl_config s1" "rl_role s2 = rl_role s1" "rl_addr s2 = rl_addr s1"
    "rl_burst_config s2 = rl_burst_config s1" "rl_fairness s2 = rl_fairness s1"
    "rl_state s2 = rl_state s1" "rl_burst_state s2 = rl_burst_state s1"
  using assms by (auto split: option.splits dest!: check_fairness_cases)

lemma resolve_config_cong:
  "\<lbrakk>rl_config s' = rl_config s; rl_role s' = rl_role s; rl_addr s' = rl_addr s\<rbrakk>
    \<Longrightarrow> resolve_config s' = resolve_config s"
  by (intro ext) (simp add: resolve_config_def get_rl_config_def split: option.split)

lemma check_and_increment_frame:
  assumes "check_and_increment e admin b cfg s au = Inr (r, s', au')"
  shows "resolve_config s' = resolve_config s \<and> rl_burst_config s' = rl_burst_config s \<and>
    rl_fairness s' = rl_fairness s \<and>
    (a \<noteq> b \<longrightarrow> rl_state s' a = rl_state s a \<and> rl_burst_state s' a = rl_burst_state s a)"
  using assms
proof (cases rule: check_and_increment_cases)
  case (drained bc)
  then show ?thesis by (auto intro!: resolve_config_cong)
next
  case (unfair s1 fc)
  with took_token_frame [OF unfair(2)] show ?thesis by (auto intro!: resolve_config_cong)
next
  case (accept s1 s2)
  with took_token_frame [OF accept(3)] fairness_frame [OF accept(5)] show ?thesis
    by (auto intro!: resolve_config_cong)
qed simp_all

text \<open>The attestor's own window and bucket.\<close>

lemma own_window:
  assumes "check_and_increment e admin b cfg s au = Inr (r, s', au')" and "admin \<noteq> Some b"
  shows "if r = Inr ()
         then unat (submission_count (current_window e s b cfg)) < unat (max_submissions cfg) \<and>
              (\<exists>st. rl_state s' b = Some st \<and>
                 window_start_ledger st = window_start_ledger (current_window e s b cfg) \<and>
                 unat (submission_count st) = Suc (unat (submission_count (current_window e s b cfg))))
         else rl_state s' b = rl_state s b"
  using assms(1)
proof (cases rule: check_and_increment_cases)
  case (accept s1 s2)
  let ?n = "submission_count (current_window e s b cfg)"
  have "unat ?n < unat (max_submissions cfg)"
    using accept by (simp add: word_less_nat_alt)
  moreover have "unat (max_submissions cfg) < 2 ^ 32"
    using unat_lt_pow [of "max_submissions cfg"] by simp
  ultimately have "unat (sat_add ?n 1) = Suc (unat ?n)"
    by (simp add: unat_simps)
  with accept show ?thesis by (simp add: word_less_nat_alt)
qed (use assms(2) in \<open>auto simp: took_token_frame\<close>)

lemma own_bucket:
  assumes "check_and_increment e admin b cfg s au = Inr (r, s', au')" and "admin \<noteq> Some b"
    and "rl_burst_config s = Some bc"
  shows "rl_burst_state s' b = rl_burst_state s b \<and> r \<noteq> Inr () \<or>
         (\<exists>st. rl_burst_state s' b = Some st \<and>
            last_refill_ledger st =
              last_refill_ledger (refilled bc (ledger_seq e) (get_burst_state e s b bc)) \<and>
            (if r = Inr () then 1 else 0) + unat (tokens st) \<le>
              unat (tokens (refilled bc (ledger_seq e) (get_burst_state e s b bc))))"
proof -
  let ?st = "refilled bc (ledger_seq e) (get_burst_state e s b bc)"
  have less: "Suc (unat (tokens ?st - 1)) \<le> unat (tokens ?st)" if "tokens ?st \<noteq> 0"
    using that by (simp add: unat_minus_one unat_gt_0 Suc_leI)
  have took: "rl_burst_state s1 b = Some (?st\<lparr>tokens := tokens ?st - 1\<rparr>) \<and> tokens ?st \<noteq> 0"
    if "took_token e b s s1" for s1
    using that assms(3) by (auto simp: took_token_def Let_def)
  show ?thesis
    using assms(1)
  proof (cases rule: check_and_increment_cases)
    case (accept s1 s2)
    with took [of s1] less show ?thesis by (simp add: fairness_frame(7))
  next
    case (unfair s1 fc)
    with took [of s1] less show ?thesis by simp
  qed (use assms(2,3) in auto)
qed

section \<open>The window as a quota\<close>

text \<open>
  Attestor \<open>a\<close> is not the administrator and is limited by \<open>cfg\<close>; only requests before
  \<open>t0 + window_length cfg\<close> are considered.  A window opened at or after \<open>t0\<close> lasts until then;
  one opened earlier, which counts at least one request from before \<open>t0\<close>, may be followed by one
  more.
\<close>

definition window_inv ::
    "address option \<Rightarrow> (address \<Rightarrow> string option) \<Rightarrow> address \<Rightarrow> rate_limit_config \<Rightarrow> nat \<Rightarrow>
     nat \<Rightarrow> rl_store \<times> audit_store \<Rightarrow> bool" where
  "window_inv admin role a cfg t0 t = (\<lambda>(s, au).
     admin \<noteq> Some a \<and> t0 \<le> t \<and> resolve_config s a (role a) = cfg \<and>
     (case rl_state s a of
        None \<Rightarrow> True
      | Some st \<Rightarrow> unat (window_start_ledger st) \<le> t \<and> 0 < unat (submission_count st)))"

definition window_budget ::
    "address \<Rightarrow> rate_limit_config \<Rightarrow> nat \<Rightarrow> nat \<Rightarrow> rl_store \<times> audit_store \<Rightarrow> nat" where
  "window_budget a cfg t0 t = (\<lambda>(s, au).
     let m = unat (max_submissions cfg) in
     case rl_state s a of
       None \<Rightarrow> m
     | Some st \<Rightarrow>
         (if unat (window_start_ledger st) + unat (window_length cfg) \<le> t then m
          else if t0 \<le> unat (window_start_ledger st) then m - unat (submission_count st)
          else (m - unat (submission_count st)) + m))"

abbreviation before :: "nat \<Rightarrow> env \<times> address \<Rightarrow> bool" where
  "before t r \<equiv> request_time r < t"

lemma rl_admit_inv:
  assumes "rl_admit admin role a (e, b) (s, au) = (ok, (s', au'))"
  shows "resolve_config s' = resolve_config s \<and> rl_burst_config s' = rl_burst_config s \<and>
    (a \<noteq> b \<longrightarrow> \<not> ok \<and> rl_state s' a = rl_state s a \<and> rl_burst_state s' a = rl_burst_state s a)"
  using assms check_and_increment_frame
  by (fastforce simp: rl_admit_def split: sum.splits prod.splits)

lemma rl_admit_own:
  assumes "rl_admit admin role a (e, a) (s, au) = (ok, (s', au'))" and "cfg = resolve_config s a (role a)"
  shows "s' = s \<and> \<not> ok \<or>
    (\<exists>r. check_and_increment e admin a cfg s au = Inr (r, s', au') \<and> ok = (r = Inr ()))"
  using assms by (auto simp: rl_admit_def split: sum.splits prod.splits)

text \<open>The attestor's window after one request of its own.\<close>

lemma window_step:
  assumes "rl_admit admin role a (e, a) (s, au) = (ok, (s', au'))"
    and "admin \<noteq> Some a" and "cfg = resolve_config s a (role a)"
  shows "\<not> ok \<and> rl_state s' a = rl_state s a \<or>
    ok \<and> unat (submission_count (current_window e s a cfg)) < unat (max_submissions cfg) \<and>
    (\<exists>st. rl_state s' a = Some st \<and>
       window_start_ledger st = window_start_ledger (current_window e s a cfg) \<and>
       unat (submission_count st) = Suc (unat (submission_count (current_window e s a cfg))))"
  using rl_admit_own [OF assms(1,3)]
proof (elim disjE exE conjE)
  fix r assume run: "check_and_increment e admin a cfg s au = Inr (r, s', au')" and ok: "ok = (r = Inr ())"
  from own_window [OF run assms(2)] ok show ?thesis by (auto split: if_splits)
qed simp

interpretation window: quota "rl_admit admin role a" request_time
    "before (t0 + unat (window_length cfg))" "window_inv admin role a cfg t0" "window_budget a cfg t0" 0
  for admin role a cfg t0
proof
  fix t r s
  assume inv: "window_inv admin role a cfg t0 t s" and le: "t \<le> request_time r"
    and bf: "before (t0 + unat (window_length cfg)) r"
  obtain e b where r: "r = (e, b)" by (cases r)
  obtain st au where s: "s = (st, au)" by (cases s)
  obtain ok st' au' where step: "rl_admit admin role a (e, b) (st, au) = (ok, (st', au'))"
    by (metis prod.collapse)
  note frame = rl_admit_inv [OF step]
  show "window_inv admin role a cfg t0 (request_time r) (snd (rl_admit admin role a r s))"
  proof (cases "a = b")
    case False
    with frame inv le show ?thesis
      unfolding r s step by (auto simp: window_inv_def split: option.splits)
  next
    case True
    note step' = step [folded True] and r' = r [folded True]
    from inv have "admin \<noteq> Some a" and "cfg = resolve_config st a (role a)"
      unfolding s by (simp_all add: window_inv_def)
    from window_step [OF step' this] frame inv le show ?thesis
      unfolding r' s step'
      by (auto simp: window_inv_def current_window_def get_rl_state_def Let_def split: option.splits if_splits)
  qed
  show "(if fst (rl_admit admin role a r s) then 1 else 0) +
      window_budget a cfg t0 (request_time r) (snd (rl_admit admin role a r s))
    \<le> window_budget a cfg t0 t s + 0 * (request_time r - t)"
  proof (cases "a = b")
    case False
    with frame le bf show ?thesis
      unfolding r s step by (auto simp: window_budget_def Let_def split: option.splits)
  next
    case True
    note step' = step [folded True] and r' = r [folded True]
    from inv have adm: "admin \<noteq> Some a" and cfg: "cfg = resolve_config st a (role a)"
      and t0: "t0 \<le> t"
      unfolding s by (simp_all add: window_inv_def)
    from window_step [OF step' adm cfg] le bf t0 show ?thesis
      unfolding r' s step'
      by (auto simp: window_budget_def current_window_def get_rl_state_def Let_def split: option.splits if_splits)
  qed
qed

section \<open>The token bucket as a quota\<close>

definition bucket_inv ::
    "address option \<Rightarrow> address \<Rightarrow> burst_control_config \<Rightarrow> nat \<Rightarrow> rl_store \<times> audit_store \<Rightarrow> bool" where
  "bucket_inv admin a bc t = (\<lambda>(s, au).
     admin \<noteq> Some a \<and> rl_burst_config s = Some bc \<and>
     (case rl_burst_state s a of None \<Rightarrow> True | Some st \<Rightarrow> unat (last_refill_ledger st) \<le> t))"

definition bucket_budget ::
    "address \<Rightarrow> burst_control_config \<Rightarrow> nat \<Rightarrow> rl_store \<times> audit_store \<Rightarrow> nat" where
  "bucket_budget a bc t = (\<lambda>(s, au).
     case rl_burst_state s a of
       None \<Rightarrow> unat (burst_capacity bc)
     | Some st \<Rightarrow> unat (tokens st) + unat (refill_per_ledger bc) * (t - unat (last_refill_ledger st)))"

lemma bucket_step:
  assumes "rl_admit admin role a (e, a) (s, au) = (ok, (s', au'))"
    and "admin \<noteq> Some a" and "rl_burst_config s = Some bc"
  shows "\<not> ok \<and> rl_burst_state s' a = rl_burst_state s a \<or>
    (\<exists>st. rl_burst_state s' a = Some st \<and>
       last_refill_ledger st =
         last_refill_ledger (refilled bc (ledger_seq e) (get_burst_state e s a bc)) \<and>
       (if ok then 1 else 0) + unat (tokens st) \<le>
         unat (tokens (refilled bc (ledger_seq e) (get_burst_state e s a bc))))"
  using rl_admit_own [OF assms(1) refl]
proof (elim disjE exE conjE)
  fix r assume run: "check_and_increment e admin a (resolve_config s a (role a)) s au = Inr (r, s', au')"
    and ok: "ok = (r = Inr ())"
  from own_bucket [OF run assms(2,3)] ok show ?thesis by auto
qed simp

text \<open>The refilled bucket never holds more than the budget.\<close>

lemma refilled_bound:
  assumes "case rl_burst_state s a of None \<Rightarrow> True | Some st \<Rightarrow> unat (last_refill_ledger st) \<le> t"
    and "t \<le> unat (ledger_seq e)"
  shows "last_refill_ledger (refilled bc (ledger_seq e) (get_burst_state e s a bc)) = ledger_seq e"
    and "unat (tokens (refilled bc (ledger_seq e) (get_burst_state e s a bc)))
      \<le> bucket_budget a bc t (s, au) + unat (refill_per_ledger bc) * (unat (ledger_seq e) - t)"
proof -
  let ?st = "get_burst_state e s a bc"
  have le: "unat (last_refill_ledger ?st) \<le> unat (ledger_seq e)"
    using assms by (simp add: get_burst_state_def split: option.splits)
  then show "last_refill_ledger (refilled bc (ledger_seq e) ?st) = ledger_seq e"
    by (auto simp: unat_refilled(1) word_unat_eq_iff)
  have "unat (tokens ?st) + unat (refill_per_ledger bc) * (unat (ledger_seq e) - unat (last_refill_ledger ?st))
      \<le> bucket_budget a bc t (s, au) + unat (refill_per_ledger bc) * (unat (ledger_seq e) - t)"
  proof (cases "rl_burst_state s a")
    case None
    then show ?thesis by (simp add: get_burst_state_def bucket_budget_def)
  next
    case (Some st)
    then have "unat (ledger_seq e) - unat (last_refill_ledger st) =
        (t - unat (last_refill_ledger st)) + (unat (ledger_seq e) - t)"
      using assms by simp
    with Some show ?thesis by (simp add: get_burst_state_def bucket_budget_def add_mult_distrib2)
  qed
  with unat_refilled(2) [of bc "ledger_seq e" ?st]
  show "unat (tokens (refilled bc (ledger_seq e) ?st))
      \<le> bucket_budget a bc t (s, au) + unat (refill_per_ledger bc) * (unat (ledger_seq e) - t)"
    by (rule le_trans)
qed

lemma bucket_budget_later:
  assumes "case rl_burst_state s a of None \<Rightarrow> True | Some st \<Rightarrow> unat (last_refill_ledger st) \<le> t"
    and "t \<le> u" and "rl_burst_state s' a = rl_burst_state s a"
  shows "bucket_budget a bc u (s', au') \<le> bucket_budget a bc t (s, au) + unat (refill_per_ledger bc) * (u - t)"
proof (cases "rl_burst_state s a")
  case None
  with assms(3) show ?thesis by (simp add: bucket_budget_def)
next
  case (Some st)
  then have "u - unat (last_refill_ledger st) = (t - unat (last_refill_ledger st)) + (u - t)"
    using assms by simp
  with Some assms(3) show ?thesis by (simp add: bucket_budget_def add_mult_distrib2)
qed

interpretation bucket: quota "rl_admit admin role a" request_time "\<lambda>_. True"
    "bucket_inv admin a bc" "bucket_budget a bc" "unat (refill_per_ledger bc)"
  for admin role a bc
proof
  fix t r s
  assume inv: "bucket_inv admin a bc t s" and le: "t \<le> request_time r"
  obtain e b where r: "r = (e, b)" by (cases r)
  obtain st au where s: "s = (st, au)" by (cases s)
  obtain ok st' au' where step: "rl_admit admin role a (e, b) (st, au) = (ok, (st', au'))"
    by (metis prod.collapse)
  note frame = rl_admit_inv [OF step]
  from inv have adm: "admin \<noteq> Some a" and bc: "rl_burst_config st = Some bc"
    and before: "case rl_burst_state st a of None \<Rightarrow> True | Some x \<Rightarrow> unat (last_refill_ledger x) \<le> t"
    unfolding s by (simp_all add: bucket_inv_def)
  have le': "t \<le> unat (ledger_seq e)" using le r by simp
  note bound = refilled_bound(1) [OF before le', where bc = bc]
    refilled_bound(2) [OF before le', where bc = bc and au = au]
  note later = bucket_budget_later [OF before le', where bc = bc and au = au and s' = st' and au' = au']
  show "bucket_inv admin a bc (request_time r) (snd (rl_admit admin role a r s))"
  proof (cases "a = b")
    case False
    with frame adm bc before le' show ?thesis
      unfolding r s step by (auto simp: bucket_inv_def split: option.splits)
  next
    case True
    note step' = step [folded True] and r' = r [folded True]
    from bucket_step [OF step' adm bc] bound(1) frame adm bc before le' show ?thesis
      unfolding r' s step' by (auto simp: bucket_inv_def split: option.splits)
  qed
  show "(if fst (rl_admit admin role a r s) then 1 else 0) +
      bucket_budget a bc (request_time r) (snd (rl_admit admin role a r s))
    \<le> bucket_budget a bc t s + unat (refill_per_ledger bc) * (request_time r - t)"
  proof (cases "a = b")
    case False
    with frame later show ?thesis
      unfolding r s step by simp
  next
    case True
    note step' = step [folded True] and r' = r [folded True]
    from bucket_step [OF step' adm bc] show ?thesis
    proof (elim disjE exE conjE)
      assume "\<not> ok" "rl_burst_state st' a = rl_burst_state st a"
      with later show ?thesis unfolding r' s step' by simp
    next
      fix x assume "rl_burst_state st' a = Some x"
        "last_refill_ledger x = last_refill_ledger (refilled bc (ledger_seq e) (get_burst_state e st a bc))"
        "(if ok then 1 else 0) + unat (tokens x)
          \<le> unat (tokens (refilled bc (ledger_seq e) (get_burst_state e st a bc)))"
      with bound show ?thesis unfolding r' s step' by (simp add: bucket_budget_def)
    qed
  qed
qed

section \<open>Fairness\<close>

text \<open>With a cap below 100 percent that is enforced from the first request, nobody can make the
  first request of a window: its share would be the whole.\<close>

definition deadlock_inv :: "address option \<Rightarrow> address \<Rightarrow> fairness_config \<Rightarrow> nat \<Rightarrow> rl_store \<times> audit_store \<Rightarrow> bool" where
  "deadlock_inv admin a fc t = (\<lambda>(s, au).
     admin \<noteq> Some a \<and> rl_fairness s = Some fc \<and>
     max_share_percent fc < 100 \<and> min_total_for_enforcement fc \<le> 1 \<and>
     (\<forall>b. rl_state s b = None) \<and> rl_global s = None)"

lemma exceeds_share_eq:
  "exceeds_share n t fc =
     Inr (unat (min_total_for_enforcement fc) \<le> unat t \<and>
          unat (max_share_percent fc) * unat t < unat n * 100)"
proof -
  have lt: "unat w < 2 ^ 32" for w :: u32
    using unat_lt_pow [of w] by simp
  have prod: "times_trap a b = Inr (a * b) \<and> unat (a * b) = unat a * unat b"
    if "unat a * unat b < 2 ^ 64" for a b :: u64
    using that by (simp add: times_trap_def checked_mul_def unat_word_ariths)
  have n: "unat (ucast n :: u64) * unat (100 :: u64) < 2 ^ 64"
    using lt [of n] by simp
  have m: "unat (ucast (max_share_percent fc) :: u64) * unat (ucast t :: u64) < 2 ^ 64"
    using mult_strict_mono [OF lt [of "max_share_percent fc"] lt [of t]] by simp
  show ?thesis
    using prod [OF n] prod [OF m]
    by (simp add: exceeds_share_def word_less_nat_alt word_le_nat_alt)
qed

lemma check_fairness_outcome:
  assumes "check_fairness cfg st fc now s = Inr (r, s')"
  shows "r = Inr () \<longleftrightarrow>
    unat (min_total_for_enforcement fc) \<le>
      Suc (unat (total_count (get_global_window_state s (window_length cfg) now))) \<longrightarrow>
    Suc (unat (submission_count st)) * 100 \<le>
      unat (max_share_percent fc) *
      Suc (unat (total_count (get_global_window_state s (window_length cfg) now)))"
proof -
  let ?g = "get_global_window_state s (window_length cfg) now"
  have suc: "unat (w + 1) = Suc (unat w)" if "unat w + unat (1 :: u32) < 2 ^ LENGTH(32)" for w :: u32
    using that by (simp add: unat_word_ariths)
  from assms have fits: "unat (total_count ?g) + unat (1 :: u32) < 2 ^ LENGTH(32)"
      "unat (submission_count st) + unat (1 :: u32) < 2 ^ LENGTH(32)"
    and r: "r = Inr () \<longleftrightarrow>
      \<not> (unat (min_total_for_enforcement fc) \<le> unat (total_count ?g + 1) \<and>
         unat (max_share_percent fc) * unat (total_count ?g + 1) < unat (submission_count st + 1) * 100)"
    by (auto simp: check_fairness_def Let_def ok_simps exceeds_share_eq split: if_splits)
  show ?thesis
    unfolding r suc [OF fits(1)] suc [OF fits(2)] by auto
qed

lemma deadlock_step:
  assumes "check_and_increment e admin b cfg s au = Inr (r, s', au')"
    and "rl_fairness s = Some fc" "max_share_percent fc < 100" "min_total_for_enforcement fc \<le> 1"
    and "\<forall>b. rl_state s b = None" "rl_global s = None"
  shows "(r = Inr () \<longrightarrow> admin = Some b) \<and> rl_fairness s' = Some fc \<and>
    (\<forall>b. rl_state s' b = None) \<and> rl_global s' = None"
  using assms(1)
proof (cases rule: check_and_increment_cases)
  case (accept s1 s2)
  with assms(2) have run: "check_fairness cfg (current_window e s b cfg) fc (ledger_seq e) s1 = Inr (Inr (), s2)"
    by simp
  have zero: "submission_count (current_window e s b cfg) = 0"
    using assms(5) by (simp add: current_window_def get_rl_state_def Let_def)
  have total: "total_count (get_global_window_state s1 (window_length cfg) (ledger_seq e)) = 0"
    using assms(6) took_token_frame [OF accept(3)]
    by (simp add: get_global_window_state_def Let_def)
  from check_fairness_outcome [OF run] assms(3,4)
  have False by (simp add: zero total word_less_nat_alt word_le_nat_alt)
  then show ?thesis ..
next
  case (unfair s1 fc')
  with took_token_frame [OF unfair(2)] assms show ?thesis by simp
qed (use assms in auto)

interpretation deadlock: quota "rl_admit admin role a" request_time "\<lambda>_. True"
    "deadlock_inv admin a fc" "\<lambda>_ _. 0" 0
  for admin role a fc
proof -
  have step: "deadlock_inv admin a fc u (snd (rl_admit admin role a r s)) \<and>
      \<not> fst (rl_admit admin role a r s)" if "deadlock_inv admin a fc t s" for t u r s
  proof -
    obtain e b where r: "r = (e, b)" by (cases r)
    obtain st au where s: "s = (st, au)" by (cases s)
    show ?thesis
    proof (cases "check_and_increment e admin b (resolve_config st b (role b)) st au")
      case (Inl x)
      with that show ?thesis by (simp add: r s rl_admit_def deadlock_inv_def)
    next
      case (Inr y)
      obtain q st' au' where y: "y = (q, st', au')" by (cases y)
      from that deadlock_step [OF Inr [unfolded y]] show ?thesis
        by (auto simp: r s Inr y rl_admit_def deadlock_inv_def)
    qed
  qed
  show "quota (rl_admit admin role a) request_time (\<lambda>_. True) (deadlock_inv admin a fc) (\<lambda>_ _. 0) 0"
    by unfold_locales (use step in auto)
qed

section \<open>Properties\<close>

text \<open>A ledger environment for concrete runs.\<close>

definition ledger_env :: "u64 \<Rightarrow> u32 \<Rightarrow> address set \<Rightarrow> env" where
  "ledger_env now seq who =
     \<lparr>timestamp = now, ledger_seq = seq, auths = who, sha256 = (\<lambda>b. b),
      ed25519_verify = (\<lambda>_ _ _. False)\<rparr>"

text \<open>
  The admission criterion.  A request that does not trap is accepted exactly if it is the
  administrator's, or the attestor's window at this ledger has room, the refilled bucket holds a
  token when burst control is configured, and its share of the window's requests, this one
  included, stays within the cap once the total reaches the enforcement threshold.
\<close>

theorem admission_criterion:
  assumes "check_and_increment e admin b cfg s au = Inr (r, s', au')"
  shows "r = Inr () \<longleftrightarrow>
    admin = Some b \<or>
    submission_count (current_window e s b cfg) < max_submissions cfg \<and>
    (case rl_burst_config s of
       None \<Rightarrow> True
     | Some bc \<Rightarrow> 0 < tokens (refilled bc (ledger_seq e) (get_burst_state e s b bc))) \<and>
    (case rl_fairness s of
       None \<Rightarrow> True
     | Some fc \<Rightarrow>
         let total = Suc (unat (total_count (get_global_window_state s (window_length cfg) (ledger_seq e))))
         in unat (min_total_for_enforcement fc) \<le> total \<longrightarrow>
            Suc (unat (submission_count (current_window e s b cfg))) * 100 \<le>
              unat (max_share_percent fc) * total)"
proof -
  have global: "get_global_window_state s1 = get_global_window_state s" if "took_token e b s s1" for s1
    using took_token_frame [OF that] by (intro ext) (simp add: get_global_window_state_def)
  have token: "case rl_burst_config s of None \<Rightarrow> True
     | Some bc \<Rightarrow> 0 < tokens (refilled bc (ledger_seq e) (get_burst_state e s b bc))"
    if "took_token e b s s1" for s1
    using that by (auto simp: took_token_def Let_def word_neq_0_conv split: option.splits)
  show ?thesis
    using assms
  proof (cases rule: check_and_increment_cases)
    case (accept s1 s2)
    have "unat (min_total_for_enforcement fc) \<le>
          Suc (unat (total_count (get_global_window_state s (window_length cfg) (ledger_seq e)))) \<longrightarrow>
        Suc (unat (submission_count (current_window e s b cfg))) * 100 \<le> unat (max_share_percent fc) *
          Suc (unat (total_count (get_global_window_state s (window_length cfg) (ledger_seq e))))"
      if "rl_fairness s = Some fc" for fc
      using accept(5) that check_fairness_outcome global [OF accept(3)] by fastforce
    with accept(1,2,4) token [OF accept(3)] show ?thesis
      by (auto simp: Let_def split: option.splits)
  next
    case (unfair s1 fc)
    with check_fairness_outcome [OF unfair(4)] global [OF unfair(2)] show ?thesis
      by (auto simp: Let_def)
  qed auto
qed

text \<open>
  C15. The window limit, over every interleaving of requests by any attestors: in an interval of
  one window length an attestor gets at most \<open>2 * max - 1\<close> requests through, and at most \<open>max\<close>
  if it had no window open before.
\<close>

theorem window_limit:
  assumes "admin \<noteq> Some a" and "resolve_config s a (role a) = cfg"
    and "sorted (map request_time rs)"
    and "\<forall>r\<in>set rs. t0 \<le> request_time r \<and> request_time r < t0 + unat (window_length cfg)"
    and "\<forall>st. rl_state s a = Some st \<longrightarrow>
      unat (window_start_ledger st) \<le> t0 \<and> 0 < submission_count st"
  shows "admitted (rl_admit admin role a) (s, au) rs \<le>
    (if rl_state s a = None then unat (max_submissions cfg) else 2 * unat (max_submissions cfg) - 1)"
proof -
  have "window_inv admin role a cfg t0 t0 (s, au)"
    using assms(1,2,5) by (auto simp: window_inv_def word_less_nat_alt split: option.splits)
  moreover have "sorted (t0 # map request_time rs)"
    using assms(3,4) by auto
  moreover have "list_all (before (t0 + unat (window_length cfg))) rs"
    using assms(4) by (auto simp: list_all_iff)
  ultimately have "admitted (rl_admit admin role a) (s, au) rs \<le> window_budget a cfg t0 t0 (s, au)"
    using window.admitted_bound by fastforce
  also have "\<dots> \<le> (if rl_state s a = None then unat (max_submissions cfg)
      else 2 * unat (max_submissions cfg) - 1)"
    using assms(5) by (auto simp: window_budget_def Let_def word_less_nat_alt split: option.splits)
  finally show ?thesis .
qed

text \<open>The bound is reached: two requests per ten ledgers, one at ledger 1 and then three within
  the ledgers 10 and 11.\<close>

theorem window_limit_witness:
  "admitted (rl_admit None (\<lambda>_. None) ''A'')
     (empty_rl_store\<lparr>rl_config := Some \<lparr>max_submissions = 2, window_length = 10\<rparr>,
        rl_state := [''A'' \<mapsto> \<lparr>submission_count = 1, window_start_ledger = 1\<rparr>]\<rparr>, empty_audit_store)
     [(ledger_env 0 10 {}, ''A''), (ledger_env 0 11 {}, ''A''), (ledger_env 0 11 {}, ''A''),
      (ledger_env 0 11 {}, ''A'')] = 2 * 2 - 1 \<and>
   admitted (rl_admit None (\<lambda>_. None) ''A'')
     (empty_rl_store\<lparr>rl_config := Some \<lparr>max_submissions = 2, window_length = 10\<rparr>,
        rl_state := [''A'' \<mapsto> \<lparr>submission_count = 1, window_start_ledger = 1\<rparr>]\<rparr>, empty_audit_store)
     [(ledger_env 0 10 {}, ''A''), (ledger_env 0 11 {}, ''A''), (ledger_env 0 11 {}, ''A''),
      (ledger_env 0 11 {}, ''A'')] \<le> 2 * unat (2 :: u32) - 1"
  using window_limit [of None "''A''"
      "empty_rl_store\<lparr>rl_config := Some \<lparr>max_submissions = 2, window_length = 10\<rparr>,
        rl_state := [''A'' \<mapsto> \<lparr>submission_count = 1, window_start_ledger = 1\<rparr>]\<rparr>"
      "\<lambda>_. None" "\<lparr>max_submissions = 2, window_length = 10\<rparr>"
      "[(ledger_env 0 10 {}, ''A''), (ledger_env 0 11 {}, ''A''), (ledger_env 0 11 {}, ''A''),
      (ledger_env 0 11 {}, ''A'')]" 10 empty_audit_store]
  by (simp add: rl_admit_def check_and_increment_def current_window_def get_rl_state_def Let_def
      empty_rl_store_def ledger_env_def resolve_config_def get_rl_config_def sat_add_def word_le_nat_alt
      word_less_nat_alt)

text \<open>A non-trapping call for the criterion: a full bucket, a fairness cap of half.\<close>

theorem admission_criterion_witness:
  "\<exists>r s' au'. check_and_increment (ledger_env 0 7 {}) None ''A'' \<lparr>max_submissions = 2, window_length = 10\<rparr>
     (empty_rl_store\<lparr>rl_fairness := Some \<lparr>max_share_percent = 50, min_total_for_enforcement = 1\<rparr>\<rparr>)
     empty_audit_store = Inr (r, s', au') \<and> r \<noteq> Inr ()"
proof -
  let ?s = "empty_rl_store\<lparr>rl_fairness := Some \<lparr>max_share_percent = 50, min_total_for_enforcement = 1\<rparr>\<rparr>"
  let ?cfg = "\<lparr>max_submissions = 2, window_length = 10\<rparr> :: rate_limit_config"
  obtain r s' au' where run: "check_and_increment (ledger_env 0 7 {}) None ''A'' ?cfg ?s
      empty_audit_store = Inr (r, s', au')"
    by (simp add: check_and_increment_def current_window_def get_rl_state_def Let_def empty_rl_store_def
        ledger_env_def check_fairness_def exceeds_share_eq plus_trap_def checked_add_def
        get_global_window_state_def word_le_nat_alt word_less_nat_alt)
  from admission_criterion [OF run] have "r \<noteq> Inr ()"
    by (simp add: current_window_def get_rl_state_def Let_def empty_rl_store_def
        ledger_env_def get_global_window_state_def)
  with run show ?thesis by blast
qed

text \<open>
  The sustained rate, over every interleaving of requests by any attestors: with burst control
  configured, an attestor gets no more requests through than its bucket held at the start plus
  \<open>refill_per_ledger\<close> for every ledger elapsed since then (or since the bucket's last refill).
\<close>

theorem burst_limit:
  assumes "admin \<noteq> Some a" and "rl_burst_config s = Some bc"
    and "sorted (t0 # map request_time rs)"
    and "\<forall>st. rl_burst_state s a = Some st \<longrightarrow> unat (last_refill_ledger st) \<le> t0"
  shows "admitted (rl_admit admin role a) (s, au) rs \<le>
    (case rl_burst_state s a of
       None \<Rightarrow> unat (burst_capacity bc) +
         unat (refill_per_ledger bc) * (last (t0 # map request_time rs) - t0)
     | Some st \<Rightarrow> unat (tokens st) +
         unat (refill_per_ledger bc) *
           (last (t0 # map request_time rs) - unat (last_refill_ledger st)))"
proof -
  let ?last = "last (t0 # map request_time rs)"
  have "t0 \<le> ?last"
    using assms(3) by (metis last_in_set list.distinct(1) order_refl set_ConsD sorted_simps(2))
  moreover have "bucket_inv admin a bc t0 (s, au)"
    using assms(1,2,4) by (simp add: bucket_inv_def split: option.splits)
  then have "admitted (rl_admit admin role a) (s, au) rs \<le>
      bucket_budget a bc t0 (s, au) + unat (refill_per_ledger bc) * (?last - t0)"
    using assms(3) by (rule bucket.admitted_bound) (simp add: list_all_iff)
  moreover have "c * (t0 - m) + c * (?last - t0) = c * (?last - m)" if "m \<le> t0" "t0 \<le> ?last" for c m
    using that by (simp flip: add_mult_distrib2)
  ultimately show ?thesis
    using assms(4) by (fastforce simp: bucket_budget_def add.assoc split: option.splits)
qed

theorem burst_limit_witness:
  "admitted (rl_admit None (\<lambda>_. None) ''A'')
     (empty_rl_store\<lparr>rl_burst_config := Some \<lparr>burst_capacity = 1, refill_per_ledger = 1\<rparr>\<rparr>, empty_audit_store)
     [(ledger_env 0 5 {}, ''A''), (ledger_env 0 5 {}, ''A''), (ledger_env 0 7 {}, ''A'')] = 2 \<and>
   admitted (rl_admit None (\<lambda>_. None) ''A'')
     (empty_rl_store\<lparr>rl_burst_config := Some \<lparr>burst_capacity = 1, refill_per_ledger = 1\<rparr>\<rparr>, empty_audit_store)
     [(ledger_env 0 5 {}, ''A''), (ledger_env 0 5 {}, ''A''), (ledger_env 0 7 {}, ''A'')] \<le> 1 + 1 * (7 - 5)"
  using burst_limit [of None "''A''"
      "empty_rl_store\<lparr>rl_burst_config := Some \<lparr>burst_capacity = 1, refill_per_ledger = 1\<rparr>\<rparr>"
      "\<lparr>burst_capacity = 1, refill_per_ledger = 1\<rparr>" 5
      "[(ledger_env 0 5 {}, ''A''), (ledger_env 0 5 {}, ''A''), (ledger_env 0 7 {}, ''A'')]"
      "\<lambda>_. None" empty_audit_store]
  by (simp add: rl_admit_def check_and_increment_def current_window_def get_rl_state_def Let_def
      empty_rl_store_def ledger_env_def resolve_config_def get_rl_config_def sat_add_def sat_sub_def
      sat_mul_def check_and_consume_burst_def refilled_def get_burst_state_def min_def
      word_le_nat_alt word_less_nat_alt)

text \<open>
  C30. A fairness cap below 100 percent with an enforcement threshold of at most one, which
  \<open>validate_fairness_config\<close> admits, locks every attestor out for good: from a store without
  windows no request but the administrator's is ever accepted.
\<close>

theorem fairness_deadlock:
  assumes "max_share_percent fc < 100" and "min_total_for_enforcement fc \<le> 1"
    and "rl_fairness s = Some fc" and "rl_state s = Map.empty" and "rl_global s = None"
    and "admin \<noteq> Some a" and "sorted (map request_time rs)"
  shows "admitted (rl_admit admin role a) (s, au) rs = 0"
proof -
  have "deadlock_inv admin a fc 0 (s, au)"
    using assms by (simp add: deadlock_inv_def)
  moreover have "sorted (0 # map request_time rs)" using assms(7) by simp
  ultimately have "admitted (rl_admit admin role a) (s, au) rs \<le> 0 + 0 * (last (0 # map request_time rs) - 0)"
    by (rule deadlock.admitted_bound) (simp add: list_all_iff)
  then show ?thesis by simp
qed

theorem fairness_deadlock_witness:
  "validate_fairness_config \<lparr>max_share_percent = 50, min_total_for_enforcement = 1\<rparr> = Inr () \<and>
   admitted (rl_admit None (\<lambda>_. None) ''A'')
     (empty_rl_store\<lparr>rl_fairness := Some \<lparr>max_share_percent = 50, min_total_for_enforcement = 1\<rparr>\<rparr>,
      empty_audit_store)
     [(ledger_env 0 5 {}, ''A''), (ledger_env 0 900 {}, ''A'')] = 0"
  using fairness_deadlock [of "\<lparr>max_share_percent = 50, min_total_for_enforcement = 1\<rparr>"
      "empty_rl_store\<lparr>rl_fairness := Some \<lparr>max_share_percent = 50, min_total_for_enforcement = 1\<rparr>\<rparr>"
      None "''A''" "[(ledger_env 0 5 {}, ''A''), (ledger_env 0 900 {}, ''A'')]" "\<lambda>_. None"
      empty_audit_store]
  by (simp add: validate_fairness_config_def empty_rl_store_def ledger_env_def word_less_nat_alt)

end
