(* ===== verification/Deterministic_Hash.thy ===== *)
theory Deterministic_Hash
  imports Interfaces
begin

text \<open>
  \<^verbatim>\<open>src/deterministic_hash.rs\<close>: the byte strings that the crate feeds to SHA-256 for storage
  keys, attestation payload hashes and generic canonical hashes.  SHA-256 itself is the host's
  (a parameter of \<open>env\<close>), and so is the XDR encoding of an address (an argument \<open>to_xdr\<close>).
  What the code can guarantee, and what is proved here, is that different inputs are given to
  the hash: each encoding is injective.
\<close>

section \<open>Length-prefixed segments\<close>

definition MAX_PAYLOAD_SIZE :: nat where
  "MAX_PAYLOAD_SIZE = 4096"

definition ATTESTATION_PAYLOAD_DOMAIN :: bytes where
  "ATTESTATION_PAYLOAD_DOMAIN = ''anchorkit_attestation_v1''"

text \<open>\<open>write_length_prefixed\<close>: the length of a \<open>Bytes\<close> value is a \<open>u32\<close>.\<close>

definition write_length_prefixed :: "bytes \<Rightarrow> bytes \<Rightarrow> bytes" where
  "write_length_prefixed buf d = buf @ u32_be (of_nat (length d)) @ d"

text \<open>A segment short enough that its length is representable.\<close>

abbreviation short :: "bytes \<Rightarrow> bool" where
  "short d \<equiv> length d < 2 ^ 32"

lemma u32_of_nat_eq [simp]:
  "m < 4294967296 \<Longrightarrow> n < 4294967296 \<Longrightarrow> (word_of_nat m :: u32) = word_of_nat n \<longleftrightarrow> m = n"
  by (simp add: word_unat_eq_iff unat_of_nat)

lemma prefixed_inject:
  assumes "u32_be (of_nat (length a)) @ a @ x = u32_be (of_nat (length b)) @ b @ y"
    and "short a" and "short b"
  shows "a = b \<and> x = y"
proof -
  from assms(1) have "(of_nat (length a) :: u32) = of_nat (length b)" and eq: "a @ x = b @ y"
    by (simp_all add: append_eq_append_conv)
  then have "length a = length b"
    using assms(2,3) by (simp add: word_unat_eq_iff unat_of_nat)
  with eq show ?thesis by simp
qed

section \<open>Storage keys\<close>

text \<open>The loop of \<open>make_storage_key\<close>: one segment after the other; a segment whose length does
  not fit in a \<open>u32\<close> is refused.\<close>

definition append_part :: "bytes \<Rightarrow> bytes \<Rightarrow> trap + bytes" where
  "append_part input part =
     (if length part < 2 ^ 32
      then Inr (input @ u32_be (of_nat (length part)) @ part)
      else Inl (Panic ValidationError))"

definition storage_key_input :: "bytes list \<Rightarrow> trap + bytes" where
  "storage_key_input parts = list_bind append_part [] parts"

definition make_storage_key :: "env \<Rightarrow> bytes list \<Rightarrow> trap + bytes" where
  "make_storage_key e parts = bind_ok (storage_key_input parts) (\<lambda>input. Inr (sha256 e input))"

fun frames :: "bytes list \<Rightarrow> bytes" where
  "frames [] = []"
| "frames (p # ps) = u32_be (of_nat (length p)) @ p @ frames ps"

lemma list_bind_append_part:
  "list_bind append_part buf parts =
     (if list_all short parts then Inr (buf @ frames parts) else Inl (Panic ValidationError))"
  by (induction parts arbitrary: buf) (auto simp: append_part_def)

lemma storage_key_input_eq:
  "storage_key_input parts =
     (if list_all short parts then Inr (frames parts) else Inl (Panic ValidationError))"
  by (simp add: storage_key_input_def list_bind_append_part)

lemma u32_be_not_Nil [simp]: "u32_be n \<noteq> []" "[] \<noteq> u32_be n"
  using length_u32_be [of n] by (auto simp del: length_u32_be)

lemma frames_inject:
  "list_all short ps \<Longrightarrow> list_all short qs \<Longrightarrow> frames ps = frames qs \<Longrightarrow> ps = qs"
proof (induction ps arbitrary: qs)
  case Nil
  then show ?case by (cases qs) auto
next
  case (Cons p ps)
  show ?case
  proof (cases qs)
    case Nil
    with Cons.prems(3) show ?thesis by simp
  next
    case (Cons q qs')
    with Cons.prems have "p = q \<and> frames ps = frames qs'"
      by (intro prefixed_inject) auto
    with Cons.prems Cons.IH [of qs'] \<open>qs = q # qs'\<close> show ?thesis by simp
  qed
qed

text \<open>
  Distinct lists of segments are hashed from distinct byte strings, whatever the segments
  contain: the length prefixes keep segments from running into each other.  So two storage keys
  coincide only if SHA-256 collides.
\<close>

theorem storage_key_input_injective:
  assumes "storage_key_input ps = Inr x" and "storage_key_input qs = Inr x"
  shows "ps = qs"
  using assms by (auto simp: storage_key_input_eq ok_simps split: if_splits intro: frames_inject)

theorem storage_key_input_injective_witness:
  "storage_key_input [''AB'', ''C''] = storage_key_input [''AB'', ''C''] \<and> [''AB'', ''C''] = [''AB'', ''C'']"
proof -
  have "storage_key_input [''AB'', ''C''] = Inr (frames [''AB'', ''C''])"
    by (simp add: storage_key_input_eq)
  from storage_key_input_injective [OF this this] show ?thesis by simp
qed

section \<open>Attestation payload hashes\<close>

definition validate_payload_data :: "bytes \<Rightarrow> trap + unit" where
  "validate_payload_data d =
     (if length d = 0 \<or> length d > MAX_PAYLOAD_SIZE then Inl (Panic ValidationError) else Inr ())"

definition payload_hash_input :: "(address \<Rightarrow> bytes) \<Rightarrow> address \<Rightarrow> u64 \<Rightarrow> bytes \<Rightarrow> trap + bytes" where
  "payload_hash_input to_xdr subject ts d =
     bind_ok (validate_payload_data d) (\<lambda>_.
       Inr (ATTESTATION_PAYLOAD_DOMAIN @ to_xdr subject @ u64_be ts @ d))"

definition compute_payload_hash ::
    "env \<Rightarrow> (address \<Rightarrow> bytes) \<Rightarrow> address \<Rightarrow> u64 \<Rightarrow> bytes \<Rightarrow> trap + bytes" where
  "compute_payload_hash e to_xdr subject ts d =
     bind_ok (payload_hash_input to_xdr subject ts d) (\<lambda>input. Inr (sha256 e input))"

definition verify_payload_hash :: "bytes \<Rightarrow> bytes \<Rightarrow> bool" where
  "verify_payload_hash stored expected \<longleftrightarrow> stored = expected"

text \<open>
  XDR values are self-delimiting: an encoded address is never a proper prefix of another one's
  encoding, so what follows it does not matter.
\<close>

definition self_delimiting :: "(address \<Rightarrow> bytes) \<Rightarrow> bool" where
  "self_delimiting to_xdr \<longleftrightarrow>
     (\<forall>a b x y. to_xdr a @ x = to_xdr b @ y \<longrightarrow> a = b)"

lemma self_delimitingD:
  "self_delimiting to_xdr \<Longrightarrow> to_xdr a @ x = to_xdr b @ y \<Longrightarrow> a = b \<and> x = y"
  unfolding self_delimiting_def by (metis same_append_eq)

text \<open>
  The payload encoding is unambiguous: two attestation payloads feed the same bytes to the
  hash only if subject, timestamp and data all agree, although the data is not length-prefixed.
\<close>

theorem payload_hash_input_injective:
  assumes "self_delimiting to_xdr"
    and "payload_hash_input to_xdr s t d = Inr x" and "payload_hash_input to_xdr s' t' d' = Inr x"
  shows "s = s' \<and> t = t' \<and> d = d'"
proof -
  from assms(2,3) have "to_xdr s @ u64_be t @ d = to_xdr s' @ u64_be t' @ d'"
    by (auto simp: payload_hash_input_def ok_simps)
  from self_delimitingD [OF assms(1) this] show ?thesis
    by (auto simp: append_eq_append_conv)
qed

text \<open>A concrete self-delimiting encoding: every byte escaped, then a terminator.\<close>

definition escaped_xdr :: "address \<Rightarrow> bytes" where
  "escaped_xdr a = concat (map (\<lambda>c. [CHR ''x'', c]) a) @ ''.''"

lemma self_delimiting_escaped: "self_delimiting escaped_xdr"
  unfolding self_delimiting_def
proof (intro allI impI)
  fix a b x y
  show "escaped_xdr a @ x = escaped_xdr b @ y \<Longrightarrow> a = b"
  proof (induction a arbitrary: b)
    case Nil
    then show ?case by (cases b) (auto simp: escaped_xdr_def)
  next
    case (Cons c a)
    then show ?case by (cases b) (auto simp: escaped_xdr_def)
  qed
qed

theorem payload_hash_input_injective_witness:
  "\<exists>x. payload_hash_input escaped_xdr ''G'' 7 ''kyc'' = Inr x \<and> (7 :: u64) = 7"
proof -
  have ok: "payload_hash_input escaped_xdr ''G'' 7 ''kyc'' =
      Inr (ATTESTATION_PAYLOAD_DOMAIN @ escaped_xdr ''G'' @ u64_be 7 @ ''kyc'')"
    by (simp add: payload_hash_input_def validate_payload_data_def MAX_PAYLOAD_SIZE_def)
  with payload_hash_input_injective [OF self_delimiting_escaped ok ok] show ?thesis by blast
qed

section \<open>Canonical fields\<close>

datatype canonical_field =
    CBytes bytes
  | CU64 u64
  | CU32 u32
  | CBool bool
  | COption "bytes option"
  | CList "bytes list"

text \<open>The one-byte tags of \<open>CanonicalTag\<close>.\<close>

definition tag :: "nat \<Rightarrow> char" where
  "tag n = char_of n"

definition write_field :: "bytes \<Rightarrow> canonical_field \<Rightarrow> trap + bytes" where
  "write_field input field =
     (case field of
        CBytes d \<Rightarrow> Inr (write_length_prefixed (input @ [tag 0]) d)
      | CU64 v \<Rightarrow> Inr (write_length_prefixed (input @ [tag 1]) (u64_be v))
      | CU32 v \<Rightarrow> Inr (write_length_prefixed (input @ [tag 2]) (u32_be v))
      | CBool v \<Rightarrow> Inr (input @ [tag 3] @ u32_be 1 @ [if v then char_of (1::nat) else char_of (0::nat)])
      | COption None \<Rightarrow> Inr (input @ [tag 4])
      | COption (Some d) \<Rightarrow> Inr (write_length_prefixed (input @ [tag 5]) d)
      | CList items \<Rightarrow>
          if length items < 2 ^ 32
          then Inr (foldl write_length_prefixed (input @ [tag 6] @ u32_be (of_nat (length items))) items)
          else Inl (Panic ValidationError))"

definition canonical_input :: "canonical_field list \<Rightarrow> trap + bytes" where
  "canonical_input fs = list_bind write_field [] fs"

definition compute_canonical_hash :: "env \<Rightarrow> canonical_field list \<Rightarrow> trap + bytes" where
  "compute_canonical_hash e fs =
     bind_ok (canonical_input fs) (\<lambda>input. Inr (sha256 e input))"

text \<open>A \<open>Bytes\<close> value has a \<open>u32\<close> length; the elements of a list likewise.\<close>

fun field_ok :: "canonical_field \<Rightarrow> bool" where
  "field_ok (CBytes d) = short d"
| "field_ok (COption (Some d)) = short d"
| "field_ok (CList items) = list_all short items"
| "field_ok _ = True"

fun encode_field :: "canonical_field \<Rightarrow> bytes" where
  "encode_field (CBytes d) = tag 0 # u32_be (of_nat (length d)) @ d"
| "encode_field (CU64 v) = tag 1 # u32_be 8 @ u64_be v"
| "encode_field (CU32 v) = tag 2 # u32_be 4 @ u32_be v"
| "encode_field (CBool v) = tag 3 # u32_be 1 @ [if v then char_of (1::nat) else char_of (0::nat)]"
| "encode_field (COption None) = [tag 4]"
| "encode_field (COption (Some d)) = tag 5 # u32_be (of_nat (length d)) @ d"
| "encode_field (CList items) = tag 6 # u32_be (of_nat (length items)) @ frames items"

lemma foldl_prefixed: "foldl write_length_prefixed buf items = buf @ frames items"
  by (induction items arbitrary: buf) (simp_all add: write_length_prefixed_def)

lemma write_field_Inr:
  "write_field input f = Inr out \<longleftrightarrow>
     out = input @ encode_field f \<and> (case f of CList items \<Rightarrow> length items < 2 ^ 32 | _ \<Rightarrow> True)"
  by (cases f) (auto simp: write_field_def write_length_prefixed_def foldl_prefixed ok_simps
      split: option.splits)

lemma tag_eq [simp]: "m < 256 \<Longrightarrow> n < 256 \<Longrightarrow> tag m = tag n \<longleftrightarrow> m = n"
  unfolding tag_def
  by (metis mod_less of_char_of)

lemma frames_prefix_inject:
  "\<lbrakk>list_all short ps; list_all short qs; length ps = length qs; frames ps @ x = frames qs @ y\<rbrakk>
   \<Longrightarrow> ps = qs \<and> x = y"
proof (induction ps arbitrary: qs)
  case (Cons p ps)
  then obtain q qs' where qs: "qs = q # qs'" by (cases qs) auto
  with Cons.prems have "p = q \<and> frames ps @ x = frames qs' @ y"
    by (intro prefixed_inject) auto
  with Cons.prems Cons.IH [of qs'] qs show ?case by simp
qed simp

definition list_ok :: "canonical_field \<Rightarrow> bool" where
  "list_ok f = (case f of CList items \<Rightarrow> length items < 2 ^ 32 | _ \<Rightarrow> True)"

lemma list_ok_simps [simp]:
  "list_ok (CList items) \<longleftrightarrow> length items < 2 ^ 32"
  "list_ok (CBytes d)" "list_ok (CU64 v)" "list_ok (CU32 w)" "list_ok (CBool b)" "list_ok (COption x)"
  by (simp_all add: list_ok_def)

lemma encode_field_inject:
  assumes "encode_field f @ x = encode_field g @ y"
    and "field_ok f" "field_ok g" "list_ok f" "list_ok g"
  shows "f = g \<and> x = y"
  using assms
  by (cases f rule: encode_field.cases; cases g rule: encode_field.cases)
    (auto dest: frames_prefix_inject [simplified] simp: append_eq_append_conv split: if_splits)

lemma encode_field_not_Nil [simp]: "encode_field f \<noteq> []"
  by (cases f rule: encode_field.cases) simp_all

lemma list_bind_write_field:
  "list_bind write_field buf fs = Inr out \<longleftrightarrow>
     out = buf @ concat (map encode_field fs) \<and> list_all list_ok fs"
  by (induction fs arbitrary: buf) (auto simp: ok_simps write_field_Inr list_ok_def)

lemma encoded_fields_inject:
  "\<lbrakk>concat (map encode_field fs) = concat (map encode_field gs);
    list_all field_ok fs; list_all field_ok gs; list_all list_ok fs; list_all list_ok gs\<rbrakk> \<Longrightarrow> fs = gs"
proof (induction fs arbitrary: gs)
  case Nil
  then show ?case by (cases gs) auto
next
  case (Cons f fs)
  then obtain g gs' where gs: "gs = g # gs'" by (cases gs) auto
  with Cons.prems have "f = g \<and> concat (map encode_field fs) = concat (map encode_field gs')"
    by (intro encode_field_inject) auto
  with Cons gs show ?case by simp
qed

text \<open>
  C25. The canonical encoding separates every two field lists: kinds are tagged, contents are
  length-prefixed, \<open>None\<close> differs from \<open>Some\<close> of an empty value, and an empty list from a list of
  one empty element.
\<close>

theorem canonical_input_injective:
  assumes "canonical_input fs = Inr x" and "canonical_input gs = Inr x"
    and "list_all field_ok fs" and "list_all field_ok gs"
  shows "fs = gs"
  using assms encoded_fields_inject [of fs gs]
  by (simp add: canonical_input_def list_bind_write_field)

theorem canonical_input_injective_witness:
  "\<exists>x. canonical_input [COption None, CList [[]]] = Inr x \<and> [COption None, CList [[]]] = [COption None, CList [[]]]"
proof -
  have "canonical_input [COption None, CList [[]]] =
      Inr (concat (map encode_field [COption None, CList [[]]]))"
    by (simp only: canonical_input_def list_bind_write_field) simp
  from canonical_input_injective [OF this this] show ?thesis
    by (metis \<open>canonical_input [COption None, CList [[]]] = _\<close>)
qed

lemma canonical_head:
  "concat (map encode_field fs) = x # xs \<Longrightarrow> x \<in> tag ` {0..6}"
proof (cases fs)
  case (Cons f gs)
  then show "concat (map encode_field fs) = x # xs \<Longrightarrow> x \<in> tag ` {0..6}"
    by (cases f rule: encode_field.cases) auto
qed simp

lemma u32_be_head:
  assumes "n < 2 ^ 24"
  shows "hd (u32_be (of_nat n)) = char_of (0 :: nat)"
proof -
  have n: "unat (of_nat n :: u32) = n"
    using assms by (simp add: unat_of_nat)
  have "be_bytes (Suc (Suc (Suc (Suc 0)))) n =
      char_of (n div 256 div 256 div 256 mod 256) # tl (be_bytes (Suc (Suc (Suc (Suc 0)))) n)"
    by simp
  moreover have "n div 256 div 256 div 256 = n div 2 ^ 24"
    by (simp flip: div_mult2_eq)
  then have "n div 256 div 256 div 256 = 0"
    using assms by simp
  ultimately have "hd (be_bytes (Suc (Suc (Suc (Suc 0)))) n) = char_of (0 :: nat)"
    by (metis list.sel(1) mod_0)
  then show ?thesis
    unfolding u32_be_def n by (simp only: numeral_eq_Suc pred_numeral_simps BitM.simps)
qed

text \<open>
  The domain tag does what its comment says: no attestation payload is hashed from the same
  bytes as a storage key (whose first segment, the key's name, is shorter than 16 MB) or as a
  canonical hash.
\<close>

theorem payload_domain_separated:
  assumes "payload_hash_input to_xdr s t d = Inr x"
  shows "canonical_input fs \<noteq> Inr x \<and> (length p < 2 ^ 24 \<longrightarrow> storage_key_input (p # ps) \<noteq> Inr x)"
proof -
  from assms obtain r where x: "x = CHR ''a'' # r"
    by (auto simp: payload_hash_input_def ok_simps ATTESTATION_PAYLOAD_DOMAIN_def)
  have "CHR ''a'' \<notin> tag ` {0..6}"
  proof
    assume "CHR ''a'' \<in> tag ` {0..6}"
    then obtain n where "n \<le> 6" and eq: "CHR ''a'' = tag n" by auto
    have "(of_char (CHR ''a'') :: nat) = n mod 256"
      unfolding eq tag_def by (rule of_char_of)
    with \<open>n \<le> 6\<close> show False by simp
  qed
  then have "canonical_input fs \<noteq> Inr x"
    using canonical_head [OF sym] x by (auto simp: canonical_input_def list_bind_write_field)
  moreover have "storage_key_input (p # ps) \<noteq> Inr x" if "length p < 2 ^ 24"
  proof
    assume "storage_key_input (p # ps) = Inr x"
    then have "u32_be (of_nat (length p)) @ p @ frames ps = CHR ''a'' # r"
      using x by (auto simp: storage_key_input_eq split: if_splits)
    then have "hd (u32_be (of_nat (length p))) = CHR ''a''"
      by (metis hd_append2 list.sel(1) u32_be_not_Nil(1))
    moreover have "hd (u32_be (of_nat (length p))) = char_of (0 :: nat)"
      using that by (rule u32_be_head)
    ultimately have "(of_char (CHR ''a'') :: nat) = of_char (char_of (0 :: nat) :: char)" by simp
    then show False unfolding of_char_of by simp
  qed
  ultimately show ?thesis by blast
qed

theorem payload_domain_separated_witness:
  "\<exists>x. payload_hash_input escaped_xdr ''G'' 7 ''kyc'' = Inr x \<and> canonical_input [CU64 7] \<noteq> Inr x \<and>
     storage_key_input [''ADMIN''] \<noteq> Inr x"
proof -
  obtain x where ok: "payload_hash_input escaped_xdr ''G'' 7 ''kyc'' = Inr x"
    by (simp add: payload_hash_input_def validate_payload_data_def MAX_PAYLOAD_SIZE_def)
  have "length ''ADMIN'' < 2 ^ 24" by simp
  with ok payload_domain_separated [OF ok, of "[CU64 7]" "''ADMIN''" "[]"] show ?thesis by blast
qed

end
