(* ===== verification/Storage_Keys.thy ===== *)
theory Storage_Keys
  imports Deterministic_Hash
begin

text \<open>
  The keys under which the contract, the rate limiter, the replay metrics and the migration
  history, and the governance of the caches store their entries: every segment list that
  \<^verbatim>\<open>src/contract.rs\<close>, \<^verbatim>\<open>src/rate_limiter.rs\<close>, \<^verbatim>\<open>src/replay_detection.rs\<close>, \<^verbatim>\<open>src/migration.rs\<close>,
  \<^verbatim>\<open>src/cache_governance.rs\<close> and \<^verbatim>\<open>src/admin_audit_log.rs\<close> pass to \<open>make_storage_key\<close>.  Entries under
  a symbol or a tuple that starts with one are under a host value of another type, which cannot equal
  a hash of 32 bytes.  The model keeps the storage as
  typed maps, one per kind of key; the theorem of this theory is what justifies that: keys of
  different kinds, or of one kind with different arguments, never share a hash input.
\<close>

section \<open>Kinds of keys\<close>

datatype (plugins only: size) unit_key =
    K_ADMIN | K_PENDADMIN | K_INITIALIZED | K_VERSION | K_OLDHASH | K_SCHEMAVER | K_MIG_CNT
  | K_AUDITRET | K_ACNT | K_SCNT | K_QCNT | K_QIDX | K_ATIDX
  | K_RL_CONFIG | K_RL_BST_CFG | K_RL_FAIR_CFG | K_RL_GLOBAL
  | K_BLKIDX | K_CLUSTERLIST | K_REQIDCNT | K_ANCHLIST | K_REPWTS | K_TPOLCNT
  | K_ACTNET | K_DEFNET | K_CGOV_CFG | K_CGOV_POL | K_CGOV_CNT

datatype (plugins only: size) address_key =
    K_KYC | K_KYCDATA | K_COMPIDX | K_ANCHMETA | K_BLACKLIST | K_SEP10KEY | K_SEP10OLD
  | K_ATTESTOR | K_ATPUBKEY | K_SERVICES | K_LATESTQ | K_RL_STATE | K_RL_ADDR | K_RL_BST_ST
  | K_METAVCNT | K_REPREC | K_HLTHCNT | K_HLTHWIN | K_ANCHPOP

datatype (plugins only: size) id_key =
    K_ATTEST | K_SESS | K_SOPCNT | K_AUDIT | K_QANCH | K_TPOL | K_CGOV_PROP

datatype (plugins only: size) storage_key =
    UnitKey unit_key
  | AddressKey address_key address
  | IdKey id_key u64
  | MigRec u32
  | RlRole string
  | ReplayAttempt bytes
  | RoleSet u8 address
  | CapSet u8 address
  | Used address bytes
  | QuoteAt address u64
  | QuoteLife address u64
  | SessReq u64 bytes
  | SLog u64 u64
  | Comp address string
  | CompHCnt address string
  | CompHist address string u64
  | Cluster string
  | MetaHist address u32
  | NetProf bytes

section \<open>Their segments\<close>

primrec unit_tag :: "unit_key \<Rightarrow> bytes" where
  "unit_tag K_ADMIN = ''ADMIN''"
| "unit_tag K_PENDADMIN = ''PENDADMIN''"
| "unit_tag K_INITIALIZED = ''INITIALIZED''"
| "unit_tag K_VERSION = ''VERSION''"
| "unit_tag K_OLDHASH = ''OLDHASH''"
| "unit_tag K_SCHEMAVER = ''SCHEMAVER''"
| "unit_tag K_MIG_CNT = ''MIG_CNT''"
| "unit_tag K_AUDITRET = ''AUDITRET''"
| "unit_tag K_ACNT = ''ACNT''"
| "unit_tag K_SCNT = ''SCNT''"
| "unit_tag K_QCNT = ''QCNT''"
| "unit_tag K_QIDX = ''QIDX''"
| "unit_tag K_ATIDX = ''ATIDX''"
| "unit_tag K_RL_CONFIG = ''RL_CONFIG''"
| "unit_tag K_RL_BST_CFG = ''RL_BST_CFG''"
| "unit_tag K_RL_FAIR_CFG = ''RL_FAIR_CFG''"
| "unit_tag K_RL_GLOBAL = ''RL_GLOBAL''"
| "unit_tag K_BLKIDX = ''BLKIDX''"
| "unit_tag K_CLUSTERLIST = ''CLUSTERLIST''"
| "unit_tag K_REQIDCNT = ''REQIDCNT''"
| "unit_tag K_ANCHLIST = ''ANCHLIST''"
| "unit_tag K_REPWTS = ''REPWTS''"
| "unit_tag K_TPOLCNT = ''TPOLCNT''"
| "unit_tag K_ACTNET = ''ACTNET''"
| "unit_tag K_DEFNET = ''DEFNET''"
| "unit_tag K_CGOV_CFG = ''CGOV_CFG''"
| "unit_tag K_CGOV_POL = ''CGOV_POL''"
| "unit_tag K_CGOV_CNT = ''CGOV_CNT''"

primrec address_tag :: "address_key \<Rightarrow> bytes" where
  "address_tag K_KYC = ''KYC''"
| "address_tag K_KYCDATA = ''KYCDATA''"
| "address_tag K_COMPIDX = ''COMPIDX''"
| "address_tag K_ANCHMETA = ''ANCHMETA''"
| "address_tag K_BLACKLIST = ''BLACKLIST''"
| "address_tag K_SEP10KEY = ''SEP10KEY''"
| "address_tag K_SEP10OLD = ''SEP10OLD''"
| "address_tag K_ATTESTOR = ''ATTESTOR''"
| "address_tag K_ATPUBKEY = ''ATPUBKEY''"
| "address_tag K_SERVICES = ''SERVICES''"
| "address_tag K_LATESTQ = ''LATESTQ''"
| "address_tag K_RL_STATE = ''RL_STATE''"
| "address_tag K_RL_ADDR = ''RL_ADDR''"
| "address_tag K_RL_BST_ST = ''RL_BST_ST''"
| "address_tag K_METAVCNT = ''METAVCNT''"
| "address_tag K_REPREC = ''REPREC''"
| "address_tag K_HLTHCNT = ''HLTHCNT''"
| "address_tag K_HLTHWIN = ''HLTHWIN''"
| "address_tag K_ANCHPOP = ''ANCHPOP''"

primrec id_tag :: "id_key \<Rightarrow> bytes" where
  "id_tag K_ATTEST = ''ATTEST''"
| "id_tag K_SESS = ''SESS''"
| "id_tag K_SOPCNT = ''SOPCNT''"
| "id_tag K_AUDIT = ''AUDIT''"
| "id_tag K_QANCH = ''QANCH''"
| "id_tag K_TPOL = ''TPOL''"
| "id_tag K_CGOV_PROP = ''CGOV_PROP''"

text \<open>
  \<open>ax\<close> encodes an address and \<open>sx\<close> a string or symbol as XDR (host functions, arguments of the
  model); roles and capabilities are stored as one byte.
\<close>

primrec key_parts :: "(address \<Rightarrow> bytes) \<Rightarrow> (string \<Rightarrow> bytes) \<Rightarrow> storage_key \<Rightarrow> bytes list" where
  "key_parts ax sx (UnitKey k) = [unit_tag k]"
| "key_parts ax sx (AddressKey k a) = [address_tag k, ax a]"
| "key_parts ax sx (IdKey k i) = [id_tag k, u64_be i]"
| "key_parts ax sx (MigRec i) = [''MIG_REC'', u32_be i]"
| "key_parts ax sx (RlRole r) = [''RL_ROLE'', sx r]"
| "key_parts ax sx (ReplayAttempt h) = [''RPLYAT'', h]"
| "key_parts ax sx (RoleSet r a) = [''ROLESET'', [char_of (unat r)], ax a]"
| "key_parts ax sx (CapSet c a) = [''CAPSET'', [char_of (unat c)], ax a]"
| "key_parts ax sx (Used a h) = [''USED'', ax a, h]"
| "key_parts ax sx (QuoteAt a i) = [''QUOTE'', ax a, u64_be i]"
| "key_parts ax sx (QuoteLife a i) = [''QLIFE'', ax a, u64_be i]"
| "key_parts ax sx (SessReq i h) = [''SESSREQ'', u64_be i, h]"
| "key_parts ax sx (SLog i j) = [''SLOG'', u64_be i, u64_be j]"
| "key_parts ax sx (Comp a t) = [''COMP'', ax a, sx t]"
| "key_parts ax sx (CompHCnt a t) = [''COMPHCNT'', ax a, sx t]"
| "key_parts ax sx (CompHist a t i) = [''COMPHIST'', ax a, sx t, u64_be i]"
| "key_parts ax sx (Cluster c) = [''CLUSTER'', sx c]"
| "key_parts ax sx (MetaHist a v) = [''METAHIST'', ax a, u32_be v]"
| "key_parts ax sx (NetProf n) = [''NETPROF'', n]"

definition key_input :: "(address \<Rightarrow> bytes) \<Rightarrow> (string \<Rightarrow> bytes) \<Rightarrow> storage_key \<Rightarrow> trap + bytes" where
  "key_input ax sx k = storage_key_input (key_parts ax sx k)"

section \<open>Separation\<close>

lemma unit_tag_inject [simp]: "unit_tag a = unit_tag b \<longleftrightarrow> a = b"
  by (cases a; cases b) simp_all

lemma address_tag_inject [simp]: "address_tag a = address_tag b \<longleftrightarrow> a = b"
  by (cases a; cases b) simp_all

lemma id_tag_inject [simp]: "id_tag a = id_tag b \<longleftrightarrow> a = b"
  by (cases a; cases b) simp_all

lemma tags_distinct [simp]:
  "address_tag a \<noteq> id_tag i" "id_tag i \<noteq> address_tag a"
  "address_tag a \<noteq> ''MIG_REC''" "address_tag a \<noteq> ''RL_ROLE''" "address_tag a \<noteq> ''RPLYAT''"
  "address_tag a \<noteq> ''CLUSTER''" "address_tag a \<noteq> ''NETPROF''"
  "id_tag i \<noteq> ''MIG_REC''" "id_tag i \<noteq> ''RL_ROLE''" "id_tag i \<noteq> ''RPLYAT''"
  "id_tag i \<noteq> ''CLUSTER''" "id_tag i \<noteq> ''NETPROF''"
  by (cases a; cases i; simp)+

lemmas tags_distinct_sym [simp] = tags_distinct [symmetric]

lemma unat_mod_256_inject [simp]: "unat v mod 256 = unat w mod 256 \<longleftrightarrow> v = w" for v w :: u8
  using unat_lt_pow [of v] unat_lt_pow [of w] by (simp add: word_unat_eq_iff)

lemma key_parts_inject:
  assumes "inj ax" and "inj sx" and "key_parts ax sx k = key_parts ax sx l"
  shows "k = l"
proof -
  have ax: "ax a = ax b \<longleftrightarrow> a = b" and sx: "sx t = sx u \<longleftrightarrow> t = u" for a b t u
    using assms(1,2) by (simp_all add: inj_eq)
  show ?thesis
    using assms(3) by (cases k; cases l; simp add: ax sx)
qed

text \<open>
  C24. No two different storage keys of the contract (every kind of key it passes to
  \<open>make_storage_key\<close>) are hashed from the same bytes, provided XDR encodes different values differently: a role entry is never read as a capability, one
  address's entry never as another's, a quote never as its lifecycle state.
\<close>

theorem storage_keys_separated:
  assumes "inj ax" and "inj sx"
    and "key_input ax sx k = Inr x" and "key_input ax sx l = Inr x"
  shows "k = l"
proof -
  have "key_parts ax sx k = key_parts ax sx l"
    using assms(3,4) by (auto simp: key_input_def storage_key_input_eq split: if_splits
        intro: frames_inject)
  with assms(1,2) show ?thesis by (rule key_parts_inject)
qed

text \<open>A role and a capability of the same address under the same number.\<close>

theorem storage_keys_separated_witness:
  "\<exists>x y. key_input id id (RoleSet 1 ''G'') = Inr x \<and> key_input id id (CapSet 1 ''G'') = Inr y \<and> x \<noteq> y"
proof -
  obtain x y where ok: "key_input id id (RoleSet 1 ''G'') = Inr x" "key_input id id (CapSet 1 ''G'') = Inr y"
    by (simp add: key_input_def storage_key_input_eq)
  have "x \<noteq> y"
  proof
    assume "x = y"
    with storage_keys_separated [OF inj_on_id inj_on_id ok(1), of "CapSet 1 ''G''"] ok(2) show False by simp
  qed
  with ok show ?thesis by blast
qed

end
