(* ===== verification/Retry.thy ===== *)
theory Retry
  imports Errors
begin

text \<open>
  \<^verbatim>\<open>src/retry.rs\<close> and \<^verbatim>\<open>src/retry_budget.rs\<close>: the delays between the attempts of a request, the loop
  that retries it, and the budget that bounds the attempts of one logical request.  The operation,
  the sleep callback and the jitter source are arguments, as in the code; what they change is a state
  that the loops thread through.  \<open>retry_with_backoff\<close> is the release build: a configuration
  without attempts, which \<open>RetryConfig::new\<close> refuses, is asserted away in debug builds.
\<close>

unbundle bit_operations_syntax

section \<open>Configuration\<close>

datatype backoff_strategy = Exponential | Linear | Constant | NoRetry

datatype jitter_policy = FullJitter | EqualJitter | NoJitter

record retry_config =
  rc_max_attempts :: u32
  rc_base_delay_ms :: u64
  rc_max_delay_ms :: u64
  rc_backoff_multiplier :: u32
  rc_strategy :: backoff_strategy
  rc_jitter_policy :: jitter_policy

definition default_retry_config :: retry_config where
  "default_retry_config =
     \<lparr>rc_max_attempts = 3, rc_base_delay_ms = 100, rc_max_delay_ms = 5000, rc_backoff_multiplier = 2,
      rc_strategy = Exponential, rc_jitter_policy = FullJitter\<rparr>"

definition validate_retry :: "u32 \<Rightarrow> u32 \<Rightarrow> u64 \<Rightarrow> anchor_kit_error + unit" where
  "validate_retry max_attempts backoff_multiplier max_delay_ms =
     (if max_attempts = 0 then
        Inl (error_new ValidationError ''RetryConfig max_attempts must be at least 1'')
      else if backoff_multiplier = 0 then
        Inl (error_new ValidationError ''RetryConfig backoff_multiplier must be at least 1'')
      else if max_delay_ms = 0 then
        Inl (error_new ValidationError ''RetryConfig max_delay_ms must be at least 1'')
      else Inr ())"

definition retry_with_strategy ::
  "u32 \<Rightarrow> u64 \<Rightarrow> u64 \<Rightarrow> u32 \<Rightarrow> backoff_strategy \<Rightarrow> jitter_policy \<Rightarrow> anchor_kit_error + retry_config" where
  "retry_with_strategy max_attempts base_delay_ms max_delay_ms backoff_multiplier strategy jitter_policy =
     bind_ok (validate_retry max_attempts backoff_multiplier max_delay_ms) (\<lambda>_.
       Inr \<lparr>rc_max_attempts = max_attempts, rc_base_delay_ms = base_delay_ms,
            rc_max_delay_ms = max_delay_ms, rc_backoff_multiplier = backoff_multiplier,
            rc_strategy = strategy, rc_jitter_policy = jitter_policy\<rparr>)"

definition retry_config_new :: "u32 \<Rightarrow> u64 \<Rightarrow> u64 \<Rightarrow> u32 \<Rightarrow> anchor_kit_error + retry_config" where
  "retry_config_new max_attempts base_delay_ms max_delay_ms backoff_multiplier =
     bind_ok (validate_retry max_attempts backoff_multiplier max_delay_ms) (\<lambda>_.
       Inr \<lparr>rc_max_attempts = max_attempts, rc_base_delay_ms = base_delay_ms,
            rc_max_delay_ms = max_delay_ms, rc_backoff_multiplier = backoff_multiplier,
            rc_strategy = Exponential, rc_jitter_policy = FullJitter\<rparr>)"

definition aggressive :: retry_config where
  "aggressive =
     \<lparr>rc_max_attempts = 5, rc_base_delay_ms = 50, rc_max_delay_ms = 2000, rc_backoff_multiplier = 2,
      rc_strategy = Exponential, rc_jitter_policy = FullJitter\<rparr>"

definition conservative :: retry_config where
  "conservative =
     \<lparr>rc_max_attempts = 2, rc_base_delay_ms = 500, rc_max_delay_ms = 10000, rc_backoff_multiplier = 2,
      rc_strategy = Exponential, rc_jitter_policy = FullJitter\<rparr>"

definition linear_retry :: retry_config where
  "linear_retry =
     \<lparr>rc_max_attempts = 6, rc_base_delay_ms = 100, rc_max_delay_ms = 5000, rc_backoff_multiplier = 2,
      rc_strategy = Linear, rc_jitter_policy = FullJitter\<rparr>"

definition constant_retry :: retry_config where
  "constant_retry =
     \<lparr>rc_max_attempts = 5, rc_base_delay_ms = 500, rc_max_delay_ms = 500, rc_backoff_multiplier = 1,
      rc_strategy = Constant, rc_jitter_policy = NoJitter\<rparr>"

definition with_backoff_strategy :: "backoff_strategy \<Rightarrow> retry_config \<Rightarrow> retry_config" where
  "with_backoff_strategy strategy c = c\<lparr>rc_strategy := strategy\<rparr>"

definition with_jitter_policy :: "jitter_policy \<Rightarrow> retry_config \<Rightarrow> retry_config" where
  "with_jitter_policy jp c = c\<lparr>rc_jitter_policy := jp\<rparr>"

section \<open>Delays\<close>

definition saturating_pow :: "u64 \<Rightarrow> nat \<Rightarrow> u64" where
  "saturating_pow a n = (if unat a ^ n < 2 ^ 64 then a ^ n else word_top)"

definition base_delay_for_attempt :: "retry_config \<Rightarrow> u32 \<Rightarrow> u64" where
  "base_delay_for_attempt c attempt =
     (case rc_strategy c of
        Exponential \<Rightarrow>
          let exp = saturating_pow (ucast (rc_backoff_multiplier c)) (unat attempt)
          in min (sat_mul (rc_base_delay_ms c) exp) (rc_max_delay_ms c)
      | Linear \<Rightarrow>
          let factor = sat_add (ucast attempt) 1
          in min (sat_mul (rc_base_delay_ms c) factor) (rc_max_delay_ms c)
      | Constant \<Rightarrow> min (rc_base_delay_ms c) (rc_max_delay_ms c)
      | NoRetry \<Rightarrow> 0)"

text \<open>A jitter source is a function that draws a seed and leaves the source changed.\<close>

type_synonym 'j jitter_source = "'j \<Rightarrow> u64 \<times> 'j"

definition delay_for_attempt :: "'j jitter_source \<Rightarrow> retry_config \<Rightarrow> u32 \<Rightarrow> 'j \<Rightarrow> u64 \<times> 'j" where
  "delay_for_attempt next_seed c attempt j =
     (let base = base_delay_for_attempt c attempt
      in case rc_jitter_policy c of
        FullJitter \<Rightarrow>
          let jitter_bound = rc_base_delay_ms c div 2 + 1;
              (jitter, j1) = (if jitter_bound = 0 then (0, j)
                              else let (seed, j1) = next_seed j in (seed mod jitter_bound, j1))
          in (min (sat_add base jitter) (rc_max_delay_ms c), j1)
      | EqualJitter \<Rightarrow>
          let half = base div 2;
              jitter_bound = (if half = 0 then 1 else half);
              (seed1, j1) = next_seed j;
              offset = seed1 mod jitter_bound;
              (seed2, j2) = next_seed j1
          in if seed2 mod 2 = 0
             then (min (sat_add base offset) (rc_max_delay_ms c), j2)
             else (max (sat_sub base offset) (min (rc_base_delay_ms c) base), j2)
      | NoJitter \<Rightarrow> (min base (rc_max_delay_ms c), j))"

record ledger_jitter_source =
  lj_sequence :: u32
  lj_timestamp :: u64
  lj_counter :: u64

definition ledger_jitter_new :: "u32 \<Rightarrow> u64 \<Rightarrow> ledger_jitter_source" where
  "ledger_jitter_new seq now = \<lparr>lj_sequence = seq, lj_timestamp = now, lj_counter = 0\<rparr>"

definition ledger_next_seed :: "ledger_jitter_source jitter_source" where
  "ledger_next_seed j =
     (ucast (lj_sequence j) XOR lj_timestamp j XOR lj_counter j, j\<lparr>lj_counter := lj_counter j + 1\<rparr>)"

record mock_jitter_source =
  mj_seeds :: "u64 list"
  mj_index :: nat

definition mock_next_seed :: "mock_jitter_source jitter_source" where
  "mock_next_seed j =
     (if mj_seeds j = [] then (0, j)
      else (mj_seeds j ! (mj_index j mod length (mj_seeds j)), j\<lparr>mj_index := mj_index j + 1\<rparr>))"

definition is_retryable :: "error_code \<Rightarrow> bool" where
  "is_retryable code \<longleftrightarrow>
     code \<in> {AttestationNotFound, StaleQuote, NoQuotesAvailable, CacheExpired, CacheNotFound}"

section \<open>The retry loop\<close>

text \<open>
  The \<open>for\<close> loop over the attempts.  Its answer is \<open>None\<close> where the code says \<open>unreachable!\<close>, that
  is when the loop ends without a return and no error was kept.
\<close>

fun retry_loop ::
  "'j jitter_source \<Rightarrow> retry_config \<Rightarrow> (u32 \<Rightarrow> 's \<Rightarrow> ('e + 'a) \<times> 's) \<Rightarrow> ('e \<Rightarrow> bool) \<Rightarrow> (u64 \<Rightarrow> 's \<Rightarrow> 's) \<Rightarrow>
   'e option \<Rightarrow> u32 list \<Rightarrow> 's \<Rightarrow> 'j \<Rightarrow> ('e + 'a) option \<times> 's \<times> 'j" where
  "retry_loop ns c f retryable sleep last_err [] s j = (map_option Inl last_err, s, j)"
| "retry_loop ns c f retryable sleep last_err (attempt # rest) s j =
     (case f attempt s of
        (Inr v, s1) \<Rightarrow> (Some (Inr v), s1, j)
      | (Inl e, s1) \<Rightarrow>
          if \<not> retryable e \<or> rc_max_attempts c \<le> attempt + 1 then (Some (Inl e), s1, j)
          else let (delay, j1) = delay_for_attempt ns c attempt j
               in retry_loop ns c f retryable sleep (Some e) rest (sleep delay s1) j1)"

definition attempts_below :: "u32 \<Rightarrow> u32 list" where
  "attempts_below n = map of_nat [0..<unat n]"

definition retry_with_backoff ::
  "'j jitter_source \<Rightarrow> retry_config \<Rightarrow> (u32 \<Rightarrow> 's \<Rightarrow> ('e + 'a) \<times> 's) \<Rightarrow> ('e \<Rightarrow> bool) \<Rightarrow> (u64 \<Rightarrow> 's \<Rightarrow> 's) \<Rightarrow>
   's \<Rightarrow> 'j \<Rightarrow> ('e + 'a) option \<times> 's \<times> 'j" where
  "retry_with_backoff ns c f retryable sleep s j =
     (if rc_max_attempts c = 0 then let (r, s1) = f 0 s in (Some r, s1, j)
      else retry_loop ns c f retryable sleep None (attempts_below (rc_max_attempts c)) s j)"

section \<open>Budgets\<close>

record budget_exhausted_error =
  be_request_id :: string
  be_max_attempts :: u32

record retry_budget =
  rb_request_id :: string
  rb_max_attempts :: u32
  rb_consumed :: u32

definition budget_new :: "string \<Rightarrow> u32 \<Rightarrow> retry_budget" where
  "budget_new request_id max_attempts =
     \<lparr>rb_request_id = request_id, rb_max_attempts = max max_attempts 1, rb_consumed = 0\<rparr>"

definition budget_remaining :: "retry_budget \<Rightarrow> u32" where
  "budget_remaining b = sat_sub (rb_max_attempts b) (rb_consumed b)"

definition is_exhausted :: "retry_budget \<Rightarrow> bool" where
  "is_exhausted b \<longleftrightarrow> rb_max_attempts b \<le> rb_consumed b"

definition consume :: "retry_budget \<Rightarrow> (budget_exhausted_error + u32) \<times> retry_budget" where
  "consume b =
     (if is_exhausted b then
        (Inl \<lparr>be_request_id = rb_request_id b, be_max_attempts = rb_max_attempts b\<rparr>, b)
      else (Inr (rb_consumed b), b\<lparr>rb_consumed := rb_consumed b + 1\<rparr>))"

definition budget_reset :: "retry_budget \<Rightarrow> retry_budget" where
  "budget_reset b = b\<lparr>rb_consumed := 0\<rparr>"

lemma unat_plus_1: "a < b \<Longrightarrow> unat (a + 1) = unat a + 1" for a b :: "'a::len word"
proof -
  assume "a < b"
  then have "Suc (unat a) < 2 ^ LENGTH('a)"
    using unat_lt_pow [of b] unfolding word_less_nat_alt by linarith
  then show ?thesis by (simp add: unat_word_ariths)
qed

lemma consume_measure:
  assumes "consume b = (Inr i, b1)"
  shows "unat (rb_max_attempts b1) - unat (rb_consumed b1) < unat (rb_max_attempts b) - unat (rb_consumed b)"
proof -
  from assms have lt: "rb_consumed b < rb_max_attempts b"
    and b1: "b1 = b\<lparr>rb_consumed := rb_consumed b + 1\<rparr>"
    by (auto simp: consume_def is_exhausted_def split: if_splits)
  have "unat (rb_consumed b + 1) = unat (rb_consumed b) + 1"
    by (rule unat_plus_1 [OF lt])
  with lt show ?thesis by (simp add: b1 word_less_nat_alt)
qed

function execute_with_budget ::
  "(u32 \<Rightarrow> 's \<Rightarrow> ('e + 'a) \<times> 's) \<Rightarrow> ('e \<Rightarrow> bool) \<Rightarrow> (u64 \<Rightarrow> 's \<Rightarrow> 's) \<Rightarrow> (budget_exhausted_error \<Rightarrow> 'e) \<Rightarrow>
   (u32 \<Rightarrow> u64) \<Rightarrow> retry_budget \<Rightarrow> 's \<Rightarrow> ('e + 'a) \<times> 's \<times> retry_budget" where
  "execute_with_budget f retryable sleep on_exhausted delay b s =
     (case consume b of
        (Inl exhausted, b1) \<Rightarrow> (Inl (on_exhausted exhausted), s, b1)
      | (Inr attempt, b1) \<Rightarrow>
          (case f attempt s of
             (Inr v, s1) \<Rightarrow> (Inr v, s1, b1)
           | (Inl e, s1) \<Rightarrow>
               if \<not> retryable e \<or> is_exhausted b1 then (Inl e, s1, b1)
               else execute_with_budget f retryable sleep on_exhausted delay b1 (sleep (delay attempt) s1)))"
  by pat_completeness auto

termination
  by (relation "measure (\<lambda>(f, r, sl, oe, d, b, s). unat (rb_max_attempts b) - unat (rb_consumed b))")
    (simp, simp only: in_measure case_prod_conv, metis consume_measure)

declare execute_with_budget.simps [simp del]

type_synonym retry_budget_config = u32

definition budget_for :: "retry_budget_config \<Rightarrow> string \<Rightarrow> retry_budget" where
  "budget_for ceiling request_id = budget_new request_id ceiling"

section \<open>Bounds of the delays\<close>

lemma base_delay_le_max: "base_delay_for_attempt c a \<le> rc_max_delay_ms c"
  by (simp add: base_delay_for_attempt_def Let_def split: backoff_strategy.split)

lemma delay_le_max:
  assumes "delay_for_attempt ns c a j = (d, j1)"
  shows "d \<le> rc_max_delay_ms c"
proof (cases "rc_jitter_policy c")
  case EqualJitter
  define base where "base = base_delay_for_attempt c a"
  have "max (sat_sub base x) (min (rc_base_delay_ms c) base) \<le> rc_max_delay_ms c" for x
    using base_delay_le_max [of c a] sat_sub_le [of base x] unfolding base_def [symmetric]
    by (meson max.boundedI min.coboundedI2 order_trans)
  with assms EqualJitter show ?thesis
    by (auto simp: delay_for_attempt_def Let_def base_def base_delay_le_max split: prod.splits if_splits)
qed (use assms in \<open>auto simp: delay_for_attempt_def Let_def split: prod.splits if_splits\<close>)

lemma unat_saturating_pow: "unat (saturating_pow a n) = min (unat a ^ n) (2 ^ 64 - 1)"
proof (cases "unat a ^ n < 2 ^ 64")
  case True
  have "unat (a ^ n) = unat a ^ n mod 2 ^ 64"
    by (induction n) (simp_all add: unat_word_ariths mod_mult_right_eq)
  with True show ?thesis by (simp add: saturating_pow_def)
next
  case False
  then show ?thesis by (simp add: saturating_pow_def unat_word_top)
qed

lemma unat_min: "unat (min a b) = min (unat a) (unat b)" for a b :: "'a::len word"
  by (simp add: min_def word_le_nat_alt)

lemma unat_max: "unat (max a b) = max (unat a) (unat b)" for a b :: "'a::len word"
  by (simp add: max_def word_le_nat_alt)

lemma min_saturated:
  assumes "(b :: nat) < B"
  shows "min (min (x * min p (B - 1)) (B - 1)) b = min (x * p) b"
proof (cases "x = 0 \<or> p \<le> B - 1")
  case False
  then have "x * (B - 1) \<ge> B - 1" "x * p \<ge> B - 1"
    by (cases x; simp)+
  then have "b \<le> x * (B - 1)" "b \<le> x * p" "b \<le> B - 1" using assms by linarith+
  with False show ?thesis by (simp add: min_def)
qed (use assms in \<open>auto simp: min_def\<close>)

lemma exponential_base_delay:
  assumes "rc_strategy c = Exponential"
  shows "unat (base_delay_for_attempt c a) =
    min (unat (rc_base_delay_ms c) * unat (rc_backoff_multiplier c) ^ unat a) (unat (rc_max_delay_ms c))"
proof -
  have "unat (ucast (rc_backoff_multiplier c) :: u64) = unat (rc_backoff_multiplier c)"
    by (simp add: unsigned_ucast_eq take_bit_nat_eq_self order_less_le_trans [OF unat_lt_pow])
  then show ?thesis
    using min_saturated [of "unat (rc_max_delay_ms c)" "2 ^ 64" "unat (rc_base_delay_ms c)"]
      unat_lt_pow [of "rc_max_delay_ms c"]
    by (simp add: assms base_delay_for_attempt_def unat_min unat_sat_mul unat_saturating_pow)
qed

lemma linear_base_delay:
  assumes "rc_strategy c = Linear"
  shows "unat (base_delay_for_attempt c a) =
    min (unat (rc_base_delay_ms c) * (unat a + 1)) (unat (rc_max_delay_ms c))"
proof -
  have "unat (ucast a :: u64) = unat a" by (simp add: unsigned_ucast_eq take_bit_nat_eq_self order_less_le_trans [OF unat_lt_pow])
  then show ?thesis
    using min_saturated [of "unat (rc_max_delay_ms c)" "2 ^ 64" "unat (rc_base_delay_ms c)" "unat a + 1"]
      unat_lt_pow [of "rc_max_delay_ms c"]
    by (simp add: assms base_delay_for_attempt_def unat_min unat_sat_mul unat_sat_add)
qed

text \<open>
  The delays in unbounded arithmetic, as the documentation gives them: the base delay of each
  strategy, what each jitter policy does with the seeds it draws, and the delays of \<open>n\<close> attempts
  from number \<open>k\<close> on, with the source they leave.
\<close>

definition exact_base :: "retry_config \<Rightarrow> nat \<Rightarrow> nat" where
  "exact_base c k =
     (case rc_strategy c of
        Exponential \<Rightarrow> min (unat (rc_base_delay_ms c) * unat (rc_backoff_multiplier c) ^ k) (unat (rc_max_delay_ms c))
      | Linear \<Rightarrow> min (unat (rc_base_delay_ms c) * (k + 1)) (unat (rc_max_delay_ms c))
      | Constant \<Rightarrow> min (unat (rc_base_delay_ms c)) (unat (rc_max_delay_ms c))
      | NoRetry \<Rightarrow> 0)"

definition exact_delay :: "'j jitter_source \<Rightarrow> retry_config \<Rightarrow> nat \<Rightarrow> 'j \<Rightarrow> nat \<times> 'j" where
  "exact_delay ns c k j =
     (let b = exact_base c k; base = unat (rc_base_delay_ms c); top = unat (rc_max_delay_ms c)
      in case rc_jitter_policy c of
        NoJitter \<Rightarrow> (b, j)
      | FullJitter \<Rightarrow> (min (b + unat (fst (ns j)) mod (base div 2 + 1)) top, snd (ns j))
      | EqualJitter \<Rightarrow>
          let offset = unat (fst (ns j)) mod max 1 (b div 2)
          in (if even (unat (fst (ns (snd (ns j))))) then min (b + offset) top else max (b - offset) (min base b),
              snd (ns (snd (ns j)))))"

fun exact_delays :: "'j jitter_source \<Rightarrow> retry_config \<Rightarrow> nat \<Rightarrow> nat \<Rightarrow> 'j \<Rightarrow> nat list \<times> 'j" where
  "exact_delays ns c k 0 j = ([], j)"
| "exact_delays ns c k (Suc n) j =
     (let (d, j1) = exact_delay ns c k j; (ds, j2) = exact_delays ns c (Suc k) n j1 in (d # ds, j2))"

lemma base_delay_exact: "unat (base_delay_for_attempt c a) = exact_base c (unat a)"
proof (cases "rc_strategy c")
  case Exponential
  then show ?thesis by (simp add: exponential_base_delay exact_base_def)
next
  case Linear
  then show ?thesis by (simp add: linear_base_delay exact_base_def)
qed (simp_all add: base_delay_for_attempt_def exact_base_def unat_min)

lemma min_sat_add: "unat (min (sat_add a b) m) = min (unat a + unat b) (unat m)" for a b m :: u64
proof -
  have "unat (min (sat_add a b) m) = min (min (unat a + unat b) (2 ^ 64 - 1)) (unat m)"
    by (simp only: unat_min unat_sat_add) simp
  moreover have "unat m \<le> 2 ^ 64 - 1" using unat_lt_pow [of m] by simp
  ultimately show ?thesis by simp
qed

lemma delay_exact:
  assumes "delay_for_attempt ns c a j = (d, j1)"
  shows "exact_delay ns c (unat a) j = (unat d, j1)"
proof -
  let ?b = "base_delay_for_attempt c a" and ?top = "rc_max_delay_ms c"
  note b = base_delay_exact [of c a, symmetric]
  have le: "unat ?b \<le> unat ?top" using base_delay_le_max by (simp add: word_le_nat_alt)
  show ?thesis
  proof (cases "rc_jitter_policy c")
    case NoJitter
    with assms le show ?thesis by (auto simp: delay_for_attempt_def exact_delay_def b unat_min Let_def)
  next
    case FullJitter
    have div: "unat (rc_base_delay_ms c div 2) = unat (rc_base_delay_ms c) div 2" by (simp add: unat_div)
    have fits: "unat (rc_base_delay_ms c) div 2 + 1 < 2 ^ 64" using unat_lt_pow [of "rc_base_delay_ms c"] by simp
    have bound: "unat (rc_base_delay_ms c div 2 + 1) = unat (rc_base_delay_ms c) div 2 + 1"
      using fits by (simp add: unat_word_ariths div)
    then have "rc_base_delay_ms c div 2 + 1 \<noteq> 0" by (metis add_is_0 one_neq_zero unat_0)
    with assms FullJitter show ?thesis
      by (auto simp: delay_for_attempt_def exact_delay_def b min_sat_add unat_mod bound Let_def split: prod.splits)
  next
    case EqualJitter
    have half: "unat (if ?b div 2 = 0 then 1 else ?b div 2) = max 1 (unat ?b div 2)"
      by (auto simp: unat_div max_def word_unat_eq_iff)
    have parity: "s mod 2 = 0 \<longleftrightarrow> even (unat s)" for s :: u64
      by (simp add: word_unat_eq_iff unat_mod even_iff_mod_2_eq_zero)
    have sub: "unat (sat_sub x y) = unat x - unat y" for x y :: u64 by (simp add: unat_sat_sub)
    define jb where "jb = (if ?b div 2 = 0 then 1 else ?b div 2)"
    obtain s1 j2 s2 j3 where seeds: "ns j = (s1, j2)" "ns j2 = (s2, j3)" by (meson surj_pair)
    have "delay_for_attempt ns c a j = (if s2 mod 2 = 0 then (min (sat_add ?b (s1 mod jb)) ?top, j3)
        else (max (sat_sub ?b (s1 mod jb)) (min (rc_base_delay_ms c) ?b), j3))"
      by (simp add: delay_for_attempt_def EqualJitter Let_def seeds jb_def)
    then have run: "(if even (unat s2) then (min (sat_add ?b (s1 mod jb)) ?top, j3)
        else (max (sat_sub ?b (s1 mod jb)) (min (rc_base_delay_ms c) ?b), j3)) = (d, j1)"
      using assms by (simp only: parity)
    have spec: "exact_delay ns c (unat a) j =
        (if even (unat s2) then min (unat ?b + unat s1 mod max 1 (unat ?b div 2)) (unat ?top)
         else max (unat ?b - unat s1 mod max 1 (unat ?b div 2)) (min (unat (rc_base_delay_ms c)) (unat ?b)), j3)"
      unfolding exact_delay_def EqualJitter jitter_policy.case Let_def seeds fst_conv snd_conv b ..
    have up: "unat (min (sat_add ?b (s1 mod jb)) ?top) =
        min (unat ?b + unat s1 mod max 1 (unat ?b div 2)) (unat ?top)"
      by (simp only: min_sat_add unat_mod half [folded jb_def])
    have down: "unat (max (sat_sub ?b (s1 mod jb)) (min (rc_base_delay_ms c) ?b)) =
        max (unat ?b - unat s1 mod max 1 (unat ?b div 2)) (min (unat (rc_base_delay_ms c)) (unat ?b))"
      by (simp only: sub unat_max unat_min unat_mod half [folded jb_def])
    show ?thesis
      unfolding spec up [symmetric] down [symmetric] using run by (simp only: prod.inject simp_thms split: if_splits)
  qed
qed

section \<open>What the retry loop does\<close>

text \<open>
  The operation and the sleep callback with a log: the attempts made with their results, and the
  delays slept.
\<close>

fun retry_logged :: "(u32 \<Rightarrow> 's \<Rightarrow> 'r \<times> 's) \<Rightarrow> u32 \<Rightarrow> 's \<times> (u32 \<times> 'r) list \<times> u64 list \<Rightarrow>
    'r \<times> ('s \<times> (u32 \<times> 'r) list \<times> u64 list)" where
  "retry_logged f a (s, log, ds) = (let (r, s1) = f a s in (r, (s1, log @ [(a, r)], ds)))"

fun slept :: "(u64 \<Rightarrow> 's \<Rightarrow> 's) \<Rightarrow> u64 \<Rightarrow> 's \<times> 'l \<times> u64 list \<Rightarrow> 's \<times> 'l \<times> u64 list" where
  "slept sleep d (s, log, ds) = (sleep d s, log, ds @ [d])"

definition stops :: "('e \<Rightarrow> bool) \<Rightarrow> 'e + 'a \<Rightarrow> bool" where
  "stops retryable r = (case r of Inr _ \<Rightarrow> True | Inl e \<Rightarrow> \<not> retryable e)"

text \<open>
  A run of attempts from number \<open>k\<close> on: they are numbered in order, all but the last failed with a
  retryable error, the last one stops the loop or is the last allowed, and between two attempts
  there is one delay within the maximum.
\<close>

definition retry_run ::
  "retry_config \<Rightarrow> ('e \<Rightarrow> bool) \<Rightarrow> nat \<Rightarrow> (u32 \<times> ('e + 'a)) list \<Rightarrow> u64 list \<Rightarrow> bool" where
  "retry_run c retryable k entries ds \<longleftrightarrow>
     entries \<noteq> [] \<and> map fst entries = map of_nat [k..<k + length entries] \<and>
     k + length entries \<le> unat (rc_max_attempts c) \<and>
     list_all (\<lambda>(a, r). \<not> stops retryable r) (butlast entries) \<and>
     (k + length entries = unat (rc_max_attempts c) \<or> stops retryable (snd (last entries))) \<and>
     length ds = length entries - 1 \<and> list_all (\<lambda>d. d \<le> rc_max_delay_ms c) ds"

lemma retry_run_single:
  assumes "k < unat (rc_max_attempts c)" and "stops retryable r \<or> Suc k = unat (rc_max_attempts c)"
  shows "retry_run c retryable k [(of_nat k, r)] []"
  using assms by (auto simp: retry_run_def)

lemma retry_run_Cons:
  assumes "retry_run c retryable (Suc k) entries ds" and "\<not> stops retryable r" and "d \<le> rc_max_delay_ms c"
  shows "retry_run c retryable k ((of_nat k, r) # entries) (d # ds)"
proof -
  have "[k..<k + Suc (length entries)] = k # [Suc k..<Suc k + length entries]"
    by (subst upt_rec) simp
  with assms show ?thesis by (auto simp: retry_run_def)
qed

lemma last_attempt_iff:
  assumes "k < unat (n :: u32)"
  shows "n \<le> of_nat k + 1 \<longleftrightarrow> Suc k = unat n"
proof -
  have eq: "of_nat k + 1 = (of_nat (Suc k) :: u32)" by simp
  have "unat (of_nat k + 1 :: u32) = Suc k"
    unfolding eq using assms unat_lt_pow [of n]
    by (simp add: unsigned_of_nat take_bit_nat_eq_self del: of_nat_Suc)
  then show ?thesis using assms by (auto simp: word_le_nat_alt simp del: of_nat_Suc)
qed

lemma retry_loop_run:
  assumes "k < unat (rc_max_attempts c)"
  shows "\<exists>r s1 entries nds j1.
    retry_loop ns c (retry_logged f) retryable (slept sleep) le (map of_nat [k..<unat (rc_max_attempts c)])
      (s, log, ds) j = (Some r, (s1, log @ entries, ds @ nds), j1) \<and>
    retry_loop ns c f retryable sleep le (map of_nat [k..<unat (rc_max_attempts c)]) s j = (Some r, s1, j1) \<and>
    retry_run c retryable k entries nds \<and> r = snd (last entries) \<and>
    exact_delays ns c k (length entries - 1) j = (map unat nds, j1)"
  using assms
proof (induction "unat (rc_max_attempts c) - k" arbitrary: k s log ds le j)
  case (Suc m)
  let ?n = "unat (rc_max_attempts c)"
  have upt: "map of_nat [k..<?n] = (of_nat k :: u32) # map of_nat [Suc k..<?n]"
    using Suc.prems by (simp add: upt_conv_Cons)
  obtain r s1 where r: "f (of_nat k) s = (r, s1)" by fastforce
  show ?case
  proof (cases "stops retryable r \<or> Suc k = ?n")
    case True
    then have "retry_loop ns c (retry_logged f) retryable (slept sleep) le (map of_nat [k..<?n]) (s, log, ds) j
        = (Some r, (s1, log @ [(of_nat k, r)], ds @ []), j)"
      "retry_loop ns c f retryable sleep le (map of_nat [k..<?n]) s j = (Some r, s1, j)"
      using Suc.prems by (cases r; simp add: upt r stops_def last_attempt_iff)+
    with retry_run_single [OF Suc.prems True] show ?thesis by force
  next
    case False
    obtain e where e: "r = Inl e" "retryable e" using False by (cases r) (auto simp: stops_def)
    obtain d j1 where d: "delay_for_attempt ns c (of_nat k) j = (d, j1)" by fastforce
    let ?log = "log @ [(of_nat k, r)]"
    have step: "retry_loop ns c (retry_logged f) retryable (slept sleep) le (map of_nat [k..<?n]) (s, log, ds) j
        = retry_loop ns c (retry_logged f) retryable (slept sleep) (Some e) (map of_nat [Suc k..<?n])
            (sleep d s1, ?log, ds @ [d]) j1"
      "retry_loop ns c f retryable sleep le (map of_nat [k..<?n]) s j
        = retry_loop ns c f retryable sleep (Some e) (map of_nat [Suc k..<?n]) (sleep d s1) j1"
      using False Suc.prems by (simp_all add: upt r e d last_attempt_iff)
    have "m = ?n - Suc k" "Suc k < ?n" using Suc.hyps(2) Suc.prems False by auto
    from Suc.hyps(1) [OF this, of "Some e" "sleep d s1" ?log "ds @ [d]" j1]
    obtain x s2 entries nds j2 where rec:
      "retry_loop ns c (retry_logged f) retryable (slept sleep) (Some e) (map of_nat [Suc k..<?n])
         (sleep d s1, ?log, ds @ [d]) j1 = (Some x, (s2, ?log @ entries, (ds @ [d]) @ nds), j2)"
      "retry_loop ns c f retryable sleep (Some e) (map of_nat [Suc k..<?n]) (sleep d s1) j1 = (Some x, s2, j2)"
      "retry_run c retryable (Suc k) entries nds" "x = snd (last entries)"
      "exact_delays ns c (Suc k) (length entries - 1) j1 = (map unat nds, j2)" by blast
    moreover from rec have "retry_run c retryable k ((of_nat k, r) # entries) (d # nds)"
      using False delay_le_max [OF d] by (simp add: retry_run_Cons)
    moreover have "exact_delays ns c k (length ((of_nat k, r) # entries) - 1) j = (map unat (d # nds), j2)"
    proof -
      have k: "unat (of_nat k :: u32) = k"
        using Suc.prems unat_lt_pow [of "rc_max_attempts c"] by (simp add: unsigned_of_nat take_bit_nat_eq_self)
      obtain n where n: "length entries = Suc n" using rec(3) by (cases entries) (auto simp: retry_run_def)
      show ?thesis using rec(5) delay_exact [OF d] by (simp add: k n)
    qed
    ultimately show ?thesis unfolding step
      by (intro exI [of _ x] exI [of _ s2] exI [of _ "(of_nat k, r) # entries"] exI [of _ "d # nds"]
            exI [of _ j2]) (auto simp: retry_run_def)
  qed
qed simp

lemma retry_with_backoff_run:
  assumes "rc_max_attempts c \<noteq> 0"
  shows "\<exists>r s1 entries ds j1.
    retry_with_backoff ns c (retry_logged f) retryable (slept sleep) (s, [], []) j = (Some r, (s1, entries, ds), j1) \<and>
    retry_with_backoff ns c f retryable sleep s j = (Some r, s1, j1) \<and>
    retry_run c retryable 0 entries ds \<and> r = snd (last entries) \<and>
    exact_delays ns c 0 (length entries - 1) j = (map unat ds, j1)"
proof -
  have "0 < unat (rc_max_attempts c)" using assms by (simp add: unat_gt_0)
  from retry_loop_run [OF this, of ns f retryable sleep None s "[]" "[]" j] show ?thesis
    unfolding retry_with_backoff_def attempts_below_def if_not_P [OF assms] append_Nil .
qed

lemma failing_loop:
  assumes "\<And>a s. \<exists>e. fst (f a s) = Inl e"
    and "retry_loop ns c f retryable sleep le as s j = (Some r, s1, j1)"
  shows "\<exists>e. r = Inl e"
  using assms(2)
proof (induction as arbitrary: le s j)
  case (Cons a as)
  obtain e s2 where "f a s = (Inl e, s2)" using assms(1) [of a s] by (cases "f a s") auto
  with Cons show ?case by (auto split: if_splits prod.splits)
qed auto

text \<open>
  C34. A request retried with a validated configuration always gets an answer (the \<open>unreachable!\<close> is
  never reached).  It is the answer of its last attempt; the attempts are numbered in order from 0
  and at most as many as configured; each attempt before the last failed with a retryable error; the
  last one succeeded, failed for good, or was the last allowed.  Between two attempts exactly one
  delay is slept, and it is the exact one: the base delay of the strategy in unbounded arithmetic
  (growing with the power of the multiplier, linearly, or constant, cut at the maximum), moved by the
  jitter policy with the seeds drawn in order from the source.  The strategy \<open>NoRetry\<close> is no
  exception: the documentation says that it attempts the operation once, but the loop does not look
  at the strategy, makes as many attempts as configured, and uses the base delay 0.
\<close>

theorem retry_runs:
  assumes "rc_max_attempts c \<noteq> 0"
  shows "\<exists>r s1 entries ds j1.
    retry_with_backoff ns c (retry_logged f) retryable (slept sleep) (s, [], []) j = (Some r, (s1, entries, ds), j1) \<and>
    retry_with_backoff ns c f retryable sleep s j = (Some r, s1, j1) \<and>
    retry_run c retryable 0 entries ds \<and> r = snd (last entries) \<and>
    exact_delays ns c 0 (length entries - 1) j = (map unat ds, j1)"
  using assms by (rule retry_with_backoff_run)

text \<open>An operation that fails once and then succeeds, and one that always fails.\<close>

definition flaky :: "u32 \<Rightarrow> unit \<Rightarrow> (string + u32) \<times> unit" where
  "flaky a s = (if a < 1 then Inl ''transient'' else Inr 42, s)"

lemma sample_attempts: "attempts_below 5 = [0, 1, 2, 3, 4]" "\<not> (5 :: u32) \<le> 1"
  by code_simp+

theorem retry_runs_witness:
  "\<exists>s1 entries ds.
     retry_with_backoff mock_next_seed constant_retry (retry_logged flaky) (\<lambda>_. True) (slept (\<lambda>_ s. s)) ((), [], [])
       \<lparr>mj_seeds = [], mj_index = 0\<rparr> = (Some (Inr 42), (s1, entries, ds), \<lparr>mj_seeds = [], mj_index = 0\<rparr>) \<and>
     retry_run constant_retry (\<lambda>_. True) 0 entries ds \<and> map unat ds = [500]"
proof -
  have m: "rc_max_attempts constant_retry \<noteq> 0" by (simp add: constant_retry_def)
  have run: "retry_with_backoff mock_next_seed constant_retry (retry_logged flaky) (\<lambda>_. True) (slept (\<lambda>_ s. s)) ((), [], [])
      \<lparr>mj_seeds = [], mj_index = 0\<rparr> =
      (Some (Inr 42), ((), [(0, Inl ''transient''), (1, Inr 42)], [500]), \<lparr>mj_seeds = [], mj_index = 0\<rparr>)"
    by (simp add: retry_with_backoff_def sample_attempts flaky_def constant_retry_def delay_for_attempt_def
        base_delay_for_attempt_def)
  from retry_runs [OF m, where ns = mock_next_seed and f = flaky and retryable = "\<lambda>_. True" and
      sleep = "\<lambda>_ s. s" and s = "()" and j = "\<lparr>mj_seeds = [], mj_index = 0\<rparr>"] run
  show ?thesis by auto
qed

text \<open>
  The strategy \<open>NoRetry\<close>, documented as a single attempt, only makes the base delays 0: a request
  that keeps failing is made as often as configured.
\<close>

lemma no_retry_is_retried:
  fixes e :: 'e
  assumes "rc_max_attempts c \<noteq> 0"
  shows "\<exists>r s1 entries ds j1.
    retry_with_backoff ns (with_backoff_strategy NoRetry c) (retry_logged (\<lambda>a s. (Inl e :: 'e + unit, s))) (\<lambda>_. True) (slept (\<lambda>_ s. s))
      (s, [], []) j = (r, (s1, entries, ds), j1) \<and>
    length entries = unat (rc_max_attempts c)"
proof -
  let ?c = "with_backoff_strategy NoRetry c"
  let ?f = "\<lambda>a s. (Inl e :: 'e + unit, s)"
  have c: "rc_max_attempts ?c = rc_max_attempts c" by (simp add: with_backoff_strategy_def)
  have "rc_max_attempts ?c \<noteq> 0" using assms by (simp add: c)
  from retry_with_backoff_run [OF this, of ns ?f "\<lambda>_. True" "\<lambda>_ s. s" s j]
  obtain r s1 entries ds j1 where run:
    "retry_with_backoff ns ?c (retry_logged ?f) (\<lambda>_. True) (slept (\<lambda>_ s. s)) (s, [], []) j = (Some r, (s1, entries, ds), j1)"
    "retry_with_backoff ns ?c ?f (\<lambda>_. True) (\<lambda>_ s. s) s j = (Some r, s1, j1)"
    "retry_run ?c (\<lambda>_. True) 0 entries ds" "r = snd (last entries)"
    by blast
  from run(2) have "\<exists>e'. r = Inl e'"
    using failing_loop [of ?f] by (auto simp: retry_with_backoff_def c assms)
  then have "\<not> stops (\<lambda>_. True) (snd (last entries))" using run(4) by (auto simp: stops_def)
  with run show ?thesis by (auto simp: retry_run_def c)
qed

section \<open>What a budget allows\<close>

lemma consume_at:
  assumes "k < unat m"
  shows "consume \<lparr>rb_request_id = rid, rb_max_attempts = m, rb_consumed = of_nat k\<rparr> =
    (Inr (of_nat k), \<lparr>rb_request_id = rid, rb_max_attempts = m, rb_consumed = of_nat (Suc k)\<rparr>)"
proof -
  have "unat (of_nat k :: u32) = k"
    using assms unat_lt_pow [of m] by (simp add: unsigned_of_nat take_bit_nat_eq_self)
  then show ?thesis using assms by (simp add: consume_def is_exhausted_def word_le_nat_alt add.commute)
qed

lemma budget_loop:
  assumes "k < unat (rc_max_attempts c)" and "rc_jitter_policy c = NoJitter"
  shows "retry_loop ns c f retryable sleep le (map of_nat [k..<unat (rc_max_attempts c)]) s j =
    (case execute_with_budget f retryable sleep oe (base_delay_for_attempt c)
        \<lparr>rb_request_id = rid, rb_max_attempts = rc_max_attempts c, rb_consumed = of_nat k\<rparr> s
     of (r, s1, b1) \<Rightarrow> (Some r, s1, j))"
  using assms
proof (induction "unat (rc_max_attempts c) - k" arbitrary: k s le)
  case (Suc m)
  let ?n = "unat (rc_max_attempts c)"
  have upt: "map of_nat [k..<?n] = (of_nat k :: u32) # map of_nat [Suc k..<?n]"
    using Suc.prems by (simp add: upt_conv_Cons)
  have exh: "is_exhausted \<lparr>rb_request_id = rid, rb_max_attempts = rc_max_attempts c, rb_consumed = of_nat (Suc k)\<rparr>
      \<longleftrightarrow> rc_max_attempts c \<le> of_nat k + 1"
    by (simp add: is_exhausted_def add.commute)
  have delay: "delay_for_attempt ns c a j = (base_delay_for_attempt c a, j)" for a
    using Suc.prems(2) base_delay_le_max [of c a] by (simp add: delay_for_attempt_def min_absorb1)
  obtain r s1 where r: "f (of_nat k) s = (r, s1)" by fastforce
  note unfold_once = execute_with_budget.simps [of f retryable sleep oe "base_delay_for_attempt c"
      "\<lparr>rb_request_id = rid, rb_max_attempts = rc_max_attempts c, rb_consumed = of_nat k\<rparr>" s]
  show ?case
  proof (cases "stops retryable r \<or> Suc k = ?n")
    case True
    with Suc.prems show ?thesis
      by (cases r) (auto simp: unfold_once upt r stops_def is_exhausted_def last_attempt_iff consume_at simp del: of_nat_Suc)
  next
    case False
    then have "m = ?n - Suc k" "Suc k < ?n" using Suc.hyps(2) Suc.prems by auto
    from Suc.hyps(1) [OF this Suc.prems(2)] False Suc.prems show ?thesis
      by (cases r) (auto simp: unfold_once upt r stops_def exh last_attempt_iff consume_at delay simp del: of_nat_Suc)
  qed
qed simp

text \<open>
  A fresh budget with the delays of a configuration without jitter makes the same attempts,
  sleeps the same and answers the same as \<open>retry_with_backoff\<close> with that configuration, and no
  jitter is drawn: the two loops of the crate are one.
\<close>

theorem budget_loop_equivalent:
  assumes "rc_max_attempts c \<noteq> 0" and "rc_jitter_policy c = NoJitter"
  shows "retry_with_backoff ns c f retryable sleep s j =
    (case execute_with_budget f retryable sleep on_exhausted (base_delay_for_attempt c)
        (budget_new rid (rc_max_attempts c)) s
     of (r, s1, b1) \<Rightarrow> (Some r, s1, j))"
proof -
  have pos: "0 < unat (rc_max_attempts c)" using assms(1) by (simp add: unat_gt_0)
  then have "max (rc_max_attempts c) 1 = rc_max_attempts c"
    by (intro max_absorb1) (simp add: word_le_nat_alt)
  with pos show ?thesis
    using budget_loop [OF _ assms(2), of 0 ns f retryable sleep None s j on_exhausted rid] assms(1)
    by (simp add: retry_with_backoff_def attempts_below_def budget_new_def)
qed

theorem budget_loop_equivalent_witness:
  "rc_max_attempts constant_retry \<noteq> 0 \<and> rc_jitter_policy constant_retry = NoJitter \<and>
   retry_with_backoff mock_next_seed constant_retry flaky (\<lambda>_. True) (\<lambda>_ s. s) () j =
    (case execute_with_budget flaky (\<lambda>_. True) (\<lambda>_ s. s) (\<lambda>_. ''exhausted'') (base_delay_for_attempt constant_retry)
        (budget_new ''r1'' (rc_max_attempts constant_retry)) ()
     of (r, s1, b1) \<Rightarrow> (Some r, s1, j))"
proof -
  have c: "rc_max_attempts constant_retry \<noteq> 0" "rc_jitter_policy constant_retry = NoJitter"
    by (simp_all add: constant_retry_def)
  show ?thesis by (intro conjI c budget_loop_equivalent [OF c])
qed

text \<open>One request against a budget: each call spends one attempt, and never more than are left.\<close>

definition budget_ok :: "retry_budget \<Rightarrow> bool" where
  "budget_ok b \<longleftrightarrow> rb_consumed b \<le> rb_max_attempts b"

lemma consume_cases:
  assumes "budget_ok b" and "consume b = (x, b1)"
  obtains "is_exhausted b" "b1 = b" "\<exists>e. x = Inl e"
    | "\<not> is_exhausted b" "x = Inr (rb_consumed b)" "budget_ok b1" "rb_max_attempts b1 = rb_max_attempts b"
      "unat (rb_consumed b1) = unat (rb_consumed b) + 1"
proof (cases "is_exhausted b")
  case True
  with assms(2) show ?thesis by (intro that(1)) (auto simp: consume_def)
next
  case False
  then have lt: "rb_consumed b < rb_max_attempts b" by (simp add: is_exhausted_def)
  from unat_plus_1 [OF lt] lt have "unat (rb_consumed b + 1) \<le> unat (rb_max_attempts b)"
    by (simp add: word_less_nat_alt)
  with False assms(2) unat_plus_1 [OF lt] show ?thesis
    by (intro that(2)) (auto simp: consume_def budget_ok_def word_le_nat_alt)
qed

lemma budget_spent:
  assumes "budget_ok b"
    and "execute_with_budget (retry_logged f) retryable (slept sleep) oe delay b (s, log, ds) = (x, (s1, log1, ds1), b1)"
  shows "budget_ok b1 \<and> rb_max_attempts b1 = rb_max_attempts b \<and>
    length log1 + unat (rb_consumed b) = length log + unat (rb_consumed b1) \<and>
    (is_exhausted b \<longrightarrow> log1 = log \<and> (\<exists>e. x = Inl e))"
  using assms
proof (induction "unat (rb_max_attempts b) - unat (rb_consumed b)" arbitrary: b s log ds rule: less_induct)
  case less
  obtain y b2 where con: "consume b = (y, b2)" by fastforce
  note unfold_once = execute_with_budget.simps [of "retry_logged f" retryable "slept sleep" oe delay b "(s, log, ds)"]
  from less.prems(1) con show ?case
  proof (cases rule: consume_cases)
    case 1
    with less.prems con show ?thesis by (auto simp: unfold_once)
  next
    case 2
    obtain r s2 where r: "f (rb_consumed b) s = (r, s2)" by fastforce
    show ?thesis
    proof (cases "stops retryable r \<or> is_exhausted b2")
      case True
      with less.prems(2) 2 have "log1 = log @ [(rb_consumed b, r)]" "b1 = b2"
        by (cases r; auto simp: unfold_once con r stops_def split: if_splits)+
      with 2 show ?thesis by simp
    next
      case False
      obtain e where e: "r = Inl e" using False by (cases r) (auto simp: stops_def)
      have rec: "execute_with_budget (retry_logged f) retryable (slept sleep) oe delay b2
          (sleep (delay (rb_consumed b)) s2, log @ [(rb_consumed b, r)], ds @ [delay (rb_consumed b)])
          = (x, (s1, log1, ds1), b1)"
        using less.prems(2) 2 False by (auto simp: unfold_once con r e stops_def)
      have "unat (rb_max_attempts b2) - unat (rb_consumed b2) < unat (rb_max_attempts b) - unat (rb_consumed b)"
        using consume_measure con 2(2) by simp
      from less.hyps [OF this 2(3) rec] 2 show ?thesis by simp
    qed
  qed
qed

text \<open>Several requests, one after the other, against one budget.\<close>

fun run_requests ::
  "('e \<Rightarrow> bool) \<Rightarrow> (u64 \<Rightarrow> 's \<Rightarrow> 's) \<Rightarrow> (budget_exhausted_error \<Rightarrow> 'e) \<Rightarrow> (u32 \<Rightarrow> u64) \<Rightarrow>
   (u32 \<Rightarrow> 's \<Rightarrow> ('e + 'a) \<times> 's) list \<Rightarrow> retry_budget \<Rightarrow> 's \<times> (u32 \<times> ('e + 'a)) list \<times> u64 list \<Rightarrow>
   ('s \<times> (u32 \<times> ('e + 'a)) list \<times> u64 list) \<times> retry_budget" where
  "run_requests retryable sleep oe delay [] b st = (st, b)"
| "run_requests retryable sleep oe delay (f # fs) b st =
     (case execute_with_budget (retry_logged f) retryable (slept sleep) oe delay b st of
        (_, st1, b1) \<Rightarrow> run_requests retryable sleep oe delay fs b1 st1)"

lemma run_requests_spent:
  assumes "budget_ok b" and "run_requests retryable sleep oe delay fs b (s, log, ds) = ((s1, log1, ds1), b1)"
  shows "budget_ok b1 \<and> rb_max_attempts b1 = rb_max_attempts b \<and>
    length log1 + unat (rb_consumed b) = length log + unat (rb_consumed b1)"
  using assms
proof (induction fs arbitrary: b s log ds)
  case (Cons f fs)
  obtain x s2 log2 ds2 b2 where
    first: "execute_with_budget (retry_logged f) retryable (slept sleep) oe delay b (s, log, ds) = (x, (s2, log2, ds2), b2)"
    by (metis prod_cases3)
  from budget_spent [OF Cons.prems(1) first] Cons.IH [of b2 s2 log2 ds2] Cons.prems(2) first
  show ?case by simp
qed simp

text \<open>
  C35. However many requests share a budget and whatever they answer, the operations are called
  at most \<open>max_attempts\<close> times in all (once for a maximum of 0), the attempts that are left are
  exactly those not made, and a request that starts with a spent budget is refused without a call.
\<close>

theorem budget_caps_attempts:
  assumes "run_requests retryable sleep on_exhausted delay fs (budget_new rid m) (s, [], []) = ((s1, log, ds), b)"
  shows "length log \<le> max (unat m) 1 \<and> unat (budget_remaining b) = max (unat m) 1 - length log \<and>
    (is_exhausted b \<longrightarrow>
      execute_with_budget (retry_logged f) retryable (slept sleep) on_exhausted delay b (s1, log, ds) =
      (Inl (on_exhausted \<lparr>be_request_id = rb_request_id b, be_max_attempts = rb_max_attempts b\<rparr>), (s1, log, ds), b))"
proof -
  have "budget_ok (budget_new rid m)" by (simp add: budget_ok_def budget_new_def)
  from run_requests_spent [OF this assms]
  have "length log = unat (rb_consumed b)" "unat (rb_consumed b) \<le> max (unat m) 1" "rb_max_attempts b = max m 1"
    using unat_max [of m 1] by (auto simp: budget_new_def budget_ok_def word_le_nat_alt)
  moreover have "execute_with_budget (retry_logged f) retryable (slept sleep) on_exhausted delay b (s1, log, ds) =
      (Inl (on_exhausted \<lparr>be_request_id = rb_request_id b, be_max_attempts = rb_max_attempts b\<rparr>), (s1, log, ds), b)"
    if "is_exhausted b"
    using that by (subst execute_with_budget.simps) (simp add: consume_def)
  ultimately show ?thesis by (simp add: budget_remaining_def unat_simps unat_max)
qed

lemma sample_requests:
  "run_requests (\<lambda>_. True) (\<lambda>_ s. s) (\<lambda>_. ''exhausted'') (\<lambda>_. 100) [flaky, flaky] (budget_new ''r1'' 3) ((), [], []) =
    (((), [(0, Inl ''transient''), (1, Inr 42), (2, Inr 42)], [100]),
     \<lparr>rb_request_id = ''r1'', rb_max_attempts = 3, rb_consumed = 3\<rparr>)"
  by code_simp

theorem budget_caps_attempts_witness:
  "execute_with_budget (retry_logged flaky) (\<lambda>_. True) (slept (\<lambda>_ s. s)) (\<lambda>_. ''exhausted'') (\<lambda>_. 100)
     \<lparr>rb_request_id = ''r1'', rb_max_attempts = 3, rb_consumed = 3\<rparr>
     ((), [(0, Inl ''transient''), (1, Inr 42), (2, Inr 42)], [100]) =
   (Inl ''exhausted'', ((), [(0, Inl ''transient''), (1, Inr 42), (2, Inr 42)], [100]),
    \<lparr>rb_request_id = ''r1'', rb_max_attempts = 3, rb_consumed = 3\<rparr>)"
  using budget_caps_attempts [OF sample_requests, of flaky] by (simp add: is_exhausted_def)

end
