(* ===== verification/Structured_Log.thy ===== *)
theory Structured_Log
  imports Errors Ascii_Text
begin

text \<open>
  \<^verbatim>\<open>src/structured_log.rs\<close>: log records, their serialisation as JSON lines, and the bounded
  in-memory logger.  Besides the code this theory has a reader for the lines, written from the JSON
  grammar, against which the serialisation is verified.
\<close>

section \<open>Records\<close>

datatype log_level = Debug | Info | Warn | ErrorLevel

definition level_number :: "log_level \<Rightarrow> nat" where
  "level_number l = (case l of Debug \<Rightarrow> 0 | Info \<Rightarrow> 1 | Warn \<Rightarrow> 2 | ErrorLevel \<Rightarrow> 3)"

instantiation log_level :: linorder
begin

definition less_eq_log_level :: "log_level \<Rightarrow> log_level \<Rightarrow> bool" where
  "less_eq_log_level a b \<longleftrightarrow> level_number a \<le> level_number b"

definition less_log_level :: "log_level \<Rightarrow> log_level \<Rightarrow> bool" where
  "less_log_level a b \<longleftrightarrow> level_number a < level_number b"

instance
  by standard (auto simp: less_eq_log_level_def less_log_level_def level_number_def split: log_level.splits)

end

definition level_as_str :: "log_level \<Rightarrow> string" where
  "level_as_str l = (case l of Debug \<Rightarrow> ''debug'' | Info \<Rightarrow> ''info'' | Warn \<Rightarrow> ''warn'' | ErrorLevel \<Rightarrow> ''error'')"

datatype field_value = FStr string | FU64 u64 | FI64 "64 word" | FBool bool

record log_record =
  lr_timestamp :: u64
  lr_seq :: u64
  lr_level :: log_level
  lr_event :: string
  lr_fields :: "(string \<times> field_value) list"

section \<open>JSON strings\<close>

definition hex_digit :: "nat \<Rightarrow> char" where
  "hex_digit n = char_of (if n < 10 then 48 + n else 87 + n)"

definition quote_char :: char where "quote_char = CHR 0x22"
definition backslash :: char where "backslash = CHR 0x5C"

definition escape_char :: "char \<Rightarrow> string" where
  "escape_char c =
     (if c = quote_char then [backslash, quote_char]
      else if c = backslash then [backslash, backslash]
      else if c = CHR 0x0A then [backslash, CHR ''n'']
      else if c = CHR 0x0D then [backslash, CHR ''r'']
      else if c = CHR 0x09 then [backslash, CHR ''t'']
      else if code_of c < 32 then
        [backslash, CHR ''u'', CHR ''0'', CHR ''0'', hex_digit (code_of c div 16), hex_digit (code_of c mod 16)]
      else [c])"

definition write_json_string :: "string \<Rightarrow> string" where
  "write_json_string s = quote_char # concat (map escape_char s) @ [quote_char]"

section \<open>JSON lines\<close>

definition write_i64 :: "64 word \<Rightarrow> string" where
  "write_i64 w = (if sint w < 0 then CHR ''-'' # decimal (nat (- sint w)) else decimal (nat (sint w)))"

definition write_value :: "field_value \<Rightarrow> string" where
  "write_value v =
     (case v of
        FStr s \<Rightarrow> write_json_string s
      | FU64 n \<Rightarrow> decimal (unat n)
      | FI64 n \<Rightarrow> write_i64 n
      | FBool b \<Rightarrow> if b then ''true'' else ''false'')"

definition write_field_pair :: "string \<times> field_value \<Rightarrow> string" where
  "write_field_pair kv = write_json_string (fst kv) @ CHR '':'' # write_value (snd kv)"

definition to_json_line :: "log_record \<Rightarrow> string" where
  "to_json_line r =
     CHR 0x7B # quote_char # ''ts'' @ quote_char # CHR '':'' # decimal (unat (lr_timestamp r)) @
     CHR '','' # quote_char # ''seq'' @ quote_char # CHR '':'' # decimal (unat (lr_seq r)) @
     CHR '','' # quote_char # ''level'' @ quote_char # CHR '':'' # quote_char # level_as_str (lr_level r) @ quote_char #
     CHR '','' # quote_char # ''event'' @ quote_char # CHR '':'' # write_json_string (lr_event r) @
     CHR '','' # quote_char # ''fields'' @ quote_char # CHR '':'' # CHR 0x7B #
     join_on (CHR '','') (map write_field_pair (lr_fields r)) @ [CHR 0x7D, CHR 0x7D]"

definition record_field :: "log_record \<Rightarrow> string \<Rightarrow> field_value option" where
  "record_field r key = map_option snd (find (\<lambda>kv. fst kv = key) (lr_fields r))"

section \<open>The logger\<close>

definition DEFAULT_LOG_CAPACITY :: nat where "DEFAULT_LOG_CAPACITY = 1024"
definition MAX_LOG_ATTRIBUTES :: nat where "MAX_LOG_ATTRIBUTES = 16"

record structured_logger =
  sl_min_level :: log_level
  sl_capacity :: nat
  sl_seq :: u64
  sl_dropped :: u64
  sl_buffer :: "log_record list"

definition logger_new :: structured_logger where
  "logger_new = \<lparr>sl_min_level = Info, sl_capacity = DEFAULT_LOG_CAPACITY, sl_seq = 0, sl_dropped = 0, sl_buffer = []\<rparr>"

definition with_min_level :: "log_level \<Rightarrow> structured_logger \<Rightarrow> structured_logger" where
  "with_min_level level lg = lg\<lparr>sl_min_level := level\<rparr>"

definition with_log_capacity :: "nat \<Rightarrow> structured_logger \<Rightarrow> structured_logger" where
  "with_log_capacity capacity lg = lg\<lparr>sl_capacity := capacity\<rparr>"

definition log_entry ::
  "log_level \<Rightarrow> string \<Rightarrow> u64 \<Rightarrow> (string \<times> field_value) list \<Rightarrow> structured_logger \<Rightarrow> trap + (bool \<times> structured_logger)" where
  "log_entry level event now attrs lg =
     (if level < sl_min_level lg \<or> trim_text event = [] then Inr (False, lg)
      else bind_ok (plus_trap (sl_seq lg) 1) (\<lambda>next_seq.
        let r = \<lparr>lr_timestamp = now, lr_seq = sl_seq lg, lr_level = level, lr_event = event,
                 lr_fields = take MAX_LOG_ATTRIBUTES attrs\<rparr>;
            lg1 = lg\<lparr>sl_seq := next_seq\<rparr>
        in if 0 < sl_capacity lg1 \<and> sl_capacity lg1 \<le> length (sl_buffer lg1) then
             bind_ok (plus_trap (sl_dropped lg1) 1) (\<lambda>dropped.
               Inr (True, lg1\<lparr>sl_buffer := tl (sl_buffer lg1) @ [r], sl_dropped := dropped\<rparr>))
           else Inr (True, lg1\<lparr>sl_buffer := sl_buffer lg1 @ [r]\<rparr>)))"

definition json_lines :: "structured_logger \<Rightarrow> string list" where
  "json_lines lg = map to_json_line (sl_buffer lg)"

definition drain_json_lines :: "structured_logger \<Rightarrow> string list \<times> structured_logger" where
  "drain_json_lines lg = (map to_json_line (sl_buffer lg), lg\<lparr>sl_buffer := []\<rparr>)"

definition clear_log :: "structured_logger \<Rightarrow> structured_logger" where
  "clear_log lg = lg\<lparr>sl_buffer := []\<rparr>"

text \<open>The operation \<open>submit\<close> works on a state of its own; \<open>show_error\<close> is its error's \<open>Debug\<close>.\<close>

definition log_attestor_registration ::
  "('e \<Rightarrow> string) \<Rightarrow> u64 \<Rightarrow> string \<Rightarrow> string \<Rightarrow> ('s \<Rightarrow> ('e + 'a) \<times> 's) \<Rightarrow> structured_logger \<Rightarrow> 's \<Rightarrow>
   trap + (('e + 'a) \<times> structured_logger \<times> 's)" where
  "log_attestor_registration show_error now attestor sep10_issuer submit lg s =
     bind_ok (log_entry Info ''attestor.registration_started'' now
       [(''attestor'', FStr attestor), (''sep10_issuer'', FStr sep10_issuer)] lg) (\<lambda>(_, lg1).
     case submit s of
       (Inr v, s1) \<Rightarrow>
         bind_ok (log_entry Info ''attestor.registration_succeeded'' now [(''attestor'', FStr attestor)] lg1)
           (\<lambda>(_, lg2). Inr (Inr v, lg2, s1))
     | (Inl e, s1) \<Rightarrow>
         bind_ok (log_entry ErrorLevel ''attestor.registration_failed'' now
           [(''attestor'', FStr attestor), (''error'', FStr (show_error e))] lg1)
           (\<lambda>(_, lg2). Inr (Inl e, lg2, s1)))"

section \<open>A reader for the lines\<close>

definition hex_value :: "char \<Rightarrow> nat option" where
  "hex_value c =
     (if ascii_digit c then Some (code_of c - 48)
      else if 97 \<le> code_of c \<and> code_of c \<le> 102 then Some (code_of c - 87) else None)"

text \<open>After the opening quote: the text and what follows the closing quote.  Control characters do
  not occur in a JSON string.\<close>

fun read_string :: "string \<Rightarrow> (string \<times> string) option" where
  "read_string [] = None"
| "read_string (c # s) =
     (if c = quote_char then Some ([], s)
      else if c = backslash then
        (case s of
           [] \<Rightarrow> None
         | d # t \<Rightarrow>
             if d = CHR ''u'' then
               (case t of
                  z1 # z2 # h # l # u \<Rightarrow>
                    (case (hex_value h, hex_value l, z1 = CHR ''0'' \<and> z2 = CHR ''0'', read_string u) of
                       (Some a, Some b, True, Some (v, w)) \<Rightarrow> Some (char_of (16 * a + b) # v, w)
                     | _ \<Rightarrow> None)
                | _ \<Rightarrow> None)
             else
               (case (if d = quote_char then Some quote_char else if d = backslash then Some backslash
                      else if d = CHR ''n'' then Some (CHR 0x0A) else if d = CHR ''r'' then Some (CHR 0x0D)
                      else if d = CHR ''t'' then Some (CHR 0x09) else None, read_string t) of
                  (Some x, Some (v, w)) \<Rightarrow> Some (x # v, w)
                | _ \<Rightarrow> None))
      else if code_of c < 32 then None
      else map_option (\<lambda>(v, w). (c # v, w)) (read_string s))"

datatype json_value = JStr string | JNum int | JBool bool

definition json_view :: "field_value \<Rightarrow> json_value" where
  "json_view v = (case v of FStr s \<Rightarrow> JStr s | FU64 n \<Rightarrow> JNum (uint n) | FI64 n \<Rightarrow> JNum (sint n) | FBool b \<Rightarrow> JBool b)"

definition expect :: "string \<Rightarrow> string \<Rightarrow> string option" where
  "expect p s = (if starts_with p s then Some (drop (length p) s) else None)"

definition read_quoted :: "string \<Rightarrow> (string \<times> string) option" where
  "read_quoted s = (case s of [] \<Rightarrow> None | c # t \<Rightarrow> if c = quote_char then read_string t else None)"

definition read_nat :: "string \<Rightarrow> (nat \<times> string) option" where
  "read_nat s =
     (let ds = takeWhile ascii_digit s
      in if ds = [] then None else Some (digits_value ds, dropWhile ascii_digit s))"

definition read_value :: "string \<Rightarrow> (json_value \<times> string) option" where
  "read_value s =
     (case s of
        [] \<Rightarrow> None
      | c # t \<Rightarrow>
          if c = quote_char then map_option (\<lambda>(v, w). (JStr v, w)) (read_string t)
          else if c = CHR ''-'' then map_option (\<lambda>(n, w). (JNum (- int n), w)) (read_nat t)
          else if starts_with ''true'' s then Some (JBool True, drop 4 s)
          else if starts_with ''false'' s then Some (JBool False, drop 5 s)
          else map_option (\<lambda>(n, w). (JNum (int n), w)) (read_nat s))"

definition read_member :: "string \<Rightarrow> ((string \<times> json_value) \<times> string) option" where
  "read_member s =
     (case read_quoted s of
        Some (k, c # t) \<Rightarrow> if c = CHR '':'' then map_option (\<lambda>(v, w). ((k, v), w)) (read_value t) else None
      | _ \<Rightarrow> None)"

partial_function (option) read_members :: "string \<Rightarrow> ((string \<times> json_value) list \<times> string) option" where
  "read_members s =
     (case read_member s of
        None \<Rightarrow> None
      | Some (kv, []) \<Rightarrow> None
      | Some (kv, c # t) \<Rightarrow>
          if c = CHR '','' then
            Option.bind (read_members t) (\<lambda>(kvs, w). Some (kv # kvs, w))
          else if c = CHR 0x7D then Some ([kv], t)
          else None)"

definition read_object :: "string \<Rightarrow> ((string \<times> json_value) list \<times> string) option" where
  "read_object s =
     (case s of
        [] \<Rightarrow> None
      | c # t \<Rightarrow> if c = CHR 0x7D then Some ([], t) else read_members s)"

definition read_key :: "string \<Rightarrow> string \<Rightarrow> string option" where
  "read_key k s = expect (quote_char # k @ [quote_char, CHR '':'']) s"

definition read_line :: "string \<Rightarrow> (nat \<times> nat \<times> string \<times> string \<times> (string \<times> json_value) list) option" where
  "read_line s =
     Option.bind (expect [CHR 0x7B] s) (\<lambda>s. Option.bind (read_key ''ts'' s) (\<lambda>s.
     Option.bind (read_nat s) (\<lambda>(ts, s). Option.bind (expect '','' s) (\<lambda>s. Option.bind (read_key ''seq'' s) (\<lambda>s.
     Option.bind (read_nat s) (\<lambda>(seq, s). Option.bind (expect '','' s) (\<lambda>s. Option.bind (read_key ''level'' s) (\<lambda>s.
     Option.bind (read_quoted s) (\<lambda>(level, s). Option.bind (expect '','' s) (\<lambda>s. Option.bind (read_key ''event'' s) (\<lambda>s.
     Option.bind (read_quoted s) (\<lambda>(event, s). Option.bind (expect '','' s) (\<lambda>s. Option.bind (read_key ''fields'' s) (\<lambda>s.
     Option.bind (expect [CHR 0x7B] s) (\<lambda>s. Option.bind (read_object s) (\<lambda>(kvs, s).
     if s = [CHR 0x7D] then Some (ts, seq, level, event, kvs) else None))))))))))))))))"

section \<open>Round trips\<close>

lemmas special_chars = quote_char_def backslash_def

lemma hex_value_digit: "n < 16 \<Longrightarrow> hex_value (hex_digit n) = Some n"
  by (auto simp: hex_value_def hex_digit_def ascii_digit_def)

lemma read_escaped: "read_string (escape_char c @ s) = map_option (\<lambda>(v, w). (c # v, w)) (read_string s)"
proof -
  have "hex_value (hex_digit (code_of c div 16)) = Some (code_of c div 16)"
    "hex_value (hex_digit (code_of c mod 16)) = Some (code_of c mod 16)" if "code_of c < 32"
    using that by (auto intro!: hex_value_digit)
  moreover have "char_of (16 * (code_of c div 16) + code_of c mod 16) = c" by simp
  ultimately show ?thesis
    by (auto simp: escape_char_def special_chars split: option.splits)
qed

lemma read_string_written: "read_string (concat (map escape_char s) @ quote_char # t) = Some (s, t)"
  by (induction s) (simp_all add: read_escaped)

lemma read_quoted_written [simp]: "read_quoted (write_json_string s @ t) = Some (s, t)"
  by (simp add: read_quoted_def write_json_string_def read_string_written)

lemma read_nat_decimal: "s = [] \<or> \<not> ascii_digit (hd s) \<Longrightarrow> read_nat (decimal n @ s) = Some (n, s)"
  by (simp add: read_nat_def takeWhile_decimal)

lemma decimal_hd: "ascii_digit (hd (decimal n))"
  using decimal_digits [of n] by (cases "decimal n") auto

definition ends_value :: "string \<Rightarrow> bool" where
  "ends_value s \<longleftrightarrow> s = [] \<or> \<not> ascii_digit (hd s)"

lemma read_value_number:
  assumes "ends_value s"
  shows "read_value (decimal n @ s) = Some (JNum (int n), s)"
    and "read_value (CHR ''-'' # decimal n @ s) = Some (JNum (- int n), s)"
proof -
  obtain d ds where d: "decimal n = d # ds" by (cases "decimal n") auto
  with decimal_hd [of n] have "ascii_digit d" by simp
  then have "d \<noteq> quote_char" "d \<noteq> CHR ''-''" "d \<noteq> CHR ''t''" "d \<noteq> CHR ''f''"
    by (auto simp: ascii_digit_def special_chars)
  with read_nat_decimal [of s n] assms d show "read_value (decimal n @ s) = Some (JNum (int n), s)"
    by (simp add: read_value_def starts_with_def ends_value_def)
  show "read_value (CHR ''-'' # decimal n @ s) = Some (JNum (- int n), s)"
    using read_nat_decimal [of s n] assms by (simp add: read_value_def special_chars ends_value_def)
qed

lemma read_value_written:
  assumes "ends_value s"
  shows "read_value (write_value v @ s) = Some (json_view v, s)"
proof (cases v)
  case (FStr x)
  then show ?thesis
    by (simp add: write_value_def write_json_string_def read_value_def read_string_written json_view_def)
next
  case (FU64 n)
  then show ?thesis using read_value_number(1) [OF assms, of "unat n"] by (simp add: write_value_def json_view_def)
next
  case (FI64 n)
  then show ?thesis using read_value_number [OF assms]
    by (auto simp: write_value_def write_i64_def json_view_def)
next
  case (FBool b)
  then show ?thesis
    by (simp add: write_value_def json_view_def read_value_def starts_with_def special_chars)
qed

lemma read_member_written:
  "ends_value s \<Longrightarrow> read_member (write_field_pair kv @ s) = Some ((fst kv, json_view (snd kv)), s)"
  by (simp add: read_member_def write_field_pair_def read_value_written)

lemma read_members_written:
  assumes "kvs \<noteq> []"
  shows "read_members (join_on (CHR '','') (map write_field_pair kvs) @ CHR 0x7D # s) =
    Some (map (\<lambda>kv. (fst kv, json_view (snd kv))) kvs, s)"
  using assms
proof (induction kvs)
  case (Cons kv kvs)
  have ends: "ends_value (CHR '','' # t)" "ends_value (CHR 0x7D # t)" for t
    by (simp_all add: ends_value_def ascii_digit_def)
  show ?case
  proof (cases "kvs = []")
    case True
    then show ?thesis by (subst read_members.simps) (simp add: read_member_written [OF ends(2)])
  next
    case False
    then have "join_on (CHR '','') (map write_field_pair (kv # kvs)) @ CHR 0x7D # s =
      write_field_pair kv @ CHR '','' # join_on (CHR '','') (map write_field_pair kvs) @ CHR 0x7D # s"
      by (simp add: join_on_Cons)
    with Cons.IH [OF False] show ?thesis
      by (subst read_members.simps) (simp add: read_member_written [OF ends(1)])
  qed
qed simp

lemma read_object_written:
  "read_object (join_on (CHR '','') (map write_field_pair kvs) @ CHR 0x7D # s) =
    Some (map (\<lambda>kv. (fst kv, json_view (snd kv))) kvs, s)"
proof (cases kvs)
  case (Cons kv rest)
  obtain t where "join_on (CHR '','') (map write_field_pair kvs) @ CHR 0x7D # s = quote_char # t"
    by (cases rest) (auto simp: Cons write_field_pair_def write_json_string_def)
  with read_members_written [of kvs s] Cons show ?thesis by (simp add: read_object_def special_chars)
qed (simp add: read_object_def)

lemma expect_prefix: "expect p (p @ s) = Some s"
  by (simp add: expect_def starts_with_def)

lemma expect_Cons: "expect [c] (c # s) = Some s"
  by (simp add: expect_def starts_with_def)

lemma read_key_written:
  "read_key ''ts'' (quote_char # ''ts'' @ quote_char # CHR '':'' # s) = Some s"
  "read_key ''seq'' (quote_char # ''seq'' @ quote_char # CHR '':'' # s) = Some s"
  "read_key ''level'' (quote_char # ''level'' @ quote_char # CHR '':'' # s) = Some s"
  "read_key ''event'' (quote_char # ''event'' @ quote_char # CHR '':'' # s) = Some s"
  "read_key ''fields'' (quote_char # ''fields'' @ quote_char # CHR '':'' # s) = Some s"
  by (simp_all add: read_key_def expect_def starts_with_def)

lemma read_level_written: "read_quoted (quote_char # level_as_str l @ quote_char # s) = Some (level_as_str l, s)"
  by (cases l) (simp_all add: read_quoted_def level_as_str_def special_chars)

text \<open>
  C38. Whatever text an event name, a field name or a field value contains (quotes, backslashes,
  line breaks and other control characters included), the JSON line of a record is read back by
  a JSON reader as exactly that record: no logged text can forge a field, a value or a second line.
  Every text is escaped once; a test of the repository expects a field to be escaped twice, which
  the code does not do and which would not be read back as the record.
\<close>

theorem json_line_roundtrip:
  "read_line (to_json_line r) =
    Some (unat (lr_timestamp r), unat (lr_seq r), level_as_str (lr_level r), lr_event r,
      map (\<lambda>kv. (fst kv, json_view (snd kv))) (lr_fields r))"
proof -
  have nums: "read_nat (decimal n @ CHR '','' # s) = Some (n, CHR '','' # s)" for n s
    by (rule read_nat_decimal) (simp add: ascii_digit_def)
  show ?thesis
    unfolding read_line_def to_json_line_def
    by (simp only: expect_Cons read_key_written [unfolded append.simps] nums read_level_written read_quoted_written read_object_written
        Option.bind.simps case_prod_conv append.simps append_assoc if_True simp_thms)
qed

text \<open>A line is a line: no control character is written.\<close>

lemma json_string_printable: "list_all (\<lambda>c. 32 \<le> code_of c) (write_json_string s)"
proof -
  have "list_all (\<lambda>c. 32 \<le> code_of c) (escape_char c)" for c
    by (auto simp: escape_char_def special_chars hex_digit_def)
  then show ?thesis
    by (induction s) (auto simp: write_json_string_def special_chars list_all_iff)
qed

section \<open>The ring of records\<close>

text \<open>The buffered records carry the last sequence numbers without a gap, and fit the capacity.\<close>

definition logger_inv :: "structured_logger \<Rightarrow> bool" where
  "logger_inv lg \<longleftrightarrow>
     map lr_seq (sl_buffer lg) = map of_nat [unat (sl_seq lg) - length (sl_buffer lg)..<unat (sl_seq lg)] \<and>
     length (sl_buffer lg) \<le> unat (sl_seq lg) \<and>
     (0 < sl_capacity lg \<longrightarrow> length (sl_buffer lg) \<le> sl_capacity lg) \<and>
     list_all (\<lambda>r. length (lr_fields r) \<le> MAX_LOG_ATTRIBUTES \<and> sl_min_level lg \<le> lr_level r) (sl_buffer lg)"

lemma logger_inv_new: "logger_inv (with_min_level l (with_log_capacity n logger_new))"
  by (simp add: logger_inv_def logger_new_def with_min_level_def with_log_capacity_def)

lemma logger_inv_cleared: "logger_inv lg \<Longrightarrow> logger_inv (clear_log lg) \<and> logger_inv (snd (drain_json_lines lg))"
  by (simp add: logger_inv_def clear_log_def drain_json_lines_def)

lemma log_entry_inv:
  assumes "logger_inv lg" and "log_entry level event now attrs lg = Inr (b, lg1)"
  shows "logger_inv lg1 \<and> (b \<longleftrightarrow> sl_min_level lg \<le> level \<and> trim_text event \<noteq> []) \<and>
    (\<not> b \<longrightarrow> lg1 = lg) \<and>
    (b \<longrightarrow> unat (sl_seq lg1) = Suc (unat (sl_seq lg)) \<and>
       last (sl_buffer lg1) = \<lparr>lr_timestamp = now, lr_seq = sl_seq lg, lr_level = level, lr_event = event,
         lr_fields = take MAX_LOG_ATTRIBUTES attrs\<rparr>)"
proof (cases "level < sl_min_level lg \<or> trim_text event = []")
  case True
  with assms show ?thesis by (auto simp: log_entry_def)
next
  case False
  let ?full = "0 < sl_capacity lg \<and> sl_capacity lg \<le> length (sl_buffer lg)"
  let ?n = "unat (sl_seq lg)"
  define r where "r = \<lparr>lr_timestamp = now, lr_seq = sl_seq lg, lr_level = level, lr_event = event,
      lr_fields = take MAX_LOG_ATTRIBUTES attrs\<rparr>"
  from False assms(2) have b: "b" and seq: "unat (sl_seq lg1) = Suc ?n"
    and same: "sl_capacity lg1 = sl_capacity lg" "sl_min_level lg1 = sl_min_level lg"
    and buf: "sl_buffer lg1 = (if ?full then tl (sl_buffer lg) else sl_buffer lg) @ [r]"
    by (auto simp: log_entry_def ok_simps r_def Let_def unat_word_ariths split: if_splits)
  have room: "length (sl_buffer lg) \<le> ?n" "0 < sl_capacity lg \<longrightarrow> length (sl_buffer lg) \<le> sl_capacity lg"
    and seqs: "map lr_seq (sl_buffer lg) = map of_nat [?n - length (sl_buffer lg)..<?n]"
    using assms(1) by (simp_all add: logger_inv_def)
  have num: "of_nat ?n = sl_seq lg" by simp
  have "map lr_seq (sl_buffer lg1) = map of_nat [Suc ?n - length (sl_buffer lg1)..<Suc ?n]"
  proof (cases ?full)
    case True
    then have "length (sl_buffer lg1) = length (sl_buffer lg)" "0 < length (sl_buffer lg)" by (auto simp: buf)
    moreover have "map lr_seq (tl (sl_buffer lg)) = map of_nat [Suc (?n - length (sl_buffer lg))..<?n]"
      by (metis map_tl seqs tl_upt)
    moreover from \<open>0 < length (sl_buffer lg)\<close> room(1) have "Suc (?n - length (sl_buffer lg)) \<le> ?n" by linarith
    ultimately show ?thesis using True room num by (simp add: buf r_def Suc_diff_le)
  next
    case False
    have buf1: "sl_buffer lg1 = sl_buffer lg @ [r]" by (simp only: buf if_not_P [OF False])
    with seqs num show ?thesis by (simp add: r_def)
  qed
  moreover have "length (sl_buffer lg1) \<le> Suc ?n \<and> (0 < sl_capacity lg \<longrightarrow> length (sl_buffer lg1) \<le> sl_capacity lg)"
    using room by (auto simp: buf)
  moreover have "list_all (\<lambda>r. length (lr_fields r) \<le> MAX_LOG_ATTRIBUTES \<and> sl_min_level lg \<le> lr_level r) (sl_buffer lg1)"
  proof -
    have "set (sl_buffer lg1) \<subseteq> insert r (set (sl_buffer lg))"
      by (cases "sl_buffer lg") (auto simp: buf)
    with assms(1) False show ?thesis by (auto simp: r_def logger_inv_def list_all_iff)
  qed
  ultimately show ?thesis using b seq same False by (auto simp: logger_inv_def buf r_def)
qed

end
