(* ===== verification/Host_Replay_Prevention.thy ===== *)
theory Host_Replay_Prevention
  imports Errors Interfaces
begin

text \<open>
  \<^verbatim>\<open>src/host_replay_prevention.rs\<close>: the guard at the host's boundary, which remembers the request
  identifiers of a time window and refuses them meanwhile.
\<close>

datatype check_result = Accepted | Replay u64

record seen_entry =
  sn_request_id :: string
  sn_actor :: string
  sn_first_seen_at :: u64

record host_replay_guard =
  hg_window_secs :: u64
  hg_entries :: "seen_entry list"
  hg_replay_count :: u64
  hg_accepted_count :: u64

definition guard_new :: "u64 \<Rightarrow> host_replay_guard" where
  "guard_new window = \<lparr>hg_window_secs = window, hg_entries = [], hg_replay_count = 0, hg_accepted_count = 0\<rparr>"

definition guard_prune_expired :: "u64 \<Rightarrow> host_replay_guard \<Rightarrow> host_replay_guard" where
  "guard_prune_expired now g =
     (if hg_window_secs g = 0 then g
      else let cutoff = sat_sub now (hg_window_secs g)
           in g\<lparr>hg_entries := filter (\<lambda>e. cutoff \<le> sn_first_seen_at e) (hg_entries g)\<rparr>)"

definition guard_check :: "string \<Rightarrow> string \<Rightarrow> u64 \<Rightarrow> host_replay_guard \<Rightarrow> trap + (check_result \<times> host_replay_guard)" where
  "guard_check request_id actor now g =
     (let g1 = guard_prune_expired now g
      in case find (\<lambda>e. sn_request_id e = request_id) (hg_entries g1) of
        Some entry \<Rightarrow>
          bind_ok (plus_trap (hg_replay_count g1) 1) (\<lambda>n.
            Inr (Replay (sn_first_seen_at entry), g1\<lparr>hg_replay_count := n\<rparr>))
      | None \<Rightarrow>
          bind_ok (plus_trap (hg_accepted_count g1) 1) (\<lambda>n.
            Inr (Accepted, g1\<lparr>hg_entries := hg_entries g1 @
                [\<lparr>sn_request_id = request_id, sn_actor = actor, sn_first_seen_at = now\<rparr>],
              hg_accepted_count := n\<rparr>)))"

definition window_size :: "host_replay_guard \<Rightarrow> nat" where
  "window_size g = length (hg_entries g)"

definition is_known :: "host_replay_guard \<Rightarrow> string \<Rightarrow> bool" where
  "is_known g request_id = list_ex (\<lambda>e. sn_request_id e = request_id) (hg_entries g)"

definition forget :: "string \<Rightarrow> host_replay_guard \<Rightarrow> bool \<times> host_replay_guard" where
  "forget request_id g =
     (let kept = filter (\<lambda>e. sn_request_id e \<noteq> request_id) (hg_entries g)
      in (length kept < length (hg_entries g), g\<lparr>hg_entries := kept\<rparr>))"

definition guard_reset :: "host_replay_guard \<Rightarrow> host_replay_guard" where
  "guard_reset g = g\<lparr>hg_entries := [], hg_replay_count := 0, hg_accepted_count := 0\<rparr>"

section \<open>Every operation\<close>

text \<open>Identifiers are kept once, and a check answers by what the window still holds.\<close>

definition guard_inv :: "host_replay_guard \<Rightarrow> bool" where
  "guard_inv g \<longleftrightarrow> distinct (map sn_request_id (hg_entries g))"

lemma guard_inv_prune: "guard_inv g \<Longrightarrow> guard_inv (guard_prune_expired now g)"
  by (simp add: guard_inv_def guard_prune_expired_def distinct_map_filter)

lemma prune_fields [simp]:
  "hg_window_secs (guard_prune_expired now g) = hg_window_secs g"
  "hg_replay_count (guard_prune_expired now g) = hg_replay_count g"
  "hg_accepted_count (guard_prune_expired now g) = hg_accepted_count g"
  by (simp_all add: guard_prune_expired_def)

lemma guard_inv_forget: "guard_inv g \<Longrightarrow> guard_inv (snd (forget i g))"
  by (simp add: guard_inv_def forget_def Let_def distinct_map_filter)

lemma forget_result: "fst (forget i g) \<longleftrightarrow> is_known g i"
proof -
  have "length (filter (\<lambda>e. sn_request_id e \<noteq> i) es) < length es \<longleftrightarrow> (\<exists>e \<in> set es. sn_request_id e = i)" for es
    by (metis (mono_tags, lifting) filter_True length_filter_less less_irrefl)
  then show ?thesis by (simp add: forget_def is_known_def Let_def list_ex_iff)
qed

lemma forgotten: "\<not> is_known (snd (forget i g)) i"
  by (auto simp: forget_def is_known_def Let_def list_ex_iff)

lemma guard_check_cases:
  assumes "guard_check i actor now g = Inr (r, g1)"
  obtains entry where "find (\<lambda>e. sn_request_id e = i) (hg_entries (guard_prune_expired now g)) = Some entry"
      "r = Replay (sn_first_seen_at entry)" "hg_entries g1 = hg_entries (guard_prune_expired now g)"
      "hg_window_secs g1 = hg_window_secs g"
    | "\<not> is_known (guard_prune_expired now g) i" "r = Accepted"
      "hg_entries g1 = hg_entries (guard_prune_expired now g) @
        [\<lparr>sn_request_id = i, sn_actor = actor, sn_first_seen_at = now\<rparr>]"
      "hg_window_secs g1 = hg_window_secs g"
proof (cases "find (\<lambda>e. sn_request_id e = i) (hg_entries (guard_prune_expired now g))")
  case None
  with assms show ?thesis
    by (intro that(2))
      (auto simp: guard_check_def Let_def ok_simps is_known_def list_ex_iff find_None_iff)
next
  case (Some entry)
  with assms show ?thesis
    by (intro that(1) [OF Some]) (auto simp: guard_check_def Let_def ok_simps)
qed

lemma guard_inv_check: "guard_inv g \<Longrightarrow> guard_check i actor now g = Inr (r, g1) \<Longrightarrow> guard_inv g1"
  using guard_inv_prune [of g now]
  by (elim guard_check_cases) (auto simp: guard_inv_def is_known_def list_ex_iff)

section \<open>The deduplication window\<close>

record guard_request =
  gr_id :: string
  gr_actor :: string
  gr_now :: u64

definition guard_admit :: "guard_request \<Rightarrow> host_replay_guard \<Rightarrow> bool \<times> host_replay_guard" where
  "guard_admit r g =
     (case guard_check (gr_id r) (gr_actor r) (gr_now r) g of
        Inl _ \<Rightarrow> (False, g)
      | Inr (x, g1) \<Rightarrow> (x = Accepted, g1))"

definition guard_seen :: "host_replay_guard \<Rightarrow> string \<Rightarrow> nat \<Rightarrow> bool" where
  "guard_seen g i t \<longleftrightarrow> (\<exists>e \<in> set (hg_entries g). sn_request_id e = i \<and> unat (sn_first_seen_at e) = t)"

lemma guard_seen_pruned:
  assumes "guard_seen g i t" and "hg_window_secs g = 0 \<or> unat now \<le> t + unat (hg_window_secs g)"
  shows "guard_seen (guard_prune_expired now g) i t"
  using assms by (auto simp: guard_seen_def guard_prune_expired_def Let_def word_le_nat_alt unat_simps)

text \<open>A guard with a window of \<open>w\<close> seconds refuses for \<open>w\<close> seconds, one without a window forever.\<close>

interpretation host: dedup_window guard_admit gr_id "\<lambda>r. unat (gr_now r)" "\<lambda>_. True"
  "\<lambda>g. hg_window_secs g = w \<and> (w = 0 \<or> span \<le> unat w)" guard_seen span for w :: u64 and span :: nat
proof
  fix r :: guard_request and g :: host_replay_guard
  assume inv: "hg_window_secs g = w \<and> (w = 0 \<or> span \<le> unat w)"
  show "hg_window_secs (snd (guard_admit r g)) = w \<and> (w = 0 \<or> span \<le> unat w)"
    using inv by (auto simp: guard_admit_def split: sum.split elim: guard_check_cases)
  show "guard_seen (snd (guard_admit r g)) (gr_id r) (unat (gr_now r))" if "fst (guard_admit r g)"
    using that by (auto simp: guard_admit_def guard_seen_def split: sum.splits elim!: guard_check_cases)
  fix k :: string and t :: nat
  assume later: "t \<le> unat (gr_now r)" "unat (gr_now r) \<le> t + span"
  have kept: "guard_seen (guard_prune_expired (gr_now r) g) j t" if "guard_seen g j t" for j
    using guard_seen_pruned [OF that, of "gr_now r"] inv later by auto
  show "guard_seen (snd (guard_admit r g)) k t" if "guard_seen g k t"
    using kept [OF that] that by (auto simp: guard_admit_def guard_seen_def split: sum.split elim!: guard_check_cases)
  show "\<not> fst (guard_admit r g)" if "guard_seen g (gr_id r) t"
    using kept [OF that]
    by (auto simp: guard_admit_def guard_seen_def is_known_def list_ex_iff split: sum.split elim!: guard_check_cases)
qed

lemma host_passes_spaced:
  assumes "sorted (map (\<lambda>r. unat (gr_now r)) rs)"
  shows "sorted_wrt (\<lambda>r r'. gr_id r = gr_id r' \<longrightarrow> w \<noteq> 0 \<and> unat (gr_now r) + unat w < unat (gr_now r'))
    (let_through guard_admit (guard_new w) rs)"
proof (cases "w = 0")
  case False
  have "hg_window_secs (guard_new w) = w \<and> (w = 0 \<or> unat w \<le> unat w)" by (simp add: guard_new_def)
  from host.passes_spaced [OF this assms] False show ?thesis by (simp add: list_all_iff)
next
  case True
  have "hg_window_secs (guard_new w) = w \<and> (w = 0 \<or> 2 ^ 64 \<le> unat w)" by (simp add: guard_new_def True)
  from host.passes_spaced [OF this assms]
  have "sorted_wrt (\<lambda>r r'. gr_id r = gr_id r' \<longrightarrow> unat (gr_now r) + 2 ^ 64 < unat (gr_now r'))
      (let_through guard_admit (guard_new w) rs)" by (simp add: list_all_iff)
  then show ?thesis
  proof (rule sorted_wrt_mono_rel [rotated])
    fix x y assume "gr_id x = gr_id y \<longrightarrow> unat (gr_now x) + 2 ^ 64 < unat (gr_now y)"
    with unat_lt_pow [of "gr_now y"]
    show "gr_id x = gr_id y \<longrightarrow> w \<noteq> 0 \<and> unat (gr_now x) + unat w < unat (gr_now y)" by auto
  qed
qed

section \<open>The exact answer\<close>

text \<open>
  What the guard holds when it has seen \<open>rs\<close>: whenever it is pruned, its entries are the accepted
  submissions that are still in the window, in their order; and it has counted every answer.
\<close>

definition guard_after :: "guard_request list \<Rightarrow> host_replay_guard \<Rightarrow> host_replay_guard" where
  "guard_after rs g = fold (\<lambda>r g. snd (guard_admit r g)) rs g"

abbreviation in_window :: "u64 \<Rightarrow> u64 \<Rightarrow> u64 \<Rightarrow> bool" where
  "in_window w now t \<equiv> w = 0 \<or> unat now \<le> unat t + unat w"

definition guard_holds :: "u64 \<Rightarrow> host_replay_guard \<Rightarrow> guard_request list \<Rightarrow> nat \<Rightarrow> u64 \<Rightarrow> bool" where
  "guard_holds w g acc n last_time \<longleftrightarrow> hg_window_secs g = w \<and>
     unat (hg_replay_count g) + unat (hg_accepted_count g) \<le> n \<and>
     (\<forall>now \<ge> last_time. map (\<lambda>e. (sn_request_id e, sn_first_seen_at e)) (hg_entries (guard_prune_expired now g)) =
        map (\<lambda>r. (gr_id r, gr_now r)) (filter (\<lambda>r. in_window w now (gr_now r)) acc))"

lemma in_window_cutoff: "sat_sub now w \<le> t \<longleftrightarrow> unat now \<le> unat t + unat w" for now w t :: u64
  by (auto simp: word_le_nat_alt unat_simps)

lemma prune_live:
  "hg_entries (guard_prune_expired now g) =
     filter (\<lambda>e. in_window (hg_window_secs g) now (sn_first_seen_at e)) (hg_entries g)"
  by (auto simp: guard_prune_expired_def Let_def in_window_cutoff)

lemma prune_twice:
  assumes "now \<le> later"
  shows "hg_entries (guard_prune_expired later (guard_prune_expired now g)) = hg_entries (guard_prune_expired later g)"
  using assms by (auto simp: prune_live word_le_nat_alt intro!: filter_cong)

lemma find_filter: "find P (filter Q xs) = find (\<lambda>x. Q x \<and> P x) xs"
  by (induction xs) auto

lemma find_by_key:
  assumes "map f xs = map g ys" and "\<And>x y. f x = g y \<Longrightarrow> P x = Q y"
  shows "rel_option (\<lambda>x y. f x = g y) (find P xs) (find Q ys)"
  using assms(1)
proof (induction xs arbitrary: ys)
  case (Cons x xs)
  then obtain y zs where "ys = y # zs" "f x = g y" "map f xs = map g zs" by (cases ys) auto
  with Cons.IH [of zs] assms(2) show ?case by auto
qed simp

text \<open>The submission that a replay repeats.\<close>

definition repeated :: "u64 \<Rightarrow> guard_request \<Rightarrow> guard_request list \<Rightarrow> guard_request option" where
  "repeated w r acc = find (\<lambda>x. in_window w (gr_now r) (gr_now x) \<and> gr_id x = gr_id r) acc"

lemma guard_check_answer:
  assumes holds: "guard_holds w g acc n t" and "t \<le> gr_now r" and n: "n + 1 < 2 ^ 64"
  shows "\<exists>g1. guard_check (gr_id r) (gr_actor r) (gr_now r) g =
      Inr (case repeated w r acc of None \<Rightarrow> Accepted | Some x \<Rightarrow> Replay (gr_now x), g1) \<and>
    guard_holds w g1 (acc @ (case repeated w r acc of None \<Rightarrow> [r] | Some x \<Rightarrow> [])) (n + 1) (gr_now r)"
proof -
  let ?g = "guard_prune_expired (gr_now r) g"
  let ?h = "\<lambda>e. (sn_request_id e, sn_first_seen_at e)" and ?k = "\<lambda>r. (gr_id r, gr_now r)"
  have win: "hg_window_secs g = w" and cnt: "unat (hg_replay_count g) + unat (hg_accepted_count g) \<le> n"
    and live: "\<And>now. t \<le> now \<Longrightarrow> map ?h (hg_entries (guard_prune_expired now g)) =
        map ?k (filter (\<lambda>r. in_window w now (gr_now r)) acc)"
    using holds unfolding guard_holds_def by blast+
  have "rel_option (\<lambda>e x. ?h e = ?k x) (find (\<lambda>e. sn_request_id e = gr_id r) (hg_entries ?g)) (repeated w r acc)"
    unfolding repeated_def find_filter [symmetric] by (rule find_by_key [OF live [OF assms(2)]]) simp
  note found = this [unfolded prod.inject]
  have small: "unat (hg_replay_count g) + 1 < 2 ^ 64" "unat (hg_accepted_count g) + 1 < 2 ^ 64"
    using cnt n by auto
  have later: "map ?h (hg_entries (guard_prune_expired now ?g)) = map ?k (filter (\<lambda>r. in_window w now (gr_now r)) acc)"
    if "gr_now r \<le> now" for now
    using live [of now] prune_twice [OF that, of g] assms(2) that by simp
  show ?thesis
  proof (cases "repeated w r acc")
    case None
    let ?e = "\<lparr>sn_request_id = gr_id r, sn_actor = gr_actor r, sn_first_seen_at = gr_now r\<rparr>"
    let ?g1 = "?g\<lparr>hg_entries := hg_entries ?g @ [?e], hg_accepted_count := hg_accepted_count g + 1\<rparr>"
    from found None have "find (\<lambda>e. sn_request_id e = gr_id r) (hg_entries ?g) = None" by simp
    then have run: "guard_check (gr_id r) (gr_actor r) (gr_now r) g = Inr (Accepted, ?g1)"
      using small by (simp add: guard_check_def Let_def plus_trap_def checked_add_def of_option_def)
    have "map ?h (hg_entries (guard_prune_expired now ?g1)) =
        map ?k (filter (\<lambda>r. in_window w now (gr_now r)) (acc @ [r]))" if "gr_now r \<le> now" for now
      using later [OF that] by (simp add: prune_live win)
    moreover have "unat (hg_accepted_count g + 1) = unat (hg_accepted_count g) + 1"
      using small(2) by (simp add: unat_word_ariths)
    ultimately have "guard_holds w ?g1 (acc @ [r]) (n + 1) (gr_now r)"
      using win cnt by (simp add: guard_holds_def)
    with run None show ?thesis by auto
  next
    case (Some x)
    let ?g1 = "?g\<lparr>hg_replay_count := hg_replay_count g + 1\<rparr>"
    from found Some obtain e where e: "find (\<lambda>e. sn_request_id e = gr_id r) (hg_entries ?g) = Some e"
      "sn_first_seen_at e = gr_now x" by (auto elim: option.rel_cases)
    then have run: "guard_check (gr_id r) (gr_actor r) (gr_now r) g = Inr (Replay (gr_now x), ?g1)"
      using small by (simp add: guard_check_def Let_def plus_trap_def checked_add_def of_option_def)
    have "map ?h (hg_entries (guard_prune_expired now ?g1)) =
        map ?k (filter (\<lambda>r. in_window w now (gr_now r)) acc)" if "gr_now r \<le> now" for now
      using later [OF that] by (simp add: prune_live win)
    moreover have "unat (hg_replay_count g + 1) = unat (hg_replay_count g) + 1"
      using small(1) by (simp add: unat_word_ariths)
    ultimately have "guard_holds w ?g1 acc (n + 1) (gr_now r)"
      using win cnt by (simp add: guard_holds_def)
    with run Some show ?thesis by auto
  qed
qed

lemma let_through_append:
  "let_through guard_admit g (xs @ [r]) = let_through guard_admit g xs @
     (if fst (guard_admit r (guard_after xs g)) then [r] else [])"
  by (induction xs arbitrary: g) (simp_all add: guard_after_def)

lemma guard_after_holds:
  assumes "sorted (map (\<lambda>r. unat (gr_now r)) rs)" and "length rs < 2 ^ 64"
  shows "guard_holds w (guard_after rs (guard_new w)) (let_through guard_admit (guard_new w) rs) (length rs)
    (if rs = [] then 0 else gr_now (last rs))"
  using assms
proof (induction rs rule: rev_induct)
  case Nil
  show ?case by (simp add: guard_after_def guard_holds_def guard_new_def prune_live)
next
  case (snoc r rs)
  let ?g = "guard_after rs (guard_new w)" and ?acc = "let_through guard_admit (guard_new w) rs"
  have sorted: "sorted (map (\<lambda>r. unat (gr_now r)) rs)" "\<forall>x \<in> set rs. unat (gr_now x) \<le> unat (gr_now r)"
    using snoc.prems(1) by (auto simp: sorted_append)
  have t: "(if rs = [] then 0 else gr_now (last rs)) \<le> gr_now r"
    using sorted(2) by (simp add: word_le_nat_alt)
  have "guard_holds w ?g ?acc (length rs) (if rs = [] then 0 else gr_now (last rs))"
    using snoc.IH [OF sorted(1)] snoc.prems(2) by simp
  from guard_check_answer [OF this t] snoc.prems(2) obtain g1 where
    run: "guard_check (gr_id r) (gr_actor r) (gr_now r) ?g =
      Inr (case repeated w r ?acc of None \<Rightarrow> Accepted | Some x \<Rightarrow> Replay (gr_now x), g1)"
    and holds: "guard_holds w g1 (?acc @ (case repeated w r ?acc of None \<Rightarrow> [r] | Some x \<Rightarrow> []))
      (length rs + 1) (gr_now r)" by auto
  have "guard_after (rs @ [r]) (guard_new w) = g1"
    using run by (simp add: guard_after_def guard_admit_def)
  moreover have "let_through guard_admit (guard_new w) (rs @ [r]) =
      ?acc @ (case repeated w r ?acc of None \<Rightarrow> [r] | Some x \<Rightarrow> [])"
    unfolding let_through_append using run by (simp add: guard_admit_def split: option.split)
  ultimately show ?case using holds by simp
qed

text \<open>
  C33. After any sequence of submissions in the order of time (fewer than \<open>2^64 - 1\<close>, so that the
  counters do not overflow), the answer to the next one is exact: it is refused as a replay, with
  the time at which it was first seen, if a submission with its identifier was accepted and is still
  in the window; otherwise it is accepted, so also again once the window is over.  With the window 0
  an identifier is remembered for ever.  Hence the accepted submissions of one identifier are more
  than the window apart.
\<close>

theorem host_replay_window:
  assumes "sorted (map (\<lambda>r. unat (gr_now r)) (rs @ [r]))" and "length rs + 1 < 2 ^ 64"
  shows "let accepted = let_through guard_admit (guard_new w) in
    map_sum id fst (guard_check (gr_id r) (gr_actor r) (gr_now r) (guard_after rs (guard_new w))) =
      Inr (case find (\<lambda>x. (w = 0 \<or> unat (gr_now r) \<le> unat (gr_now x) + unat w) \<and> gr_id x = gr_id r) (accepted rs) of
        None \<Rightarrow> Accepted | Some x \<Rightarrow> Replay (gr_now x)) \<and>
    sorted_wrt (\<lambda>x y. gr_id x = gr_id y \<longrightarrow> w \<noteq> 0 \<and> unat (gr_now x) + unat w < unat (gr_now y))
      (accepted (rs @ [r]))"
proof -
  have "sorted (map (\<lambda>r. unat (gr_now r)) rs)" and "(if rs = [] then 0 else gr_now (last rs)) \<le> gr_now r"
    using assms(1) by (auto simp: sorted_append word_le_nat_alt)
  from guard_check_answer [OF guard_after_holds [OF this(1), of w] this(2)] assms(2)
  obtain g1 where "guard_check (gr_id r) (gr_actor r) (gr_now r) (guard_after rs (guard_new w)) =
      Inr (case repeated w r (let_through guard_admit (guard_new w) rs) of None \<Rightarrow> Accepted | Some x \<Rightarrow> Replay (gr_now x), g1)"
    by auto
  then   show ?thesis
    using host_passes_spaced [OF assms(1), of w] unfolding Let_def repeated_def by simp
qed

definition sample_submissions :: "guard_request list" where
  "sample_submissions =
     [\<lparr>gr_id = ''r1'', gr_actor = ''G'', gr_now = 1000\<rparr>, \<lparr>gr_id = ''r1'', gr_actor = ''G'', gr_now = 1060\<rparr>,
      \<lparr>gr_id = ''r1'', gr_actor = ''G'', gr_now = 1061\<rparr>]"

theorem host_replay_window_witness:
  "map gr_now (let_through guard_admit (guard_new 60) sample_submissions) = [1000, 1061] \<and>
   map_sum id fst (guard_check ''r1'' ''G'' 1121 (guard_after sample_submissions (guard_new 60))) = Inr (Replay 1061) \<and>
   map_sum id fst (guard_check ''r1'' ''G'' 1122 (guard_after sample_submissions (guard_new 60))) = Inr Accepted"
proof -
  have acc: "let_through guard_admit (guard_new 60) sample_submissions = [sample_submissions ! 0, sample_submissions ! 2]"
    by (simp add: sample_submissions_def guard_new_def guard_admit_def guard_check_def guard_prune_expired_def
        plus_trap_def checked_add_def sat_sub_def)
  let ?r = "\<lambda>now. \<lparr>gr_id = ''r1'', gr_actor = ''G'', gr_now = now\<rparr>"
  have sorted: "sorted (map (\<lambda>r. unat (gr_now r)) (sample_submissions @ [?r now]))" if "now \<in> {1121, 1122}" for now
    using that by (auto simp: sample_submissions_def)
  have short: "length sample_submissions + 1 < 2 ^ 64" by (simp add: sample_submissions_def)
  have nth: "sample_submissions ! 0 = ?r 1000" "sample_submissions ! 2 = ?r 1061"
    by (simp_all add: sample_submissions_def)
  have answer: "map_sum id fst (guard_check ''r1'' ''G'' now (guard_after sample_submissions (guard_new 60))) =
      Inr (if unat now \<le> 1060 then Replay 1000 else if unat now \<le> 1121 then Replay 1061 else Accepted)"
    if "now \<in> {1121, 1122}" for now
    using host_replay_window [OF sorted [OF that] short, of 60] unfolding Let_def acc nth by auto
  from answer [of 1121] answer [of 1122] show ?thesis by (simp add: acc nth)
qed

end
