(* ===== verification/Btree_Map.thy ===== *)
theory Btree_Map
  imports Prelude "HOL-Library.List_Lexorder" "HOL-Library.Char_ord"
begin

text \<open>
  \<open>alloc::collections::BTreeMap\<close> of the standard library: an association list in the order of its
  keys, without duplicate keys.  Iteration goes through the list; strings are ordered byte by byte,
  as \<open>str\<close> is.
\<close>

type_synonym ('k, 'v) btree_map = "('k \<times> 'v) list"

abbreviation bm_get :: "('k, 'v) btree_map \<Rightarrow> 'k \<Rightarrow> 'v option" where
  "bm_get \<equiv> map_of"

fun bm_insert :: "'k::linorder \<Rightarrow> 'v \<Rightarrow> ('k, 'v) btree_map \<Rightarrow> ('k, 'v) btree_map" where
  "bm_insert k v [] = [(k, v)]"
| "bm_insert k v ((j, w) # m) =
     (if k < j then (k, v) # (j, w) # m
      else if k = j then (k, v) # m
      else (j, w) # bm_insert k v m)"

definition bm_remove :: "'k \<Rightarrow> ('k, 'v) btree_map \<Rightarrow> ('k, 'v) btree_map" where
  "bm_remove k m = filter (\<lambda>(j, _). j \<noteq> k) m"

definition bm_retain :: "('k \<Rightarrow> 'v \<Rightarrow> bool) \<Rightarrow> ('k, 'v) btree_map \<Rightarrow> ('k, 'v) btree_map" where
  "bm_retain P m = filter (\<lambda>(j, v). P j v) m"

definition bm_wf :: "('k::linorder, 'v) btree_map \<Rightarrow> bool" where
  "bm_wf m \<longleftrightarrow> sorted_wrt (<) (map fst m)"

lemma bm_wf_Nil [simp]: "bm_wf []"
  by (simp add: bm_wf_def)

lemma keys_bm_insert [simp]: "fst ` set (bm_insert k v m) = insert k (fst ` set m)"
  by (induction k v m rule: bm_insert.induct) auto

lemma bm_wf_insert [simp]: "bm_wf m \<Longrightarrow> bm_wf (bm_insert k v m)"
proof (induction k v m rule: bm_insert.induct)
  case (2 k v j w m)
  have "\<forall>x \<in> fst ` set (bm_insert k v m). j < x" if "\<not> k < j" "k \<noteq> j"
    using 2(2) that by (auto simp: bm_wf_def)
  with 2 show ?case by (auto simp: bm_wf_def)
qed (simp add: bm_wf_def)

lemma bm_wf_filter: "bm_wf m \<Longrightarrow> bm_wf (filter P m)"
  unfolding bm_wf_def by (induction m) (auto simp: sorted_wrt_append)

lemma bm_wf_remove [simp]: "bm_wf m \<Longrightarrow> bm_wf (bm_remove k m)"
  by (simp add: bm_remove_def bm_wf_filter)

lemma bm_wf_retain [simp]: "bm_wf m \<Longrightarrow> bm_wf (bm_retain P m)"
  by (simp add: bm_retain_def bm_wf_filter)

lemma bm_wf_distinct: "bm_wf m \<Longrightarrow> distinct (map fst m)"
  by (simp add: bm_wf_def strict_sorted_iff)

lemma bm_get_insert [simp]:
  "bm_wf m \<Longrightarrow> bm_get (bm_insert k v m) = (bm_get m)(k \<mapsto> v)"
proof (induction k v m rule: bm_insert.induct)
  case (2 k v j w m)
  then have "bm_wf m" by (simp add: bm_wf_def)
  with 2 show ?case by (auto simp: fun_eq_iff)
qed simp

lemma bm_get_remove [simp]: "bm_get (bm_remove k m) j = (if j = k then None else bm_get m j)"
  unfolding bm_remove_def by (induction m) auto

lemma bm_get_retain [simp]:
  "bm_wf m \<Longrightarrow> bm_get (bm_retain P m) j = (case bm_get m j of None \<Rightarrow> None | Some v \<Rightarrow> if P j v then Some v else None)"
proof -
  assume "bm_wf m"
  then have "distinct (map fst m)" by (rule bm_wf_distinct)
  then show ?thesis
  proof (induction m)
    case (Cons a m)
    have "map_of m (fst a) = None" using Cons.prems by (simp add: map_of_eq_None_iff)
    with Cons show ?case by (cases a) (auto simp: bm_retain_def)
  qed (simp add: bm_retain_def)
qed

lemma length_bm_insert:
  "bm_wf m \<Longrightarrow> length (bm_insert k v m) = (if bm_get m k = None then Suc (length m) else length m)"
proof (induction k v m rule: bm_insert.induct)
  case (2 k v j w m)
  have "map_of m k = None" if "k < j"
    using 2(2) that by (auto simp: bm_wf_def map_of_eq_None_iff)
  with 2 show ?case by (auto simp: bm_wf_def)
qed simp

lemma length_bm_retain_le [simp]: "length (bm_retain P m) \<le> length m"
  by (simp add: bm_retain_def)

lemma length_bm_remove:
  assumes "bm_wf m"
  shows "length (bm_remove k m) = (if bm_get m k = None then length m else length m - 1)"
proof -
  from assms have "distinct (map fst m)" by (rule bm_wf_distinct)
  then show ?thesis
  proof (induction m)
    case (Cons a m)
    obtain j v where a: "a = (j, v)" by (cases a)
    show ?case
    proof (cases "j = k")
      case True
      then have "filter (\<lambda>(j, _). j \<noteq> k) m = m" using Cons.prems a by (force simp: filter_id_conv)
      with True a show ?thesis by (simp add: bm_remove_def)
    next
      case False
      have "bm_get m k \<noteq> None \<Longrightarrow> m \<noteq> []" by auto
      with False a Cons show ?thesis by (auto simp: bm_remove_def)
    qed
  qed (simp add: bm_remove_def)
qed

end
