(* ===== verification/Request_Deduplication.thy ===== *)
theory Request_Deduplication
  imports Btree_Map Ascii_Text Interfaces
begin

text \<open>
  \<^verbatim>\<open>src/request_deduplication.rs\<close>: keys of logical operations, the store of their outcomes with a
  lifetime and a capacity, and the helper that runs an operation through it.
\<close>

section \<open>Keys\<close>

record deduplication_key =
  dk_operation :: string
  dk_request_id :: string

definition dedup_key_new :: "string \<Rightarrow> string \<Rightarrow> deduplication_key" where
  "dedup_key_new operation request_id = \<lparr>dk_operation = operation, dk_request_id = request_id\<rparr>"

definition as_map_key :: "deduplication_key \<Rightarrow> string" where
  "as_map_key k =
     decimal (length (dk_operation k)) @ CHR '':'' # dk_operation k @
     CHR ''|'' # decimal (length (dk_request_id k)) @ CHR '':'' # dk_request_id k"

text \<open>A text behind its length can be read off, so different keys have different forms.\<close>

lemma netstring_inject:
  assumes "decimal (length s) @ CHR '':'' # s @ x = decimal (length t) @ CHR '':'' # t @ y"
  shows "s = t \<and> x = y"
proof -
  have stop: "CHR '':'' # w = [] \<or> \<not> ascii_digit (hd (CHR '':'' # w))" for w
    by (simp add: ascii_digit_def)
  have "decimal (length s) = decimal (length t)"
    using arg_cong [OF assms, of "takeWhile ascii_digit"] by (simp only: takeWhile_decimal(1) [OF stop])
  then show ?thesis using assms by simp
qed

lemma as_map_key_inject [simp]: "as_map_key j = as_map_key k \<longleftrightarrow> j = k"
proof
  assume eq: "as_map_key j = as_map_key k"
  have op: "dk_operation j = dk_operation k \<and>
      CHR ''|'' # decimal (length (dk_request_id j)) @ CHR '':'' # dk_request_id j @ [] =
      CHR ''|'' # decimal (length (dk_request_id k)) @ CHR '':'' # dk_request_id k @ []"
    by (rule netstring_inject) (use eq in \<open>simp add: as_map_key_def\<close>)
  then have "decimal (length (dk_request_id j)) @ CHR '':'' # dk_request_id j @ [] =
      decimal (length (dk_request_id k)) @ CHR '':'' # dk_request_id k @ []" by simp
  from netstring_inject [OF this] op show "j = k" by simp
qed simp

section \<open>The store\<close>

datatype deduplication_result = Success string | Failure string

record deduplication_entry =
  de_result :: deduplication_result
  de_expires_at :: u64

record deduplication_store =
  ds_default_ttl_secs :: u64
  ds_max_entries :: nat
  ds_entries :: "(string, deduplication_entry) btree_map"

text \<open>\<open>None\<close> is the panic on a lifetime of 0.\<close>

definition dedup_store_with_capacity :: "u64 \<Rightarrow> nat \<Rightarrow> deduplication_store option" where
  "dedup_store_with_capacity ttl max_entries =
     (if ttl = 0 then None
      else Some \<lparr>ds_default_ttl_secs = ttl, ds_max_entries = max_entries, ds_entries = []\<rparr>)"

definition dedup_store_new :: "u64 \<Rightarrow> deduplication_store option" where
  "dedup_store_new ttl =
     (if ttl = 0 then None else Some \<lparr>ds_default_ttl_secs = ttl, ds_max_entries = 0, ds_entries = []\<rparr>)"

definition is_duplicate :: "deduplication_store \<Rightarrow> deduplication_key \<Rightarrow> u64 \<Rightarrow> bool" where
  "is_duplicate ds k now =
     (case bm_get (ds_entries ds) (as_map_key k) of
        None \<Rightarrow> False
      | Some entry \<Rightarrow> now < de_expires_at entry)"

definition enforce_capacity :: "u64 \<Rightarrow> deduplication_store \<Rightarrow> deduplication_store" where
  "enforce_capacity now ds =
     (if ds_max_entries ds = 0 then ds
      else if ds_max_entries ds \<le> length (ds_entries ds) then
        ds\<lparr>ds_entries := bm_retain (\<lambda>_ v. now < de_expires_at v) (ds_entries ds)\<rparr>
      else ds)"

definition record_outcome :: "deduplication_key \<Rightarrow> deduplication_result \<Rightarrow> u64 \<Rightarrow> deduplication_store \<Rightarrow> deduplication_store" where
  "record_outcome k r now ds =
     (let ds1 = enforce_capacity now ds
      in if 0 < ds_max_entries ds1 \<and> ds_max_entries ds1 \<le> length (ds_entries ds1) then ds1
         else ds1\<lparr>ds_entries := bm_insert (as_map_key k)
           \<lparr>de_result = r, de_expires_at = sat_add now (ds_default_ttl_secs ds1)\<rparr> (ds_entries ds1)\<rparr>)"

definition record_success :: "deduplication_key \<Rightarrow> string \<Rightarrow> u64 \<Rightarrow> deduplication_store \<Rightarrow> deduplication_store" where
  "record_success k summary now ds = record_outcome k (Success summary) now ds"

definition record_failure :: "deduplication_key \<Rightarrow> string \<Rightarrow> u64 \<Rightarrow> deduplication_store \<Rightarrow> deduplication_store" where
  "record_failure k err now ds = record_outcome k (Failure err) now ds"

definition cached_result :: "deduplication_store \<Rightarrow> deduplication_key \<Rightarrow> u64 \<Rightarrow> deduplication_result option" where
  "cached_result ds k now =
     (case bm_get (ds_entries ds) (as_map_key k) of
        None \<Rightarrow> None
      | Some entry \<Rightarrow> if now < de_expires_at entry then Some (de_result entry) else None)"

definition dedup_purge_expired :: "u64 \<Rightarrow> deduplication_store \<Rightarrow> nat \<times> deduplication_store" where
  "dedup_purge_expired now ds =
     (let kept = bm_retain (\<lambda>_ v. now < de_expires_at v) (ds_entries ds)
      in (length (ds_entries ds) - length kept, ds\<lparr>ds_entries := kept\<rparr>))"

definition dedup_len :: "deduplication_store \<Rightarrow> nat" where
  "dedup_len ds = length (ds_entries ds)"

text \<open>The operation works on a state of its own; \<open>show_ok\<close> and \<open>show_err\<close> are the conversions of its
  answers to strings.\<close>

definition execute_deduplicated ::
  "('a \<Rightarrow> string) \<Rightarrow> ('e \<Rightarrow> string) \<Rightarrow> deduplication_key \<Rightarrow> u64 \<Rightarrow> ('s \<Rightarrow> ('e + 'a) \<times> 's) \<Rightarrow> deduplication_store \<Rightarrow> 's \<Rightarrow>
   (('e + 'a) \<times> bool) \<times> deduplication_store \<times> 's" where
  "execute_deduplicated show_ok show_err k now f ds s =
     (if is_duplicate ds k now then let (result, s1) = f s in ((result, True), ds, s1)
      else case f s of
        (Inr v, s1) \<Rightarrow> ((Inr v, False), record_success k (show_ok v) now ds, s1)
      | (Inl e, s1) \<Rightarrow> ((Inl e, False), record_failure k (show_err e) now ds, s1))"

section \<open>What the store promises\<close>

definition dedup_inv :: "deduplication_store \<Rightarrow> bool" where
  "dedup_inv ds \<longleftrightarrow> bm_wf (ds_entries ds) \<and>
     (0 < ds_max_entries ds \<longrightarrow> length (ds_entries ds) \<le> ds_max_entries ds)"

lemma is_duplicate_cached: "is_duplicate ds k now \<longleftrightarrow> cached_result ds k now \<noteq> None"
  by (simp add: is_duplicate_def cached_result_def split: option.split)

lemma enforce_capacity_fields [simp]:
  "ds_default_ttl_secs (enforce_capacity now ds) = ds_default_ttl_secs ds"
  "ds_max_entries (enforce_capacity now ds) = ds_max_entries ds"
  by (simp_all add: enforce_capacity_def)

lemma record_outcome_fields [simp]:
  "ds_default_ttl_secs (record_outcome k r now ds) = ds_default_ttl_secs ds"
  "ds_max_entries (record_outcome k r now ds) = ds_max_entries ds"
  by (simp_all add: record_outcome_def Let_def)

lemma enforce_capacity_cached:
  assumes "bm_wf (ds_entries ds)" and "now \<le> later"
  shows "cached_result (enforce_capacity now ds) k later = cached_result ds k later"
  using assms by (auto simp: enforce_capacity_def cached_result_def split: option.split)

lemma dedup_inv_enforce: "dedup_inv ds \<Longrightarrow> dedup_inv (enforce_capacity now ds)"
  using length_bm_retain_le [of "\<lambda>_ v. now < de_expires_at v" "ds_entries ds"]
  by (auto simp: dedup_inv_def enforce_capacity_def simp del: length_bm_retain_le)

lemma dedup_inv_record: "dedup_inv ds \<Longrightarrow> dedup_inv (record_outcome k r now ds)"
  using dedup_inv_enforce [of ds now]
  by (auto simp: record_outcome_def Let_def dedup_inv_def length_bm_insert)

text \<open>The live entries are those a full store keeps.\<close>

definition has_room :: "u64 \<Rightarrow> deduplication_store \<Rightarrow> bool" where
  "has_room now ds \<longleftrightarrow> ds_max_entries ds = 0 \<or> length (ds_entries ds) < ds_max_entries ds \<or>
     length (filter (\<lambda>(_, v). now < de_expires_at v) (ds_entries ds)) < ds_max_entries ds"

lemma record_outcome_cached:
  assumes "bm_wf (ds_entries ds)" and "now \<le> later"
  shows "cached_result (record_outcome k r now ds) j later =
    (if j = k \<and> has_room now ds
     then if later < sat_add now (ds_default_ttl_secs ds) then Some r else None
     else cached_result ds j later)"
proof -
  let ?ds1 = "enforce_capacity now ds"
  have wf: "bm_wf (ds_entries ?ds1)" using assms(1) by (simp add: enforce_capacity_def)
  have room: "has_room now ds \<longleftrightarrow> \<not> (0 < ds_max_entries ?ds1 \<and> ds_max_entries ?ds1 \<le> length (ds_entries ?ds1))"
    by (auto simp: has_room_def enforce_capacity_def bm_retain_def)
  show ?thesis
  proof (cases "has_room now ds")
    case True
    then have eq: "record_outcome k r now ds = ?ds1\<lparr>ds_entries := bm_insert (as_map_key k)
        \<lparr>de_result = r, de_expires_at = sat_add now (ds_default_ttl_secs ds)\<rparr> (ds_entries ?ds1)\<rparr>"
      unfolding record_outcome_def Let_def room by (simp only: if_False enforce_capacity_fields simp_thms if_not_P)
    show ?thesis
      using True enforce_capacity_cached [OF assms, of j] wf unfolding eq
      by (simp add: cached_result_def split: option.split)
  next
    case False
    then have "record_outcome k r now ds = ?ds1"
      unfolding record_outcome_def Let_def room by (simp add: if_P)
    with False enforce_capacity_cached [OF assms] show ?thesis by simp
  qed
qed

section \<open>Running operations\<close>

text \<open>
  The flag says whether the key was known; the operation is run in both cases, also where the
  documentation promises that it is not.
\<close>

lemma execute_deduplicated_result:
  "execute_deduplicated show_ok show_err k now f ds s =
    ((fst (f s), is_duplicate ds k now),
     (if is_duplicate ds k now then ds
      else record_outcome k (case fst (f s) of Inr v \<Rightarrow> Success (show_ok v) | Inl e \<Rightarrow> Failure (show_err e)) now ds),
     snd (f s))"
  by (cases "f s"; cases "fst (f s)")
    (auto simp: execute_deduplicated_def record_success_def record_failure_def)

text \<open>A counter as the operation's state shows the second run.\<close>

lemma deduplicated_operation_runs_again:
  assumes "ttl \<noteq> 0"
  shows "\<exists>ds ds1 ds2. dedup_store_new ttl = Some ds \<and>
    execute_deduplicated id id k 0 (\<lambda>n :: nat. (Inr ''done'' :: string + string, Suc n)) ds 0 = ((Inr ''done'', False), ds1, 1) \<and>
    execute_deduplicated id id k 0 (\<lambda>n :: nat. (Inr ''done'' :: string + string, Suc n)) ds1 1 = ((Inr ''done'', True), ds2, 2)"
proof -
  define ds where "ds = \<lparr>ds_default_ttl_secs = ttl, ds_max_entries = 0, ds_entries = []\<rparr>"
  have wf: "bm_wf (ds_entries ds)" by (simp add: ds_def)
  have "0 < sat_add 0 ttl" using assms by (simp add: word_less_nat_alt unat_simps unat_gt_0)
  then have "is_duplicate (record_outcome k (Success ''done'') 0 ds) k 0"
    using record_outcome_cached [OF wf order_refl, of k "Success ''done''" 0 k]
    by (simp add: is_duplicate_cached has_room_def ds_def)
  moreover have "\<not> is_duplicate ds k 0" by (simp add: is_duplicate_def ds_def)
  moreover have "dedup_store_new ttl = Some ds" by (simp add: dedup_store_new_def ds_def assms)
  ultimately show ?thesis by (simp add: execute_deduplicated_result)
qed

text \<open>A request: its key, its time and the outcome its operation would have.\<close>

record dedup_request =
  dq_key :: deduplication_key
  dq_now :: u64
  dq_outcome :: "string + string"

definition dedup_admit :: "dedup_request \<Rightarrow> deduplication_store \<Rightarrow> bool \<times> deduplication_store" where
  "dedup_admit r ds =
     (case execute_deduplicated id id (dq_key r) (dq_now r) (\<lambda>_. (dq_outcome r, ())) ds () of
        ((_, duplicate), ds1, _) \<Rightarrow> (\<not> duplicate, ds1))"

definition dedup_seen :: "u64 \<Rightarrow> deduplication_store \<Rightarrow> deduplication_key \<Rightarrow> nat \<Rightarrow> bool" where
  "dedup_seen ttl ds k t \<longleftrightarrow>
     (\<exists>e. bm_get (ds_entries ds) (as_map_key k) = Some e \<and> unat (de_expires_at e) = t + unat ttl)"

lemma unlimited_record:
  assumes "ds_max_entries ds = 0"
  shows "record_outcome k r now ds = ds\<lparr>ds_entries := bm_insert (as_map_key k)
    \<lparr>de_result = r, de_expires_at = sat_add now (ds_default_ttl_secs ds)\<rparr> (ds_entries ds)\<rparr>"
  using assms by (simp add: record_outcome_def enforce_capacity_def)

interpretation dedup: dedup_window dedup_admit dq_key "\<lambda>r. unat (dq_now r)" "\<lambda>r. unat (dq_now r) + unat ttl < 2 ^ 64"
  "\<lambda>ds. dedup_inv ds \<and> ds_max_entries ds = 0 \<and> ds_default_ttl_secs ds = ttl \<and> ttl \<noteq> 0" "dedup_seen ttl"
  "unat ttl - 1" for ttl :: u64
proof
  fix r :: dedup_request and ds :: deduplication_store
  assume inv: "dedup_inv ds \<and> ds_max_entries ds = 0 \<and> ds_default_ttl_secs ds = ttl \<and> ttl \<noteq> 0"
    and legit: "unat (dq_now r) + unat ttl < 2 ^ 64"
  have wf: "bm_wf (ds_entries ds)" and unlimited: "ds_max_entries ds = 0" using inv by (simp_all add: dedup_inv_def)
  have expiry: "unat (sat_add (dq_now r) ttl) = unat (dq_now r) + unat ttl" using legit by (simp add: unat_simps)
  show "dedup_inv (snd (dedup_admit r ds)) \<and> ds_max_entries (snd (dedup_admit r ds)) = 0 \<and>
      ds_default_ttl_secs (snd (dedup_admit r ds)) = ttl \<and> ttl \<noteq> 0"
    using inv by (simp add: dedup_admit_def execute_deduplicated_result dedup_inv_record)
  show "dedup_seen ttl (snd (dedup_admit r ds)) (dq_key r) (unat (dq_now r))" if "fst (dedup_admit r ds)"
    using that inv wf expiry
    by (auto simp: dedup_admit_def execute_deduplicated_result unlimited_record dedup_seen_def)
  fix k :: deduplication_key and t :: nat
  assume later: "t \<le> unat (dq_now r)" "unat (dq_now r) \<le> t + (unat ttl - 1)"
  have live: "is_duplicate ds k (dq_now r)" if "dedup_seen ttl ds k t" for k
  proof -
    have "0 < unat ttl" using inv by (simp add: unat_gt_0)
    with later have "unat (dq_now r) < t + unat ttl" by linarith
    with that show ?thesis by (auto simp: dedup_seen_def is_duplicate_def word_less_nat_alt)
  qed
  show "dedup_seen ttl (snd (dedup_admit r ds)) k t" if "dedup_seen ttl ds k t"
    using that live [OF that] wf unlimited
    by (auto simp: dedup_admit_def execute_deduplicated_result unlimited_record dedup_seen_def)
  show "\<not> fst (dedup_admit r ds)" if "dedup_seen ttl ds (dq_key r) t"
    using live [OF that] by (simp add: dedup_admit_def execute_deduplicated_result)
qed

text \<open>
  Of the requests with one key that an unlimited store does not flag as duplicates, in the order
  of time and clear of the end of time, each is at least the lifetime later than the one before; and
  every flagged request is still run: what its operation returns and does to its state is the
  same as without the store, although the documentation says that a duplicate is not run.
\<close>

theorem deduplication_window:
  assumes "dedup_store_new ttl = Some ds"
    and "sorted (map (\<lambda>r. unat (dq_now r)) rs)" and "list_all (\<lambda>r. unat (dq_now r) + unat ttl < 2 ^ 64) rs"
  shows "sorted_wrt (\<lambda>r r'. dq_key r = dq_key r' \<longrightarrow> unat (dq_now r) + unat ttl \<le> unat (dq_now r'))
      (let_through dedup_admit ds rs) \<and>
    fst (fst (execute_deduplicated show_ok show_err k now f store s)) = fst (f s) \<and>
    snd (snd (execute_deduplicated show_ok show_err k now f store s)) = snd (f s)"
proof
  from assms(1) have "dedup_inv ds \<and> ds_max_entries ds = 0 \<and> ds_default_ttl_secs ds = ttl \<and> ttl \<noteq> 0"
    by (auto simp: dedup_store_new_def dedup_inv_def split: if_splits)
  from dedup.passes_spaced [OF this assms(2,3)]
  show "sorted_wrt (\<lambda>r r'. dq_key r = dq_key r' \<longrightarrow> unat (dq_now r) + unat ttl \<le> unat (dq_now r'))
      (let_through dedup_admit ds rs)"
    by (rule sorted_wrt_mono_rel [rotated]) auto
qed (simp add: execute_deduplicated_result)

definition sample_key :: deduplication_key where
  "sample_key = dedup_key_new ''deposit'' ''a:b''"

theorem deduplication_window_witness:
  "dedup_store_new 300 = Some \<lparr>ds_default_ttl_secs = 300, ds_max_entries = 0, ds_entries = []\<rparr> \<and>
   sorted_wrt (\<lambda>r r'. dq_key r = dq_key r' \<longrightarrow> unat (dq_now r) + unat (300 :: u64) \<le> unat (dq_now r'))
     (let_through dedup_admit \<lparr>ds_default_ttl_secs = 300, ds_max_entries = 0, ds_entries = []\<rparr>
       [\<lparr>dq_key = sample_key, dq_now = 10, dq_outcome = Inr ''pending''\<rparr>,
        \<lparr>dq_key = sample_key, dq_now = 20, dq_outcome = Inl ''timeout''\<rparr>]) \<and>
   fst (fst (execute_deduplicated id id sample_key 20 (\<lambda>n :: nat. (Inr ''done'' :: string + string, Suc n))
     \<lparr>ds_default_ttl_secs = 300, ds_max_entries = 0, ds_entries = []\<rparr> 7)) = Inr ''done''"
proof -
  have new: "dedup_store_new 300 = Some \<lparr>ds_default_ttl_secs = 300, ds_max_entries = 0, ds_entries = []\<rparr>"
    by (simp add: dedup_store_new_def)
  from deduplication_window [OF new, of "[\<lparr>dq_key = sample_key, dq_now = 10, dq_outcome = Inr ''pending''\<rparr>,
        \<lparr>dq_key = sample_key, dq_now = 20, dq_outcome = Inl ''timeout''\<rparr>]" id id sample_key 20
      "\<lambda>n :: nat. (Inr ''done'' :: string + string, Suc n)" _ 7] new
  show ?thesis by simp
qed

end
