(* ===== verification/Alert_Dedup.thy ===== *)
theory Alert_Dedup
  imports Btree_Map Structured_Log Interfaces
begin

text \<open>
  \<^verbatim>\<open>src/alert_dedup.rs\<close>: the deduplicator of alerts, which is silent for a window after an alert
  fired and forgets the oldest alert when full, the operators' list of silenced alerts, and the
  filter that combines them.
\<close>

section \<open>Deduplication\<close>

record dedup_config =
  dc_window_seconds :: u64
  dc_max_keys :: nat

definition default_dedup_config :: dedup_config where
  "default_dedup_config = \<lparr>dc_window_seconds = 300, dc_max_keys = 10000\<rparr>"

record alert_deduplicator =
  ad_config :: dedup_config
  ad_last_fired :: "(string, u64 \<times> u64) btree_map"
  ad_suppression_log :: "string list"

definition deduplicator_new :: "dedup_config \<Rightarrow> alert_deduplicator" where
  "deduplicator_new c = \<lparr>ad_config = c, ad_last_fired = [], ad_suppression_log = []\<rparr>"

definition push_suppression_diagnostic :: "string \<Rightarrow> alert_deduplicator \<Rightarrow> alert_deduplicator" where
  "push_suppression_diagnostic fingerprint d =
     (let diagnostic = CHR 0x7B # quote_char # ''alert_key'' @ quote_char # CHR '':'' #
            write_json_string fingerprint @ [CHR 0x7D];
          log = ad_suppression_log d;
          max_keys = dc_max_keys (ad_config d);
          log1 = (if 0 < max_keys \<and> max_keys \<le> length log then drop (length log - max_keys + 1) log else log)
      in d\<lparr>ad_suppression_log := log1 @ [diagnostic]\<rparr>)"

text \<open>\<open>min_by_key\<close> keeps the first of the entries with the least time, in the order of the keys.\<close>

fun oldest_key :: "(string \<times> (u64 \<times> u64)) list \<Rightarrow> (string \<times> u64) option" where
  "oldest_key [] = None"
| "oldest_key ((k, (ts, n)) # m) =
     (case oldest_key m of
        None \<Rightarrow> Some (k, ts)
      | Some (k1, ts1) \<Rightarrow> if ts1 < ts then Some (k1, ts1) else Some (k, ts))"

definition should_fire :: "string \<Rightarrow> u64 \<Rightarrow> alert_deduplicator \<Rightarrow> bool \<times> alert_deduplicator" where
  "should_fire fingerprint now d =
     (let window = dc_window_seconds (ad_config d); max_keys = dc_max_keys (ad_config d); m = ad_last_fired d
      in if window = 0 then (True, d)
         else case bm_get m fingerprint of
           Some (fired, n) \<Rightarrow>
             if sat_sub now fired < window then
               (False, push_suppression_diagnostic fingerprint
                  (d\<lparr>ad_last_fired := bm_insert fingerprint (fired, sat_add n 1) m\<rparr>))
             else (True, d\<lparr>ad_last_fired := bm_insert fingerprint (now, 0) m\<rparr>)
         | None \<Rightarrow>
             let m1 = (if 0 < max_keys \<and> max_keys \<le> length m then
                         (case oldest_key m of None \<Rightarrow> m | Some (k, _) \<Rightarrow> bm_remove k m)
                       else m)
             in (True, d\<lparr>ad_last_fired := bm_insert fingerprint (now, 0) m1\<rparr>))"

definition drain_suppression_log :: "alert_deduplicator \<Rightarrow> string list \<times> alert_deduplicator" where
  "drain_suppression_log d = (ad_suppression_log d, d\<lparr>ad_suppression_log := []\<rparr>)"

definition reset_alert :: "string \<Rightarrow> alert_deduplicator \<Rightarrow> alert_deduplicator" where
  "reset_alert fingerprint d = d\<lparr>ad_last_fired := bm_remove fingerprint (ad_last_fired d)\<rparr>"

definition reset_all_alerts :: "alert_deduplicator \<Rightarrow> alert_deduplicator" where
  "reset_all_alerts d = d\<lparr>ad_last_fired := []\<rparr>"

definition last_fired_at :: "alert_deduplicator \<Rightarrow> string \<Rightarrow> u64 option" where
  "last_fired_at d fingerprint = map_option fst (bm_get (ad_last_fired d) fingerprint)"

definition suppress_count_for :: "alert_deduplicator \<Rightarrow> string \<Rightarrow> u64 option" where
  "suppress_count_for d fingerprint = map_option snd (bm_get (ad_last_fired d) fingerprint)"

definition tracked_count :: "alert_deduplicator \<Rightarrow> nat" where
  "tracked_count d = length (ad_last_fired d)"

section \<open>Silenced alerts\<close>

record suppressed_entry =
  su_fingerprint :: string
  su_expires_at :: u64
  su_reason :: string

type_synonym alert_suppressor = "(string, suppressed_entry) btree_map"

definition suppress :: "string \<Rightarrow> u64 \<Rightarrow> u64 \<Rightarrow> string \<Rightarrow> alert_suppressor \<Rightarrow> alert_suppressor" where
  "suppress fingerprint now expires_at reason sp =
     (if expires_at \<le> now then sp
      else bm_insert fingerprint
        \<lparr>su_fingerprint = fingerprint, su_expires_at = expires_at, su_reason = reason\<rparr> sp)"

definition is_suppressed :: "string \<Rightarrow> u64 \<Rightarrow> alert_suppressor \<Rightarrow> bool \<times> alert_suppressor" where
  "is_suppressed fingerprint now sp =
     (case bm_get sp fingerprint of
        None \<Rightarrow> (False, sp)
      | Some entry \<Rightarrow>
          if su_expires_at entry \<le> now then (False, bm_remove (su_fingerprint entry) sp) else (True, sp))"

definition unsuppress :: "string \<Rightarrow> alert_suppressor \<Rightarrow> alert_suppressor" where
  "unsuppress fingerprint sp = bm_remove fingerprint sp"

definition suppressor_purge_expired :: "u64 \<Rightarrow> alert_suppressor \<Rightarrow> alert_suppressor" where
  "suppressor_purge_expired now sp = bm_retain (\<lambda>_ e. now < su_expires_at e) sp"

definition active_count :: "alert_suppressor \<Rightarrow> u64 \<Rightarrow> nat" where
  "active_count sp now = length (filter (\<lambda>e. now < su_expires_at e) (map snd sp))"

section \<open>The filter\<close>

record alert_filter =
  af_dedup :: alert_deduplicator
  af_suppressor :: alert_suppressor

definition filter_new :: "dedup_config \<Rightarrow> alert_filter" where
  "filter_new c = \<lparr>af_dedup = deduplicator_new c, af_suppressor = []\<rparr>"

definition should_deliver :: "string \<Rightarrow> u64 \<Rightarrow> alert_filter \<Rightarrow> bool \<times> alert_filter" where
  "should_deliver fingerprint now af =
     (case is_suppressed fingerprint now (af_suppressor af) of
        (True, sp) \<Rightarrow> (False, af\<lparr>af_suppressor := sp\<rparr>)
      | (False, sp) \<Rightarrow>
          let (fire, d) = should_fire fingerprint now (af_dedup af)
          in (fire, af\<lparr>af_suppressor := sp, af_dedup := d\<rparr>))"

section \<open>Memory stays bounded\<close>

definition deduplicator_inv :: "alert_deduplicator \<Rightarrow> bool" where
  "deduplicator_inv d \<longleftrightarrow> bm_wf (ad_last_fired d) \<and>
     (0 < dc_max_keys (ad_config d) \<longrightarrow>
       length (ad_last_fired d) \<le> dc_max_keys (ad_config d) \<and>
       length (ad_suppression_log d) \<le> dc_max_keys (ad_config d))"

definition suppressor_inv :: "alert_suppressor \<Rightarrow> bool" where
  "suppressor_inv sp \<longleftrightarrow> bm_wf sp \<and> list_all (\<lambda>(k, e). su_fingerprint e = k) sp"

lemma oldest_key_spec:
  "case oldest_key m of
     None \<Rightarrow> m = []
   | Some (k, ts) \<Rightarrow> (\<exists>n. (k, (ts, n)) \<in> set m) \<and> (\<forall>(j, (t, n)) \<in> set m. ts \<le> t)"
proof (induction m rule: oldest_key.induct)
  case (2 k ts n m)
  then show ?case by (force split: option.splits prod.splits)
qed simp

lemma push_diagnostic_fields [simp]:
  "ad_config (push_suppression_diagnostic fp d) = ad_config d"
  "ad_last_fired (push_suppression_diagnostic fp d) = ad_last_fired d"
  by (simp_all add: push_suppression_diagnostic_def Let_def)

lemma push_diagnostic_length:
  assumes "0 < dc_max_keys (ad_config d)" and "length (ad_suppression_log d) \<le> dc_max_keys (ad_config d)"
  shows "length (ad_suppression_log (push_suppression_diagnostic fp d)) \<le> dc_max_keys (ad_config d)"
proof -
  have "length log - m + 1 \<le> length log" if "0 < m" "m \<le> length log" for log :: "string list" and m
    using that by linarith
  with assms show ?thesis by (auto simp: push_suppression_diagnostic_def Let_def)
qed

lemma should_fire_config [simp]: "ad_config (snd (should_fire fp now d)) = ad_config d"
  by (simp add: should_fire_def Let_def split: option.split prod.split)

lemma evicted_length:
  assumes "bm_wf m" and "oldest_key m = Some (k, ts)"
  shows "length (bm_remove k m) = length m - 1"
proof -
  from oldest_key_spec [of m] assms(2) obtain n where "(k, (ts, n)) \<in> set m" by auto
  then have "bm_get m k \<noteq> None" by (auto simp: map_of_eq_None_iff intro: rev_image_eqI)
  then show ?thesis by (simp only: length_bm_remove [OF assms(1)] if_False)
qed

lemma deduplicator_inv_fire:
  assumes "deduplicator_inv d"
  shows "deduplicator_inv (snd (should_fire fp now d))"
proof (cases "dc_window_seconds (ad_config d) = 0")
  case True
  with assms show ?thesis by (simp add: should_fire_def)
next
  case False
  let ?m = "ad_last_fired d" and ?max = "dc_max_keys (ad_config d)"
  have wf: "bm_wf ?m" using assms by (simp add: deduplicator_inv_def)
  show ?thesis
  proof (cases "bm_get ?m fp")
    case (Some x)
    with False assms show ?thesis
      using push_diagnostic_length [of "d\<lparr>ad_last_fired := y\<rparr>" for y]
      by (auto simp: should_fire_def Let_def deduplicator_inv_def length_bm_insert split: prod.split)
  next
    case None
    define m1 where "m1 = (if 0 < ?max \<and> ?max \<le> length ?m then
        (case oldest_key ?m of None \<Rightarrow> ?m | Some (k, _) \<Rightarrow> bm_remove k ?m) else ?m)"
    have "bm_wf m1" using wf by (simp add: m1_def split: option.split)
    moreover have "length m1 < ?max" if "0 < ?max"
      using that assms oldest_key_spec [of ?m] evicted_length [OF wf]
      by (auto simp: m1_def deduplicator_inv_def split: option.splits)
    moreover have "snd (should_fire fp now d) = d\<lparr>ad_last_fired := bm_insert fp (now, 0) m1\<rparr>"
      using False None by (simp add: should_fire_def m1_def Let_def)
    ultimately show ?thesis
      using assms by (auto simp: deduplicator_inv_def length_bm_insert)
  qed
qed

lemma suppressor_invs:
  assumes "suppressor_inv sp"
  shows "suppressor_inv (suppress fp now exp reason sp)" "suppressor_inv (snd (is_suppressed fp now sp))"
    "suppressor_inv (unsuppress fp sp)" "suppressor_inv (suppressor_purge_expired now sp)"
proof -
  have ins: "list_all (\<lambda>(k, e). su_fingerprint e = k) (bm_insert fp e m)"
    if "list_all (\<lambda>(k, e). su_fingerprint e = k) m" "su_fingerprint e = fp" for m and e :: suppressed_entry
    using that by (induction fp e m rule: bm_insert.induct) auto
  have flt: "list_all P (filter Q m)" if "list_all P m" for P Q and m :: alert_suppressor
    using that by (auto simp: list_all_iff)
  show "suppressor_inv (suppress fp now exp reason sp)"
    using assms ins by (simp add: suppressor_inv_def suppress_def)
  show "suppressor_inv (snd (is_suppressed fp now sp))" "suppressor_inv (unsuppress fp sp)"
    "suppressor_inv (suppressor_purge_expired now sp)"
    using assms flt
    by (auto simp: suppressor_inv_def is_suppressed_def unsuppress_def suppressor_purge_expired_def
        bm_remove_def bm_retain_def bm_wf_filter split: option.split)
qed

text \<open>Asking is a pure question: the lazy removal of an expired entry changes no later answer.\<close>

lemma is_suppressed_result:
  assumes "suppressor_inv sp"
  shows "fst (is_suppressed fp now sp) \<longleftrightarrow> (\<exists>e. bm_get sp fp = Some e \<and> now < su_expires_at e)"
  by (auto simp: is_suppressed_def split: option.split)

lemma is_suppressed_stable:
  assumes "suppressor_inv sp" and "now \<le> later"
  shows "fst (is_suppressed j later (snd (is_suppressed fp now sp))) = fst (is_suppressed j later sp)"
proof (cases "bm_get sp fp")
  case (Some e)
  then have "su_fingerprint e = fp"
    using assms(1) map_of_SomeD [OF Some] by (auto simp: suppressor_inv_def list_all_iff)
  with Some assms(2) show ?thesis by (auto simp: is_suppressed_def split: option.split)
qed (simp add: is_suppressed_def)

section \<open>Windows of silence\<close>

text \<open>What happens to a filter: an alert, and the operators' commands.\<close>

datatype filter_event =
    Alert string u64
  | Silence string u64 u64 string
  | Unsilence string u64

fun event_key :: "filter_event \<Rightarrow> string" where
  "event_key (Alert fp now) = fp"
| "event_key (Silence fp now expires_at reason) = fp"
| "event_key (Unsilence fp now) = fp"

fun event_time :: "filter_event \<Rightarrow> u64" where
  "event_time (Alert fp now) = now"
| "event_time (Silence fp now expires_at reason) = now"
| "event_time (Unsilence fp now) = now"

text \<open>Whether something is delivered, and the filter afterwards.\<close>

fun filter_step :: "filter_event \<Rightarrow> alert_filter \<Rightarrow> bool \<times> alert_filter" where
  "filter_step (Alert fp now) af = should_deliver fp now af"
| "filter_step (Silence fp now expires_at reason) af =
     (False, af\<lparr>af_suppressor := suppress fp now expires_at reason (af_suppressor af)\<rparr>)"
| "filter_step (Unsilence fp now) af = (False, af\<lparr>af_suppressor := unsuppress fp (af_suppressor af)\<rparr>)"

definition fired :: "alert_filter \<Rightarrow> string \<Rightarrow> nat \<Rightarrow> bool" where
  "fired af fp t \<longleftrightarrow> (\<exists>ts n. bm_get (ad_last_fired (af_dedup af)) fp = Some (ts, n) \<and> unat ts = t)"

lemma unlimited_fire:
  assumes "dc_max_keys (ad_config d) = 0" and "dc_window_seconds (ad_config d) \<noteq> 0" and "bm_wf (ad_last_fired d)"
  shows "fst (should_fire fp now d) \<longleftrightarrow>
      (case bm_get (ad_last_fired d) fp of None \<Rightarrow> True
       | Some (ts, n) \<Rightarrow> \<not> sat_sub now ts < dc_window_seconds (ad_config d))"
    and "map_option fst (bm_get (ad_last_fired (snd (should_fire fp now d))) j) =
      (if j = fp \<and> fst (should_fire fp now d) then Some now else map_option fst (bm_get (ad_last_fired d) j))"
  using assms by (auto simp: should_fire_def Let_def split: option.split prod.split)

lemma fired_alt: "fired af fp t \<longleftrightarrow> (\<exists>ts. map_option fst (bm_get (ad_last_fired (af_dedup af)) fp) = Some ts \<and> unat ts = t)"
  by (auto simp: fired_def)

lemma deliver_cases:
  "should_deliver fp now af =
    (if fst (is_suppressed fp now (af_suppressor af))
     then (False, af\<lparr>af_suppressor := snd (is_suppressed fp now (af_suppressor af))\<rparr>)
     else (fst (should_fire fp now (af_dedup af)),
       af\<lparr>af_suppressor := snd (is_suppressed fp now (af_suppressor af)), af_dedup := snd (should_fire fp now (af_dedup af))\<rparr>))"
  by (cases "is_suppressed fp now (af_suppressor af)"; cases "fst (is_suppressed fp now (af_suppressor af))")
    (auto simp: should_deliver_def split: prod.split)

definition unlimited_filter :: "u64 \<Rightarrow> alert_filter \<Rightarrow> bool" where
  "unlimited_filter w af \<longleftrightarrow> deduplicator_inv (af_dedup af) \<and> dc_max_keys (ad_config (af_dedup af)) = 0 \<and>
     dc_window_seconds (ad_config (af_dedup af)) = w \<and> w \<noteq> 0"

interpretation alerts: dedup_window filter_step event_key "\<lambda>r. unat (event_time r)" "\<lambda>_. True"
  "unlimited_filter w" fired "unat w - 1" for w :: u64
proof
  fix r :: filter_event and af :: alert_filter
  assume inv: "unlimited_filter w af"
  let ?d = "af_dedup af"
  have wf: "dc_max_keys (ad_config ?d) = 0" "dc_window_seconds (ad_config ?d) \<noteq> 0" "bm_wf (ad_last_fired ?d)"
    and w: "dc_window_seconds (ad_config ?d) = w"
    using inv by (simp_all add: unlimited_filter_def deduplicator_inv_def)
  show "unlimited_filter w (snd (filter_step r af))"
    using inv by (cases r) (simp_all add: unlimited_filter_def deliver_cases deduplicator_inv_fire)
  show "fired (snd (filter_step r af)) (event_key r) (unat (event_time r))" if "fst (filter_step r af)"
    using that by (cases r) (auto simp: fired_alt deliver_cases unlimited_fire(2) [OF wf] simp del: map_option_eq_Some split: if_splits)
  fix k :: string and t :: nat
  assume later: "t \<le> unat (event_time r)" "unat (event_time r) \<le> t + (unat w - 1)"
  have quiet: "\<not> fst (should_fire k (event_time r) ?d)" if "fired af k t" for k
  proof -
    from that obtain ts n where ts: "bm_get (ad_last_fired ?d) k = Some (ts, n)" "unat ts = t" by (auto simp: fired_def)
    have "0 < unat w" using inv by (simp add: unlimited_filter_def unat_gt_0)
    with later ts have "unat (event_time r) - unat ts < unat w" by linarith
    with ts(1) w show ?thesis by (simp add: unlimited_fire(1) [OF wf] word_less_nat_alt unat_simps)
  qed
  show "fired (snd (filter_step r af)) k t" if "fired af k t"
    using that quiet [OF that] by (cases r) (auto simp: fired_alt deliver_cases unlimited_fire(2) [OF wf] simp del: map_option_eq_Some)
  show "\<not> fst (filter_step r af)" if "fired af (event_key r) t"
    using quiet [OF that] by (cases r) (auto simp: deliver_cases)
qed

text \<open>
  However alerts and the operators' commands interleave in the order of time, a filter without a
  limit on its keys delivers alerts with one fingerprint at least the window apart, and at no time
  an alert that is silenced.
\<close>

theorem alert_window:
  assumes "c = \<lparr>dc_window_seconds = w, dc_max_keys = 0\<rparr>" and "w \<noteq> 0"
    and "sorted (map (\<lambda>r. unat (event_time r)) rs)"
  shows "sorted_wrt (\<lambda>r r'. event_key r = event_key r' \<longrightarrow> unat (event_time r) + unat w \<le> unat (event_time r'))
      (let_through filter_step (filter_new c) rs) \<and>
    (fst (should_deliver fp now af) \<longrightarrow> \<not> fst (is_suppressed fp now (af_suppressor af)))"
proof
  have "unlimited_filter w (filter_new c)"
    using assms(1,2) by (simp add: unlimited_filter_def filter_new_def deduplicator_new_def deduplicator_inv_def)
  from alerts.passes_spaced [OF this assms(3)]
  have "sorted_wrt (\<lambda>r r'. event_key r = event_key r' \<longrightarrow> unat (event_time r) + (unat w - 1) < unat (event_time r'))
      (let_through filter_step (filter_new c) rs)" by (simp add: list_all_iff)
  then show "sorted_wrt (\<lambda>r r'. event_key r = event_key r' \<longrightarrow> unat (event_time r) + unat w \<le> unat (event_time r'))
      (let_through filter_step (filter_new c) rs)"
    by (rule sorted_wrt_mono_rel [rotated]) (use assms(2) in \<open>auto simp: unat_gt_0\<close>)
qed (simp add: deliver_cases)

definition sample_alerts :: "filter_event list" where
  "sample_alerts = [Alert ''a'' 1000, Silence ''b'' 1001 5000 ''maintenance'', Alert ''b'' 1002, Alert ''a'' 1100,
     Unsilence ''b'' 1200, Alert ''b'' 1250, Alert ''a'' 1300]"

theorem alert_window_witness:
  "let_through filter_step (filter_new \<lparr>dc_window_seconds = 300, dc_max_keys = 0\<rparr>) sample_alerts =
     [Alert ''a'' 1000, Alert ''b'' 1250, Alert ''a'' 1300] \<and>
   sorted_wrt (\<lambda>r r'. event_key r = event_key r' \<longrightarrow> unat (event_time r) + unat (300 :: u64) \<le> unat (event_time r'))
      (let_through filter_step (filter_new \<lparr>dc_window_seconds = 300, dc_max_keys = 0\<rparr>) sample_alerts)"
proof -
  have "sorted (map (\<lambda>r. unat (event_time r)) sample_alerts)" by (simp add: sample_alerts_def)
  from alert_window [OF refl _ this, of 300]
  have "sorted_wrt (\<lambda>r r'. event_key r = event_key r' \<longrightarrow> unat (event_time r) + unat (300 :: u64) \<le> unat (event_time r'))
      (let_through filter_step (filter_new \<lparr>dc_window_seconds = 300, dc_max_keys = 0\<rparr>) sample_alerts)" by simp
  moreover have "let_through filter_step (filter_new \<lparr>dc_window_seconds = 300, dc_max_keys = 0\<rparr>) sample_alerts =
     [Alert ''a'' 1000, Alert ''b'' 1250, Alert ''a'' 1300]"
    by (simp add: sample_alerts_def filter_new_def deduplicator_new_def should_deliver_def is_suppressed_def
        should_fire_def suppress_def unsuppress_def bm_remove_def sat_sub_def push_suppression_diagnostic_def)
  ultimately show ?thesis by blast
qed

text \<open>With a limit on the keys an eviction ends a window early: three alerts in two seconds.\<close>

lemma eviction_ends_window:
  "map event_time (let_through filter_step (filter_new \<lparr>dc_window_seconds = 300, dc_max_keys = 1\<rparr>)
     [Alert ''a'' 1000, Alert ''b'' 1001, Alert ''a'' 1002]) = [1000, 1001, 1002]"
  by (simp add: filter_new_def deduplicator_new_def should_deliver_def is_suppressed_def should_fire_def
      bm_remove_def)

end
