(* ===== verification/Alert_Routing.thy ===== *)
theory Alert_Routing
  imports Errors Ascii_Text
begin

text \<open>
  \<^verbatim>\<open>src/alert_routing.rs\<close>: severities, routes and rules, and the router.  The configuration of the
  monitoring (\<^verbatim>\<open>src/config.rs\<close>) is modelled by the fields the router reads.
\<close>

datatype alert_severity = SevInfo | SevWarning | SevError | SevCritical

definition severity_number :: "alert_severity \<Rightarrow> nat" where
  "severity_number s = (case s of SevInfo \<Rightarrow> 0 | SevWarning \<Rightarrow> 1 | SevError \<Rightarrow> 2 | SevCritical \<Rightarrow> 3)"

instantiation alert_severity :: linorder
begin

definition less_eq_alert_severity :: "alert_severity \<Rightarrow> alert_severity \<Rightarrow> bool" where
  "less_eq_alert_severity a b \<longleftrightarrow> severity_number a \<le> severity_number b"

definition less_alert_severity :: "alert_severity \<Rightarrow> alert_severity \<Rightarrow> bool" where
  "less_alert_severity a b \<longleftrightarrow> severity_number a < severity_number b"

instance
  by standard
    (auto simp: less_eq_alert_severity_def less_alert_severity_def severity_number_def split: alert_severity.splits)

end

definition severity_label :: "alert_severity \<Rightarrow> string" where
  "severity_label s =
     (case s of SevInfo \<Rightarrow> ''info'' | SevWarning \<Rightarrow> ''warning'' | SevError \<Rightarrow> ''error'' | SevCritical \<Rightarrow> ''critical'')"

definition severity_from_str :: "string \<Rightarrow> alert_severity option" where
  "severity_from_str s =
     (let l = to_ascii_lowercase s
      in if l = ''info'' then Some SevInfo
         else if l = ''warning'' then Some SevWarning
         else if l = ''error'' then Some SevError
         else if l = ''critical'' then Some SevCritical
         else None)"

definition default_severity :: alert_severity where "default_severity = SevWarning"

record alert_route =
  ar_channel :: string
  ar_destination :: string

definition route_webhook :: "string \<Rightarrow> alert_route" where
  "route_webhook url = \<lparr>ar_channel = ''webhook'', ar_destination = url\<rparr>"

definition route_email :: "string \<Rightarrow> alert_route" where
  "route_email a = \<lparr>ar_channel = ''email'', ar_destination = a\<rparr>"

definition route_new :: "string \<Rightarrow> string \<Rightarrow> alert_route" where
  "route_new channel destination = \<lparr>ar_channel = channel, ar_destination = destination\<rparr>"

definition route_try_new :: "string \<Rightarrow> string \<Rightarrow> anchor_kit_error + alert_route" where
  "route_try_new channel destination =
     (if trim_text destination = [] then Inl (validation_error ''destination'')
      else Inr \<lparr>ar_channel = channel, ar_destination = destination\<rparr>)"

record alert_rule =
  au_severity :: alert_severity
  au_scope :: "string option"
  au_routes :: "alert_route list"

definition alert_rule_matches :: "alert_rule \<Rightarrow> alert_severity \<Rightarrow> string option \<Rightarrow> bool" where
  "alert_rule_matches r severity scope =
     (if au_severity r \<noteq> severity then False
      else case (au_scope r, scope) of
        (None, _) \<Rightarrow> True
      | (Some a, Some b) \<Rightarrow> a = b
      | (Some _, None) \<Rightarrow> False)"

record alert_router_config =
  ac_rules :: "alert_rule list"
  ac_default_routes :: "alert_route list"

text \<open>\<open>retain\<close> with a set of the routes seen: every route is kept once, where it first occurs.\<close>

fun keep_first :: "(string \<times> string) set \<Rightarrow> alert_route list \<Rightarrow> alert_route list" where
  "keep_first seen [] = []"
| "keep_first seen (r # rs) =
     (if (ar_channel r, ar_destination r) \<in> seen then keep_first seen rs
      else r # keep_first (insert (ar_channel r, ar_destination r) seen) rs)"

definition route_alert :: "alert_router_config \<Rightarrow> alert_severity \<Rightarrow> string option \<Rightarrow> alert_route list" where
  "route_alert c severity scope =
     (let matched = concat (map au_routes (filter (\<lambda>r. alert_rule_matches r severity scope) (ac_rules c)));
          matched1 = (if matched = [] then ac_default_routes c else matched)
      in keep_first {} matched1)"

definition has_route :: "alert_router_config \<Rightarrow> alert_severity \<Rightarrow> string option \<Rightarrow> bool" where
  "has_route c severity scope \<longleftrightarrow> route_alert c severity scope \<noteq> []"

text \<open>One alert of the monitoring configuration.\<close>

record alert_config =
  al_condition :: string
  al_severity :: string
  al_recipients :: "string list"

definition invalid_severity :: "string \<Rightarrow> anchor_kit_error" where
  "invalid_severity shown = validation_error
     (''monitoring.alerts[].severity: invalid severity '' @ shown @ '' (expected info|warning|error|critical)'')"

text \<open>\<open>show\<close> is the \<open>Debug\<close> output of a string.  The argument is the list of alerts, if the
  configuration has one.\<close>

definition rule_of_alert :: "(string \<Rightarrow> string) \<Rightarrow> alert_rule list \<Rightarrow> alert_config \<Rightarrow> anchor_kit_error + alert_rule list" where
  "rule_of_alert show rules alert =
     bind_ok (of_option (invalid_severity (show (al_severity alert))) (severity_from_str (al_severity alert))) (\<lambda>severity.
       let scope = (if al_condition alert = [] then None else Some (al_condition alert));
           routes = map route_webhook (filter (\<lambda>r. trim_text r \<noteq> []) (al_recipients alert))
       in Inr (if routes \<noteq> [] then rules @ [\<lparr>au_severity = severity, au_scope = scope, au_routes = routes\<rparr>] else rules))"

definition from_monitoring_config :: "(string \<Rightarrow> string) \<Rightarrow> alert_config list option \<Rightarrow> anchor_kit_error + alert_router_config" where
  "from_monitoring_config show alerts =
     (case alerts of
        None \<Rightarrow> Inr \<lparr>ac_rules = [], ac_default_routes = []\<rparr>
      | Some as \<Rightarrow>
          bind_ok (list_bind (rule_of_alert show) [] as) (\<lambda>rules.
            Inr \<lparr>ac_rules = rules, ac_default_routes = []\<rparr>))"

section \<open>What the router selects\<close>

lemma set_keep_first: "set (keep_first seen rs) = {r \<in> set rs. (ar_channel r, ar_destination r) \<notin> seen}"
proof (induction seen rs rule: keep_first.induct)
  case (2 seen r rs)
  have "(ar_channel x, ar_destination x) = (ar_channel r, ar_destination r) \<longleftrightarrow> x = r" for x :: alert_route
    by (cases x; cases r) simp
  with 2 show ?case by auto
qed simp

lemma distinct_keep_first: "distinct (keep_first seen rs)"
  by (induction seen rs rule: keep_first.induct) (auto simp: set_keep_first)

lemma alert_rule_matches_iff:
  "alert_rule_matches r severity scope \<longleftrightarrow> au_severity r = severity \<and> (au_scope r = None \<or> au_scope r = scope)"
  by (auto simp: alert_rule_matches_def split: option.split)

lemma severity_label_roundtrip: "severity_from_str (severity_label s) = Some s"
  by (cases s) (simp_all add: severity_from_str_def severity_label_def to_ascii_lowercase_def lower_char_def
      ascii_upper_def)

lemma route_alert_routes:
  "distinct (route_alert c severity scope)"
  "set (route_alert c severity scope) =
    (let matched = {t. \<exists>r \<in> set (ac_rules c). alert_rule_matches r severity scope \<and> t \<in> set (au_routes r)}
     in if matched = {} then set (ac_default_routes c) else matched)"
proof -
  show "distinct (route_alert c severity scope)" by (simp add: route_alert_def Let_def distinct_keep_first)
  define m where "m = concat (map au_routes (filter (\<lambda>r. alert_rule_matches r severity scope) (ac_rules c)))"
  have "set m = {t. \<exists>r \<in> set (ac_rules c). alert_rule_matches r severity scope \<and> t \<in> set (au_routes r)}"
    by (auto simp: m_def)
  moreover have "set (route_alert c severity scope) = (if set m = {} then set (ac_default_routes c) else set m)"
    unfolding route_alert_def Let_def m_def [symmetric] by (simp add: set_keep_first)
  ultimately show "set (route_alert c severity scope) =
    (let matched = {t. \<exists>r \<in> set (ac_rules c). alert_rule_matches r severity scope \<and> t \<in> set (au_routes r)}
     in if matched = {} then set (ac_default_routes c) else matched)"
    by (simp only: Let_def)
qed

text \<open>A rule without routes does not keep the default routes from being used.\<close>

lemma empty_rule_falls_back:
  assumes "\<And>r. r \<in> set (ac_rules c) \<Longrightarrow> alert_rule_matches r severity scope \<Longrightarrow> au_routes r = []"
  shows "set (route_alert c severity scope) = set (ac_default_routes c)"
  using assms by (auto simp: route_alert_routes(2) Let_def)

text \<open>
  A configuration is accepted exactly if every severity is one of the four labels, in any case; then
  an alert reaches exactly the non-blank recipients of the entries with its severity whose condition
  is empty or its scope.
\<close>

lemma rules_of_alerts:
  "list_bind (rule_of_alert show) rules as = Inr rules1 \<longleftrightarrow>
    list_all (\<lambda>a. severity_from_str (al_severity a) \<noteq> None) as \<and>
    rules1 = rules @ List.map_filter (\<lambda>a.
      let routes = map route_webhook (filter (\<lambda>r. trim_text r \<noteq> []) (al_recipients a))
      in if routes = [] then None
         else Some \<lparr>au_severity = the (severity_from_str (al_severity a)),
           au_scope = (if al_condition a = [] then None else Some (al_condition a)), au_routes = routes\<rparr>) as"
  by (induction as arbitrary: rules)
    (auto simp: rule_of_alert_def ok_simps List.map_filter_simps Let_def split: option.splits if_splits)

lemma configured_routes:
  assumes "from_monitoring_config show (Some as) = Inr c"
  shows "set (route_alert c severity scope) =
    {route_webhook r | r a. a \<in> set as \<and> r \<in> set (al_recipients a) \<and> trim_text r \<noteq> [] \<and>
       severity_from_str (al_severity a) = Some severity \<and> (al_condition a = [] \<or> scope = Some (al_condition a))}"
    (is "_ = ?R")
proof -
  let ?rule = "\<lambda>a. let routes = map route_webhook (filter (\<lambda>r. trim_text r \<noteq> []) (al_recipients a))
      in if routes = [] then None
         else Some \<lparr>au_severity = the (severity_from_str (al_severity a)),
           au_scope = (if al_condition a = [] then None else Some (al_condition a)), au_routes = routes\<rparr>"
  from assms have c: "ac_rules c = List.map_filter ?rule as" "ac_default_routes c = []"
    and known: "\<And>a. a \<in> set as \<Longrightarrow> severity_from_str (al_severity a) \<noteq> None"
    by (auto simp: from_monitoring_config_def ok_simps rules_of_alerts list_all_iff)
  have "{t. \<exists>r \<in> set (ac_rules c). alert_rule_matches r severity scope \<and> t \<in> set (au_routes r)} = ?R"
  proof (intro set_eqI iffI)
    fix t assume "t \<in> {t. \<exists>r \<in> set (ac_rules c). alert_rule_matches r severity scope \<and> t \<in> set (au_routes r)}"
    then obtain a r where a: "a \<in> set as" "?rule a = Some r" "alert_rule_matches r severity scope" "t \<in> set (au_routes r)"
      by (auto simp: c(1) List.map_filter_def)
    with known [of a] show "t \<in> ?R"
      by (fastforce simp: alert_rule_matches_iff Let_def split: if_splits)
  next
    fix t assume "t \<in> ?R"
    then obtain r a where a: "t = route_webhook r" "a \<in> set as" "r \<in> set (al_recipients a)" "trim_text r \<noteq> []"
      "severity_from_str (al_severity a) = Some severity" "al_condition a = [] \<or> scope = Some (al_condition a)" by blast
    then have "map route_webhook (filter (\<lambda>r. trim_text r \<noteq> []) (al_recipients a)) \<noteq> []"
      by (auto simp: filter_empty_conv)
    then obtain u where u: "?rule a = Some u" by (simp only: Let_def if_False)
    with a have "alert_rule_matches u severity scope" "t \<in> set (au_routes u)"
      by (auto simp: alert_rule_matches_iff Let_def split: if_splits)
    moreover have "u \<in> set (ac_rules c)"
      unfolding c(1) List.map_filter_def set_map
      by (rule image_eqI [of _ _ a]) (simp_all only: comp_apply u option.sel set_filter mem_Collect_eq a(2)
          option.distinct simp_thms)
    ultimately show "t \<in> {t. \<exists>r \<in> set (ac_rules c). alert_rule_matches r severity scope \<and> t \<in> set (au_routes r)}" by blast
  qed
  with c(2) show ?thesis by (simp add: route_alert_routes(2) Let_def)
qed

end
