(* ===== verification/Url_Normalizer.thy ===== *)
theory Url_Normalizer
  imports Domain_Validator
begin

text \<open>
  \<^verbatim>\<open>src/url_normalizer.rs\<close>: the canonical form of addresses, and the lists of hosts that are allowed
  or blocked.  The results say when the form is canonical and that no address gets around the lists.
\<close>

section \<open>Normalisation\<close>

definition default_port_suffix :: "string \<Rightarrow> string option" where
  "default_port_suffix scheme_lower =
     (if scheme_lower = ''https'' then Some '':443''
      else if scheme_lower = ''http'' then Some '':80''
      else None)"

definition normalize_url :: "string \<Rightarrow> anchor_kit_error + string" where
  "normalize_url url =
     (let trimmed = trim_text url in
      if trimmed = [] then bad_endpoint
      else case split_once ''://'' trimmed of
        None \<Rightarrow> bad_endpoint
      | Some (sch, after_scheme) \<Rightarrow>
          let scheme_lower = to_ascii_lowercase sch;
              authority_raw = takeWhile (\<lambda>c. \<not> is_delimiter c) after_scheme;
              rest = dropWhile (\<lambda>c. \<not> is_delimiter c) after_scheme;
              authority_lower = to_ascii_lowercase authority_raw;
              authority_normalised =
                (case default_port_suffix scheme_lower of
                   Some suffix \<Rightarrow>
                     if ends_with suffix authority_lower
                     then take (length authority_lower - length suffix) authority_lower
                     else authority_lower
                 | None \<Rightarrow> authority_lower);
              rest_normalised = (if rest = ''/'' then [] else rest)
          in Inr (scheme_lower @ ''://'' @ authority_normalised @ rest_normalised))"

definition extract_hostname :: "string \<Rightarrow> string option" where
  "extract_hostname url =
     Option.bind (split_once ''://'' url) (\<lambda>(_, after_scheme).
       let authority = takeWhile (\<lambda>c. \<not> is_delimiter c) after_scheme in
       if authority = [] then None
       else Some (to_ascii_lowercase
         (case split_last_colon authority of
            Some (before, port) \<Rightarrow> if list_all ascii_digit port then before else authority
          | None \<Rightarrow> authority)))"

section \<open>Lists of hosts\<close>

record url_filter_entry =
  fe_pattern :: string
  fe_exact :: bool

definition suffix_entry :: "string \<Rightarrow> url_filter_entry" where
  "suffix_entry pattern =
     \<lparr>fe_pattern = to_ascii_lowercase (dropWhile (\<lambda>c. c = CHR ''.'') pattern), fe_exact = False\<rparr>"

definition exact_entry :: "string \<Rightarrow> url_filter_entry" where
  "exact_entry hostname = \<lparr>fe_pattern = to_ascii_lowercase hostname, fe_exact = True\<rparr>"

definition entry_matches :: "url_filter_entry \<Rightarrow> string \<Rightarrow> bool" where
  "entry_matches e hostname =
     (if fe_exact e then hostname = fe_pattern e
      else if hostname = fe_pattern e then True
      else if ends_with (fe_pattern e) hostname then
        let prefix_len = length hostname - length (fe_pattern e)
        in 0 < prefix_len \<and> hostname ! (prefix_len - 1) = CHR ''.''
      else False)"

record url_filter_policy =
  uf_allowlist :: "url_filter_entry list"
  uf_blocklist :: "url_filter_entry list"

definition policy_new :: url_filter_policy where
  "policy_new = \<lparr>uf_allowlist = [], uf_blocklist = []\<rparr>"

definition allow_suffix :: "string \<Rightarrow> url_filter_policy \<Rightarrow> url_filter_policy" where
  "allow_suffix pattern p = p\<lparr>uf_allowlist := uf_allowlist p @ [suffix_entry pattern]\<rparr>"

definition allow_exact :: "string \<Rightarrow> url_filter_policy \<Rightarrow> url_filter_policy" where
  "allow_exact hostname p = p\<lparr>uf_allowlist := uf_allowlist p @ [exact_entry hostname]\<rparr>"

definition block_suffix :: "string \<Rightarrow> url_filter_policy \<Rightarrow> url_filter_policy" where
  "block_suffix pattern p = p\<lparr>uf_blocklist := uf_blocklist p @ [suffix_entry pattern]\<rparr>"

definition block_exact :: "string \<Rightarrow> url_filter_policy \<Rightarrow> url_filter_policy" where
  "block_exact hostname p = p\<lparr>uf_blocklist := uf_blocklist p @ [exact_entry hostname]\<rparr>"

definition policy_check :: "url_filter_policy \<Rightarrow> string \<Rightarrow> anchor_kit_error + unit" where
  "policy_check p url =
     bind_ok (normalize_url url) (\<lambda>normalized.
     bind_ok (of_option (from_code InvalidEndpointFormat) (extract_hostname normalized)) (\<lambda>hostname.
       if list_ex (\<lambda>e. entry_matches e hostname) (uf_blocklist p)
       then Inl (with_context InvalidEndpointFormat ''host is on the blocklist'' hostname)
       else if uf_allowlist p \<noteq> [] \<and> \<not> list_ex (\<lambda>e. entry_matches e hostname) (uf_allowlist p)
       then Inl (with_context InvalidEndpointFormat ''host is not on the allowlist'' hostname)
       else Inr ()))"

definition normalize_and_validate :: "string \<Rightarrow> url_filter_policy \<Rightarrow> anchor_kit_error + string" where
  "normalize_and_validate url p =
     bind_ok (normalize_url url) (\<lambda>normalized.
     bind_ok (validate_anchor_domain normalized) (\<lambda>_.
     bind_ok (policy_check p normalized) (\<lambda>_. Inr normalized)))"

text \<open>An entry that is not exact matches the host and the hosts below it.\<close>

lemma char_before_suffix: "(sub @ c # p) ! (length (sub @ c # p) - length p - 1) = c"
  by simp

lemma suffix_after_dot:
  "ends_with p host \<and> 0 < length host - length p \<and> host ! (length host - length p - 1) = CHR ''.'' \<longleftrightarrow>
    (\<exists>sub. host = sub @ CHR ''.'' # p)"
proof
  assume l: "ends_with p host \<and> 0 < length host - length p \<and> host ! (length host - length p - 1) = CHR ''.''"
  then have "ends_with p host" by (elim conjE)
  then obtain pre where host: "host = pre @ p" unfolding ends_with_append by (elim exE)
  from l have "0 < length host - length p" by (elim conjE)
  then have "pre \<noteq> []" by (auto simp only: host list.size append_Nil diff_self_eq_0)
  then obtain sub c where pre: "pre = sub @ [c]" by (cases pre rule: rev_cases) auto
  have eq: "host = sub @ c # p" by (simp add: host pre)
  from l have "host ! (length host - length p - 1) = CHR ''.''" by (elim conjE)
  then have "c = CHR ''.''" unfolding eq by (simp only: char_before_suffix)
  with eq show "\<exists>sub. host = sub @ CHR ''.'' # p" by blast
next
  assume "\<exists>sub. host = sub @ CHR ''.'' # p"
  then obtain sub where eq: "host = sub @ CHR ''.'' # p" ..
  then have "host = (sub @ ''.'') @ p" by simp
  then have "ends_with p host" unfolding ends_with_append by blast
  moreover have "0 < length host - length p" by (simp add: eq)
  moreover have "host ! (length host - length p - 1) = CHR ''.''" unfolding eq by (rule char_before_suffix)
  ultimately show "ends_with p host \<and> 0 < length host - length p \<and> host ! (length host - length p - 1) = CHR ''.''"
    by (intro conjI)
qed

lemma entry_matches_iff:
  "entry_matches e host \<longleftrightarrow>
     host = fe_pattern e \<or> \<not> fe_exact e \<and> (\<exists>sub. host = sub @ CHR ''.'' # fe_pattern e)"
  unfolding entry_matches_def Let_def using suffix_after_dot [of "fe_pattern e" host] by argo

section \<open>Accepted addresses\<close>

lemma map_eq_consE:
  assumes "map f v = a # b # c # []"
  obtains c1 c2 c3 where "v = [c1, c2, c3]" "f c1 = a" "f c2 = b" "f c3 = c"
  using assms by (auto simp: map_eq_Cons_conv)

lemma split_once_map_first:
  assumes "split_once p s = Some (a, b)" and "p \<noteq> []" and "\<And>v. map f v = p \<Longrightarrow> v = p"
  shows "map f a \<noteq> x @ p @ y"
proof
  assume "map f a = x @ p @ y"
  then obtain u r where "a = u @ r" "map f r = p @ y" by (metis map_eq_append_conv)
  then obtain v w where "a = u @ v @ w" "map f v = p" by (metis map_eq_append_conv)
  with assms(3) [of v] split_once_first [OF assms(1,2), of u w] show False by blast
qed

lemma lower_separator: "map lower_char v = ''://'' \<Longrightarrow> v = ''://''"
  by (erule map_eq_consE) (simp only: lower_char_special)

lemma lower_scheme_first:
  assumes "split_once ''://'' s = Some (a, b)"
  shows "to_ascii_lowercase a \<noteq> x @ ''://'' @ y"
  unfolding to_ascii_lowercase_def
  by (rule split_once_map_first [OF assms list.distinct(2)]) (rule lower_separator)

lemma lower_char_digit [simp]: "ascii_digit (lower_char c) = ascii_digit c"
proof (cases "ascii_upper c")
  case True
  then have "\<not> ascii_digit (lower_char c)" "\<not> ascii_digit c"
    by (simp_all add: lower_char_def ascii_upper_def ascii_digit_def)
  then show ?thesis by simp
qed (simp add: lower_char_def)

lemma lower_char_delimiter [simp]: "is_delimiter (lower_char c) = is_delimiter c"
proof (cases "ascii_upper c")
  case True
  then have "97 \<le> code_of (lower_char c)" "65 \<le> code_of c \<and> code_of c \<le> 90"
    by (simp_all add: lower_char_def ascii_upper_def)
  then have "\<not> is_delimiter (lower_char c)" "\<not> is_delimiter c"
    unfolding is_delimiter_def by auto
  then show ?thesis by simp
qed (simp add: lower_char_def)

lemma lower_idem [simp]: "to_ascii_lowercase (to_ascii_lowercase s) = to_ascii_lowercase s"
  by (simp add: to_ascii_lowercase_def comp_def)

lemma lower_length [simp]: "length (to_ascii_lowercase s) = length s"
  by (simp add: to_ascii_lowercase_def)

lemma lower_append: "to_ascii_lowercase (a @ b) = to_ascii_lowercase a @ to_ascii_lowercase b"
  by (simp add: to_ascii_lowercase_def)

text \<open>The parts of an address and of its normal form.\<close>

lemma normalize_url_parts:
  assumes "normalize_url url = Inr n"
  obtains sch raw rest auth where "split_once ''://'' (trim_text url) = Some (sch, raw @ rest)"
    "\<forall>c \<in> set raw. \<not> is_delimiter c" "rest = [] \<or> is_delimiter (hd rest)"
    "n = to_ascii_lowercase sch @ ''://'' @ auth @ (if rest = ''/'' then [] else rest)"
    "to_ascii_lowercase raw = auth \<or>
     (\<exists>suffix. default_port_suffix (to_ascii_lowercase sch) = Some suffix \<and> to_ascii_lowercase raw = auth @ suffix)"
    "to_ascii_lowercase auth = auth" "\<forall>c \<in> set auth. \<not> is_delimiter c"
proof -
  obtain sch after where split: "split_once ''://'' (trim_text url) = Some (sch, after)"
  proof (cases "split_once ''://'' (trim_text url)")
    case None
    with assms show ?thesis by (simp add: normalize_url_def Let_def split: if_splits)
  next
    case (Some ab)
    with that show ?thesis by (cases ab) simp
  qed
  define raw where "raw = takeWhile (\<lambda>c. \<not> is_delimiter c) after"
  define rest where "rest = dropWhile (\<lambda>c. \<not> is_delimiter c) after"
  define low where "low = to_ascii_lowercase raw"
  define auth where "auth =
     (case default_port_suffix (to_ascii_lowercase sch) of
        Some suffix \<Rightarrow> if ends_with suffix low then take (length low - length suffix) low else low
      | None \<Rightarrow> low)"
  have ne: "trim_text url \<noteq> []" using split by auto
  have "Inr n = normalize_url url" using assms by simp
  also have "\<dots> = Inr (to_ascii_lowercase sch @ ''://'' @ auth @ (if rest = ''/'' then [] else rest))"
    unfolding normalize_url_def Let_def if_not_P [OF ne] split option.case prod.case raw_def rest_def low_def auth_def ..
  finally have n: "n = to_ascii_lowercase sch @ ''://'' @ auth @ (if rest = ''/'' then [] else rest)"
    by (simp only: sum.inject)
  have after: "after = raw @ rest" by (simp add: raw_def rest_def)
  have raw: "\<forall>c \<in> set raw. \<not> is_delimiter c" by (auto simp: raw_def dest: set_takeWhileD)
  moreover have "rest = [] \<or> is_delimiter (hd rest)"
    using hd_dropWhile [of "\<lambda>c. \<not> is_delimiter c" after] unfolding rest_def by blast
  moreover have cut: "low = auth \<or> (\<exists>suffix. default_port_suffix (to_ascii_lowercase sch) = Some suffix \<and> low = auth @ suffix)"
    by (auto simp: auth_def ends_with_append split: option.split)
  moreover have "to_ascii_lowercase auth = auth"
  proof -
    from cut obtain suffix where "low = auth @ suffix" by (metis append_Nil2)
    then have "to_ascii_lowercase auth @ to_ascii_lowercase suffix = auth @ suffix"
      unfolding low_def by (metis lower_append lower_idem)
    then show ?thesis by simp
  qed
  moreover have "\<forall>c \<in> set low. \<not> is_delimiter c" using raw by (auto simp: low_def to_ascii_lowercase_def)
  with cut have "\<forall>c \<in> set auth. \<not> is_delimiter c" by auto
  ultimately show thesis using that [OF split [unfolded after] _ _ n] unfolding low_def by blast
qed

lemma normalize_url_shape:
  assumes "normalize_url url = Inr n"
  shows "\<exists>sch auth rest. n = sch @ ''://'' @ auth @ rest \<and> (\<forall>x y. sch \<noteq> x @ ''://'' @ y) \<and>
    to_ascii_lowercase auth = auth \<and> (rest = [] \<or> is_delimiter (hd rest)) \<and> rest \<noteq> ''/'' \<and>
    (\<forall>c \<in> set auth. \<not> is_delimiter c)"
proof -
  obtain sch raw rest auth where split: "split_once ''://'' (trim_text url) = Some (sch, raw @ rest)"
    and raw: "\<forall>c \<in> set raw. \<not> is_delimiter c" "rest = [] \<or> is_delimiter (hd rest)"
    and n: "n = to_ascii_lowercase sch @ ''://'' @ auth @ (if rest = ''/'' then [] else rest)"
    and auth: "to_ascii_lowercase auth = auth" "\<forall>c \<in> set auth. \<not> is_delimiter c"
    by (rule normalize_url_parts [OF assms])
  have "(if rest = ''/'' then [] else rest) = [] \<or> is_delimiter (hd (if rest = ''/'' then [] else rest))"
    "(if rest = ''/'' then [] else rest) \<noteq> ''/''" using raw(2) by simp_all
  with n auth lower_scheme_first [OF split] show ?thesis by blast
qed

lemma https_prefix:
  assumes "sch @ ''://'' @ r = ''https://'' @ q" and "\<And>x y. sch \<noteq> x @ ''://'' @ y"
  shows "sch = ''https'' \<and> r = q"
proof -
  have "sch \<noteq> ''https://'' @ us" for us using assms(2) [of "''https''" us] by simp
  then obtain us where us: "''https://'' = sch @ us" "us @ q = ''://'' @ r"
    using assms(1) append_eq_append_conv2 [of sch "''://'' @ r" "''https://''" q] by auto
  have "us \<noteq> []" using us(1) assms(2) [of "''https''" "[]"] by auto
  moreover have "length sch + length us = 8" using arg_cong [OF us(1), of length] by simp
  ultimately have "length sch < 8" by (cases us) auto
  then consider "length sch = 0" | "length sch = 1" | "length sch = 2" | "length sch = 3" | "length sch = 4"
    | "length sch = 5" | "length sch = 6" | "length sch = 7" by linarith
  then show ?thesis
    using us by cases (auto simp: length_Suc_conv numeral_eq_Suc)
qed

text \<open>
  A validated normal form: the grammar of addresses, with an authority in lower case and without the
  bare slash.
\<close>

lemma normalized_valid:
  assumes "normalize_url url = Inr n" and "validate_anchor_domain n = Inr ()"
  obtains host port t where "n = scheme @ host @ port @ t" "host_grammar host" "port_grammar port" "tail_grammar t"
    "to_ascii_lowercase host = host" "t \<noteq> ''/''" "\<forall>c \<in> set n. url_char c" "12 \<le> length n"
proof -
  from normalize_url_shape [OF assms(1)] obtain sch auth rest where
    n: "n = sch @ ''://'' @ auth @ rest" and sch: "\<And>x y. sch \<noteq> x @ ''://'' @ y"
    and low: "to_ascii_lowercase auth = auth" and rest: "rest = [] \<or> is_delimiter (hd rest)" "rest \<noteq> ''/''"
    and auth: "\<forall>c \<in> set auth. \<not> is_delimiter c" by blast
  from assms(2) obtain host port t where
    g: "n = scheme @ host @ port @ t" "host_grammar host" "port_grammar port" "tail_grammar t"
    and chars: "\<forall>c \<in> set n. url_char c" "12 \<le> length n" by (auto simp: domain_accepted_iff)
  have "auth @ rest = host @ port @ t"
    using https_prefix [OF _ sch] n g(1) by (simp add: scheme_def)
  then have "takeWhile (\<lambda>c. \<not> is_delimiter c) (auth @ rest) = takeWhile (\<lambda>c. \<not> is_delimiter c) ((host @ port) @ t)"
    by simp
  then have "auth = host @ port"
    using split_authority [OF auth rest(1)] split_authority [OF authority_chars(1) [OF g(2,3)] tail_starts [OF g(4)]]
    by simp
  with \<open>auth @ rest = host @ port @ t\<close> low rest(2) have "to_ascii_lowercase host = host" "t \<noteq> ''/''"
    by (auto simp: to_ascii_lowercase_def)
  with that g chars show thesis by blast
qed

section \<open>Normalising twice\<close>

text \<open>What trimming takes away.\<close>

lemma strip_leading_prefix:
  "\<exists>p. s = p @ strip_leading ws s \<and> set p \<subseteq> set (concat ws) \<and>
    (p = [] \<or> (\<exists>w \<in> set ws. w \<noteq> [] \<and> starts_with w p))"
proof (induction ws s rule: strip_leading.induct)
  case (1 ws s)
  show ?case
  proof (cases "find (\<lambda>w. w \<noteq> [] \<and> starts_with w s) ws")
    case None
    then show ?thesis by (simp add: strip_leading.simps [of ws s])
  next
    case (Some w)
    then have w: "w \<in> set ws" "w \<noteq> []" "starts_with w s" by (auto simp: find_Some_iff)
    then obtain u where s: "s = w @ u" by (auto simp: starts_with_append)
    from 1 [OF Some] obtain p where p: "u = p @ strip_leading ws u" "set p \<subseteq> set (concat ws)"
      by (auto simp: s)
    have "s = (w @ p) @ strip_leading ws s"
      using p(1) by (simp add: strip_leading.simps [of ws s] Some) (simp add: s)
    moreover have "set (w @ p) \<subseteq> set (concat ws)" using w(1) p(2) by auto
    moreover have "starts_with w (w @ p)" by (simp add: starts_with_append)
    ultimately show ?thesis using w by blast
  qed
qed

lemma strip_leading_stuck: "w \<in> set ws \<Longrightarrow> w \<noteq> [] \<Longrightarrow> \<not> starts_with w (strip_leading ws s)"
proof (induction ws s rule: strip_leading.induct)
  case (1 ws s)
  show ?case
  proof (cases "find (\<lambda>w. w \<noteq> [] \<and> starts_with w s) ws")
    case None
    then have "strip_leading ws s = s" by (simp add: strip_leading.simps [of ws s])
    with None 1 show ?thesis by (auto simp: find_None_iff)
  next
    case (Some v)
    then have "strip_leading ws s = strip_leading ws (drop (length v) s)" by (simp add: strip_leading.simps [of ws s])
    with 1 Some show ?thesis by simp
  qed
qed

lemma starts_rev: "starts_with (rev w) s \<longleftrightarrow> ends_with w (rev s)"
  by (simp add: ends_with_def)

lemma trim_infix:
  obtains p q where "s = p @ trim_text s @ q" "set p \<subseteq> set (concat white_space)" "set q \<subseteq> set (concat white_space)"
    "q = [] \<or> (\<exists>w \<in> set white_space. w \<noteq> [] \<and> ends_with w q)"
proof -
  obtain p where p: "s = p @ trim_start s" "set p \<subseteq> set (concat white_space)"
    unfolding trim_start_def using strip_leading_prefix by blast
  obtain q where q: "rev (trim_start s) = q @ strip_leading (map rev white_space) (rev (trim_start s))"
    "set q \<subseteq> set (concat (map rev white_space))"
    "q = [] \<or> (\<exists>w \<in> set (map rev white_space). w \<noteq> [] \<and> starts_with w q)"
    using strip_leading_prefix [of "rev (trim_start s)" "map rev white_space"] by blast
  have "trim_start s = rev (rev (trim_start s))" by simp
  also have "\<dots> = trim_text s @ rev q"
    unfolding trim_text_def trim_end_def by (subst q(1)) simp
  finally have "s = p @ trim_text s @ rev q" using p(1) by simp
  moreover have "set (rev q) \<subseteq> set (concat white_space)" using q(2) by simp
  moreover have "rev q = [] \<or> (\<exists>w \<in> set white_space. w \<noteq> [] \<and> ends_with w (rev q))"
    using q(3) by (auto simp: starts_rev)
  ultimately show thesis using that p(2) by blast
qed

lemma trim_no_blank_end: "w \<in> set white_space \<Longrightarrow> w \<noteq> [] \<Longrightarrow> \<not> ends_with w (trim_text s)"
  using strip_leading_stuck [of "rev w" "map rev white_space" "rev (trim_start s)"]
  by (simp add: trim_text_def trim_end_def starts_rev)

lemma blank_char:
  assumes "c \<in> set (concat white_space)"
  shows "\<not> is_delimiter c" "c \<noteq> CHR '':''"
  using assms by (auto simp: white_space_def is_delimiter_def)

lemma first_separator:
  assumes eq: "a @ ''://'' @ b = s @ ''://'' @ c" and a: "CHR '':'' \<notin> set a" and s: "\<And>x y. s \<noteq> x @ ''://'' @ y"
  shows "a = s \<and> b = c"
proof -
  define p where "p = ''://''"
  have "\<exists>u. a = s @ u \<and> u @ p @ b = p @ c \<or> s = a @ u \<and> u @ p @ c = p @ b"
    using eq [folded p_def] unfolding append_eq_append_conv2 [of a "p @ b" s] by metis
  then consider u where "a = s @ u" "u @ ''://'' @ b = ''://'' @ c" | u where "s = a @ u" "u @ ''://'' @ c = ''://'' @ b"
    unfolding p_def by blast
  then show ?thesis
  proof cases
    case 1
    with a show ?thesis by (cases u) auto
  next
    case 2
    show ?thesis
    proof (cases "length u")
      case 0
      with 2 show ?thesis by simp
    next
      case (Suc k)
      have "\<not> (\<exists>r. u = ''://'' @ r)" using s [of a] 2(1) by auto
      with 2(2) Suc show ?thesis
        by (cases u rule: list.exhaust; cases "tl u"; cases "tl (tl u)") auto
    qed
  qed
qed

text \<open>
  A normal form whose normal form is an accepted address: up to blanks it is that address, or it still
  carries one default port behind the authority.
\<close>

lemma normalized_twice:
  assumes first: "normalize_url url = Inr n" and second: "normalize_url n = Inr (scheme @ host @ port @ t)"
    and g: "host_grammar host" "port_grammar port" "tail_grammar t"
  shows "\<exists>x \<in> {[], '':443''}. trim_text n = scheme @ host @ port @ x @ t"
proof -
  obtain sch0 raw0 rest0 auth0 where
    split0: "split_once ''://'' (trim_text url) = Some (sch0, raw0 @ rest0)"
    and raw0: "\<forall>c \<in> set raw0. \<not> is_delimiter c" "rest0 = [] \<or> is_delimiter (hd rest0)"
    and n: "n = to_ascii_lowercase sch0 @ ''://'' @ auth0 @ (if rest0 = ''/'' then [] else rest0)"
    and auth0: "to_ascii_lowercase raw0 = auth0 \<or> (\<exists>suffix. default_port_suffix (to_ascii_lowercase sch0) = Some suffix \<and>
      to_ascii_lowercase raw0 = auth0 @ suffix)"
    and low0: "to_ascii_lowercase auth0 = auth0" and del0: "\<forall>c \<in> set auth0. \<not> is_delimiter c"
    by (rule normalize_url_parts [OF first])
  obtain sch raw rest auth where
    split: "split_once ''://'' (trim_text n) = Some (sch, raw @ rest)"
    and raw: "\<forall>c \<in> set raw. \<not> is_delimiter c" "rest = [] \<or> is_delimiter (hd rest)"
    and m: "scheme @ host @ port @ t = to_ascii_lowercase sch @ ''://'' @ auth @ (if rest = ''/'' then [] else rest)"
    and auth: "to_ascii_lowercase raw = auth \<or> (\<exists>suffix. default_port_suffix (to_ascii_lowercase sch) = Some suffix \<and>
      to_ascii_lowercase raw = auth @ suffix)"
    and del: "\<forall>c \<in> set auth. \<not> is_delimiter c"
    by (rule normalize_url_parts [OF second])
  let ?old = "if rest0 = ''/'' then [] else rest0" and ?rest = "if rest = ''/'' then [] else rest"
  have https: "to_ascii_lowercase sch = ''https''" and tail: "auth @ ?rest = host @ port @ t"
    using https_prefix [OF _ lower_scheme_first [OF split], of "auth @ ?rest" "host @ port @ t"] m
    by (simp_all add: scheme_def)
  have rests: "?rest = [] \<or> is_delimiter (hd ?rest)" "?old = [] \<or> is_delimiter (hd ?old)"
    using raw(2) raw0(2) by simp_all
  have "auth = host @ port"
    using arg_cong [OF tail, of "takeWhile (\<lambda>c. \<not> is_delimiter c)"] split_authority [OF del rests(1)]
      split_authority [OF authority_chars(1) [OF g(1,2)] tail_starts [OF g(3)]] by simp
  with tail have t: "?rest = t" by simp
  have x: "\<exists>x \<in> {[], '':443''}. to_ascii_lowercase raw = host @ port @ x"
    using auth \<open>auth = host @ port\<close> by (auto simp: https default_port_suffix_def)
  obtain p q where pq: "n = p @ trim_text n @ q" "set p \<subseteq> set (concat white_space)" "set q \<subseteq> set (concat white_space)"
    "q = [] \<or> (\<exists>w \<in> set white_space. w \<noteq> [] \<and> ends_with w q)" by (rule trim_infix)
  have n': "trim_text n = sch @ ''://'' @ raw @ rest" using split_once_Some [OF split] .
  have "CHR '':'' \<notin> set sch"
  proof
    assume "CHR '':'' \<in> set sch"
    then have "lower_char CHR '':'' \<in> set (to_ascii_lowercase sch)" by (simp add: to_ascii_lowercase_def)
    then show False by (simp add: https lower_char_def ascii_upper_def)
  qed
  then have "CHR '':'' \<notin> set (p @ sch)" using pq(2) blank_char(2) by auto
  moreover have "(p @ sch) @ ''://'' @ (raw @ rest @ q) = to_ascii_lowercase sch0 @ ''://'' @ (auth0 @ ?old)"
    using pq(1) unfolding n' by (simp only: append_assoc n [symmetric])
  ultimately have eq: "p @ sch = to_ascii_lowercase sch0" "raw @ rest @ q = auth0 @ ?old"
    using first_separator [OF _ _ lower_scheme_first [OF split0]] by blast+
  have "to_ascii_lowercase (p @ sch) = p @ sch" unfolding eq(1) by simp
  then have sch: "sch = ''https''" using https by (simp add: lower_append to_ascii_lowercase_def)
  have q: "\<forall>c \<in> set q. \<not> is_delimiter c" using pq(3) blank_char(1) by blast
  have tw: "takeWhile (\<lambda>c. \<not> is_delimiter c) (raw @ rest @ q) = auth0"
    unfolding eq(2) by (rule split_authority [OF del0 rests(2)])
  show ?thesis
  proof (cases "rest = []")
    case True
    have "takeWhile (\<lambda>c. \<not> is_delimiter c) (raw @ q) = raw @ q"
      using q raw(1) unfolding takeWhile_eq_all_conv by auto
    with tw True have "raw @ q = auth0" by (simp only: append_Nil)
    then have "to_ascii_lowercase raw = raw"
      using low0 by (auto simp: lower_append to_ascii_lowercase_def)
    with x t True show ?thesis by (simp add: n' sch scheme_def)
  next
    case False
    then have raw_eq: "raw = auth0"
      using tw split_authority [OF raw(1), of "rest @ q"] raw(2) by simp
    have old: "rest @ q = ?old" using eq(2) unfolding raw_eq by (simp only: same_append_eq)
    have "rest \<noteq> ''/''"
    proof
      assume slash: "rest = ''/''"
      with old have rest0: "rest0 = ''/'' @ q" "q \<noteq> []" by (auto split: if_split_asm)
      then obtain w where w: "w \<in> set white_space" "w \<noteq> []" "ends_with w q" using pq(4) by blast
      have "trim_text url = (sch0 @ ''://'' @ raw0 @ ''/'') @ q"
        using split_once_Some [OF split0] by (simp add: rest0(1))
      with w(3) have "ends_with w (trim_text url)" by (metis append_assoc ends_with_append)
      with trim_no_blank_end [OF w(1,2)] show False by blast
    qed
    with x t raw_eq low0 show ?thesis by (simp add: n' sch scheme_def)
  qed
qed

lemma ends_with_443:
  assumes "host_grammar host" and "port_grammar port"
  shows "ends_with '':443'' (host @ port) \<longleftrightarrow> port = '':443''"
proof
  assume "ends_with '':443'' (host @ port)"
  then obtain x where x: "host @ port = x @ CHR '':'' # ''443''" unfolding ends_with_append by blast
  have "CHR '':'' \<in> set (host @ port)" unfolding x by simp
  then have "port \<noteq> []" using host_specials(1) [OF assms(1)] by auto
  with assms(2) obtain ds where ds: "port = CHR '':'' # ds" "port_ok ds" by (auto simp: port_grammar_def)
  then have "CHR '':'' \<notin> set ds" using special_not_alnum(8) by (auto simp: port_ok_def list_all_iff)
  then have "split_last_colon (host @ port) = Some (host, ds)" unfolding ds(1) by (rule split_last_colon_at)
  moreover have "split_last_colon (host @ port) = Some (x, ''443'')"
    unfolding x by (rule split_last_colon_at) simp
  ultimately show "port = '':443''" using ds(1) by simp
qed (simp add: ends_with_append)

lemma port_lower: "port_grammar port \<Longrightarrow> to_ascii_lowercase port = port"
proof -
  assume p: "port_grammar port"
  have "\<not> ascii_upper c" if "c \<in> set port" for c
    using port_chars [OF p that] by (auto simp: ascii_defs)
  then show ?thesis by (simp add: to_ascii_lowercase_def lower_char_def map_idI)
qed

lemma split_scheme: "split_once ''://'' (scheme @ r) = Some (''https'', r)"
  by (simp add: scheme_def starts_with_def)

lemma renormalize:
  assumes g: "host_grammar host" "port_grammar port" "tail_grammar t"
    and low: "to_ascii_lowercase host = host" and t: "t \<noteq> ''/''"
    and chars: "\<forall>c \<in> set (scheme @ host @ port @ t). url_char c"
  shows "normalize_url (scheme @ host @ port @ t) =
    Inr (scheme @ host @ (if port = '':443'' then [] else port) @ t)"
proof -
  let ?n = "scheme @ host @ port @ t"
  have trim: "trim_text ?n = ?n" by (rule url_char_visible [OF chars])
  have ne: "?n \<noteq> []" by (simp add: scheme_def)
  have tw: "takeWhile (\<lambda>c. \<not> is_delimiter c) (host @ port @ t) = host @ port"
    using split_authority [OF authority_chars(1) [OF g(1,2)] tail_starts [OF g(3)]] by simp
  then have dw: "dropWhile (\<lambda>c. \<not> is_delimiter c) (host @ port @ t) = t"
    using takeWhile_dropWhile_id [of "\<lambda>c. \<not> is_delimiter c" "host @ port @ t"]
    by (metis append_assoc same_append_eq)
  have lower: "to_ascii_lowercase (host @ port) = host @ port"
    using low port_lower [OF g(2)] by (simp add: to_ascii_lowercase_def)
  have "to_ascii_lowercase ''https'' = ''https''"
    by (simp add: to_ascii_lowercase_def lower_char_def ascii_upper_def)
  then have "normalize_url ?n = Inr (''https'' @ ''://'' @
      (if ends_with '':443'' (host @ port) then take (length (host @ port) - length '':443'') (host @ port)
       else host @ port) @ t)"
    unfolding normalize_url_def Let_def trim if_not_P [OF ne] split_scheme option.case prod.case tw dw lower if_not_P [OF t]
    by (simp only: default_port_suffix_def if_True option.case refl simp_thms)
  also have "(if ends_with '':443'' (host @ port) then take (length (host @ port) - length '':443'') (host @ port)
      else host @ port) = host @ (if port = '':443'' then [] else port)"
    unfolding ends_with_443 [OF g(1,2)] by simp
  finally show ?thesis by (simp add: scheme_def)
qed

lemma extract_hostname_grammar:
  assumes g: "host_grammar host" "port_grammar port" "tail_grammar t" and low: "to_ascii_lowercase host = host"
  shows "extract_hostname (scheme @ host @ port @ t) = Some host"
proof -
  have tw: "takeWhile (\<lambda>c. \<not> is_delimiter c) (host @ port @ t) = host @ port"
    using split_authority [OF authority_chars(1) [OF g(1,2)] tail_starts [OF g(3)]] by simp
  show ?thesis
  proof (cases "port = []")
    case True
    with tw low host_specials(1,4) [OF g(1)] show ?thesis
      by (simp add: extract_hostname_def split_scheme Let_def split_last_colon_None [THEN iffD2])
  next
    case False
    with g(2) obtain ds where ds: "port = CHR '':'' # ds" "port_ok ds" by (auto simp: port_grammar_def)
    then have "CHR '':'' \<notin> set ds" using special_not_alnum(8) by (auto simp: port_ok_def list_all_iff)
    with ds tw low show ?thesis
      by (simp add: extract_hostname_def split_scheme Let_def split_last_colon_at port_ok_def)
  qed
qed

definition host_permitted :: "url_filter_policy \<Rightarrow> string \<Rightarrow> bool" where
  "host_permitted p host \<longleftrightarrow> \<not> list_ex (\<lambda>e. entry_matches e host) (uf_blocklist p) \<and>
     (uf_allowlist p = [] \<or> list_ex (\<lambda>e. entry_matches e host) (uf_allowlist p))"

lemma policy_check_grammar:
  assumes g: "host_grammar host" "port_grammar port" "tail_grammar t"
    and low: "to_ascii_lowercase host = host" and t: "t \<noteq> ''/''"
    and chars: "\<forall>c \<in> set (scheme @ host @ port @ t). url_char c"
  shows "policy_check p (scheme @ host @ port @ t) = Inr () \<longleftrightarrow> host_permitted p host"
proof -
  define port1 where "port1 = (if port = '':443'' then [] else port)"
  have g1: "port_grammar port1" using g(2) by (simp add: port1_def port_grammar_def)
  have "policy_check p (scheme @ host @ port @ t) =
    (if list_ex (\<lambda>e. entry_matches e host) (uf_blocklist p)
       then Inl (with_context InvalidEndpointFormat ''host is on the blocklist'' host)
       else if uf_allowlist p \<noteq> [] \<and> \<not> list_ex (\<lambda>e. entry_matches e host) (uf_allowlist p)
       then Inl (with_context InvalidEndpointFormat ''host is not on the allowlist'' host)
       else Inr ())"
    unfolding policy_check_def renormalize [OF g low t chars] bind_ok.simps port1_def [symmetric]
      extract_hostname_grammar [OF g(1) g1 g(3) low] of_option_simps ..
  then show ?thesis by (simp add: host_permitted_def)
qed

text \<open>
  C37. Whatever text is submitted (in any case, with blanks around it, with a default port or a slash),
  an address that passes has the form of an anchor endpoint; the host it names, in lower case, is
  neither on the blocklist nor missing from a non-empty allowlist; and submitting the answer again
  gives the same answer, unless it still ends in the default port, which happens when the submitted
  address had it twice.  An anchor endpoint has no path, so an address with one is always refused,
  also the one of the documentation's example and of a test, which expect \<open>.../sep6\<close> to be accepted.
\<close>

theorem normalized_address_permitted:
  assumes "normalize_and_validate url p = Inr n"
  shows "\<exists>host. extract_hostname n = Some host \<and> extract_host n = host \<and> host_grammar host \<and>
    validate_anchor_domain n = Inr () \<and> host_permitted p host \<and>
    (ends_with '':443'' (authority_of n) \<or> normalize_and_validate n p = Inr n)"
proof -
  have n: "normalize_url url = Inr n" and valid: "validate_anchor_domain n = Inr ()" and ok: "policy_check p n = Inr ()"
    using assms by (auto simp: normalize_and_validate_def ok_simps)
  obtain host port t where eq: "n = scheme @ host @ port @ t" and g: "host_grammar host" "port_grammar port" "tail_grammar t"
    and low: "to_ascii_lowercase host = host" and t: "t \<noteq> ''/''" and chars: "\<forall>c \<in> set n. url_char c"
    by (rule normalized_valid [OF n valid])
  have "drop 8 n = host @ port @ t" by (simp add: eq scheme_def)
  then have auth: "authority_of n = host @ port"
    using split_authority [OF authority_chars(1) [OF g(1,2)] tail_starts [OF g(3)]] by (simp add: authority_of_def)
  have again: "normalize_and_validate n p = Inr n" if "\<not> ends_with '':443'' (authority_of n)"
  proof -
    have "normalize_url n = Inr n"
      using that [unfolded auth] ends_with_443 [OF g(1,2)] renormalize [OF g low t chars [unfolded eq]]
      unfolding eq by simp
    with valid ok show ?thesis by (simp add: normalize_and_validate_def)
  qed
  show ?thesis
    using extract_hostname_grammar [OF g low] extract_host_grammar [OF g] g(1) valid again
      policy_check_grammar [OF g low t chars [unfolded eq], of p] ok
    unfolding eq by blast
qed

lemma validated_normal_form:
  assumes "normalize_url url = Inr (scheme @ host @ port @ t)"
    and g: "host_grammar host" "port_grammar port" "tail_grammar t"
    and low: "to_ascii_lowercase host = host" and t: "t \<noteq> ''/''"
    and chars: "\<forall>c \<in> set (scheme @ host @ port @ t). url_char c"
    and len: "12 \<le> length (scheme @ host @ port @ t)" "length (scheme @ host @ port @ t) \<le> 2048"
    and permitted: "host_permitted p host"
  shows "normalize_and_validate url p = Inr (scheme @ host @ port @ t)"
proof -
  have "validate_anchor_domain (scheme @ host @ port @ t) = Inr ()"
    unfolding domain_accepted_iff using g chars len by blast
  with assms(1) policy_check_grammar [OF g low t chars, of p] permitted show ?thesis
    by (simp add: normalize_and_validate_def)
qed

text \<open>An address with the default port, and one that has it twice.\<close>

lemma sample_host:
  "host_grammar ''example.com''" "to_ascii_lowercase ''example.com'' = ''example.com''"
  "port_grammar []" "port_grammar '':443''" "tail_grammar []" "([] :: string) \<noteq> ''/''"
proof -
  have split: "split_on CHR ''.'' ''example.com'' = [''example'', ''com'']" by simp
  show "host_grammar ''example.com''" by (simp add: labels_grammar split label_ok_def ascii_defs)
  show "to_ascii_lowercase ''example.com'' = ''example.com''"
    by (simp add: to_ascii_lowercase_def lower_char_def ascii_upper_def)
  show "port_grammar []" "port_grammar '':443''"
    by (simp_all add: port_grammar_def port_ok_def ascii_defs digits_value_def)
qed (simp_all add: tail_grammar_def)

lemma sample_chars:
  "\<forall>c \<in> set (scheme @ ''example.com'' @ port @ []). url_char c" if "port \<in> {[], '':443'', '':443:443''}"
  using that by (auto simp: url_char_def visible_def forbidden_chars_def scheme_def)

definition example_only :: url_filter_policy where
  "example_only = \<lparr>uf_allowlist = [\<lparr>fe_pattern = ''example.com'', fe_exact = False\<rparr>], uf_blocklist = []\<rparr>"

lemma sample_permitted: "host_permitted example_only ''example.com''"
  by (simp add: host_permitted_def example_only_def entry_matches_iff)

lemma sample_address:
  "normalize_and_validate ''https://example.com:443'' example_only = Inr ''https://example.com''"
proof -
  have "normalize_url ''https://example.com:443'' = Inr (scheme @ ''example.com'' @ [] @ [])"
    using renormalize [OF sample_host(1,4,5,2,6) sample_chars [of "'':443''"]] by (simp add: scheme_def)
  from validated_normal_form [OF this sample_host(1,3,5,2,6) sample_chars [of "[]"] _ _ sample_permitted]
  show ?thesis by (simp add: scheme_def)
qed

theorem normalized_address_permitted_witness:
  "\<exists>host. extract_hostname ''https://example.com'' = Some host \<and> extract_host ''https://example.com'' = host \<and>
    host_grammar host \<and> validate_anchor_domain ''https://example.com'' = Inr () \<and> host_permitted example_only host \<and>
    (ends_with '':443'' (authority_of ''https://example.com'') \<or>
     normalize_and_validate ''https://example.com'' example_only = Inr ''https://example.com'')"
  by (rule normalized_address_permitted [OF sample_address])

text \<open>The default port is removed once: the normal form of an address with two ports is accepted and
  is not its own normal form.\<close>

lemma doubled_port:
  "normalize_and_validate ''https://example.com:443:443'' example_only = Inr ''https://example.com:443''"
  "normalize_and_validate ''https://example.com:443'' example_only = Inr ''https://example.com''"
proof -
  have trim: "trim_text ''https://example.com:443:443'' = ''https://example.com:443:443''"
    by (rule trim_visible) (simp add: visible_def)
  have "normalize_url ''https://example.com:443:443'' = Inr (scheme @ ''example.com'' @ '':443'' @ [])"
    by (simp add: normalize_url_def trim starts_with_def ends_with_def is_delimiter_def default_port_suffix_def
        to_ascii_lowercase_def lower_char_def ascii_upper_def scheme_def)
  from validated_normal_form [OF this sample_host(1,4,5,2,6) sample_chars [of "'':443''"] _ _ sample_permitted]
  show "normalize_and_validate ''https://example.com:443:443'' example_only = Inr ''https://example.com:443''"
    by (simp add: scheme_def)
qed (rule sample_address)

end
