(* ===== verification/Sep6.thy ===== *)
theory Sep6
  imports Ascii_Text Retry
begin

text \<open>
  \<^verbatim>\<open>src/sep6.rs\<close>: the statuses of SEP-6 and the vendors' names for them, the checks of the anchors'
  answers to deposits and withdrawals, amounts, and the loop that polls a transaction.  Also
  \<open>normalize_asset_code\<close> of \<^verbatim>\<open>src/errors.rs\<close>, which the SEP modules share.
\<close>

section \<open>Asset codes\<close>

definition invalid_asset_code :: "string \<Rightarrow> anchor_kit_error" where
  "invalid_asset_code code = with_context InvalidAssetCode (default_message InvalidAssetCode) code"

definition normalize_asset_code :: "string \<Rightarrow> anchor_kit_error + string" where
  "normalize_asset_code code =
     (let trimmed = trim_text code in
      if trimmed = [] \<or> 12 < length trimmed then Inl (invalid_asset_code code)
      else if \<not> list_all ascii_alnum trimmed then Inl (invalid_asset_code code)
      else Inr (to_ascii_uppercase trimmed))"

text \<open>\<open>as_deref().map(..).transpose()\<close>.\<close>

definition optional_asset_code :: "string option \<Rightarrow> anchor_kit_error + string option" where
  "optional_asset_code code =
     (case code of None \<Rightarrow> Inr None | Some c \<Rightarrow> bind_ok (normalize_asset_code c) (\<lambda>n. Inr (Some n)))"

section \<open>Statuses\<close>

definition normalize_status_token :: "string \<Rightarrow> string" where
  "normalize_status_token s = to_ascii_lowercase (trim_text s)"

datatype status_category = Cat_Active | Cat_Completed | Cat_Refunded | Cat_Expired | Cat_Failed | Cat_Unknown

datatype transaction_status =
    Ts_Pending | Ts_Incomplete | Ts_PendingExternal | Ts_PendingAnchor | Ts_PendingTrust | Ts_PendingUser
  | Ts_Completed | Ts_Refunded | Ts_Expired | Ts_NoMarket | Ts_TooSmall | Ts_TooLarge | Ts_PendingStellar
  | Ts_WaitingCustomerAction | Ts_Error

definition category_table :: "(string \<times> status_category) list" where
  "category_table =
     [(''pending_external'', Cat_Active), (''pending_anchor'', Cat_Active), (''pending_trust'', Cat_Active),
      (''pending_user'', Cat_Active), (''pending_user_transfer_start'', Cat_Active),
      (''pending_user_transfer_complete'', Cat_Active), (''pending_stellar'', Cat_Active),
      (''waiting_customer_action'', Cat_Active), (''pending_customer_info_update'', Cat_Active),
      (''incomplete'', Cat_Active), (''pending'', Cat_Active), (''completed'', Cat_Completed),
      (''refunded'', Cat_Refunded), (''expired'', Cat_Expired), (''no_market'', Cat_Failed),
      (''too_small'', Cat_Failed), (''too_large'', Cat_Failed), (''error'', Cat_Failed)]"

definition classify_status_str :: "string \<Rightarrow> status_category" where
  "classify_status_str s = get_or Cat_Unknown (map_of category_table (normalize_status_token s))"

definition status_table :: "(string \<times> transaction_status) list" where
  "status_table =
     [(''pending_external'', Ts_PendingExternal), (''pending_anchor'', Ts_PendingAnchor),
      (''pending_trust'', Ts_PendingTrust), (''pending_user'', Ts_PendingUser),
      (''pending_user_transfer_start'', Ts_PendingUser), (''pending_user_transfer_complete'', Ts_PendingUser),
      (''completed'', Ts_Completed), (''refunded'', Ts_Refunded), (''expired'', Ts_Expired),
      (''incomplete'', Ts_Incomplete), (''pending'', Ts_Pending), (''no_market'', Ts_NoMarket),
      (''too_small'', Ts_TooSmall), (''too_large'', Ts_TooLarge), (''pending_stellar'', Ts_PendingStellar),
      (''waiting_customer_action'', Ts_WaitingCustomerAction),
      (''pending_customer_info_update'', Ts_WaitingCustomerAction)]"

definition status_from_str :: "string \<Rightarrow> transaction_status" where
  "status_from_str s = get_or Ts_Error (map_of status_table (normalize_status_token s))"

definition status_as_str :: "transaction_status \<Rightarrow> string" where
  "status_as_str st =
     (case st of
        Ts_Pending \<Rightarrow> ''pending'' | Ts_Incomplete \<Rightarrow> ''incomplete'' | Ts_PendingExternal \<Rightarrow> ''pending_external''
      | Ts_PendingAnchor \<Rightarrow> ''pending_anchor'' | Ts_PendingTrust \<Rightarrow> ''pending_trust''
      | Ts_PendingUser \<Rightarrow> ''pending_user'' | Ts_Completed \<Rightarrow> ''completed'' | Ts_Refunded \<Rightarrow> ''refunded''
      | Ts_Expired \<Rightarrow> ''expired'' | Ts_NoMarket \<Rightarrow> ''no_market'' | Ts_TooSmall \<Rightarrow> ''too_small''
      | Ts_TooLarge \<Rightarrow> ''too_large'' | Ts_PendingStellar \<Rightarrow> ''pending_stellar''
      | Ts_WaitingCustomerAction \<Rightarrow> ''waiting_customer_action'' | Ts_Error \<Rightarrow> ''error'')"

definition classify :: "transaction_status \<Rightarrow> status_category" where
  "classify st =
     (case st of
        Ts_Completed \<Rightarrow> Cat_Completed | Ts_Refunded \<Rightarrow> Cat_Refunded | Ts_Expired \<Rightarrow> Cat_Expired
      | Ts_NoMarket \<Rightarrow> Cat_Failed | Ts_TooSmall \<Rightarrow> Cat_Failed | Ts_TooLarge \<Rightarrow> Cat_Failed | Ts_Error \<Rightarrow> Cat_Failed
      | _ \<Rightarrow> Cat_Active)"

section \<open>Vendors' statuses\<close>

record vendor_status_entry =
  ve_vendor_status :: string
  ve_canonical :: transaction_status

type_synonym vendor_status_map = "vendor_status_entry list"

definition vendor_register :: "string \<Rightarrow> transaction_status \<Rightarrow> vendor_status_map \<Rightarrow> bool \<times> vendor_status_map" where
  "vendor_register vendor_status canonical m =
     (let key = normalize_status_token vendor_status in
      if key = [] then (False, m)
      else if list_ex (\<lambda>e. ve_vendor_status e = key) m
      then (True, update_first (\<lambda>e. ve_vendor_status e = key) \<lparr>ve_vendor_status = key, ve_canonical = canonical\<rparr> m)
      else (True, m @ [\<lparr>ve_vendor_status = key, ve_canonical = canonical\<rparr>]))"

definition vendor_resolve :: "vendor_status_map \<Rightarrow> string \<Rightarrow> vendor_status_entry" where
  "vendor_resolve m raw =
     (case find (\<lambda>e. ve_vendor_status e = normalize_status_token raw) m of
        Some e \<Rightarrow> \<lparr>ve_vendor_status = trim_text raw, ve_canonical = ve_canonical e\<rparr>
      | None \<Rightarrow> \<lparr>ve_vendor_status = trim_text raw, ve_canonical = status_from_str raw\<rparr>)"

definition vendor_contains :: "vendor_status_map \<Rightarrow> string \<Rightarrow> bool" where
  "vendor_contains m vendor_status = list_ex (\<lambda>e. ve_vendor_status e = normalize_status_token vendor_status) m"

fun remove_first :: "('a \<Rightarrow> bool) \<Rightarrow> 'a list \<Rightarrow> 'a list" where
  "remove_first P [] = []"
| "remove_first P (x # xs) = (if P x then xs else x # remove_first P xs)"

definition vendor_remove :: "string \<Rightarrow> vendor_status_map \<Rightarrow> bool \<times> vendor_status_map" where
  "vendor_remove vendor_status m =
     (let key = normalize_status_token vendor_status in
      if list_ex (\<lambda>e. ve_vendor_status e = key) m
      then (True, remove_first (\<lambda>e. ve_vendor_status e = key) m)
      else (False, m))"

section \<open>The anchors' answers\<close>

datatype transaction_kind = Kind_Deposit | Kind_Withdrawal

definition kind_from_str :: "string \<Rightarrow> transaction_kind" where
  "kind_from_str s = (if s = ''withdrawal'' \<or> s = ''withdraw'' then Kind_Withdrawal else Kind_Deposit)"

record raw_deposit_response =
  rd_transaction_id :: string
  rd_how :: string
  rd_extra_info :: "string option"
  rd_min_amount :: "u64 option"
  rd_max_amount :: "u64 option"
  rd_fee_fixed :: "u64 option"
  rd_status :: "string option"
  rd_clawback_enabled :: "bool option"
  rd_stellar_memo :: "string option"
  rd_stellar_memo_type :: "string option"
  rd_asset_code :: "string option"

record deposit_response =
  dp_transaction_id :: string
  dp_how :: string
  dp_extra_info :: "string option"
  dp_min_amount :: "u64 option"
  dp_max_amount :: "u64 option"
  dp_fee_fixed :: "u64 option"
  dp_status :: transaction_status
  dp_clawback_enabled :: "bool option"
  dp_stellar_memo :: "string option"
  dp_stellar_memo_type :: "string option"
  dp_asset_code :: "string option"

record raw_withdrawal_response =
  rw_transaction_id :: string
  rw_account_id :: string
  rw_memo :: "string option"
  rw_memo_type :: "string option"
  rw_min_amount :: "u64 option"
  rw_max_amount :: "u64 option"
  rw_fee_fixed :: "u64 option"
  rw_status :: "string option"
  rw_asset_code :: "string option"

record withdrawal_response =
  wd_transaction_id :: string
  wd_account_id :: string
  wd_memo :: "string option"
  wd_memo_type :: "string option"
  wd_min_amount :: "u64 option"
  wd_max_amount :: "u64 option"
  wd_fee_fixed :: "u64 option"
  wd_status :: transaction_status
  wd_asset_code :: "string option"

record raw_transaction_response =
  rt_transaction_id :: string
  rt_kind :: "string option"
  rt_status :: string
  rt_amount_in :: "u64 option"
  rt_amount_out :: "u64 option"
  rt_amount_fee :: "u64 option"
  rt_message :: "string option"

record transaction_status_response =
  sr_transaction_id :: string
  sr_kind :: transaction_kind
  sr_status :: transaction_status
  sr_amount_in :: "u64 option"
  sr_amount_out :: "u64 option"
  sr_amount_fee :: "u64 option"
  sr_message :: "string option"

abbreviation bad_intent :: "anchor_kit_error + 'a" where
  "bad_intent \<equiv> Inl (from_code InvalidTransactionIntent)"

definition valid_memo_types :: "string list" where
  "valid_memo_types = [''text'', ''id'', ''hash'']"

definition validate_memo_pair :: "string option \<Rightarrow> string option \<Rightarrow> anchor_kit_error + unit" where
  "validate_memo_pair memo memo_type =
     (if memo \<noteq> None then
        (case memo_type of
           None \<Rightarrow> bad_intent
         | Some mt \<Rightarrow> if mt \<notin> set valid_memo_types then bad_intent else Inr ())
      else Inr ())"

definition validate_amount_ordering :: "u64 option \<Rightarrow> u64 option \<Rightarrow> anchor_kit_error + unit" where
  "validate_amount_ordering min_amount max_amount =
     (case (min_amount, max_amount) of
        (Some lo, Some hi) \<Rightarrow> if hi < lo then bad_intent else Inr ()
      | _ \<Rightarrow> Inr ())"

text \<open>\<open>parse::<u64>\<close> of a text of digits.\<close>

definition parse_u64 :: "string \<Rightarrow> u64 option" where
  "parse_u64 ds =
     (if ds \<noteq> [] \<and> list_all ascii_digit ds \<and> digits_value ds < 2 ^ 64 then Some (of_nat (digits_value ds)) else None)"

definition parse_sep6_amount :: "string \<Rightarrow> anchor_kit_error + u64" where
  "parse_sep6_amount raw =
     (let s = trim_text raw in
      if s = [] \<or> \<not> ascii_digit (hd s) then bad_intent
      else
        let (int_part, frac_part) =
          (case split_once ''.'' s of Some (i, f) \<Rightarrow> (i, Some f) | None \<Rightarrow> (s, None))
        in if \<not> list_all ascii_digit int_part then bad_intent
           else if (case frac_part of
                      None \<Rightarrow> False
                    | Some frac \<Rightarrow> frac = [] \<or> \<not> list_all ascii_digit frac \<or> list_ex (\<lambda>b. b \<noteq> CHR ''0'') frac)
           then bad_intent
           else of_option (from_code InvalidTransactionIntent) (parse_u64 int_part))"

definition initial_status :: "string option \<Rightarrow> transaction_status" where
  "initial_status s =
     (case s of
        None \<Rightarrow> Ts_Pending
      | Some x \<Rightarrow> if trim_text x = [] then Ts_Pending else status_from_str x)"

definition initiate_deposit :: "raw_deposit_response \<Rightarrow> anchor_kit_error + deposit_response" where
  "initiate_deposit raw =
     (if trim_text (rd_transaction_id raw) = [] \<or> rd_how raw = [] then bad_intent
      else
        bind_ok (validate_amount_ordering (rd_min_amount raw) (rd_max_amount raw)) (\<lambda>_.
        bind_ok (validate_memo_pair (rd_stellar_memo raw) (rd_stellar_memo_type raw)) (\<lambda>_.
        bind_ok (optional_asset_code (rd_asset_code raw)) (\<lambda>asset_code.
          Inr \<lparr>dp_transaction_id = rd_transaction_id raw, dp_how = rd_how raw, dp_extra_info = rd_extra_info raw,
               dp_min_amount = rd_min_amount raw, dp_max_amount = rd_max_amount raw, dp_fee_fixed = rd_fee_fixed raw,
               dp_status = initial_status (rd_status raw), dp_clawback_enabled = rd_clawback_enabled raw,
               dp_stellar_memo = rd_stellar_memo raw, dp_stellar_memo_type = rd_stellar_memo_type raw,
               dp_asset_code = asset_code\<rparr>))))"

definition initiate_withdrawal :: "raw_withdrawal_response \<Rightarrow> anchor_kit_error + withdrawal_response" where
  "initiate_withdrawal raw =
     (if trim_text (rw_transaction_id raw) = [] \<or> rw_account_id raw = [] then bad_intent
      else
        bind_ok (validate_amount_ordering (rw_min_amount raw) (rw_max_amount raw)) (\<lambda>_.
        bind_ok (validate_memo_pair (rw_memo raw) (rw_memo_type raw)) (\<lambda>_.
        bind_ok (optional_asset_code (rw_asset_code raw)) (\<lambda>asset_code.
          Inr \<lparr>wd_transaction_id = rw_transaction_id raw, wd_account_id = rw_account_id raw, wd_memo = rw_memo raw,
               wd_memo_type = rw_memo_type raw, wd_min_amount = rw_min_amount raw, wd_max_amount = rw_max_amount raw,
               wd_fee_fixed = rw_fee_fixed raw, wd_status = initial_status (rw_status raw),
               wd_asset_code = asset_code\<rparr>))))"

definition status_response :: "raw_transaction_response \<Rightarrow> transaction_status \<Rightarrow> transaction_status_response" where
  "status_response raw st =
     \<lparr>sr_transaction_id = rt_transaction_id raw,
      sr_kind = (case rt_kind raw of None \<Rightarrow> Kind_Deposit | Some k \<Rightarrow> kind_from_str k), sr_status = st,
      sr_amount_in = rt_amount_in raw, sr_amount_out = rt_amount_out raw, sr_amount_fee = rt_amount_fee raw,
      sr_message = rt_message raw\<rparr>"

definition fetch_transaction_status :: "raw_transaction_response \<Rightarrow> anchor_kit_error + transaction_status_response" where
  "fetch_transaction_status raw =
     (if trim_text (rt_transaction_id raw) = [] then bad_intent
      else Inr (status_response raw
        (if trim_text (rt_status raw) = [] then Ts_Error else status_from_str (rt_status raw))))"

definition list_transactions :: "raw_transaction_response list \<Rightarrow> transaction_status_response list" where
  "list_transactions raws =
     map (\<lambda>r. status_response r (status_from_str (rt_status r)))
       (filter (\<lambda>r. trim_text (rt_transaction_id r) \<noteq> []) raws)"

section \<open>Polling\<close>

record poll_config =
  pc_interval_ms :: u64
  pc_max_duration_ms :: u64
  pc_terminal_states :: "transaction_status list"

definition default_poll_config :: poll_config where
  "default_poll_config =
     \<lparr>pc_interval_ms = 2000, pc_max_duration_ms = 60000,
      pc_terminal_states = [Ts_Completed, Ts_Refunded, Ts_Expired, Ts_Error, Ts_NoMarket, Ts_TooSmall, Ts_TooLarge]\<rparr>"

datatype poll_result =
    Poll_Completed transaction_status_response
  | Poll_TimedOut
  | Poll_Failed anchor_kit_error

text \<open>What a poll comes to: a panic (overflow, or the \<open>unreachable!\<close> of the retry loop) or a result.\<close>

datatype poll_outcome = Panicked | Returned poll_result

definition poll_retry_config :: retry_config where
  "poll_retry_config =
     \<lparr>rc_max_attempts = 3, rc_base_delay_ms = 100, rc_max_delay_ms = 1000, rc_backoff_multiplier = 2,
      rc_strategy = Exponential, rc_jitter_policy = FullJitter\<rparr>"

lemma poll_retry_config_new: "retry_config_new 3 100 1000 2 = Inr poll_retry_config"
  by (simp add: retry_config_new_def validate_retry_def poll_retry_config_def)

definition poll_fetch ::
  "('s \<Rightarrow> (anchor_kit_error + transaction_status_response) \<times> 's) \<Rightarrow> 's \<Rightarrow>
   (anchor_kit_error + transaction_status_response) option \<times> 's" where
  "poll_fetch fetch s =
     (case retry_with_backoff mock_next_seed poll_retry_config (\<lambda>_. fetch) (\<lambda>e. is_retryable (aerr_code e))
             (\<lambda>_ s. s) s \<lparr>mj_seeds = [0], mj_index = 0\<rparr> of
        (r, s1, _) \<Rightarrow> (r, s1))"

text \<open>The loop may run forever, hence the option: \<open>None\<close> is a poll that does not return.\<close>

partial_function (option) poll_loop ::
  "poll_config \<Rightarrow> ('s \<Rightarrow> (anchor_kit_error + transaction_status_response) \<times> 's) \<Rightarrow> (u64 \<Rightarrow> 's \<Rightarrow> 's) \<Rightarrow> u64 \<Rightarrow> 's \<Rightarrow>
   (poll_outcome \<times> 's) option" where
  "poll_loop c fetch sleep elapsed s =
     (case poll_fetch fetch s of
        (None, s1) \<Rightarrow> Some (Panicked, s1)
      | (Some (Inl e), s1) \<Rightarrow> Some (Returned (Poll_Failed e), s1)
      | (Some (Inr resp), s1) \<Rightarrow>
          if sr_status resp \<in> set (pc_terminal_states c) then Some (Returned (Poll_Completed resp), s1)
          else (case checked_add elapsed (pc_interval_ms c) of
            None \<Rightarrow> Some (Panicked, s1)
          | Some next_elapsed \<Rightarrow>
              if pc_max_duration_ms c \<le> next_elapsed then Some (Returned Poll_TimedOut, s1)
              else poll_loop c fetch sleep next_elapsed (sleep (pc_interval_ms c) s1)))"

definition poll_transaction_status ::
  "poll_config \<Rightarrow> ('s \<Rightarrow> (anchor_kit_error + transaction_status_response) \<times> 's) \<Rightarrow> (u64 \<Rightarrow> 's \<Rightarrow> 's) \<Rightarrow> 's \<Rightarrow>
   (poll_outcome \<times> 's) option" where
  "poll_transaction_status c fetch sleep s = poll_loop c fetch sleep 0 s"

section \<open>Statuses mean one thing\<close>

text \<open>
  The printed form of a status is read back as it, in any letter case and with blanks around it;
  and the two readings of a status text agree: where the text is known, its category is the
  category of the status it is parsed to, and every unknown text is parsed to the error status.
\<close>

definition known_statuses :: "string set" where
  "known_statuses = fst ` set category_table"

lemma status_tokens: "map_of status_table (status_as_str st) = (if st = Ts_Error then None else Some st)"
  by (cases st) (simp_all add: status_table_def status_as_str_def)

lemma tables_agree:
  "map_of category_table k = None \<Longrightarrow> map_of status_table k = None"
  "map_of category_table k = Some c \<Longrightarrow> c = classify (get_or Ts_Error (map_of status_table k))"
  by (auto simp: category_table_def status_table_def classify_def split: if_splits)

lemma known_statuses_iff: "k \<in> known_statuses \<longleftrightarrow> map_of category_table k \<noteq> None"
  by (auto simp: known_statuses_def map_of_eq_None_iff)

theorem status_parsing:
  "(normalize_status_token s = status_as_str st \<longrightarrow> status_from_str s = st) \<and>
   classify_status_str s =
     (if normalize_status_token s \<in> known_statuses then classify (status_from_str s) else Cat_Unknown) \<and>
   (normalize_status_token s \<notin> known_statuses \<longrightarrow> status_from_str s = Ts_Error)"
  using tables_agree [of "normalize_status_token s"] status_tokens [of st]
  by (cases "map_of category_table (normalize_status_token s)")
    (auto simp: status_from_str_def classify_status_str_def known_statuses_iff split: if_splits)

lemma status_str_visible: "\<forall>c \<in> set (status_as_str st). visible c"
  by (cases st) (simp_all add: status_as_str_def visible_def)

lemma status_str_token: "normalize_status_token (status_as_str st) = status_as_str st"
proof -
  have "to_ascii_lowercase (status_as_str st) = status_as_str st"
    by (cases st) (simp_all add: status_as_str_def to_ascii_lowercase_def lower_char_def ascii_upper_def)
  then show ?thesis by (simp add: normalize_status_token_def trim_visible [OF status_str_visible])
qed

theorem status_parsing_witness:
  "status_from_str (status_as_str Ts_PendingUser) = Ts_PendingUser"
  using status_parsing [of "status_as_str Ts_PendingUser" Ts_PendingUser] status_str_token by blast

section \<open>Vendors' statuses\<close>

definition vendor_inv :: "vendor_status_map \<Rightarrow> bool" where
  "vendor_inv m \<longleftrightarrow> distinct (map ve_vendor_status m) \<and> [] \<notin> set (map ve_vendor_status m)"

lemma map_update_first: "f y = k \<Longrightarrow> map f (update_first (\<lambda>x. f x = k) y xs) = map f xs"
  by (induction xs) auto

lemma set_remove_first: "set (remove_first P xs) \<subseteq> set xs"
  by (induction xs) auto

lemma vendor_inv_register: "vendor_inv m \<Longrightarrow> vendor_inv (snd (vendor_register v st m))"
  by (auto simp: vendor_inv_def vendor_register_def Let_def map_update_first list_ex_iff simp del: set_map)
    (auto simp: list_ex_iff)

lemma vendor_inv_remove: "vendor_inv m \<Longrightarrow> vendor_inv (snd (vendor_remove v m))"
proof -
  have "distinct (map f (remove_first P xs))" if "distinct (map f xs)" for f :: "vendor_status_entry \<Rightarrow> string" and P xs
    using that set_remove_first [of P] by (induction xs) auto
  then show "vendor_inv m \<Longrightarrow> vendor_inv (snd (vendor_remove v m))"
    using set_remove_first by (fastforce simp: vendor_inv_def vendor_remove_def Let_def)
qed

lemma find_remove_first:
  assumes "distinct (map f xs)"
  shows "find (\<lambda>x. f x = j) (remove_first (\<lambda>x. f x = k) xs) = (if j = k then None else find (\<lambda>x. f x = j) xs)"
  using assms
proof (induction xs)
  case (Cons a xs)
  have "find (\<lambda>x. f x = f a) xs = None" using Cons.prems by (simp add: find_None_iff) (metis image_eqI)
  with Cons show ?case by auto
qed simp

lemma vendor_resolve_find:
  "ve_canonical (vendor_resolve m raw) =
    (case find (\<lambda>e. ve_vendor_status e = normalize_status_token raw) m of
       Some e \<Rightarrow> ve_canonical e | None \<Rightarrow> status_from_str raw)"
  by (simp add: vendor_resolve_def split: option.split)

lemma vendor_register_resolve:
  assumes "normalize_status_token v \<noteq> []"
  shows "ve_canonical (vendor_resolve (snd (vendor_register v st m)) raw) =
    (if normalize_status_token raw = normalize_status_token v then st else ve_canonical (vendor_resolve m raw))"
proof (cases "list_ex (\<lambda>e. ve_vendor_status e = normalize_status_token v) m")
  case True
  then have "find (\<lambda>e. ve_vendor_status e = normalize_status_token v) m \<noteq> None"
    by (auto simp: find_None_iff list_ex_iff)
  from find_update_first [OF this] True assms show ?thesis
    by (simp add: vendor_resolve_find vendor_register_def Let_def)
next
  case False
  then have none: "find (\<lambda>e. ve_vendor_status e = normalize_status_token v) m = None"
    by (auto simp: find_None_iff list_ex_iff)
  have "find P (xs @ [y]) = (case find P xs of Some x \<Rightarrow> Some x | None \<Rightarrow> if P y then Some y else None)" for P xs and y :: vendor_status_entry
    by (induction xs) auto
  with False none assms show ?thesis
    by (simp add: vendor_resolve_find vendor_register_def Let_def split: option.split)
qed

lemma vendor_remove_resolve:
  assumes "vendor_inv m"
  shows "ve_canonical (vendor_resolve (snd (vendor_remove v m)) raw) =
    (if normalize_status_token raw = normalize_status_token v then status_from_str raw
     else ve_canonical (vendor_resolve m raw))"
proof (cases "list_ex (\<lambda>e. ve_vendor_status e = normalize_status_token v) m")
  case True
  with assms show ?thesis
    by (simp add: vendor_resolve_find vendor_remove_def Let_def vendor_inv_def find_remove_first)
next
  case False
  then have "find (\<lambda>e. ve_vendor_status e = normalize_status_token v) m = None"
    by (auto simp: find_None_iff list_ex_iff)
  with False show ?thesis by (simp add: vendor_resolve_find vendor_remove_def Let_def)
qed

section \<open>Amounts\<close>

text \<open>What an accepted amount looks like.\<close>

definition amount_text :: "string \<Rightarrow> nat \<Rightarrow> bool" where
  "amount_text s n \<longleftrightarrow>
     (\<exists>ds. ds \<noteq> [] \<and> list_all ascii_digit ds \<and> digits_value ds = n \<and>
        (s = ds \<or> (\<exists>k. s = ds @ CHR ''.'' # replicate (Suc k) CHR ''0'')))"

lemma digits_no_point: "list_all ascii_digit ds \<Longrightarrow> CHR ''.'' \<notin> set ds"
  by (auto simp: list_all_iff ascii_digit_def)

lemma split_point:
  "CHR ''.'' \<notin> set ds \<Longrightarrow> split_once ''.'' (ds @ CHR ''.'' # f) = Some (ds, f)"
  "CHR ''.'' \<notin> set ds \<Longrightarrow> split_once ''.'' ds = None"
  by (induction ds) (auto simp: starts_with_def)

lemma parse_u64_Some:
  "parse_u64 ds = Some n \<longleftrightarrow> ds \<noteq> [] \<and> list_all ascii_digit ds \<and> digits_value ds = unat n"
proof
  assume "parse_u64 ds = Some n"
  then show "ds \<noteq> [] \<and> list_all ascii_digit ds \<and> digits_value ds = unat n"
    by (auto simp: parse_u64_def unsigned_of_nat take_bit_nat_eq_self split: if_splits)
next
  assume "ds \<noteq> [] \<and> list_all ascii_digit ds \<and> digits_value ds = unat n"
  then show "parse_u64 ds = Some n" using unat_lt_pow [of n] by (simp add: parse_u64_def)
qed

lemma zeros_iff:
  "\<not> (f = [] \<or> \<not> list_all ascii_digit f \<or> list_ex (\<lambda>b. b \<noteq> CHR ''0'') f) \<longleftrightarrow> (\<exists>k. f = replicate (Suc k) CHR ''0'')"
proof
  assume f: "\<not> (f = [] \<or> \<not> list_all ascii_digit f \<or> list_ex (\<lambda>b. b \<noteq> CHR ''0'') f)"
  then have "f = replicate (length f) CHR ''0''"
    unfolding list_ex_iff by (metis replicate_length_same)
  moreover obtain k where "length f = Suc k" using f by (cases f) auto
  ultimately show "\<exists>k. f = replicate (Suc k) CHR ''0''" by metis
next
  assume "\<exists>k. f = replicate (Suc k) CHR ''0''"
  then show "\<not> (f = [] \<or> \<not> list_all ascii_digit f \<or> list_ex (\<lambda>b. b \<noteq> CHR ''0'') f)"
    by (auto simp: list_all_iff list_ex_iff ascii_digit_def)
qed

lemma parse_parts:
  "parse_sep6_amount raw = Inr n \<longleftrightarrow>
     (case split_once ''.'' (trim_text raw) of
        None \<Rightarrow> parse_u64 (trim_text raw) = Some n
      | Some (i, f) \<Rightarrow> parse_u64 i = Some n \<and> (\<exists>k. f = replicate (Suc k) CHR ''0''))"
proof (cases "split_once ''.'' (trim_text raw)")
  case None
  have "ascii_digit (hd ds)" if "ds \<noteq> []" "list_all ascii_digit ds" for ds using that by (cases ds) auto
  with None show ?thesis
    by (auto simp: parse_sep6_amount_def Let_def of_option_Inr parse_u64_Some)
next
  case (Some ab)
  obtain i f where ab: "ab = (i, f)" by (cases ab)
  have "trim_text raw \<noteq> [] \<and> ascii_digit (hd (trim_text raw))" if "i \<noteq> []" "list_all ascii_digit i"
    using that split_once_Some [OF Some [unfolded ab]] by (cases i) auto
  then show ?thesis
    unfolding parse_sep6_amount_def Let_def Some ab option.case prod.case zeros_iff [symmetric]
    by (auto simp: of_option_Inr parse_u64_Some)
qed

lemma parse_sep6_amount_iff:
  "parse_sep6_amount raw = Inr n \<longleftrightarrow> amount_text (trim_text raw) (unat n)"
proof (cases "split_once ''.'' (trim_text raw)")
  case None
  have "trim_text raw \<noteq> ds @ CHR ''.'' # f" for ds f using split_once_None [OF None] by auto
  then show ?thesis unfolding parse_parts None option.case parse_u64_Some amount_text_def by blast
next
  case (Some ab)
  obtain i f where ab: "ab = (i, f)" by (cases ab)
  have s: "trim_text raw = i @ CHR ''.'' # f" using split_once_Some [OF Some [unfolded ab]] by simp
  have "ds = i \<and> g = f" if "trim_text raw = ds @ CHR ''.'' # g" "list_all ascii_digit ds" for ds g
    using split_point(1) [OF digits_no_point [OF that(2)], of g] Some ab that(1) by simp
  moreover have "trim_text raw \<noteq> ds" if "list_all ascii_digit ds" for ds
    using s digits_no_point [OF that] by auto
  ultimately show ?thesis
    unfolding parse_parts Some ab option.case prod.case parse_u64_Some amount_text_def using s by blast
qed

lemma parse_sep6_amount_error: "parse_sep6_amount raw = Inl e \<Longrightarrow> e = from_code InvalidTransactionIntent"
  by (auto simp: parse_sep6_amount_def Let_def of_option_def split: if_splits option.splits prod.splits)

lemma decimal_visible: "\<forall>c \<in> set (decimal n). visible c"
  using decimal_digits [of n] by (auto simp: list_all_iff ascii_digit_def visible_def)

text \<open>
  An amount is accepted exactly if, without the blanks around it, it is a number in decimal
  digits below 2 to the power 64, optionally followed by a point and one or more zeros; its value
  is that number.  Signs, exponents, fractions and empty texts are refused with
  \<open>InvalidTransactionIntent\<close>, and every u64 is read back from its decimal form.
\<close>

theorem sep6_amounts:
  "(parse_sep6_amount raw = Inr n \<longleftrightarrow> amount_text (trim_text raw) (unat n)) \<and>
   (parse_sep6_amount raw = Inl e \<longleftrightarrow>
      e = from_code InvalidTransactionIntent \<and> \<not> (\<exists>n :: u64. amount_text (trim_text raw) (unat n))) \<and>
   parse_sep6_amount (decimal (unat m)) = Inr m"
proof (intro conjI)
  show "parse_sep6_amount raw = Inr n \<longleftrightarrow> amount_text (trim_text raw) (unat n)" by (rule parse_sep6_amount_iff)
  show "parse_sep6_amount raw = Inl e \<longleftrightarrow>
      e = from_code InvalidTransactionIntent \<and> \<not> (\<exists>n :: u64. amount_text (trim_text raw) (unat n))"
    using parse_sep6_amount_error [of raw] unfolding parse_sep6_amount_iff [symmetric]
    by (cases "parse_sep6_amount raw") auto
  show "parse_sep6_amount (decimal (unat m)) = Inr m"
    unfolding parse_sep6_amount_iff trim_visible [OF decimal_visible]
    unfolding amount_text_def using decimal_digits [of "unat m"]
    by (intro exI [of _ "decimal (unat m)"]) simp
qed

section \<open>Polling ends\<close>

text \<open>The requests made and the milliseconds slept are poll_counted beside the state.\<close>

fun poll_counted :: "('s \<Rightarrow> 'r \<times> 's) \<Rightarrow> 's \<times> nat \<times> nat \<Rightarrow> 'r \<times> ('s \<times> nat \<times> nat)" where
  "poll_counted fetch (s, n, d) = (let (r, s1) = fetch s in (r, (s1, Suc n, d)))"

fun napping :: "(u64 \<Rightarrow> 's \<Rightarrow> 's) \<Rightarrow> u64 \<Rightarrow> 's \<times> nat \<times> nat \<Rightarrow> 's \<times> nat \<times> nat" where
  "napping sleep ms (s, n, d) = (sleep ms s, n, d + unat ms)"

lemma retry_loop_count:
  assumes "retry_loop ns c (\<lambda>_. poll_counted fetch) retryable (\<lambda>_ st. st) le as (s, n, d) j = (r, (s1, n1, d1), j1)"
  shows "n1 \<le> n + length as \<and> d1 = d"
  using assms
proof (induction as arbitrary: le s n j)
  case (Cons a as)
  obtain x s2 where x: "fetch s = (x, s2)" by fastforce
  show ?case
  proof (cases x)
    case (Inl e)
    show ?thesis
    proof (cases "\<not> retryable e \<or> rc_max_attempts c \<le> a + 1")
      case True
      with Cons.prems Inl x show ?thesis by auto
    next
      case False
      obtain dl j2 where "delay_for_attempt ns c a j = (dl, j2)" by fastforce
      with False Cons.prems Inl x
      have "retry_loop ns c (\<lambda>_. poll_counted fetch) retryable (\<lambda>_ st. st) (Some e) as (s2, Suc n, d) j2
        = (r, (s1, n1, d1), j1)" by simp
      from Cons.IH [OF this] show ?thesis by simp
    qed
  qed (use Cons.prems x in auto)
qed simp

lemma poll_fetch_count:
  assumes "poll_fetch (poll_counted fetch) (s, n, d) = (r, (s1, n1, d1))"
  shows "r \<noteq> None \<and> n1 \<le> n + 3 \<and> d1 = d"
proof -
  have m: "rc_max_attempts poll_retry_config = 3" by (simp add: poll_retry_config_def)
  then have ne: "rc_max_attempts poll_retry_config \<noteq> 0" by simp
  obtain j1 where run: "retry_with_backoff mock_next_seed poll_retry_config (\<lambda>_. poll_counted fetch)
      (\<lambda>e. is_retryable (aerr_code e)) (\<lambda>_ s. s) (s, n, d) \<lparr>mj_seeds = [0], mj_index = 0\<rparr> = (r, (s1, n1, d1), j1)"
    using assms by (auto simp: poll_fetch_def split: prod.splits)
  have "retry_loop mock_next_seed poll_retry_config (\<lambda>_. poll_counted fetch) (\<lambda>e. is_retryable (aerr_code e)) (\<lambda>_ s. s)
      None (attempts_below 3) (s, n, d) \<lparr>mj_seeds = [0], mj_index = 0\<rparr> = (r, (s1, n1, d1), j1)"
    using run unfolding retry_with_backoff_def if_not_P [OF ne] unfolding m .
  from retry_loop_count [OF this] have "n1 \<le> n + 3 \<and> d1 = d" by (simp add: attempts_below_def)
  moreover from retry_with_backoff_run [OF ne, of mock_next_seed "\<lambda>_. poll_counted fetch" "\<lambda>e. is_retryable (aerr_code e)"
      "\<lambda>_ s. s" "(s, n, d)" "\<lparr>mj_seeds = [0], mj_index = 0\<rparr>"] run
  have "r \<noteq> None" by auto
  ultimately show ?thesis by simp
qed

lemma poll_loop_returns:
  assumes "0 < unat (pc_interval_ms c)" and "unat (pc_max_duration_ms c) + unat (pc_interval_ms c) < 2 ^ 64"
    and "unat elapsed = d" and "d = 0 \<or> d < unat (pc_max_duration_ms c)"
    and "n \<le> 3 * k" and "d = k * unat (pc_interval_ms c)"
  shows "\<exists>res s1 n1 d1.
    poll_loop c (poll_counted fetch) (napping sleep) elapsed (s, n, d) = Some (Returned res, (s1, n1, d1)) \<and>
    n1 \<le> 3 * (d1 div unat (pc_interval_ms c) + 1) \<and> (d1 = 0 \<or> d1 < unat (pc_max_duration_ms c)) \<and>
    (\<forall>resp. res = Poll_Completed resp \<longrightarrow> sr_status resp \<in> set (pc_terminal_states c)) \<and>
    (res = Poll_TimedOut \<longrightarrow> unat (pc_max_duration_ms c) \<le> d1 + unat (pc_interval_ms c))"
  using assms(3-)
proof (induction "unat (pc_max_duration_ms c) - d" arbitrary: elapsed s n d k rule: less_induct)
  case less
  let ?i = "unat (pc_interval_ms c)" and ?max = "unat (pc_max_duration_ms c)"
  obtain r s1 n1 d1 where f: "poll_fetch (poll_counted fetch) (s, n, d) = (r, (s1, n1, d1))" by (metis prod_cases4)
  from poll_fetch_count [OF f] obtain x where x: "r = Some x" and n1: "n1 \<le> n + 3" and d1: "d1 = d" by auto
  have div: "d div ?i = k" using less.prems(4) assms(1) by simp
  have cnt: "n1 \<le> 3 * (d div ?i + 1)" using n1 less.prems(3) div by simp
  note unfold_once = poll_loop.simps [of c "poll_counted fetch" "napping sleep" elapsed "(s, n, d)"]
  show ?case
  proof (cases "\<exists>resp. x = Inr resp \<and> sr_status resp \<notin> set (pc_terminal_states c)")
    case False
    then show ?thesis
      using less.prems(2) cnt by (cases x) (auto simp: unfold_once f x d1)
  next
    case True
    then obtain resp where resp: "x = Inr resp" "sr_status resp \<notin> set (pc_terminal_states c)" by blast
    have "d + ?i < 2 ^ 64" using less.prems(2) assms(2) by linarith
    then obtain e where e: "checked_add elapsed (pc_interval_ms c) = Some e" "unat e = d + ?i"
      using less.prems(1) checked_add_Some [of elapsed "pc_interval_ms c"] by (cases "checked_add elapsed (pc_interval_ms c)")
        (auto simp: checked_add_None)
    show ?thesis
    proof (cases "pc_max_duration_ms c \<le> e")
      case True
      then have "?max \<le> d + ?i" using e(2) by (simp add: word_le_nat_alt)
      then show ?thesis using less.prems(2) cnt True by (auto simp: unfold_once f x resp e d1)
    next
      case False
      then have lt: "d + ?i < ?max" using e(2) by (simp add: word_le_nat_alt)
      have step: "poll_loop c (poll_counted fetch) (napping sleep) elapsed (s, n, d) =
          poll_loop c (poll_counted fetch) (napping sleep) e (sleep (pc_interval_ms c) s1, n1, d + ?i)"
        using False by (simp add: unfold_once f x resp e d1)
      have "?max - (d + ?i) < ?max - d" using lt assms(1) by linarith
      from less.hyps [OF this e(2), of n1 "Suc k"] lt n1 less.prems(3,4) show ?thesis
        unfolding step by simp
    qed
  qed
qed

text \<open>A poll whose fetch keeps failing for now makes three requests with no sleep between them.\<close>

lemma three_requests_at_once:
  assumes "is_retryable (aerr_code e)"
  shows "poll_fetch (poll_counted (\<lambda>s. (Inl e, s))) (s, n, d) = (Some (Inl e), (s, n + 3, d))"
proof -
  have three: "attempts_below 3 = [0, 1, 2]" "\<not> (3 :: u32) \<le> 1" "\<not> (3 :: u32) \<le> 2" by code_simp+
  show ?thesis
    using assms by (simp add: poll_fetch_def retry_with_backoff_def poll_retry_config_def three split: prod.split)
qed

text \<open>
  C36. If the interval is positive and the maximal duration and the interval add up without overflow
  (otherwise the additions of the code can panic), polling returns: it neither runs on nor panics.  It
  makes at most three requests per poll, with one interval between two polls, sleeps less than the
  maximal duration in all, reports a transaction as completed only in a terminal state and times out
  only when another interval would reach the maximum.  The documentation says that there is at most
  one request per interval; the code makes up to three at once, because the delays of the retry are
  not slept (\<open>three_requests_at_once\<close>).
\<close>

theorem poll_returns:
  assumes "pc_interval_ms c \<noteq> 0" and "unat (pc_max_duration_ms c) + unat (pc_interval_ms c) < 2 ^ 64"
  shows "\<exists>res s1 n d.
    poll_transaction_status c (poll_counted fetch) (napping sleep) (s, 0, 0) = Some (Returned res, (s1, n, d)) \<and>
    n \<le> 3 * (d div unat (pc_interval_ms c) + 1) \<and> (d = 0 \<or> d < unat (pc_max_duration_ms c)) \<and>
    (\<forall>resp. res = Poll_Completed resp \<longrightarrow> sr_status resp \<in> set (pc_terminal_states c)) \<and>
    (res = Poll_TimedOut \<longrightarrow> unat (pc_max_duration_ms c) \<le> d + unat (pc_interval_ms c))"
proof -
  have "0 < unat (pc_interval_ms c)" using assms(1) by (simp add: unat_gt_0)
  from poll_loop_returns [OF this assms(2), of 0 0 0 0] show ?thesis
    by (simp add: poll_transaction_status_def)
qed

theorem poll_returns_witness:
  "\<exists>res s1 n d.
    poll_transaction_status default_poll_config (poll_counted (\<lambda>s. (bad_intent, s))) (napping (\<lambda>_ s. s)) ((), 0, 0) =
      Some (Returned res, (s1, n, d)) \<and>
    n \<le> 3 * (d div 2000 + 1) \<and> (d = 0 \<or> d < 60000)"
proof -
  have c: "pc_interval_ms default_poll_config \<noteq> 0"
    "unat (pc_max_duration_ms default_poll_config) + unat (pc_interval_ms default_poll_config) < 2 ^ 64"
    by (simp_all add: default_poll_config_def)
  from poll_returns [OF c, of "\<lambda>s. (bad_intent, s)" "\<lambda>_ s. s" "()"] show ?thesis
    by (auto simp: default_poll_config_def)
qed

text \<open>With the interval 0 a pending transaction is polled forever.\<close>

lemma zero_interval_polls_forever:
  fixes s :: 's
  assumes "pc_interval_ms c = 0" and "elapsed < pc_max_duration_ms c"
    and "\<And>s. \<exists>resp s1. poll_fetch fetch s = (Some (Inr resp), s1) \<and> sr_status resp \<notin> set (pc_terminal_states c)"
  shows "poll_loop c fetch sleep elapsed s = None"
proof -
  define P where "P = (\<lambda>(c :: poll_config) (fetch :: 's \<Rightarrow> (anchor_kit_error + transaction_status_response) \<times> 's) (sleep :: u64 \<Rightarrow> 's \<Rightarrow> 's)
      elapsed (s :: 's) (r :: poll_outcome \<times> 's).
      pc_interval_ms c = 0 \<longrightarrow> elapsed < pc_max_duration_ms c \<longrightarrow>
      (\<forall>s. \<exists>resp s1. poll_fetch fetch s = (Some (Inr resp), s1) \<and> sr_status resp \<notin> set (pc_terminal_states c)) \<longrightarrow> False)"
  have "P c fetch sleep elapsed s y" if "poll_loop c fetch sleep elapsed s = Some y" for y
    using that
  proof (rule poll_loop.raw_induct [rotated])
    fix loop c fetch sleep elapsed s r
    assume IH: "\<And>c fetch sleep elapsed s r. loop c fetch sleep elapsed s = Some r \<Longrightarrow> P c fetch sleep elapsed s r"
      and body: "(case poll_fetch fetch s of
        (None, s1) \<Rightarrow> Some (Panicked, s1)
      | (Some (Inl e), s1) \<Rightarrow> Some (Returned (Poll_Failed e), s1)
      | (Some (Inr resp), s1) \<Rightarrow>
          if sr_status resp \<in> set (pc_terminal_states c) then Some (Returned (Poll_Completed resp), s1)
          else (case checked_add elapsed (pc_interval_ms c) of
            None \<Rightarrow> Some (Panicked, s1)
          | Some next_elapsed \<Rightarrow>
              if pc_max_duration_ms c \<le> next_elapsed then Some (Returned Poll_TimedOut, s1)
              else loop c fetch sleep next_elapsed (sleep (pc_interval_ms c) s1))) = Some r"
    show "P c fetch sleep elapsed s r"
      unfolding P_def
    proof (intro impI)
      assume c: "pc_interval_ms c = 0" and lt: "elapsed < pc_max_duration_ms c"
        and pending: "\<forall>s. \<exists>resp s1. poll_fetch fetch s = (Some (Inr resp), s1) \<and> sr_status resp \<notin> set (pc_terminal_states c)"
      from pending obtain resp s1 where f: "poll_fetch fetch s = (Some (Inr resp), s1)"
        "sr_status resp \<notin> set (pc_terminal_states c)" by blast
      have "checked_add elapsed 0 = Some elapsed"
        using unat_lt_pow [of elapsed] by (simp add: checked_add_Some)
      with body f c lt have "loop c fetch sleep elapsed (sleep 0 s1) = Some r" by (simp add: not_le [symmetric])
      from IH [OF this] c lt pending show False unfolding P_def by blast
    qed
  qed
  then show ?thesis using assms unfolding P_def by (cases "poll_loop c fetch sleep elapsed s") blast+
qed

end
