(* ===== verification/Sep24.thy ===== *)
theory Sep24
  imports Url_Normalizer Sep6
begin

text \<open>
  \<^verbatim>\<open>src/sep24.rs\<close>: the checks of the interactive addresses and the transaction identifiers that
  anchors answer with.
\<close>

section \<open>Answers\<close>

record raw_interactive_response =
  ri_url :: string
  ri_id :: string

record interactive_response =
  ir_url :: string
  ir_id :: string

record raw_sep24_transaction_response =
  r24_id :: string
  r24_status :: string
  r24_more_info_url :: "string option"
  r24_stellar_transaction_id :: "string option"
  r24_asset_code :: "string option"

record sep24_transaction_status_response =
  s24_id :: string
  s24_status :: transaction_status
  s24_more_info_url :: "string option"
  s24_stellar_transaction_id :: "string option"
  s24_asset_code :: "string option"

section \<open>Origins\<close>

definition extract_normalized_origin :: "string \<Rightarrow> string" where
  "extract_normalized_origin url =
     (case split_once ''://'' url of
        None \<Rightarrow> []
      | Some (sch, after_scheme) \<Rightarrow>
          let host_and_port = takeWhile (\<lambda>c. c \<noteq> CHR ''/'') after_scheme
          in to_ascii_lowercase sch @ ''://'' @ to_ascii_lowercase host_and_port)"

section \<open>Redirects\<close>

text \<open>\<open>char::to_digit(16)\<close>.\<close>

definition to_digit16 :: "char \<Rightarrow> nat option" where
  "to_digit16 c =
     (if ascii_digit c then Some (code_of c - 48)
      else if 97 \<le> code_of c \<and> code_of c \<le> 102 then Some (code_of c - 87)
      else if 65 \<le> code_of c \<and> code_of c \<le> 70 then Some (code_of c - 55)
      else None)"

text \<open>A byte from 128 on becomes the Unicode character of that number, which has two bytes in UTF-8.\<close>

definition push_byte :: "nat \<Rightarrow> string" where
  "push_byte n = (if n < 128 then [char_of n] else [char_of (192 + n div 64), char_of (128 + n mod 64)])"

fun percent_decode_query_component :: "string \<Rightarrow> string" where
  "percent_decode_query_component [] = []"
| "percent_decode_query_component (c # s) =
     (if c = CHR ''+'' then CHR '' '' # percent_decode_query_component s
      else if c = CHR ''%'' then
        (case s of
           h # l # t \<Rightarrow>
             (case (to_digit16 h, to_digit16 l) of
                (Some a, Some b) \<Rightarrow> push_byte (a * 16 + b) @ percent_decode_query_component t
              | _ \<Rightarrow> CHR ''%'' # percent_decode_query_component s)
         | _ \<Rightarrow> push_byte (code_of c) @ percent_decode_query_component s)
      else push_byte (code_of c) @ percent_decode_query_component s)"

definition redirect_names :: "string list" where
  "redirect_names =
     [''redirect'', ''redirect_url'', ''redirect_uri'', ''callback'', ''next'', ''return_url'', ''return_uri'',
      ''continue'', ''dest'', ''destination'', ''goto'', ''target'', ''to'']"

definition contains_text :: "string \<Rightarrow> string \<Rightarrow> bool" where
  "contains_text p s \<longleftrightarrow> split_once p s \<noteq> None"

definition redirect_pair :: "string \<Rightarrow> bool" where
  "redirect_pair pair =
     (let (k, v) = (case split_once ''='' pair of Some kv \<Rightarrow> kv | None \<Rightarrow> (pair, []));
          key = percent_decode_query_component k;
          val = percent_decode_query_component v
      in to_ascii_lowercase key \<in> set redirect_names \<and> contains_text ''://'' val)"

definition has_open_redirect_pattern :: "string \<Rightarrow> bool" where
  "has_open_redirect_pattern url =
     (case split_once ''?'' url of
        None \<Rightarrow> False
      | Some (_, after) \<Rightarrow>
          let query = takeWhile (\<lambda>c. c \<noteq> CHR ''#'') after
          in list_ex redirect_pair (split_on CHR ''&'' query))"

section \<open>Addresses and identifiers\<close>

definition validate_interactive_url :: "string \<Rightarrow> string option \<Rightarrow> anchor_kit_error + unit" where
  "validate_interactive_url url allowed_origin =
     bind_ok (normalize_url url) (\<lambda>normalized.
     bind_ok (case validate_anchor_domain normalized of Inl _ \<Rightarrow> bad_endpoint | Inr u \<Rightarrow> Inr u) (\<lambda>_.
       if normalized = ''https://'' then bad_endpoint
       else
         bind_ok
           (case allowed_origin of
              None \<Rightarrow> Inr ()
            | Some origin \<Rightarrow>
                bind_ok (normalize_url origin) (\<lambda>normalized_origin.
                  if extract_normalized_origin normalized \<noteq> extract_normalized_origin normalized_origin
                  then Inl (with_context InvalidEndpointFormat
                         ''interactive URL origin does not match allowed origin'' normalized)
                  else Inr ()))
           (\<lambda>_.
             if has_open_redirect_pattern normalized
             then Inl (with_context InvalidEndpointFormat
                    ''interactive URL contains unsafe redirect parameters'' normalized)
             else Inr ())))"

fun has_double :: "string \<Rightarrow> bool" where
  "has_double (a # b # s) \<longleftrightarrow> a = CHR ''-'' \<and> b = CHR ''-'' \<or> a = CHR ''_'' \<and> b = CHR ''_'' \<or> has_double (b # s)"
| "has_double _ \<longleftrightarrow> False"

definition invalid_id :: "string \<Rightarrow> anchor_kit_error + 'a" where
  "invalid_id msg = Inl (error_new ValidationError msg)"

definition validate_transaction_id :: "string \<Rightarrow> anchor_kit_error + unit" where
  "validate_transaction_id i =
     (if i = [] then invalid_id ''Transaction ID must not be empty''
      else if 64 < length i then invalid_id ''Transaction ID is too long (max 64 characters)''
      else if list_ex (\<lambda>c. \<not> ascii_alnum c \<and> c \<noteq> CHR ''-'' \<and> c \<noteq> CHR ''_'') i
      then invalid_id ''Transaction ID contains invalid characters (only ASCII alphanumeric, hyphen, underscore allowed)''
      else if starts_with ''-'' i \<or> starts_with ''_'' i then invalid_id ''Transaction ID cannot start with hyphen or underscore''
      else if ends_with ''-'' i \<or> ends_with ''_'' i then invalid_id ''Transaction ID cannot end with hyphen or underscore''
      else if has_double i then invalid_id ''Transaction ID cannot contain consecutive hyphens or underscores''
      else if \<not> list_ex ascii_alnum i
      then invalid_id ''Transaction ID must contain at least one ASCII alphanumeric character''
      else Inr ())"

definition require_redirect_url :: "string \<Rightarrow> anchor_kit_error + unit" where
  "require_redirect_url url =
     (if trim_text url = [] then invalid_id ''SEP-24 interactive redirect URL must not be blank'' else Inr ())"

definition require_transaction_id :: "string \<Rightarrow> anchor_kit_error + unit" where
  "require_transaction_id i =
     (if trim_text i = [] then invalid_id ''SEP-24 transaction ID must not be empty'' else Inr ())"

text \<open>The deposit and the withdrawal have the same fields and the same steps.\<close>

definition initiate_interactive_deposit_with_origin ::
  "raw_interactive_response \<Rightarrow> string option \<Rightarrow> anchor_kit_error + interactive_response" where
  "initiate_interactive_deposit_with_origin raw expected_origin =
     bind_ok (require_redirect_url (ri_url raw)) (\<lambda>_.
     bind_ok (normalize_url (ri_url raw)) (\<lambda>normalized_url.
     bind_ok (validate_interactive_url normalized_url expected_origin) (\<lambda>_.
     bind_ok (require_transaction_id (ri_id raw)) (\<lambda>_.
       Inr \<lparr>ir_url = normalized_url, ir_id = ri_id raw\<rparr>))))"

definition initiate_interactive_deposit :: "raw_interactive_response \<Rightarrow> anchor_kit_error + interactive_response" where
  "initiate_interactive_deposit raw = initiate_interactive_deposit_with_origin raw None"

definition initiate_interactive_withdrawal_with_origin ::
  "raw_interactive_response \<Rightarrow> string option \<Rightarrow> anchor_kit_error + interactive_response" where
  "initiate_interactive_withdrawal_with_origin raw expected_origin =
     bind_ok (require_redirect_url (ri_url raw)) (\<lambda>_.
     bind_ok (normalize_url (ri_url raw)) (\<lambda>normalized_url.
     bind_ok (validate_interactive_url normalized_url expected_origin) (\<lambda>_.
     bind_ok (require_transaction_id (ri_id raw)) (\<lambda>_.
       Inr \<lparr>ir_url = normalized_url, ir_id = ri_id raw\<rparr>))))"

definition initiate_interactive_withdrawal :: "raw_interactive_response \<Rightarrow> anchor_kit_error + interactive_response" where
  "initiate_interactive_withdrawal raw = initiate_interactive_withdrawal_with_origin raw None"

definition fetch_sep24_transaction_status ::
  "raw_sep24_transaction_response \<Rightarrow> anchor_kit_error + sep24_transaction_status_response" where
  "fetch_sep24_transaction_status raw =
     (if r24_id raw = [] then invalid_id ''Missing id field in SEP-24 transaction response''
      else if r24_status raw = [] then invalid_id ''Missing status field in SEP-24 transaction response''
      else
        bind_ok
          (case r24_more_info_url raw of
             None \<Rightarrow> Inr None
           | Some url \<Rightarrow>
               bind_ok (normalize_url url) (\<lambda>normalized.
               bind_ok (validate_interactive_url normalized None) (\<lambda>_. Inr (Some normalized))))
          (\<lambda>more_info_url.
        bind_ok (optional_asset_code (r24_asset_code raw)) (\<lambda>asset_code.
          Inr \<lparr>s24_id = r24_id raw, s24_status = status_from_str (r24_status raw), s24_more_info_url = more_info_url,
               s24_stellar_transaction_id = r24_stellar_transaction_id raw, s24_asset_code = asset_code\<rparr>)))"

section \<open>Whose page an interactive address opens\<close>

definition hostname_part :: "string \<Rightarrow> string" where
  "hostname_part authority = to_ascii_lowercase
     (case split_last_colon authority of
        Some (before, port) \<Rightarrow> if list_all ascii_digit port then before else authority
      | None \<Rightarrow> authority)"

lemma extract_hostname_parts:
  "split_once ''://'' url = Some (sch, after) \<Longrightarrow>
    extract_hostname url =
      (let a = takeWhile (\<lambda>c. \<not> is_delimiter c) after in if a = [] then None else Some (hostname_part a))"
  by (simp add: extract_hostname_def hostname_part_def Let_def)

lemma hostname_part_lower: "hostname_part (to_ascii_lowercase a) = hostname_part a"
proof (cases "split_last_colon a")
  case None
  then have "CHR '':'' \<notin> set (to_ascii_lowercase a)"
    by (auto simp: split_last_colon_None to_ascii_lowercase_def lower_char_special dest: sym)
  with None show ?thesis by (simp add: hostname_part_def split_last_colon_None [THEN iffD2])
next
  case (Some bp)
  obtain b p where bp: "bp = (b, p)" by (cases bp)
  from split_last_colon_Some [OF Some [unfolded bp]] have a: "a = b @ CHR '':'' # p" "CHR '':'' \<notin> set p" by auto
  have "CHR '':'' \<notin> set (to_ascii_lowercase p)"
    using a(2) by (auto simp: to_ascii_lowercase_def lower_char_special dest: sym)
  moreover have "to_ascii_lowercase a = to_ascii_lowercase b @ CHR '':'' # to_ascii_lowercase p"
    by (simp add: a(1) to_ascii_lowercase_def lower_char_special)
  ultimately have "split_last_colon (to_ascii_lowercase a) = Some (to_ascii_lowercase b, to_ascii_lowercase p)"
    using split_last_colon_at by simp
  moreover have "list_all ascii_digit (to_ascii_lowercase p) = list_all ascii_digit p"
    by (simp add: to_ascii_lowercase_def list_all_iff)
  ultimately show ?thesis by (simp add: hostname_part_def Some bp)
qed

lemma authority_of_host_and_port:
  "takeWhile (\<lambda>c. \<not> is_delimiter c) (to_ascii_lowercase (takeWhile (\<lambda>c. c \<noteq> CHR ''/'') s)) =
   to_ascii_lowercase (takeWhile (\<lambda>c. \<not> is_delimiter c) s)"
proof (induction s)
  case (Cons c s)
  have "is_delimiter CHR ''/''" by (simp add: is_delimiter_def)
  with Cons show ?case by (auto simp: to_ascii_lowercase_def)
qed (simp add: to_ascii_lowercase_def)

lemma same_origin_same_host:
  assumes "extract_normalized_origin u = extract_normalized_origin v"
    and "split_once ''://'' u = Some (s, a)" and "split_once ''://'' v = Some (s', a')"
    and "s = ''https''"
  shows "to_ascii_lowercase s' = ''https'' \<and> extract_hostname u = extract_hostname v"
proof -
  let ?hp = "\<lambda>x. to_ascii_lowercase (takeWhile (\<lambda>c. c \<noteq> CHR ''/'') x)"
  have https: "to_ascii_lowercase ''https'' = ''https''"
    by (simp add: to_ascii_lowercase_def lower_char_def ascii_upper_def)
  have "to_ascii_lowercase s' @ ''://'' @ ?hp a' = ''https://'' @ ?hp a"
    using assms(1) unfolding extract_normalized_origin_def assms(2-4) option.case prod.case Let_def https by simp
  from https_prefix [OF this lower_scheme_first [OF assms(3)]]
  have eq: "to_ascii_lowercase s' = ''https''" "?hp a' = ?hp a" by auto
  have auth: "to_ascii_lowercase (takeWhile (\<lambda>c. \<not> is_delimiter c) a') = to_ascii_lowercase (takeWhile (\<lambda>c. \<not> is_delimiter c) a)"
    using arg_cong [OF eq(2), of "takeWhile (\<lambda>c. \<not> is_delimiter c)"] unfolding authority_of_host_and_port .
  have "hostname_part (takeWhile (\<lambda>c. \<not> is_delimiter c) a') = hostname_part (takeWhile (\<lambda>c. \<not> is_delimiter c) a)"
    using auth hostname_part_lower by metis
  moreover have "takeWhile (\<lambda>c. \<not> is_delimiter c) a' = [] \<longleftrightarrow> takeWhile (\<lambda>c. \<not> is_delimiter c) a = []"
    using auth by (metis to_ascii_lowercase_def map_is_Nil_conv)
  ultimately show ?thesis
    unfolding extract_hostname_parts [OF assms(2)] extract_hostname_parts [OF assms(3)] Let_def using eq(1) by simp
qed

lemma split_once_skip:
  "c \<notin> set a \<Longrightarrow> split_once [c] (a @ s) = map_option (\<lambda>(x, y). (a @ x, y)) (split_once [c] s)"
  by (induction a; cases "split_once [c] s") (auto simp: starts_with_def)

lemma open_redirect_tail:
  "CHR ''?'' \<notin> set a \<Longrightarrow> has_open_redirect_pattern (a @ s) = has_open_redirect_pattern s"
  by (simp add: has_open_redirect_pattern_def split_once_skip split: option.split)

lemma withdrawal_as_deposit:
  "initiate_interactive_withdrawal_with_origin raw origin = initiate_interactive_deposit_with_origin raw origin"
  by (simp add: initiate_interactive_withdrawal_with_origin_def initiate_interactive_deposit_with_origin_def)

text \<open>What the check of an address establishes about its normal form.\<close>

lemma validate_interactive_url_ok:
  assumes "validate_interactive_url url origin = Inr ()"
  obtains m where "normalize_url url = Inr m" "validate_anchor_domain m = Inr ()"
    "\<not> has_open_redirect_pattern m"
    "case origin of None \<Rightarrow> True
     | Some o1 \<Rightarrow> \<exists>o'. normalize_url o1 = Inr o' \<and> extract_normalized_origin m = extract_normalized_origin o'"
proof -
  have domain: "(case x of Inl _ \<Rightarrow> bad_endpoint | Inr u \<Rightarrow> Inr u) = Inr y \<longleftrightarrow> x = Inr ()" for x :: "anchor_kit_error + unit" and y
    by (cases x) auto
  from assms show thesis
    unfolding validate_interactive_url_def ok_simps domain
    by (cases origin) (auto simp: ok_simps split: if_splits intro: that)
qed

lemma pinned_host:
  assumes m: "m = scheme @ host @ port @ t" and g: "host_grammar host" "port_grammar port" "tail_grammar t"
    and low: "to_ascii_lowercase host = host"
    and same: "extract_normalized_origin m = extract_normalized_origin o'"
  shows "extract_hostname o' = Some host"
proof -
  have sm: "split_once ''://'' m = Some (''https'', host @ port @ t)" unfolding m by (rule split_scheme)
  then have "extract_normalized_origin m \<noteq> []" by (simp add: extract_normalized_origin_def Let_def)
  with same obtain s' a' where so: "split_once ''://'' o' = Some (s', a')"
    by (cases "split_once ''://'' o'") (auto simp: extract_normalized_origin_def)
  from same_origin_same_host [OF same sm so refl] show ?thesis
    using extract_hostname_grammar [OF g low] by (simp add: m)
qed

text \<open>
  C32. The address that an interactive deposit or withdrawal hands on is, up to blanks around it, an
  https address: a registered host, perhaps a port, and at most a query or fragment.  It is the
  address that was checked, or the checked address with one default port more behind it (the address
  is normalised once and checked in the form normalised twice, so \<open>https://host:443:443:443\<close> is
  handed on as \<open>https://host:443:443\<close>).  If an origin is pinned, the host is the host of the origin.
  In the address handed on no query parameter among those known for redirects carries an address,
  also when name and value are percent-encoded, and the identifier is not blank.  There is no path:
  an address with one, as in the documentation's examples, is refused.
\<close>

theorem interactive_address:
  assumes "initiate_interactive_deposit_with_origin raw origin = Inr r \<or>
    initiate_interactive_withdrawal_with_origin raw origin = Inr r"
  shows "\<exists>host port t x. x \<in> {[], '':443''} \<and> trim_text (ir_url r) = scheme @ host @ port @ x @ t \<and>
    normalize_url (ir_url r) = Inr (scheme @ host @ port @ t) \<and>
    host_grammar host \<and> port_grammar port \<and> tail_grammar t \<and> t \<noteq> ''/'' \<and>
    (case origin of None \<Rightarrow> True
     | Some o1 \<Rightarrow> \<exists>o'. normalize_url o1 = Inr o' \<and> extract_hostname o' = Some host) \<and>
    \<not> has_open_redirect_pattern (trim_text (ir_url r)) \<and> ir_id r = ri_id raw \<and> trim_text (ir_id r) \<noteq> []"
proof -
  from assms have "initiate_interactive_deposit_with_origin raw origin = Inr r"
    by (simp add: withdrawal_as_deposit)
  then obtain n where n: "normalize_url (ri_url raw) = Inr n" and v: "validate_interactive_url n origin = Inr ()"
    and r: "ir_url r = n" "ir_id r = ri_id raw" "trim_text (ri_id raw) \<noteq> []"
    by (auto simp: initiate_interactive_deposit_with_origin_def require_transaction_id_def invalid_id_def ok_simps
        split: if_splits)
  obtain m where m: "normalize_url n = Inr m" and valid: "validate_anchor_domain m = Inr ()"
    and safe: "\<not> has_open_redirect_pattern m" and pinned: "case origin of None \<Rightarrow> True
     | Some o1 \<Rightarrow> \<exists>o'. normalize_url o1 = Inr o' \<and> extract_normalized_origin m = extract_normalized_origin o'"
    by (rule validate_interactive_url_ok [OF v])
  obtain host port t where eq: "m = scheme @ host @ port @ t"
    and g: "host_grammar host" "port_grammar port" "tail_grammar t" and low: "to_ascii_lowercase host = host"
    and t: "t \<noteq> ''/''"
    by (rule normalized_valid [OF m valid])
  from normalized_twice [OF n m [unfolded eq] g] obtain x where
    x: "x \<in> {[], '':443''}" "trim_text n = scheme @ host @ port @ x @ t" by blast
  have mark: "CHR ''?'' \<notin> set (scheme @ host @ port)"
    using authority_chars(1) [OF g(1,2)] by (auto simp: scheme_def is_delimiter_def)
  then have "CHR ''?'' \<notin> set (scheme @ host @ port @ x)" using x(1) by auto
  then have "has_open_redirect_pattern (trim_text n) = has_open_redirect_pattern m"
    using open_redirect_tail [of "scheme @ host @ port @ x" t] open_redirect_tail [OF mark, of t] by (simp add: x(2) eq)
  moreover have "case origin of None \<Rightarrow> True
     | Some o1 \<Rightarrow> \<exists>o'. normalize_url o1 = Inr o' \<and> extract_hostname o' = Some host"
    using pinned pinned_host [OF eq g low] by (cases origin) auto
  ultimately show ?thesis using x m eq g t r safe by (intro exI [of _ host] exI [of _ port] exI [of _ t] exI [of _ x]) simp
qed

lemma sample_interactive:
  "initiate_interactive_deposit_with_origin \<lparr>ri_url = ''https://example.com:443'', ri_id = ''tx1''\<rparr> (Some ''https://example.com'')
   = Inr \<lparr>ir_url = ''https://example.com'', ir_id = ''tx1''\<rparr>"
proof -
  have trim: "trim_text s = s" if "\<forall>c \<in> set s. visible c" for s using that by (rule trim_visible)
  have t1: "trim_text ''https://example.com:443'' = ''https://example.com:443''" "trim_text ''tx1'' = ''tx1''"
    by (rule trim, simp add: visible_def)+
  have n1: "normalize_url ''https://example.com:443'' = Inr ''https://example.com''"
    using renormalize [OF sample_host(1,4,5,2,6) sample_chars [of "'':443''"]] by (simp add: scheme_def)
  have n2: "normalize_url ''https://example.com'' = Inr ''https://example.com''"
    using renormalize [OF sample_host(1,3,5,2,6) sample_chars [of "[]"]] by (simp add: scheme_def)
  have "validate_anchor_domain (scheme @ ''example.com'' @ [] @ []) = Inr ()"
    unfolding domain_accepted_iff using sample_host sample_chars [of "[]"] by (simp add: scheme_def) blast
  then have v: "validate_anchor_domain ''https://example.com'' = Inr ()" by (simp add: scheme_def)
  have "\<not> has_open_redirect_pattern ''https://example.com''"
    by (simp add: has_open_redirect_pattern_def starts_with_def)
  then have "validate_interactive_url ''https://example.com'' (Some ''https://example.com'') = Inr ()"
    unfolding validate_interactive_url_def n2 v bind_ok.simps by (simp add: n2)
  then show ?thesis
    by (simp add: initiate_interactive_deposit_with_origin_def require_redirect_url_def require_transaction_id_def t1 n1)
qed

theorem interactive_address_witness:
  "\<exists>host port t x. x \<in> {[], '':443''} \<and> trim_text ''https://example.com'' = scheme @ host @ port @ x @ t \<and>
    host_grammar host \<and> port_grammar port \<and> tail_grammar t \<and>
    (\<exists>o'. normalize_url ''https://example.com'' = Inr o' \<and> extract_hostname o' = Some host) \<and>
    \<not> has_open_redirect_pattern (trim_text ''https://example.com'')"
  using interactive_address [OF disjI1 [OF sample_interactive], unfolded interactive_response.simps option.case]
  by blast

end
