(* ===== verification/Stellar_Account.thy ===== *)
theory Stellar_Account
  imports Errors Ascii_Text
begin

unbundle bit_operations_syntax

text \<open>
  Account identifiers and assets of \<^verbatim>\<open>src/response_validator.rs\<close>: the base32 decoder, the
  CRC16-XMODEM checksum and the checks built on them, at their machine widths.  The checksum is
  linear over exclusive or, so a mistyped letter, which changes at most two adjacent bytes, is always
  found.
\<close>

section \<open>The decoder\<close>

type_synonym u16 = "16 word"

definition decode_base32_value :: "char \<Rightarrow> u8 option" where
  "decode_base32_value ch =
     (if ascii_upper ch then Some (of_nat (code_of ch - 65))
      else if 50 \<le> code_of ch \<and> code_of ch \<le> 55 then Some (of_nat (code_of ch - 50 + 26))
      else None)"

text \<open>The loop of \<open>decode_base32\<close> over the rest of the input; the shift drops the high bits.\<close>

fun base32_loop :: "string \<Rightarrow> u32 \<Rightarrow> nat \<Rightarrow> u8 list \<Rightarrow> u8 list option" where
  "base32_loop [] value_bits bits buffer = (if bits \<noteq> 0 then None else Some buffer)"
| "base32_loop (ch # input) value_bits bits buffer =
     (case decode_base32_value ch of
        None \<Rightarrow> None
      | Some val \<Rightarrow>
          let v = push_bit 5 value_bits OR ucast val
          in if 8 \<le> bits + 5
             then base32_loop input v (bits + 5 - 8) (buffer @ [ucast (drop_bit (bits + 5 - 8) v AND 255)])
             else base32_loop input v (bits + 5) buffer)"

definition decode_base32 :: "string \<Rightarrow> u8 list option" where
  "decode_base32 input = base32_loop input 0 0 []"

section \<open>The checksum\<close>

definition crc_shift :: "u16 \<Rightarrow> u16" where
  "crc_shift crc = (if crc AND 0x8000 \<noteq> 0 then push_bit 1 crc XOR 0x1021 else push_bit 1 crc)"

definition crc_byte :: "u16 \<Rightarrow> u8 \<Rightarrow> u16" where
  "crc_byte crc byte = (crc_shift ^^ 8) (crc XOR push_bit 8 (ucast byte))"

definition crc16_xmodem :: "u8 list \<Rightarrow> u16" where
  "crc16_xmodem input = foldl crc_byte 0 input"

section \<open>Validation\<close>

definition is_valid_stellar_account_char :: "char \<Rightarrow> bool" where
  "is_valid_stellar_account_char c \<longleftrightarrow> ascii_upper c \<or> 50 \<le> code_of c \<and> code_of c \<le> 55"

definition from_le_bytes :: "u8 \<Rightarrow> u8 \<Rightarrow> u16" where
  "from_le_bytes lo hi = ucast lo OR push_bit 8 (ucast hi)"

definition is_valid_stellar_strkey :: "string \<Rightarrow> bool" where
  "is_valid_stellar_strkey account_id \<longleftrightarrow>
     (case decode_base32 account_id of
        None \<Rightarrow> False
      | Some decoded \<Rightarrow>
          length decoded = 35 \<and> decoded ! 0 = push_bit 3 6 \<and>
          crc16_xmodem (take 33 decoded) = from_le_bytes (decoded ! 33) (decoded ! 34))"

text \<open>\<open>char::is_ascii_whitespace\<close>: space, tab, line feed, form feed, carriage return.\<close>

definition ascii_whitespace :: "char \<Rightarrow> bool" where
  "ascii_whitespace c \<longleftrightarrow> code_of c \<in> {9, 10, 12, 13, 32}"

definition normalize_stellar_account_id :: "string \<Rightarrow> anchor_kit_error + string" where
  "normalize_stellar_account_id account_id =
     (let trimmed = trim_text account_id in
      if trimmed = [] then Inl (validation_error ''account_id is empty'')
      else if list_ex ascii_whitespace trimmed then Inl (validation_error ''account_id must not contain whitespace'')
      else let normalized = to_ascii_uppercase trimmed in
        if length normalized \<noteq> 56 then Inl (validation_error ''account_id must be 56 characters'')
        else if \<not> starts_with ''G'' normalized then Inl (validation_error ''account_id must start with G'')
        else if \<not> list_all is_valid_stellar_account_char normalized
        then Inl (validation_error ''account_id contains invalid characters'')
        else if \<not> is_valid_stellar_strkey normalized
        then Inl (validation_error ''account_id checksum is invalid'')
        else Inr normalized)"

definition validate_stellar_account_id :: "string \<Rightarrow> anchor_kit_error + unit" where
  "validate_stellar_account_id account_id =
     (case normalize_stellar_account_id account_id of Inl e \<Rightarrow> Inl e | Inr _ \<Rightarrow> Inr ())"

definition quoted :: "string \<Rightarrow> string" where
  "quoted s = char_of (39 :: nat) # s @ [char_of (39 :: nat)]"

definition validate_stellar_asset :: "string \<Rightarrow> anchor_kit_error + unit" where
  "validate_stellar_asset asset =
     (if asset = ''native'' then Inr ()
      else case split_once '':'' asset of
        None \<Rightarrow> Inl (validation_error
          (''asset must be '' @ quoted ''native'' @ '' or '' @ quoted ''CODE:ISSUER''))
      | Some (code, issuer) \<Rightarrow>
          if code = [] \<or> 12 < length code \<or> \<not> list_all ascii_alnum code
          then Inl (validation_error ''asset code must be 1-12 alphanumeric characters'')
          else case validate_stellar_account_id issuer of
            Inl _ \<Rightarrow> Inl (validation_error ''asset issuer must be a valid Stellar account address'')
          | Inr u \<Rightarrow> Inr u)"

section \<open>What the decoder computes\<close>

text \<open>The bits of a text, five for each character, the high one first.\<close>

definition letter_bit :: "char \<Rightarrow> nat \<Rightarrow> bool" where
  "letter_bit c b = (case decode_base32_value c of None \<Rightarrow> False | Some v \<Rightarrow> bit v b)"

definition text_bit :: "string \<Rightarrow> nat \<Rightarrow> bool" where
  "text_bit s m = letter_bit (s ! (m div 5)) (4 - m mod 5)"

lemma base32_value_number:
  assumes "decode_base32_value c = Some v"
  shows "unat v = (if ascii_upper c then code_of c - 65 else code_of c - 24)" and "unat v < 32"
    and "\<not> ascii_upper c \<Longrightarrow> 50 \<le> code_of c \<and> code_of c \<le> 55"
proof -
  have num: "n < 256 \<Longrightarrow> unat (of_nat n :: u8) = n" for n by (simp add: unat_of_nat)
  show "unat v = (if ascii_upper c then code_of c - 65 else code_of c - 24)" "unat v < 32"
    using assms num [of "code_of c - 65"] num [of "code_of c - 24"]
    by (auto simp: decode_base32_value_def ascii_upper_def simp del: of_nat_diff split: if_split_asm)
  show "\<not> ascii_upper c \<Longrightarrow> 50 \<le> code_of c \<and> code_of c \<le> 55"
    using assms by (auto simp: decode_base32_value_def split: if_split_asm)
qed

lemma high_bits_zero:
  assumes "decode_base32_value c = Some v"
  shows "bit v b \<Longrightarrow> b < 5"
proof -
  have "take_bit 5 (unat v) = unat v"
    using base32_value_number(2) [OF assms] by (simp add: take_bit_nat_eq_self)
  then have "take_bit 5 v = v" by (simp only: word_unat_eq_iff unsigned_take_bit_eq)
  then show "bit v b \<Longrightarrow> b < 5" by (metis bit_take_bit_iff)
qed

text \<open>The state of the loop after the characters of \<open>pre\<close>: complete bytes, and the pending bits.\<close>

definition decoding :: "string \<Rightarrow> u32 \<Rightarrow> nat \<Rightarrow> u8 list \<Rightarrow> bool" where
  "decoding pre v bits buf \<longleftrightarrow> bits < 8 \<and> 8 * length buf + bits = 5 * length pre \<and>
     (\<forall>t < bits. bit v t = text_bit pre (5 * length pre - 1 - t)) \<and>
     (\<forall>k < length buf. \<forall>b < 8. bit (buf ! k) b = text_bit pre (8 * k + 7 - b))"

lemma text_bit_append: "m < 5 * length pre \<Longrightarrow> text_bit (pre @ post) m = text_bit pre m"
  by (simp add: text_bit_def nth_append less_mult_imp_div_less mult.commute)

lemma text_bit_last:
  assumes "t < 5"
  shows "text_bit (pre @ [ch]) (5 * length pre + 4 - t) = letter_bit ch t"
proof -
  define r where "r = 4 - t"
  with assms have r: "r < 5" "5 * length pre + 4 - t = 5 * length pre + r" "4 - r = t" by linarith+
  then have "(5 * length pre + r) div 5 = length pre" "(5 * length pre + r) mod 5 = r" by simp_all
  with r show ?thesis by (simp add: text_bit_def)
qed

lemma decoding_shift:
  assumes inv: "decoding pre v bits buf" and val: "decode_base32_value ch = Some val" and t: "t < bits + 5"
  shows "bit (push_bit 5 v OR ucast val :: u32) t = text_bit (pre @ [ch]) (5 * length pre + 4 - t)"
proof (cases "t < 5")
  case True
  then have "\<not> bit (push_bit 5 v) t" by (simp add: bit_simps)
  with True show ?thesis
    using text_bit_last [OF True, of pre ch] val by (simp add: letter_bit_def bit_simps)
next
  case False
  from inv have b: "bits < 8" and len: "8 * length buf + bits = 5 * length pre" by (auto simp: decoding_def)
  have no: "\<not> bit val t" using high_bits_zero [OF val, of t] False by blast
  have "bit (push_bit 5 v OR ucast val :: u32) t = bit v (t - 5)"
    using False t b no by (simp add: bit_simps)
  also have "\<dots> = text_bit pre (5 * length pre - 1 - (t - 5))"
    using inv False t by (simp add: decoding_def)
  also have "\<dots> = text_bit (pre @ [ch]) (5 * length pre - 1 - (t - 5))"
    using len t False by (subst text_bit_append) auto
  also have "5 * length pre - 1 - (t - 5) = 5 * length pre + 4 - t" using False t len by simp
  finally show ?thesis .
qed

lemma decoding_step:
  assumes inv: "decoding pre v bits buf" and val: "decode_base32_value ch = Some val"
    and v1: "v1 = push_bit 5 v OR ucast val"
  shows "8 \<le> bits + 5 \<Longrightarrow> decoding (pre @ [ch]) v1 (bits + 5 - 8) (buf @ [ucast (drop_bit (bits + 5 - 8) v1 AND 255)])"
    and "\<not> 8 \<le> bits + 5 \<Longrightarrow> decoding (pre @ [ch]) v1 (bits + 5) buf"
proof -
  from inv have b: "bits < 8" and len: "8 * length buf + bits = 5 * length pre"
    and old: "k < length buf \<Longrightarrow> j < 8 \<Longrightarrow> bit (buf ! k) j = text_bit pre (8 * k + 7 - j)" for k j
    by (auto simp: decoding_def)
  have new: "t < bits + 5 \<Longrightarrow> bit v1 t = text_bit (pre @ [ch]) (5 * length pre + 4 - t)" for t
    unfolding v1 by (rule decoding_shift [OF inv val])
  have keep: "k < length buf \<Longrightarrow> j < 8 \<Longrightarrow> bit (buf ! k) j = text_bit (pre @ [ch]) (8 * k + 7 - j)" for k j
    using old [of k j] len by (subst text_bit_append) auto
  show "decoding (pre @ [ch]) v1 (bits + 5) buf" if "\<not> 8 \<le> bits + 5"
    using that b len new keep by (auto simp: decoding_def ac_simps)
  show "decoding (pre @ [ch]) v1 (bits + 5 - 8) (buf @ [ucast (drop_bit (bits + 5 - 8) v1 AND 255)])" if full: "8 \<le> bits + 5"
  proof -
    let ?d = "bits + 5 - 8" and ?buf = "buf @ [ucast (drop_bit (bits + 5 - 8) v1 AND 255) :: u8]"
    have byte: "bit (?buf ! length buf) j = text_bit (pre @ [ch]) (8 * length buf + 7 - j)" if "j < 8" for j
    proof -
      have "bit (255 :: u32) j" using that bit_mask_iff [of 8 j, where 'a = u32] by (simp add: mask_eq_exp_minus_1)
      then have "bit (?buf ! length buf) j = bit v1 (?d + j)"
        using that b by (simp only: nth_append_length) (simp add: bit_simps)
      also have "\<dots> = text_bit (pre @ [ch]) (5 * length pre + 4 - (?d + j))"
        by (rule new) (use that full in simp)
      also have "5 * length pre + 4 - (?d + j) = 8 * length buf + 7 - j" using len full that by simp
      finally show ?thesis .
    qed
    have "bit (?buf ! k) j = text_bit (pre @ [ch]) (8 * k + 7 - j)" if "k < Suc (length buf)" "j < 8" for k j
      using that keep [of k j] byte [of j] by (cases "k = length buf") (auto simp: nth_append)
    then show ?thesis using b len new full by (auto simp: decoding_def ac_simps)
  qed
qed

lemma base32_loop_decoding:
  assumes "base32_loop s v bits buf = Some d" and "decoding pre v bits buf"
  shows "decoding (pre @ s) 0 0 d"
  using assms
proof (induction s v bits buf arbitrary: pre rule: base32_loop.induct)
  case (1 v bits buf)
  then show ?case by (auto simp: decoding_def split: if_split_asm)
next
  case (2 ch s v bits buf)
  from 2(3) obtain val where val: "decode_base32_value ch = Some val" by (auto split: option.split_asm)
  show ?case
  proof (cases "8 \<le> bits + 5")
    case True
    from 2(1) [OF val refl True, of "pre @ [ch]"] 2(3) val True decoding_step(1) [OF 2(4) val refl True]
    show ?thesis by (simp add: Let_def)
  next
    case False
    from 2(2) [OF val refl False, of "pre @ [ch]"] 2(3) val False decoding_step(2) [OF 2(4) val refl False]
    show ?thesis by (simp add: Let_def)
  qed
qed

lemma base32_loop_letters: "base32_loop s v bits buf = Some d \<Longrightarrow> \<forall>c \<in> set s. decode_base32_value c \<noteq> None"
  by (induction s v bits buf rule: base32_loop.induct) (auto split: option.split_asm if_split_asm simp: Let_def)

lemma decode_base32_bits:
  assumes "decode_base32 s = Some d"
  shows "8 * length d = 5 * length s"
    and "k < length d \<Longrightarrow> b < 8 \<Longrightarrow> bit (d ! k) b = text_bit s (8 * k + 7 - b)"
    and "\<forall>c \<in> set s. decode_base32_value c \<noteq> None"
proof -
  from assms have run: "base32_loop s 0 0 [] = Some d" by (simp add: decode_base32_def)
  have "decoding [] 0 0 []" by (simp add: decoding_def)
  from base32_loop_decoding [OF run this] have "decoding s 0 0 d" by simp
  then show "8 * length d = 5 * length s"
    and "k < length d \<Longrightarrow> b < 8 \<Longrightarrow> bit (d ! k) b = text_bit s (8 * k + 7 - b)"
    by (auto simp: decoding_def)
  show "\<forall>c \<in> set s. decode_base32_value c \<noteq> None" by (rule base32_loop_letters [OF run])
qed

section \<open>The checksum is linear\<close>

lemma high_bit_iff: "crc AND 0x8000 \<noteq> 0 \<longleftrightarrow> bit (crc :: u16) 15"
proof -
  have p: "(0x8000 :: u16) = 2 ^ 15" by simp
  show ?thesis unfolding p by (simp only: and_exp_eq_0_iff_not_bit not_not)
qed

lemma crc_shift_xor: "crc_shift (a XOR b) = crc_shift a XOR crc_shift b"
  by (auto simp: crc_shift_def high_bit_iff bit_xor_iff push_bit_xor ac_simps)

lemma crc_shift_0 [simp]: "crc_shift 0 = 0"
  by (simp add: crc_shift_def)

lemma crc_shift_eq_0: "crc_shift a = 0 \<Longrightarrow> a = 0"
proof -
  assume z: "crc_shift a = 0"
  have "\<not> bit (crc_shift a) 0" by (simp add: z)
  then have high: "\<not> bit a 15"
    by (auto simp: crc_shift_def high_bit_iff bit_simps bit_0 even_xor_iff split: if_split_asm)
  with z have push: "push_bit 1 a = 0" by (simp add: crc_shift_def high_bit_iff)
  show "a = 0"
  proof (rule bit_word_eqI)
    fix n
    assume "n < LENGTH(16)"
    then consider "n = 15" | "Suc n < 16" by force
    then show "bit a n = bit (0 :: u16) n"
    proof cases
      case 2
      have "bit (push_bit 1 a) (Suc n) = bit a n" using 2 by (subst bit_push_bit_iff) simp
      then show ?thesis by (simp only: push) simp
    qed (simp add: high)
  qed
qed

lemma crc_shifts_xor: "(crc_shift ^^ n) (a XOR b) = (crc_shift ^^ n) a XOR (crc_shift ^^ n) b"
  by (induction n) (simp_all add: crc_shift_xor)

lemma crc_shifts_0 [simp]: "(crc_shift ^^ n) 0 = 0"
  by (induction n) simp_all

lemma crc_shifts_eq_0: "(crc_shift ^^ n) a = 0 \<Longrightarrow> a = 0"
  by (induction n) (auto dest: crc_shift_eq_0)

lemma crc_byte_xor: "crc_byte (a XOR b) (x XOR y) = crc_byte a x XOR crc_byte b y"
proof -
  have "push_bit 8 (ucast (x XOR y)) = (push_bit 8 (ucast x) XOR push_bit 8 (ucast y) :: u16)"
    by (simp add: unsigned_xor_eq push_bit_xor)
  then have "(a XOR b) XOR push_bit 8 (ucast (x XOR y)) =
      (a XOR push_bit 8 (ucast x)) XOR (b XOR push_bit 8 (ucast y) :: u16)"
    by (simp only: ac_simps)
  then show ?thesis unfolding crc_byte_def by (simp only: crc_shifts_xor [symmetric])
qed

lemma crc_byte_0 [simp]: "crc_byte 0 0 = 0"
  by (simp add: crc_byte_def)

lemma crc_byte_zero_byte: "crc_byte a 0 = 0 \<Longrightarrow> a = 0"
  by (auto simp: crc_byte_def dest: crc_shifts_eq_0)

lemma crc_xor:
  "length xs = length ys \<Longrightarrow>
   foldl crc_byte (a XOR b) (map2 (XOR) xs ys) = foldl crc_byte a xs XOR foldl crc_byte b ys"
  by (induction xs ys arbitrary: a b rule: list_induct2) (simp_all add: crc_byte_xor)

lemma crc_zeros [simp]: "foldl crc_byte 0 (replicate n 0) = 0"
  by (induction n) simp_all

lemma crc_zeros_nonzero: "a \<noteq> 0 \<Longrightarrow> foldl crc_byte a (replicate n 0) \<noteq> 0"
  by (induction n arbitrary: a) (auto dest: crc_byte_zero_byte)

text \<open>A byte moves into the low half of the register before the polynomial touches it, so two bytes
  cannot cancel.\<close>

lemma quiet_shifts:
  "(\<And>b. bit w b \<Longrightarrow> b + n < 16) \<Longrightarrow> (crc_shift ^^ n) w = push_bit n w"
proof (induction n)
  case (Suc n)
  have "\<not> bit (push_bit n w) 15"
    using Suc(2) [of "15 - n"] by (auto simp: bit_push_bit_iff)
  moreover have "(crc_shift ^^ n) w = push_bit n w" by (rule Suc(1)) (use Suc(2) in force)
  ultimately have "crc_shift ((crc_shift ^^ n) w) = push_bit 1 (push_bit n w)"
    by (simp add: crc_shift_def [of "push_bit n w"] high_bit_iff)
  then show ?case by (simp only: funpow.simps o_apply push_bit_push_bit) simp
qed simp

lemma low_byte_shifts: "(crc_shift ^^ 8) (ucast (y :: u8)) = push_bit 8 (ucast y)"
  by (rule quiet_shifts) (auto simp: bit_simps dest: bit_imp_le_length)

lemma crc_two_bytes:
  assumes "crc_byte (crc_byte 0 x) y = 0"
  shows "x = 0 \<and> y = 0"
proof -
  have "push_bit 8 (ucast y) = (crc_shift ^^ 8) (ucast y :: u16)" by (simp add: low_byte_shifts)
  then have "crc_byte 0 x XOR push_bit 8 (ucast y) = (crc_shift ^^ 8) (push_bit 8 (ucast x) XOR ucast y)"
    by (simp only: crc_byte_def crc_shifts_xor xor.left_neutral)
  with assms have z: "push_bit 8 (ucast x) XOR ucast y = (0 :: u16)"
    by (auto simp: crc_byte_def dest!: crc_shifts_eq_0)
  have "\<not> bit x n" "\<not> bit y n" if "n < 8" for n
    using arg_cong [OF z, of "\<lambda>w. bit w (n + 8)"] arg_cong [OF z, of "\<lambda>w. bit w n"] that
    by (auto simp: bit_simps dest: bit_imp_le_length)
  then show ?thesis by (auto intro!: bit_word_eqI)
qed

section \<open>Mistyped identifiers\<close>

lemma word_xor_zero_iff: "a XOR b = 0 \<longleftrightarrow> a = (b :: 'a::len word)"
  by (auto simp: bit_eq_iff bit_simps)

text \<open>Two decoded texts that differ in one letter.\<close>

lemma number_inject:
  "(if 65 \<le> n \<and> n \<le> 90 then n - 65 else n - 24) = (if 65 \<le> m \<and> m \<le> 90 then m - 65 else m - 24) \<Longrightarrow>
   (\<not> (65 \<le> n \<and> n \<le> 90) \<Longrightarrow> 50 \<le> n \<and> n \<le> 55) \<Longrightarrow> (\<not> (65 \<le> m \<and> m \<le> 90) \<Longrightarrow> 50 \<le> m \<and> m \<le> 55) \<Longrightarrow>
   n = (m :: nat)"
  by (cases "65 \<le> n \<and> n \<le> 90"; cases "65 \<le> m \<and> m \<le> 90") auto

lemma letters_differ:
  assumes "decode_base32_value c = Some v" and "decode_base32_value c' = Some v'" and "c \<noteq> c'"
  shows "\<exists>b < 5. letter_bit c b \<noteq> letter_bit c' b"
proof -
  have "code_of c \<noteq> code_of c'" using assms(3) by (metis char_of_char)
  moreover have "code_of c = code_of c'" if "unat v = unat v'"
    by (rule number_inject) (use that base32_value_number(1,3) [OF assms(1)] base32_value_number(1,3) [OF assms(2)]
        in \<open>simp_all add: ascii_upper_def\<close>)
  ultimately have "v \<noteq> v'" by blast
  then obtain b where "bit v b \<noteq> bit v' b" by (auto simp: bit_eq_iff)
  with high_bits_zero [OF assms(1)] high_bits_zero [OF assms(2)] show ?thesis
    by (intro exI [of _ b]) (auto simp: letter_bit_def assms(1,2))
qed

lemma typo_bit: "text_bit (s[i := c]) m = (if m div 5 = i \<and> i < length s then letter_bit c (4 - m mod 5) else text_bit s m)"
  by (cases "i < length s") (auto simp: text_bit_def nth_list_update list_update_beyond)

lemma typo_bytes:
  assumes d: "decode_base32 s = Some d" and d': "decode_base32 (s[i := c]) = Some d'"
    and i: "i < length s" and c: "c \<noteq> s ! i"
  shows "length d' = length d"
    and "\<And>k b. k < length d \<Longrightarrow> b < 8 \<Longrightarrow> bit (d ! k) b \<noteq> bit (d' ! k) b \<Longrightarrow> (8 * k + 7 - b) div 5 = i"
    and "\<exists>k < length d. d ! k \<noteq> d' ! k"
proof -
  note bits = decode_base32_bits [OF d] and bits' = decode_base32_bits [OF d']
  show len: "length d' = length d" using bits(1) bits'(1) by simp
  show "(8 * k + 7 - b) div 5 = i" if "k < length d" "b < 8" "bit (d ! k) b \<noteq> bit (d' ! k) b" for k b
    using that len bits(2) [of k b] bits'(2) [of k b] typo_bit [of s i c "8 * k + 7 - b"] by metis
  obtain v v' where "decode_base32_value (s ! i) = Some v" "decode_base32_value c = Some v'"
    using bits(3) bits'(3) i by (metis not_None_eq nth_mem set_update_memI)
  from letters_differ [OF this] c obtain b where b: "b < 5" "letter_bit (s ! i) b \<noteq> letter_bit c b" by auto
  define r where "r = 4 - b"
  define m where "m = 5 * i + r"
  have "r < 5" by (simp add: r_def)
  then have m: "m div 5 = i" "m mod 5 = 4 - b" "m < 5 * length s" using i by (simp_all add: m_def flip: r_def)
  have "text_bit s m \<noteq> text_bit (s[i := c]) m"
    using m b i unfolding typo_bit by (simp add: text_bit_def)
  moreover have k: "m div 8 < length d" "8 * (m div 8) + 7 - (7 - m mod 8) = m"
    using m(3) bits(1) div_mult_mod_eq [of m 8] mod_less_divisor [of 8 m] by linarith+
  moreover have "7 - m mod 8 < 8" by simp
  ultimately have "bit (d ! (m div 8)) (7 - m mod 8) \<noteq> bit (d' ! (m div 8)) (7 - m mod 8)"
    using bits(2) bits'(2) len by metis
  with k(1) show "\<exists>k < length d. d ! k \<noteq> d' ! k" by metis
qed

text \<open>A register that two adjacent bytes have changed stays changed.\<close>

lemma crc_burst:
  assumes "length xs = length ys" and "k < length xs" and "\<And>j. j < length xs \<Longrightarrow> xs ! j \<noteq> ys ! j \<Longrightarrow> j = k \<or> j = Suc k"
    and "\<exists>j < length xs. xs ! j \<noteq> ys ! j"
  shows "crc16_xmodem xs \<noteq> crc16_xmodem ys"
proof -
  define e where "e = map2 (XOR) xs ys"
  have nth: "j < length xs \<Longrightarrow> e ! j = xs ! j XOR ys ! j" and len: "length e = length xs" for j
    using assms(1) by (simp_all add: e_def)
  have zero: "e ! j = 0 \<longleftrightarrow> xs ! j = ys ! j" if "j < length xs" for j
    unfolding nth [OF that] by (rule word_xor_zero_iff)
  have quiet: "j < length xs \<Longrightarrow> j \<noteq> k \<Longrightarrow> j \<noteq> Suc k \<Longrightarrow> e ! j = 0" for j
    using assms(3) zero by blast
  have "take k e = replicate k 0"
    using assms(2) len quiet by (intro nth_equalityI) auto
  moreover have "drop (k + 2) e = replicate (length xs - (k + 2)) 0"
    using len quiet by (intro nth_equalityI) auto
  ultimately have split: "e = replicate k 0 @ drop k (take (k + 2) e) @ replicate (length xs - (k + 2)) 0"
    by (metis append_take_drop_id append.assoc take_take min.absorb1 le_add1 take_drop add.commute drop_take)
  have nonzero: "foldl crc_byte 0 (drop k (take (k + 2) e)) \<noteq> 0"
  proof (cases "Suc k < length xs")
    case True
    with len have "drop k (take (k + 2) e) = [e ! k, e ! Suc k]"
      by (simp add: numeral_2_eq_2 take_Suc_conv_app_nth)
    moreover have "e ! k \<noteq> 0 \<or> e ! Suc k \<noteq> 0" using assms(3,4) zero True by (metis Suc_lessD)
    ultimately show ?thesis using crc_two_bytes [of "e ! k" "e ! Suc k"] by auto
  next
    case False
    with assms(2) len have "drop k (take (k + 2) e) = [e ! k]"
      using Cons_nth_drop_Suc [of k e] by simp
    moreover have "e ! k \<noteq> 0" using assms(3,4) zero False by (metis Suc_lessI assms(2))
    ultimately show ?thesis using crc_two_bytes [of 0 "e ! k"] by auto
  qed
  have "crc16_xmodem xs XOR crc16_xmodem ys = foldl crc_byte 0 e"
    using crc_xor [OF assms(1), of 0 0] by (simp add: crc16_xmodem_def e_def)
  also have "\<dots> = foldl crc_byte (foldl crc_byte 0 (drop k (take (k + 2) e))) (replicate (length xs - (k + 2)) 0)"
    by (subst split) simp
  finally show ?thesis using crc_zeros_nonzero [OF nonzero] by auto
qed

text \<open>The one letter that straddles the payload and the checksum changes the low half of the last
  payload byte and the top bit of the first checksum byte.\<close>

lemma nibble_not_top_bit:
  assumes x: "\<And>b. bit (x :: u8) b \<Longrightarrow> b < 4" and y: "\<And>b. bit (y :: u8) b \<Longrightarrow> b = 7"
    and eq: "crc_byte 0 x = ucast y"
  shows "x = 0 \<and> y = 0"
proof -
  have "(crc_shift ^^ 4) (push_bit 8 (ucast x)) = push_bit 4 (push_bit 8 (ucast x))"
    by (rule quiet_shifts) (use x in \<open>force simp: bit_simps\<close>)
  then have "crc_byte 0 x = (crc_shift ^^ 4) (push_bit 12 (ucast x))"
    by (simp add: crc_byte_def push_bit_push_bit funpow_add [of 4 4, simplified])
  moreover have "(crc_shift ^^ 4) (drop_bit 4 (ucast y)) = push_bit 4 (drop_bit 4 (ucast y))"
    by (rule quiet_shifts) (use y in \<open>force simp: bit_simps\<close>)
  moreover have "push_bit 4 (drop_bit 4 (ucast y)) = (ucast y :: u16)"
    by (rule bit_word_eqI) (use y in \<open>force simp: bit_simps\<close>)
  ultimately have "(crc_shift ^^ 4) (push_bit 12 (ucast x) XOR drop_bit 4 (ucast y)) = 0"
    using eq by (simp add: crc_shifts_xor)
  then have z: "push_bit 12 (ucast x) XOR drop_bit 4 (ucast y) = (0 :: u16)" by (rule crc_shifts_eq_0)
  have "\<not> bit x n" if "n < 4" for n
    using arg_cong [OF z, of "\<lambda>w. bit w (n + 12)"] that by (auto simp: bit_simps dest: y)
  moreover have "\<not> bit y 7"
    using arg_cong [OF z, of "\<lambda>w. bit w 3"] by (auto simp: bit_simps)
  ultimately show ?thesis using x y by (metis bit_word_eqI bit_0_eq bot_apply bot_bool_def)
qed

text \<open>No mistyped letter yields another valid identifier.\<close>

lemma from_le_bytes_bits: "bit (from_le_bytes lo hi) n = (if n < 8 then bit lo n else bit hi (n - 8))"
  by (auto simp: from_le_bytes_def bit_simps dest: bit_imp_le_length)

lemma from_le_bytes_inject: "from_le_bytes lo hi = from_le_bytes lo' hi' \<longleftrightarrow> lo = lo' \<and> hi = hi'"
proof
  assume eq: "from_le_bytes lo hi = from_le_bytes lo' hi'"
  have "bit lo n = bit lo' n" "bit hi n = bit hi' n" if "n < 8" for n
    using arg_cong [OF eq, of "\<lambda>w. bit w n"] arg_cong [OF eq, of "\<lambda>w. bit w (n + 8)"] that
    by (simp_all add: from_le_bytes_bits)
  then show "lo = lo' \<and> hi = hi'" by (auto intro!: bit_word_eqI)
qed simp

lemma from_le_bytes_xor: "from_le_bytes lo hi XOR from_le_bytes lo' hi = ucast (lo XOR lo')"
  by (rule bit_word_eqI) (auto simp: from_le_bytes_bits bit_simps dest: bit_imp_le_length)

lemma crc_last_byte:
  assumes "length xs = Suc n" and "length ys = Suc n" and "\<And>j. j < n \<Longrightarrow> xs ! j = ys ! j"
  shows "crc16_xmodem xs XOR crc16_xmodem ys = crc_byte 0 (xs ! n XOR ys ! n)"
proof -
  have "map2 (XOR) xs ys = replicate n 0 @ [xs ! n XOR ys ! n]"
    by (rule nth_equalityI) (use assms in \<open>auto simp: nth_append less_Suc_eq\<close>)
  then show ?thesis using crc_xor [of xs ys 0 0] assms(1,2) by (simp add: crc16_xmodem_def)
qed

lemma strkey_typo:
  assumes valid: "is_valid_stellar_strkey s" and i: "i < length s" and c: "c \<noteq> s ! i"
  shows "\<not> is_valid_stellar_strkey (s[i := c])"
proof
  assume valid': "is_valid_stellar_strkey (s[i := c])"
  obtain d d' where d: "decode_base32 s = Some d" and d': "decode_base32 (s[i := c]) = Some d'"
    using valid valid' by (auto simp: is_valid_stellar_strkey_def split: option.split_asm)
  have len: "length d = 35" "length d' = 35" and sum: "crc16_xmodem (take 33 d) = from_le_bytes (d ! 33) (d ! 34)"
    "crc16_xmodem (take 33 d') = from_le_bytes (d' ! 33) (d' ! 34)"
    using valid valid' d d' by (simp_all add: is_valid_stellar_strkey_def)
  note changed = typo_bytes [OF d d' i c]
  have i56: "i < 56" using decode_base32_bits(1) [OF d] len i by simp
  have where_changed: "8 * k \<le> 5 * i + 4 \<and> 5 * i < 8 * k + 8" if "k < 35" "d ! k \<noteq> d' ! k" for k
  proof -
    from that(2) obtain b where b: "bit (d ! k) b \<noteq> bit (d' ! k) b" by (auto simp: bit_eq_iff)
    then have "b < 8" by (auto dest: bit_imp_le_length)
    with changed(2) [of k b] that(1) len b have "(8 * k + 7 - b) div 5 = i" by simp
    with \<open>b < 8\<close> show ?thesis by linarith
  qed
  consider "i \<le> 51" | "i = 52" | "53 \<le> i" by linarith
  then show False
  proof cases
    case 1
    then have same: "d ! 33 = d' ! 33" "d ! 34 = d' ! 34"
      using where_changed [of 33] where_changed [of 34] by fastforce+
    have "\<exists>k < 33. d ! k \<noteq> d' ! k"
    proof -
      obtain k where k: "k < 35" "d ! k \<noteq> d' ! k" using changed(3) len by auto
      with where_changed [OF this] 1 show ?thesis by (intro exI [of _ k]) linarith
    qed
    moreover have "j = 5 * i div 8 \<or> j = Suc (5 * i div 8)" if "j < 33" "d ! j \<noteq> d' ! j" for j
      using where_changed [of j] that by linarith
    ultimately have "crc16_xmodem (take 33 d) \<noteq> crc16_xmodem (take 33 d')"
      using 1 len by (intro crc_burst [where k = "5 * i div 8"]) auto
    with sum same show False by simp
  next
    case 3
    have "d ! k = d' ! k" if "k < 33" for k
      using where_changed [of k] 3 that by linarith
    then have "take 33 d = take 33 d'" using len by (intro nth_equalityI) auto
    with sum have "d ! 33 = d' ! 33" "d ! 34 = d' ! 34" by (simp_all add: from_le_bytes_inject)
    moreover obtain k where k: "k < 35" "d ! k \<noteq> d' ! k" using changed(3) len by auto
    moreover have "k = 33 \<or> k = 34" using where_changed [OF k] 3 k(1) by linarith
    ultimately show False by auto
  next
    case 2
    define x where "x = d ! 32 XOR d' ! 32"
    define y where "y = d ! 33 XOR d' ! 33"
    have same: "d ! k = d' ! k" if "k < 32 \<or> k = 34" for k
      using where_changed [of k] 2 that by linarith
    have "crc_byte 0 x = crc16_xmodem (take 33 d) XOR crc16_xmodem (take 33 d')"
      using crc_last_byte [of "take 33 d" 32 "take 33 d'"] same len by (simp add: x_def)
    also have "\<dots> = ucast y"
      unfolding sum same [of 34, simplified] y_def by (rule from_le_bytes_xor)
    finally have eq: "crc_byte 0 x = ucast y" .
    have "b < 4" if "bit x b" for b
      using changed(2) [of 32 b] len that 2 by (auto simp: x_def bit_xor_iff dest: bit_imp_le_length)
    moreover have "b = 7" if "bit y b" for b
      using changed(2) [of 33 b] len that 2 by (auto simp: y_def bit_xor_iff dest: bit_imp_le_length)
    ultimately have "x = 0 \<and> y = 0" using nibble_not_top_bit eq by blast
    then have "d ! 32 = d' ! 32" "d ! 33 = d' ! 33" by (simp_all add: x_def y_def word_xor_zero_iff)
    moreover obtain k where k: "k < 35" "d ! k \<noteq> d' ! k" using changed(3) len by auto
    moreover have "k = 32 \<or> k = 33" using where_changed [OF k] 2 by linarith
    ultimately show False by auto
  qed
qed

section \<open>Account identifiers\<close>

lemma strip_leading_suffix: "\<exists>p. s = p @ strip_leading ws s"
proof (induction ws s rule: strip_leading.induct)
  case (1 ws s)
  show ?case
  proof (cases "find (\<lambda>w. w \<noteq> [] \<and> starts_with w s) ws")
    case None
    then show ?thesis by (subst strip_leading.simps) simp
  next
    case (Some w)
    with 1 obtain p where "drop (length w) s = p @ strip_leading ws (drop (length w) s)" by blast
    then have "s = (take (length w) s @ p) @ strip_leading ws (drop (length w) s)"
      by (metis append.assoc append_take_drop_id)
    moreover have "strip_leading ws s = strip_leading ws (drop (length w) s)"
      by (subst strip_leading.simps) (simp add: Some)
    ultimately show ?thesis by metis
  qed
qed

lemma trim_text_same_length:
  assumes "length (trim_text s) = length s"
  shows "trim_text s = s"
proof -
  obtain p where p: "s = p @ trim_start s" using strip_leading_suffix [of s] by (auto simp: trim_start_def)
  obtain q where "rev (trim_start s) = q @ strip_leading (map rev white_space) (rev (trim_start s))"
    using strip_leading_suffix by blast
  then have q: "trim_start s = trim_text s @ rev q"
    by (simp add: trim_text_def trim_end_def) (metis rev_append rev_rev_ident)
  have "length s = length p + (length (trim_text s) + length q)" using p q by (metis length_append length_rev)
  with assms have "p = []" "q = []" by simp_all
  with p q show ?thesis by simp
qed

lemma account_char_fixed:
  assumes "is_valid_stellar_account_char c"
  shows "upper_char c = c" and "visible c" and "\<not> ascii_whitespace c"
  using assms by (auto simp: is_valid_stellar_account_char_def upper_char_def ascii_upper_def ascii_lower_def
      visible_def ascii_whitespace_def)

lemma normalize_account_Inr:
  "normalize_stellar_account_id t = Inr a \<longleftrightarrow>
     a = to_ascii_uppercase (trim_text t) \<and> \<not> list_ex ascii_whitespace (trim_text t) \<and> length a = 56 \<and>
     starts_with ''G'' a \<and> list_all is_valid_stellar_account_char a \<and> is_valid_stellar_strkey a"
  by (auto simp: normalize_stellar_account_id_def Let_def to_ascii_uppercase_def)

text \<open>
  C17. An accepted account identifier has a normal form of 56 letters of the base32 alphabet that is
  its own normal form, and the check finds every typing error in it: replacing any one character by
  any other (of any kind, lower case letters of the same letter aside) makes it refused.
\<close>

theorem account_id_typo:
  assumes "normalize_stellar_account_id raw = Inr account"
  shows "length account = 56 \<and> list_all is_valid_stellar_account_char account \<and>
    normalize_stellar_account_id account = Inr account \<and>
    (\<forall>i < 56. \<forall>c. upper_char c \<noteq> account ! i \<longrightarrow> (\<exists>e. validate_stellar_account_id (account[i := c]) = Inl e))"
proof (intro conjI allI impI)
  from assms have a: "length account = 56" "starts_with ''G'' account"
    "list_all is_valid_stellar_account_char account" "is_valid_stellar_strkey account"
    unfolding normalize_account_Inr by blast+
  then show "length account = 56" "list_all is_valid_stellar_account_char account" by simp_all
  have upper: "to_ascii_uppercase account = account"
    using a(3) by (auto simp: to_ascii_uppercase_def list_all_iff account_char_fixed intro: map_idI)
  have "trim_text account = account"
    by (rule trim_visible) (use a(3) in \<open>auto simp: list_all_iff account_char_fixed\<close>)
  with a upper show "normalize_stellar_account_id account = Inr account"
    by (auto simp: normalize_account_Inr list_all_iff list_ex_iff account_char_fixed)
  fix i c
  assume i: "i < 56" and c: "upper_char c \<noteq> account ! i"
  have "normalize_stellar_account_id (account[i := c]) \<noteq> Inr b" for b
  proof
    assume "normalize_stellar_account_id (account[i := c]) = Inr b"
    then have b: "b = to_ascii_uppercase (trim_text (account[i := c]))" "length b = 56" "is_valid_stellar_strkey b"
      unfolding normalize_account_Inr by blast+
    then have "trim_text (account[i := c]) = account[i := c]"
      by (intro trim_text_same_length) (simp add: to_ascii_uppercase_def a(1))
    with b(1) upper have "b = account[i := upper_char c]" by (simp add: to_ascii_uppercase_def map_update)
    with b(3) strkey_typo [OF a(4), of i "upper_char c"] i c a(1) show False by simp
  qed
  then show "\<exists>e. validate_stellar_account_id (account[i := c]) = Inl e"
    by (cases "normalize_stellar_account_id (account[i := c])") (auto simp: validate_stellar_account_id_def)
qed

definition sample_account :: string where
  "sample_account = ''GBBD47IF6LWK7P7MDEVSCWR7DPUWV3NY3DTQEVFL4NAT4AQH3ZLLFLA5''"

text \<open>The checksum of concrete bytes, evaluated one shift at a time.\<close>

lemma crc_shift_numerals:
  "crc_shift (numeral n) = (if numeral n AND 0x8000 \<noteq> (0 :: u16) then push_bit 1 (numeral n) XOR 0x1021 else push_bit 1 (numeral n))"
  "crc_shift 1 = 2"
  by (simp_all add: crc_shift_def)

lemma eight_times: "(f ^^ 8) x = f (f (f (f (f (f (f (f x)))))))"
  by (simp add: eval_nat_numeral)

lemma sample_account_strkey: "is_valid_stellar_strkey sample_account"
proof -
  have "decode_base32 sample_account = Some
    [48, 66, 62, 125, 5, 242, 236, 175, 191, 236, 25, 43, 33, 90, 63, 27, 233, 106, 237, 184, 216, 231, 2, 84, 171, 227, 65, 62, 2, 7, 222, 86, 178, 172, 29]"
    by code_simp
  moreover have "crc16_xmodem
    [48, 66, 62, 125, 5, 242, 236, 175, 191, 236, 25, 43, 33, 90, 63, 27, 233, 106, 237, 184, 216, 231, 2, 84, 171, 227, 65, 62, 2, 7, 222, 86, 178] = 7596"
    by (simp add: crc16_xmodem_def crc_byte_def eight_times crc_shift_numerals)
  ultimately show ?thesis by (simp add: is_valid_stellar_strkey_def from_le_bytes_def)
qed

lemma sample_account_accepted: "normalize_stellar_account_id sample_account = Inr sample_account"
proof -
  have ok: "list_all is_valid_stellar_account_char sample_account" by code_simp
  moreover have "length sample_account = 56" "starts_with ''G'' sample_account" by code_simp+
  moreover have "to_ascii_uppercase sample_account = sample_account" by code_simp
  moreover have "trim_text sample_account = sample_account"
    by (rule trim_visible) (use ok in \<open>auto simp: list_all_iff account_char_fixed\<close>)
  moreover have "\<not> list_ex ascii_whitespace sample_account"
    using ok by (auto simp: list_all_iff list_ex_iff account_char_fixed)
  ultimately show ?thesis using sample_account_strkey by (simp add: normalize_account_Inr)
qed

theorem account_id_typo_witness:
  "normalize_stellar_account_id sample_account = Inr sample_account \<and>
   (\<exists>e. validate_stellar_account_id (sample_account[20 := CHR ''W'']) = Inl e)"
proof -
  have "(20 :: nat) < 56" "upper_char CHR ''W'' \<noteq> sample_account ! 20" by code_simp+
  then show ?thesis
    using account_id_typo [OF sample_account_accepted] sample_account_accepted by blast
qed

text \<open>An accepted asset is the native one or names an accepted issuer.\<close>

lemma validate_stellar_asset_ok:
  "validate_stellar_asset asset = Inr () \<longleftrightarrow> asset = ''native'' \<or>
     (\<exists>code issuer. split_once '':'' asset = Some (code, issuer) \<and> code \<noteq> [] \<and> length code \<le> 12 \<and>
        list_all ascii_alnum code \<and> (\<exists>a. normalize_stellar_account_id issuer = Inr a))"
  by (auto simp: validate_stellar_asset_def validate_stellar_account_id_def
      split: option.splits sum.splits if_splits)

end
