(* ===== verification/Sep31.thy ===== *)
theory Sep31
  imports Sep6 Stellar_Account
begin

text \<open>
  \<^verbatim>\<open>src/sep31.rs\<close>: the answer of an anchor to a direct payment, checked field by field.  Texts are bytes;
  \<open>shown_char\<close> is the character that starts a text, with the bytes that continue it in UTF-8.
\<close>

record raw_sep31_payment_response =
  rp_id :: string
  rp_stellar_account_id :: string
  rp_sender :: string
  rp_stellar_memo :: "string option"
  rp_stellar_memo_type :: "string option"
  rp_amount :: "string option"
  rp_asset_code :: "string option"
  rp_idempotency_key :: "string option"

record sep31_payment_response =
  pr_id :: string
  pr_stellar_account_id :: string
  pr_sender :: string
  pr_stellar_memo :: "string option"
  pr_stellar_memo_type :: "string option"
  pr_amount :: "string option"
  pr_asset_code :: "string option"
  pr_idempotency_key :: "string option"

definition sep31_memo_types :: "string list" where
  "sep31_memo_types = [''text'', ''id'', ''hash'']"

definition MAX_ID_LENGTH :: nat where "MAX_ID_LENGTH = 64"
definition MAX_IDEMPOTENCY_KEY_LENGTH :: nat where "MAX_IDEMPOTENCY_KEY_LENGTH = 64"
definition MAX_MEMO_LENGTH :: nat where "MAX_MEMO_LENGTH = 256"

definition sep31_validate_memo_pair :: "string option \<Rightarrow> string option \<Rightarrow> anchor_kit_error + unit" where
  "sep31_validate_memo_pair memo memo_type =
     (if memo \<noteq> None then
        (case memo_type of
           None \<Rightarrow> bad_intent
         | Some mt \<Rightarrow> if mt \<notin> set sep31_memo_types then bad_intent else Inr ())
      else Inr ())"

definition validate_memo_length :: "string option \<Rightarrow> anchor_kit_error + unit" where
  "validate_memo_length memo =
     (case memo of
        None \<Rightarrow> Inr ()
      | Some m \<Rightarrow>
          if MAX_MEMO_LENGTH < length m
          then Inl (validation_error (''memo exceeds maximum length of '' @ decimal MAX_MEMO_LENGTH @ '' characters''))
          else Inr ())"

definition shown_char :: "string \<Rightarrow> string" where
  "shown_char s = take 1 s @ takeWhile (\<lambda>c. 128 \<le> code_of c \<and> code_of c < 192) (drop 1 s)"

text \<open>The loop over the characters; \<open>first\<close> tells the index 0.  The counters are 32 bits wide, which a
  text of less than 4 GiB cannot exceed.\<close>

fun decimal_loop :: "string \<Rightarrow> bool \<Rightarrow> bool \<Rightarrow> nat \<Rightarrow> nat \<Rightarrow> string \<Rightarrow> anchor_kit_error + bool \<times> nat \<times> nat" where
  "decimal_loop field first has_dot before after [] = Inr (has_dot, before, after)"
| "decimal_loop field first has_dot before after (c # s) =
     (if c = CHR ''.'' then
        if has_dot then Inl (validation_error (field @ '' contains multiple decimal points''))
        else decimal_loop field False True before after s
      else if ascii_digit c then
        if has_dot then decimal_loop field False has_dot before (after + 1) s
        else decimal_loop field False has_dot (before + 1) after s
      else if c = CHR ''-'' \<and> first then Inl (validation_error (field @ '' must not be negative''))
      else Inl (validation_error (field @ '' contains invalid character '' @ quoted (shown_char (c # s)))))"

definition validate_positive_decimal :: "string \<Rightarrow> string \<Rightarrow> anchor_kit_error + unit" where
  "validate_positive_decimal s field =
     (if s = [] then Inl (validation_error (field @ '' must not be empty''))
      else if starts_with ''.'' s then Inl (validation_error (field @ '' must not start with a decimal point''))
      else bind_ok (decimal_loop field True False 0 0 s) (\<lambda>(has_dot, digits_before_dot, digits_after_dot).
        if digits_before_dot = 0 then Inl (validation_error (field @ '' must contain at least one digit''))
        else if has_dot \<and> digits_after_dot = 0 then Inl (validation_error (field @ '' must not end with a decimal point''))
        else if list_all (\<lambda>c. c = CHR ''0'') (filter ascii_digit s)
        then Inl (validation_error (field @ '' must be greater than zero''))
        else Inr ()))"

text \<open>\<open>char::is_ascii_graphic\<close>.\<close>

definition ascii_graphic :: "char \<Rightarrow> bool" where
  "ascii_graphic c \<longleftrightarrow> 33 \<le> code_of c \<and> code_of c \<le> 126"

definition validate_idempotency_key :: "string option \<Rightarrow> anchor_kit_error + unit" where
  "validate_idempotency_key key =
     (case key of
        None \<Rightarrow> Inr ()
      | Some k \<Rightarrow>
          if k = [] then Inl (validation_error ''idempotency key must not be empty'')
          else if MAX_IDEMPOTENCY_KEY_LENGTH < length k
          then Inl (validation_error
            (''idempotency key exceeds maximum length of '' @ decimal MAX_IDEMPOTENCY_KEY_LENGTH @ '' characters''))
          else if list_ex (\<lambda>c. \<not> ascii_graphic c \<and> c \<noteq> CHR '' '') k
          then Inl (validation_error ''idempotency key contains non-printable characters'')
          else Inr ())"

definition payment_amount :: "string option \<Rightarrow> anchor_kit_error + string option" where
  "payment_amount amount =
     (case amount of
        None \<Rightarrow> Inr None
      | Some a \<Rightarrow> bind_ok (validate_positive_decimal a ''amount'') (\<lambda>_. Inr (Some a)))"

definition payment_asset :: "string option \<Rightarrow> anchor_kit_error + string option" where
  "payment_asset asset_code =
     (case asset_code of
        None \<Rightarrow> Inr None
      | Some code \<Rightarrow>
          if to_ascii_lowercase (trim_text code) = ''native'' then Inr (Some ''native'')
          else bind_ok (normalize_asset_code code) (\<lambda>n. Inr (Some n)))"

definition initiate_sep31_payment :: "raw_sep31_payment_response \<Rightarrow> anchor_kit_error + sep31_payment_response" where
  "initiate_sep31_payment raw =
     (if trim_text (rp_id raw) = [] then bad_intent
      else if MAX_ID_LENGTH < length (rp_id raw)
      then Inl (validation_error (''id exceeds maximum length of '' @ decimal MAX_ID_LENGTH @ '' characters''))
      else if trim_text (rp_sender raw) = [] then bad_intent
      else
        bind_ok (validate_stellar_account_id (rp_stellar_account_id raw)) (\<lambda>_.
        bind_ok (sep31_validate_memo_pair (rp_stellar_memo raw) (rp_stellar_memo_type raw)) (\<lambda>_.
        bind_ok (validate_memo_length (rp_stellar_memo raw)) (\<lambda>_.
        bind_ok (payment_amount (rp_amount raw)) (\<lambda>amount.
        bind_ok (payment_asset (rp_asset_code raw)) (\<lambda>asset_code.
        bind_ok (validate_idempotency_key (rp_idempotency_key raw)) (\<lambda>_.
          Inr \<lparr>pr_id = rp_id raw, pr_stellar_account_id = rp_stellar_account_id raw, pr_sender = rp_sender raw,
               pr_stellar_memo = rp_stellar_memo raw, pr_stellar_memo_type = rp_stellar_memo_type raw,
               pr_amount = amount, pr_asset_code = asset_code, pr_idempotency_key = rp_idempotency_key raw\<rparr>)))))))"

section \<open>Amounts\<close>

text \<open>A positive amount: digits, and possibly a point followed by digits, not all of them zero.\<close>

definition positive_decimal :: "string \<Rightarrow> bool" where
  "positive_decimal s \<longleftrightarrow> (\<exists>c \<in> set s. ascii_digit c \<and> c \<noteq> CHR ''0'') \<and>
     (\<exists>int frac. int \<noteq> [] \<and> list_all ascii_digit int \<and> list_all ascii_digit frac \<and>
        (s = int \<and> frac = [] \<or> s = int @ CHR ''.'' # frac \<and> frac \<noteq> []))"

lemma point_no_digit [simp]: "\<not> ascii_digit CHR ''.''"
  by (simp add: ascii_digit_def)

lemma decimal_loop_digits:
  "list_all ascii_digit ds \<Longrightarrow>
   decimal_loop field first has_dot before after (ds @ s) =
     decimal_loop field (first \<and> ds = []) has_dot (if has_dot then before else before + length ds)
       (if has_dot then after + length ds else after) s"
  by (induction ds arbitrary: first before after) (auto simp: ac_simps)

lemma decimal_loop_after:
  "decimal_loop field first True before after s = Inr (d, b, a) \<longleftrightarrow>
   list_all ascii_digit s \<and> d \<and> b = before \<and> a = after + length s"
  by (induction s arbitrary: first after) (auto simp del: One_nat_def)

lemma decimal_loop_before:
  "decimal_loop field first False 0 0 s = Inr (d, b, a) \<longleftrightarrow>
   (\<exists>int frac. list_all ascii_digit int \<and> list_all ascii_digit frac \<and> b = length int \<and> a = length frac \<and>
     (s = int \<and> frac = [] \<and> \<not> d \<or> s = int @ CHR ''.'' # frac \<and> d))" (is "?run \<longleftrightarrow> ?split")
proof
  assume ?run
  define int rest where "int = takeWhile ascii_digit s" and "rest = dropWhile ascii_digit s"
  have s: "s = int @ rest" by (simp add: int_def rest_def)
  have digits: "list_all ascii_digit int" by (auto simp: int_def list_all_iff dest: set_takeWhileD)
  have run: "decimal_loop field (first \<and> int = []) False (length int) 0 rest = Inr (d, b, a)"
    using \<open>?run\<close> decimal_loop_digits [OF digits, of field first False 0 0 rest] s by simp
  show ?split
  proof (cases rest)
    case Nil
    with run s digits show ?thesis by auto
  next
    case (Cons c frac)
    then have "\<not> ascii_digit c" by (metis dropWhile_eq_Cons_conv rest_def)
    with run Cons have "c = CHR ''.''" "list_all ascii_digit frac \<and> d \<and> b = length int \<and> a = length frac"
      by (auto simp: decimal_loop_after split: if_split_asm)
    with s Cons digits show ?thesis by blast
  qed
next
  assume ?split
  then obtain int frac where "list_all ascii_digit int" "list_all ascii_digit frac" "b = length int" "a = length frac"
    "s = int \<and> frac = [] \<and> \<not> d \<or> s = int @ CHR ''.'' # frac \<and> d" by blast
  then show ?run
    using decimal_loop_digits [of int field first False 0 0 "[]"]
      decimal_loop_digits [of int field first False 0 0 "CHR ''.'' # frac"]
    by (auto simp: decimal_loop_after)
qed

lemma validate_positive_decimal_iff: "validate_positive_decimal s field = Inr () \<longleftrightarrow> positive_decimal s"
proof -
  let ?split = "\<lambda>int frac d. list_all ascii_digit int \<and> list_all ascii_digit frac \<and>
    (s = int \<and> frac = [] \<and> \<not> d \<or> s = int @ CHR ''.'' # frac \<and> d)"
  let ?nonzero = "\<exists>c \<in> set s. ascii_digit c \<and> c \<noteq> CHR ''0''"
  have "validate_positive_decimal s field = Inr () \<longleftrightarrow> s \<noteq> [] \<and> \<not> starts_with ''.'' s \<and>
      (\<exists>d b a. decimal_loop field True False 0 0 s = Inr (d, b, a) \<and> b \<noteq> 0 \<and> (d \<longrightarrow> a \<noteq> 0)) \<and> ?nonzero"
    by (auto simp: validate_positive_decimal_def bind_ok_Inr list_all_iff)
  also have "(\<exists>d b a. decimal_loop field True False 0 0 s = Inr (d, b, a) \<and> b \<noteq> 0 \<and> (d \<longrightarrow> a \<noteq> 0)) \<longleftrightarrow>
      (\<exists>d int frac. ?split int frac d \<and> int \<noteq> [] \<and> (d \<longrightarrow> frac \<noteq> []))"
    unfolding decimal_loop_before by (simp only: length_0_conv [symmetric]) fastforce
  finally have accept: "validate_positive_decimal s field = Inr () \<longleftrightarrow> s \<noteq> [] \<and> \<not> starts_with ''.'' s \<and>
      (\<exists>d int frac. ?split int frac d \<and> int \<noteq> [] \<and> (d \<longrightarrow> frac \<noteq> [])) \<and> ?nonzero" .
  have start: "s \<noteq> [] \<and> \<not> starts_with ''.'' s" if "?split int frac d" "int \<noteq> []" for int frac d
    using that by (cases int) (auto simp: starts_with_def)
  show ?thesis
    unfolding accept positive_decimal_def using start by blast
qed

section \<open>Accepted payments\<close>

lemma payment_account:
  "(\<exists>a. normalize_stellar_account_id s = Inr a) \<longleftrightarrow> validate_stellar_account_id s = Inr ()"
  by (auto simp: validate_stellar_account_id_def split: sum.splits)

lemma payment_memo:
  "sep31_validate_memo_pair memo ty = Inr () \<and> validate_memo_length memo = Inr () \<longleftrightarrow>
   memo = None \<or> ty \<in> {Some ''text'', Some ''id'', Some ''hash''} \<and> length (the memo) \<le> 256"
  by (auto simp: sep31_validate_memo_pair_def validate_memo_length_def sep31_memo_types_def
      MAX_MEMO_LENGTH_def split: option.splits)

lemma payment_amounts:
  "payment_amount amount = Inr amount' \<longleftrightarrow> amount' = amount \<and> (amount = None \<or> positive_decimal (the amount))"
  by (auto simp: payment_amount_def bind_ok_Inr validate_positive_decimal_iff split: option.splits)

lemma payment_key:
  "validate_idempotency_key key = Inr () \<longleftrightarrow> key = None \<or>
     (\<exists>k. key = Some k \<and> 1 \<le> length k \<and> length k \<le> 64 \<and> list_all (\<lambda>c. 32 \<le> code_of c \<and> code_of c \<le> 126) k)"
proof -
  have "ascii_graphic c \<or> c = CHR '' '' \<longleftrightarrow> 32 \<le> code_of c \<and> code_of c \<le> 126" for c
  proof -
    have "code_of c = 32 \<longleftrightarrow> c = CHR '' ''"
    proof
      assume "code_of c = 32"
      moreover have "char_of (32 :: nat) = CHR '' ''" by code_simp
      ultimately show "c = CHR '' ''" by (metis char_of_char)
    qed simp
    then show ?thesis by (auto simp: ascii_graphic_def)
  qed
  then show ?thesis
    by (auto simp: validate_idempotency_key_def MAX_IDEMPOTENCY_KEY_LENGTH_def list_all_iff list_ex_iff Suc_le_eq
        split: option.splits)
qed

text \<open>
  A payment answer is accepted exactly if its identifier (at most 64 bytes) and sender are not
  blank, the receiving account passes the strkey check, a memo has one of the three memo types and at most 256 bytes, the
  amount is a positive decimal, the asset is native or a valid code, and the idempotency key is
  printable and has 1 to 64 bytes.  The accepted answer carries every field as it was sent, the asset
  code in its normal form excepted: in particular the account is not replaced by its normal form.
\<close>

theorem sep31_payments:
  "initiate_sep31_payment raw = Inr resp \<longleftrightarrow>
     trim_text (rp_id raw) \<noteq> [] \<and> length (rp_id raw) \<le> 64 \<and> trim_text (rp_sender raw) \<noteq> [] \<and>
     (\<exists>a. normalize_stellar_account_id (rp_stellar_account_id raw) = Inr a) \<and>
     (rp_stellar_memo raw = None \<or>
        rp_stellar_memo_type raw \<in> {Some ''text'', Some ''id'', Some ''hash''} \<and> length (the (rp_stellar_memo raw)) \<le> 256) \<and>
     (rp_amount raw = None \<or> positive_decimal (the (rp_amount raw))) \<and>
     (rp_idempotency_key raw = None \<or>
        (\<exists>k. rp_idempotency_key raw = Some k \<and> 1 \<le> length k \<and> length k \<le> 64 \<and>
             list_all (\<lambda>c. 32 \<le> code_of c \<and> code_of c \<le> 126) k)) \<and>
     (\<exists>code. payment_asset (rp_asset_code raw) = Inr code \<and>
        resp = \<lparr>pr_id = rp_id raw, pr_stellar_account_id = rp_stellar_account_id raw, pr_sender = rp_sender raw,
                pr_stellar_memo = rp_stellar_memo raw, pr_stellar_memo_type = rp_stellar_memo_type raw,
                pr_amount = rp_amount raw, pr_asset_code = code, pr_idempotency_key = rp_idempotency_key raw\<rparr>)"
proof -
  have ids: "trim_text (rp_id raw) = [] \<or> 64 < length (rp_id raw) \<or> trim_text (rp_sender raw) = [] \<Longrightarrow>
      initiate_sep31_payment raw \<noteq> Inr resp"
    by (auto simp: initiate_sep31_payment_def MAX_ID_LENGTH_def)
  show ?thesis
    using ids unfolding payment_account payment_memo [symmetric] payment_key [symmetric]
    by (auto simp: payment_amounts initiate_sep31_payment_def bind_ok_Inr MAX_ID_LENGTH_def)
qed

end
