(* ===== verification/Transaction_Archive.thy ===== *)
theory Transaction_Archive
  imports Url_Normalizer
begin

unbundle bit_operations_syntax

text \<open>
  \<^verbatim>\<open>src/transaction_archive.rs\<close>: batches of transactions that left the hot storage, with a commitment to
  their identifiers.  SHA-256 is the parameter \<open>sha\<close>, from bytes to the bytes of the digest.
\<close>

record transaction_archive =
  ta_archive_id :: u64
  ta_archived_at :: u64
  ta_record_count :: u32
  ta_commitment :: "u8 list"
  ta_label :: string
  ta_retrieval_uri :: "string option"

datatype archive_retrieval_status =
  Found transaction_archive | Pending_Uri transaction_archive | Not_Found

text \<open>The bytes the hasher sees: every identifier and a line feed.\<close>

definition archive_input :: "string list \<Rightarrow> string" where
  "archive_input ids = concat (map (\<lambda>i. i @ [CHR 0x0A]) ids)"

definition compute_archive_commitment :: "(string \<Rightarrow> u8 list) \<Rightarrow> string list \<Rightarrow> u8 list" where
  "compute_archive_commitment sha transaction_ids = sha (archive_input transaction_ids)"

definition verify_archive_commitment :: "(string \<Rightarrow> u8 list) \<Rightarrow> u8 list \<Rightarrow> string list \<Rightarrow> bool" where
  "verify_archive_commitment sha stored transaction_ids =
     (let expected = compute_archive_commitment sha transaction_ids;
          diff = foldl (\<lambda>diff (a, b). diff OR (a XOR b)) 0 (zip stored expected)
      in diff = 0)"

definition check_batch_len :: "nat \<Rightarrow> anchor_kit_error + u32" where
  "check_batch_len len =
     (if len < 2 ^ 32 then Inr (of_nat len)
      else Inl (validation_error ''transaction_ids length exceeds u32::MAX''))"

record archive_manager =
  am_archives :: "transaction_archive list"
  am_next_id :: u64

definition archive_manager_new :: archive_manager where
  "archive_manager_new = \<lparr>am_archives = [], am_next_id = 0\<rparr>"

definition archive_batch ::
  "(string \<Rightarrow> u8 list) \<Rightarrow> string list \<Rightarrow> u64 \<Rightarrow> string \<Rightarrow> string option \<Rightarrow> archive_manager \<Rightarrow>
   anchor_kit_error + transaction_archive \<times> archive_manager" where
  "archive_batch sha transaction_ids archived_at label retrieval_uri m =
     (if transaction_ids = [] then Inl (validation_error ''transaction_ids must not be empty'')
      else if list_ex (\<lambda>i. trim_text i = []) transaction_ids
      then Inl (validation_error ''transaction_ids must not contain blank IDs'')
      else if trim_text label = [] then Inl (validation_error ''label must not be blank'')
      else bind_ok (case retrieval_uri of
                      None \<Rightarrow> Inr ()
                    | Some uri \<Rightarrow>
                        (case normalize_url uri of
                           Inl _ \<Rightarrow> Inl (validation_error ''retrieval_uri: invalid URL shape'')
                         | Inr _ \<Rightarrow> Inr ())) (\<lambda>_.
        bind_ok (of_option (from_code ArchiveCapacityExceeded) (checked_add (am_next_id m) 1)) (\<lambda>next_next_id.
        bind_ok (check_batch_len (length transaction_ids)) (\<lambda>record_count.
          let archive = \<lparr>ta_archive_id = am_next_id m, ta_archived_at = archived_at, ta_record_count = record_count,
                         ta_commitment = compute_archive_commitment sha transaction_ids, ta_label = label,
                         ta_retrieval_uri = retrieval_uri\<rparr>
          in Inr (archive, \<lparr>am_archives = am_archives m @ [archive], am_next_id = next_next_id\<rparr>)))))"

definition get_archive :: "archive_manager \<Rightarrow> u64 \<Rightarrow> archive_retrieval_status" where
  "get_archive m archive_id =
     (case find (\<lambda>a. ta_archive_id a = archive_id) (am_archives m) of
        None \<Rightarrow> Not_Found
      | Some a \<Rightarrow> if ta_retrieval_uri a \<noteq> None then Found a else Pending_Uri a)"

text \<open>\<open>iter_mut().find(..)\<close> and the assignment through it.\<close>

fun update_found :: "('a \<Rightarrow> bool) \<Rightarrow> ('a \<Rightarrow> 'a) \<Rightarrow> 'a list \<Rightarrow> 'a list option" where
  "update_found P f [] = None"
| "update_found P f (x # xs) = (if P x then Some (f x # xs) else map_option ((#) x) (update_found P f xs))"

definition set_retrieval_uri :: "u64 \<Rightarrow> string \<Rightarrow> archive_manager \<Rightarrow> bool \<times> archive_manager" where
  "set_retrieval_uri archive_id uri m =
     (case update_found (\<lambda>a. ta_archive_id a = archive_id) (\<lambda>a. a\<lparr>ta_retrieval_uri := Some uri\<rparr>) (am_archives m) of
        None \<Rightarrow> (False, m)
      | Some archives \<Rightarrow> (True, m\<lparr>am_archives := archives\<rparr>))"

definition archive_count :: "archive_manager \<Rightarrow> nat" where
  "archive_count m = length (am_archives m)"

section \<open>Commitments\<close>

lemma or_zero_iff: "a OR b = 0 \<longleftrightarrow> a = 0 \<and> b = (0 :: 'a::len word)"
  by (auto simp: bit_eq_iff bit_simps)

lemma xor_zero_iff: "a XOR b = 0 \<longleftrightarrow> a = (b :: 'a::len word)"
  by (auto simp: bit_eq_iff bit_simps)

lemma diff_zero_iff:
  "length xs = length ys \<Longrightarrow>
   foldl (\<lambda>diff (a, b). diff OR (a XOR b)) d (zip xs ys) = 0 \<longleftrightarrow> d = 0 \<and> xs = (ys :: 'a::len word list)"
  by (induction xs ys arbitrary: d rule: list_induct2) (auto simp: or_zero_iff xor_zero_iff)

lemma verify_archive_commitment_iff:
  assumes "\<And>x. length (sha x) = 32" and "length stored = 32"
  shows "verify_archive_commitment sha stored ids \<longleftrightarrow> stored = compute_archive_commitment sha ids"
  using assms by (simp add: verify_archive_commitment_def Let_def diff_zero_iff compute_archive_commitment_def)

lemma takeWhile_before: "c \<notin> set xs \<Longrightarrow> takeWhile (\<lambda>x. x \<noteq> c) (xs @ c # ys) = xs"
  by (induction xs) auto

text \<open>Identifiers without a line feed can be read off the hashed bytes.\<close>

lemma archive_input_inject:
  assumes "list_all (\<lambda>i. CHR 0x0A \<notin> set i) ids" and "list_all (\<lambda>i. CHR 0x0A \<notin> set i) ids'"
    and "archive_input ids = archive_input ids'"
  shows "ids = ids'"
  using assms
proof (induction ids arbitrary: ids')
  case Nil
  then show ?case by (cases ids') (auto simp: archive_input_def)
next
  case (Cons i ids)
  from Cons(4) obtain j js where ids': "ids' = j # js" by (cases ids') (auto simp: archive_input_def)
  have eq: "i @ CHR 0x0A # archive_input ids = j @ CHR 0x0A # archive_input js"
    using Cons(4) by (simp add: ids' archive_input_def)
  have "i = j"
    using arg_cong [OF eq, of "takeWhile (\<lambda>c. c \<noteq> CHR 0x0A)"] Cons(2,3) by (simp add: ids' takeWhile_before)
  with eq Cons show ?case by (simp add: ids')
qed

section \<open>The manager\<close>

text \<open>The identifiers are the positions.\<close>

definition archive_inv :: "archive_manager \<Rightarrow> bool" where
  "archive_inv m \<longleftrightarrow> am_next_id m = of_nat (archive_count m) \<and> archive_count m < 2 ^ 64 \<and>
     (\<forall>i < archive_count m. ta_archive_id (am_archives m ! i) = of_nat i)"

lemma archive_inv_new [simp]: "archive_inv archive_manager_new"
  by (simp add: archive_inv_def archive_manager_new_def archive_count_def)

lemma update_found_nth:
  "update_found P f xs = Some ys \<Longrightarrow>
   \<exists>i < length xs. P (xs ! i) \<and> (\<forall>j < i. \<not> P (xs ! j)) \<and> ys = xs[i := f (xs ! i)]"
proof (induction xs arbitrary: ys)
  case (Cons x xs)
  show ?case
  proof (cases "P x")
    case False
    with Cons(2) obtain zs where "update_found P f xs = Some zs" "ys = x # zs" by auto
    with Cons(1) [of zs] obtain i where "i < length xs" "P (xs ! i)" "\<forall>j < i. \<not> P (xs ! j)" "zs = xs[i := f (xs ! i)]"
      by blast
    with False \<open>ys = x # zs\<close> show ?thesis
      by (intro exI [of _ "Suc i"]) (auto simp: less_Suc_eq_0_disj)
  qed (use Cons(2) in auto)
qed simp

lemma set_uri_nth:
  assumes "set_retrieval_uri i uri m = (b, m1)"
  shows "am_next_id m1 = am_next_id m" and "archive_count m1 = archive_count m"
    and "\<exists>u. k < archive_count m \<longrightarrow> am_archives m1 ! k = (am_archives m ! k)\<lparr>ta_retrieval_uri := u\<rparr>"
proof -
  have "am_next_id m1 = am_next_id m \<and> archive_count m1 = archive_count m \<and>
    (\<exists>u. k < archive_count m \<longrightarrow> am_archives m1 ! k = (am_archives m ! k)\<lparr>ta_retrieval_uri := u\<rparr>)"
  proof (cases "update_found (\<lambda>a. ta_archive_id a = i) (\<lambda>a. a\<lparr>ta_retrieval_uri := Some uri\<rparr>) (am_archives m)")
    case None
    with assms show ?thesis by (auto simp: set_retrieval_uri_def intro!: exI [of _ "ta_retrieval_uri (am_archives m ! k)"])
  next
    case (Some ys)
    from update_found_nth [OF this] obtain j where "j < length (am_archives m)"
      "ys = (am_archives m)[j := (am_archives m ! j)\<lparr>ta_retrieval_uri := Some uri\<rparr>]" by blast
    with assms Some show ?thesis
      by (cases "k = j") (auto simp: set_retrieval_uri_def archive_count_def nth_list_update
          intro: exI [of _ "ta_retrieval_uri (am_archives m ! k)"])
  qed
  then show "am_next_id m1 = am_next_id m" "archive_count m1 = archive_count m"
    "\<exists>u. k < archive_count m \<longrightarrow> am_archives m1 ! k = (am_archives m ! k)\<lparr>ta_retrieval_uri := u\<rparr>" by blast+
qed

lemma archive_batch_Inr:
  assumes "archive_batch sha ids t label uri m = Inr (a, m1)" and "archive_inv m"
  shows "ta_archive_id a = of_nat (archive_count m)" and "ta_commitment a = compute_archive_commitment sha ids"
    and "unat (ta_record_count a) = length ids" and "am_archives m1 = am_archives m @ [a]" and "archive_inv m1"
proof -
  from assms(1) have *: "unat (am_next_id m) + 1 < 2 ^ 64" "am_next_id m1 = am_next_id m + 1" "length ids < 2 ^ 32"
    "am_archives m1 = am_archives m @ [a]" "ta_archive_id a = am_next_id m" "ta_record_count a = of_nat (length ids)"
    "ta_commitment a = compute_archive_commitment sha ids"
    by (auto simp: archive_batch_def bind_ok_Inr of_option_def checked_add_def check_batch_len_def Let_def
        split: if_splits option.splits)
  show "am_archives m1 = am_archives m @ [a]" "ta_commitment a = compute_archive_commitment sha ids" by fact+
  show "ta_archive_id a = of_nat (archive_count m)" using *(5) assms(2) by (simp add: archive_inv_def)
  show "unat (ta_record_count a) = length ids" using *(3,6) by (simp add: unat_of_nat)
  have "unat (am_next_id m) = archive_count m" using assms(2) by (simp add: archive_inv_def unat_of_nat)
  then show "archive_inv m1"
    using * assms(2) by (auto simp: archive_inv_def archive_count_def nth_append less_Suc_eq)
qed

lemma get_archive_nth:
  assumes "archive_inv m" and "k < archive_count m"
  shows "get_archive m (of_nat k) = (if ta_retrieval_uri (am_archives m ! k) \<noteq> None
    then Found (am_archives m ! k) else Pending_Uri (am_archives m ! k))"
proof -
  have "find (\<lambda>a. ta_archive_id a = of_nat k) (am_archives m) = Some (am_archives m ! k)"
    unfolding find_Some_iff
  proof (intro exI [of _ k] conjI allI impI)
    show "k < length (am_archives m)" "am_archives m ! k = am_archives m ! k" using assms(2) by (simp_all add: archive_count_def)
    show "ta_archive_id (am_archives m ! k) = of_nat k" using assms by (simp add: archive_inv_def)
    fix j assume "j < k"
    moreover have "of_nat j \<noteq> (of_nat k :: u64)" if "j < k"
      using that assms by (simp add: archive_inv_def word_of_nat_eq_iff take_bit_nat_eq_self)
    ultimately show "ta_archive_id (am_archives m ! j) \<noteq> of_nat k" using assms by (simp add: archive_inv_def)
  qed
  then show ?thesis by (simp add: get_archive_def)
qed

text \<open>What can happen to the manager: refused batches change nothing.\<close>

datatype archive_request =
  Archive_Batch "string list" u64 string "string option"
| Set_Uri u64 string

fun archive_step :: "(string \<Rightarrow> u8 list) \<Rightarrow> archive_request \<Rightarrow> archive_manager \<Rightarrow> archive_manager" where
  "archive_step sha (Archive_Batch ids t label uri) m =
     (case archive_batch sha ids t label uri m of Inl _ \<Rightarrow> m | Inr (_, m1) \<Rightarrow> m1)"
| "archive_step sha (Set_Uri i uri) m = snd (set_retrieval_uri i uri m)"

lemma archive_step_keeps:
  assumes "archive_inv m"
  shows "archive_inv (archive_step sha r m)" and "archive_count m \<le> archive_count (archive_step sha r m)"
    and "k < archive_count m \<Longrightarrow>
      \<exists>u. am_archives (archive_step sha r m) ! k = (am_archives m ! k)\<lparr>ta_retrieval_uri := u\<rparr>"
proof -
  have "archive_inv (archive_step sha r m) \<and> archive_count m \<le> archive_count (archive_step sha r m) \<and>
    (k < archive_count m \<longrightarrow> (\<exists>u. am_archives (archive_step sha r m) ! k = (am_archives m ! k)\<lparr>ta_retrieval_uri := u\<rparr>))" for k
  proof (cases r)
    case (Archive_Batch ids t label uri)
    show ?thesis
    proof (cases "archive_batch sha ids t label uri m")
      case (Inl e)
      with Archive_Batch assms show ?thesis by (auto intro!: exI [of _ "ta_retrieval_uri (am_archives m ! k)"])
    next
      case (Inr am)
      then obtain a m1 where run: "archive_batch sha ids t label uri m = Inr (a, m1)" by (cases am) auto
      with archive_batch_Inr(4,5) [OF run assms] Archive_Batch show ?thesis
        by (auto simp: archive_count_def nth_append intro!: exI [of _ "ta_retrieval_uri (am_archives m ! k)"])
    qed
  next
    case (Set_Uri i uri)
    obtain b m1 where run: "set_retrieval_uri i uri m = (b, m1)" by (cases "set_retrieval_uri i uri m") auto
    note same = set_uri_nth [OF run]
    have "archive_inv m1"
      unfolding archive_inv_def
    proof (intro conjI allI impI)
      show "am_next_id m1 = of_nat (archive_count m1)" "archive_count m1 < 2 ^ 64"
        using assms same(1,2) by (simp_all add: archive_inv_def)
      fix j assume "j < archive_count m1"
      with same(2) same(3) [of j] assms show "ta_archive_id (am_archives m1 ! j) = of_nat j"
        by (auto simp: archive_inv_def)
    qed
    with run same Set_Uri show ?thesis by auto
  qed
  then show "archive_inv (archive_step sha r m)" "archive_count m \<le> archive_count (archive_step sha r m)"
    "k < archive_count m \<Longrightarrow>
      \<exists>u. am_archives (archive_step sha r m) ! k = (am_archives m ! k)\<lparr>ta_retrieval_uri := u\<rparr>" by blast+
qed

lemma archive_steps_keep:
  assumes "archive_inv m"
  shows "archive_inv (fold (archive_step sha) rs m) \<and> archive_count m \<le> archive_count (fold (archive_step sha) rs m) \<and>
    (k < archive_count m \<longrightarrow>
      (\<exists>u. am_archives (fold (archive_step sha) rs m) ! k = (am_archives m ! k)\<lparr>ta_retrieval_uri := u\<rparr>))"
  using assms
proof (induction rs arbitrary: m)
  case Nil
  then show ?case by (auto intro!: exI [of _ "ta_retrieval_uri (am_archives m ! k)"])
next
  case (Cons r rs)
  note step = archive_step_keeps [OF Cons(2), where sha = sha and r = r]
  from Cons(1) [OF step(1)] step(2) step(3) [of k] show ?case by (fastforce intro: order_trans)
qed

text \<open>A line feed in an identifier is not told from the end of one.\<close>

lemma commitment_ambiguous:
  "compute_archive_commitment sha [p @ [CHR 0x0A] @ q] = compute_archive_commitment sha [p, q]"
  by (simp add: compute_archive_commitment_def archive_input_def)

text \<open>
  C40. An archived batch stays as it is: whatever is archived, refused or annotated before and after,
  its identifier finds it with the number of its transactions and the commitment to exactly the
  submitted identifiers, only the address to retrieve it can change, and the check accepts the
  identifiers; other identifiers without line feeds are accepted only if SHA-256 has a collision.
\<close>

theorem archived_batches:
  assumes "\<forall>x. length (sha x) = 32"
    and "archive_batch sha ids t label uri (fold (archive_step sha) before archive_manager_new) = Inr (a, m)"
  shows "\<exists>b. get_archive (fold (archive_step sha) later m) (ta_archive_id a) \<in> {Found b, Pending_Uri b} \<and>
    b = a\<lparr>ta_retrieval_uri := ta_retrieval_uri b\<rparr> \<and> unat (ta_record_count b) = length ids \<and>
    verify_archive_commitment sha (ta_commitment b) ids \<and>
    (\<forall>ids'. verify_archive_commitment sha (ta_commitment b) ids' \<longrightarrow> ids' = ids \<or>
       list_ex (\<lambda>i. CHR 0x0A \<in> set i) (ids @ ids') \<or>
       archive_input ids' \<noteq> archive_input ids \<and> sha (archive_input ids') = sha (archive_input ids))"
proof -
  let ?m0 = "fold (archive_step sha) before archive_manager_new"
  let ?m1 = "fold (archive_step sha) later m"
  have inv: "archive_inv ?m0" using archive_steps_keep [OF archive_inv_new] by blast
  note new = archive_batch_Inr [OF assms(2) inv]
  let ?k = "archive_count ?m0"
  have k: "?k < archive_count m" "am_archives m ! ?k = a" using new(4) by (simp_all add: archive_count_def)
  from archive_steps_keep [OF new(5), where sha = sha and rs = later and k = ?k] k obtain u
    where inv1: "archive_inv ?m1" and k1: "?k < archive_count ?m1"
      and u: "am_archives ?m1 ! ?k = a\<lparr>ta_retrieval_uri := u\<rparr>" by auto
  let ?b = "am_archives ?m1 ! ?k"
  have "get_archive ?m1 (ta_archive_id a) \<in> {Found ?b, Pending_Uri ?b}"
    using get_archive_nth [OF inv1 k1] new(1) by simp
  moreover have "?b = a\<lparr>ta_retrieval_uri := ta_retrieval_uri ?b\<rparr>" by (simp add: u)
  moreover have "unat (ta_record_count ?b) = length ids" using new(3) by (simp add: u)
  moreover have verify: "verify_archive_commitment sha (ta_commitment ?b) ids' \<longleftrightarrow>
      sha (archive_input ids) = sha (archive_input ids')" for ids'
    using assms(1) verify_archive_commitment_iff [of sha "ta_commitment ?b" ids']
    by (simp add: u new(2) compute_archive_commitment_def)
  moreover have "ids' = ids" if "archive_input ids' = archive_input ids" "\<not> list_ex (\<lambda>i. CHR 0x0A \<in> set i) (ids @ ids')" for ids'
    using that archive_input_inject [of ids' ids] by (auto simp: list_all_iff list_ex_iff)
  ultimately show ?thesis by (intro exI [of _ ?b] conjI allI impI) (simp_all, metis)
qed

definition toy_digest :: "string \<Rightarrow> u8 list" where
  "toy_digest s = take 32 (map (\<lambda>c. of_nat (of_char c)) s @ replicate 32 0)"

theorem archived_batches_witness:
  "\<exists>a m b. archive_batch toy_digest [''T1'', ''T2''] 5 ''batch'' None
       (fold (archive_step toy_digest) [Archive_Batch [] 1 ''empty'' None] archive_manager_new) = Inr (a, m) \<and>
     get_archive (fold (archive_step toy_digest) [Set_Uri 0 ''ipfs://c''] m) (ta_archive_id a) \<in> {Found b, Pending_Uri b} \<and>
     verify_archive_commitment toy_digest (ta_commitment b) [''T1'', ''T2'']"
proof -
  have trims: "trim_text ''T1'' = ''T1''" "trim_text ''T2'' = ''T2''" "trim_text ''batch'' = ''batch''"
    by (rule trim_visible, simp add: visible_def)+
  have "\<exists>a m. archive_batch toy_digest [''T1'', ''T2''] 5 ''batch'' None
      (fold (archive_step toy_digest) [Archive_Batch [] 1 ''empty'' None] archive_manager_new) = Inr (a, m)"
    by (simp add: archive_batch_def archive_manager_new_def trims of_option_def checked_add_def check_batch_len_def
        Let_def)
  then obtain a m where run: "archive_batch toy_digest [''T1'', ''T2''] 5 ''batch'' None
      (fold (archive_step toy_digest) [Archive_Batch [] 1 ''empty'' None] archive_manager_new) = Inr (a, m)" by blast
  have "\<forall>x. length (toy_digest x) = 32" by (simp add: toy_digest_def min_def)
  from archived_batches [OF this run, of "[Set_Uri 0 ''ipfs://c'']"] run show ?thesis by blast
qed

end
