(* ===== verification/Multi_Asset_Routing.thy ===== *)
theory Multi_Asset_Routing
  imports Errors Ascii_Text Float32
begin

text \<open>
  \<^verbatim>\<open>src/multi_asset_routing.rs\<close>: quotes for several asset pairs in one pass.  The quotient of a
  settlement time and the largest \<open>f32\<close> can be subnormal, where \<open>Float32\<close> keeps more digits; it is only
  subtracted from 1, which it does not change either way.
\<close>

record asset_pair_request =
  aq_base_asset :: string
  aq_quote_asset :: string
  aq_amount :: u64
  aq_strategy :: string
  aq_min_reputation :: u32

record asset_pair_quote =
  ap_pair_key :: string
  ap_anchor :: string
  ap_fee_percentage :: u32
  ap_rate :: u64
  ap_quote_id :: u64
  ap_strategy_applied :: string
  ap_routing_reason :: "string option"

record multi_asset_routing_result =
  mr_filled :: "asset_pair_quote list"
  mr_unfilled :: "string list"

definition ROUTING_STRATEGIES :: "string list" where
  "ROUTING_STRATEGIES = [''LowestFee'', ''FastestSettlement'', ''HighestReputation'', ''WeightedScore'']"

definition is_asset_code_charset :: "string \<Rightarrow> bool" where
  "is_asset_code_charset code \<longleftrightarrow> list_all ascii_alnum code"

definition pair_asset_code :: "string \<Rightarrow> string" where
  "pair_asset_code code = to_ascii_uppercase (trim_text code)"

definition pair_key :: "string \<Rightarrow> string \<Rightarrow> string" where
  "pair_key base quote = pair_asset_code base @ ''/'' @ pair_asset_code quote"

definition validate_asset_pair_request :: "asset_pair_request \<Rightarrow> error_code + unit" where
  "validate_asset_pair_request req =
     (let base = pair_asset_code (aq_base_asset req);
          quote = pair_asset_code (aq_quote_asset req)
      in if base = [] \<or> 12 < length base \<or> \<not> is_asset_code_charset base then Inl InvalidAssetCode
         else if quote = [] \<or> 12 < length quote \<or> \<not> is_asset_code_charset quote then Inl InvalidAssetCode
         else if base = quote then Inl InvalidAssetPair
         else if aq_amount req = 0 then Inl InvalidAmount
         else if aq_strategy req \<notin> set ROUTING_STRATEGIES then Inl ValidationError
         else Inr ())"

record asset_candidate =
  cq_quote_id :: u64
  cq_anchor :: string
  cq_base_asset :: string
  cq_quote_asset :: string
  cq_rate :: u64
  cq_fee_percentage :: u32
  cq_minimum_amount :: u64
  cq_maximum_amount :: u64
  cq_valid_until :: u64
  cq_reputation_score :: u32
  cq_average_settlement_time :: u64
  cq_routing_reason :: "string option"

section \<open>Selection\<close>

text \<open>\<open>min_by_key\<close> keeps the first minimum of an iterator, \<open>max_by_key\<close> and \<open>max_by\<close> the last maximum.\<close>

fun min_by_key :: "('a \<Rightarrow> 'k::linorder) \<Rightarrow> 'a list \<Rightarrow> 'a option" where
  "min_by_key key [] = None"
| "min_by_key key (x # xs) = Some (fold (\<lambda>q best. if key q < key best then q else best) xs x)"

fun max_by_key :: "('a \<Rightarrow> 'k::linorder) \<Rightarrow> 'a list \<Rightarrow> 'a option" where
  "max_by_key key [] = None"
| "max_by_key key (x # xs) = Some (fold (\<lambda>q best. if key best \<le> key q then q else best) xs x)"

text \<open>\<open>f32::MAX\<close>.\<close>

definition f32_MAX :: f32 where
  "f32_MAX = (2 - two_pow (- 23)) * two_pow 127"

definition multi_weighted_score :: "asset_candidate \<Rightarrow> f32 \<Rightarrow> f32 \<Rightarrow> f32 \<Rightarrow> f32 \<Rightarrow> f32 \<Rightarrow> f32 \<Rightarrow> f32" where
  "multi_weighted_score q fw sw rw max_fee max_time max_rep =
     (let fee = (if max_fee = 0 then 1 else f_sub 1 (f_div (f32_of_u32 (cq_fee_percentage q)) max_fee));
          speed = (if max_time = 0 then 1 else f_sub 1 (f_div (f32_of_u64 (cq_average_settlement_time q)) max_time));
          rep = (if max_rep = 0 then 0 else f_div (f32_of_u32 (cq_reputation_score q)) max_rep)
      in f_add (f_add (f_mul fw fee) (f_mul sw speed)) (f_mul rw rep))"

definition multi_select_best :: "asset_candidate list \<Rightarrow> string \<Rightarrow> f32 \<Rightarrow> f32 \<Rightarrow> f32 \<Rightarrow> error_code + asset_candidate option" where
  "multi_select_best candidates strategy fee_weight speed_weight reputation_weight =
     (if strategy = ''LowestFee'' then Inr (min_by_key cq_fee_percentage candidates)
      else if strategy = ''FastestSettlement'' then Inr (min_by_key cq_average_settlement_time candidates)
      else if strategy = ''HighestReputation'' then Inr (max_by_key cq_reputation_score candidates)
      else if strategy = ''WeightedScore''
      then Inr (max_by_key (\<lambda>q. multi_weighted_score q fee_weight speed_weight reputation_weight 100 f32_MAX 100) candidates)
      else Inl ValidationError)"

section \<open>Routing\<close>

definition serves_request :: "asset_pair_request \<Rightarrow> u64 \<Rightarrow> asset_candidate \<Rightarrow> bool" where
  "serves_request req now q \<longleftrightarrow>
     (let q_base = pair_asset_code (cq_base_asset q); q_quote = pair_asset_code (cq_quote_asset q)
      in q_base \<noteq> q_quote \<and> q_base = pair_asset_code (aq_base_asset req) \<and>
         q_quote = pair_asset_code (aq_quote_asset req) \<and> 0 < cq_rate q \<and> now < cq_valid_until q \<and>
         cq_minimum_amount q \<le> aq_amount req \<and>
         (cq_maximum_amount q = 0 \<or> aq_amount req \<le> cq_maximum_amount q) \<and>
         aq_min_reputation req \<le> cq_reputation_score q)"

definition filled_quote :: "asset_pair_request \<Rightarrow> string \<Rightarrow> asset_candidate \<Rightarrow> asset_pair_quote" where
  "filled_quote req key best =
     \<lparr>ap_pair_key = key, ap_anchor = cq_anchor best, ap_fee_percentage = cq_fee_percentage best,
      ap_rate = cq_rate best, ap_quote_id = cq_quote_id best, ap_strategy_applied = aq_strategy req,
      ap_routing_reason = cq_routing_reason best\<rparr>"

definition default_weight :: f32 where "default_weight = round32 (333 / 1000)"
definition reputation_default_weight :: f32 where "reputation_default_weight = round32 (334 / 1000)"

definition route_request ::
  "asset_candidate list \<Rightarrow> u64 \<Rightarrow> multi_asset_routing_result \<Rightarrow> asset_pair_request \<Rightarrow>
   error_code + multi_asset_routing_result" where
  "route_request all_quotes now result req =
     bind_ok (validate_asset_pair_request req) (\<lambda>_.
       let base = pair_asset_code (aq_base_asset req);
           quote = pair_asset_code (aq_quote_asset req);
           key = pair_key base quote;
           owned = filter (serves_request req now) all_quotes
       in if owned = [] then Inr (result\<lparr>mr_unfilled := mr_unfilled result @ [key]\<rparr>)
          else bind_ok (multi_select_best owned (aq_strategy req) default_weight default_weight reputation_default_weight) (\<lambda>b.
            case b of
              Some best \<Rightarrow> Inr (result\<lparr>mr_filled := mr_filled result @ [filled_quote req key best]\<rparr>)
            | None \<Rightarrow> Inr (result\<lparr>mr_unfilled := mr_unfilled result @ [pair_key base quote]\<rparr>)))"

definition route_multi_asset ::
  "asset_pair_request list \<Rightarrow> asset_candidate list \<Rightarrow> u64 \<Rightarrow> error_code + multi_asset_routing_result" where
  "route_multi_asset requests all_quotes now =
     (if list_ex (\<lambda>q. pair_asset_code (cq_base_asset q) = [] \<or> pair_asset_code (cq_quote_asset q) = []) all_quotes
      then Inl InvalidAssetCode
      else list_bind (route_request all_quotes now) \<lparr>mr_filled = [], mr_unfilled = []\<rparr> requests)"

section \<open>The settlement time does not count\<close>

lemma exponent_half: "1 / 2 \<le> q \<Longrightarrow> q < 1 \<Longrightarrow> exponent q = - 1"
proof -
  assume q: "1 / 2 \<le> q" "q < 1"
  then have "two_pow (exponent q) \<le> q \<and> q < two_pow (exponent q + 1)" using exponent_bounds [of q] by simp
  then have "two_pow (exponent q) < two_pow 0" "two_pow (- 1) < two_pow (exponent q + 1)"
    using q by (simp_all add: two_pow_def)
  then show ?thesis by (simp only: two_pow_less_iff)
qed

lemma one_minus_tiny:
  assumes "0 \<le> x" and "x < 1 / 2 ^ 25"
  shows "f_sub 1 x = 1"
proof (cases "x = 0")
  case False
  have "exponent (1 - x) = - 1" by (rule exponent_half) (use assms False in auto)
  have "(1 - x) / two_pow (- 24) = 2 ^ 24 - x * 2 ^ 24" by (simp add: two_pow_def field_simps)
  moreover have "round_even (2 ^ 24 - x * 2 ^ 24) = 2 ^ 24"
  proof -
    have y: "0 < x * 2 ^ 24" "x * 2 ^ 24 < 1 / 2" using assms False by simp_all
    then have "\<lfloor>2 ^ 24 - x * 2 ^ 24 :: rat\<rfloor> = 2 ^ 24 - 1" by (intro floor_unique) auto
    with y show ?thesis by (simp add: round_even_def Let_def)
  qed
  ultimately have "round_pos (1 - x) = of_int (2 ^ 24) * two_pow (- 24)"
    by (simp only: round_pos_def \<open>exponent (1 - x) = - 1\<close> Let_def) simp
  also have "\<dots> = 1" by (simp add: two_pow_def)
  finally have "round_pos (1 - x) = 1" .
  moreover have "0 < 1 - x" using assms by simp
  ultimately show ?thesis by (simp add: f_sub_def round32_def)
qed (simp add: f_sub_def)

lemma round32_two_pow: "round32 (two_pow k) = two_pow k"
proof -
  have "two_pow (exponent (two_pow k)) \<le> two_pow k \<and> two_pow k < two_pow (exponent (two_pow k) + 1)"
    by (rule exponent_bounds) simp
  then have e: "exponent (two_pow k) = k" by (metis linorder_not_less two_pow_less_iff zless_add1_eq order_antisym_conv)
  have "two_pow k / two_pow (k - 23) = of_int (2 ^ 23)"
    using two_pow_add [of "k - 23" 23] by (simp add: two_pow_def [of 23])
  then have "round_pos (two_pow k) = of_int (2 ^ 23) * two_pow (k - 23)"
    by (simp only: round_pos_def e Let_def round_even_of_int)
  also have "\<dots> = two_pow k" using two_pow_add [of "k - 23" 23] by (simp add: two_pow_def [of 23])
  finally have "round_pos (two_pow k) = two_pow k" .
  moreover have "\<not> two_pow k < 0" by (simp add: not_less)
  ultimately show ?thesis by (simp add: round32_def)
qed

lemma settlement_tiny: "f_sub 1 (f_div (f32_of_u64 t) f32_MAX) = 1"
proof (rule one_minus_tiny)
  have max: "two_pow 127 \<le> f32_MAX" by (simp add: f32_MAX_def two_pow_def [of "- 23"])
  have t: "0 \<le> f32_of_u64 t" unfolding f32_of_u64_def by (rule round32_nonneg) (rule of_nat_0_le_iff)
  then show "0 \<le> f_div (f32_of_u64 t) f32_MAX"
    using max less_le_trans [OF two_pow_pos max] by (simp add: f_div_def round32_nonneg)
  have "unat t < 2 ^ 64" by (rule order_less_le_trans [OF unsigned_less]) simp
  then have "(of_nat (unat t) :: rat) \<le> of_nat (2 ^ 64)" by (simp only: of_nat_le_iff less_imp_le)
  then have "of_nat (unat t) \<le> two_pow 64" by (simp add: two_pow_def)
  then have "f32_of_u64 t \<le> two_pow 64" unfolding f32_of_u64_def by (metis round32_mono round32_two_pow)
  then have "f32_of_u64 t / f32_MAX \<le> two_pow 64 / two_pow 127" by (rule frac_le [OF _ _ two_pow_pos max, rotated]) simp
  also have "two_pow 64 / two_pow 127 = two_pow (- 63)" by (simp add: two_pow_def)
  finally have "f_div (f32_of_u64 t) f32_MAX \<le> two_pow (- 63)"
    unfolding f_div_def by (metis round32_mono round32_two_pow)
  also have "\<dots> < 1 / 2 ^ 25" by (simp add: two_pow_def)
  finally show "f_div (f32_of_u64 t) f32_MAX < 1 / 2 ^ 25" .
qed

lemma score_without_settlement:
  "multi_weighted_score q fw sw rw 100 f32_MAX 100 =
     f_add (f_add (f_mul fw (f_sub 1 (f_div (f32_of_u32 (cq_fee_percentage q)) 100))) (f_mul sw 1))
       (f_mul rw (f_div (f32_of_u32 (cq_reputation_score q)) 100))"
proof -
  have "f32_MAX \<noteq> 0" by (simp add: f32_MAX_def two_pow_def)
  then show ?thesis by (simp add: multi_weighted_score_def settlement_tiny)
qed

section \<open>What is selected\<close>

lemma min_by_key_snoc:
  "xs \<noteq> [] \<Longrightarrow> min_by_key key (xs @ [x]) =
     (case min_by_key key xs of None \<Rightarrow> None | Some b \<Rightarrow> Some (if key x < key b then x else b))"
  by (cases xs) auto

lemma max_by_key_snoc:
  "xs \<noteq> [] \<Longrightarrow> max_by_key key (xs @ [x]) =
     (case max_by_key key xs of None \<Rightarrow> None | Some b \<Rightarrow> Some (if key b \<le> key x then x else b))"
  by (cases xs) auto

lemma min_by_key_first:
  "min_by_key key xs = Some b \<Longrightarrow>
   \<exists>pre post. xs = pre @ b # post \<and> (\<forall>x \<in> set pre. key b < key x) \<and> (\<forall>x \<in> set post. key b \<le> key x)"
proof (induction xs arbitrary: b rule: rev_induct)
  case (snoc x xs)
  show ?case
  proof (cases "xs = []")
    case True
    with snoc(2) show ?thesis by (intro exI [of _ "[]"]) auto
  next
    case False
    with snoc(2) obtain c where c: "min_by_key key xs = Some c" "b = (if key x < key c then x else c)"
      by (auto simp: min_by_key_snoc split: option.splits)
    from snoc(1) [OF c(1)] obtain pre post where
      split: "xs = pre @ c # post" "\<forall>x \<in> set pre. key c < key x" "\<forall>x \<in> set post. key c \<le> key x" by blast
    show ?thesis
    proof (cases "key x < key c")
      case True
      with c(2) split show ?thesis by (intro exI [of _ xs] exI [of _ "[]"]) fastforce
    next
      case False
      with c(2) split show ?thesis by (intro exI [of _ pre] exI [of _ "post @ [x]"]) auto
    qed
  qed
qed simp

lemma max_by_key_last:
  "max_by_key key xs = Some b \<Longrightarrow>
   \<exists>pre post. xs = pre @ b # post \<and> (\<forall>x \<in> set pre. key x \<le> key b) \<and> (\<forall>x \<in> set post. key x < key b)"
proof (induction xs arbitrary: b rule: rev_induct)
  case (snoc x xs)
  show ?case
  proof (cases "xs = []")
    case True
    with snoc(2) show ?thesis by (intro exI [of _ "[]"]) auto
  next
    case False
    with snoc(2) obtain c where c: "max_by_key key xs = Some c" "b = (if key c \<le> key x then x else c)"
      by (auto simp: max_by_key_snoc split: option.splits)
    from snoc(1) [OF c(1)] obtain pre post where
      split: "xs = pre @ c # post" "\<forall>x \<in> set pre. key x \<le> key c" "\<forall>x \<in> set post. key x < key c" by blast
    show ?thesis
    proof (cases "key c \<le> key x")
      case True
      with c(2) split show ?thesis by (intro exI [of _ xs] exI [of _ "[]"]) fastforce
    next
      case False
      with c(2) split show ?thesis by (intro exI [of _ pre] exI [of _ "post @ [x]"]) auto
    qed
  qed
qed simp

text \<open>The weights of the pass see the fee and the reputation only.\<close>

definition fee_reputation_score :: "asset_candidate \<Rightarrow> f32" where
  "fee_reputation_score q =
     f_add (f_add (f_mul default_weight (f_sub 1 (f_div (f32_of_u32 (cq_fee_percentage q)) 100))) (f_mul default_weight 1))
       (f_mul reputation_default_weight (f_div (f32_of_u32 (cq_reputation_score q)) 100))"

text \<open>A first quote of the lowest key, a last one of the highest key, and what a strategy asks for.\<close>

definition first_lowest_by :: "('a \<Rightarrow> 'k::linorder) \<Rightarrow> 'a list \<Rightarrow> 'a \<Rightarrow> bool" where
  "first_lowest_by key xs b \<longleftrightarrow>
     (\<exists>pre post. xs = pre @ b # post \<and> (\<forall>x \<in> set pre. key b < key x) \<and> (\<forall>x \<in> set post. key b \<le> key x))"

definition last_highest_by :: "('a \<Rightarrow> 'k::linorder) \<Rightarrow> 'a list \<Rightarrow> 'a \<Rightarrow> bool" where
  "last_highest_by key xs b \<longleftrightarrow>
     (\<exists>pre post. xs = pre @ b # post \<and> (\<forall>x \<in> set pre. key x \<le> key b) \<and> (\<forall>x \<in> set post. key x < key b))"

definition wanted_quote :: "string \<Rightarrow> asset_candidate list \<Rightarrow> asset_candidate \<Rightarrow> bool" where
  "wanted_quote strategy qs b \<longleftrightarrow>
     strategy = ''LowestFee'' \<and> first_lowest_by cq_fee_percentage qs b \<or>
     strategy = ''FastestSettlement'' \<and> first_lowest_by cq_average_settlement_time qs b \<or>
     strategy = ''HighestReputation'' \<and> last_highest_by cq_reputation_score qs b \<or>
     strategy = ''WeightedScore'' \<and> last_highest_by fee_reputation_score qs b"

lemma min_by_key_first_lowest: "min_by_key key xs = Some b \<Longrightarrow> first_lowest_by key xs b"
  unfolding first_lowest_by_def by (rule min_by_key_first)

lemma max_by_key_last_highest: "max_by_key key xs = Some b \<Longrightarrow> last_highest_by key xs b"
  unfolding last_highest_by_def by (rule max_by_key_last)

lemma weighted_key:
  "(\<lambda>q. multi_weighted_score q default_weight default_weight reputation_default_weight 100 f32_MAX 100) = fee_reputation_score"
  by (rule ext) (simp only: score_without_settlement fee_reputation_score_def)

lemma multi_select_best_wanted:
  assumes "multi_select_best qs strategy default_weight default_weight reputation_default_weight = Inr (Some b)"
  shows "wanted_quote strategy qs b"
  using assms unfolding multi_select_best_def weighted_key
  by (auto simp: wanted_quote_def intro: min_by_key_first_lowest max_by_key_last_highest split: if_split_asm)

lemma multi_select_best_nonempty:
  "multi_select_best qs strategy a b c = Inr r \<Longrightarrow> qs \<noteq> [] \<Longrightarrow> r \<noteq> None"
  by (cases qs) (auto simp: multi_select_best_def split: if_split_asm)

text \<open>The key of a request, and its answer in a pass: none if nothing serves it.\<close>

definition request_key :: "asset_pair_request \<Rightarrow> string" where
  "request_key r = pair_key (pair_asset_code (aq_base_asset r)) (pair_asset_code (aq_quote_asset r))"

definition right_answer :: "asset_candidate list \<Rightarrow> u64 \<Rightarrow> asset_pair_request \<Rightarrow> asset_candidate option \<Rightarrow> bool" where
  "right_answer quotes now r a \<longleftrightarrow> validate_asset_pair_request r = Inr () \<and>
     (case a of
        None \<Rightarrow> filter (serves_request r now) quotes = []
      | Some q \<Rightarrow> wanted_quote (aq_strategy r) (filter (serves_request r now) quotes) q)"

fun answered :: "asset_pair_request list \<Rightarrow> asset_candidate option list \<Rightarrow> asset_pair_quote list" where
  "answered (r # rs) (Some q # as) = filled_quote r (request_key r) q # answered rs as"
| "answered (r # rs) (None # as) = answered rs as"
| "answered _ _ = []"

fun unanswered :: "asset_pair_request list \<Rightarrow> asset_candidate option list \<Rightarrow> string list" where
  "unanswered (r # rs) (Some q # as) = unanswered rs as"
| "unanswered (r # rs) (None # as) = request_key r # unanswered rs as"
| "unanswered _ _ = []"

lemma route_request_answer:
  assumes "route_request quotes now res r = Inr res1"
  shows "\<exists>a. right_answer quotes now r a \<and> mr_filled res1 = mr_filled res @ answered [r] [a] \<and>
    mr_unfilled res1 = mr_unfilled res @ unanswered [r] [a]"
proof (cases "filter (serves_request r now) quotes = []")
  case True
  with assms show ?thesis
    by (intro exI [of _ None]) (auto simp: route_request_def right_answer_def request_key_def bind_ok_Inr Let_def)
next
  case False
  let ?qs = "filter (serves_request r now) quotes"
  from assms False obtain b where ok: "validate_asset_pair_request r = Inr ()"
    and b: "multi_select_best ?qs (aq_strategy r) default_weight default_weight reputation_default_weight = Inr b"
    and res1: "(case b of
        Some best \<Rightarrow> Inr (res\<lparr>mr_filled := mr_filled res @ [filled_quote r (request_key r) best]\<rparr>)
      | None \<Rightarrow> Inr (res\<lparr>mr_unfilled := mr_unfilled res @ [request_key r]\<rparr>)) = (Inr res1 :: error_code + _)"
    unfolding request_key_def by (auto simp: route_request_def bind_ok_Inr Let_def)
  from multi_select_best_nonempty [OF b False] obtain q where q: "b = Some q" by auto
  with b have "right_answer quotes now r (Some q)" by (simp add: right_answer_def ok multi_select_best_wanted)
  with q res1 show ?thesis by (intro exI [of _ "Some q"]) auto
qed

lemma route_all_answers:
  assumes "list_bind (route_request quotes now) res rs = Inr res1"
  shows "\<exists>as. list_all2 (right_answer quotes now) rs as \<and> mr_filled res1 = mr_filled res @ answered rs as \<and>
    mr_unfilled res1 = mr_unfilled res @ unanswered rs as"
  using assms
proof (induction rs arbitrary: res)
  case (Cons r rs)
  then obtain res2 where step: "route_request quotes now res r = Inr res2"
    and rest: "list_bind (route_request quotes now) res2 rs = Inr res1" by (auto simp: bind_ok_Inr)
  from route_request_answer [OF step] obtain a where a: "right_answer quotes now r a"
    "mr_filled res2 = mr_filled res @ answered [r] [a]" "mr_unfilled res2 = mr_unfilled res @ unanswered [r] [a]" by blast
  from Cons(1) [OF rest] obtain as where as: "list_all2 (right_answer quotes now) rs as"
    "mr_filled res1 = mr_filled res2 @ answered rs as" "mr_unfilled res1 = mr_unfilled res2 @ unanswered rs as" by blast
  from a as show ?case by (intro exI [of _ "a # as"]) (cases a; simp)
qed (auto intro: exI [of _ "[]"])

text \<open>
  C39. A pass over several asset pairs answers every request, in their order and independently of each
  other: a request for which no quote serves is listed as unfilled, every other one is filled by the
  quote its strategy asks for among those that serve it (the first of the lowest fee or settlement
  time, the last of the highest reputation or score).  The score of \<open>WeightedScore\<close> is a function of
  the fee and the reputation alone: its share for the settlement time is the same for all quotes.
\<close>

theorem multi_asset_routes:
  assumes "route_multi_asset requests quotes now = Inr result"
  shows "(\<exists>answers. list_all2 (right_answer quotes now) requests answers \<and>
      mr_filled result = answered requests answers \<and> mr_unfilled result = unanswered requests answers) \<and>
    multi_weighted_score (q\<lparr>cq_average_settlement_time := t\<rparr>) fw sw rw 100 f32_MAX 100 =
      multi_weighted_score q fw sw rw 100 f32_MAX 100"
proof
  have "list_bind (route_request quotes now) \<lparr>mr_filled = [], mr_unfilled = []\<rparr> requests = Inr result"
    using assms by (simp add: route_multi_asset_def split: if_split_asm)
  from route_all_answers [OF this] show "\<exists>answers. list_all2 (right_answer quotes now) requests answers \<and>
      mr_filled result = answered requests answers \<and> mr_unfilled result = unanswered requests answers" by simp
qed (simp add: score_without_settlement)

definition sample_request :: "string \<Rightarrow> asset_pair_request" where
  "sample_request strategy =
     \<lparr>aq_base_asset = ''XLM'', aq_quote_asset = ''USDC'', aq_amount = 100, aq_strategy = strategy, aq_min_reputation = 0\<rparr>"

definition sample_quote :: "u64 \<Rightarrow> u32 \<Rightarrow> u64 \<Rightarrow> asset_candidate" where
  "sample_quote i fee time =
     \<lparr>cq_quote_id = i, cq_anchor = ''A'', cq_base_asset = ''XLM'', cq_quote_asset = ''USDC'', cq_rate = 5,
      cq_fee_percentage = fee, cq_minimum_amount = 1, cq_maximum_amount = 0, cq_valid_until = 1000,
      cq_reputation_score = 50, cq_average_settlement_time = time, cq_routing_reason = None\<rparr>"

lemma sample_codes [simp]: "pair_asset_code ''XLM'' = ''XLM''" "pair_asset_code ''USDC'' = ''USDC''"
proof -
  have "trim_text ''XLM'' = ''XLM''" "trim_text ''USDC'' = ''USDC''" by (rule trim_visible, simp add: visible_def)+
  then show "pair_asset_code ''XLM'' = ''XLM''" "pair_asset_code ''USDC'' = ''USDC''"
    by (simp_all add: pair_asset_code_def to_ascii_uppercase_def upper_char_def ascii_lower_def)
qed

lemma sample_request_valid: "validate_asset_pair_request (sample_request ''LowestFee'') = Inr ()"
proof -
  have "is_asset_code_charset ''XLM''" "is_asset_code_charset ''USDC''" by code_simp+
  then show ?thesis by (simp add: validate_asset_pair_request_def sample_request_def ROUTING_STRATEGIES_def Let_def)
qed

lemma sample_quote_serves: "0 < fee \<Longrightarrow> serves_request (sample_request s) 500 (sample_quote i fee time)"
  by (simp add: serves_request_def sample_request_def sample_quote_def)

lemma sample_lowest:
  "multi_select_best [sample_quote 1 30 10, sample_quote 2 20 900] ''LowestFee'' a b c = Inr (Some (sample_quote 2 20 900))"
  by (simp add: multi_select_best_def sample_quote_def)

text \<open>The second quote has the lower fee.\<close>

theorem multi_asset_routes_witness:
  "\<exists>result answers. route_multi_asset [sample_request ''LowestFee''] [sample_quote 1 30 10, sample_quote 2 20 900] 500 = Inr result \<and>
     list_all2 (right_answer [sample_quote 1 30 10, sample_quote 2 20 900] 500) [sample_request ''LowestFee''] answers \<and>
     mr_filled result = answered [sample_request ''LowestFee''] answers \<and> map ap_quote_id (mr_filled result) = [2]"
proof -
  have codes: "pair_asset_code (cq_base_asset (sample_quote i f x)) = ''XLM''"
    "pair_asset_code (cq_quote_asset (sample_quote i f x)) = ''USDC''" for i f x
    by (simp_all add: sample_quote_def)
  have strategy: "aq_strategy (sample_request s) = s" for s by (simp add: sample_request_def)
  have "\<exists>result. route_multi_asset [sample_request ''LowestFee''] [sample_quote 1 30 10, sample_quote 2 20 900] 500 = Inr result \<and>
      map ap_quote_id (mr_filled result) = [2]"
    by (simp add: route_multi_asset_def route_request_def sample_request_valid sample_quote_serves codes strategy
        sample_lowest filled_quote_def Let_def) (simp add: sample_quote_def)
  then obtain result where run:
    "route_multi_asset [sample_request ''LowestFee''] [sample_quote 1 30 10, sample_quote 2 20 900] 500 = Inr result"
    and ids: "map ap_quote_id (mr_filled result) = [2]" by (elim exE conjE)
  from conjunct1 [OF multi_asset_routes [OF run]] obtain answers where
    "list_all2 (right_answer [sample_quote 1 30 10, sample_quote 2 20 900] 500) [sample_request ''LowestFee''] answers"
    "mr_filled result = answered [sample_request ''LowestFee''] answers" by (elim exE conjE)
  with run ids show ?thesis by (intro exI [of _ result] exI [of _ answers] conjI)
qed

end
