(* ===== verification/Spec2Isabelle.thy ===== *)
theory Spec2Isabelle
  imports Life_Cycles Routing_Properties Tracker_Refinement Rate_Limiter_Quotas Storage_Keys
    Domain_Validator Retry Structured_Log Host_Replay_Prevention Request_Deduplication Alert_Dedup
    Alert_Routing Url_Normalizer Sep6 Sep24 Sep31 Transaction_Archive Multi_Asset_Routing
begin

text \<open>
  SorobanAnchor: a Soroban (Stellar) contract in Rust that registers attestors, records signed
  attestations, keeps sessions, quotes, KYC records and transactions, together with the libraries
  around it.  This development models the contract and its support modules.

  \<^bold>\<open>Parts and theories.\<close>  Every theory names the source file it translates and keeps the names of
  its functions.

  \<^item> \<open>Prelude\<close>: machine arithmetic (\<open>saturating_\<close>, \<open>checked_\<close> and trapping operations on words), the
    result type with its bind, loops that can trap.  \<open>Errors\<close>: \<^verbatim>\<open>src/errors.rs\<close>, and traps: \<open>Panic\<close> with
    an error code, \<open>ArithTrap\<close> for an overflow (the crate is built with overflow checks).
  \<^item> \<open>Interfaces\<close>: the locales (\<open>lifecycle\<close>, \<open>quota\<close>, \<open>temp_storage\<close>, \<open>transactional\<close>,
    \<open>stable_under\<close> and \<open>dedup_window\<close>; \<open>preference\<close> is declared in \<open>Contract_Routing\<close>), each
    interpreted on the model in the theory of the component that provides it.
  \<^item> \<open>Session_State_Machine\<close>, \<open>Deterministic_Hash\<close>, \<open>Replay_Detection\<close>, \<open>Admin_Audit_Log\<close>,
    \<open>Rate_Limiter\<close>, \<open>Base64url\<close> and \<open>Sep10_Jwt\<close>, \<open>Migration\<close>, \<open>Service_Management\<close>,
    \<open>Cache_Governance\<close>, \<open>Compliance_Policy\<close>, \<open>Domain_Validator\<close>: the source files of the same names.
    \<open>Rate_Limiter_Quotas\<close> has the bounds over sequences of requests, \<open>Storage_Keys\<close> the keys under
    which everything is stored.  \<open>Ascii_Text\<close> (text as bytes) and \<open>Float32\<close> (single-precision numbers as
    rationals rounded to 24 bits) serve several of them.
  \<^item> \<open>Contract_State\<close> and \<open>Anchor_State\<close>: the structures of \<^verbatim>\<open>src/contract.rs\<close> and the storage as
    records with a component per family of keys.  \<open>Contract_Access\<close> (administration),
    \<open>Contract_Attestors\<close>, \<open>Contract_Attestations\<close>, \<open>Contract_Tracing\<close>, \<open>Contract_Sessions\<close>,
    \<open>Contract_Kyc\<close>, \<open>Contract_Quotes\<close>, \<open>Contract_Transactions\<close>, and for the anchors
    \<open>Contract_Services\<close> (profiles, switches), \<open>Contract_Caches\<close>, \<open>Contract_Directory\<close> (metadata,
    blacklist, clusters), \<open>Contract_Routing\<close> and \<open>Contract_Health\<close> are the entry points; each is a
    function from the environment, the arguments and the storage to a trap or a value with the new
    storage.  \<open>Routing_Properties\<close> proves what routing selects.
  \<^item> \<open>Transaction_State\<close>, \<open>Transaction_Tracker\<close>: \<^verbatim>\<open>src/transaction_state_tracker.rs\<close>, its records and
    both modes of its tracker; \<open>Tracker_Refinement\<close> proves that they implement one abstract map.
  \<^item> \<open>Anchor_System\<close> and \<open>Contract_System\<close>: the entry points as calls and one step \<open>exec\<close> of the
    contract; the invariants of all components hold together after every history of calls.
    \<open>Life_Cycles\<close>: what a call may do to one session and to one transaction record, as step
    relations, and that every call is such a step.
  \<^item> Around the contract, the library a client links: \<open>Sep6\<close>, \<open>Sep24\<close> and \<open>Sep31\<close> normalise the answers of
    an anchor (the answers, the sleep function and the clock are arguments), \<open>Url_Normalizer\<close> with
    \<open>Domain_Validator\<close> decides which addresses are used, \<open>Retry\<close> (\<^verbatim>\<open>src/retry.rs\<close> and
    \<^verbatim>\<open>src/retry_budget.rs\<close>) repeats an operation, \<open>Host_Replay_Prevention\<close>,
    \<open>Request_Deduplication\<close> and \<open>Alert_Dedup\<close> remember what was seen for a while, \<open>Alert_Routing\<close>
    picks the destinations of an alert and \<open>Structured_Log\<close> writes JSON lines.  \<open>Stellar_Account\<close> is the
    check of account identifiers in \<^verbatim>\<open>src/response_validator.rs\<close>, \<open>Transaction_Archive\<close> keeps batches of
    old transactions and \<open>Multi_Asset_Routing\<close> picks quotes for several asset pairs.  \<open>Btree_Map\<close> is the
    standard library's ordered map as a sorted association list.

  \<^bold>\<open>What is shown.\<close>  Per component: the invariant of its storage, preservation by every operation, the
  outcome of the operations on success and failure, and the frame (what is left alone).
  \<open>Routing_Properties\<close>: the routed quote is usable and best under its strategy, every routing error has
  its cause, rankings and policies agree with a complete search.  This theory adds the properties of
  the composed contract: the invariant over all histories, who can change the administration, that
  attestations are immutable and their payloads stay used, what an executed invalidation proposal
  went through, the path a KYC status takes, the life cycle of sessions and of transaction records
  under every call, quotes, the migration in batches and what each group of calls can touch.  For the
  client library: how often and after which exact delays an operation is repeated, that polling ends,
  that a window lets a key pass once and then again (the locale \<open>dedup_window\<close>, interpreted on three
  stores, and the exact answers of the guard at the host's boundary), what an interactive address
  handed on looks like, which addresses and amounts are accepted, that a mistyped account
  identifier is always found, that archived batches stay as they are, and that a log line can be read
  back.

  \<^bold>\<open>Modelling decisions.\<close>  The host rolls the storage back when a call traps (\<open>run\<close>, \<open>invoke\<close>).
  \<open>require_auth\<close> succeeds for the addresses in \<open>auths\<close> of the environment.  Addresses are their strkey
  text.  Storage keys become typed maps; \<open>storage_keys_separated\<close> shows that different keys are hashed
  from different bytes.  Entries of the temporary storage expire; persistent and instance entries do
  not disappear (an archived entry makes the transaction fail until it is restored), so their TTLs
  have no counterpart.  SHA-256, the Ed25519 check, the JSON serializer and the unstable sort are
  parameters; the sort is assumed to return a sorted permutation, as documented.  Published events
  are the output list \<open>c_events\<close>.  No fuel is used: the loops of the modelled code are recursions
  over lists or finite ranges of identifiers, or end by a measure (\<open>execute_with_budget\<close>); only the
  polling of \<open>Sep6\<close> may run forever, so \<open>poll_loop\<close> is a \<^verbatim>\<open>partial_function (option)\<close> whose result
  \<open>None\<close> is that, and \<open>poll_returns\<close> shows when it cannot happen.

  \<^bold>\<open>Not modelled.\<close>  TTLs of persistent entries and the host's maximum TTL; the host's refusal to
  authorise one address twice in a frame, which makes \<open>refresh_metadata_cache\<close>,
  \<open>refresh_capabilities_cache\<close>, \<open>refresh_anchor_info\<close> and \<open>quote_with_request_id\<close> fail (the last is
  left out); subnormal and overflowing single-precision numbers (scores stay far from both); the byte
  export of the audit log; the templates of \<^verbatim>\<open>src/service_management.rs\<close> and the \<open>_logged\<close> copies of
  \<^verbatim>\<open>src/cache_governance.rs\<close>, which only add a trace line; the SEP-38
  client, the HTTP client, the validators of whole responses, the health probes, webhooks and
  streaming, provenance, compaction, the TOML parser, and the configuration and command
  line program (input and output).
\<close>

section \<open>The contract under every history of calls\<close>

text \<open>
  C1. Whatever calls are made, in any order, by anyone and at any time, with trapping calls rolled
  back, the storage satisfies the invariants of all its components: the audit log is the ring
  of its newest entries, the schema history matches the schema version, an attestor is registered
  exactly if it has a key and is then listed, attestations are numbered consecutively and match
  the marks of used payloads, sessions respect their operation limit and their log, KYC approvals
  carry their thirty-day expiry, compliance logs are contiguous, quotes are well-formed,
  transaction histories are paths of their state machine, and the store of the anchors (profiles and
  switches, the governance of the caches, directory and clusters, routing and reputation, health
  records) satisfies its own invariant.
\<close>

theorem contract_invariant:
  "contract_inv (run (exec srt) cs fresh_contract)"
  by (rule sys.run_inv [OF contract_inv_fresh])

text \<open>A concrete first call.\<close>

lemma sample_initialize:
  "\<exists>s'. exec (sort_key fst) (accepting_env 9 1 {''A''}) (AdminCall (Initialize ''A'')) fresh_contract = Inr s'"
  by (simp add: initialize_def require_auth_def require_def accepting_env_def fresh_contract_def
      set_version_def empty_schema_store_def current_version_def)

text \<open>Administration: who may change the access part.\<close>

lemma unchanged_access:
  assumes "contract_inv s" and "exec srt e c s = Inr s'" and "\<And>x. c \<noteq> AdminCall x"
  shows "c_access s' = c_access s"
  using exec_footprint [OF assms(1,2), of PAccess] assms(3) by (cases c) auto

lemma admin_call_access:
  assumes "exec_admin e c s = Inr s'"
  shows "c_access s' = c_access s \<or>
    (\<exists>a. c = Initialize a \<and> \<not> acc_initialized (c_access s) \<and> a \<in> auths e \<and>
       acc_admin (c_access s') = Some a) \<or>
    (\<exists>a. c = AcceptAdminTransfer \<and> acc_pending (c_access s) = Some a \<and> a \<in> auths e \<and>
       acc_admin (c_access s') = Some a) \<or>
    (\<exists>a. acc_admin (c_access s) = Some a \<and> a \<in> auths e \<and> acc_admin (c_access s') = Some a)"
proof (cases c)
  case (Initialize a)
  with assms show ?thesis by (auto dest!: initialize_ok)
next
  case AcceptAdminTransfer
  with assms show ?thesis by (auto simp: accept_admin_transfer_def ok_simps)
next
  case (Upgrade h)
  with assms show ?thesis
    by (auto simp: upgrade_def bind_ok_Inr require_admin_Inr Let_def audit_action_Inr split: if_split_asm)
next
  case (SetRateLimitConfig a m w)
  with assms show ?thesis
    by (auto simp: set_rate_limit_config_def bind_ok_Inr case_sum_Inr audit_action_Inr)
next
  case (SetRoleRateLimit a r cfg)
  with assms show ?thesis
    by (auto simp: set_role_rate_limit_def bind_ok_Inr case_sum_Inr audit_action_Inr)
next
  case (SetAddressRateLimit a b cfg)
  with assms show ?thesis
    by (auto simp: set_address_rate_limit_def bind_ok_Inr case_sum_Inr audit_action_Inr)
next
  case (VerifySep10Token tok iss sub)
  with assms show ?thesis by (auto dest!: verify_sep10_token_frame)
next
  case (RotateSep10Key iss k)
  with assms show ?thesis
    by (auto simp: rotate_sep10_key_def bind_ok_Inr Let_def split: if_split_asm option.split_asm)
qed (use assms in \<open>auto simp: propose_admin_transfer_def grant_role_def revoke_role_def
      grant_capability_def revoke_capability_def set_sep10_jwt_verifying_key_def set_jwt_max_len_def
      set_jwt_skew_def purge_expired_jtis_def bind_ok_Inr require_admin_Inr Let_def audit_action_Inr
      split: if_split_asm\<close>)

text \<open>
  C4. Nothing in the administrative storage (the administrator, the pending one, roles, capabilities,
  versions) changes without authority: either the current administrator authorised the call and
  stays administrator, or the contract was not initialised and the new administrator authorised
  the initialisation, or the proposed administrator authorised the acceptance and takes over.
\<close>

theorem admin_authority:
  assumes "contract_inv s" and "exec srt e c s = Inr s'" and "c_access s' \<noteq> c_access s"
  shows "\<exists>a. a \<in> auths e \<and> acc_admin (c_access s') = Some a \<and>
    (acc_admin (c_access s) = Some a \<or>
     c = AdminCall (Initialize a) \<and> \<not> acc_initialized (c_access s) \<or>
     c = AdminCall AcceptAdminTransfer \<and> acc_pending (c_access s) = Some a)"
proof -
  obtain x where c: "c = AdminCall x"
    using unchanged_access [OF assms(1,2)] assms(3) by blast
  with assms(2) have "exec_admin e x s = Inr s'" by simp
  from admin_call_access [OF this] assms(3) c show ?thesis by blast
qed

theorem admin_authority_witness:
  "\<exists>s'. exec (sort_key fst) (accepting_env 9 1 {''A''}) (AdminCall (Initialize ''A'')) fresh_contract = Inr s' \<and>
     acc_admin (c_access s') = Some ''A''"
proof -
  obtain s' where run: "exec (sort_key fst) (accepting_env 9 1 {''A''}) (AdminCall (Initialize ''A'')) fresh_contract = Inr s'"
    using sample_initialize by blast
  moreover have "c_access s' \<noteq> c_access fresh_contract"
    using run by (auto dest!: initialize_ok simp: fresh_contract_def)
  ultimately show ?thesis
    using admin_authority [OF contract_inv_fresh run] by (auto simp: accepting_env_def)
qed

text \<open>
  C3. A recorded attestation is never changed or removed, and its payload stays used: after any
  history of calls the record is still found under its identifier, its payload hash is still marked
  as used by its issuer, and no way of submitting (alone, with the KYC check, with a request
  identifier, in a session, or anywhere in a batch) accepts the same payload from the same issuer
  again, whatever the environment and the other arguments are.
\<close>

theorem attestations_immutable:
  assumes "contract_inv s" and "att_records (c_attest s) i = Some r"
  shows "let s1 = run (exec srt) cs s; iss = at_issuer r; h = at_payload_hash r
    in get_attestation s1 i = Inr r \<and> att_used (c_attest s1) (iss, h) \<noteq> None \<and>
       (\<forall>e sub ts sg. isl (submit_attestation e iss sub ts h sg s1)) \<and>
       (\<forall>e sub ts sg k. isl (submit_attestation_kyc_check e iss sub ts h sg k s1)) \<and>
       (\<forall>e rid sub ts sg. isl (submit_with_request_id e rid iss sub ts h sg s1)) \<and>
       (\<forall>e j sub ts sg. isl (submit_attestation_with_session e j iss sub ts h sg s1)) \<and>
       (\<forall>e a xs sub ts sg ys. isl (submit_attestation_batch e a (xs @ \<lparr>in_issuer = iss,
          in_subject = sub, in_timestamp = ts, in_payload_hash = h, in_signature = sg\<rparr> # ys) s1))"
proof -
  let ?s = "run (exec srt) cs s"
  have kept: "att_records (c_attest ?s) i = Some r" by (rule attested.run_fact [OF assms])
  have "attest_inv (c_attest ?s)" by (rule contract_invD(4) [OF sys.run_inv [OF assms(1)]])
  with kept have used: "att_used (c_attest ?s) (at_issuer r, at_payload_hash r) \<noteq> None"
    unfolding attest_inv_def by blast
  then show ?thesis
    unfolding Let_def using kept used_payload_refused [OF used]
    by (simp add: get_attestation_def of_option_def)
qed

definition sample_attested :: contract where
  "sample_attested = fresh_contract\<lparr>c_attest :=
     added 0 ''A'' ''B'' 5 ''h'' ''s'' (c_attest fresh_contract)\<rparr>"

lemma sample_attested_inv: "contract_inv sample_attested"
proof -
  have "attest_inv (added 0 ''A'' ''B'' 5 ''h'' ''s'' (c_attest fresh_contract))"
    by (rule added_inv [OF attest_inv_empty(1)]) (simp_all add: fresh_contract_def word_top_def)
  with contract_inv_fresh show ?thesis by (simp add: contract_inv_def sample_attested_def)
qed

theorem attestations_immutable_witness:
  "let s1 = run (exec (sort_key fst)) [(accepting_env 9 1 {''A''}, AdminCall (Initialize ''A''))] sample_attested
   in \<exists>r. get_attestation s1 0 = Inr r \<and> at_issuer r = ''A'' \<and> at_payload_hash r = ''h'' \<and>
      (\<forall>e sub ts sg. isl (submit_attestation e ''A'' sub ts ''h'' sg s1))"
proof -
  obtain r where r: "att_records (c_attest sample_attested) 0 = Some r" "at_issuer r = ''A''" "at_payload_hash r = ''h''"
    by (simp add: sample_attested_def added_def)
  from attestations_immutable [OF sample_attested_inv r(1), of "sort_key fst"
      "[(accepting_env 9 1 {''A''}, AdminCall (Initialize ''A''))]", unfolded Let_def r(2,3)] r(2,3)
  show ?thesis unfolding Let_def by (intro exI [of _ r] conjI) (elim conjE, assumption)+
qed

text \<open>KYC: what a call does to the status of one subject.\<close>

lemma kyc_status_record:
  "kyc_records (c_kyc s) sub = Some r \<Longrightarrow> get_kyc_status e s sub = current_kyc_status e r"
  by (simp add: get_kyc_status_def)

lemma kyc_status_other:
  "kyc_records (c_kyc s') sub = kyc_records (c_kyc s) sub \<Longrightarrow> get_kyc_status e s' sub = get_kyc_status e s sub"
  by (simp add: get_kyc_status_def)

lemma kyc_status_of: "ky_expiry r = None \<Longrightarrow> ky_status r = kyc_u32 st \<Longrightarrow> current_kyc_status e r = st"
  by (simp add: current_kyc_status_def)

lemma exec_kyc_status:
  assumes "exec_kyc e c s = Inr s'" and inv: "kyc_inv (c_kyc s)"
  shows "get_kyc_status e s' sub = get_kyc_status e s sub \<or>
    kyc_edge (get_kyc_status e s sub) (get_kyc_status e s' sub)"
proof (cases c)
  case (SubmitKyc sb h a)
  with assms(1) have "submit_kyc e sb h a s = Inr s'" by simp
  from submit_kyc_ok [OF this] have
    v: "kyc_records (c_kyc s) sb = Some r \<Longrightarrow> kyc_edge (current_kyc_status e r) Pending"
    and new: "\<exists>r. kyc_records (c_kyc s') = (kyc_records (c_kyc s))(sb \<mapsto> r) \<and> ky_expiry r = None \<and>
        ky_status r = kyc_u32 Pending" for r
    by (auto simp: validate_kyc_transition_iff)
  show ?thesis
  proof (cases "sub = sb")
    case True
    have "kyc_edge (get_kyc_status e s sb) Pending"
      using v by (simp add: get_kyc_status_def split: option.split)
    moreover have "get_kyc_status e s' sb = Pending"
      using new by (auto simp: get_kyc_status_def kyc_status_of)
    ultimately show ?thesis using True by simp
  qed (use new in \<open>auto intro: kyc_status_other\<close>)
next
  case (ApproveKyc a sb)
  with assms(1) have "approve_kyc e a sb s = Inr s'" by simp
  from approve_kyc_ok [OF this] obtain r where fits: "unat (timestamp e) + 2592000 < 2 ^ 64"
    and r: "kyc_records (c_kyc s) sb = Some r" and v: "kyc_edge (current_kyc_status e r) Approved"
    and new: "kyc_records (c_kyc s') = (kyc_records (c_kyc s))(sb \<mapsto> r\<lparr>ky_status := kyc_u32 Approved,
        ky_reviewed_at := Some (timestamp e), ky_expiry := Some (timestamp e + KYC_EXPIRY_SECONDS)\<rparr>)"
    by (auto simp: validate_kyc_transition_iff put_kyc_def)
  have "unat (timestamp e + KYC_EXPIRY_SECONDS) = unat (timestamp e) + 2592000"
    using fits by (simp add: KYC_EXPIRY_SECONDS_def unat_word_ariths)
  then have "\<not> timestamp e + KYC_EXPIRY_SECONDS < timestamp e" by (simp add: word_less_nat_alt)
  then have "get_kyc_status e s' sb = Approved"
    by (simp add: get_kyc_status_def new current_kyc_status_def kyc_of_u32_def)
  with v kyc_status_record [of s, OF r] new show ?thesis
    by (cases "sub = sb") (auto intro: kyc_status_other)
next
  case (RejectKyc a sb h)
  with assms(1) have "reject_kyc e a sb h s = Inr s'" by simp
  from reject_kyc_ok [OF this] obtain r where
    r: "kyc_records (c_kyc s) sb = Some r" and v: "kyc_edge (current_kyc_status e r) Rejected"
    and new: "kyc_records (c_kyc s') = (kyc_records (c_kyc s))(sb \<mapsto> r\<lparr>ky_status := kyc_u32 Rejected,
        ky_reviewed_at := Some (timestamp e), ky_expiry := None, ky_rejection_reason_hash := Some h\<rparr>)"
    by (auto simp: validate_kyc_transition_iff put_kyc_def)
  have "get_kyc_status e s' sb = Rejected" by (simp add: get_kyc_status_def new kyc_status_of)
  with v kyc_status_record [of s, OF r] new show ?thesis
    by (cases "sub = sb") (auto intro: kyc_status_other)
next
  case (ReopenKyc a sb)
  with assms(1) have "reopen_kyc e a sb s = Inr s'" by simp
  from reopen_kyc_ok [OF this] obtain r where
    r: "kyc_records (c_kyc s) sb = Some r" and v: "kyc_edge (current_kyc_status e r) Reopened"
    and new: "kyc_records (c_kyc s') = (kyc_records (c_kyc s))(sb \<mapsto> r\<lparr>ky_status := kyc_u32 Reopened,
        ky_reviewed_at := Some (timestamp e)\<rparr>)"
    by (auto simp: validate_kyc_transition_iff put_kyc_def)
  have "ky_expiry r = None"
    using v kyc_current_status [OF kyc_invD [OF inv r], of e] by (auto split: option.splits if_splits)
  then have "get_kyc_status e s' sb = Reopened" by (simp add: get_kyc_status_def new kyc_status_of)
  with v kyc_status_record [of s, OF r] new show ?thesis
    by (cases "sub = sb") (auto intro: kyc_status_other)
next
  case (RecordComplianceCheck sb ct p sc)
  with assms(1) have "record_compliance_check e sb ct p sc s = Inr s'" by simp
  from record_compliance_check_ok [OF this] have "kyc_records (c_kyc s') = kyc_records (c_kyc s)"
    by (auto simp: store_compliance_check_Inr Let_def)
  then show ?thesis by (intro disjI1 kyc_status_other) simp
qed

text \<open>
  C8. The KYC status of a subject, as the contract reports it at the time of a call, is either left
  alone by the call or moves along an edge of the status machine: from nothing, expiry, rejection
  or reopening to pending, from pending to approved or rejected, from rejected to reopened.  In
  particular nobody becomes approved except from pending.
\<close>

theorem kyc_status_moves_along_edges:
  assumes "contract_inv s" and "exec srt e c s = Inr s'"
  shows "get_kyc_status e s' sub = get_kyc_status e s sub \<or>
    kyc_edge (get_kyc_status e s sub) (get_kyc_status e s' sub)"
proof (cases "PKyc \<in> set (footprint c)")
  case True
  then obtain x where "c = KycCall x" by (cases c) auto
  with assms(2) have "exec_kyc e x s = Inr s'" by simp
  then show ?thesis by (rule exec_kyc_status [OF _ contract_invD(6) [OF assms(1)]])
next
  case False
  from exec_footprint [OF assms False] show ?thesis by (intro disjI1 kyc_status_other) simp
qed

theorem kyc_status_moves_along_edges_witness:
  "\<exists>s'. exec (sort_key fst) (accepting_env 9 1 {''A''}) (AdminCall (Initialize ''A'')) fresh_contract = Inr s' \<and>
     (get_kyc_status (accepting_env 9 1 {''A''}) s' ''B'' = NotSubmitted \<or>
      kyc_edge NotSubmitted (get_kyc_status (accepting_env 9 1 {''A''}) s' ''B''))"
proof -
  obtain s' where run: "exec (sort_key fst) (accepting_env 9 1 {''A''}) (AdminCall (Initialize ''A'')) fresh_contract = Inr s'"
    using sample_initialize by blast
  have none: "get_kyc_status (accepting_env 9 1 {''A''}) fresh_contract ''B'' = NotSubmitted"
    by (simp add: get_kyc_status_def fresh_contract_def)
  from kyc_status_moves_along_edges [OF contract_inv_fresh run, of "''B''"] run show ?thesis
    unfolding none by blast
qed

text \<open>
  An approval lasts thirty days: whoever is reported as approved has a record that was reviewed
  at most 2592000 seconds before.
\<close>

theorem approval_lasts_thirty_days:
  assumes "contract_inv s" and "get_kyc_status e s sub = Approved"
  shows "\<exists>r reviewed. kyc_records (c_kyc s) sub = Some r \<and> ky_status r = kyc_u32 Approved \<and>
    ky_reviewed_at r = Some reviewed \<and> unat (timestamp e) \<le> unat reviewed + 2592000"
proof -
  obtain r where r: "kyc_records (c_kyc s) sub = Some r" and st: "current_kyc_status e r = Approved"
    using assms(2) by (auto simp: get_kyc_status_def split: option.split_asm)
  have wf: "kyc_record_wf sub r" by (rule kyc_invD [OF contract_invD(6) [OF assms(1)] r])
  show ?thesis
  proof (cases "ky_expiry r")
    case None
    with wf st show ?thesis by (auto simp: kyc_record_wf_def current_kyc_status_def kyc_of_u32_def)
  next
    case (Some t)
    with st have "\<not> t < timestamp e" by (auto simp: current_kyc_status_def split: if_split_asm)
    with Some wf r show ?thesis by (auto simp: kyc_record_wf_def word_less_nat_alt)
  qed
qed

definition sample_approved :: contract where
  "sample_approved = fresh_contract\<lparr>c_kyc := (c_kyc fresh_contract)\<lparr>
     kyc_records := [''B'' \<mapsto> \<lparr>ky_subject = ''B'', ky_status = kyc_u32 Approved, ky_submitted_at = 1,
       ky_reviewed_at = Some 5, ky_expiry = Some 2592005, ky_rejection_reason_hash = None,
       ky_schema_version = SCHEMA_V1\<rparr>], kyc_data := [''B'' \<mapsto> ''h'']\<rparr>\<rparr>"

lemma sample_approved_inv: "contract_inv sample_approved"
proof -
  have "kyc_inv (c_kyc sample_approved)"
    by (simp add: sample_approved_def kyc_inv_def kyc_record_wf_def)
  moreover have "comp_inv (c_kyc sample_approved)"
    by (simp add: sample_approved_def comp_inv_def fresh_contract_def Let_def)
  ultimately show ?thesis using contract_inv_fresh by (simp add: contract_inv_def sample_approved_def)
qed

theorem approval_lasts_thirty_days_witness:
  "get_kyc_status (accepting_env 9 1 {}) sample_approved ''B'' = Approved \<and>
   (\<exists>r reviewed. kyc_records (c_kyc sample_approved) ''B'' = Some r \<and> ky_reviewed_at r = Some reviewed \<and>
      unat (timestamp (accepting_env 9 1 {})) \<le> unat reviewed + 2592000)"
proof -
  have st: "get_kyc_status (accepting_env 9 1 {}) sample_approved ''B'' = Approved"
    by (simp add: get_kyc_status_def sample_approved_def current_kyc_status_def accepting_env_def kyc_of_u32_def)
  from approval_lasts_thirty_days [OF sample_approved_inv st] st show ?thesis by blast
qed

text \<open>
  C9. The compliance log refines an append-only list for each subject and kind of check: recording
  a check appends it to that list and changes no other; the latest check is the last element; the
  history query returns the newest elements, at most fifty; and the index lists exactly the kinds
  with a non-empty list.
\<close>

theorem compliance_log_refines_list:
  assumes "contract_inv s"
  shows "(record_compliance_check e sub ct p sc s = Inr s' \<longrightarrow>
      check_log (c_kyc s') = (check_log (c_kyc s))((sub, ct) := check_log (c_kyc s) (sub, ct) @
        [\<lparr>cc_subject = sub, cc_check_type = ct, cc_result = (if p then 1 else 0), cc_score = sc,
          cc_timestamp = timestamp e\<rparr>])) \<and>
    get_latest_compliance_check s sub ct =
      (if check_log (c_kyc s) (sub, ct) = [] then None else Some (last (check_log (c_kyc s) (sub, ct)))) \<and>
    get_compliance_check_history s sub ct limit =
      (let xs = check_log (c_kyc s) (sub, ct) in drop (length xs - min (unat limit) 50) xs) \<and>
    (ct \<in> set (list_subject_compliance_checks s sub)) = (check_log (c_kyc s) (sub, ct) \<noteq> [])"
proof -
  let ?k = "c_kyc s"
  let ?n = "get_or 0 (comp_count ?k (sub, ct))"
  have inv: "comp_inv ?k" by (rule contract_invD(7) [OF assms])
  have "record_compliance_check e sub ct p sc s = Inr s' \<longrightarrow>
      check_log (c_kyc s') = (check_log ?k)((sub, ct) := check_log ?k (sub, ct) @
        [\<lparr>cc_subject = sub, cc_check_type = ct, cc_result = (if p then 1 else 0), cc_score = sc,
          cc_timestamp = timestamp e\<rparr>])"
    by (auto dest!: record_compliance_check_ok check_log_store)
  moreover have empty: "check_log ?k (sub, ct) = [] \<longleftrightarrow> ?n = 0"
  proof -
    have "check_log ?k (sub, ct) = [] \<longleftrightarrow> unat ?n = 0"
      by (simp add: check_log_def id_range_def)
    then show ?thesis by (simp add: unat_eq_0)
  qed
  moreover have "get_latest_compliance_check s sub ct =
      (if check_log ?k (sub, ct) = [] then None else Some (last (check_log ?k (sub, ct))))"
  proof (cases "?n = 0")
    case True
    with inv empty show ?thesis by (simp add: get_latest_compliance_check_def comp_inv_def Let_def)
  next
    case False
    then have "unat ?n = Suc (unat (?n - 1))"
      by (metis Suc_pred' unat_minus_one unat_gt_0)
    then have last: "last (check_log ?k (sub, ct)) = the (comp_history ?k (sub, ct, ?n - 1))"
      by (simp add: check_log_def id_range_def)
    have "?n - 1 < ?n" using False by (simp add: word_less_nat_alt \<open>unat ?n = _\<close>)
    then have "comp_history ?k (sub, ct, ?n - 1) \<noteq> None" using inv by (simp add: comp_inv_def)
    moreover have "comp_latest ?k (sub, ct) = comp_history ?k (sub, ct, ?n - 1)"
      using inv False by (simp add: comp_inv_def Let_def)
    ultimately show ?thesis using False empty last by (auto simp: get_latest_compliance_check_def)
  qed
  moreover have "(ct \<in> set (list_subject_compliance_checks s sub)) = (?n \<noteq> 0)"
    using inv by (simp add: list_subject_compliance_checks_def comp_inv_def)
  ultimately show ?thesis
    using compliance_history_is_suffix [OF inv, of sub ct limit] by simp
qed

theorem compliance_log_refines_list_witness:
  "get_latest_compliance_check fresh_contract ''B'' ''kyc'' = None \<and>
   get_compliance_check_history fresh_contract ''B'' ''kyc'' 10 = []"
proof -
  have "check_log (c_kyc fresh_contract) (''B'', ''kyc'') = []"
    by (simp add: check_log_def fresh_contract_def)
  with compliance_log_refines_list [OF contract_inv_fresh, of "accepting_env 9 1 {}" "''B''" "''kyc''" True None _ 10]
  show ?thesis by simp
qed

text \<open>
  Each group of entry points only writes its own part of the storage, listed in its footprint;
  every other part is the same after the call as before.
\<close>

theorem calls_stay_in_footprint:
  assumes "contract_inv s" and "exec srt e c s = Inr s'" and "p \<notin> set (footprint c)"
  shows "same_part p s s'"
  using assms by (rule exec_footprint)

theorem calls_stay_in_footprint_witness:
  "\<exists>s'. exec (sort_key fst) (accepting_env 9 1 {''A''}) (AdminCall (Initialize ''A'')) fresh_contract = Inr s' \<and>
     same_part PKyc fresh_contract s'"
proof -
  obtain s' where run: "exec (sort_key fst) (accepting_env 9 1 {''A''}) (AdminCall (Initialize ''A'')) fresh_contract = Inr s'"
    using sample_initialize by blast
  from calls_stay_in_footprint [OF contract_inv_fresh run, of PKyc] run show ?thesis by simp
qed

text \<open>
  C5. In a contract that any history of calls has produced, a call moves a session along its life
  cycle only: it leaves session and operation count alone; or it is the creation that gives a free
  identifier an open session of the caller with no operations; or it is the close by the initiator,
  who authorised it, of a session that is open and not expired, and changes the state and the flag
  alone; or it is one of the three operations in this session, which is open, not expired and below
  its limit of one hundred, and adds one to the count.  Afterwards the session is well-typed: it is
  found under its own identifier, has the default life time, its state is \<open>Created\<close>, \<open>Active\<close> or
  \<open>Closed\<close> (the expired and exhausted states are never stored), the closed flag says which, only an
  unused session is \<open>Created\<close>, and the log has an entry number for exactly its operations.
\<close>

theorem session_life_cycle:
  assumes "reachable srt s" and "exec srt e c s = Inr s'"
  shows "session_step e c i (session_view s i) (session_view s' i) \<and> session_op_count s' i \<le> 100 \<and>
    (\<forall>k. (ses_log_ids (c_sessions s') (i, k) \<noteq> None) = (k < session_op_count s' i)) \<and>
    (case get_session s' i of
       Inl t \<Rightarrow> t = Panic SessionNotFound \<and> session_op_count s' i = 0
     | Inr se \<Rightarrow> se_session_id se = i \<and> se_session_ttl_seconds se = DEFAULT_SESSION_TTL \<and>
         se_state se \<in> {state_u32 Created, state_u32 Active, state_u32 Closed} \<and>
         (se_closed se \<longleftrightarrow> se_state se = state_u32 Closed) \<and>
         (se_state se \<noteq> state_u32 Created \<or> session_op_count s' i = 0))"
proof -
  have inv: "contract_inv s" by (rule reachable_inv [OF assms(1)])
  have "session_inv (c_sessions s')" by (rule contract_invD(5) [OF exec_contract_inv [OF inv assms(2)]])
  then have ids: "session_ids_inv (c_sessions s')" and ops: "session_ops_inv (c_sessions s')"
    and logs: "session_logs_inv (c_sessions s')" by (simp_all add: session_inv_def)
  have op: "op_count (c_sessions s') i = session_op_count s' i" by (simp add: session_op_count_def)
  have "session_op_count s' i \<le> 100" using ops unfolding session_ops_inv_def op [symmetric] by blast
  moreover have "\<forall>k. (ses_log_ids (c_sessions s') (i, k) \<noteq> None) = (k < session_op_count s' i)"
    using logs unfolding session_logs_inv_def op [symmetric] word_less_nat_alt by blast
  moreover have "case ses_sessions (c_sessions s') i of
       None \<Rightarrow> session_op_count s' i = 0
     | Some se \<Rightarrow> session_wf i se \<and> (se_state se \<noteq> state_u32 Created \<or> session_op_count s' i = 0)"
    using ids ops unfolding session_ids_inv_def session_ops_inv_def op [symmetric]
    by (auto split: option.split)
  ultimately show ?thesis
    using exec_session_step [OF inv assms(2)]
    by (auto simp: get_session_def of_option_def session_wf_def split: option.split_asm option.split)
qed

theorem session_life_cycle_witness:
  "\<exists>s1 s2 se. exec (sort_key fst) (accepting_env 9 1 {''A''}) (SessionCall (CreateSession ''A'')) fresh_contract = Inr s1 \<and>
     exec (sort_key fst) (accepting_env 10 1 {''A''}) (SessionCall (CloseSession 0 ''A'')) s1 = Inr s2 \<and>
     session_step (accepting_env 10 1 {''A''}) (SessionCall (CloseSession 0 ''A'')) 0 (session_view s1 0) (session_view s2 0) \<and>
     get_session s2 0 = Inr se \<and> se_closed se \<and> se_state se = state_u32 Closed"
proof -
  let ?c = "SessionCall (CreateSession ''A'')" and ?e = "accepting_env 9 1 {''A''}"
  obtain s1 where run: "exec (sort_key fst) ?e ?c fresh_contract = Inr s1"
    and se: "ses_sessions (c_sessions s1) 0 = Some \<lparr>se_session_id = 0, se_initiator = ''A'',
      se_created_at = 9, se_nonce = 0, se_operation_count = 0,
      se_session_ttl_seconds = DEFAULT_SESSION_TTL, se_closed = False, se_state = state_u32 Created\<rparr>"
    by (simp add: create_session_def require_auth_def require_def accepting_env_def fresh_contract_def
        Let_def plus_trap_def checked_add_def of_option_def storage_of_def)
  obtain s2 where close: "close_session (accepting_env 10 1 {''A''}) 0 ''A'' s1 = Inr s2"
    by (simp add: close_session_def se of_option_def accepting_env_def session_is_expired_def session_expiry_def
        session_ttl_def DEFAULT_SESSION_TTL_def from_u32_def require_auth_def require_def Let_def sat_add_def
        word_less_nat_alt validate_transition_def is_legal_transition_iff)
  then have close': "exec (sort_key fst) (accepting_env 10 1 {''A''}) (SessionCall (CloseSession 0 ''A'')) s1 = Inr s2"
    by simp
  from close_session_ok [OF close] obtain se2 where "get_session s2 0 = Inr se2" "se_closed se2"
    "se_state se2 = state_u32 Closed"
    by (auto simp: put_session_def get_session_def of_option_def)
  with session_life_cycle [OF reachable_step [OF reachable_fresh run] close', of 0] run close' show ?thesis
    by blast
qed

text \<open>
  C12. A migration call upgrades exactly one batch: afterwards every quote up to the cursor is of the
  second schema and has lost its routing reason, every other quote is untouched.  While quotes
  remain, exactly the batch size is rewritten, and the version waits; with the last batch, at most
  that many are rewritten, the cursor is gone, all quotes are upgraded, and the schema version is two.
\<close>

theorem migration_batch:
  assumes "contract_inv s" and "exec srt e (QuoteCall (Migrate v n)) s = Inr s'"
  shows "(\<forall>a i. quo_quotes (c_quotes s') (a, i) =
      (if upto_cursor (c_quotes s') i then map_option to_v2 (quo_quotes (c_quotes s) (a, i))
       else quo_quotes (c_quotes s) (a, i))) \<and>
    finite (rewritten (c_quotes s) (c_quotes s')) \<and>
    card (rewritten (c_quotes s) (c_quotes s')) \<le> unat n \<and>
    (quo_cursor (c_quotes s') = None \<or> card (rewritten (c_quotes s) (c_quotes s')) = unat n) \<and>
    n \<noteq> 0 \<and> current_version (c_schema s) = 1 \<and>
    current_version (c_schema s') = (if quo_cursor (c_quotes s') = None then 2 else 1) \<and>
    (quo_cursor (c_quotes s') = None \<longrightarrow>
       (\<forall>a i qt. quo_quotes (c_quotes s') (a, i) = Some qt \<longrightarrow> qu_schema_version qt = SCHEMA_V2))"
proof -
  from assms(2) have "migrate e v n s = Inr s'" by simp
  from migrate_ok [OF this] obtain k q au sch where cur: "current_version (c_schema s) = 1"
    and run: "migrate_quotes_to_v2 n (c_quotes s) = Inr (k, q)"
    and s': "s' = s\<lparr>c_quotes := q, c_audit := au, c_schema := sch\<rparr>"
    and sch: "if quo_cursor q \<noteq> None then sch = c_schema s
        else commit_version e 1 2 (step_label ToV2) (c_schema s) = Inr sch" by blast
  have inv: "quote_inv (c_quotes s)" by (rule contract_invD(8) [OF assms(1)])
  note ok = migrate_quotes_ok [OF run inv]
  have version: "current_version sch = (if quo_cursor q = None then 2 else 1)"
    using sch cur by (auto simp: commit_version_def Let_def bind_ok_Inr current_version_def split: if_split_asm)
  have v2: "qu_schema_version qt = SCHEMA_V2" if "quo_cursor q = None" "quo_quotes q (a, i) = Some qt" for a i qt
  proof -
    from ok that obtain qt0 where qt0: "quo_quotes (c_quotes s) (a, i) = Some qt0" "qt = to_v2 qt0"
      by (auto simp: upto_cursor_def)
    then have "quote_wf a i qt0" using inv unfolding quote_inv_def quote_content_inv_def by blast
    then show ?thesis
      using qt0(2) by (auto simp: quote_wf_def to_v2_def SCHEMA_V1_def SCHEMA_V2_def word_le_nat_alt)
  qed
  have "k \<le> n" "quo_cursor q = None \<or> k = n" using ok by (cases "quo_cursor q"; simp)+
  with migrate_quotes_count [OF run] have "finite (rewritten (c_quotes s) q)"
    "card (rewritten (c_quotes s) q) \<le> unat n"
    "quo_cursor q = None \<or> card (rewritten (c_quotes s) q) = unat n"
    by (auto simp: word_le_nat_alt)
  then show ?thesis using ok cur version v2 by (simp add: s')
qed

definition sample_quote :: "u64 \<Rightarrow> quote" where
  "sample_quote i = \<lparr>qu_quote_id = i, qu_anchor = ''A'', qu_base_asset = ''USD'', qu_quote_asset = ''EUR'',
     qu_rate = 1, qu_fee_percentage = 0, qu_minimum_amount = 0, qu_maximum_amount = 0,
     qu_valid_until = 100, qu_schema_version = SCHEMA_V1, qu_routing_reason = Some ''why''\<rparr>"

definition two_quotes :: quote_store where
  "two_quotes = store_quote (sample_quote 2) (store_quote (sample_quote 1) (c_quotes fresh_contract))"

definition sample_ready :: contract where
  "sample_ready = fresh_contract\<lparr>c_access := (c_access fresh_contract)\<lparr>acc_initialized := True,
     acc_admin := Some ''A''\<rparr>, c_schema := empty_schema_store\<lparr>sc_version := Some 1\<rparr>, c_quotes := two_quotes\<rparr>"

lemma two_quotes_inv: "quote_inv two_quotes"
proof -
  have wf: "quote_wf ''A'' i (sample_quote i)" for i by (simp add: quote_wf_def sample_quote_def)
  have none: "quote_count (c_quotes fresh_contract) = 0" by (simp add: fresh_contract_def)
  have one: "quote_inv (store_quote (sample_quote 1) (c_quotes fresh_contract))"
    by (rule store_quote_inv [OF quote_inv_empty, of "''A''"]) (simp_all add: none wf)
  have count: "quote_count (store_quote (sample_quote 1) (c_quotes fresh_contract)) = 1"
    by (simp add: store_quote_def append_quote_index_def Let_def sample_quote_def)
  show ?thesis
    unfolding two_quotes_def by (rule store_quote_inv [OF one, of "''A''"]) (simp_all add: count wf)
qed

lemma sample_ready_inv: "contract_inv sample_ready"
proof -
  have "schema_inv (empty_schema_store\<lparr>sc_version := Some 1\<rparr>)"
    by (simp add: schema_inv_def empty_schema_store_def migration_count_def)
  with contract_inv_fresh two_quotes_inv show ?thesis by (simp add: contract_inv_def sample_ready_def)
qed

theorem migration_batch_witness:
  "\<exists>s'. exec (sort_key fst) (accepting_env 9 1 {''A''}) (QuoteCall (Migrate 2 1)) sample_ready = Inr s' \<and>
     quo_cursor (c_quotes s') = Some 1 \<and> card (rewritten (c_quotes sample_ready) (c_quotes s')) = 1 \<and>
     map_option qu_schema_version (quo_quotes (c_quotes s') (''A'', 1)) = Some SCHEMA_V2 \<and>
     map_option qu_schema_version (quo_quotes (c_quotes s') (''A'', 2)) = Some SCHEMA_V1 \<and>
     current_version (c_schema s') = 1"
proof -
  have store: "quo_quotes two_quotes (''A'', 1) = Some (sample_quote 1)" "quo_index two_quotes = Some [1, 2]"
    "quo_anchor_ref two_quotes 1 = Some ''A''" "quo_anchor_ref two_quotes 2 = Some ''A''" "quo_cursor two_quotes = None"
    "quo_quotes two_quotes (''A'', 2) = Some (sample_quote 2)"
    by (simp_all add: two_quotes_def store_quote_def append_quote_index_def Let_def sample_quote_def fresh_contract_def)
  obtain q where quotes: "migrate_quotes_to_v2 1 two_quotes = Inr (1, q)" and cursor: "quo_cursor q = Some 1"
    by (simp add: migrate_quotes_to_v2_def store Let_def sample_quote_def SCHEMA_V1_def SCHEMA_V2_def
        plus_trap_def checked_add_def word_le_nat_alt)
  have ready: "acc_initialized (c_access sample_ready)" "current_version (c_schema sample_ready) = 1"
    "c_quotes sample_ready = two_quotes" "acc_admin (c_access sample_ready) = Some ''A''"
    "c_audit sample_ready = empty_audit_store"
    by (simp_all add: sample_ready_def fresh_contract_def current_version_def)
  have step: "validate_migration 2 (c_schema sample_ready) = Inr ToV2"
    by (simp add: validate_migration_iff ready)
  obtain s' where run: "exec (sort_key fst) (accepting_env 9 1 {''A''}) (QuoteCall (Migrate 2 1)) sample_ready = Inr s'"
    and s': "c_quotes s' = q"
    by (simp add: ready step store quotes cursor SCHEMA_V2_def migrate_def migrate_pending_quotes_def Let_def
        require_admin_def get_admin_def require_auth_def require_def of_option_def accepting_env_def
        audit_action_def log_action_def write_event_def get_audit_config_def default_audit_config_def
        get_entry_count_def empty_audit_store_def ttl_fits_def evict_oldest_def plus_trap_def checked_add_def)
  note batch = migration_batch [OF sample_ready_inv run, unfolded ready s' cursor]
  have "upto_cursor q 1" "\<not> upto_cursor q 2" by (simp_all add: upto_cursor_def cursor word_le_nat_alt)
  with batch have new: "quo_quotes q (''A'', 1) = Some (to_v2 (sample_quote 1))"
    "quo_quotes q (''A'', 2) = Some (sample_quote 2)" by (simp_all add: store)
  have versions: "qu_schema_version (to_v2 (sample_quote 1)) = SCHEMA_V2" "qu_schema_version (sample_quote 2) = SCHEMA_V1"
    by (simp_all add: to_v2_def sample_quote_def SCHEMA_V1_def SCHEMA_V2_def word_le_nat_alt)
  have "card (rewritten two_quotes q) = 1" "current_version (c_schema s') = 1" using batch by simp_all
  then show ?thesis
    by (intro exI [of _ s'] conjI run) (simp_all only: s' ready cursor new versions option.map)
qed

text \<open>
  When a quote is accepted: the receiver authorises the call, the quote exists and has not
  expired, and, if compliance is required, the receiver's latest \<open>kyc\<close> check passed.  Nothing else
  is asked; in particular the answer does not depend on the lifecycle state, so an invalidated
  quote is accepted like any other.
\<close>

theorem quote_acceptance:
  "(\<exists>s'. accept_quote_with_compliance e r a i c s = Inr (qt, s')) =
     (r \<in> auths e \<and> get_quote s a i = Inr qt \<and> timestamp e < qu_valid_until qt \<and>
      (c \<longrightarrow> (\<exists>chk. get_latest_compliance_check s r ''kyc'' = Some chk \<and> cc_result chk = 1))) \<and>
   (\<forall>lc s2. s2 = s\<lparr>c_quotes := (c_quotes s)\<lparr>quo_lifecycle := lc\<rparr>\<rparr> \<longrightarrow>
      isl (accept_quote_with_compliance e r a i c s2) = isl (accept_quote_with_compliance e r a i c s))"
proof -
  let ?ok = "\<lambda>s qt. r \<in> auths e \<and> quo_quotes (c_quotes s) (a, i) = Some qt \<and> timestamp e < qu_valid_until qt \<and>
      (c \<longrightarrow> (\<exists>chk. get_latest_compliance_check s r ''kyc'' = Some chk \<and> cc_result chk = 1))"
  have fails: "isl (accept_quote_with_compliance e r a i c s) \<longleftrightarrow> \<not> (\<exists>qt. ?ok s qt)" for s
  proof (cases "accept_quote_with_compliance e r a i c s")
    case (Inl x)
    then have "\<not> ?ok s qt" for qt
      using accept_quote_iff [of e r a i c s qt "emit (EvQuoteAccepted i r (timestamp e)) s"] by auto
    with Inl show ?thesis by auto
  next
    case (Inr y)
    then obtain qt s' where "accept_quote_with_compliance e r a i c s = Inr (qt, s')" by (cases y) auto
    then show ?thesis using accept_quote_iff [of e r a i c s qt s'] by auto
  qed
  have "isl (accept_quote_with_compliance e r a i c (s\<lparr>c_quotes := (c_quotes s)\<lparr>quo_lifecycle := lc\<rparr>\<rparr>)) =
      isl (accept_quote_with_compliance e r a i c s)" for lc
    unfolding fails by (simp add: get_latest_compliance_check_def)
  moreover have "get_quote s a i = Inr qt \<longleftrightarrow> quo_quotes (c_quotes s) (a, i) = Some qt"
    by (simp add: get_quote_def of_option_Inr)
  ultimately show ?thesis by (auto simp: accept_quote_iff)
qed

definition sample_quoted :: contract where
  "sample_quoted = fresh_contract\<lparr>c_quotes := (c_quotes fresh_contract)\<lparr>
     quo_quotes := [(''A'', 1) \<mapsto> \<lparr>qu_quote_id = 1, qu_anchor = ''A'', qu_base_asset = ''USD'',
       qu_quote_asset = ''EUR'', qu_rate = 1, qu_fee_percentage = 0, qu_minimum_amount = 0,
       qu_maximum_amount = 0, qu_valid_until = 100, qu_schema_version = 1, qu_routing_reason = None\<rparr>],
     quo_lifecycle := [(''A'', 1) \<mapsto> lifecycle_u32 QuoteInvalidated]\<rparr>\<rparr>"

theorem quote_acceptance_witness:
  "get_quote_lifecycle_state sample_quoted ''A'' 1 = QuoteInvalidated \<and>
   (\<exists>qt s'. accept_quote_with_compliance (accepting_env 9 1 {''R''}) ''R'' ''A'' 1 False sample_quoted = Inr (qt, s'))"
proof -
  obtain qt where "get_quote sample_quoted ''A'' 1 = Inr qt" "qu_valid_until qt = 100"
    by (simp add: get_quote_def sample_quoted_def of_option_def)
  with quote_acceptance [of "accepting_env 9 1 {''R''}" "''R''" "''A''" 1 False sample_quoted qt]
  show ?thesis by (auto simp: accepting_env_def get_quote_lifecycle_state_def sample_quoted_def)
qed

section \<open>Cache invalidation by quorum\<close>

text \<open>
  C7. A cache is invalidated by governance only on an open proposal: one that exists, has not been
  executed, has not expired, and whose endorsers - no attestor counts twice - are at least the
  quorum, which is never zero.  The call then leaves nothing cached for the proposal's anchor, and
  whatever calls follow, the same proposal cannot be executed a second time.
\<close>

theorem quorum_invalidation:
  assumes inv: "contract_inv s"
    and run: "exec srt e (AnchorCall (CacheCall (ExecuteCacheInvalidation i))) s = Inr s'"
  shows "\<exists>p. gov_proposals (governance s) i = Some p \<and> \<not> ip_executed p \<and> \<not> proposal_expired e p \<and>
    0 < gc_quorum (get_governance (governance s)) \<and>
    unat (gc_quorum (get_governance (governance s))) \<le> card (set (ip_endorsements p)) \<and>
    cached_metadata e s' (ip_anchor p) = None \<and> cached_capabilities e s' (ip_anchor p) = None \<and>
    (\<forall>cs e2. exec srt e2 (AnchorCall (CacheCall (ExecuteCacheInvalidation i))) (run (exec srt) cs s') =
       Inl (Panic ValidationError))"
proof -
  from run obtain a g where ex: "execute_proposal e i (governance s) = Inr (a, g)"
    and s': "s' = snd (invalidate_cache_internal e a (with_governance g s))"
    by (auto simp: execute_cache_invalidation_def bind_ok_Inr or_panic_Inr)
  from execute_proposal_ok [OF ex] obtain p where p: "gov_proposals (governance s) i = Some p" "\<not> proposal_expired e p"
    "\<not> ip_executed p" "ip_anchor p = a" "unat (gc_quorum (get_governance (governance s))) \<le> length (ip_endorsements p)"
    and g: "g = (governance s)\<lparr>gov_proposals := (gov_proposals (governance s))(i \<mapsto> p\<lparr>ip_executed := True\<rparr>)\<rparr>" by blast
  have gov: "governance_inv (governance s)" using contract_invD(11) [OF inv] by (simp add: anchor_inv_def)
  then have "distinct (ip_endorsements p)" and q: "0 < gc_quorum (get_governance (governance s))"
    using p(1) by (auto simp: governance_inv_def word_neq_0_conv)
  then have card: "card (set (ip_endorsements p)) = length (ip_endorsements p)" by (simp add: distinct_card)
  let ?p = "p\<lparr>ip_executed := True\<rparr>"
  have fin: "gov_proposals (governance s') i = Some ?p \<and> ip_executed ?p" by (simp add: s' g)
  have again: "exec srt e2 (AnchorCall (CacheCall (ExecuteCacheInvalidation i))) (run (exec srt) cs s') =
      Inl (Panic ValidationError)" for cs e2
  proof -
    have "gov_proposals (governance (run (exec srt) cs s')) i = Some ?p"
      using executed.run_fact [OF exec_contract_inv [OF inv run] fin] by blast
    then show ?thesis
      by (auto simp: execute_cache_invalidation_def execute_proposal_def open_proposal_def of_option_def or_panic_def)
  qed
  show ?thesis
    using p q card again invalidate_clears [of e a "with_governance g s"] by (auto simp: s')
qed

definition sample_proposed :: contract where
  "sample_proposed = fresh_contract\<lparr>c_anchors := empty_anchor_store\<lparr>an_governance := empty_governance\<lparr>
     gov_config := Some \<lparr>gc_quorum = 1, gc_expiry = 50\<rparr>, gov_count := Some 1,
     gov_proposals := [0 \<mapsto> \<lparr>ip_proposal_id = 0, ip_anchor = ''A'', ip_proposer = ''B'', ip_endorsements = [''B''],
       ip_created_at_ledger = 7, ip_expiry_ledgers = 50, ip_executed = False\<rparr>]\<rparr>\<rparr>\<rparr>"

lemma sample_proposed_inv: "contract_inv sample_proposed"
proof -
  have "governance_inv (an_governance (c_anchors sample_proposed))"
    using governance_inv_empty
    by (auto simp: governance_inv_def policies_ok_def get_policy_set_def get_governance_def proposal_count_def
        sample_proposed_def)
  with anchor_inv_empty have "anchor_inv (c_anchors sample_proposed)" by (simp add: anchor_inv_def sample_proposed_def)
  with contract_inv_fresh show ?thesis by (simp add: contract_inv_def sample_proposed_def)
qed

theorem quorum_invalidation_witness:
  "\<exists>s'. exec (sort_key fst) (accepting_env 9 20 {}) (AnchorCall (CacheCall (ExecuteCacheInvalidation 0))) sample_proposed = Inr s' \<and>
     exec (sort_key fst) (accepting_env 9 21 {}) (AnchorCall (CacheCall (ExecuteCacheInvalidation 0))) s' =
       Inl (Panic ValidationError)"
proof -
  obtain s' where ex: "exec (sort_key fst) (accepting_env 9 20 {}) (AnchorCall (CacheCall (ExecuteCacheInvalidation 0)))
      sample_proposed = Inr s'"
    by (simp add: execute_cache_invalidation_def execute_proposal_def open_proposal_def of_option_def or_panic_def
        proposal_expired_def sample_proposed_def get_governance_def accepting_env_def sat_add_def)
  from quorum_invalidation [OF sample_proposed_inv ex]
  have "exec (sort_key fst) e2 (AnchorCall (CacheCall (ExecuteCacheInvalidation 0))) (run (exec (sort_key fst)) [] s') =
      Inl (Panic ValidationError)" for e2 by blast
  then have "exec (sort_key fst) (accepting_env 9 21 {}) (AnchorCall (CacheCall (ExecuteCacheInvalidation 0))) s' =
      Inl (Panic ValidationError)" by (simp only: run.simps)
  with ex show ?thesis by blast
qed

section \<open>Transaction records of the contract\<close>

text \<open>
  Anyone can create, or reset, any transaction record: the call needs no authorisation, never
  fails, and whatever was stored under the identifier is replaced by a new pending record.
\<close>

theorem record_creation_resets:
  "\<exists>s'. exec srt e (TxnCall (CreateTransactionRecord i a rr)) s = Inr s' \<and>
     txs_records (c_txs s') i = Some (new_tx_record e i a rr) \<and>
     tx_state_of (new_tx_record e i a rr) = TxPending"
proof -
  obtain r s' where run: "create_txn_record_with_reason srt e i a rr s = (r, s')"
    by (cases "create_txn_record_with_reason srt e i a rr s")
  from create_txn_record_ok [OF run] run show ?thesis by (auto simp: storage_of_def new_tx_record_def)
qed

text \<open>
  C11. In a contract that any history of calls has produced, a call moves a transaction record along
  the state machine only: it leaves the record alone; or it creates (or replaces) it as a new pending
  record; or the creation of another record evicts it, and it was terminal; or it is the start,
  completion or failure of this record, a valid transition, and appends the new state and the time
  to the history and changes nothing but the state, the times, the error and, on failure, the
  recovery data.  Afterwards the history of the record is a path of the state machine: it starts at
  \<open>Pending\<close>, every step is a valid transition, it ends in the record's state, and it has at most
  three entries.
\<close>

theorem transaction_histories:
  assumes "reachable srt s" and "unstable_sort srt" and "exec srt e c s = Inr s'"
  shows "record_step e c i (txs_records (c_txs s) i) (txs_records (c_txs s') i) \<and>
    (case txs_records (c_txs s') i of
       None \<Rightarrow> get_txn_state_history s' i = Inl (Panic AttestationNotFound)
     | Some r \<Rightarrow> get_txn_state_history s' i = Inr (tx_history r) \<and>
         is_trail is_valid_transition (map fst (tx_history r)) \<and> hd (map fst (tx_history r)) = TxPending \<and>
         last (map fst (tx_history r)) = tx_state_of r \<and> length (tx_history r) \<le> 3)"
proof -
  have inv: "contract_inv s" by (rule reachable_inv [OF assms(1)])
  have tx: "tx_inv (c_txs s')" by (rule contract_invD(9) [OF exec_contract_inv [OF inv assms(3)]])
  have "is_trail is_valid_transition (map fst (tx_history r)) \<and> hd (map fst (tx_history r)) = TxPending \<and>
      last (map fst (tx_history r)) = tx_state_of r \<and> length (tx_history r) \<le> 3"
    if "txs_records (c_txs s') i = Some r" for r
    using tx_invD [OF tx that] valid_trail_bounded [of "map fst (tx_history r)"] by (simp add: record_wf_def)
  then show ?thesis
    using exec_record_step [OF inv assms(2,3)]
    by (auto simp: get_txn_state_history_def of_option_def split: option.split)
qed

theorem transaction_histories_witness:
  "\<exists>s1 s2. exec (sort_key fst) (accepting_env 9 1 {}) (TxnCall (CreateTransactionRecord 4 ''A'' None)) fresh_contract = Inr s1 \<and>
     exec (sort_key fst) (accepting_env 10 1 {}) (TxnCall (StartTransactionRecord 4)) s1 = Inr s2 \<and>
     record_step (accepting_env 10 1 {}) (TxnCall (StartTransactionRecord 4)) 4
       (txs_records (c_txs s1) 4) (txs_records (c_txs s2) 4) \<and>
     get_txn_state_history s2 4 = Inr [(TxPending, 9), (TxInProgress, 10)]"
proof -
  obtain r0 s1 where new: "create_txn_record_with_reason (sort_key fst) (accepting_env 9 1 {}) 4 ''A'' None fresh_contract = (r0, s1)"
    by (cases "create_txn_record_with_reason (sort_key fst) (accepting_env 9 1 {}) 4 ''A'' None fresh_contract")
  then have run: "exec (sort_key fst) (accepting_env 9 1 {}) (TxnCall (CreateTransactionRecord 4 ''A'' None)) fresh_contract = Inr s1"
    by (simp add: storage_of_def)
  have r0: "txs_records (c_txs s1) 4 = Some r0" "tx_state_of r0 = TxPending" "tx_history r0 = [(TxPending, 9)]"
    using create_txn_record_ok [OF new] by (auto simp: new_tx_record_def accepting_env_def)
  obtain r s2 where adv: "advance_transaction_state (accepting_env 10 1 {}) 4 TxInProgress None s1 = Inr (r, s2)"
    by (simp add: advance_transaction_state_def r0 of_option_def Let_def is_valid_transition_def)
  then have start: "exec (sort_key fst) (accepting_env 10 1 {}) (TxnCall (StartTransactionRecord 4)) s1 = Inr s2"
    by (simp add: start_transaction_record_def storage_of_def)
  from advance_transaction_state_ok [OF adv] have r: "txs_records (c_txs s2) 4 = Some r" "tx_history r = [(TxPending, 9), (TxInProgress, 10)]"
    using r0 by (auto simp: advance_record_def Let_def accepting_env_def)
  from transaction_histories [OF reachable_step [OF reachable_fresh run] stable_is_unstable start, of 4] r
  have step: "record_step (accepting_env 10 1 {}) (TxnCall (StartTransactionRecord 4)) 4
       (txs_records (c_txs s1) 4) (txs_records (c_txs s2) 4)" "get_txn_state_history s2 4 = Inr [(TxPending, 9), (TxInProgress, 10)]"
    by simp_all
  with run start show ?thesis by blast
qed

text \<open>
  The status summary counts the identifiers of the list that have a record, each as often as it
  is listed: an identifier that was created twice counts twice.
\<close>

theorem summary_counts_listing:
  assumes "length (get_or [] (txs_ids (c_txs s))) < 2 ^ 64"
  shows "summarize_transactions_by_status s = Inr (summary_of
    (List.map_filter (\<lambda>i. map_option tx_state_of (txs_records (c_txs s) i)) (get_or [] (txs_ids (c_txs s)))))"
  using summarize_ok [OF assms] by (simp add: states_listed_def)

theorem summary_counts_listing_witness:
  "map_sum id sm_total_count (summarize_transactions_by_status (fresh_contract\<lparr>c_txs := insert_tx
     (new_tx_record (accepting_env 9 1 {}) 4 ''A'' None) (insert_tx (new_tx_record (accepting_env 8 1 {}) 4 ''A'' None)
       empty_tx_store)\<rparr>)) = Inr 2"
proof -
  let ?s = "fresh_contract\<lparr>c_txs := insert_tx (new_tx_record (accepting_env 9 1 {}) 4 ''A'' None)
    (insert_tx (new_tx_record (accepting_env 8 1 {}) 4 ''A'' None) empty_tx_store)\<rparr>"
  have ids: "get_or [] (txs_ids (c_txs ?s)) = [4, 4]"
    by (simp add: insert_tx_def empty_tx_store_def new_tx_record_def)
  have rec: "txs_records (c_txs ?s) 4 \<noteq> None" by (simp add: insert_tx_def new_tx_record_def)
  from summary_counts_listing [of ?s] show ?thesis
    unfolding ids using rec by (auto simp: summary_of_def List.map_filter_simps)
qed

text \<open>
  C28. Eviction only removes terminal records, the oldest first: no listed terminal record that stays
  was created before one that goes; and at most the configured number of entries goes.
\<close>

theorem eviction_takes_oldest_terminal:
  assumes "unstable_sort srt" and "run_auto_eviction srt k t = (n, t')"
    and gone: "txs_records t i = Some r" "txs_records t' i = None"
  shows "tx_is_terminal (tx_state_of r) \<and> n \<le> unat k \<and>
    (\<forall>j rj. j \<in> set (get_or [] (txs_ids t)) \<longrightarrow> txs_records t' j = Some rj \<longrightarrow>
       tx_is_terminal (tx_state_of rj) \<longrightarrow> tx_timestamp r \<le> tx_timestamp rj)"
proof -
  let ?stamps = "terminal_stamps (txs_records t) (get_or [] (txs_ids t))"
  let ?gone = "set (evicted_ids srt k ?stamps)"
  note eff = run_auto_eviction_effect [OF assms(2)]
  have i: "i \<in> ?gone" using gone by (auto simp: eff(1) split: if_split_asm)
  with evicted_from_stamps [OF assms(1), of k ?stamps] gone(1) have "tx_is_terminal (tx_state_of r)"
    by (auto simp: set_terminal_stamps)
  moreover have "n \<le> unat k"
    using assms(2) by (auto simp: run_auto_eviction_def Let_def evicted_ids_def split: if_split_asm)
  moreover have "tx_timestamp r \<le> tx_timestamp rj"
    if "j \<in> set (get_or [] (txs_ids t))" "txs_records t' j = Some rj" "tx_is_terminal (tx_state_of rj)" for j rj
  proof -
    have "j \<notin> ?gone" and rj: "txs_records t j = Some rj" using that(2) by (auto simp: eff(1) split: if_split_asm)
    moreover have "(tx_timestamp rj, j) \<in> set ?stamps" using that rj by (auto simp: set_terminal_stamps)
    ultimately obtain u where "(u, i) \<in> set ?stamps" "u \<le> tx_timestamp rj"
      using evicted_are_oldest [OF assms(1) i] by blast
    with gone(1) show ?thesis by (auto simp: set_terminal_stamps)
  qed
  ultimately show ?thesis by blast
qed

theorem eviction_takes_oldest_terminal_witness:
  "\<exists>n t'. run_auto_eviction (sort_key fst) 1 (insert_tx sample_failed empty_tx_store) = (n, t') \<and>
     txs_records t' 7 = None \<and> tx_is_terminal (tx_state_of sample_failed) \<and> n \<le> 1"
proof -
  have id: "tx_id sample_failed = 7" "tx_state_of sample_failed = TxFailed"
    by (simp_all add: sample_failed_def new_tx_record_def advance_record_def Let_def)
  let ?t = "insert_tx sample_failed empty_tx_store"
  have rec: "txs_records ?t 7 = Some sample_failed" by (simp add: insert_tx_def id)
  obtain n t' where run: "run_auto_eviction (sort_key fst) 1 ?t = (n, t')"
    by (cases "run_auto_eviction (sort_key fst) 1 ?t")
  have "7 \<in> set (evicted_ids (sort_key fst) 1 (terminal_stamps (txs_records ?t) (get_or [] (txs_ids ?t))))"
    by (simp add: evicted_ids_def terminal_stamps_def insert_tx_def id empty_tx_store_def
        List.map_filter_simps tx_is_terminal_def)
  with run_auto_eviction_effect(1) [OF run] have "txs_records t' 7 = None" by simp
  from eviction_takes_oldest_terminal [OF stable_is_unstable run rec this] run this show ?thesis by auto
qed

end
